(* ===== verification/Prelude.thy ===== *)
theory Prelude
  imports Main "HOL-Library.Word" "HOL-Library.AList" "HOL-Library.Multiset"
    "HOL-Library.Char_ord" "HOL-Library.List_Lexorder"
begin

text \<open>
  The vocabulary every other theory shares: Go's outcomes (a value, an error, a panic), 64-bit
  signed integers, Go maps as association lists in an iteration order, and the generic lemmas
  about them.
\<close>

section \<open>Collections of facts\<close>

named_theorems outcome_simps \<open>rewriting of the outcome combinators\<close>
named_theorems int64_simps \<open>signed 64-bit values as integers\<close>

section \<open>Outcomes\<close>

text \<open>
  A Go function that returns an error as its last result either returns normally, returns the
  error, or panics. The third case is kept apart from the second: a caller cannot handle it.
\<close>

datatype ('e, 'a) outcome = Ok 'a | Err 'e | Panic

primrec andThen :: "('e, 'a) outcome \<Rightarrow> ('a \<Rightarrow> ('e, 'b) outcome) \<Rightarrow> ('e, 'b) outcome" where
  "andThen (Ok x) f = f x"
| "andThen (Err e) f = Err e"
| "andThen Panic f = Panic"

primrec mapErr :: "('e \<Rightarrow> 'f) \<Rightarrow> ('e, 'a) outcome \<Rightarrow> ('f, 'a) outcome" where
  "mapErr g (Ok x) = Ok x"
| "mapErr g (Err e) = Err (g e)"
| "mapErr g Panic = Panic"

primrec is_ok :: "('e, 'a) outcome \<Rightarrow> bool" where
  "is_ok (Ok _) = True"
| "is_ok (Err _) = False"
| "is_ok Panic = False"

text \<open>A Go \<open>T, error\<close> pair that reads a pointer or a partial function: \<open>None\<close> panics.\<close>

definition orPanic :: "'a option \<Rightarrow> ('e, 'a) outcome" where
  "orPanic x = (case x of Some y \<Rightarrow> Ok y | None \<Rightarrow> Panic)"

lemma orPanic_simps [simp]: "orPanic (Some x) = Ok x" "orPanic None = Panic"
  by (simp_all add: orPanic_def)

lemma andThen_eq_Ok [outcome_simps]:
  "andThen m f = Ok y \<longleftrightarrow> (\<exists>x. m = Ok x \<and> f x = Ok y)"
  by (cases m) auto

lemma andThen_eq_Panic [outcome_simps]:
  "andThen m f = Panic \<longleftrightarrow> m = Panic \<or> (\<exists>x. m = Ok x \<and> f x = Panic)"
  by (cases m) auto

lemma andThen_eq_Err [outcome_simps]:
  "andThen m f = Err e \<longleftrightarrow> m = Err e \<or> (\<exists>x. m = Ok x \<and> f x = Err e)"
  by (cases m) auto

lemma mapErr_eq_Ok [outcome_simps]: "mapErr g m = Ok x \<longleftrightarrow> m = Ok x"
  by (cases m) auto

lemma mapErr_eq_Panic [outcome_simps]: "mapErr g m = Panic \<longleftrightarrow> m = Panic"
  by (cases m) auto

lemma orPanic_eq_Ok [outcome_simps]: "orPanic x = Ok y \<longleftrightarrow> x = Some y"
  by (cases x) auto

lemma orPanic_eq_Panic [outcome_simps]: "orPanic x = Panic \<longleftrightarrow> x = None"
  by (cases x) auto

lemma orPanic_neq_Err [simp]: "orPanic x \<noteq> Err e"
  by (cases x) auto

lemma is_ok_iff [outcome_simps]: "is_ok m \<longleftrightarrow> (\<exists>x. m = Ok x)"
  by (cases m) auto

lemma if_Err_eq_Ok [outcome_simps]: "(if b then Err e else m) = Ok x \<longleftrightarrow> \<not> b \<and> m = Ok x"
  by simp

lemma andThen_assoc: "andThen (andThen m f) g = andThen m (\<lambda>x. andThen (f x) g)"
  by (cases m) auto

section \<open>Signed 64-bit integers\<close>

text \<open>
  Go's \<open>int64\<close> (and \<open>int\<close> on the 64-bit platforms the project targets): addition and
  subtraction wrap around, comparisons are signed. \<open>sint\<close> is the value, \<open>word_of_int\<close>
  the truncation of \<open>(*big.Int).Int64\<close>.
\<close>

type_synonym int64 = "64 word"

definition fits64 :: "int \<Rightarrow> bool" where
  "fits64 i \<longleftrightarrow> - 9223372036854775808 \<le> i \<and> i < 9223372036854775808"

definition maxInt64 :: int64 where
  "maxInt64 = 9223372036854775807"

lemma sint_word_of_int_fits [int64_simps]: "fits64 i \<Longrightarrow> sint (word_of_int i :: int64) = i"
  by (simp add: fits64_def sint_sbintrunc' signed_take_bit_int_eq_self)

lemma fits64_sint [simp, intro]: "fits64 (sint (w :: int64))"
  using sint_ge [of w] sint_lt [of w] by (simp add: fits64_def)

lemma sint_plus_fits [int64_simps]:
  "fits64 (sint a + sint b) \<Longrightarrow> sint (a + b :: int64) = sint a + sint b"
  by (simp add: sint_word_ariths fits64_def signed_take_bit_int_eq_self)

lemma sint_minus_fits [int64_simps]:
  "fits64 (sint a - sint b) \<Longrightarrow> sint (a - b :: int64) = sint a - sint b"
  by (simp add: sint_word_ariths fits64_def signed_take_bit_int_eq_self)

lemma sint64_bounds: "- 9223372036854775808 \<le> sint (w :: int64)" "sint (w :: int64) < 9223372036854775808"
  using fits64_sint [of w] by (simp_all add: fits64_def)

lemma sint64_eq_iff: "sint (a :: int64) = sint b \<longleftrightarrow> a = b"
  by (auto intro: signed_word_eqI)

lemma sint64_zero_iff [simp]: "sint (a :: int64) = 0 \<longleftrightarrow> a = 0"
  using sint64_eq_iff [of a 0] by simp

lemma word_of_int_sint64 [simp]: "word_of_int (sint (a :: int64)) = a"
  by (rule signed_word_eqI) (simp add: int64_simps)

text \<open>Truncated division, as \<open>(*big.Int).Quo\<close> and Go's \<open>/\<close> do it.\<close>

definition quo :: "int \<Rightarrow> int \<Rightarrow> int" where
  "quo a b = sgn a * sgn b * (\<bar>a\<bar> div \<bar>b\<bar>)"

definition rem_t :: "int \<Rightarrow> int \<Rightarrow> int" where
  "rem_t a b = a - b * quo a b"

lemma quo_nonneg [simp]: "0 \<le> a \<Longrightarrow> 0 < b \<Longrightarrow> quo a b = a div b"
  by (cases "a = 0") (simp_all add: quo_def)

lemma rem_t_nonneg [simp]: "0 \<le> a \<Longrightarrow> 0 < b \<Longrightarrow> rem_t a b = a mod b"
  by (simp add: rem_t_def minus_mult_div_eq_mod)

text \<open>Sums of words that stay in range.\<close>

lemma sint_sum_list_fits:
  "\<forall>x \<in> set xs. 0 \<le> sint (f x :: int64) \<Longrightarrow> (\<Sum>x\<leftarrow>xs. sint (f x)) < 9223372036854775808 \<Longrightarrow>
   sint (\<Sum>x\<leftarrow>xs. f x) = (\<Sum>x\<leftarrow>xs. sint (f x))"
proof (induction xs)
  case Nil
  then show ?case by simp
next
  case (Cons x xs)
  have nonneg: "0 \<le> (\<Sum>x\<leftarrow>xs. sint (f x))"
    using Cons.prems(1) by (auto intro!: sum_list_nonneg)
  have tail: "(\<Sum>x\<leftarrow>xs. sint (f x)) < 9223372036854775808"
    using Cons.prems by simp
  have "sint (\<Sum>x\<leftarrow>xs. f x) = (\<Sum>x\<leftarrow>xs. sint (f x))"
    using Cons.IH Cons.prems(1) tail by simp
  moreover have "fits64 (sint (f x) + (\<Sum>x\<leftarrow>xs. sint (f x)))"
    using Cons.prems nonneg by (simp add: fits64_def)
  ultimately show ?case
    by (simp add: int64_simps)
qed

section \<open>Go maps as association lists\<close>

text \<open>
  A Go map is an association list with distinct keys; the order of the list is the (unspecified)
  order in which \<open>range\<close> visits it. \<open>AList.update\<close> is assignment to a key and
  \<open>AList.delete\<close> is \<open>delete\<close>; a missing key reads as the zero value.
\<close>

abbreviation wf_map :: "('k \<times> 'v) list \<Rightarrow> bool" where
  "wf_map m \<equiv> distinct (map fst m)"

definition get0 :: "('k \<times> int64) list \<Rightarrow> 'k \<Rightarrow> int64" where
  "get0 m k = (case map_of m k of Some v \<Rightarrow> v | None \<Rightarrow> 0)"

definition add_to :: "'k \<Rightarrow> int64 \<Rightarrow> ('k \<times> int64) list \<Rightarrow> ('k \<times> int64) list" where
  "add_to k v m = AList.update k (get0 m k + v) m"

lemma wf_map_update [simp, intro]: "wf_map m \<Longrightarrow> wf_map (AList.update k v m)"
  by (simp add: distinct_update)

lemma wf_map_delete [simp, intro]: "wf_map m \<Longrightarrow> wf_map (AList.delete k m)"
  by (simp add: distinct_delete)

lemma wf_map_add_to [simp, intro]: "wf_map m \<Longrightarrow> wf_map (add_to k v m)"
  by (simp add: add_to_def)

lemma get0_add_to: "get0 (add_to k v m) k' = get0 m k' + (if k' = k then v else 0)"
  by (simp add: get0_def add_to_def update_conv')

lemma map_of_mset_eq:
  "wf_map m \<Longrightarrow> mset m = mset m' \<Longrightarrow> map_of m = map_of m'"
proof -
  assume wf: "wf_map m" and eq: "mset m = mset m'"
  have "wf_map m'" using wf mset_eq_imp_distinct_iff [of "map fst m" "map fst m'"] eq
    by (simp add: mset_map)
  moreover have "set m = set m'" using eq by (rule mset_eq_setD)
  ultimately show ?thesis
    using wf by (intro map_of_inject_set [THEN iffD2]) auto
qed

lemma map_of_update_alist: "map_of (AList.update k v m) = (map_of m)(k \<mapsto> v)"
  by (rule update_conv')

lemma map_of_delete_alist: "map_of (AList.delete k m) = (map_of m)(k := None)"
  by (rule delete_conv')

section \<open>ASCII strings\<close>

text \<open>\<open>strings.ToLower\<close> on ASCII names.\<close>

definition lower_char :: "char \<Rightarrow> char" where
  "lower_char c = (if of_char c \<in> {65..<91::nat} then char_of (of_char c + 32 :: nat) else c)"

definition ToLower :: "string \<Rightarrow> string" where
  "ToLower s = map lower_char s"

lemma length_ToLower [simp]: "length (ToLower s) = length s"
  by (simp add: ToLower_def)

lemma ToLower_append [simp]: "ToLower (s @ t) = ToLower s @ ToLower t"
  by (simp add: ToLower_def)

end
