(* ===== verification/GoTime.thy ===== *)
theory GoTime
  imports Prelude
begin

text \<open>
  The part of Go's package time the program uses, in UTC: civil timestamps with their
  chronological order, \<open>time.Date\<close> with month and day overflow, \<open>AddDate\<close>, and
  the year and month fields of the layout \<open>2006-01\<close>. A timestamp is its proleptic Gregorian
  date and the nanoseconds since midnight; Go's internal 64-bit seconds are not wrapped here.
\<close>

section \<open>Timestamps\<close>

datatype gotime = GoTime (t_year: int) (t_month: int) (t_day: int) (t_nanos: int)

text \<open>The zero \<open>time.Time\<close> is 1 January of year 1.\<close>

definition zeroTime :: gotime where
  "zeroTime = GoTime 1 1 1 0"

definition leap :: "int \<Rightarrow> bool" where
  "leap y \<longleftrightarrow> (4 dvd y \<and> \<not> 100 dvd y) \<or> 400 dvd y"

definition days_in_month :: "int \<Rightarrow> int \<Rightarrow> int" where
  "days_in_month y m =
     (if m = 2 then (if leap y then 29 else 28)
      else if m = 4 \<or> m = 6 \<or> m = 9 \<or> m = 11 then 30 else 31)"

definition valid_time :: "gotime \<Rightarrow> bool" where
  "valid_time t \<longleftrightarrow> 1 \<le> t_month t \<and> t_month t \<le> 12 \<and> 1 \<le> t_day t \<and>
     t_day t \<le> days_in_month (t_year t) (t_month t) \<and> 0 \<le> t_nanos t \<and> t_nanos t < 86400000000000"

text \<open>\<open>Time.Before\<close> is the strict chronological order: lexicographic on the fields.\<close>

instantiation gotime :: linorder
begin

definition less_eq_gotime :: "gotime \<Rightarrow> gotime \<Rightarrow> bool" where
  "less_eq_gotime a b \<longleftrightarrow> t_year a < t_year b \<or> t_year a = t_year b \<and>
     (t_month a < t_month b \<or> t_month a = t_month b \<and>
       (t_day a < t_day b \<or> t_day a = t_day b \<and> t_nanos a \<le> t_nanos b))"

definition less_gotime :: "gotime \<Rightarrow> gotime \<Rightarrow> bool" where
  "less_gotime a b \<longleftrightarrow> t_year a < t_year b \<or> t_year a = t_year b \<and>
     (t_month a < t_month b \<or> t_month a = t_month b \<and>
       (t_day a < t_day b \<or> t_day a = t_day b \<and> t_nanos a < t_nanos b))"

instance
  by standard (auto simp: less_eq_gotime_def less_gotime_def gotime.expand)

end

section \<open>Calendar arithmetic\<close>

definition next_day :: "gotime \<Rightarrow> gotime" where
  "next_day t =
     (if t_day t < days_in_month (t_year t) (t_month t)
      then GoTime (t_year t) (t_month t) (t_day t + 1) (t_nanos t)
      else if t_month t < 12 then GoTime (t_year t) (t_month t + 1) 1 (t_nanos t)
      else GoTime (t_year t + 1) 1 1 (t_nanos t))"

definition prev_day :: "gotime \<Rightarrow> gotime" where
  "prev_day t =
     (if 1 < t_day t then GoTime (t_year t) (t_month t) (t_day t - 1) (t_nanos t)
      else if 1 < t_month t
      then GoTime (t_year t) (t_month t - 1) (days_in_month (t_year t) (t_month t - 1)) (t_nanos t)
      else GoTime (t_year t - 1) 12 31 (t_nanos t))"

fun iter_days :: "(gotime \<Rightarrow> gotime) \<Rightarrow> nat \<Rightarrow> gotime \<Rightarrow> gotime" where
  "iter_days f 0 t = t"
| "iter_days f (Suc n) t = iter_days f n (f t)"

definition add_days :: "int \<Rightarrow> gotime \<Rightarrow> gotime" where
  "add_days n t = (if 0 \<le> n then iter_days next_day (nat n) t else iter_days prev_day (nat (- n)) t)"

lemma iter_days_funpow: "iter_days f n t = (f ^^ n) t"
  by (induction n arbitrary: t) (simp_all add: funpow_swap1)

text \<open>
  \<open>time.Date\<close>: the month is normalised into the year, then the day is counted from the first
  of that month.
\<close>

definition time_Date :: "int \<Rightarrow> int \<Rightarrow> int \<Rightarrow> int \<Rightarrow> gotime" where
  "time_Date y m d ns =
     add_days (d - 1) (GoTime (y + (m - 1) div 12) ((m - 1) mod 12 + 1) 1 ns)"

definition AddDate :: "gotime \<Rightarrow> int \<Rightarrow> int \<Rightarrow> int \<Rightarrow> gotime" where
  "AddDate t years months days =
     time_Date (t_year t + years) (t_month t + months) (t_day t + days) (t_nanos t)"

lemma days_in_month_bounds: "28 \<le> days_in_month y m" "days_in_month y m \<le> 31"
  by (auto simp: days_in_month_def)

lemma valid_next_day: "valid_time t \<Longrightarrow> valid_time (next_day t)"
  using days_in_month_bounds by (auto simp: valid_time_def next_day_def days_in_month_def)

lemma valid_prev_day: "valid_time t \<Longrightarrow> valid_time (prev_day t)"
  by (auto simp: valid_time_def prev_day_def days_in_month_def split: if_splits)

lemma less_next_day: "t < next_day t"
  by (simp add: less_gotime_def next_day_def)

lemma valid_next_days: "valid_time t \<Longrightarrow> valid_time ((next_day ^^ n) t)"
  by (induction n) (auto intro: valid_next_day)

lemma valid_prev_days: "valid_time t \<Longrightarrow> valid_time ((prev_day ^^ n) t)"
  by (induction n) (auto intro: valid_prev_day)

lemma valid_add_days: "valid_time t \<Longrightarrow> valid_time (add_days n t)"
  by (simp add: add_days_def iter_days_funpow valid_next_days valid_prev_days)

lemma next_days_ge: "t \<le> (next_day ^^ n) t"
  by (induction n) (auto intro: order.trans less_imp_le less_next_day)

lemma next_days_gt: "0 < n \<Longrightarrow> t < (next_day ^^ n) t"
proof (cases n)
  case (Suc k)
  have "t \<le> (next_day ^^ k) t" by (rule next_days_ge)
  also have "\<dots> < next_day ((next_day ^^ k) t)" by (rule less_next_day)
  finally show ?thesis using Suc by simp
qed simp

lemma less_add_days: "0 < n \<Longrightarrow> t < add_days n t"
  by (simp add: add_days_def iter_days_funpow next_days_gt)

lemma add_days_0 [simp]: "add_days 0 t = t"
  by (simp add: add_days_def)

lemma valid_time_Date:
  "0 \<le> ns \<Longrightarrow> ns < 86400000000000 \<Longrightarrow> valid_time (time_Date y m d ns)"
proof -
  assume "0 \<le> ns" "ns < 86400000000000"
  then have "valid_time (GoTime (y + (m - 1) div 12) ((m - 1) mod 12 + 1) 1 ns)"
    using days_in_month_bounds(1) [of "y + (m - 1) div 12" "(m - 1) mod 12 + 1"]
    by (simp add: valid_time_def)
  then show ?thesis
    by (simp add: time_Date_def valid_add_days)
qed

lemma time_Date_first:
  "time_Date y m 1 ns = GoTime (y + (m - 1) div 12) ((m - 1) mod 12 + 1) 1 ns"
  by (simp add: time_Date_def)

section \<open>Decimal digits\<close>

definition digit :: "nat \<Rightarrow> char" where
  "digit d = char_of (48 + d)"

definition is_digit :: "char \<Rightarrow> bool" where
  "is_digit c \<longleftrightarrow> 48 \<le> (of_char c :: nat) \<and> (of_char c :: nat) \<le> 57"

definition digit_val :: "char \<Rightarrow> nat" where
  "digit_val c = of_char c - 48"

fun show_nat :: "nat \<Rightarrow> string" where
  "show_nat n = (if n < 10 then [digit n] else show_nat (n div 10) @ [digit (n mod 10)])"

declare show_nat.simps [simp del]

text \<open>\<open>appendInt\<close> of package time: a sign, then the digits padded with zeros to a width.\<close>

definition pad_int :: "int \<Rightarrow> nat \<Rightarrow> string" where
  "pad_int i w =
     (let ds = show_nat (nat \<bar>i\<bar>)
      in (if i < 0 then ''-'' else []) @ replicate (w - length ds) CHR ''0'' @ ds)"

lemma digit_val_digit [simp]: "d < 10 \<Longrightarrow> digit_val (digit d) = d"
  by (simp add: digit_val_def digit_def)

lemma is_digit_digit [simp]: "d < 10 \<Longrightarrow> is_digit (digit d)"
  by (simp add: is_digit_def digit_def)

lemma digit_digit_val [simp]: "is_digit c \<Longrightarrow> digit (digit_val c) = c"
  by (simp add: is_digit_def digit_def digit_val_def)

lemma digit_val_le: "is_digit c \<Longrightarrow> digit_val c \<le> 9"
  unfolding is_digit_def digit_val_def by linarith

lemma digit_less: "d < 10 \<Longrightarrow> e < 10 \<Longrightarrow> digit d < digit e \<longleftrightarrow> d < e"
  by (simp add: digit_def less_char_def)

lemma digit_eq: "d < 10 \<Longrightarrow> e < 10 \<Longrightarrow> digit d = digit e \<longleftrightarrow> d = e"
  by (metis digit_val_digit)

lemma digit_0: "digit 0 = CHR ''0''"
  by code_simp

lemma show_nat_step: "10 \<le> n \<Longrightarrow> show_nat n = show_nat (n div 10) @ [digit (n mod 10)]"
  by (subst show_nat.simps) simp

lemma show_nat_1: "n < 10 \<Longrightarrow> show_nat n = [digit n]"
  by (subst show_nat.simps) simp

lemma show_nat_2:
  assumes "10 \<le> n" "n < 100"
  shows "show_nat n = [digit (n div 10), digit (n mod 10)]"
proof -
  have "n div 10 < 10" using assms by linarith
  then show ?thesis using assms by (simp add: show_nat_step show_nat_1)
qed

lemma show_nat_3:
  assumes "100 \<le> n" "n < 1000"
  shows "show_nat n = [digit (n div 100), digit (n div 10 mod 10), digit (n mod 10)]"
proof -
  have "10 \<le> n div 10" "n div 10 < 100" using assms by linarith+
  then show ?thesis using assms by (simp add: show_nat_step [of n] show_nat_2 div_mult2_eq [symmetric])
qed

lemma show_nat_4:
  assumes "1000 \<le> n" "n < 10000"
  shows "show_nat n = [digit (n div 1000), digit (n div 100 mod 10), digit (n div 10 mod 10), digit (n mod 10)]"
proof -
  have "100 \<le> n div 10" "n div 10 < 1000" using assms by linarith+
  then show ?thesis using assms by (simp add: show_nat_step [of n] show_nat_3 div_mult2_eq [symmetric])
qed

lemma pad_int_2: "m < 100 \<Longrightarrow> pad_int (int m) 2 = [digit (m div 10), digit (m mod 10)]"
  by (cases "m < 10") (simp_all add: pad_int_def show_nat_1 show_nat_2 digit_0)

lemma replicate_small: "replicate (Suc 0) x = [x]" "replicate 2 x = [x, x]" "replicate 3 x = [x, x, x]"
  by (simp_all add: numeral_2_eq_2 numeral_3_eq_3)

lemma pad_int_4:
  assumes "n < 10000"
  shows "pad_int (int n) 4 =
    [digit (n div 1000), digit (n div 100 mod 10), digit (n div 10 mod 10), digit (n mod 10)]"
proof -
  consider "n < 10" | "10 \<le> n" "n < 100" | "100 \<le> n" "n < 1000" | "1000 \<le> n"
    by linarith
  then show ?thesis
  proof cases
    case 1
    then show ?thesis by (simp add: pad_int_def show_nat_1 digit_0 replicate_small)
  next
    case 2
    then have "n div 10 < 10" by linarith
    with 2 show ?thesis by (simp add: pad_int_def show_nat_2 digit_0 replicate_small)
  next
    case 3
    then have "n div 100 < 10" by linarith
    with 3 show ?thesis by (simp add: pad_int_def show_nat_3 digit_0)
  next
    case 4
    with assms show ?thesis by (simp add: pad_int_def show_nat_4)
  qed
qed

end
