(* ===== verification/Month.thy ===== *)
theory Month
  imports GoTime
begin

text \<open>
  \<^verbatim>\<open>contributor/month.go\<close>: a month is a string in the form \<open>YYYY-MM\<close>. The theory
  relates the string operations of the code to the months counted from January of year 0: parsing
  and printing are inverse, the string order is the chronological order, and \<open>Add\<close> moves
  along the count.
\<close>

section \<open>The code\<close>

type_synonym month = string

datatype month_err = MonthSyntax month | MonthNotCanonical month

text \<open>
  \<open>time.Parse("2006-01", s)\<close>: four digits, a dash, two digits with a month in range, nothing
  more; the result is the first instant of that month.
\<close>

definition time_Parse :: "string \<Rightarrow> gotime option" where
  "time_Parse s =
     (case s of
        [a, b, c, d, h, e, f] \<Rightarrow>
          (if is_digit a \<and> is_digit b \<and> is_digit c \<and> is_digit d \<and> h = CHR ''-'' \<and>
              is_digit e \<and> is_digit f
           then (let y = 1000 * digit_val a + 100 * digit_val b + 10 * digit_val c + digit_val d;
                     m = 10 * digit_val e + digit_val f
                 in if 1 \<le> m \<and> m \<le> 12 then Some (GoTime (int y) (int m) 1 0) else None)
           else None)
      | _ \<Rightarrow> None)"

definition MonthOf :: "gotime \<Rightarrow> month" where
  "MonthOf t = pad_int (t_year t) 4 @ ''-'' @ pad_int (t_month t) 2"

definition Month_Validate :: "month \<Rightarrow> (month_err, unit) outcome" where
  "Month_Validate m =
     (case time_Parse m of
        None \<Rightarrow> Err (MonthSyntax m)
      | Some t \<Rightarrow> (if MonthOf t \<noteq> m then Err (MonthNotCanonical m) else Ok ()))"

definition ParseMonth :: "string \<Rightarrow> (month_err, month) outcome" where
  "ParseMonth s = andThen (Month_Validate s) (\<lambda>_. Ok s)"

text \<open>\<open>Time\<close> panics on a month that does not parse, and \<open>Add\<close> through it.\<close>

definition Month_Time :: "month \<Rightarrow> ('e, gotime) outcome" where
  "Month_Time m = orPanic (time_Parse m)"

definition Month_Add :: "month \<Rightarrow> int \<Rightarrow> ('e, month) outcome" where
  "Month_Add m n = andThen (Month_Time m) (\<lambda>t. Ok (MonthOf (AddDate t 0 n 0)))"

definition Month_Next :: "month \<Rightarrow> ('e, month) outcome" where
  "Month_Next m = Month_Add m 1"

definition Month_Prev :: "month \<Rightarrow> ('e, month) outcome" where
  "Month_Prev m = Month_Add m (- 1)"

definition Month_Before :: "month \<Rightarrow> month \<Rightarrow> bool" where
  "Month_Before m o' \<longleftrightarrow> m < o'"

section \<open>Months as numbers\<close>

text \<open>The month with a given count of months since January of year 0.\<close>

definition month_at :: "int \<Rightarrow> month" where
  "month_at i = MonthOf (GoTime (i div 12) (i mod 12 + 1) 1 0)"

definition month_index :: "month \<Rightarrow> int" where
  "month_index m = (case time_Parse m of Some t \<Rightarrow> 12 * t_year t + t_month t - 1 | None \<Rightarrow> - 1)"

definition valid_month :: "month \<Rightarrow> bool" where
  "valid_month m \<longleftrightarrow> time_Parse m \<noteq> None"

text \<open>Evaluation of the parser on literals.\<close>

lemmas month_eval = valid_month_def time_Parse_def is_digit_def digit_val_def

abbreviation in_months :: "int \<Rightarrow> bool" where
  "in_months i \<equiv> 0 \<le> i \<and> i < 120000"

lemma MonthOf_digits:
  assumes "y < 10000" "m < 100"
  shows "MonthOf (GoTime (int y) (int m) d ns) =
    [digit (y div 1000), digit (y div 100 mod 10), digit (y div 10 mod 10), digit (y mod 10),
     CHR ''-'', digit (m div 10), digit (m mod 10)]"
  using assms by (simp add: MonthOf_def pad_int_4 pad_int_2)

lemma digits4: "1000 * (y div 1000) + 100 * (y div 100 mod 10) + 10 * (y div 10 mod 10) + y mod 10 = (y::nat)"
proof -
  define a b where "a = y div 10" and "b = a div 10"
  have "y div 100 = b" "y div 1000 = b div 10"
    by (simp_all add: a_def b_def div_mult2_eq [symmetric])
  moreover have "y = 10 * a + y mod 10" "a = 10 * b + a mod 10" "b = 10 * (b div 10) + b mod 10"
    by (simp_all add: a_def b_def)
  ultimately show ?thesis by (simp only: a_def [symmetric])
qed

lemma digits4_le:
  fixes y :: nat
  assumes "y < 10000"
  shows "y div 1000 < 10" "y div 100 mod 10 < 10" "y div 10 mod 10 < 10" "y mod 10 < 10"
proof -
  show "y div 1000 < 10" using assms by linarith
qed simp_all

lemma parse_MonthOf:
  assumes "y < 10000" "1 \<le> m" "m \<le> 12"
  shows "time_Parse (MonthOf (GoTime (int y) (int m) d ns)) = Some (GoTime (int y) (int m) 1 0)"
proof -
  have "m div 10 < 10" using assms by linarith
  moreover have "10 * (m div 10) + m mod 10 = m" by presburger
  ultimately show ?thesis
    using assms digits4 [of y] digits4_le [of y]
    by (simp add: MonthOf_digits time_Parse_def)
qed

lemma parse_Some_iff:
  "time_Parse s = Some t \<longleftrightarrow>
     (\<exists>y m. y < 10000 \<and> 1 \<le> m \<and> m \<le> 12 \<and> t = GoTime (int y) (int m) 1 0 \<and>
        s = MonthOf (GoTime (int y) (int m) 1 0))"
proof
  assume parsed: "time_Parse s = Some t"
  then obtain a b c d e f where s: "s = [a, b, c, d, CHR ''-'', e, f]"
    and ds: "is_digit a" "is_digit b" "is_digit c" "is_digit d" "is_digit e" "is_digit f"
    by (auto simp: time_Parse_def split: list.splits if_splits)
  define A B C D F G where "A = digit_val a" and "B = digit_val b" and "C = digit_val c"
    and "D = digit_val d" and "F = digit_val e" and "G = digit_val f"
  define y m where "y = 1000 * A + 100 * B + 10 * C + D" and "m = 10 * F + G"
  have le: "A \<le> 9" "B \<le> 9" "C \<le> 9" "D \<le> 9" "F \<le> 9" "G \<le> 9"
    using ds by (simp_all add: digit_val_le A_def B_def C_def D_def F_def G_def)
  have m: "1 \<le> m" "m \<le> 12" and t: "t = GoTime (int y) (int m) 1 0"
    using parsed ds unfolding s y_def m_def A_def B_def C_def D_def F_def G_def
    by (auto simp: time_Parse_def Let_def split: if_splits)
  have y: "y < 10000" using le by (simp add: y_def)
  have y10: "y = 10 * (10 * (10 * A + B) + C) + D" unfolding y_def by simp
  have mod10: "\<And>z d :: nat. d \<le> 9 \<Longrightarrow> (10 * z + d) mod 10 = d" by (subst mod_mult_self4) simp
  have div10: "\<And>z d :: nat. d \<le> 9 \<Longrightarrow> (10 * z + d) div 10 = z" by simp
  have "y mod 10 = D" "y div 10 = 10 * (10 * A + B) + C"
    using le unfolding y10 by (auto simp only: mod10 div10)
  moreover have "y div 100 = y div 10 div 10" "y div 1000 = y div 10 div 10 div 10"
    by (simp_all add: div_mult2_eq [symmetric])
  moreover have "m div 10 = F" "m mod 10 = G"
    using le unfolding m_def by (auto simp only: mod10 div10)
  ultimately have "y div 1000 = A" "y div 100 mod 10 = B" "y div 10 mod 10 = C" "y mod 10 = D"
    "m div 10 = F" "m mod 10 = G"
    using le by (simp_all only: mod10 div10)
  then have "MonthOf (GoTime (int y) (int m) 1 0) = s"
    using y m ds by (simp add: MonthOf_digits s A_def B_def C_def D_def F_def G_def)
  with y m t show "\<exists>y m. y < 10000 \<and> 1 \<le> m \<and> m \<le> 12 \<and> t = GoTime (int y) (int m) 1 0 \<and>
        s = MonthOf (GoTime (int y) (int m) 1 0)"
    by blast
next
  assume "\<exists>y m. y < 10000 \<and> 1 \<le> m \<and> m \<le> 12 \<and> t = GoTime (int y) (int m) 1 0 \<and>
        s = MonthOf (GoTime (int y) (int m) 1 0)"
  then show "time_Parse s = Some t" by (auto simp: parse_MonthOf)
qed

lemma parse_month_at:
  assumes "in_months i"
  shows "time_Parse (month_at i) = Some (GoTime (i div 12) (i mod 12 + 1) 1 0)"
proof -
  have "nat (i div 12) < 10000" "1 \<le> nat (i mod 12 + 1)" "nat (i mod 12 + 1) \<le> 12"
    using assms by linarith+
  moreover have "int (nat (i div 12)) = i div 12" "int (nat (i mod 12 + 1)) = i mod 12 + 1"
    using assms by simp_all
  ultimately show ?thesis
    using parse_MonthOf [of "nat (i div 12)" "nat (i mod 12 + 1)" 1 0]
    by (simp only: month_at_def)
qed

lemma month_index_month_at: "in_months i \<Longrightarrow> month_index (month_at i) = i"
  by (simp add: month_index_def parse_month_at)

lemma valid_month_at: "in_months i \<Longrightarrow> valid_month (month_at i)"
  by (simp add: valid_month_def parse_month_at)

lemma month_at_index:
  assumes "valid_month m"
  shows "month_at (month_index m) = m" "in_months (month_index m)"
proof -
  obtain y k where yk: "y < 10000" "1 \<le> k" "k \<le> 12" "m = MonthOf (GoTime (int y) (int k) 1 0)"
    "time_Parse m = Some (GoTime (int y) (int k) 1 0)"
    using assms parse_Some_iff [of m] by (auto simp: valid_month_def)
  then have i: "month_index m = 12 * int y + (int k - 1)"
    by (simp add: month_index_def)
  have "month_index m div 12 = int y" "month_index m mod 12 = int k - 1"
    using yk(2,3) unfolding i by simp_all
  then show "month_at (month_index m) = m"
    using yk(4) by (simp add: month_at_def)
  show "in_months (month_index m)"
    using yk(1-3) by (simp add: i)
qed

lemma month_index_inject: "valid_month a \<Longrightarrow> valid_month b \<Longrightarrow> month_index a = month_index b \<longleftrightarrow> a = b"
  by (metis month_at_index(1))

text \<open>The second check of \<open>Validate\<close> never fails: a month that parses is canonical.\<close>

lemma Validate_eq: "Month_Validate m = (if valid_month m then Ok () else Err (MonthSyntax m))"
proof (cases "time_Parse m")
  case (Some t)
  then have "MonthOf t = m" by (auto simp: parse_Some_iff)
  with Some show ?thesis by (simp add: Month_Validate_def valid_month_def)
qed (simp add: Month_Validate_def valid_month_def)

lemma Month_Validate_Ok [outcome_simps]: "Month_Validate m = Ok u \<longleftrightarrow> valid_month m"
  by (simp add: Validate_eq)

lemma Month_Validate_Panic [simp]: "Month_Validate m \<noteq> Panic"
  by (simp add: Validate_eq)

lemma Month_Time_valid: "valid_month m \<Longrightarrow>
   Month_Time m = Ok (GoTime (month_index m div 12) (month_index m mod 12 + 1) 1 0)"
  using parse_month_at [of "month_index m"] month_at_index [of m] by (simp add: Month_Time_def)

lemma Month_Time_invalid: "\<not> valid_month m \<Longrightarrow> Month_Time m = Panic"
  by (simp add: Month_Time_def valid_month_def)

lemma Month_Add_eq: "valid_month m \<Longrightarrow> Month_Add m n = Ok (month_at (month_index m + n))"
proof -
  assume v: "valid_month m"
  let ?i = "month_index m"
  have "?i + n = ?i mod 12 + n + 12 * (?i div 12)" by simp
  then have "?i div 12 + (?i mod 12 + n) div 12 = (?i + n) div 12"
    by (metis add.commute div_mult_self2 zero_neq_numeral)
  moreover have "(?i mod 12 + n) mod 12 = (?i + n) mod 12" by (simp add: mod_simps)
  ultimately have "AddDate (GoTime (?i div 12) (?i mod 12 + 1) 1 0) 0 n 0 =
      GoTime ((?i + n) div 12) ((?i + n) mod 12 + 1) 1 0"
    by (simp add: AddDate_def time_Date_first add.commute add.left_commute)
  with v show ?thesis
    by (simp add: Month_Add_def Month_Time_valid month_at_def)
qed

lemma Month_Add_invalid: "\<not> valid_month m \<Longrightarrow> Month_Add m n = Panic"
  by (simp add: Month_Add_def Month_Time_invalid)

lemma Month_Next_valid: "valid_month m \<Longrightarrow> Month_Next m = Ok (month_at (month_index m + 1))"
  by (simp add: Month_Next_def Month_Add_eq)

lemma Month_Prev_valid: "valid_month m \<Longrightarrow> Month_Prev m = Ok (month_at (month_index m - 1))"
  by (simp add: Month_Prev_def Month_Add_eq)

text \<open>The string order is the chronological order.\<close>

lemma nat_less_div: "(x::nat) < y \<longleftrightarrow> x div 10 < y div 10 \<or> x div 10 = y div 10 \<and> x mod 10 < y mod 10"
proof (cases "x div 10" "y div 10" rule: linorder_cases)
  case less
  then show ?thesis by (metis div_le_mono leD leI)
next
  case equal
  then show ?thesis by (metis div_mult_mod_eq nat_add_left_cancel_less less_irrefl)
next
  case greater
  then show ?thesis by (metis div_le_mono less_imp_le leD less_imp_neq)
qed

lemma nat_eq_div: "(x::nat) = y \<longleftrightarrow> x div 10 = y div 10 \<and> x mod 10 = y mod 10"
  by (metis div_mult_mod_eq)

lemma MonthOf_less:
  assumes "y < 10000" "k < 100" "y' < 10000" "k' < 100"
  shows "MonthOf (GoTime (int y) (int k) d ns) < MonthOf (GoTime (int y') (int k') d' ns') \<longleftrightarrow>
    y < y' \<or> y = y' \<and> k < k'"
proof -
  have k: "k div 10 < 10" "k' div 10 < 10" using assms by linarith+
  have ky: "k < k' \<longleftrightarrow> k div 10 < k' div 10 \<or> k div 10 = k' div 10 \<and> k mod 10 < k' mod 10"
    by (rule nat_less_div)
  have d: "y div 100 = y div 10 div 10" "y div 1000 = y div 10 div 10 div 10"
    "y' div 100 = y' div 10 div 10" "y' div 1000 = y' div 10 div 10 div 10"
    by (simp_all add: div_mult2_eq [symmetric])
  have lt: "y < y' \<longleftrightarrow> y div 1000 < y' div 1000 \<or> y div 1000 = y' div 1000 \<and>
      (y div 100 mod 10 < y' div 100 mod 10 \<or> y div 100 mod 10 = y' div 100 mod 10 \<and>
       (y div 10 mod 10 < y' div 10 mod 10 \<or> y div 10 mod 10 = y' div 10 mod 10 \<and> y mod 10 < y' mod 10))"
    unfolding d using nat_less_div [of y y'] nat_less_div [of "y div 10" "y' div 10"]
      nat_less_div [of "y div 10 div 10" "y' div 10 div 10"]
      nat_eq_div [of "y div 10" "y' div 10"] nat_eq_div [of "y div 10 div 10" "y' div 10 div 10"]
    by blast
  have eq: "y = y' \<longleftrightarrow> y div 1000 = y' div 1000 \<and> y div 100 mod 10 = y' div 100 mod 10 \<and>
      y div 10 mod 10 = y' div 10 mod 10 \<and> y mod 10 = y' mod 10"
    unfolding d using nat_eq_div [of y y'] nat_eq_div [of "y div 10" "y' div 10"]
      nat_eq_div [of "y div 10 div 10" "y' div 10 div 10"] by blast
  show ?thesis
    unfolding MonthOf_digits [OF assms(1,2)] MonthOf_digits [OF assms(3,4)] lt eq ky
    using k digits4_le [OF assms(1)] digits4_le [OF assms(3)]
    by (simp add: digit_less digit_eq) blast
qed

lemma Month_Before_iff:
  assumes "valid_month a" "valid_month b"
  shows "Month_Before a b \<longleftrightarrow> month_index a < month_index b"
proof -
  obtain y k where a: "y < 10000" "1 \<le> k" "k \<le> 12" "a = MonthOf (GoTime (int y) (int k) 1 0)"
    "time_Parse a = Some (GoTime (int y) (int k) 1 0)"
    using assms(1) parse_Some_iff [of a] by (auto simp: valid_month_def)
  obtain y' k' where b: "y' < 10000" "1 \<le> k'" "k' \<le> 12" "b = MonthOf (GoTime (int y') (int k') 1 0)"
    "time_Parse b = Some (GoTime (int y') (int k') 1 0)"
    using assms(2) parse_Some_iff [of b] by (auto simp: valid_month_def)
  have "Month_Before a b \<longleftrightarrow> y < y' \<or> y = y' \<and> k < k'"
    using a(1-3) b(1-3) unfolding Month_Before_def a(4) b(4) by (intro MonthOf_less) auto
  also have "\<dots> \<longleftrightarrow> month_index a < month_index b"
    using a(2,3) b(2,3) by (auto simp: month_index_def a(5) b(5))
  finally show ?thesis .
qed

lemma Month_Before_irrefl [simp]: "\<not> Month_Before m m"
  by (simp add: Month_Before_def)

lemma Month_Before_trans: "Month_Before a b \<Longrightarrow> Month_Before b c \<Longrightarrow> Month_Before a c"
  by (simp add: Month_Before_def)

end
