(* ===== verification/ContribTypes.thy ===== *)
theory ContribTypes
  imports Month
begin

text \<open>
  The domain types of package contributor and their validation: \<^verbatim>\<open>program.go\<close>,
  \<^verbatim>\<open>participant.go\<close>, \<^verbatim>\<open>award.go\<close>, \<^verbatim>\<open>receipt.go\<close>,
  \<^verbatim>\<open>round.go\<close> and \<^verbatim>\<open>obligation.go\<close>. Each struct is a record
  whose fields carry the struct's prefix, each status a string with the constants of the code. The
  errors are datatypes with a constructor per error site of the package.
\<close>

section \<open>Errors\<close>

datatype program_err =
  ProgramMissingVersion | ProgramMissingCurrency | ProgramPoolBps int64 | ProgramCreditDuration
| ProgramPayoutDueDays | ProgramEffectiveFrom month_err

datatype participant_err =
  ParticipantMissingAccount | ParticipantMissingHandle | ParticipantMissingAgreement
| ParticipantUnknownStatus

datatype award_err =
  AwardNoRecipients | AwardSplitMissingAccount | AwardNonPositiveCredits string
| AwardDuplicateRecipient string | AwardActivation month_err | AwardExpiration month_err
| AwardExpirationOrder month month | AwardMissingEvidence | AwardMissingPolicy
| AwardUnknownStatus | AwardIDAssigned | AwardMissingID

datatype receipt_err =
  ReceiptMissingSource | ReceiptMonth string month_err | ReceiptNegativeGross string
| ReceiptMissingCurrency string | ReceiptUnknownKind string string | ReceiptNegativeAdjustment string

datatype engine_err =
  NegativePool int64 | NegativeCredits string | CalculationMismatch string int64 int64
| NotEffective string month | ReceiptWrongMonth string month month
| ReceiptWrongCurrency string string string

datatype verify_err =
  PolicyVersionMismatch string string | CalculationUnsupported int64 int64
| CurrencyMismatch string string | PoolMismatch int64 int64 | DuplicateEntitlement string
| CreditSumMismatch int64 int64 | EntitlementCount nat nat | EntitlementMismatch string
| UnallocatedMismatch int64 int64

datatype ledger_err =
  RoundGap month month | ErrRoundClosed month | MonthNotEnded month | ErrProgramNotConfigured month
| ErrParticipantNotFound string | ErrAwardNotFound string | ErrAwardAlreadyDecided string
| InvalidRound month_err | InvalidObligation month_err | ObligationMissingAccount

text \<open>
  \<open>EIn\<close> is an error wrapped with a context (\<open>fmt.Errorf\<close> with \<open>%v\<close> or
  \<open>%w\<close>): the name of the record it happened at.
\<close>

datatype cerr =
  ErrNotFound | ErrAlreadyExists | ErrStore string
| EMonth month_err | EProgram program_err | EParticipant participant_err | EAward award_err
| EReceipt receipt_err | IllegalTransition string string string
| EEngine engine_err | EVerify month verify_err | ELedger ledger_err | EIn string cerr

type_synonym 'a cresult = "(cerr, 'a) outcome"

section \<open>Program\<close>

record program =
  prog_Version :: string
  prog_Currency :: string
  prog_PoolBps :: int64
  prog_CoveredReceipts :: string
  prog_CreditDurationRounds :: int64
  prog_PaymentTimetable :: string
  prog_PayoutDueDays :: int64
  prog_CalculationVersion :: int64
  prog_EffectiveFrom :: month
  prog_CreatedAt :: gotime
  prog_UpdatedAt :: gotime

definition Program_Validate :: "program \<Rightarrow> unit cresult" where
  "Program_Validate p =
     (if prog_Version p = '''' then Err (EProgram ProgramMissingVersion)
      else if prog_Currency p = '''' then Err (EProgram ProgramMissingCurrency)
      else if sint (prog_PoolBps p) \<le> 0 \<or> sint (prog_PoolBps p) > 10000
      then Err (EProgram (ProgramPoolBps (prog_PoolBps p)))
      else if sint (prog_CreditDurationRounds p) \<le> 0 then Err (EProgram ProgramCreditDuration)
      else if sint (prog_PayoutDueDays p) \<le> 0 then Err (EProgram ProgramPayoutDueDays)
      else mapErr (EProgram \<circ> ProgramEffectiveFrom) (Month_Validate (prog_EffectiveFrom p)))"

definition Program_ExpirationMonth :: "program \<Rightarrow> month \<Rightarrow> month cresult" where
  "Program_ExpirationMonth p activation = Month_Add activation (sint (prog_CreditDurationRounds p))"

section \<open>Participant\<close>

abbreviation ParticipantEligible :: string where "ParticipantEligible \<equiv> ''eligible''"
abbreviation ParticipantSuspended :: string where "ParticipantSuspended \<equiv> ''suspended''"
abbreviation ParticipantWithdrawn :: string where "ParticipantWithdrawn \<equiv> ''withdrawn''"

record participant =
  part_Account :: string
  part_GitHubHandle :: string
  part_AgreementVersion :: string
  part_AgreementAcceptedAt :: gotime
  part_AgreementEvidence :: string
  part_Status :: string
  part_PayoutProviderRef :: string
  part_PayoutReady :: bool
  part_CreatedAt :: gotime
  part_UpdatedAt :: gotime

definition Participant_Validate :: "participant \<Rightarrow> unit cresult" where
  "Participant_Validate p =
     (if part_Account p = '''' then Err (EParticipant ParticipantMissingAccount)
      else if part_GitHubHandle p = '''' then Err (EParticipant ParticipantMissingHandle)
      else if part_AgreementVersion p = '''' then Err (EParticipant ParticipantMissingAgreement)
      else if part_Status p \<in> {ParticipantEligible, ParticipantSuspended, ParticipantWithdrawn}
      then Ok () else Err (EParticipant ParticipantUnknownStatus))"

section \<open>Award\<close>

abbreviation AwardProposed :: string where "AwardProposed \<equiv> ''proposed''"
abbreviation AwardApproved :: string where "AwardApproved \<equiv> ''approved''"
abbreviation AwardRejected :: string where "AwardRejected \<equiv> ''rejected''"

record split =
  split_Account :: string
  split_Credits :: int64

record award =
  aw_ID :: string
  aw_Splits :: "split list"
  aw_Activation :: month
  aw_Expiration :: month
  aw_Evidence :: "string list"
  aw_Description :: string
  aw_PolicyVersion :: string
  aw_Status :: string
  aw_ProposedBy :: string
  aw_ProposedAt :: gotime
  aw_DecidedBy :: string
  aw_DecidedAt :: gotime
  aw_DecisionNote :: string
  aw_CreatedAt :: gotime
  aw_UpdatedAt :: gotime

text \<open>The loop over the splits, with the set \<open>seen\<close> it keeps.\<close>

fun check_splits :: "string set \<Rightarrow> split list \<Rightarrow> unit cresult" where
  "check_splits seen [] = Ok ()"
| "check_splits seen (s # ss) =
     (if split_Account s = '''' then Err (EAward AwardSplitMissingAccount)
      else if sint (split_Credits s) \<le> 0 then Err (EAward (AwardNonPositiveCredits (split_Account s)))
      else if split_Account s \<in> seen then Err (EAward (AwardDuplicateRecipient (split_Account s)))
      else check_splits (insert (split_Account s) seen) ss)"

definition Award_Validate :: "award \<Rightarrow> unit cresult" where
  "Award_Validate a =
     (if aw_Splits a = [] then Err (EAward AwardNoRecipients)
      else andThen (check_splits {} (aw_Splits a)) (\<lambda>_.
        andThen (mapErr (EAward \<circ> AwardActivation) (Month_Validate (aw_Activation a))) (\<lambda>_.
        andThen (mapErr (EAward \<circ> AwardExpiration) (Month_Validate (aw_Expiration a))) (\<lambda>_.
        if \<not> Month_Before (aw_Activation a) (aw_Expiration a)
        then Err (EAward (AwardExpirationOrder (aw_Expiration a) (aw_Activation a)))
        else if aw_Evidence a = [] then Err (EAward AwardMissingEvidence)
        else if aw_PolicyVersion a = '''' then Err (EAward AwardMissingPolicy)
        else if aw_Status a \<in> {AwardProposed, AwardApproved, AwardRejected} then Ok ()
        else Err (EAward AwardUnknownStatus)))))"

definition Award_TotalCredits :: "award \<Rightarrow> int64" where
  "Award_TotalCredits a = foldl (\<lambda>total s. total + split_Credits s) 0 (aw_Splits a)"

definition Award_ActiveIn :: "award \<Rightarrow> month \<Rightarrow> bool" where
  "Award_ActiveIn a m \<longleftrightarrow> \<not> Month_Before m (aw_Activation a) \<and> Month_Before m (aw_Expiration a)"

section \<open>Receipt\<close>

abbreviation AdjustmentTax :: string where "AdjustmentTax \<equiv> ''tax''"
abbreviation AdjustmentRefund :: string where "AdjustmentRefund \<equiv> ''refund''"
abbreviation AdjustmentPassThrough :: string where "AdjustmentPassThrough \<equiv> ''pass-through''"

record adjustment =
  adj_Kind :: string
  adj_AmountCents :: int64
  adj_Description :: string

record receipt =
  rcpt_Source :: string
  rcpt_Month :: month
  rcpt_GrossCents :: int64
  rcpt_Adjustments :: "adjustment list"
  rcpt_Currency :: string
  rcpt_Evidence :: string
  rcpt_CreatedAt :: gotime
  rcpt_UpdatedAt :: gotime

definition Receipt_NetCents :: "receipt \<Rightarrow> int64" where
  "Receipt_NetCents r = foldl (\<lambda>net a. net - adj_AmountCents a) (rcpt_GrossCents r) (rcpt_Adjustments r)"

fun check_adjustments :: "string \<Rightarrow> adjustment list \<Rightarrow> unit cresult" where
  "check_adjustments src [] = Ok ()"
| "check_adjustments src (a # as) =
     (if adj_Kind a \<notin> {AdjustmentTax, AdjustmentRefund, AdjustmentPassThrough}
      then Err (EReceipt (ReceiptUnknownKind src (adj_Kind a)))
      else if sint (adj_AmountCents a) < 0 then Err (EReceipt (ReceiptNegativeAdjustment src))
      else check_adjustments src as)"

definition Receipt_Validate :: "receipt \<Rightarrow> unit cresult" where
  "Receipt_Validate r =
     (if rcpt_Source r = '''' then Err (EReceipt ReceiptMissingSource)
      else andThen (mapErr (EReceipt \<circ> ReceiptMonth (rcpt_Source r)) (Month_Validate (rcpt_Month r))) (\<lambda>_.
        if sint (rcpt_GrossCents r) < 0 then Err (EReceipt (ReceiptNegativeGross (rcpt_Source r)))
        else if rcpt_Currency r = '''' then Err (EReceipt (ReceiptMissingCurrency (rcpt_Source r)))
        else check_adjustments (rcpt_Source r) (rcpt_Adjustments r)))"

section \<open>Round\<close>

record entitlement =
  ent_Account :: string
  ent_Credits :: int64
  ent_AmountCents :: int64

record round =
  rd_Month :: month
  rd_PolicyVersion :: string
  rd_CalculationVersion :: int64
  rd_Currency :: string
  rd_NetReceiptsCents :: int64
  rd_CarryforwardCents :: int64
  rd_PoolCents :: int64
  rd_TotalCredits :: int64
  rd_Entitlements :: "entitlement list"
  rd_UnallocatedCents :: int64
  rd_ClosedAt :: gotime
  rd_ClosedBy :: string
  rd_CreatedAt :: gotime
  rd_UpdatedAt :: gotime

definition Round_AllocatedCents :: "round \<Rightarrow> int64" where
  "Round_AllocatedCents r = foldl (\<lambda>total e. total + ent_AmountCents e) 0 (rd_Entitlements r)"

section \<open>Obligation\<close>

abbreviation ObligationEstimated :: string where "ObligationEstimated \<equiv> ''estimated''"
abbreviation ObligationEarned :: string where "ObligationEarned \<equiv> ''earned''"
abbreviation ObligationOwed :: string where "ObligationOwed \<equiv> ''owed''"
abbreviation ObligationInitiated :: string where "ObligationInitiated \<equiv> ''initiated''"
abbreviation ObligationSettled :: string where "ObligationSettled \<equiv> ''settled''"

definition obligationTransitions :: "string \<Rightarrow> string list" where
  "obligationTransitions s =
     (if s = ObligationEstimated then [ObligationEarned]
      else if s = ObligationEarned then [ObligationOwed]
      else if s = ObligationOwed then [ObligationInitiated]
      else if s = ObligationInitiated then [ObligationSettled, ObligationOwed]
      else if s = ObligationSettled then [ObligationOwed]
      else [])"

record obligation_event =
  ev_From :: string
  ev_To :: string
  ev_At :: gotime
  ev_Note :: string

record obligation =
  ob_Account :: string
  ob_Month :: month
  ob_AmountCents :: int64
  ob_Currency :: string
  ob_DueDate :: gotime
  ob_State :: string
  ob_ProviderTransferRef :: string
  ob_History :: "obligation_event list"
  ob_CreatedAt :: gotime
  ob_UpdatedAt :: gotime

definition ObligationID :: "month \<Rightarrow> string \<Rightarrow> string" where
  "ObligationID m account = m @ '':'' @ account"

definition Obligation_ID :: "obligation \<Rightarrow> string" where
  "Obligation_ID o' = ObligationID (ob_Month o') (ob_Account o')"

text \<open>The loop over the legal targets of the current state.\<close>

fun transition_loop ::
  "string list \<Rightarrow> obligation \<Rightarrow> string \<Rightarrow> gotime \<Rightarrow> string \<Rightarrow> obligation cresult" where
  "transition_loop [] o' to at note =
     Err (IllegalTransition (Obligation_ID o') (ob_State o') to)"
| "transition_loop (legal # ls) o' to at note =
     (if legal \<noteq> to then transition_loop ls o' to at note
      else Ok (o'\<lparr>ob_History := ob_History o' @
                   [\<lparr>ev_From = ob_State o', ev_To = to, ev_At = at, ev_Note = note\<rparr>],
                 ob_State := to\<rparr>))"

definition Obligation_Transition ::
  "obligation \<Rightarrow> string \<Rightarrow> gotime \<Rightarrow> string \<Rightarrow> obligation cresult" where
  "Obligation_Transition o' to at note =
     transition_loop (obligationTransitions (ob_State o')) o' to at note"

end
