(* ===== verification/LargestRemainder.thy ===== *)
theory LargestRemainder
  imports Prelude
begin

text \<open>
  Facts about the largest-remainder rounding that do not mention the program: floors and remainders
  of proportional shares, the number of units left over, and which indices come first when the
  indices are sorted by decreasing remainder.
\<close>

section \<open>Sorting indices by a key\<close>

definition desc_order :: "int list \<Rightarrow> nat list" where
  "desc_order rs = sort_key (\<lambda>i. - (rs ! i)) [0..<length rs]"

lemma desc_order_props [simp]:
  "set (desc_order rs) = {0..<length rs}" "distinct (desc_order rs)"
  "length (desc_order rs) = length rs"
  by (simp_all add: desc_order_def)

lemma desc_order_sorted: "sorted (map (\<lambda>i. - (rs ! i)) (desc_order rs))"
  by (simp add: desc_order_def)

lemma take_upward_closed:
  assumes "sorted (map f xs)" "i \<in> set (take k xs)" "j \<in> set xs" "f j < f i"
  shows "j \<in> set (take k xs)"
proof (rule ccontr)
  assume "j \<notin> set (take k xs)"
  moreover have "set xs = set (take k xs) \<union> set (drop k xs)"
    by (metis append_take_drop_id set_append)
  ultimately have "j \<in> set (drop k xs)" using assms(3) by blast
  moreover have "sorted (map f (take k xs) @ map f (drop k xs))"
    using assms(1) by (simp only: map_append [symmetric] append_take_drop_id)
  then have "\<forall>x\<in>set (take k xs). \<forall>y\<in>set (drop k xs). f x \<le> f y"
    by (simp add: sorted_append)
  ultimately show False using assms(2,4) by force
qed

lemma take_desc_order_closed:
  "i \<in> set (take k (desc_order rs)) \<Longrightarrow> j < length rs \<Longrightarrow> rs ! i < rs ! j \<Longrightarrow>
   j \<in> set (take k (desc_order rs))"
  by (rule take_upward_closed [OF desc_order_sorted]) auto

lemma take_desc_order_positive:
  assumes k: "k \<le> card {i. i < length rs \<and> 0 < rs ! i}"
    and nonneg: "\<forall>r \<in> set rs. 0 \<le> r"
    and i: "i \<in> set (take k (desc_order rs))"
  shows "0 < rs ! i"
proof (rule ccontr)
  let ?P = "{i. i < length rs \<and> 0 < rs ! i}"
  assume "\<not> 0 < rs ! i"
  then have zero: "rs ! i \<le> 0" by simp
  have "?P \<subseteq> set (take k (desc_order rs)) - {i}"
  proof
    fix j assume "j \<in> ?P"
    then have "j < length rs" "rs ! i < rs ! j" using zero by auto
    then have "j \<in> set (take k (desc_order rs))" by (rule take_desc_order_closed [OF i])
    then show "j \<in> set (take k (desc_order rs)) - {i}" using \<open>rs ! i < rs ! j\<close> by auto
  qed
  then have "card ?P \<le> card (set (take k (desc_order rs)) - {i})"
    by (rule card_mono [rotated]) simp
  also have "\<dots> < card (set (take k (desc_order rs)))"
    using i by (intro psubset_card_mono) auto
  also have "\<dots> \<le> k"
    using card_length [of "take k (desc_order rs)"] by simp
  finally show False using k by simp
qed

section \<open>Floors, remainders, units left over\<close>


lemma member_le_sum_list_int:
  "w \<in> set xs \<Longrightarrow> \<forall>x \<in> set xs. 0 \<le> x \<Longrightarrow> w \<le> (\<Sum>x\<leftarrow>xs. x)" for w :: int
proof (induction xs)
  case (Cons x xs)
  have "0 \<le> (\<Sum>x\<leftarrow>xs. x)" using Cons.prems(2) by (auto intro: sum_list_nonneg)
  then show ?case using Cons by fastforce
qed simp

lemma floors_and_remainders:
  fixes p t :: int
  shows "p * (\<Sum>c\<leftarrow>cs. c) = t * (\<Sum>c\<leftarrow>cs. p * c div t) + (\<Sum>c\<leftarrow>cs. p * c mod t)"
proof (induction cs)
  case (Cons c cs)
  have "p * c = t * (p * c div t) + p * c mod t" by simp
  with Cons show ?case by (simp add: algebra_simps del: mult_div_mod_eq)
qed simp

lemma leftover_eq:
  fixes p t :: int
  assumes "t = (\<Sum>c\<leftarrow>cs. c)" "0 < t"
  shows "(p - (\<Sum>c\<leftarrow>cs. p * c div t)) * t = (\<Sum>c\<leftarrow>cs. p * c mod t)"
proof -
  have "p * t = t * (\<Sum>c\<leftarrow>cs. p * c div t) + (\<Sum>c\<leftarrow>cs. p * c mod t)"
    using floors_and_remainders [of p cs t] assms(1) by simp
  then show ?thesis by (simp add: algebra_simps)
qed

lemma sum_remainders_le:
  fixes p t :: int
  assumes "0 < t"
  shows "(\<Sum>c\<leftarrow>cs. p * c mod t) \<le> t * int (length (filter (\<lambda>c. 0 < p * c mod t) cs))"
proof (induction cs)
  case (Cons c cs)
  have "p * c mod t < t" "0 \<le> p * c mod t" using assms by simp_all
  then show ?case using Cons by (auto simp: algebra_simps)
qed simp

lemma leftover_bounds:
  fixes p t :: int
  assumes t: "t = (\<Sum>c\<leftarrow>cs. c)" "0 < t"
  defines "k \<equiv> p - (\<Sum>c\<leftarrow>cs. p * c div t)"
  shows "0 \<le> k" "k \<le> int (length (filter (\<lambda>c. 0 < p * c mod t) cs))"
proof -
  have eq: "k * t = (\<Sum>c\<leftarrow>cs. p * c mod t)"
    unfolding k_def by (rule leftover_eq [OF t])
  have "0 \<le> (\<Sum>c\<leftarrow>cs. p * c mod t)"
    using t(2) by (intro sum_list_nonneg) auto
  then have "0 \<le> k * t" by (simp only: eq)
  with t(2) show "0 \<le> k" by (simp add: zero_le_mult_iff)
  have "k * t \<le> int (length (filter (\<lambda>c. 0 < p * c mod t) cs)) * t"
    using sum_remainders_le [OF t(2), of p cs] unfolding eq by (simp add: mult.commute)
  with t(2) show "k \<le> int (length (filter (\<lambda>c. 0 < p * c mod t) cs))"
    by simp
qed

text \<open>The sum of the shares after one more unit has gone to each of \<open>k\<close> distinct indices.\<close>

lemma sum_list_bump:
  assumes "distinct is" "set is \<subseteq> {0..<n}"
  shows "(\<Sum>i\<leftarrow>[0..<n]. f i + (if i \<in> set is then 1 else 0 :: int)) =
    (\<Sum>i\<leftarrow>[0..<n]. f i) + int (length is)"
proof -
  have "(\<Sum>i\<leftarrow>[0..<n]. (if i \<in> set is then 1 else 0 :: int)) = (\<Sum>i\<in>{0..<n}. if i \<in> set is then 1 else 0)"
    by (simp add: sum_list_distinct_conv_sum_set)
  also have "\<dots> = int (card ({0..<n} \<inter> set is))"
    by (simp add: sum.If_cases)
  also have "{0..<n} \<inter> set is = set is" using assms(2) by blast
  also have "int (card (set is)) = int (length is)" using assms(1) by (simp add: distinct_card)
  finally show ?thesis by (simp add: sum_list_addf)
qed

lemma length_filter_nth: "length (filter P xs) = card {i. i < length xs \<and> P (xs ! i)}"
  by (rule length_filter_conv_card)

end
