(* ===== verification/Engine.thy ===== *)
theory Engine
  imports ContribTypes LargestRemainder
begin

text \<open>
  \<^verbatim>\<open>contributor/engine.go\<close>: which credits are active in a month, the pool share, the
  largest-remainder allocation, due dates and the computation of a round. Cents and credits are
  64-bit words, products and quotients are exact as the code's \<open>big.Int\<close> values are, and a
  \<open>map[string]int64\<close> is an association list in the order in which \<open>range\<close> visits it.
\<close>

section \<open>The code\<close>

definition CalculationVersion :: int64 where
  "CalculationVersion = 1"

fun active_loop :: "(string \<times> int64) list \<Rightarrow> award list \<Rightarrow> month \<Rightarrow> (string \<times> int64) list cresult" where
  "active_loop credits [] m = Ok credits"
| "active_loop credits (a # as) m =
     (if aw_Status a \<noteq> AwardApproved then active_loop credits as m
      else andThen (mapErr (EIn (aw_ID a)) (Award_Validate a)) (\<lambda>_.
        if \<not> Award_ActiveIn a m then active_loop credits as m
        else active_loop
          (foldl (\<lambda>c s. add_to (split_Account s) (split_Credits s) c) credits (aw_Splits a)) as m))"

definition ActiveCredits :: "award list \<Rightarrow> month \<Rightarrow> (string \<times> int64) list cresult" where
  "ActiveCredits awards m = active_loop [] awards m"

definition PoolShareCents :: "int64 \<Rightarrow> int64 \<Rightarrow> int64" where
  "PoolShareCents poolBps netReceiptsCents =
     word_of_int (quo (sint netReceiptsCents * sint poolBps) 10000)"

text \<open>The first loop of \<open>Allocate\<close>: the accounts with credits, and the denominator.\<close>

fun scan_credits :: "(string \<times> int64) list \<Rightarrow> string list \<Rightarrow> int64 \<Rightarrow> (string list \<times> int64) cresult" where
  "scan_credits [] accounts tot = Ok (accounts, tot)"
| "scan_credits ((account, c) # cs) accounts tot =
     (if sint c < 0 then Err (EEngine (NegativeCredits account))
      else if c = 0 then scan_credits cs accounts tot
      else scan_credits cs (accounts @ [account]) (tot + c))"

text \<open>The last loop: one more cent for each of the first indices of \<open>order\<close>. Running past
  the end of \<open>order\<close> is an index out of range, a panic.\<close>

definition bump_cents :: "nat \<Rightarrow> entitlement list \<Rightarrow> entitlement list" where
  "bump_cents i ents =
     (if i < length ents
      then ents[i := (ents ! i)\<lparr>ent_AmountCents := ent_AmountCents (ents ! i) + 1\<rparr>] else ents)"

fun distribute :: "nat \<Rightarrow> nat list \<Rightarrow> entitlement list \<Rightarrow> entitlement list cresult" where
  "distribute 0 order ents = Ok ents"
| "distribute (Suc n) [] ents = Panic"
| "distribute (Suc n) (i # order) ents = distribute n order (bump_cents i ents)"

definition floor_entitlement :: "int64 \<Rightarrow> (string \<times> int64) list \<Rightarrow> int64 \<Rightarrow> string \<Rightarrow> entitlement" where
  "floor_entitlement poolCents credits tot account =
     \<lparr>ent_Account = account, ent_Credits = get0 credits account,
      ent_AmountCents = word_of_int (quo (sint poolCents * sint (get0 credits account)) (sint tot))\<rparr>"

definition Allocate :: "int64 \<Rightarrow> (string \<times> int64) list \<Rightarrow> entitlement list cresult" where
  "Allocate poolCents credits =
     (if sint poolCents < 0 then Err (EEngine (NegativePool poolCents))
      else andThen (scan_credits credits [] 0) (\<lambda>(unsorted, tot).
        if tot = 0 then Ok []
        else
          let accounts = sort unsorted;
              ents = map (floor_entitlement poolCents credits tot) accounts;
              remainders = map (\<lambda>a. rem_t (sint poolCents * sint (get0 credits a)) (sint tot)) accounts;
              allocated = foldl (\<lambda>s e. s + ent_AmountCents e) 0 ents;
              leftover = poolCents - allocated
          in distribute (nat (sint leftover)) (desc_order remainders) ents))"

definition DueDate :: "program \<Rightarrow> month \<Rightarrow> gotime cresult" where
  "DueDate p m =
     andThen (Month_Time m) (\<lambda>t.
       let quarter = (t_month t - 1) div 3;
           end = time_Date (t_year t) (quarter * 3 + 4) 1 0
       in Ok (AddDate end 0 0 (sint (prog_PayoutDueDays p))))"

fun sum_receipts :: "program \<Rightarrow> month \<Rightarrow> int64 \<Rightarrow> receipt list \<Rightarrow> int64 cresult" where
  "sum_receipts p m net [] = Ok net"
| "sum_receipts p m net (r # rs) =
     andThen (Receipt_Validate r) (\<lambda>_.
       if rcpt_Month r \<noteq> m then Err (EEngine (ReceiptWrongMonth (rcpt_Source r) (rcpt_Month r) m))
       else if rcpt_Currency r \<noteq> prog_Currency p
       then Err (EEngine (ReceiptWrongCurrency (rcpt_Source r) (rcpt_Currency r) (prog_Currency p)))
       else sum_receipts p m (net + Receipt_NetCents r) rs)"

definition obligation_of :: "program \<Rightarrow> month \<Rightarrow> gotime \<Rightarrow> entitlement \<Rightarrow> obligation" where
  "obligation_of p m due e =
     \<lparr>ob_Account = ent_Account e, ob_Month = m, ob_AmountCents = ent_AmountCents e,
      ob_Currency = prog_Currency p, ob_DueDate = due, ob_State = ObligationEarned,
      ob_ProviderTransferRef = '''', ob_History = [], ob_CreatedAt = zeroTime, ob_UpdatedAt = zeroTime\<rparr>"

text \<open>The round literal of \<open>ComputeRound\<close> and the assignment that follows it.\<close>

definition make_round ::
  "program \<Rightarrow> month \<Rightarrow> int64 \<Rightarrow> int64 \<Rightarrow> int64 \<Rightarrow> int64 \<Rightarrow> entitlement list \<Rightarrow> round" where
  "make_round p m net carryforwardCents pool totalCredits ents =
     (let r = \<lparr>rd_Month = m, rd_PolicyVersion = prog_Version p, rd_CalculationVersion = CalculationVersion,
               rd_Currency = prog_Currency p, rd_NetReceiptsCents = net,
               rd_CarryforwardCents = carryforwardCents, rd_PoolCents = pool,
               rd_TotalCredits = totalCredits, rd_Entitlements = ents, rd_UnallocatedCents = 0,
               rd_ClosedAt = zeroTime, rd_ClosedBy = '''', rd_CreatedAt = zeroTime,
               rd_UpdatedAt = zeroTime\<rparr>
      in r\<lparr>rd_UnallocatedCents := pool - Round_AllocatedCents r\<rparr>)"

definition ComputeRound ::
  "program \<Rightarrow> month \<Rightarrow> receipt list \<Rightarrow> award list \<Rightarrow> int64 \<Rightarrow> (round \<times> obligation list) cresult" where
  "ComputeRound p m receipts awards carryforwardCents =
     andThen (Program_Validate p) (\<lambda>_.
     if prog_CalculationVersion p \<noteq> CalculationVersion
     then Err (EEngine (CalculationMismatch (prog_Version p) (prog_CalculationVersion p) CalculationVersion))
     else andThen (mapErr EMonth (Month_Validate m)) (\<lambda>_.
     if Month_Before m (prog_EffectiveFrom p) then Err (EEngine (NotEffective (prog_Version p) m))
     else andThen (sum_receipts p m 0 receipts) (\<lambda>net.
     andThen (ActiveCredits awards m) (\<lambda>credits.
     let totalCredits = foldl (\<lambda>s c. s + snd c) 0 credits;
         pool = carryforwardCents + PoolShareCents (prog_PoolBps p) net;
         allocatable = (if sint pool < 0 then 0 else pool)
     in andThen (Allocate allocatable credits) (\<lambda>ents.
     andThen (DueDate p m) (\<lambda>due.
     Ok (make_round p m net carryforwardCents pool totalCredits ents,
         map (obligation_of p m due) (filter (\<lambda>e. 0 < sint (ent_AmountCents e)) ents))))))))"

section \<open>The loops in closed form\<close>

definition amount_sum :: "entitlement list \<Rightarrow> int64" where
  "amount_sum ents = (\<Sum>e\<leftarrow>ents. ent_AmountCents e)"

lemma foldl_add_eq: "foldl (\<lambda>s x. s + f x) a xs = a + (\<Sum>x\<leftarrow>xs. f x)" for a :: int64
  by (induction xs arbitrary: a) (simp_all add: add.assoc)

lemma Round_AllocatedCents_eq: "Round_AllocatedCents r = amount_sum (rd_Entitlements r)"
  by (simp add: Round_AllocatedCents_def amount_sum_def foldl_add_eq)

lemma scan_credits_Ok_iff:
  "scan_credits cs accounts tot = Ok (as, t) \<longleftrightarrow>
     (\<forall>c \<in> set cs. 0 \<le> sint (snd c)) \<and>
     as = accounts @ map fst (filter (\<lambda>c. snd c \<noteq> 0) cs) \<and> t = tot + (\<Sum>c\<leftarrow>cs. snd c)"
  by (induction cs accounts tot rule: scan_credits.induct) (auto simp: add.assoc)

lemma scan_credits_no_panic [simp]: "scan_credits cs accounts tot \<noteq> Panic"
  by (induction cs accounts tot rule: scan_credits.induct) auto

lemma scan_credits_Err:
  "scan_credits cs accounts tot = Err e \<Longrightarrow> \<exists>c \<in> set cs. sint (snd c) < 0 \<and> e = EEngine (NegativeCredits (fst c))"
  by (induction cs accounts tot rule: scan_credits.induct) (auto split: if_splits)

definition positive_accounts :: "(string \<times> int64) list \<Rightarrow> string list" where
  "positive_accounts credits = sort (map fst (filter (\<lambda>c. snd c \<noteq> 0) credits))"

definition credit_sum :: "(string \<times> int64) list \<Rightarrow> int64" where
  "credit_sum credits = (\<Sum>c\<leftarrow>credits. snd c)"

definition floor_entitlements :: "int64 \<Rightarrow> (string \<times> int64) list \<Rightarrow> entitlement list" where
  "floor_entitlements pool credits =
     map (floor_entitlement pool credits (credit_sum credits)) (positive_accounts credits)"

definition remainders_of :: "int64 \<Rightarrow> (string \<times> int64) list \<Rightarrow> int list" where
  "remainders_of pool credits =
     map (\<lambda>a. rem_t (sint pool * sint (get0 credits a)) (sint (credit_sum credits)))
       (positive_accounts credits)"

text \<open>\<open>Allocate\<close> once the scan has passed: one distribution step over the floors.\<close>

lemma Allocate_eq:
  assumes "0 \<le> sint pool" "\<forall>c \<in> set credits. 0 \<le> sint (snd c)"
  shows "Allocate pool credits =
    (if credit_sum credits = 0 then Ok []
     else distribute (nat (sint (pool - amount_sum (floor_entitlements pool credits))))
       (desc_order (remainders_of pool credits)) (floor_entitlements pool credits))"
proof -
  have "scan_credits credits [] 0 =
      Ok (map fst (filter (\<lambda>c. snd c \<noteq> 0) credits), credit_sum credits)"
    using assms(2) by (simp add: scan_credits_Ok_iff credit_sum_def)
  then show ?thesis
    using assms(1)
    by (simp add: Allocate_def Let_def floor_entitlements_def remainders_of_def amount_sum_def
        positive_accounts_def foldl_add_eq)
qed

lemma Allocate_negative_credits:
  "\<exists>c \<in> set credits. sint (snd c) < 0 \<Longrightarrow> 0 \<le> sint pool \<Longrightarrow>
   \<exists>a. Allocate pool credits = Err (EEngine (NegativeCredits a))"
proof -
  assume neg: "\<exists>c \<in> set credits. sint (snd c) < 0" and "0 \<le> sint pool"
  have "\<not> (\<exists>r. scan_credits credits [] 0 = Ok r)"
    using neg by (force simp: scan_credits_Ok_iff)
  then obtain e where "scan_credits credits [] 0 = Err e"
    by (cases "scan_credits credits [] 0") auto
  then show ?thesis
    using scan_credits_Err [of credits "[]" 0 e] \<open>0 \<le> sint pool\<close> by (auto simp: Allocate_def)
qed

lemma Allocate_Ok_nonneg: "Allocate pool credits = Ok ents \<Longrightarrow>
   0 \<le> sint pool \<and> (\<forall>c \<in> set credits. 0 \<le> sint (snd c))"
  by (auto simp: Allocate_def outcome_simps scan_credits_Ok_iff split: if_splits)

section \<open>The allocation when the denominator does not overflow\<close>

definition credits_fit :: "(string \<times> int64) list \<Rightarrow> bool" where
  "credits_fit credits \<longleftrightarrow> wf_map credits \<and> (\<forall>c \<in> set credits. 0 \<le> sint (snd c)) \<and>
     (\<Sum>c\<leftarrow>credits. sint (snd c)) < 9223372036854775808"

definition weights :: "(string \<times> int64) list \<Rightarrow> int list" where
  "weights credits = map (\<lambda>a. sint (get0 credits a)) (positive_accounts credits)"

text \<open>The exact integers behind a floor entitlement.\<close>

definition base :: "int64 \<Rightarrow> (string \<times> int64) list \<Rightarrow> nat \<Rightarrow> int" where
  "base pool credits i = sint pool * (weights credits ! i) div sint (credit_sum credits)"

definition spare :: "int64 \<Rightarrow> (string \<times> int64) list \<Rightarrow> nat" where
  "spare pool credits =
     nat (sint pool - (\<Sum>c\<leftarrow>weights credits. sint pool * c div sint (credit_sum credits)))"

definition lucky :: "int64 \<Rightarrow> (string \<times> int64) list \<Rightarrow> nat list" where
  "lucky pool credits = take (spare pool credits) (desc_order (remainders_of pool credits))"

definition share :: "int64 \<Rightarrow> (string \<times> int64) list \<Rightarrow> nat \<Rightarrow> int" where
  "share pool credits i = base pool credits i + (if i \<in> set (lucky pool credits) then 1 else 0)"

lemma positive_accounts_props:
  assumes "wf_map credits"
  shows "sorted (positive_accounts credits)" "distinct (positive_accounts credits)"
    "set (positive_accounts credits) = {a. get0 credits a \<noteq> 0}"
proof -
  show "sorted (positive_accounts credits)" by (simp add: positive_accounts_def)
  show "distinct (positive_accounts credits)"
    using assms by (simp add: positive_accounts_def distinct_map_filter)
  have "a \<in> fst ` {c \<in> set credits. snd c \<noteq> 0} \<longleftrightarrow> get0 credits a \<noteq> 0" for a
  proof (cases "map_of credits a")
    case None
    then have "a \<notin> fst ` set credits" by (simp add: map_of_eq_None_iff)
    with None show ?thesis by (auto simp: get0_def)
  next
    case (Some v)
    then have "(a, v) \<in> set credits" by (rule map_of_SomeD)
    moreover have "w = v" if "(a, w) \<in> set credits" for w
      using that Some map_of_is_SomeI [OF assms, of a w] by simp
    moreover have "a \<in> fst ` {c \<in> set credits. snd c \<noteq> 0} \<longleftrightarrow> (\<exists>w. (a, w) \<in> set credits \<and> w \<noteq> 0)"
      by (auto simp: image_iff)
    ultimately have "a \<in> fst ` {c \<in> set credits. snd c \<noteq> 0} \<longleftrightarrow> v \<noteq> 0" by blast
    with Some show ?thesis by (simp add: get0_def)
  qed
  then show "set (positive_accounts credits) = {a. get0 credits a \<noteq> 0}"
    by (auto simp: positive_accounts_def)
qed

lemma get0_member: "wf_map m \<Longrightarrow> (k, v) \<in> set m \<Longrightarrow> get0 m k = v"
  by (simp add: get0_def)

lemma sum_positive_accounts:
  assumes "wf_map credits" "f 0 = (0 :: 'b :: comm_monoid_add)"
  shows "(\<Sum>a\<leftarrow>positive_accounts credits. f (get0 credits a)) = (\<Sum>c\<leftarrow>credits. f (snd c))"
proof -
  have "(\<Sum>a\<leftarrow>positive_accounts credits. f (get0 credits a)) =
      (\<Sum>a\<leftarrow>map fst (filter (\<lambda>c. snd c \<noteq> 0) credits). f (get0 credits a))"
    unfolding sum_mset_sum_list [symmetric] mset_map positive_accounts_def mset_sort ..
  also have "\<dots> = (\<Sum>c\<leftarrow>filter (\<lambda>c. snd c \<noteq> 0) credits. f (snd c))"
    using assms(1) by (auto simp: comp_def get0_member intro!: arg_cong [where f = sum_list])
  also have "\<dots> = (\<Sum>c\<leftarrow>credits. f (snd c))"
    using assms(2) by (intro sum_list_map_filter) auto
  finally show ?thesis .
qed

lemma sum_weights: "wf_map credits \<Longrightarrow> (\<Sum>c\<leftarrow>weights credits. c) = (\<Sum>c\<leftarrow>credits. sint (snd c))"
  using sum_positive_accounts [of credits sint] by (simp add: weights_def comp_def)

lemma sint_credit_sum: "credits_fit credits \<Longrightarrow> sint (credit_sum credits) = (\<Sum>c\<leftarrow>weights credits. c)"
  unfolding credits_fit_def credit_sum_def
  by (simp only: sum_weights) (rule sint_sum_list_fits, auto)

lemma get0_nonneg: "\<forall>c \<in> set credits. 0 \<le> sint (snd c) \<Longrightarrow> 0 \<le> sint (get0 credits a)"
  by (cases "map_of credits a") (force simp: get0_def dest: map_of_SomeD)+

lemma weights_positive:
  assumes "credits_fit credits" "w \<in> set (weights credits)"
  shows "0 < w"
proof -
  obtain a where "w = sint (get0 credits a)" "get0 credits a \<noteq> 0"
    using assms positive_accounts_props(3) by (auto simp: weights_def credits_fit_def)
  then show ?thesis
    using get0_nonneg [of credits a] assms(1) sint64_zero_iff [of "get0 credits a"]
    by (auto simp: credits_fit_def less_le)
qed

lemma credit_sum_pos: "credits_fit credits \<Longrightarrow> credit_sum credits \<noteq> 0 \<Longrightarrow> 0 < sint (credit_sum credits)"
proof -
  assume fit: "credits_fit credits" and "credit_sum credits \<noteq> 0"
  then have "sint (credit_sum credits) \<noteq> 0" by simp
  moreover have "0 \<le> (\<Sum>c\<leftarrow>weights credits. c)"
    using weights_positive [OF fit] by (intro sum_list_nonneg) (force simp: less_imp_le)
  ultimately show ?thesis using sint_credit_sum [OF fit] by simp
qed

lemma remainders_of_eq:
  assumes "credits_fit credits" "credit_sum credits \<noteq> 0" "0 \<le> sint pool"
  shows "remainders_of pool credits = map (\<lambda>w. sint pool * w mod sint (credit_sum credits)) (weights credits)"
proof -
  have "0 \<le> sint pool * sint (get0 credits a)" for a
    using assms(1,3) get0_nonneg [of credits a] by (simp add: credits_fit_def)
  then show ?thesis
    using credit_sum_pos [OF assms(1,2)] by (simp add: remainders_of_def weights_def)
qed

lemma base_bounds:
  assumes "credits_fit credits" "credit_sum credits \<noteq> 0" "0 \<le> sint pool" "i < length (weights credits)"
  shows "0 \<le> base pool credits i" "base pool credits i \<le> sint pool"
proof -
  let ?t = "sint (credit_sum credits)" and ?w = "weights credits ! i"
  have t: "0 < ?t" by (rule credit_sum_pos [OF assms(1,2)])
  have w: "0 < ?w" using weights_positive [OF assms(1)] assms(4) by simp
  show "0 \<le> base pool credits i"
    using t w assms(3) by (simp add: base_def pos_imp_zdiv_nonneg_iff)
  have "?w \<le> (\<Sum>c\<leftarrow>weights credits. c)"
    using weights_positive [OF assms(1)] assms(4)
    by (intro member_le_sum_list_int) (auto simp: less_imp_le)
  then have "?w \<le> ?t" using sint_credit_sum [OF assms(1)] by simp
  then have "sint pool * ?w \<le> sint pool * ?t" using assms(3) by (rule mult_left_mono)
  then have "sint pool * ?w div ?t \<le> sint pool * ?t div ?t" using t by (rule zdiv_mono1)
  then show "base pool credits i \<le> sint pool" using assms(2) by (simp add: base_def)
qed

lemma length_bump_cents [simp]: "length (bump_cents i ents) = length ents"
  by (simp add: bump_cents_def)

lemma nth_bump_cents:
  "j < length ents \<Longrightarrow> bump_cents i ents ! j =
    (if j = i then (ents ! j)\<lparr>ent_AmountCents := ent_AmountCents (ents ! j) + 1\<rparr> else ents ! j)"
  by (auto simp: bump_cents_def)

lemma distribute_Ok:
  assumes "n \<le> length order" "distinct order"
  shows "distribute n order ents =
    Ok (map (\<lambda>j. (ents ! j)\<lparr>ent_AmountCents := ent_AmountCents (ents ! j) +
                  (if j \<in> set (take n order) then 1 else 0)\<rparr>) [0..<length ents])"
  using assms
proof (induction n order ents rule: distribute.induct)
  case (1 order ents)
  then show ?case by (auto intro: nth_equalityI)
next
  case (3 n i order ents)
  then have "i \<notin> set (take n order)" by (auto dest: in_set_takeD)
  with 3 show ?case by (auto simp: nth_bump_cents intro!: nth_equalityI)
qed simp

lemma distribute_Panic: "length order < n \<Longrightarrow> distribute n order ents = Panic"
  by (induction n order ents rule: distribute.induct) auto

lemma length_weights [simp]: "length (weights credits) = length (positive_accounts credits)"
  by (simp add: weights_def)

lemma length_remainders_of [simp]: "length (remainders_of pool credits) = length (positive_accounts credits)"
  by (simp add: remainders_of_def)

lemma length_floor_entitlements [simp]:
  "length (floor_entitlements pool credits) = length (positive_accounts credits)"
  by (simp add: floor_entitlements_def)

lemma floor_amount:
  assumes "credits_fit credits" "credit_sum credits \<noteq> 0" "0 \<le> sint pool"
    and i: "i < length (positive_accounts credits)"
  shows "ent_AmountCents (floor_entitlements pool credits ! i) = word_of_int (base pool credits i)"
    "sint (word_of_int (base pool credits i) :: int64) = base pool credits i"
proof -
  have "0 < weights credits ! i"
    using weights_positive [OF assms(1), of "weights credits ! i"] i by simp
  then have "0 \<le> sint pool * weights credits ! i" using assms(3) by simp
  then show "ent_AmountCents (floor_entitlements pool credits ! i) = word_of_int (base pool credits i)"
    using credit_sum_pos [OF assms(1,2)] i
    by (simp add: floor_entitlements_def floor_entitlement_def base_def weights_def)
  show "sint (word_of_int (base pool credits i) :: int64) = base pool credits i"
    using base_bounds [OF assms(1-3), of i] i sint64_bounds(2) [of pool]
    by (intro int64_simps) (simp add: fits64_def)
qed

lemma spare_facts:
  assumes "credits_fit credits" "credit_sum credits \<noteq> 0" "0 \<le> sint pool"
  shows "int (spare pool credits) = sint pool - (\<Sum>i\<leftarrow>[0..<length (positive_accounts credits)]. base pool credits i)"
    "spare pool credits \<le> card {i. i < length (remainders_of pool credits) \<and> 0 < remainders_of pool credits ! i}"
    "spare pool credits \<le> length (positive_accounts credits)"
    "sint (pool - amount_sum (floor_entitlements pool credits)) = int (spare pool credits)"
proof -
  let ?t = "sint (credit_sum credits)" and ?n = "length (positive_accounts credits)"
  have t: "?t = (\<Sum>c\<leftarrow>weights credits. c)" "0 < ?t"
    by (rule sint_credit_sum [OF assms(1)], rule credit_sum_pos [OF assms(1,2)])
  note bounds = leftover_bounds [OF t, of "sint pool"]
  have sums: "(\<Sum>c\<leftarrow>weights credits. sint pool * c div ?t) = (\<Sum>i\<leftarrow>[0..<?n]. base pool credits i)"
    unfolding base_def
    by (subst map_nth [of "weights credits", symmetric]) (simp only: map_map comp_def length_weights)
  show spare: "int (spare pool credits) = sint pool - (\<Sum>i\<leftarrow>[0..<?n]. base pool credits i)"
    using bounds(1) by (simp add: spare_def sums)
  have "spare pool credits \<le> length (filter (\<lambda>c. 0 < sint pool * c mod ?t) (weights credits))"
    using bounds(2) by (simp add: spare_def)
  also have "\<dots> = length (filter (\<lambda>r. 0 < r) (remainders_of pool credits))"
    by (simp add: remainders_of_eq [OF assms] filter_map comp_def)
  also have "\<dots> = card {i. i < length (remainders_of pool credits) \<and> 0 < remainders_of pool credits ! i}"
    by (rule length_filter_conv_card)
  finally show le: "spare pool credits \<le> card {i. i < length (remainders_of pool credits) \<and> 0 < remainders_of pool credits ! i}" .
  also have "\<dots> \<le> card {0..<length (remainders_of pool credits)}"
    by (rule card_mono) auto
  finally show "spare pool credits \<le> ?n" by simp
  let ?am = "\<lambda>i. word_of_int (base pool credits i) :: int64"
  have am: "amount_sum (floor_entitlements pool credits) = (\<Sum>i\<leftarrow>[0..<?n]. ?am i)"
  proof -
    have "map ent_AmountCents (floor_entitlements pool credits) =
        map (\<lambda>i. ent_AmountCents (floor_entitlements pool credits ! i)) [0..<?n]"
      by (subst map_nth [symmetric]) (simp add: comp_def)
    also have "\<dots> = map ?am [0..<?n]"
      using floor_amount(1) [OF assms] by (intro map_cong) auto
    finally show ?thesis by (simp add: amount_sum_def)
  qed
  have vals: "(\<Sum>i\<leftarrow>[0..<?n]. sint (?am i)) = (\<Sum>i\<leftarrow>[0..<?n]. base pool credits i)"
    by (intro arg_cong [where f = sum_list] map_cong refl) (simp add: floor_amount(2) [OF assms])
  have le_pool: "(\<Sum>i\<leftarrow>[0..<?n]. base pool credits i) \<le> sint pool"
    using spare by linarith
  have "sint (\<Sum>i\<leftarrow>[0..<?n]. ?am i) = (\<Sum>i\<leftarrow>[0..<?n]. sint (?am i))"
  proof (rule sint_sum_list_fits)
    show "\<forall>i\<in>set [0..<?n]. 0 \<le> sint (?am i)"
      using base_bounds(1) [OF assms] by (simp add: floor_amount(2) [OF assms])
    show "(\<Sum>i\<leftarrow>[0..<?n]. sint (?am i)) < 9223372036854775808"
      using le_pool sint64_bounds(2) [of pool] by (simp only: vals)
  qed
  then have sum: "sint (amount_sum (floor_entitlements pool credits)) = (\<Sum>i\<leftarrow>[0..<?n]. base pool credits i)"
    by (simp only: am vals)
  have "0 \<le> (\<Sum>i\<leftarrow>[0..<?n]. base pool credits i)"
    using base_bounds(1) [OF assms] by (intro sum_list_nonneg) auto
  then have "fits64 (sint pool - sint (amount_sum (floor_entitlements pool credits)))"
    using sint64_bounds [of pool] le_pool by (simp add: sum fits64_def)
  then show "sint (pool - amount_sum (floor_entitlements pool credits)) = int (spare pool credits)"
    by (simp add: sint_minus_fits sum spare)
qed

lemma lucky_props:
  assumes "credits_fit credits" "credit_sum credits \<noteq> 0" "0 \<le> sint pool"
  shows "distinct (lucky pool credits)" "set (lucky pool credits) \<subseteq> {0..<length (positive_accounts credits)}"
    "length (lucky pool credits) = spare pool credits"
proof -
  show "distinct (lucky pool credits)" by (simp add: lucky_def)
  show "set (lucky pool credits) \<subseteq> {0..<length (positive_accounts credits)}"
    using set_take_subset [of "spare pool credits" "desc_order (remainders_of pool credits)"]
    by (simp add: lucky_def)
  show "length (lucky pool credits) = spare pool credits"
    using spare_facts(3) [OF assms] by (simp add: lucky_def)
qed

lemma sum_shares:
  assumes "credits_fit credits" "credit_sum credits \<noteq> 0" "0 \<le> sint pool"
  shows "(\<Sum>i\<leftarrow>[0..<length (positive_accounts credits)]. share pool credits i) = sint pool"
  unfolding share_def
  using sum_list_bump [OF lucky_props(1,2) [OF assms], of "base pool credits"] spare_facts(1) [OF assms]
  by (simp add: lucky_props(3) [OF assms])

lemma share_nonneg:
  assumes "credits_fit credits" "credit_sum credits \<noteq> 0" "0 \<le> sint pool"
    "i < length (positive_accounts credits)"
  shows "0 \<le> share pool credits i"
  using base_bounds(1) [OF assms(1-3), of i] assms(4) by (simp add: share_def)

lemma share_le_pool:
  assumes "credits_fit credits" "credit_sum credits \<noteq> 0" "0 \<le> sint pool"
    and i: "i < length (positive_accounts credits)"
  shows "share pool credits i \<le> sint pool"
proof -
  let ?xs = "map (share pool credits) [0..<length (positive_accounts credits)]"
  have "share pool credits i \<le> (\<Sum>x\<leftarrow>?xs. x)"
    using i share_nonneg [OF assms(1-3)] by (intro member_le_sum_list_int) auto
  then show ?thesis using sum_shares [OF assms(1-3)] by (simp add: comp_def)
qed

lemma sint_share:
  assumes "credits_fit credits" "credit_sum credits \<noteq> 0" "0 \<le> sint pool"
    and "i < length (positive_accounts credits)"
  shows "sint (word_of_int (share pool credits i) :: int64) = share pool credits i"
  using share_nonneg [OF assms] share_le_pool [OF assms] sint64_bounds(2) [of pool]
  by (intro int64_simps) (simp add: fits64_def)

lemma Allocate_shape:
  assumes "credits_fit credits" "credit_sum credits \<noteq> 0" "0 \<le> sint pool"
  shows "Allocate pool credits = Ok (map (\<lambda>i.
      \<lparr>ent_Account = positive_accounts credits ! i,
       ent_Credits = get0 credits (positive_accounts credits ! i),
       ent_AmountCents = word_of_int (share pool credits i)\<rparr>) [0..<length (positive_accounts credits)])"
    (is "_ = Ok ?ents")
proof -
  let ?F = "floor_entitlements pool credits" and ?n = "length (positive_accounts credits)"
  have "Allocate pool credits = distribute (spare pool credits) (desc_order (remainders_of pool credits)) ?F"
    using assms spare_facts(4) [OF assms] by (simp add: Allocate_eq credits_fit_def)
  also have "\<dots> = Ok (map (\<lambda>j. (?F ! j)\<lparr>ent_AmountCents := ent_AmountCents (?F ! j) +
      (if j \<in> set (lucky pool credits) then 1 else 0)\<rparr>) [0..<?n])"
    using spare_facts(3) [OF assms] by (subst distribute_Ok) (simp_all add: lucky_def)
  also have "map (\<lambda>j. (?F ! j)\<lparr>ent_AmountCents := ent_AmountCents (?F ! j) +
      (if j \<in> set (lucky pool credits) then 1 else 0)\<rparr>) [0..<?n] = ?ents"
  proof (rule map_cong [OF refl])
    fix j assume "j \<in> set [0..<?n]"
    then have j: "j < ?n" by simp
    have "?F ! j = \<lparr>ent_Account = positive_accounts credits ! j,
        ent_Credits = get0 credits (positive_accounts credits ! j), ent_AmountCents = ent_AmountCents (?F ! j)\<rparr>"
      using j by (simp add: floor_entitlements_def floor_entitlement_def)
    then show "(?F ! j)\<lparr>ent_AmountCents := ent_AmountCents (?F ! j) +
        (if j \<in> set (lucky pool credits) then 1 else 0)\<rparr> =
      \<lparr>ent_Account = positive_accounts credits ! j,
        ent_Credits = get0 credits (positive_accounts credits ! j),
        ent_AmountCents = word_of_int (share pool credits j)\<rparr>"
      using floor_amount(1) [OF assms j] by (auto simp: share_def elim!: ssubst)
  qed
  finally show ?thesis .
qed

lemma share_quota:
  assumes "credits_fit credits" "credit_sum credits \<noteq> 0" "0 \<le> sint pool"
    and i: "i < length (positive_accounts credits)"
  shows "\<bar>share pool credits i * sint (credit_sum credits) - sint pool * (weights credits ! i)\<bar>
    < sint (credit_sum credits)"
proof -
  let ?t = "sint (credit_sum credits)" and ?w = "weights credits ! i" and ?R = "remainders_of pool credits"
  have t: "0 < ?t" by (rule credit_sum_pos [OF assms(1,2)])
  have rem: "?R ! i = sint pool * ?w mod ?t"
    using i by (simp add: remainders_of_eq [OF assms(1-3)])
  have split: "sint pool * ?w = base pool credits i * ?t + ?R ! i"
    by (simp add: base_def rem)
  have r: "0 \<le> ?R ! i" "?R ! i < ?t" using t by (simp_all add: rem)
  have "0 < ?R ! i" if "i \<in> set (lucky pool credits)"
    using that unfolding lucky_def
    by (rule take_desc_order_positive [OF spare_facts(2) [OF assms(1-3)], rotated])
      (use t in \<open>auto simp: remainders_of_eq [OF assms(1-3)]\<close>)
  then show ?thesis
    using r unfolding split by (auto simp: share_def algebra_simps)
qed

lemma share_mono:
  assumes "credits_fit credits" "credit_sum credits \<noteq> 0" "0 \<le> sint pool"
    and i: "i < length (positive_accounts credits)" and j: "j < length (positive_accounts credits)"
    and w: "weights credits ! i < weights credits ! j"
  shows "share pool credits i \<le> share pool credits j"
proof -
  let ?t = "sint (credit_sum credits)" and ?R = "remainders_of pool credits"
  let ?wi = "weights credits ! i" and ?wj = "weights credits ! j"
  have t: "0 < ?t" by (rule credit_sum_pos [OF assms(1,2)])
  have le: "sint pool * ?wi \<le> sint pool * ?wj" using w assms(3) by (simp add: mult_left_mono)
  then have base: "base pool credits i \<le> base pool credits j"
    unfolding base_def using t by (rule zdiv_mono1)
  show ?thesis
  proof (cases "base pool credits i = base pool credits j \<and> i \<in> set (lucky pool credits)")
    case True
    have rem: "?R ! i = sint pool * ?wi mod ?t" "?R ! j = sint pool * ?wj mod ?t"
      using i j by (simp_all add: remainders_of_eq [OF assms(1-3)])
    have "0 < ?R ! i"
      using True unfolding lucky_def
      by (intro take_desc_order_positive [OF spare_facts(2) [OF assms(1-3)]])
        (use t in \<open>auto simp: remainders_of_eq [OF assms(1-3)]\<close>)
    then have "sint pool \<noteq> 0" unfolding rem(1) by (metis less_irrefl mod_0 mult_zero_left)
    then have "0 < sint pool" using assms(3) by linarith
    then have "sint pool * ?wi < sint pool * ?wj" using w by simp
    moreover have "sint pool * ?wi = base pool credits i * ?t + ?R ! i"
      "sint pool * ?wj = base pool credits j * ?t + ?R ! j"
      by (simp_all add: base_def rem)
    ultimately have "?R ! i < ?R ! j" using True by simp
    then have "j \<in> set (lucky pool credits)"
      using True j take_desc_order_closed [of i "spare pool credits" ?R j] by (simp add: lucky_def)
    then show ?thesis using base by (simp add: share_def)
  next
    case False
    then show ?thesis using base by (auto simp: share_def)
  qed
qed

section \<open>What every successful allocation looks like\<close>

text \<open>These hold whatever the credits are, also where the denominator wraps around.\<close>

definition ent_key :: "entitlement \<Rightarrow> string \<times> int64" where
  "ent_key e = (ent_Account e, ent_Credits e)"

lemma ent_key_bump [simp]: "map ent_key (bump_cents i ents) = map ent_key ents"
  by (simp add: bump_cents_def ent_key_def map_update list_update_same_conv)

lemma distribute_keys: "distribute n order ents = Ok ents' \<Longrightarrow> map ent_key ents' = map ent_key ents"
  by (induction n order ents rule: distribute.induct) auto

lemma distribute_not_Err [simp]: "distribute n order ents \<noteq> Err e"
  by (induction n order ents rule: distribute.induct) auto

lemma Allocate_keys:
  assumes "Allocate pool credits = Ok ents"
  shows "map ent_key ents =
    (if credit_sum credits = 0 then [] else map (\<lambda>a. (a, get0 credits a)) (positive_accounts credits))"
proof -
  note nonneg = Allocate_Ok_nonneg [OF assms]
  have "map ent_key (floor_entitlements pool credits) = map (\<lambda>a. (a, get0 credits a)) (positive_accounts credits)"
    by (simp add: floor_entitlements_def floor_entitlement_def ent_key_def)
  with assms nonneg show ?thesis
    by (auto simp: Allocate_eq dest!: distribute_keys split: if_splits)
qed

lemma Allocate_cong:
  assumes "\<forall>c \<in> set credits. 0 \<le> sint (snd c)" "\<forall>c \<in> set credits'. 0 \<le> sint (snd c)" "0 \<le> sint pool"
    and "positive_accounts credits = positive_accounts credits'" "credit_sum credits = credit_sum credits'"
    and "\<forall>a \<in> set (positive_accounts credits'). get0 credits a = get0 credits' a"
  shows "Allocate pool credits = Allocate pool credits'"
proof -
  have "floor_entitlements pool credits = floor_entitlements pool credits'"
    "remainders_of pool credits = remainders_of pool credits'"
    using assms(4-6) by (auto simp: floor_entitlements_def floor_entitlement_def remainders_of_def)
  then show ?thesis
    using assms(1-3,5) by (simp add: Allocate_eq)
qed

lemma Allocate_order_independent:
  assumes "wf_map credits" "mset credits = mset credits'" "\<forall>c \<in> set credits. 0 \<le> sint (snd c)"
    "0 \<le> sint pool"
  shows "Allocate pool credits = Allocate pool credits'"
proof (rule Allocate_cong)
  show "\<forall>c \<in> set credits'. 0 \<le> sint (snd c)"
    using assms(3) mset_eq_setD [OF assms(2)] by simp
  have "mset (map fst (filter (\<lambda>c. snd c \<noteq> 0) credits)) = mset (map fst (filter (\<lambda>c. snd c \<noteq> 0) credits'))"
    using assms(2) by simp
  then show "positive_accounts credits = positive_accounts credits'"
    unfolding positive_accounts_def by (intro properties_for_sort) simp_all
  show "credit_sum credits = credit_sum credits'"
    unfolding credit_sum_def sum_mset_sum_list [symmetric] mset_map assms(2) ..
  show "\<forall>a \<in> set (positive_accounts credits'). get0 credits a = get0 credits' a"
    using map_of_mset_eq [OF assms(1,2)] by (simp add: get0_def)
qed (use assms in auto)

section \<open>Active credits\<close>

lemma foldl_add_to_wf [simp]: "wf_map c \<Longrightarrow> wf_map (foldl (\<lambda>c s. add_to (f s) (g s) c) c xs)"
  by (induction xs arbitrary: c) auto

lemma foldl_add_to_get0:
  "get0 (foldl (\<lambda>c s. add_to (f s) (g s) c) c xs) a = get0 c a + (\<Sum>s\<leftarrow>filter (\<lambda>s. f s = a) xs. g s)"
  by (induction xs arbitrary: c) (auto simp: get0_add_to add.assoc)

definition splits_in :: "award list \<Rightarrow> month \<Rightarrow> split list" where
  "splits_in awards m =
     concat (map aw_Splits (filter (\<lambda>a. aw_Status a = AwardApproved \<and> Award_ActiveIn a m) awards))"

lemma active_loop_Ok_iff:
  "active_loop credits awards m = Ok r \<longleftrightarrow>
     (\<forall>a \<in> set awards. aw_Status a = AwardApproved \<longrightarrow> Award_Validate a = Ok ()) \<and>
     r = foldl (\<lambda>c s. add_to (split_Account s) (split_Credits s) c) credits (splits_in awards m)"
  by (induction credits awards m rule: active_loop.induct)
    (auto simp: splits_in_def outcome_simps)

lemma ActiveCredits_wf: "ActiveCredits awards m = Ok credits \<Longrightarrow> wf_map credits"
  by (simp add: ActiveCredits_def active_loop_Ok_iff)

lemma ActiveCredits_get0: "ActiveCredits awards m = Ok credits \<Longrightarrow>
   get0 credits a = (\<Sum>s\<leftarrow>filter (\<lambda>s. split_Account s = a) (splits_in awards m). split_Credits s)"
  by (simp add: ActiveCredits_def active_loop_Ok_iff foldl_add_to_get0) (simp add: get0_def)

lemma credit_sum_update:
  "wf_map m \<Longrightarrow> credit_sum (AList.update k v m) = credit_sum m - get0 m k + v"
  by (induction m) (auto simp: credit_sum_def get0_def split: option.splits)

lemma credit_sum_add_to: "wf_map m \<Longrightarrow> credit_sum (add_to k v m) = credit_sum m + v"
  by (simp add: add_to_def credit_sum_update)

lemma credit_sum_foldl:
  "wf_map c \<Longrightarrow>
   credit_sum (foldl (\<lambda>c s. add_to (f s) (g s) c) c xs) = credit_sum c + (\<Sum>s\<leftarrow>xs. g s)"
  by (induction xs arbitrary: c) (auto simp: credit_sum_add_to add.assoc)

lemma ActiveCredits_sum:
  "ActiveCredits awards m = Ok credits \<Longrightarrow> credit_sum credits = (\<Sum>s\<leftarrow>splits_in awards m. split_Credits s)"
  by (simp add: ActiveCredits_def active_loop_Ok_iff credit_sum_foldl) (simp add: credit_sum_def)

section \<open>Rounds\<close>

lemma sum_receipts_Ok_iff:
  "sum_receipts p m net rs = Ok r \<longleftrightarrow>
     (\<forall>x \<in> set rs. Receipt_Validate x = Ok () \<and> rcpt_Month x = m \<and> rcpt_Currency x = prog_Currency p) \<and>
     r = net + (\<Sum>x\<leftarrow>rs. Receipt_NetCents x)"
  by (induction p m net rs rule: sum_receipts.induct) (auto simp: outcome_simps add.assoc)

lemma Program_Validate_Ok_iff [outcome_simps]:
  "Program_Validate p = Ok u \<longleftrightarrow>
     prog_Version p \<noteq> '''' \<and> prog_Currency p \<noteq> '''' \<and>
     0 < sint (prog_PoolBps p) \<and> sint (prog_PoolBps p) \<le> 10000 \<and>
     0 < sint (prog_CreditDurationRounds p) \<and> 0 < sint (prog_PayoutDueDays p) \<and>
     valid_month (prog_EffectiveFrom p)"
  by (auto simp: Program_Validate_def outcome_simps)

lemma Program_Validate_no_panic [simp]: "Program_Validate p \<noteq> Panic"
  by (auto simp: Program_Validate_def outcome_simps)

text \<open>A computed round, field by field.\<close>

lemma ComputeRound_Ok_iff:
  "ComputeRound p m receipts awards carry = Ok (r, obs) \<longleftrightarrow>
     Program_Validate p = Ok () \<and> prog_CalculationVersion p = CalculationVersion \<and>
     valid_month m \<and> \<not> Month_Before m (prog_EffectiveFrom p) \<and>
     (\<exists>net credits ents due.
        sum_receipts p m 0 receipts = Ok net \<and> ActiveCredits awards m = Ok credits \<and>
        Allocate (if sint (carry + PoolShareCents (prog_PoolBps p) net) < 0 then 0
                  else carry + PoolShareCents (prog_PoolBps p) net) credits = Ok ents \<and>
        DueDate p m = Ok due \<and>
        r = make_round p m net carry (carry + PoolShareCents (prog_PoolBps p) net) (credit_sum credits) ents \<and>
        obs = map (obligation_of p m due) (filter (\<lambda>e. 0 < sint (ent_AmountCents e)) ents))"
proof -
  have sum: "foldl (\<lambda>s c. s + snd c) 0 credits = credit_sum credits" for credits :: "(string \<times> int64) list"
    by (simp add: foldl_add_eq credit_sum_def)
  show ?thesis
    unfolding ComputeRound_def Let_def sum
    by (simp only: andThen_eq_Ok mapErr_eq_Ok if_Err_eq_Ok Month_Validate_Ok not_not
        outcome.inject prod.inject) (simp add: conj_assoc eq_commute)
qed

lemma make_round_simps [simp]:
  "rd_Month (make_round p m net carry pool tc ents) = m"
  "rd_PolicyVersion (make_round p m net carry pool tc ents) = prog_Version p"
  "rd_CalculationVersion (make_round p m net carry pool tc ents) = CalculationVersion"
  "rd_Currency (make_round p m net carry pool tc ents) = prog_Currency p"
  "rd_NetReceiptsCents (make_round p m net carry pool tc ents) = net"
  "rd_CarryforwardCents (make_round p m net carry pool tc ents) = carry"
  "rd_PoolCents (make_round p m net carry pool tc ents) = pool"
  "rd_TotalCredits (make_round p m net carry pool tc ents) = tc"
  "rd_Entitlements (make_round p m net carry pool tc ents) = ents"
  "rd_UnallocatedCents (make_round p m net carry pool tc ents) = pool - amount_sum ents"
  by (simp_all add: make_round_def Let_def Round_AllocatedCents_eq)

end
