(* ===== verification/Verify.thy ===== *)
theory Verify
  imports Engine
begin

text \<open>
  \<^verbatim>\<open>contributor/verify.go\<close>: recomputing a closed round from its frozen inputs. Every
  round the engine computes verifies, and a round that verifies has the amounts the engine would
  have computed from its published credits.
\<close>

section \<open>The code\<close>

record statement =
  st_Program :: program
  st_Round :: round

fun collect_credits ::
  "month \<Rightarrow> (string \<times> int64) list \<Rightarrow> int64 \<Rightarrow> entitlement list \<Rightarrow> ((string \<times> int64) list \<times> int64) cresult" where
  "collect_credits m credits tot [] = Ok (credits, tot)"
| "collect_credits m credits tot (e # es) =
     (if map_of credits (ent_Account e) \<noteq> None
      then Err (EVerify m (DuplicateEntitlement (ent_Account e)))
      else collect_credits m (AList.update (ent_Account e) (ent_Credits e) credits)
             (tot + ent_Credits e) es)"

text \<open>The comparison loop reads the published entitlement at the same index.\<close>

fun compare_ents :: "month \<Rightarrow> entitlement list \<Rightarrow> entitlement list \<Rightarrow> unit cresult" where
  "compare_ents m [] pubs = Ok ()"
| "compare_ents m (e # es) [] = Panic"
| "compare_ents m (e # es) (pub # pubs) =
     (if e \<noteq> pub then Err (EVerify m (EntitlementMismatch (ent_Account e)))
      else compare_ents m es pubs)"

definition VerifyRound :: "statement \<Rightarrow> unit cresult" where
  "VerifyRound s =
     (let p = st_Program s; r = st_Round s; m = rd_Month r
      in andThen (Program_Validate p) (\<lambda>_.
         andThen (mapErr EMonth (Month_Validate m)) (\<lambda>_.
         if rd_PolicyVersion r \<noteq> prog_Version p
         then Err (EVerify m (PolicyVersionMismatch (rd_PolicyVersion r) (prog_Version p)))
         else if rd_CalculationVersion r \<noteq> CalculationVersion
         then Err (EVerify m (CalculationUnsupported (rd_CalculationVersion r) CalculationVersion))
         else if rd_Currency r \<noteq> prog_Currency p
         then Err (EVerify m (CurrencyMismatch (rd_Currency r) (prog_Currency p)))
         else
           let pool = rd_CarryforwardCents r + PoolShareCents (prog_PoolBps p) (rd_NetReceiptsCents r)
           in if pool \<noteq> rd_PoolCents r then Err (EVerify m (PoolMismatch pool (rd_PoolCents r)))
           else andThen (collect_credits m [] 0 (rd_Entitlements r)) (\<lambda>(credits, totalCredits).
             if totalCredits \<noteq> rd_TotalCredits r
             then Err (EVerify m (CreditSumMismatch totalCredits (rd_TotalCredits r)))
             else
               let allocatable = (if sint pool < 0 then 0 else pool)
               in andThen (mapErr (EIn m) (Allocate allocatable credits)) (\<lambda>ents.
                 if length ents \<noteq> length (rd_Entitlements r)
                 then Err (EVerify m (EntitlementCount (length ents) (length (rd_Entitlements r))))
                 else andThen (compare_ents m ents (rd_Entitlements r)) (\<lambda>_.
                   let got = pool - Round_AllocatedCents r
                   in if got \<noteq> rd_UnallocatedCents r
                      then Err (EVerify m (UnallocatedMismatch got (rd_UnallocatedCents r)))
                      else Ok ()))))))"

section \<open>The loops in closed form\<close>

lemma collect_credits_Ok_iff:
  "collect_credits m credits tot es = Ok (cs, t) \<longleftrightarrow>
     distinct (map ent_Account es) \<and> (\<forall>e \<in> set es. ent_Account e \<notin> fst ` set credits) \<and>
     cs = credits @ map ent_key es \<and> t = tot + (\<Sum>e\<leftarrow>es. ent_Credits e)"
proof (induction es arbitrary: credits tot)
  case (Cons e es)
  have upd: "AList.update (ent_Account e) (ent_Credits e) credits = credits @ [ent_key e]"
    if "map_of credits (ent_Account e) = None"
    using that by (simp add: map_of_eq_None_iff update_nonempty ent_key_def) (induction credits, auto)
  show ?case
  proof (cases "map_of credits (ent_Account e)")
    case None
    then have "ent_Account e \<notin> fst ` set credits" by (simp add: map_of_eq_None_iff)
    then show ?thesis
      using None Cons.IH [of "credits @ [ent_key e]"]
      by (simp add: upd ent_key_def add.assoc image_iff) metis
  next
    case (Some v)
    then have "ent_Account e \<in> fst ` set credits" by (metis domI dom_map_of_conv_image_fst)
    then show ?thesis using Some by simp
  qed
qed auto

lemma compare_ents_Ok_iff:
  "length es = length pubs \<Longrightarrow> compare_ents m es pubs = Ok u \<longleftrightarrow> es = pubs"
  by (induction es pubs rule: list_induct2) auto

lemma VerifyRound_Ok_iff:
  "VerifyRound \<lparr>st_Program = p, st_Round = r\<rparr> = Ok u \<longleftrightarrow>
     Program_Validate p = Ok () \<and> valid_month (rd_Month r) \<and>
     rd_PolicyVersion r = prog_Version p \<and> rd_CalculationVersion r = CalculationVersion \<and>
     rd_Currency r = prog_Currency p \<and>
     rd_PoolCents r = rd_CarryforwardCents r + PoolShareCents (prog_PoolBps p) (rd_NetReceiptsCents r) \<and>
     distinct (map ent_Account (rd_Entitlements r)) \<and>
     rd_TotalCredits r = (\<Sum>e\<leftarrow>rd_Entitlements r. ent_Credits e) \<and>
     Allocate (if sint (rd_PoolCents r) < 0 then 0 else rd_PoolCents r) (map ent_key (rd_Entitlements r)) =
       Ok (rd_Entitlements r) \<and>
     rd_UnallocatedCents r = rd_PoolCents r - amount_sum (rd_Entitlements r)"
  unfolding VerifyRound_def Let_def statement.simps
  by (simp only: andThen_eq_Ok mapErr_eq_Ok if_Err_eq_Ok Month_Validate_Ok not_not
      case_prod_beta split_paired_Ex fst_conv snd_conv collect_credits_Ok_iff)
    (auto simp: compare_ents_Ok_iff Round_AllocatedCents_eq)

section \<open>Computed rounds verify\<close>

lemma map_fst_ent_key: "map fst (map ent_key es) = map ent_Account es"
  by (simp add: ent_key_def)

lemma map_snd_ent_key: "map snd (map ent_key es) = map ent_Credits es"
  by (simp add: ent_key_def)

lemma credit_sum_map_snd: "credit_sum credits = (\<Sum>c\<leftarrow>map snd credits. c)"
  by (simp add: credit_sum_def)

lemma credit_sum_ent_key: "credit_sum (map ent_key es) = (\<Sum>e\<leftarrow>es. ent_Credits e)"
  by (simp add: credit_sum_def ent_key_def comp_def)

text \<open>Allocating again from the accounts and credits of a result gives that result.\<close>

lemma Allocate_again:
  assumes "wf_map credits" "Allocate pool credits = Ok ents"
  shows "Allocate pool (map ent_key ents) = Ok ents" "distinct (map ent_Account ents)"
    "credit_sum credits = (\<Sum>e\<leftarrow>ents. ent_Credits e)"
proof -
  note nonneg = Allocate_Ok_nonneg [OF assms(2)] and keys = Allocate_keys [OF assms(2)]
  note acc = positive_accounts_props [OF assms(1)]
  show "distinct (map ent_Account ents)"
    using acc(2) by (simp only: map_fst_ent_key [symmetric] keys) (simp add: comp_def)
  show sum: "credit_sum credits = (\<Sum>e\<leftarrow>ents. ent_Credits e)"
    using sum_positive_accounts [OF assms(1), of "\<lambda>x. x"]
    by (simp only: credit_sum_ent_key [symmetric] keys) (simp add: credit_sum_def comp_def)
  show "Allocate pool (map ent_key ents) = Ok ents"
  proof (cases "credit_sum credits = 0")
    case True
    then have "ents = []" using keys by simp
    then show ?thesis using nonneg by (simp add: Allocate_eq credit_sum_def)
  next
    case False
    let ?as = "positive_accounts credits"
    let ?m = "map (\<lambda>a. (a, get0 credits a)) ?as"
    have m: "map ent_key ents = ?m" using keys False by simp
    have wf: "wf_map ?m" using acc(2) by (simp add: comp_def)
    have "filter (\<lambda>c. snd c \<noteq> 0) ?m = ?m" using acc(3) by (auto simp: filter_id_conv)
    then have pos: "positive_accounts ?m = ?as"
      using acc(1) by (simp add: positive_accounts_def [of ?m] comp_def sorted_sort_id)
    have "Allocate pool ?m = Allocate pool credits"
    proof (rule Allocate_cong)
      show "\<forall>c\<in>set ?m. 0 \<le> sint (snd c)" using nonneg by (auto intro: get0_nonneg)
      show "credit_sum ?m = credit_sum credits"
        using sum by (simp only: credit_sum_ent_key [symmetric] m)
      show "\<forall>a\<in>set (positive_accounts credits). get0 ?m a = get0 credits a"
        using wf by (auto intro: get0_member)
    qed (use nonneg pos in auto)
    then show ?thesis using assms(2) by (simp add: m)
  qed
qed

lemma ComputeRound_verifies:
  assumes "ComputeRound p m receipts awards carry = Ok (r, obs)"
  shows "VerifyRound \<lparr>st_Program = p, st_Round = r\<rparr> = Ok ()"
proof -
  obtain net credits ents where
    c: "Program_Validate p = Ok ()" "valid_month m" "ActiveCredits awards m = Ok credits"
    "Allocate (if sint (carry + PoolShareCents (prog_PoolBps p) net) < 0 then 0
               else carry + PoolShareCents (prog_PoolBps p) net) credits = Ok ents"
    "r = make_round p m net carry (carry + PoolShareCents (prog_PoolBps p) net) (credit_sum credits) ents"
    using assms by (auto simp only: ComputeRound_Ok_iff)
  note again = Allocate_again [OF ActiveCredits_wf [OF c(3)] c(4)]
  show ?thesis
    using c(1,2) again unfolding VerifyRound_Ok_iff c(5) make_round_simps
    by (simp split del: if_split)
qed

end
