(* ===== verification/EngineProps.thy ===== *)
theory EngineProps
  imports Verify
begin

text \<open>
  What the allocation engine guarantees: exactness, quota, fairness, independence of the map order,
  the overflow it does not guard against, reproducibility of rounds, and the obligations and due
  dates a round produces.
\<close>

section \<open>Helpers\<close>

lemma Allocate_members:
  assumes "credits_fit credits" "credit_sum credits \<noteq> 0" "0 \<le> sint pool"
    and "Allocate pool credits = Ok ents" "e \<in> set ents"
  obtains i where "i < length (positive_accounts credits)" "ent_Account e = positive_accounts credits ! i"
    "sint (ent_Credits e) = weights credits ! i" "sint (ent_AmountCents e) = share pool credits i"
proof -
  obtain i where i: "i < length (positive_accounts credits)"
    "e = \<lparr>ent_Account = positive_accounts credits ! i,
          ent_Credits = get0 credits (positive_accounts credits ! i),
          ent_AmountCents = word_of_int (share pool credits i)\<rparr>"
    using assms(4,5) by (auto simp: Allocate_shape [OF assms(1-3)])
  show thesis
    by (rule that [OF i(1)]) (use i sint_share [OF assms(1-3) i(1)] in \<open>simp_all add: weights_def\<close>)
qed

lemma Allocate_nonempty: "Allocate pool credits = Ok ents \<Longrightarrow> e \<in> set ents \<Longrightarrow> credit_sum credits \<noteq> 0"
  using Allocate_keys [of pool credits ents] by (auto split: if_splits)

lemma Allocate_sum:
  assumes "credits_fit credits" "credit_sum credits \<noteq> 0" "0 \<le> sint pool"
    and "Allocate pool credits = Ok ents"
  shows "(\<Sum>e\<leftarrow>ents. sint (ent_AmountCents e)) = sint pool"
proof -
  let ?n = "length (positive_accounts credits)"
  have "ents = map (\<lambda>i. \<lparr>ent_Account = positive_accounts credits ! i,
          ent_Credits = get0 credits (positive_accounts credits ! i),
          ent_AmountCents = word_of_int (share pool credits i)\<rparr>) [0..<?n]"
    using assms(4) by (simp add: Allocate_shape [OF assms(1-3)])
  then have "(\<Sum>e\<leftarrow>ents. sint (ent_AmountCents e)) =
      (\<Sum>i\<leftarrow>[0..<?n]. sint (word_of_int (share pool credits i) :: int64))"
    by (simp add: comp_def)
  also have "\<dots> = (\<Sum>i\<leftarrow>[0..<?n]. share pool credits i)"
    by (intro arg_cong [where f = sum_list] map_cong refl) (simp add: sint_share [OF assms(1-3)])
  finally show ?thesis using sum_shares [OF assms(1-3)] by simp
qed

lemma Allocate_accounts:
  assumes "wf_map credits" "Allocate pool credits = Ok ents"
  shows "sorted_wrt (<) (map ent_Account ents)"
proof -
  note acc = positive_accounts_props [OF assms(1)]
  have "map ent_Account ents = (if credit_sum credits = 0 then [] else positive_accounts credits)"
    using arg_cong [OF Allocate_keys [OF assms(2)], of "map fst"]
    by (simp add: ent_key_def comp_def split: if_splits)
  moreover have "sorted_wrt (<) (positive_accounts credits)"
    using acc(1,2) by (simp add: strict_sorted_iff)
  ultimately show ?thesis by simp
qed

definition sample_credits :: "(string \<times> int64) list" where
  "sample_credits = [(''bob'', 2), (''ann'', 1)]"

lemma sample_credits_fit: "credits_fit sample_credits" "credit_sum sample_credits \<noteq> 0"
  by (simp_all add: sample_credits_def credits_fit_def credit_sum_def)

lemma sample_allocation: "Allocate 100 sample_credits =
  Ok [\<lparr>ent_Account = ''ann'', ent_Credits = 1, ent_AmountCents = 33\<rparr>,
      \<lparr>ent_Account = ''bob'', ent_Credits = 2, ent_AmountCents = 67\<rparr>]"
  by code_simp

section \<open>The allocation\<close>

text \<open>
  C1 (allocate_exact). Where the credits are non-negative and their sum fits in an int64 and is not
  zero, \<open>Allocate\<close> of a non-negative pool succeeds (no error and no index out of range), every
  amount is non-negative, the amounts add up to exactly the pool, and the entitlements are in
  strictly increasing order of account, one per account with credits.
\<close>

theorem allocate_exact:
  assumes "0 \<le> sint pool" "credits_fit credits" "credit_sum credits \<noteq> 0"
  shows "\<exists>ents. Allocate pool credits = Ok ents \<and>
    (\<Sum>e\<leftarrow>ents. sint (ent_AmountCents e)) = sint pool \<and>
    (\<forall>e. e \<in> set ents \<longrightarrow> 0 \<le> sint (ent_AmountCents e)) \<and>
    sorted_wrt (<) (map ent_Account ents) \<and>
    set (map ent_Account ents) = {a. get0 credits a \<noteq> 0}"
proof -
  obtain ents where A: "Allocate pool credits = Ok ents"
    using Allocate_shape [OF assms(2,3,1)] by blast
  have wf: "wf_map credits" using assms(2) by (simp add: credits_fit_def)
  have "0 \<le> sint (ent_AmountCents e)" if "e \<in> set ents" for e
    using Allocate_members [OF assms(2,3,1) A that] share_nonneg [OF assms(2,3,1)] by metis
  moreover have "map ent_Account ents = positive_accounts credits"
    using arg_cong [OF Allocate_keys [OF A], of "map fst"] assms(3)
    by (simp add: ent_key_def comp_def)
  ultimately show ?thesis
    using A Allocate_sum [OF assms(2,3,1) A] Allocate_accounts [OF wf A] positive_accounts_props(3) [OF wf]
    by (simp del: set_map)
qed

theorem allocate_exact_witness:
  "\<exists>ents. Allocate 100 sample_credits = Ok ents \<and> (\<Sum>e\<leftarrow>ents. sint (ent_AmountCents e)) = 100"
  using allocate_exact [OF _ sample_credits_fit, of 100] by auto

text \<open>
  C2 (allocate_quota). Each amount is within one cent of the exact share: it differs from
  pool times credits over the sum of the credits by less than one.
\<close>

theorem allocate_quota:
  assumes "credits_fit credits" "Allocate pool credits = Ok ents" "e \<in> set ents"
  shows "\<bar>sint (ent_AmountCents e) * sint (credit_sum credits) - sint pool * sint (ent_Credits e)\<bar>
    < sint (credit_sum credits)"
proof -
  have pool: "0 \<le> sint pool" using Allocate_Ok_nonneg [OF assms(2)] by simp
  note nz = Allocate_nonempty [OF assms(2,3)]
  obtain i where "i < length (positive_accounts credits)"
    "sint (ent_Credits e) = weights credits ! i" "sint (ent_AmountCents e) = share pool credits i"
    using Allocate_members [OF assms(1) nz pool assms(2,3)] .
  then show ?thesis using share_quota [OF assms(1) nz pool] by simp
qed

theorem allocate_quota_witness:
  "\<bar>sint (67 :: int64) * sint (credit_sum sample_credits) - sint (100 :: int64) * sint (2 :: int64)\<bar>
    < sint (credit_sum sample_credits)"
  using allocate_quota [OF sample_credits_fit(1) sample_allocation,
      of "\<lparr>ent_Account = ''bob'', ent_Credits = 2, ent_AmountCents = 67\<rparr>"]
  by simp

text \<open>
  C3 (allocate_fair). More credits never receive less: of two entitlements of one allocation the one
  with more credits has at least the amount of the other, and equal credits differ by at most a cent.
\<close>

theorem allocate_fair:
  assumes "credits_fit credits" "Allocate pool credits = Ok ents" "e \<in> set ents" "e' \<in> set ents"
  shows "(sint (ent_Credits e) < sint (ent_Credits e') \<longrightarrow>
      sint (ent_AmountCents e) \<le> sint (ent_AmountCents e')) \<and>
    (ent_Credits e = ent_Credits e' \<longrightarrow>
      \<bar>sint (ent_AmountCents e) - sint (ent_AmountCents e')\<bar> \<le> 1)"
proof -
  have pool: "0 \<le> sint pool" using Allocate_Ok_nonneg [OF assms(2)] by simp
  note nz = Allocate_nonempty [OF assms(2,3)]
  obtain i where i: "i < length (positive_accounts credits)"
    "sint (ent_Credits e) = weights credits ! i" "sint (ent_AmountCents e) = share pool credits i"
    using Allocate_members [OF assms(1) nz pool assms(2,3)] .
  obtain j where j: "j < length (positive_accounts credits)"
    "sint (ent_Credits e') = weights credits ! j" "sint (ent_AmountCents e') = share pool credits j"
    using Allocate_members [OF assms(1) nz pool assms(2,4)] .
  have "\<bar>share pool credits i - share pool credits j\<bar> \<le> 1" if "ent_Credits e = ent_Credits e'"
  proof -
    have "weights credits ! i = weights credits ! j" using that i(2) j(2) by simp
    then show ?thesis by (simp add: share_def base_def)
  qed
  then show ?thesis
    using i j share_mono [OF assms(1) nz pool i(1) j(1)] by simp
qed

theorem allocate_fair_witness: "sint (33 :: int64) \<le> sint (67 :: int64)"
  using allocate_fair [OF sample_credits_fit(1) sample_allocation,
      of "\<lparr>ent_Account = ''ann'', ent_Credits = 1, ent_AmountCents = 33\<rparr>"
         "\<lparr>ent_Account = ''bob'', ent_Credits = 2, ent_AmountCents = 67\<rparr>"]
  by simp

text \<open>
  C4 (allocate_deterministic). The order in which \<open>range\<close> visits the credits map does not
  matter: two orders of one map give the same entitlements, and both or neither of them panic.
\<close>

theorem allocate_deterministic:
  assumes "wf_map credits" "mset credits = mset credits'"
  shows "(Allocate pool credits = Ok ents \<longleftrightarrow> Allocate pool credits' = Ok ents) \<and>
    (Allocate pool credits = Panic \<longleftrightarrow> Allocate pool credits' = Panic)"
proof (cases "0 \<le> sint pool")
  case True
  have sets: "set credits = set credits'" using assms(2) by (rule mset_eq_setD)
  show ?thesis
  proof (cases "\<forall>c \<in> set credits. 0 \<le> sint (snd c)")
    case nonneg: True
    show ?thesis using Allocate_order_independent [OF assms nonneg True] by simp
  next
    case False
    then have "\<exists>c \<in> set credits. sint (snd c) < 0" by (auto simp: not_le)
    then show ?thesis
      using Allocate_negative_credits [of credits pool] Allocate_negative_credits [of credits' pool] True sets
      by auto
  qed
qed (simp add: Allocate_def)

theorem allocate_deterministic_witness:
  "Allocate 100 [(''ann'', 1), (''bob'', 2)] =
     Ok [\<lparr>ent_Account = ''ann'', ent_Credits = 1, ent_AmountCents = 33\<rparr>,
         \<lparr>ent_Account = ''bob'', ent_Credits = 2, ent_AmountCents = 67\<rparr>]"
  using allocate_deterministic [of sample_credits "[(''ann'', 1), (''bob'', 2)]" 100] sample_allocation
  by (simp add: sample_credits_def add_mset_commute)

text \<open>
  The denominator is an int64 sum: two accounts with 2^62 credits each
  wrap it around to a negative number, the floors become negative, more cents are left over than there
  are entitlements, and the last loop runs out of range.
\<close>

theorem allocate_overflow_panics:
  "Allocate 100 [(''ann'', 4611686018427387904), (''bob'', 4611686018427387904)] = Panic"
  by code_simp

section \<open>Rounds\<close>

definition sample_program :: program where
  "sample_program =
     \<lparr>prog_Version = ''v1'', prog_Currency = ''usd'', prog_PoolBps = 2000, prog_CoveredReceipts = ''all'',
      prog_CreditDurationRounds = 12, prog_PaymentTimetable = ''quarterly'', prog_PayoutDueDays = 30,
      prog_CalculationVersion = 1, prog_EffectiveFrom = ''2026-01'', prog_CreatedAt = zeroTime,
      prog_UpdatedAt = zeroTime\<rparr>"

definition sample_receipt :: receipt where
  "sample_receipt =
     \<lparr>rcpt_Source = ''inv-1'', rcpt_Month = ''2026-02'', rcpt_GrossCents = 1000,
      rcpt_Adjustments = [\<lparr>adj_Kind = ''tax'', adj_AmountCents = 500, adj_Description = ''''\<rparr>],
      rcpt_Currency = ''usd'', rcpt_Evidence = '''', rcpt_CreatedAt = zeroTime, rcpt_UpdatedAt = zeroTime\<rparr>"

definition sample_award :: award where
  "sample_award =
     \<lparr>aw_ID = ''a1'', aw_Splits = [\<lparr>split_Account = ''bob'', split_Credits = 2\<rparr>,
        \<lparr>split_Account = ''ann'', split_Credits = 1\<rparr>],
      aw_Activation = ''2026-01'', aw_Expiration = ''2027-01'', aw_Evidence = [''pr''],
      aw_Description = '''', aw_PolicyVersion = ''v1'', aw_Status = AwardApproved,
      aw_ProposedBy = '''', aw_ProposedAt = zeroTime, aw_DecidedBy = '''', aw_DecidedAt = zeroTime,
      aw_DecisionNote = '''', aw_CreatedAt = zeroTime, aw_UpdatedAt = zeroTime\<rparr>"

definition sample_entitlements :: "entitlement list" where
  "sample_entitlements =
     [\<lparr>ent_Account = ''ann'', ent_Credits = 1, ent_AmountCents = 33\<rparr>,
      \<lparr>ent_Account = ''bob'', ent_Credits = 2, ent_AmountCents = 67\<rparr>]"

definition sample_round :: round where
  "sample_round = make_round sample_program ''2026-02'' 500 0 100 3 sample_entitlements"

definition sample_obligations :: "obligation list" where
  "sample_obligations =
     map (obligation_of sample_program ''2026-02'' (GoTime 2026 5 1 0)) sample_entitlements"

lemma sample_due: "DueDate sample_program ''2026-02'' = Ok (GoTime 2026 5 1 0)"
proof -
  have "(Month_Time ''2026-02'' :: gotime cresult) = Ok (GoTime 2026 2 1 0)"
    by (simp add: Month_Time_def time_Parse_def is_digit_def digit_val_def)
  moreover have "add_days 30 (GoTime 2026 4 1 0) = GoTime 2026 5 1 0" by code_simp
  moreover have "sint (prog_PayoutDueDays sample_program) = 30" by (simp add: sample_program_def)
  ultimately show ?thesis by (simp add: DueDate_def AddDate_def time_Date_def)
qed

lemma sample_compute:
  "ComputeRound sample_program ''2026-02'' [sample_receipt] [sample_award] 0 =
     Ok (sample_round, sample_obligations)"
proof -
  have "Program_Validate sample_program = Ok ()" "valid_month ''2026-02''"
    "prog_CalculationVersion sample_program = CalculationVersion"
    "\<not> Month_Before ''2026-02'' (prog_EffectiveFrom sample_program)"
    by (simp_all add: month_eval Program_Validate_Ok_iff sample_program_def CalculationVersion_def Month_Before_def)
  moreover have "sum_receipts sample_program ''2026-02'' 0 [sample_receipt] = Ok 500"
    by (simp add: month_eval sample_receipt_def sample_program_def Receipt_Validate_def Validate_eq
        Receipt_NetCents_def)
  moreover have "ActiveCredits [sample_award] ''2026-02'' = Ok sample_credits"
    by (simp add: month_eval ActiveCredits_def sample_award_def Award_Validate_def Validate_eq
        Month_Before_def Award_ActiveIn_def add_to_def get0_def sample_credits_def)
  moreover have "0 + PoolShareCents (prog_PoolBps sample_program) 500 = 100" by code_simp
  moreover have "credit_sum sample_credits = 3" "\<not> sint (100 :: int64) < 0"
    by (simp_all add: sample_credits_def credit_sum_def)
  moreover have "DueDate sample_program ''2026-02'' = Ok (GoTime 2026 5 1 0)" by (rule sample_due)
  ultimately show ?thesis
    using sample_allocation
    unfolding ComputeRound_Ok_iff sample_round_def sample_obligations_def sample_entitlements_def
    by (intro conjI exI [of _ 500] exI [of _ sample_credits] exI [of _ sample_entitlements]
        exI [of _ "GoTime 2026 5 1 0"]) (auto simp: sample_entitlements_def)
qed

text \<open>
  C5 (computed_round_verifies). Every round \<open>ComputeRound\<close> returns passes \<open>VerifyRound\<close>
  against the program it was computed under, also where sums wrap around.
\<close>

theorem computed_round_verifies:
  "ComputeRound p m receipts awards carry = Ok (r, obs) \<Longrightarrow>
   VerifyRound \<lparr>st_Program = p, st_Round = r\<rparr> = Ok ()"
  by (rule ComputeRound_verifies)

theorem computed_round_verifies_witness:
  "VerifyRound \<lparr>st_Program = sample_program, st_Round = sample_round\<rparr> = Ok ()"
  by (rule computed_round_verifies [OF sample_compute])

text \<open>
  A round that verifies is exact: with published credits whose sum fits and
  is not zero and a pool that is not negative, its published amounts add up to its pool, nothing is
  left unallocated, and its pool is the carryforward plus the pool share of its net receipts.
\<close>

theorem verified_round_exact:
  assumes "VerifyRound \<lparr>st_Program = p, st_Round = r\<rparr> = Ok ()"
    and "credits_fit (map ent_key (rd_Entitlements r))" "rd_TotalCredits r \<noteq> 0" "0 \<le> sint (rd_PoolCents r)"
  shows "(\<Sum>e\<leftarrow>rd_Entitlements r. sint (ent_AmountCents e)) = sint (rd_PoolCents r) \<and>
    rd_UnallocatedCents r = 0 \<and>
    rd_PoolCents r = rd_CarryforwardCents r + PoolShareCents (prog_PoolBps p) (rd_NetReceiptsCents r)"
proof -
  let ?es = "rd_Entitlements r" and ?pool = "rd_PoolCents r"
  have v: "?pool = rd_CarryforwardCents r + PoolShareCents (prog_PoolBps p) (rd_NetReceiptsCents r)"
    "rd_TotalCredits r = (\<Sum>e\<leftarrow>?es. ent_Credits e)" "Allocate ?pool (map ent_key ?es) = Ok ?es"
    "rd_UnallocatedCents r = ?pool - amount_sum ?es"
    using assms(1,4) by (auto simp: VerifyRound_Ok_iff  split: if_splits)
  have nz: "credit_sum (map ent_key ?es) \<noteq> 0"
    using assms(3) v(2) by (simp add: credit_sum_ent_key)
  note sum = Allocate_sum [OF assms(2) nz assms(4) v(3)]
  have "sint (amount_sum ?es) = sint ?pool"
    unfolding amount_sum_def sum [symmetric]
  proof (rule sint_sum_list_fits)
    show "\<forall>e\<in>set ?es. 0 \<le> sint (ent_AmountCents e)"
      using Allocate_members [OF assms(2) nz assms(4) v(3)] share_nonneg [OF assms(2) nz assms(4)] by metis
    show "(\<Sum>e\<leftarrow>?es. sint (ent_AmountCents e)) < 9223372036854775808"
      unfolding sum by (rule sint64_bounds)
  qed
  then have "amount_sum ?es = ?pool" by (simp only: sint64_eq_iff)
  then show ?thesis using v(1,4) sum by simp
qed

lemma sample_round_fit:
  "credits_fit (map ent_key (rd_Entitlements sample_round))" "rd_TotalCredits sample_round \<noteq> 0"
  "rd_PoolCents sample_round = 100"
  by (simp_all add: sample_round_def sample_entitlements_def credits_fit_def ent_key_def)

theorem verified_round_exact_witness:
  "(\<Sum>e\<leftarrow>rd_Entitlements sample_round. sint (ent_AmountCents e)) = 100 \<and> rd_UnallocatedCents sample_round = 0"
  using verified_round_exact [of sample_program sample_round] ComputeRound_verifies [OF sample_compute]
    sample_round_fit by simp

text \<open>
  Of a computed round whose credit total fits, the unallocated balance is the
  whole pool when there are no active credits, and zero when there are and the pool is not negative;
  a negative pool is carried forward whole even when there are active credits.
\<close>

theorem unallocated_balance:
  assumes "ComputeRound p m receipts awards carry = Ok (r, obs)"
    and "ActiveCredits awards m = Ok credits" "credits_fit credits"
  shows "rd_UnallocatedCents r =
    (if rd_TotalCredits r = 0 \<or> sint (rd_PoolCents r) < 0 then rd_PoolCents r else 0)"
proof -
  obtain net ents where c:
    "Allocate (if sint (carry + PoolShareCents (prog_PoolBps p) net) < 0 then 0
               else carry + PoolShareCents (prog_PoolBps p) net) credits = Ok ents"
    "r = make_round p m net carry (carry + PoolShareCents (prog_PoolBps p) net) (credit_sum credits) ents"
    using assms(1,2) by (auto simp only: ComputeRound_Ok_iff outcome.inject)
  let ?pool = "carry + PoolShareCents (prog_PoolBps p) net"
  let ?alloc = "if sint ?pool < 0 then 0 else ?pool"
  have nonneg: "0 \<le> sint ?alloc" by (simp add: not_less)
  show ?thesis
  proof (cases "credit_sum credits = 0")
    case True
    then have "ents = []" using Allocate_keys [OF c(1)] by simp
    then show ?thesis using True by (simp add: c(2) amount_sum_def)
  next
    case False
    note sum = Allocate_sum [OF assms(3) False nonneg c(1)]
    have "sint (amount_sum ents) = sint ?alloc"
      unfolding amount_sum_def sum [symmetric]
    proof (rule sint_sum_list_fits)
      show "\<forall>e\<in>set ents. 0 \<le> sint (ent_AmountCents e)"
        using Allocate_members [OF assms(3) False nonneg c(1)] share_nonneg [OF assms(3) False nonneg] by metis
      show "(\<Sum>e\<leftarrow>ents. sint (ent_AmountCents e)) < 9223372036854775808"
        unfolding sum by (rule sint64_bounds)
    qed
    then have "amount_sum ents = ?alloc" by (simp only: sint64_eq_iff)
    then show ?thesis using False by (simp add: c(2))
  qed
qed

lemma sample_active: "ActiveCredits [sample_award] ''2026-02'' = Ok sample_credits"
  by (simp add: month_eval ActiveCredits_def sample_award_def Award_Validate_def Validate_eq
      Month_Before_def Award_ActiveIn_def add_to_def get0_def sample_credits_def)

theorem unallocated_balance_witness: "rd_UnallocatedCents sample_round = 0"
  using unallocated_balance [OF sample_compute sample_active sample_credits_fit(1)]
    sample_round_fit by simp

section \<open>Obligations and due dates\<close>

lemma ObligationID_inject: "ObligationID m a = ObligationID m b \<longleftrightarrow> a = b"
  by (simp add: ObligationID_def)

text \<open>
  The obligations of a computed round are exactly its entitlements with a
  positive amount, in order, with the same accounts and amounts, for the month of the round, earned,
  without history, and with pairwise distinct identifiers (the idempotency keys of transfers).
\<close>

theorem round_obligations:
  assumes "ComputeRound p m receipts awards carry = Ok (r, obs)"
  shows "map (\<lambda>x. (ob_Account x, ob_AmountCents x)) obs =
      map (\<lambda>e. (ent_Account e, ent_AmountCents e))
        (filter (\<lambda>e. 0 < sint (ent_AmountCents e)) (rd_Entitlements r)) \<and>
    (\<forall>x. x \<in> set obs \<longrightarrow> ob_Month x = m \<and> 0 < sint (ob_AmountCents x) \<and> ob_State x = ObligationEarned \<and>
       ob_Currency x = rd_Currency r \<and> ob_History x = []) \<and>
    distinct (map Obligation_ID obs)"
proof -
  obtain net credits ents due where c: "ActiveCredits awards m = Ok credits"
    "Allocate (if sint (carry + PoolShareCents (prog_PoolBps p) net) < 0 then 0
               else carry + PoolShareCents (prog_PoolBps p) net) credits = Ok ents"
    "r = make_round p m net carry (carry + PoolShareCents (prog_PoolBps p) net) (credit_sum credits) ents"
    "obs = map (obligation_of p m due) (filter (\<lambda>e. 0 < sint (ent_AmountCents e)) ents)"
    using assms by (auto simp only: ComputeRound_Ok_iff)
  have "distinct (map ent_Account ents)"
    by (rule Allocate_again(2) [OF ActiveCredits_wf [OF c(1)] c(2)])
  then have "distinct (map (\<lambda>e. ObligationID m (ent_Account e)) ents)"
    by (auto simp: distinct_map inj_on_def ObligationID_inject)
  then show ?thesis
    by (auto simp: c(3,4) obligation_of_def comp_def Obligation_ID_def distinct_map_filter)
qed

theorem round_obligations_witness:
  "map (\<lambda>x. (ob_Account x, ob_AmountCents x)) sample_obligations = [(''ann'', 33), (''bob'', 67)] \<and>
   distinct (map Obligation_ID sample_obligations)"
  using round_obligations [OF sample_compute]
  by (simp add: sample_round_def sample_entitlements_def)

lemma div3_of_12: "(12 * y + k) div 3 = 4 * y + k div (3 :: int)"
proof -
  have "12 * y + k = k + 3 * (4 * y)" by simp
  then show ?thesis by (simp only: div_mult_self2)
qed

lemma quarter_mult: "3 * (4 * y + c) + 3 = 12 * y + (3 + c * (3 :: int))"
  by simp

lemma DueDate_valid:
  assumes "valid_month m"
  shows "DueDate p m = Ok (add_days (sint (prog_PayoutDueDays p))
     (GoTime ((3 * (month_index m div 3) + 3) div 12) ((3 * (month_index m div 3) + 3) mod 12 + 1) 1 0))"
proof -
  let ?i = "month_index m"
  define y k where "y = ?i div 12" and "k = ?i mod 12"
  have i: "?i = 12 * y + k" unfolding y_def k_def by (simp only: mult_div_mod_eq)
  define c where "c = k div 3"
  have "3 * (?i div 3) + 3 = 12 * y + (3 + c * 3)"
    unfolding i c_def by (simp only: div3_of_12 quarter_mult)
  then have e: "(3 * (?i div 3) + 3) div 12 = y + (3 + c * 3) div 12"
    "(3 * (?i div 3) + 3) mod 12 = (3 + c * 3) mod 12"
    by (simp_all only: mod_mult_self4 div_mult_self4)
  have "c * 3 + 4 + 0 - 1 = 3 + c * 3" "k + 1 - 1 = k" by simp_all
  moreover have "Month_Time m = (Ok (GoTime y (k + 1) 1 0) :: gotime cresult)"
    using Month_Time_valid [OF assms] by (simp only: y_def k_def)
  ultimately show ?thesis
    unfolding e by (simp only: DueDate_def andThen.simps Let_def AddDate_def time_Date_def gotime.sel
        c_def [symmetric]) simp
qed

text \<open>
  Under a valid program the due date of a valid month is a valid date after the first
  instant of the following month, and it is the same for every month of the calendar quarter.
\<close>

theorem due_date:
  assumes "Program_Validate p = Ok ()" "valid_month m"
  shows "\<exists>d. DueDate p m = Ok d \<and> valid_time d \<and>
    GoTime ((month_index m + 1) div 12) ((month_index m + 1) mod 12 + 1) 1 0 < d \<and>
    (\<forall>m'. valid_month m' \<and> month_index m' div 3 = month_index m div 3 \<longrightarrow> DueDate p m' = Ok d)"
proof -
  let ?i = "month_index m" and ?q = "3 * (month_index m div 3) + 3"
  let ?e = "GoTime (?q div 12) (?q mod 12 + 1) 1 0" and ?n = "sint (prog_PayoutDueDays p)"
  have n: "0 < ?n" using assms(1) by (simp add: Program_Validate_Ok_iff)
  have valid: "valid_time ?e"
    using days_in_month_bounds(1) [of "?q div 12" "?q mod 12 + 1"] by (simp add: valid_time_def)
  have "?i = 3 * (?i div 3) + ?i mod 3" "?i mod 3 < 3" by simp_all
  then have le: "?i + 1 \<le> ?q" by linarith
  have "GoTime ((?i + 1) div 12) ((?i + 1) mod 12 + 1) 1 0 \<le> ?e"
  proof (cases "(?i + 1) div 12 = ?q div 12")
    case True
    then have "(?i + 1) mod 12 \<le> ?q mod 12"
      using le by (metis add_le_cancel_left mult_div_mod_eq)
    with True show ?thesis by (auto simp: less_eq_gotime_def)
  next
    case False
    then have "(?i + 1) div 12 < ?q div 12" using zdiv_mono1 [OF le, of 12] by simp
    then show ?thesis by (simp add: less_eq_gotime_def)
  qed
  also have "?e < add_days ?n ?e" by (rule less_add_days [OF n])
  finally show ?thesis
    using DueDate_valid assms(2) valid_add_days [OF valid] by auto
qed

theorem due_date_witness: "\<exists>d. DueDate sample_program ''2026-02'' = Ok d \<and> GoTime 2026 3 1 0 < d"
proof -
  have "Program_Validate sample_program = Ok ()" "valid_month ''2026-02''"
    by (simp_all add: month_eval Program_Validate_Ok_iff sample_program_def)
  then show ?thesis
    using due_date [of sample_program "''2026-02''"]
    by (auto simp: month_index_def time_Parse_def is_digit_def digit_val_def)
qed

end
