(* ===== verification/DocStore.thy ===== *)
theory DocStore
  imports ContribTypes
begin

text \<open>
  The contract of \<^verbatim>\<open>document.Service\<close> (\<^verbatim>\<open>document/service.go\<close>) as
  its clients use it: documents of one Go type by ID, with the creation and update times
  the service stamps into them. Every call consumes one entry of a script of faults, so that a call
  may also fail for reasons of the backend, before or after it took effect.
\<close>

section \<open>State and operations\<close>

datatype fault = NoFault | FailBefore string | FailAfter string

record 'd docstore =
  docs :: "(string \<times> 'd) list"
  faults :: "fault list"

definition pop_fault :: "'d docstore \<Rightarrow> fault \<times> 'd docstore" where
  "pop_fault s = (case faults s of [] \<Rightarrow> (NoFault, s) | f # fs \<Rightarrow> (f, s\<lparr>faults := fs\<rparr>))"

definition lookup :: "'d docstore \<Rightarrow> string \<Rightarrow> 'd option" where
  "lookup s = map_of (docs s)"

definition put :: "string \<Rightarrow> 'd \<Rightarrow> 'd docstore \<Rightarrow> 'd docstore" where
  "put k d s = s\<lparr>docs := AList.update k d (docs s)\<rparr>"

text \<open>\<open>stamp\<close> writes \<open>CreatedAt\<close> and \<open>UpdatedAt\<close>, which \<open>Create\<close> and
  \<open>Set\<close> both do.\<close>

definition doc_Create :: "('d \<Rightarrow> 'd) \<Rightarrow> string \<Rightarrow> 'd \<Rightarrow> 'd docstore \<Rightarrow> unit cresult \<times> 'd docstore" where
  "doc_Create stamp k d s =
     (case pop_fault s of
        (FailBefore e, s') \<Rightarrow> (Err (ErrStore e), s')
      | (NoFault, s') \<Rightarrow>
          if lookup s' k \<noteq> None then (Err ErrAlreadyExists, s') else (Ok (), put k (stamp d) s')
      | (FailAfter e, s') \<Rightarrow>
          (Err (ErrStore e), if lookup s' k \<noteq> None then s' else put k (stamp d) s'))"

definition doc_Set :: "('d \<Rightarrow> 'd) \<Rightarrow> string \<Rightarrow> 'd \<Rightarrow> 'd docstore \<Rightarrow> unit cresult \<times> 'd docstore" where
  "doc_Set stamp k d s =
     (case pop_fault s of
        (FailBefore e, s') \<Rightarrow> (Err (ErrStore e), s')
      | (NoFault, s') \<Rightarrow> (Ok (), put k (stamp d) s')
      | (FailAfter e, s') \<Rightarrow> (Err (ErrStore e), put k (stamp d) s'))"

definition doc_Get :: "string \<Rightarrow> 'd docstore \<Rightarrow> 'd cresult \<times> 'd docstore" where
  "doc_Get k s =
     (case pop_fault s of
        (NoFault, s') \<Rightarrow>
          (case lookup s' k of None \<Rightarrow> (Err ErrNotFound, s') | Some d \<Rightarrow> (Ok d, s'))
      | (FailBefore e, s') \<Rightarrow> (Err (ErrStore e), s')
      | (FailAfter e, s') \<Rightarrow> (Err (ErrStore e), s'))"

text \<open>\<open>List\<close> with a filter, drained by \<open>iterator.ToSlice\<close>.\<close>

definition doc_List :: "('d \<Rightarrow> bool) \<Rightarrow> 'd docstore \<Rightarrow> 'd list cresult \<times> 'd docstore" where
  "doc_List P s =
     (case pop_fault s of
        (NoFault, s') \<Rightarrow> (Ok (filter P (map snd (docs s'))), s')
      | (FailBefore e, s') \<Rightarrow> (Err (ErrStore e), s')
      | (FailAfter e, s') \<Rightarrow> (Err (ErrStore e), s'))"

definition doc_Delete :: "string \<Rightarrow> 'd docstore \<Rightarrow> unit cresult \<times> 'd docstore" where
  "doc_Delete k s =
     (case pop_fault s of
        (FailBefore e, s') \<Rightarrow> (Err (ErrStore e), s')
      | (NoFault, s') \<Rightarrow> (Ok (), s'\<lparr>docs := AList.delete k (docs s')\<rparr>)
      | (FailAfter e, s') \<Rightarrow> (Err (ErrStore e), s'\<lparr>docs := AList.delete k (docs s')\<rparr>))"

text \<open>\<open>Update\<close> of the service with a function that writes the fields, and no precondition.\<close>

definition doc_Modify :: "('d \<Rightarrow> 'd) \<Rightarrow> string \<Rightarrow> 'd docstore \<Rightarrow> unit cresult \<times> 'd docstore" where
  "doc_Modify f k s =
     (case pop_fault s of
        (FailBefore e, s') \<Rightarrow> (Err (ErrStore e), s')
      | (NoFault, s') \<Rightarrow>
          (case lookup s' k of None \<Rightarrow> (Err ErrNotFound, s') | Some d \<Rightarrow> (Ok (), put k (f d) s'))
      | (FailAfter e, s') \<Rightarrow>
          (Err (ErrStore e), case lookup s' k of None \<Rightarrow> s' | Some d \<Rightarrow> put k (f d) s'))"

lemma docs_pop_fault [simp]: "docs (snd (pop_fault s)) = docs s"
  by (simp add: pop_fault_def split: list.splits)

lemma pop_fault_docs: "pop_fault s = (f, s') \<Longrightarrow> docs s' = docs s"
  using docs_pop_fault [of s] by simp

lemma lookup_put [simp]: "lookup (put k d s) = (lookup s)(k \<mapsto> d)"
  by (simp add: lookup_def put_def update_conv')

lemma lookup_pop_fault: "pop_fault s = (f, s') \<Longrightarrow> lookup s' = lookup s"
  by (simp add: lookup_def pop_fault_docs)

lemma pop_fault_none [simp]: "faults s = [] \<Longrightarrow> pop_fault s = (NoFault, s)"
  by (simp add: pop_fault_def)

section \<open>The contract\<close>

text \<open>
  What a client may rely on, whatever the backend and whatever it stores. A call writes the document
  \<open>doc x\<close> under the key \<open>key x\<close>. A successful creation found no document there; an
  already-exists answer found one and changed nothing; a failed write either changed nothing or took
  effect as a successful one would have. Reads change nothing.
\<close>

locale doc_creator =
  fixes view :: "'s \<Rightarrow> string \<Rightarrow> 'd option"
    and create :: "'x \<Rightarrow> 's \<Rightarrow> 'r cresult \<times> 's"
    and key :: "'x \<Rightarrow> string"
    and doc :: "'x \<Rightarrow> 'd"
    and valid :: "'x \<Rightarrow> bool"
  assumes create_Ok: "create x s = (Ok u, s') \<Longrightarrow> view s (key x) = None \<and> view s' = (view s)(key x \<mapsto> doc x)"
    and create_exists: "create x s = (Err ErrAlreadyExists, s') \<Longrightarrow>
      view s (key x) \<noteq> None \<and> view s' = view s"
    and create_failed: "create x s = (Err e, s') \<Longrightarrow>
      view s' = view s \<or> view s (key x) = None \<and> view s' = (view s)(key x \<mapsto> doc x)"
    and create_no_panic: "fst (create x s) \<noteq> Panic"
    and create_valid: "create x s = (r, s') \<Longrightarrow> view s' \<noteq> view s \<Longrightarrow> valid x"
begin

text \<open>Creation never changes or removes a document that is there.\<close>

lemma create_keeps: "view s k = Some d \<Longrightarrow> view (snd (create x s)) k = Some d"
  using create_Ok [of x s] create_failed [of x s] create_no_panic [of x s]
  by (cases "create x s"; cases "fst (create x s)") fastforce+

lemma create_keeps_key: "view s k \<noteq> None \<Longrightarrow> view (snd (create x s)) k \<noteq> None"
  using create_keeps by blast

text \<open>The document is there after an answer that is nil or already-exists.\<close>

lemma create_accepted:
  "fst (create x s) = Ok u \<or> fst (create x s) = Err ErrAlreadyExists \<Longrightarrow> view (snd (create x s)) (key x) \<noteq> None"
  using create_Ok [of x s] create_exists [of x s]
  by (cases "create x s") fastforce

text \<open>What one creation can add.\<close>

lemma create_adds:
  assumes "view (snd (create x s)) k = Some d"
  shows "view s k = Some d \<or> k = key x \<and> d = doc x \<and> valid x"
proof (cases "view (snd (create x s)) = view s")
  case False
  then have "valid x" using create_valid [of x s] by (cases "create x s") auto
  moreover have "view s k = Some d \<or> k = key x \<and> d = doc x"
    using assms create_Ok [of x s] create_failed [of x s] create_no_panic [of x s]
    by (cases "create x s"; cases "fst (create x s)") (fastforce split: if_splits)+
  ultimately show ?thesis by blast
qed (use assms in simp)

lemma create_invariant:
  assumes "\<forall>k d. view s k = Some d \<longrightarrow> P k d" and "valid x \<Longrightarrow> P (key x) (doc x)"
  shows "\<forall>k d. view (snd (create x s)) k = Some d \<longrightarrow> P k d"
  using assms create_adds by blast

end

locale doc_setter =
  fixes view :: "'s \<Rightarrow> string \<Rightarrow> 'd option"
    and set_doc :: "'x \<Rightarrow> 's \<Rightarrow> unit cresult \<times> 's"
    and key :: "'x \<Rightarrow> string"
    and doc :: "'x \<Rightarrow> 'd"
    and valid :: "'x \<Rightarrow> bool"
  assumes set_Ok: "set_doc x s = (Ok u, s') \<Longrightarrow> view s' = (view s)(key x \<mapsto> doc x)"
    and set_failed: "set_doc x s = (r, s') \<Longrightarrow> view s' = view s \<or> view s' = (view s)(key x \<mapsto> doc x)"
    and set_valid: "set_doc x s = (r, s') \<Longrightarrow> view s' \<noteq> view s \<Longrightarrow> valid x"
begin

lemma set_keeps_key: "view s k \<noteq> None \<Longrightarrow> view (snd (set_doc x s)) k \<noteq> None"
  using set_failed [of x s] by (cases "set_doc x s") fastforce

lemma set_keeps_other: "k \<noteq> key x \<Longrightarrow> view (snd (set_doc x s)) k = view s k"
  using set_failed [of x s] by (cases "set_doc x s") fastforce

lemma set_adds:
  "view (snd (set_doc x s)) k = Some d \<Longrightarrow> view s k = Some d \<or> k = key x \<and> d = doc x \<and> valid x"
  using set_failed [of x s] set_valid [of x s] by (cases "set_doc x s") (fastforce split: if_splits)

lemma set_invariant:
  assumes "\<forall>k d. view s k = Some d \<longrightarrow> P k d" and "valid x \<Longrightarrow> P (key x) (doc x)"
  shows "\<forall>k d. view (snd (set_doc x s)) k = Some d \<longrightarrow> P k d"
  using assms set_adds by blast

end

locale doc_reader =
  fixes view :: "'s \<Rightarrow> string \<Rightarrow> 'd option"
    and get_doc :: "string \<Rightarrow> 's \<Rightarrow> 'd cresult \<times> 's"
  assumes get_view: "view (snd (get_doc k s)) = view s"
    and get_Ok: "fst (get_doc k s) = Ok d \<Longrightarrow> view s k = Some d"
    and get_missing: "fst (get_doc k s) = Err ErrNotFound \<Longrightarrow> view s k = None"
    and get_no_panic: "fst (get_doc k s) \<noteq> Panic"

locale doc_service = doc_creator view create key doc valid + doc_setter view set_doc key doc valid
  + doc_reader view get_doc
  for view :: "'s \<Rightarrow> string \<Rightarrow> 'd option"
    and create :: "'x \<Rightarrow> 's \<Rightarrow> unit cresult \<times> 's"
    and set_doc :: "'x \<Rightarrow> 's \<Rightarrow> unit cresult \<times> 's"
    and get_doc :: "string \<Rightarrow> 's \<Rightarrow> 'd cresult \<times> 's"
    and key :: "'x \<Rightarrow> string"
    and doc :: "'x \<Rightarrow> 'd"
    and valid :: "'x \<Rightarrow> bool"
begin

text \<open>What is read after a successful write is what was written.\<close>

lemma get_after_write:
  "set_doc x s = (Ok u, s') \<or> create x s = (Ok u, s') \<Longrightarrow> fst (get_doc (key x) s') = Ok d \<Longrightarrow> d = doc x"
  using set_Ok [of x s u s'] create_Ok [of x s u s'] get_Ok [of "key x" s' d] by auto

lemma get_after_write_found:
  "set_doc x s = (Ok u, s') \<or> create x s = (Ok u, s') \<Longrightarrow> fst (get_doc (key x) s') \<noteq> Err ErrNotFound"
  using set_Ok [of x s u s'] create_Ok [of x s u s'] get_missing [of "key x" s'] by auto

end

interpretation store: doc_service lookup "\<lambda>(k, d). doc_Create stamp k d" "\<lambda>(k, d). doc_Set stamp k d" doc_Get
    fst "\<lambda>(k, d). stamp d" "\<lambda>_. True"
  for stamp :: "'d \<Rightarrow> 'd"
  by unfold_locales
    (auto simp: doc_Create_def doc_Set_def doc_Get_def lookup_pop_fault
      split: prod.splits fault.splits if_splits option.splits)

lemma lookup_doc_List [simp]: "lookup (snd (doc_List P s)) = lookup s"
  by (auto simp: doc_List_def lookup_pop_fault split: prod.splits fault.splits)

lemma lookup_doc_Get [simp]: "lookup (snd (doc_Get k s)) = lookup s"
  by (rule store.get_view)

lemma doc_List_Ok: "fst (doc_List P s) = Ok xs \<Longrightarrow> xs = filter P (map snd (docs s))"
  by (auto simp: doc_List_def split: prod.splits fault.splits dest!: pop_fault_docs)

lemma doc_no_panic [simp]:
  "fst (doc_Get k s) \<noteq> Panic" "fst (doc_List P s) \<noteq> Panic" "fst (doc_Set stamp k d s) \<noteq> Panic"
  "fst (doc_Create stamp k d s) \<noteq> Panic"
  by (auto simp: doc_Get_def doc_List_def doc_Set_def doc_Create_def
      split: prod.splits fault.splits option.splits)

lemma doc_Delete_view:
  "doc_Delete k s = (r, s') \<Longrightarrow> r \<noteq> Panic \<and> (lookup s' = lookup s \<and> r \<noteq> Ok () \<or> lookup s' = (lookup s)(k := None))"
  by (auto simp: doc_Delete_def lookup_def map_of_delete_alist split: prod.splits fault.splits dest!: pop_fault_docs)

lemma doc_Modify_view:
  "doc_Modify f k s = (r, s') \<Longrightarrow> r \<noteq> Panic \<and>
     (lookup s' = lookup s \<and> r \<noteq> Ok () \<or>
      (\<exists>d. lookup s k = Some d \<and> lookup s' = (lookup s)(k \<mapsto> f d)))"
  by (auto simp: doc_Modify_def lookup_pop_fault split: prod.splits fault.splits option.splits)

text \<open>Without faults to come every call does what the documents say, and none comes up.\<close>

lemma doc_no_faults:
  assumes "faults s = []"
  shows "doc_Set stamp k d s = (Ok (), put k (stamp d) s)"
    and "doc_Create stamp k d s = (if lookup s k \<noteq> None then (Err ErrAlreadyExists, s) else (Ok (), put k (stamp d) s))"
    and "doc_Get k s = (case lookup s k of None \<Rightarrow> (Err ErrNotFound, s) | Some d \<Rightarrow> (Ok d, s))"
    and "doc_Delete k s = (Ok (), s\<lparr>docs := AList.delete k (docs s)\<rparr>)"
    and "doc_Modify f k s = (case lookup s k of None \<Rightarrow> (Err ErrNotFound, s) | Some d \<Rightarrow> (Ok (), put k (f d) s))"
    and "faults (put k d s) = []"
  using assms
  by (simp_all add: doc_Set_def doc_Create_def doc_Get_def doc_Delete_def doc_Modify_def put_def split: option.splits)

lemma lookup_delete [simp]: "lookup (s\<lparr>docs := AList.delete k (docs s)\<rparr>) = (lookup s)(k := None)"
  by (simp add: lookup_def map_of_delete_alist)

lemma wf_doc_Create: "wf_map (docs s) \<Longrightarrow> wf_map (docs (snd (doc_Create stamp k d s)))"
  by (auto simp: doc_Create_def put_def split: prod.splits fault.splits dest!: pop_fault_docs)

lemma wf_doc_Set: "wf_map (docs s) \<Longrightarrow> wf_map (docs (snd (doc_Set stamp k d s)))"
  by (auto simp: doc_Set_def put_def split: prod.splits fault.splits dest!: pop_fault_docs)

lemma docs_doc_Get [simp]: "docs (snd (doc_Get k s)) = docs s"
  by (auto simp: doc_Get_def split: prod.splits fault.splits option.splits dest!: pop_fault_docs)

lemma docs_doc_List [simp]: "docs (snd (doc_List P s)) = docs s"
  by (auto simp: doc_List_def split: prod.splits fault.splits dest!: pop_fault_docs)

end
