(* ===== verification/ContribStores.thy ===== *)
theory ContribStores
  imports DocStore
begin

text \<open>
  The document-backed stores of package contributor (\<^verbatim>\<open>document_store.go\<close>) over the
  contract of \<^verbatim>\<open>document.Service\<close>. An action is a function from the state to a
  result and the state after it, so that what a failed call leaves behind is part of its value.
  The clock reading of a call is its argument \<open>now\<close>, the identifier that
  \<^verbatim>\<open>uuid.NewString\<close> returns the argument \<open>uuid\<close>.
\<close>

section \<open>Actions\<close>

type_synonym ('s, 'a) action = "'s \<Rightarrow> 'a cresult \<times> 's"

definition act_bind :: "('s, 'a) action \<Rightarrow> ('a \<Rightarrow> ('s, 'b) action) \<Rightarrow> ('s, 'b) action" where
  "act_bind m f s = (case m s of
     (Ok a, s') \<Rightarrow> f a s'
   | (Err e, s') \<Rightarrow> (Err e, s')
   | (Panic, s') \<Rightarrow> (Panic, s'))"

definition act_lift :: "'a cresult \<Rightarrow> ('s, 'a) action" where
  "act_lift r s = (r, s)"

definition act_err :: "(cerr \<Rightarrow> cerr) \<Rightarrow> ('s, 'a) action \<Rightarrow> ('s, 'a) action" where
  "act_err g m s = (mapErr g (fst (m s)), snd (m s))"

lemma act_lift_simps [simp]: "fst (act_lift r s) = r" "snd (act_lift r s) = s"
  by (simp_all add: act_lift_def)

lemma act_lift_eq [simp]:
  "act_lift r s = (r', s') \<longleftrightarrow> r' = r \<and> s' = s" "(r', s') = act_lift r s \<longleftrightarrow> r' = r \<and> s' = s"
  by (auto simp: act_lift_def)

lemma act_err_simps [simp]: "fst (act_err g m s) = mapErr g (fst (m s))" "snd (act_err g m s) = snd (m s)"
  by (simp_all add: act_err_def)

lemma fst_act_bind_Ok [outcome_simps]:
  "fst (act_bind m f s) = Ok b \<longleftrightarrow> (\<exists>a. fst (m s) = Ok a \<and> fst (f a (snd (m s))) = Ok b)"
  by (auto simp: act_bind_def split: prod.splits outcome.splits)

lemma fst_act_bind_Panic [outcome_simps]:
  "fst (act_bind m f s) = Panic \<longleftrightarrow>
     fst (m s) = Panic \<or> (\<exists>a. fst (m s) = Ok a \<and> fst (f a (snd (m s))) = Panic)"
  by (auto simp: act_bind_def split: prod.splits outcome.splits)

lemma fst_act_bind_Err [outcome_simps]:
  "fst (act_bind m f s) = Err e \<longleftrightarrow>
     fst (m s) = Err e \<or> (\<exists>a. fst (m s) = Ok a \<and> fst (f a (snd (m s))) = Err e)"
  by (auto simp: act_bind_def split: prod.splits outcome.splits)

lemma snd_act_bind: "snd (act_bind m f s) = (case fst (m s) of Ok a \<Rightarrow> snd (f a (snd (m s))) | _ \<Rightarrow> snd (m s))"
  by (auto simp: act_bind_def split: prod.splits outcome.splits)

lemma act_bind_step:
  "m s = (Ok a, s') \<Longrightarrow> act_bind m f s = f a s'" "m s = (Err e, s') \<Longrightarrow> act_bind m f s = (Err e, s')"
  "m s = (Panic, s') \<Longrightarrow> act_bind m f s = (Panic, s')"
  by (simp_all add: act_bind_def)

text \<open>A property of the state that both parts keep is kept.\<close>

lemma act_bind_keeps:
  assumes "P (snd (m s))" and "\<And>a. fst (m s) = Ok a \<Longrightarrow> P (snd (m s)) \<Longrightarrow> P (snd (f a (snd (m s))))"
  shows "P (snd (act_bind m f s))"
  using assms by (auto simp: snd_act_bind split: outcome.splits)

section \<open>Listing\<close>

definition listDocuments :: "('d \<Rightarrow> bool) \<Rightarrow> ('d docstore, 'd list) action" where
  "listDocuments P = act_err (EIn ''document.Service.List'') (doc_List P)"

lemma listDocuments_Ok: "fst (listDocuments P s) = Ok xs \<Longrightarrow> xs = filter P (map snd (docs s))"
  by (auto simp: listDocuments_def outcome_simps dest: doc_List_Ok)

lemma listDocuments_keeps [simp]:
  "docs (snd (listDocuments P s)) = docs s" "lookup (snd (listDocuments P s)) = lookup s"
  "fst (listDocuments P s) \<noteq> Panic" "fst (listDocuments P s) \<noteq> Err ErrNotFound"
  "fst (listDocuments P s) \<noteq> Err ErrAlreadyExists"
  by (cases "fst (doc_List P s)"; simp add: listDocuments_def outcome_simps; fail)+

lemma listDocuments_no_fault: "faults s = [] \<Longrightarrow> listDocuments P s = (Ok (filter P (map snd (docs s))), s)"
  by (simp add: listDocuments_def act_err_def doc_List_def)

section \<open>Programs\<close>

definition stamp_program :: "gotime \<Rightarrow> program \<Rightarrow> program" where
  "stamp_program now p = p\<lparr>prog_CreatedAt := now, prog_UpdatedAt := now\<rparr>"

definition PutProgram :: "gotime \<Rightarrow> program \<Rightarrow> (program docstore, unit) action" where
  "PutProgram now p =
     act_bind (act_lift (Program_Validate p)) (\<lambda>_. doc_Set (stamp_program now) (prog_Version p) p)"

definition GetProgram :: "string \<Rightarrow> (program docstore, program) action" where
  "GetProgram version = doc_Get version"

definition ListPrograms :: "(program docstore, program list) action" where
  "ListPrograms = listDocuments (\<lambda>_. True)"

text \<open>The loop of \<open>ProgramFor\<close>; its accumulator is \<open>best\<close> when \<open>found\<close>.\<close>

fun select_program :: "month \<Rightarrow> program option \<Rightarrow> program list \<Rightarrow> program option" where
  "select_program m best [] = best"
| "select_program m best (p # ps) =
     (if Month_Before m (prog_EffectiveFrom p) then select_program m best ps
      else case best of
        None \<Rightarrow> select_program m (Some p) ps
      | Some b \<Rightarrow>
          if Month_Before (prog_EffectiveFrom b) (prog_EffectiveFrom p)
          then select_program m (Some p) ps else select_program m best ps)"

definition ProgramFor :: "month \<Rightarrow> (program docstore, program) action" where
  "ProgramFor m = act_bind ListPrograms (\<lambda>programs.
     case select_program m None programs of
       None \<Rightarrow> act_lift (Err ErrNotFound)
     | Some best \<Rightarrow> act_lift (Ok best))"

section \<open>Participants\<close>

definition stamp_participant :: "gotime \<Rightarrow> participant \<Rightarrow> participant" where
  "stamp_participant now p = p\<lparr>part_CreatedAt := now, part_UpdatedAt := now\<rparr>"

definition CreateParticipant :: "gotime \<Rightarrow> participant \<Rightarrow> (participant docstore, unit) action" where
  "CreateParticipant now p =
     act_bind (act_lift (Participant_Validate p)) (\<lambda>_. doc_Create (stamp_participant now) (part_Account p) p)"

definition GetParticipant :: "string \<Rightarrow> (participant docstore, participant) action" where
  "GetParticipant account = doc_Get account"

definition SetParticipant :: "gotime \<Rightarrow> participant \<Rightarrow> (participant docstore, unit) action" where
  "SetParticipant now p =
     act_bind (act_lift (Participant_Validate p)) (\<lambda>_. doc_Set (stamp_participant now) (part_Account p) p)"

definition ListParticipants :: "(participant docstore, participant list) action" where
  "ListParticipants = listDocuments (\<lambda>_. True)"

section \<open>Awards\<close>

definition stamp_award :: "gotime \<Rightarrow> award \<Rightarrow> award" where
  "stamp_award now a = a\<lparr>aw_CreatedAt := now, aw_UpdatedAt := now\<rparr>"

definition CreateAward :: "gotime \<Rightarrow> string \<Rightarrow> award \<Rightarrow> (award docstore, string) action" where
  "CreateAward now uuid a =
     (if aw_ID a \<noteq> '''' then act_lift (Err (EAward AwardIDAssigned))
      else let a = a\<lparr>aw_ID := uuid\<rparr> in
        act_bind (act_lift (Award_Validate a)) (\<lambda>_.
        act_bind (doc_Create (stamp_award now) (aw_ID a) a) (\<lambda>_.
        act_lift (Ok (aw_ID a)))))"

definition GetAward :: "string \<Rightarrow> (award docstore, award) action" where
  "GetAward i = doc_Get i"

definition SetAward :: "gotime \<Rightarrow> award \<Rightarrow> (award docstore, unit) action" where
  "SetAward now a =
     (if aw_ID a = '''' then act_lift (Err (EAward AwardMissingID))
      else act_bind (act_lift (Award_Validate a)) (\<lambda>_. doc_Set (stamp_award now) (aw_ID a) a))"

definition ListAwards :: "string \<Rightarrow> (award docstore, award list) action" where
  "ListAwards status = listDocuments (\<lambda>a. status \<noteq> '''' \<longrightarrow> aw_Status a = status)"

section \<open>Receipts\<close>

definition stamp_receipt :: "gotime \<Rightarrow> receipt \<Rightarrow> receipt" where
  "stamp_receipt now r = r\<lparr>rcpt_CreatedAt := now, rcpt_UpdatedAt := now\<rparr>"

definition CreateReceipt :: "gotime \<Rightarrow> receipt \<Rightarrow> (receipt docstore, unit) action" where
  "CreateReceipt now r =
     act_bind (act_lift (Receipt_Validate r)) (\<lambda>_. doc_Create (stamp_receipt now) (rcpt_Source r) r)"

definition GetReceipt :: "string \<Rightarrow> (receipt docstore, receipt) action" where
  "GetReceipt source = doc_Get source"

definition ListMonthReceipts :: "month \<Rightarrow> (receipt docstore, receipt list) action" where
  "ListMonthReceipts m = listDocuments (\<lambda>r. rcpt_Month r = m)"

section \<open>Rounds\<close>

definition stamp_round :: "gotime \<Rightarrow> round \<Rightarrow> round" where
  "stamp_round now r = r\<lparr>rd_CreatedAt := now, rd_UpdatedAt := now\<rparr>"

definition CreateRound :: "gotime \<Rightarrow> round \<Rightarrow> (round docstore, unit) action" where
  "CreateRound now r =
     act_bind (act_lift (mapErr (ELedger \<circ> InvalidRound) (Month_Validate (rd_Month r)))) (\<lambda>_.
       doc_Create (stamp_round now) (rd_Month r) r)"

definition GetRound :: "month \<Rightarrow> (round docstore, round) action" where
  "GetRound m = doc_Get m"

definition ListRounds :: "(round docstore, round list) action" where
  "ListRounds = listDocuments (\<lambda>_. True)"

section \<open>Obligations\<close>

definition stamp_obligation :: "gotime \<Rightarrow> obligation \<Rightarrow> obligation" where
  "stamp_obligation now o' = o'\<lparr>ob_CreatedAt := now, ob_UpdatedAt := now\<rparr>"

definition CreateObligation :: "gotime \<Rightarrow> obligation \<Rightarrow> (obligation docstore, unit) action" where
  "CreateObligation now o' =
     act_bind (act_lift (mapErr (ELedger \<circ> InvalidObligation) (Month_Validate (ob_Month o')))) (\<lambda>_.
       if ob_Account o' = '''' then act_lift (Err (ELedger ObligationMissingAccount))
       else doc_Create (stamp_obligation now) (Obligation_ID o') o')"

definition GetObligation :: "month \<Rightarrow> string \<Rightarrow> (obligation docstore, obligation) action" where
  "GetObligation m account = doc_Get (ObligationID m account)"

definition SetObligation :: "gotime \<Rightarrow> obligation \<Rightarrow> (obligation docstore, unit) action" where
  "SetObligation now o' =
     (if ob_Account o' = '''' then act_lift (Err (ELedger ObligationMissingAccount))
      else doc_Set (stamp_obligation now) (Obligation_ID o') o')"

definition ListAccountObligations :: "string \<Rightarrow> (obligation docstore, obligation list) action" where
  "ListAccountObligations account = listDocuments (\<lambda>o'. ob_Account o' = account)"

definition ListStateObligations :: "string \<Rightarrow> (obligation docstore, obligation list) action" where
  "ListStateObligations state = listDocuments (\<lambda>o'. ob_State o' = state)"

section \<open>The stores keep the contract\<close>

text \<open>
  Every store that validates before it writes keeps the contract of the service under it. Rounds and
  receipts are only ever created, so nothing that is stored in them changes.
\<close>

lemma doc_Create_cases:
  "doc_Create stamp k d s = (r, s') \<Longrightarrow>
     (r = Ok () \<and> lookup s k = None \<and> lookup s' = (lookup s)(k \<mapsto> stamp d)) \<or>
     (r = Err ErrAlreadyExists \<and> lookup s k \<noteq> None \<and> lookup s' = lookup s) \<or>
     (\<exists>e. r = Err (ErrStore e) \<and> (lookup s' = lookup s \<or> lookup s k = None \<and> lookup s' = (lookup s)(k \<mapsto> stamp d)))"
  by (auto simp: doc_Create_def lookup_pop_fault split: prod.splits fault.splits if_splits)

lemma act_bind_lift:
  "act_bind (act_lift r) f s = (case r of Ok a \<Rightarrow> f a s | Err e \<Rightarrow> (Err e, s) | Panic \<Rightarrow> (Panic, s))"
  by (simp add: act_bind_def act_lift_def split: outcome.splits)

lemma Validate_not_store [simp]:
  "Participant_Validate p \<noteq> Panic" "Participant_Validate p \<noteq> Err ErrAlreadyExists"
  by (auto simp: Participant_Validate_def)

lemma check_adjustments_not_store [simp]:
  "check_adjustments x as \<noteq> Panic" "check_adjustments x as \<noteq> Err ErrAlreadyExists"
  by (induction as) auto

lemma check_splits_not_store [simp]:
  "check_splits seen ss \<noteq> Panic" "check_splits seen ss \<noteq> Err ErrAlreadyExists"
  by (induction ss arbitrary: seen) auto

lemma Receipt_Validate_not_store [simp]:
  "Receipt_Validate r \<noteq> Panic" "Receipt_Validate r \<noteq> Err ErrAlreadyExists"
  by (auto simp: Receipt_Validate_def Validate_eq)

lemma Award_Validate_not_store [simp]:
  "Award_Validate a \<noteq> Panic" "Award_Validate a \<noteq> Err ErrAlreadyExists"
  by (auto simp: Award_Validate_def outcome_simps Validate_eq)

lemma Program_Validate_not_store [simp]: "Program_Validate p \<noteq> Err ErrAlreadyExists"
  by (auto simp: Program_Validate_def Validate_eq)

interpretation participants: doc_service lookup "CreateParticipant now" "SetParticipant now" GetParticipant
    part_Account "stamp_participant now" "\<lambda>p. Participant_Validate p = Ok ()" for now
  by unfold_locales
    (auto simp: CreateParticipant_def SetParticipant_def GetParticipant_def act_bind_lift doc_Set_def
      lookup_pop_fault store.get_missing store.get_Ok
      split: outcome.splits prod.splits fault.splits dest!: doc_Create_cases)

interpretation receipts: doc_creator lookup "CreateReceipt now" rcpt_Source "stamp_receipt now"
    "\<lambda>r. Receipt_Validate r = Ok ()" for now
  by unfold_locales
    (auto simp: CreateReceipt_def act_bind_lift split: outcome.splits dest!: doc_Create_cases)

interpretation rounds: doc_creator lookup "CreateRound now" rd_Month "stamp_round now"
    "\<lambda>r. valid_month (rd_Month r)" for now
  by unfold_locales
    (auto simp: CreateRound_def act_bind_lift Validate_eq split: outcome.splits if_splits dest!: doc_Create_cases)

interpretation obligations: doc_service lookup "CreateObligation now" "SetObligation now" doc_Get
    Obligation_ID "stamp_obligation now" "\<lambda>o'. ob_Account o' \<noteq> ''''" for now
  by unfold_locales
    (auto simp: CreateObligation_def SetObligation_def act_bind_lift doc_Set_def lookup_pop_fault Validate_eq
      store.get_missing store.get_Ok
      split: outcome.splits if_splits prod.splits fault.splits dest!: doc_Create_cases)

interpretation programs: doc_setter lookup "PutProgram now" prog_Version "stamp_program now"
    "\<lambda>p. Program_Validate p = Ok ()" for now
  by unfold_locales
    (auto simp: PutProgram_def act_bind_lift doc_Set_def lookup_pop_fault
      split: outcome.splits prod.splits fault.splits)

interpretation awards: doc_setter lookup "SetAward now" aw_ID "stamp_award now"
    "\<lambda>a. aw_ID a \<noteq> '''' \<and> Award_Validate a = Ok ()" for now
  by unfold_locales
    (auto simp: SetAward_def act_bind_lift doc_Set_def lookup_pop_fault
      split: outcome.splits prod.splits fault.splits if_splits)

interpretation new_awards: doc_creator lookup "\<lambda>(u, a). CreateAward now u a" fst
    "\<lambda>(u, a). stamp_award now (a\<lparr>aw_ID := u\<rparr>)"
    "\<lambda>(u, a). Award_Validate (a\<lparr>aw_ID := u\<rparr>) = Ok ()" for now
  by unfold_locales
    (auto simp: CreateAward_def act_bind_lift act_bind_def act_lift_def Let_def
      split: outcome.splits if_splits prod.splits dest!: doc_Create_cases)

lemma wf_stores:
  "wf_map (docs sp) \<Longrightarrow> wf_map (docs (snd (PutProgram now p sp)))"
  "wf_map (docs st) \<Longrightarrow> wf_map (docs (snd (CreateParticipant now t st)))"
  "wf_map (docs st) \<Longrightarrow> wf_map (docs (snd (SetParticipant now t st)))"
  "wf_map (docs sa) \<Longrightarrow> wf_map (docs (snd (CreateAward now u a sa)))"
  "wf_map (docs sa) \<Longrightarrow> wf_map (docs (snd (SetAward now a sa)))"
  "wf_map (docs sr) \<Longrightarrow> wf_map (docs (snd (CreateReceipt now r sr)))"
  "wf_map (docs sd) \<Longrightarrow> wf_map (docs (snd (CreateRound now d sd)))"
  "wf_map (docs so) \<Longrightarrow> wf_map (docs (snd (CreateObligation now o' so)))"
  "wf_map (docs so) \<Longrightarrow> wf_map (docs (snd (SetObligation now o' so)))"
  unfolding PutProgram_def CreateParticipant_def SetParticipant_def CreateAward_def SetAward_def
    CreateReceipt_def CreateRound_def CreateObligation_def SetObligation_def Let_def
  by (auto simp: act_bind_lift snd_act_bind wf_doc_Create wf_doc_Set split: outcome.splits)

section \<open>The program in force\<close>

lemma select_program_None:
  "select_program m best ps = None \<longleftrightarrow> best = None \<and> (\<forall>q \<in> set ps. Month_Before m (prog_EffectiveFrom q))"
  by (induction m best ps rule: select_program.induct) (auto split: option.splits)

lemma select_program_Some:
  "select_program m best ps = Some b \<Longrightarrow>
     (b \<in> set ps \<and> \<not> Month_Before m (prog_EffectiveFrom b) \<or> best = Some b) \<and>
     (\<forall>q \<in> set ps \<union> set_option best. \<not> Month_Before m (prog_EffectiveFrom q) \<or> q \<in> set_option best \<longrightarrow>
        \<not> Month_Before (prog_EffectiveFrom b) (prog_EffectiveFrom q))"
proof (induction m best ps rule: select_program.induct)
  case (2 m best p ps)
  show ?case
  proof (cases "Month_Before m (prog_EffectiveFrom p)")
    case True
    then show ?thesis using 2 by auto
  next
    case False
    show ?thesis
    proof (cases best)
      case None
      then show ?thesis using 2 False by auto
    next
      case (Some b')
      show ?thesis
      proof (cases "Month_Before (prog_EffectiveFrom b') (prog_EffectiveFrom p)")
        case True
        then have "select_program m (Some p) ps = Some b" using 2(5) False Some by simp
        then show ?thesis using 2(3) [OF False Some True] True False Some
          by (auto simp: Month_Before_def dest: less_trans)
      next
        case nb: False
        then have "select_program m (Some b') ps = Some b" using 2(5) False Some by simp
        then show ?thesis using 2(4) [OF False Some nb] nb False Some
          by (auto simp: Month_Before_def not_less intro: order_trans)
      qed
    qed
  qed
qed auto

lemma ProgramFor_selects:
  assumes "fst (ProgramFor m s) = Ok p"
  shows "select_program m None (map snd (docs s)) = Some p"
  using assms listDocuments_Ok [of "\<lambda>_. True" s]
  by (auto simp: ProgramFor_def ListPrograms_def outcome_simps split: option.splits)

lemma ProgramFor_keeps [simp]:
  "docs (snd (ProgramFor m s)) = docs s" "lookup (snd (ProgramFor m s)) = lookup s" "fst (ProgramFor m s) \<noteq> Panic"
  by (auto simp: ProgramFor_def ListPrograms_def snd_act_bind outcome_simps split: outcome.splits option.splits)

text \<open>
  \<open>ProgramFor\<close> answers with a program that is effective in the month and that no other
  effective program supersedes; it answers not-found exactly when no stored program is effective yet,
  and it never changes the store.
\<close>

theorem program_for_month:
  assumes "faults s = []"
  shows "snd (ProgramFor m s) = s \<and>
    (case fst (ProgramFor m s) of
       Ok p \<Rightarrow> p \<in> snd ` set (docs s) \<and> \<not> Month_Before m (prog_EffectiveFrom p) \<and>
         (\<forall>q \<in> snd ` set (docs s). Month_Before m (prog_EffectiveFrom q) \<or>
            \<not> Month_Before (prog_EffectiveFrom p) (prog_EffectiveFrom q))
     | Err e \<Rightarrow> e = ErrNotFound \<and> (\<forall>q \<in> snd ` set (docs s). Month_Before m (prog_EffectiveFrom q))
     | Panic \<Rightarrow> False)"
proof -
  have list: "ListPrograms s = (Ok (map snd (docs s)), s)"
    using assms by (simp add: ListPrograms_def listDocuments_no_fault)
  show ?thesis
  proof (cases "select_program m None (map snd (docs s))")
    case None
    then have "ProgramFor m s = (Err ErrNotFound, s)" by (simp add: ProgramFor_def act_bind_def list)
    then show ?thesis using None by (auto simp: select_program_None)
  next
    case (Some p)
    then have "ProgramFor m s = (Ok p, s)" by (simp add: ProgramFor_def act_bind_def list)
    then show ?thesis using select_program_Some [OF Some] by auto
  qed
qed

definition sample_policies :: "program docstore" where
  "sample_policies = \<lparr>docs = map (\<lambda>(v, f). (v, \<lparr>prog_Version = v, prog_Currency = ''USD'', prog_PoolBps = 1000,
     prog_CoveredReceipts = '''', prog_CreditDurationRounds = 12, prog_PaymentTimetable = '''',
     prog_PayoutDueDays = 30, prog_CalculationVersion = 1, prog_EffectiveFrom = f,
     prog_CreatedAt = zeroTime, prog_UpdatedAt = zeroTime\<rparr>))
     [(''v1'', ''2026-01''), (''v3'', ''2026-09''), (''v2'', ''2026-05'')], faults = []\<rparr>"

theorem program_for_month_witness:
  "(\<exists>p. fst (ProgramFor ''2026-07'' sample_policies) = Ok p \<and> prog_Version p = ''v2'') \<and>
   snd (ProgramFor ''2026-07'' sample_policies) = sample_policies"
  using program_for_month [of sample_policies "''2026-07''"]
  by (simp add: sample_policies_def ProgramFor_def ListPrograms_def act_bind_def listDocuments_no_fault
      Month_Before_def)

end
