(* ===== verification/Ledger.thy ===== *)
theory Ledger
  imports ContribStores EngineProps
begin

text \<open>
  The ledger of package contributor: \<^verbatim>\<open>ledger.go\<close> and \<^verbatim>\<open>admin.go\<close>.
  Its state is the six stores; every operation is an action on it, in the order of the code's calls,
  so what a call that fails part-way leaves in the stores is part of the model.
\<close>

section \<open>State\<close>

record ledger =
  ld_Programs :: "program docstore"
  ld_Participants :: "participant docstore"
  ld_Awards :: "award docstore"
  ld_Receipts :: "receipt docstore"
  ld_Rounds :: "round docstore"
  ld_Obligations :: "obligation docstore"

definition on_Programs :: "(program docstore, 'a) action \<Rightarrow> (ledger, 'a) action" where
  "on_Programs f l = (let (r, s) = f (ld_Programs l) in (r, l\<lparr>ld_Programs := s\<rparr>))"

definition on_Participants :: "(participant docstore, 'a) action \<Rightarrow> (ledger, 'a) action" where
  "on_Participants f l = (let (r, s) = f (ld_Participants l) in (r, l\<lparr>ld_Participants := s\<rparr>))"

definition on_Awards :: "(award docstore, 'a) action \<Rightarrow> (ledger, 'a) action" where
  "on_Awards f l = (let (r, s) = f (ld_Awards l) in (r, l\<lparr>ld_Awards := s\<rparr>))"

definition on_Receipts :: "(receipt docstore, 'a) action \<Rightarrow> (ledger, 'a) action" where
  "on_Receipts f l = (let (r, s) = f (ld_Receipts l) in (r, l\<lparr>ld_Receipts := s\<rparr>))"

definition on_Rounds :: "(round docstore, 'a) action \<Rightarrow> (ledger, 'a) action" where
  "on_Rounds f l = (let (r, s) = f (ld_Rounds l) in (r, l\<lparr>ld_Rounds := s\<rparr>))"

definition on_Obligations :: "(obligation docstore, 'a) action \<Rightarrow> (ledger, 'a) action" where
  "on_Obligations f l = (let (r, s) = f (ld_Obligations l) in (r, l\<lparr>ld_Obligations := s\<rparr>))"

lemmas on_store_defs = on_Programs_def on_Participants_def on_Awards_def on_Receipts_def on_Rounds_def
  on_Obligations_def

lemma on_store_simps [simp]:
  "fst (on_Programs fp l) = fst (fp (ld_Programs l))"
  "snd (on_Programs fp l) = l\<lparr>ld_Programs := snd (fp (ld_Programs l))\<rparr>"
  "fst (on_Participants ft l) = fst (ft (ld_Participants l))"
  "snd (on_Participants ft l) = l\<lparr>ld_Participants := snd (ft (ld_Participants l))\<rparr>"
  "fst (on_Awards fa l) = fst (fa (ld_Awards l))"
  "snd (on_Awards fa l) = l\<lparr>ld_Awards := snd (fa (ld_Awards l))\<rparr>"
  "fst (on_Receipts fr l) = fst (fr (ld_Receipts l))"
  "snd (on_Receipts fr l) = l\<lparr>ld_Receipts := snd (fr (ld_Receipts l))\<rparr>"
  "fst (on_Rounds fd l) = fst (fd (ld_Rounds l))"
  "snd (on_Rounds fd l) = l\<lparr>ld_Rounds := snd (fd (ld_Rounds l))\<rparr>"
  "fst (on_Obligations fo l) = fst (fo (ld_Obligations l))"
  "snd (on_Obligations fo l) = l\<lparr>ld_Obligations := snd (fo (ld_Obligations l))\<rparr>"
  by (simp_all add: on_store_defs case_prod_beta)

section \<open>Rounds\<close>

text \<open>The loop over the closed rounds: an earlier one means a gap before the month.\<close>

fun check_gap :: "month \<Rightarrow> month \<Rightarrow> round list \<Rightarrow> int64 cresult" where
  "check_gap m prev [] = Ok 0"
| "check_gap m prev (r # rs) =
     (if Month_Before (rd_Month r) m then Err (ELedger (RoundGap prev m)) else check_gap m prev rs)"

definition carryforward :: "month \<Rightarrow> (ledger, int64) action" where
  "carryforward m =
     act_bind (act_lift (Month_Prev m)) (\<lambda>prev l.
       case on_Rounds (GetRound prev) l of
         (Ok r, l') \<Rightarrow> (Ok (rd_UnallocatedCents r), l')
       | (Panic, l') \<Rightarrow> (Panic, l')
       | (Err e, l') \<Rightarrow>
           if e \<noteq> ErrNotFound then (Err e, l')
           else act_bind (on_Rounds ListRounds) (\<lambda>rounds. act_lift (check_gap m prev rounds)) l')"

definition assemble :: "month \<Rightarrow> (ledger, round \<times> obligation list) action" where
  "assemble m =
     act_bind (act_lift (mapErr EMonth (Month_Validate m))) (\<lambda>_.
     act_bind (act_err (EIn (''program for '' @ m)) (on_Programs (ProgramFor m))) (\<lambda>program.
     act_bind (on_Receipts (ListMonthReceipts m)) (\<lambda>receipts.
     act_bind (on_Awards (ListAwards AwardApproved)) (\<lambda>awards.
     act_bind (carryforward m) (\<lambda>carry.
     act_lift (ComputeRound program m receipts awards carry))))))"

definition Estimate :: "month \<Rightarrow> (ledger, round \<times> obligation list) action" where
  "Estimate m =
     act_bind (assemble m) (\<lambda>(round, obligations).
     act_lift (Ok (round, map (ob_State_update (\<lambda>_. ObligationEstimated)) obligations)))"

definition opened_obligation :: "month \<Rightarrow> gotime \<Rightarrow> obligation \<Rightarrow> obligation" where
  "opened_obligation m closedAt o' = o'\<lparr>ob_History :=
     [\<lparr>ev_From = ObligationEstimated, ev_To = ObligationEarned, ev_At = closedAt,
       ev_Note = ''round '' @ m @ '' closed''\<rparr>]\<rparr>"

text \<open>The loop that persists the obligations; one that is already there is kept.\<close>

fun persist_obligations :: "gotime \<Rightarrow> month \<Rightarrow> gotime \<Rightarrow> obligation list \<Rightarrow> (ledger, unit) action" where
  "persist_obligations now m closedAt [] l = (Ok (), l)"
| "persist_obligations now m closedAt (o' # os) l =
     (case on_Obligations (CreateObligation now (opened_obligation m closedAt o')) l of
        (Ok _, l') \<Rightarrow> persist_obligations now m closedAt os l'
      | (Panic, l') \<Rightarrow> (Panic, l')
      | (Err e, l') \<Rightarrow>
          if e \<noteq> ErrAlreadyExists
          then (Err (EIn (''round '' @ m) (EIn (''obligation '' @ Obligation_ID o') e)), l')
          else persist_obligations now m closedAt os l')"

text \<open>The second half of \<open>CloseRound\<close>: the obligations first, the round as the commit point.\<close>

definition commit_round ::
  "gotime \<Rightarrow> month \<Rightarrow> gotime \<Rightarrow> string \<Rightarrow> round \<Rightarrow> obligation list \<Rightarrow> (ledger, round) action" where
  "commit_round now m closedAt closedBy r obligations =
     (let r = r\<lparr>rd_ClosedAt := closedAt, rd_ClosedBy := closedBy\<rparr> in
      act_bind (persist_obligations now m closedAt obligations) (\<lambda>_.
      act_bind (on_Rounds (CreateRound now r)) (\<lambda>_.
      act_lift (Ok r))))"

definition CloseRound :: "gotime \<Rightarrow> month \<Rightarrow> gotime \<Rightarrow> string \<Rightarrow> (ledger, round) action" where
  "CloseRound now m closedAt closedBy l =
     (case on_Rounds (GetRound m) l of
        (Ok _, l') \<Rightarrow> (Err (ELedger (ErrRoundClosed m)), l')
      | (Panic, l') \<Rightarrow> (Panic, l')
      | (Err e, l') \<Rightarrow>
          if e \<noteq> ErrNotFound then (Err e, l')
          else act_bind (act_lift (andThen (Month_Next m) Month_Time)) (\<lambda>monthEnd.
            if closedAt < monthEnd then act_lift (Err (ELedger (MonthNotEnded m)))
            else act_bind (assemble m) (\<lambda>(r, obligations).
              commit_round now m closedAt closedBy r obligations)) l')"

section \<open>Administration\<close>

definition SetProgram :: "gotime \<Rightarrow> program \<Rightarrow> (ledger, unit) action" where
  "SetProgram now p =
     (let p = p\<lparr>prog_CalculationVersion := CalculationVersion\<rparr> in
      act_bind (act_lift (Program_Validate p)) (\<lambda>_. on_Programs (PutProgram now p)))"

record handle_split =
  hs_GitHubHandle :: string
  hs_Credits :: int64

record propose_request =
  pr_Splits :: "handle_split list"
  pr_Activation :: month
  pr_Evidence :: "string list"
  pr_Description :: string
  pr_ProposedBy :: string

definition accounts_by_handle :: "participant list \<Rightarrow> (string \<times> string) list" where
  "accounts_by_handle ps =
     foldl (\<lambda>acc p. AList.update (ToLower (part_GitHubHandle p)) (part_Account p) acc) [] ps"

fun resolve_loop :: "(string \<times> string) list \<Rightarrow> handle_split list \<Rightarrow> split list cresult" where
  "resolve_loop accounts [] = Ok []"
| "resolve_loop accounts (s # ss) =
     (case map_of accounts (ToLower (hs_GitHubHandle s)) of
        None \<Rightarrow> Err (ELedger (ErrParticipantNotFound (hs_GitHubHandle s)))
      | Some account \<Rightarrow>
          andThen (resolve_loop accounts ss) (\<lambda>splits.
            Ok (\<lparr>split_Account = account, split_Credits = hs_Credits s\<rparr> # splits)))"

definition resolveSplits :: "handle_split list \<Rightarrow> (ledger, split list) action" where
  "resolveSplits hs =
     act_bind (on_Participants ListParticipants) (\<lambda>participants.
     act_lift (resolve_loop (accounts_by_handle participants) hs))"

definition proposed_award ::
  "propose_request \<Rightarrow> split list \<Rightarrow> month \<Rightarrow> string \<Rightarrow> gotime \<Rightarrow> award" where
  "proposed_award req splits expiration policy now =
     \<lparr>aw_ID = '''', aw_Splits = splits, aw_Activation = pr_Activation req, aw_Expiration = expiration,
      aw_Evidence = pr_Evidence req, aw_Description = pr_Description req, aw_PolicyVersion = policy,
      aw_Status = AwardProposed, aw_ProposedBy = pr_ProposedBy req, aw_ProposedAt = now,
      aw_DecidedBy = '''', aw_DecidedAt = zeroTime, aw_DecisionNote = '''', aw_CreatedAt = zeroTime,
      aw_UpdatedAt = zeroTime\<rparr>"

definition ProposeAward :: "gotime \<Rightarrow> string \<Rightarrow> propose_request \<Rightarrow> (ledger, string) action" where
  "ProposeAward now uuid req =
     act_bind (act_lift (mapErr EMonth (Month_Validate (pr_Activation req)))) (\<lambda>_ l.
       case on_Programs (ProgramFor (pr_Activation req)) l of
         (Panic, l') \<Rightarrow> (Panic, l')
       | (Err e, l') \<Rightarrow>
           if e = ErrNotFound then (Err (ELedger (ErrProgramNotConfigured (pr_Activation req))), l')
           else (Err (EIn (''program for '' @ pr_Activation req) e), l')
       | (Ok program, l') \<Rightarrow>
           act_bind (resolveSplits (pr_Splits req)) (\<lambda>splits.
           act_bind (act_lift (Program_ExpirationMonth program (pr_Activation req))) (\<lambda>expiration.
             on_Awards (CreateAward now uuid
               (proposed_award req splits expiration (prog_Version program) now)))) l')"

definition decided_award :: "award \<Rightarrow> bool \<Rightarrow> string \<Rightarrow> gotime \<Rightarrow> string \<Rightarrow> award" where
  "decided_award a approve decidedBy now decision =
     a\<lparr>aw_Status := (if approve then AwardApproved else AwardRejected), aw_DecidedBy := decidedBy,
       aw_DecidedAt := now, aw_DecisionNote := decision\<rparr>"

text \<open>
  A decision reads the award and, where it is still proposed, writes the decided copy with
  \<open>SetAward\<close>. The two calls are two definitions: other callers may run between them.
\<close>

definition decide_fetch :: "string \<Rightarrow> (ledger, award) action" where
  "decide_fetch i l =
     (case on_Awards (GetAward i) l of
        (Panic, l') \<Rightarrow> (Panic, l')
      | (Err e, l') \<Rightarrow> if e = ErrNotFound then (Err (ELedger (ErrAwardNotFound i)), l') else (Err e, l')
      | (Ok a, l') \<Rightarrow>
          if aw_Status a \<noteq> AwardProposed then (Err (ELedger (ErrAwardAlreadyDecided (aw_Status a))), l')
          else (Ok a, l'))"

definition decide_write ::
  "gotime \<Rightarrow> bool \<Rightarrow> string \<Rightarrow> string \<Rightarrow> award \<Rightarrow> (ledger, award) action" where
  "decide_write now approve decidedBy decision a =
     (let a' = decided_award a approve decidedBy now decision in
        act_bind (on_Awards (SetAward now a')) (\<lambda>_. act_lift (Ok a')))"

definition DecideAward ::
  "gotime \<Rightarrow> string \<Rightarrow> bool \<Rightarrow> string \<Rightarrow> string \<Rightarrow> (ledger, award) action" where
  "DecideAward now i approve decidedBy decision =
     act_bind (decide_fetch i) (decide_write now approve decidedBy decision)"

text \<open>The import loop returns its two counters next to the error.\<close>

fun import_loop ::
  "gotime \<Rightarrow> nat \<Rightarrow> nat \<Rightarrow> receipt list \<Rightarrow> ledger \<Rightarrow> (nat \<times> nat \<times> unit cresult) \<times> ledger" where
  "import_loop now imported duplicates [] l = ((imported, duplicates, Ok ()), l)"
| "import_loop now imported duplicates (r # rs) l =
     (case on_Receipts (CreateReceipt now r) l of
        (Ok _, l') \<Rightarrow> import_loop now (imported + 1) duplicates rs l'
      | (Panic, l') \<Rightarrow> ((imported, duplicates, Panic), l')
      | (Err e, l') \<Rightarrow>
          if e = ErrAlreadyExists then import_loop now imported (duplicates + 1) rs l'
          else ((imported, duplicates, Err (EIn (''receipt '' @ rcpt_Source r) e)), l'))"

definition ImportReceipts :: "gotime \<Rightarrow> receipt list \<Rightarrow> ledger \<Rightarrow> (nat \<times> nat \<times> unit cresult) \<times> ledger" where
  "ImportReceipts now rs = import_loop now 0 0 rs"

end
