(* ===== verification/LedgerProps.thy ===== *)
theory LedgerProps
  imports Ledger
begin

text \<open>
  What the ledger guarantees: closing a round in one piece and over histories of operations whose
  stores may fail at any call.
\<close>

section \<open>Operations that only read\<close>

definition same_docs :: "ledger \<Rightarrow> ledger \<Rightarrow> bool" where
  "same_docs a b \<longleftrightarrow> docs (ld_Programs a) = docs (ld_Programs b) \<and>
     docs (ld_Participants a) = docs (ld_Participants b) \<and> docs (ld_Awards a) = docs (ld_Awards b) \<and>
     docs (ld_Receipts a) = docs (ld_Receipts b) \<and> docs (ld_Rounds a) = docs (ld_Rounds b) \<and>
     docs (ld_Obligations a) = docs (ld_Obligations b)"

lemma same_docs_refl [simp]: "same_docs l l"
  by (simp add: same_docs_def)

lemma same_docs_trans: "same_docs a b \<Longrightarrow> same_docs b c \<Longrightarrow> same_docs a c"
  by (simp add: same_docs_def)

lemma same_docs_lookup: "same_docs a b \<Longrightarrow> lookup (ld_Rounds a) = lookup (ld_Rounds b) \<and>
    lookup (ld_Obligations a) = lookup (ld_Obligations b) \<and> lookup (ld_Awards a) = lookup (ld_Awards b) \<and>
    lookup (ld_Programs a) = lookup (ld_Programs b) \<and> lookup (ld_Receipts a) = lookup (ld_Receipts b) \<and>
    lookup (ld_Participants a) = lookup (ld_Participants b)"
  by (simp add: same_docs_def lookup_def)

definition reads_only :: "(ledger, 'a) action \<Rightarrow> bool" where
  "reads_only m \<longleftrightarrow> (\<forall>l. same_docs (snd (m l)) l)"

lemma reads_only_bind [intro]: "reads_only m \<Longrightarrow> (\<And>a. reads_only (f a)) \<Longrightarrow> reads_only (act_bind m f)"
  unfolding reads_only_def by (auto simp: snd_act_bind split: outcome.splits intro: same_docs_trans)

lemma reads_only_simps [intro, simp]:
  "reads_only (act_lift r)" "reads_only m \<Longrightarrow> reads_only (act_err g m)"
  "reads_only (on_Programs (ProgramFor k))" "reads_only (on_Receipts (ListMonthReceipts k))"
  "reads_only (on_Awards (ListAwards st))" "reads_only (on_Rounds (GetRound k))"
  "reads_only (on_Rounds ListRounds)" "reads_only (on_Participants ListParticipants)"
  "reads_only (on_Awards (GetAward k))"
  by (auto simp: reads_only_def same_docs_def ListMonthReceipts_def ListAwards_def GetRound_def ListRounds_def
      ListParticipants_def GetAward_def)

lemma on_Rounds_GetRound: "snd (on_Rounds (GetRound k) l) = l' \<Longrightarrow> same_docs l' l"
  using reads_only_simps(6) [of k] by (auto simp: reads_only_def)

lemma reads_only_carryforward [simp]: "reads_only (carryforward m)"
proof -
  have "reads_only (\<lambda>l. case on_Rounds (GetRound prev) l of
         (Ok r, l') \<Rightarrow> (Ok (rd_UnallocatedCents r), l')
       | (Panic, l') \<Rightarrow> (Panic, l')
       | (Err e, l') \<Rightarrow> if e \<noteq> ErrNotFound then (Err e, l')
           else act_bind (on_Rounds ListRounds) (\<lambda>rounds. act_lift (check_gap m prev rounds)) l')" for prev
    unfolding reads_only_def
  proof
    fix l
    obtain r l' where g: "on_Rounds (GetRound prev) l = (r, l')" by fastforce
    then have "same_docs l' l" using on_Rounds_GetRound [of prev l l'] by simp
    moreover have "reads_only (act_bind (on_Rounds ListRounds) (\<lambda>rounds. act_lift (check_gap m prev rounds)))"
      by (intro reads_only_bind reads_only_simps)
    ultimately show "same_docs (snd (case on_Rounds (GetRound prev) l of
         (Ok r, l') \<Rightarrow> (Ok (rd_UnallocatedCents r), l')
       | (Panic, l') \<Rightarrow> (Panic, l')
       | (Err e, l') \<Rightarrow> if e \<noteq> ErrNotFound then (Err e, l')
           else act_bind (on_Rounds ListRounds) (\<lambda>rounds. act_lift (check_gap m prev rounds)) l')) l"
      unfolding g reads_only_def by (auto split: outcome.splits intro: same_docs_trans)
  qed
  then show ?thesis unfolding carryforward_def by (intro reads_only_bind reads_only_simps) auto
qed

lemma reads_only_assemble [simp]: "reads_only (assemble m)"
  unfolding assemble_def by (intro reads_only_bind reads_only_simps reads_only_carryforward)

lemma reads_only_Estimate [simp]: "reads_only (Estimate m)"
  unfolding Estimate_def by (intro reads_only_bind) (auto split: prod.splits)

lemma assemble_same: "same_docs (snd (assemble m l)) l"
  using reads_only_assemble [of m] by (simp add: reads_only_def)

section \<open>The inputs of a round\<close>

text \<open>The carryforward that closing month \<open>m\<close> uses, as a relation and as a result.\<close>

definition carry_of :: "ledger \<Rightarrow> month \<Rightarrow> int64 \<Rightarrow> bool" where
  "carry_of l m c \<longleftrightarrow> (\<exists>prev. Month_Prev m = (Ok prev :: month cresult) \<and>
     (case lookup (ld_Rounds l) prev of
        Some r \<Rightarrow> c = rd_UnallocatedCents r
      | None \<Rightarrow> c = 0 \<and> (\<forall>r \<in> snd ` set (docs (ld_Rounds l)). \<not> Month_Before (rd_Month r) m)))"

definition carry_result :: "month \<Rightarrow> ledger \<Rightarrow> int64 cresult" where
  "carry_result m l = andThen (Month_Prev m) (\<lambda>prev. case lookup (ld_Rounds l) prev of
     Some r \<Rightarrow> Ok (rd_UnallocatedCents r)
   | None \<Rightarrow> check_gap m prev (map snd (docs (ld_Rounds l))))"

lemma check_gap_Ok_iff: "check_gap m prev rs = Ok c \<longleftrightarrow> c = 0 \<and> (\<forall>r \<in> set rs. \<not> Month_Before (rd_Month r) m)"
  by (induction rs) auto

lemma check_gap_no_panic [simp]: "check_gap m prev rs \<noteq> Panic"
  by (induction rs) auto

lemma carry_result_Ok_iff: "carry_result m l = Ok c \<longleftrightarrow> carry_of l m c"
  by (auto simp: carry_of_def carry_result_def outcome_simps check_gap_Ok_iff split: option.splits)

lemma carryforward_Ok:
  assumes "fst (carryforward m l) = Ok c"
  shows "carry_result m l = Ok c"
proof -
  obtain prev where prev: "Month_Prev m = (Ok prev :: month cresult)"
    and c: "fst (case on_Rounds (GetRound prev) l of
         (Ok r, l') \<Rightarrow> (Ok (rd_UnallocatedCents r), l')
       | (Panic, l') \<Rightarrow> (Panic, l')
       | (Err e, l') \<Rightarrow> if e \<noteq> ErrNotFound then (Err e, l')
           else act_bind (on_Rounds ListRounds) (\<lambda>rounds. act_lift (check_gap m prev rounds)) l') = Ok c"
    using assms by (auto simp: carryforward_def outcome_simps)
  obtain r l' where g: "on_Rounds (GetRound prev) l = (r, l')" by fastforce
  have same: "same_docs l' l" using on_Rounds_GetRound [of prev l l'] g by simp
  have r: "fst (GetRound prev (ld_Rounds l)) = r" using g by (metis fst_conv on_store_simps(9))
  show ?thesis
  proof (cases r)
    case (Ok rd)
    then have "lookup (ld_Rounds l) prev = Some rd" using r store.get_Ok by (auto simp: GetRound_def)
    then show ?thesis using c g Ok by (auto simp: carry_result_def prev)
  next
    case (Err e)
    then have e: "e = ErrNotFound"
      and rs: "fst (act_bind (on_Rounds ListRounds) (\<lambda>rounds. act_lift (check_gap m prev rounds)) l') = Ok c"
      using c g by (auto split: if_splits)
    have "lookup (ld_Rounds l) prev = None" using r Err e store.get_missing by (auto simp: GetRound_def)
    moreover from rs obtain rounds where "fst (ListRounds (ld_Rounds l')) = Ok rounds" "check_gap m prev rounds = Ok c"
      by (auto simp: outcome_simps)
    ultimately show ?thesis
      using listDocuments_Ok [of "\<lambda>_. True" "ld_Rounds l'" rounds] same
      by (auto simp: carry_result_def prev ListRounds_def same_docs_def)
  next
    case Panic
    then show ?thesis using c g by simp
  qed
qed

text \<open>The inputs of a successful computation, read off the stores.\<close>

definition month_receipts :: "ledger \<Rightarrow> month \<Rightarrow> receipt list" where
  "month_receipts l m = filter (\<lambda>r. rcpt_Month r = m) (map snd (docs (ld_Receipts l)))"

definition approved_awards :: "ledger \<Rightarrow> award list" where
  "approved_awards l = filter (\<lambda>a. aw_Status a = AwardApproved) (map snd (docs (ld_Awards l)))"

definition in_force :: "ledger \<Rightarrow> month \<Rightarrow> program \<Rightarrow> bool" where
  "in_force l m p \<longleftrightarrow> p \<in> snd ` set (docs (ld_Programs l)) \<and> \<not> Month_Before m (prog_EffectiveFrom p) \<and>
     (\<forall>q \<in> snd ` set (docs (ld_Programs l)). Month_Before m (prog_EffectiveFrom q) \<or>
        \<not> Month_Before (prog_EffectiveFrom p) (prog_EffectiveFrom q))"

lemma same_docs_inputs:
  assumes "same_docs a b"
  shows "month_receipts a m = month_receipts b m" "approved_awards a = approved_awards b"
    "in_force a m p = in_force b m p" "carry_of a m c = carry_of b m c"
  using assms same_docs_lookup [OF assms]
  by (simp_all add: month_receipts_def approved_awards_def in_force_def carry_of_def same_docs_def
      cong: option.case_cong)

text \<open>The computation of a round as a function of the documents alone.\<close>

definition assembled :: "month \<Rightarrow> ledger \<Rightarrow> (round \<times> obligation list) cresult" where
  "assembled m l = andThen (mapErr EMonth (Month_Validate m)) (\<lambda>_.
     case select_program m None (map snd (docs (ld_Programs l))) of
       None \<Rightarrow> Err (EIn (''program for '' @ m) ErrNotFound)
     | Some p \<Rightarrow> andThen (carry_result m l) (\<lambda>c. ComputeRound p m (month_receipts l m) (approved_awards l) c))"

lemma assembled_cong:
  assumes "docs (ld_Programs a) = docs (ld_Programs b)" "docs (ld_Receipts a) = docs (ld_Receipts b)"
    "docs (ld_Awards a) = docs (ld_Awards b)" "docs (ld_Rounds a) = docs (ld_Rounds b)"
  shows "assembled m a = assembled m b" "carry_result m a = carry_result m b"
proof -
  have d: "lookup (ld_Rounds a) = lookup (ld_Rounds b)" "month_receipts a m = month_receipts b m"
    "approved_awards a = approved_awards b"
    using assms by (simp_all add: lookup_def month_receipts_def approved_awards_def)
  show "assembled m a = assembled m b" unfolding assembled_def carry_result_def assms d ..
  show "carry_result m a = carry_result m b" unfolding carry_result_def assms d ..
qed

lemma same_docs_assembled:
  "same_docs a b \<Longrightarrow> assembled m a = assembled m b" "same_docs a b \<Longrightarrow> carry_result m a = carry_result m b"
  unfolding same_docs_def using assembled_cong by blast+

lemma assembled_inputs:
  assumes "assembled m l = Ok (r, obs)"
  obtains p c where "in_force l m p" "carry_of l m c"
    "ComputeRound p m (month_receipts l m) (approved_awards l) c = Ok (r, obs)"
proof -
  from assms obtain p c where p: "select_program m None (map snd (docs (ld_Programs l))) = Some p"
    and "carry_result m l = Ok c" "ComputeRound p m (month_receipts l m) (approved_awards l) c = Ok (r, obs)"
    by (auto simp: assembled_def outcome_simps split: option.splits)
  moreover have "in_force l m p" using select_program_Some [OF p] by (auto simp: in_force_def)
  ultimately show ?thesis using that by (simp add: carry_result_Ok_iff)
qed

text \<open>What \<open>assemble\<close> answers is that function, whatever calls might have failed.\<close>

lemma assemble_Ok:
  assumes "fst (assemble m l) = Ok (r, obs)"
  shows "assembled m l = Ok (r, obs)"
proof -
  let ?l1 = "snd (on_Programs (ProgramFor m) l)"
  let ?l2 = "snd (on_Receipts (ListMonthReceipts m) ?l1)"
  let ?l3 = "snd (on_Awards (ListAwards AwardApproved) ?l2)"
  from assms obtain p rs as c where v: "valid_month m" and p: "fst (ProgramFor m (ld_Programs l)) = Ok p"
    and rs: "fst (on_Receipts (ListMonthReceipts m) ?l1) = Ok rs"
    and as: "fst (on_Awards (ListAwards AwardApproved) ?l2) = Ok as"
    and c: "fst (carryforward m ?l3) = Ok c"
    and comp: "ComputeRound p m rs as c = Ok (r, obs)"
    by (auto simp: assemble_def outcome_simps)
  have s1: "same_docs ?l1 l" and s2: "same_docs ?l2 ?l1" and s3: "same_docs ?l3 ?l2"
    using reads_only_simps(3) [of m] reads_only_simps(4) [of m] reads_only_simps(5) [of AwardApproved]
    unfolding reads_only_def by blast+
  have "same_docs ?l2 l" using s1 s2 by (rule same_docs_trans [rotated])
  then have s3': "same_docs ?l3 l" using s3 by (rule same_docs_trans [rotated])
  have "select_program m None (map snd (docs (ld_Programs l))) = Some p" by (rule ProgramFor_selects [OF p])
  moreover have "carry_result m l = Ok c" using carryforward_Ok [OF c] same_docs_assembled(2) [OF s3'] by simp
  moreover have "rs = month_receipts l m"
    using rs listDocuments_Ok [of "\<lambda>r. rcpt_Month r = m"] by (auto simp: ListMonthReceipts_def month_receipts_def)
  moreover have "as = approved_awards l"
    using as listDocuments_Ok [of "\<lambda>a. aw_Status a = AwardApproved"]
    by (auto simp: ListAwards_def approved_awards_def)
  ultimately show ?thesis using comp v by (simp add: assembled_def Validate_eq)
qed

section \<open>Persisting the obligations\<close>

lemma opened_obligation_simps [simp]:
  "Obligation_ID (opened_obligation m t o') = Obligation_ID o'"
  "ob_Account (opened_obligation m t o') = ob_Account o'" "ob_Month (opened_obligation m t o') = ob_Month o'"
  by (simp_all add: opened_obligation_def Obligation_ID_def)

lemma persist_Cons:
  "persist_obligations now m t (o' # os) l =
    (let l' = snd (on_Obligations (CreateObligation now (opened_obligation m t o')) l);
         r = fst (CreateObligation now (opened_obligation m t o') (ld_Obligations l))
     in if is_ok r \<or> r = Err ErrAlreadyExists then persist_obligations now m t os l'
        else (mapErr (\<lambda>e. EIn (''round '' @ m) (EIn (''obligation '' @ Obligation_ID o') e)) r, l'))"
  by (cases "on_Obligations (CreateObligation now (opened_obligation m t o')) l";
      cases "fst (CreateObligation now (opened_obligation m t o') (ld_Obligations l))")
    (auto simp: on_store_defs case_prod_beta split: if_splits)

declare persist_obligations.simps(2) [simp del]

lemma persist_frame [simp]:
  "ld_Programs (snd (persist_obligations now m t os l)) = ld_Programs l"
  "ld_Participants (snd (persist_obligations now m t os l)) = ld_Participants l"
  "ld_Awards (snd (persist_obligations now m t os l)) = ld_Awards l"
  "ld_Receipts (snd (persist_obligations now m t os l)) = ld_Receipts l"
  "ld_Rounds (snd (persist_obligations now m t os l)) = ld_Rounds l"
  by (induction os arbitrary: l) (auto simp: persist_Cons Let_def)

lemma persist_keeps: "lookup (ld_Obligations l) k = Some d \<Longrightarrow>
    lookup (ld_Obligations (snd (persist_obligations now m t os l))) k = Some d"
proof (induction os arbitrary: l)
  case (Cons o' os)
  then show ?case
    using Cons.IH [of "snd (on_Obligations (CreateObligation now (opened_obligation m t o')) l)"]
    by (simp add: persist_Cons Let_def obligations.create_keeps)
qed simp

lemma persist_stored: "fst (persist_obligations now m t os l) = Ok u \<Longrightarrow> o' \<in> set os \<Longrightarrow>
    lookup (ld_Obligations (snd (persist_obligations now m t os l))) (Obligation_ID o') \<noteq> None"
proof (induction os arbitrary: l)
  case (Cons o1 os)
  let ?c = "CreateObligation now (opened_obligation m t o1)"
  let ?l = "snd (on_Obligations ?c l)"
  have acc: "is_ok (fst (?c (ld_Obligations l))) \<or> fst (?c (ld_Obligations l)) = Err ErrAlreadyExists"
    using Cons.prems(1) by (auto simp: persist_Cons Let_def outcome_simps split: if_splits)
  then have p: "persist_obligations now m t (o1 # os) l = persist_obligations now m t os ?l"
    by (auto simp: persist_Cons Let_def)
  show ?case
  proof (cases "o' = o1")
    case True
    have "lookup (ld_Obligations ?l) (Obligation_ID o1) \<noteq> None"
      using acc obligations.create_accepted [of now "opened_obligation m t o1" "ld_Obligations l"]
      by (auto simp: is_ok_iff)
    then show ?thesis unfolding p using True persist_keeps [of ?l "Obligation_ID o1" _ now m t os] by fastforce
  next
    case False
    then show ?thesis using Cons.IH [of ?l] Cons.prems unfolding p by auto
  qed
qed simp

lemma persist_adds: "lookup (ld_Obligations (snd (persist_obligations now m t os l))) k = Some d \<Longrightarrow>
    lookup (ld_Obligations l) k = Some d \<or>
    (\<exists>o' \<in> set os. k = Obligation_ID o' \<and> d = stamp_obligation now (opened_obligation m t o') \<and> ob_Account o' \<noteq> '''')"
proof (induction os arbitrary: l)
  case (Cons o1 os)
  let ?l = "snd (on_Obligations (CreateObligation now (opened_obligation m t o1)) l)"
  have "lookup (ld_Obligations ?l) k = Some d \<or>
    (\<exists>o' \<in> set os. k = Obligation_ID o' \<and> d = stamp_obligation now (opened_obligation m t o') \<and> ob_Account o' \<noteq> '''')"
    using Cons.prems Cons.IH [of ?l] by (auto simp only: persist_Cons Let_def split: if_splits) auto
  then show ?case
    using obligations.create_adds [of now "opened_obligation m t o1" "ld_Obligations l" k d] by auto
qed simp

lemma persist_no_panic [simp]: "fst (persist_obligations now m t os l) \<noteq> Panic"
  by (induction os arbitrary: l)
    (auto simp: persist_Cons Let_def outcome_simps obligations.create_no_panic)

section \<open>Closing a round\<close>

text \<open>The three ways a close ends: before any write, while persisting obligations, at the commit.\<close>

definition closed_round :: "gotime \<Rightarrow> string \<Rightarrow> round \<Rightarrow> round" where
  "closed_round closedAt closedBy r = r\<lparr>rd_ClosedAt := closedAt, rd_ClosedBy := closedBy\<rparr>"

lemma commit_round_cases:
  assumes "commit_round now m closedAt closedBy r obs l = (res, l')"
  obtains (persisting) "l' = snd (persist_obligations now m closedAt obs l)" "\<not> is_ok res"
  | (commit) l2 where "persist_obligations now m closedAt obs l = (Ok (), l2)"
      "l' = snd (on_Rounds (CreateRound now (closed_round closedAt closedBy r)) l2)"
      "is_ok res \<longleftrightarrow> is_ok (fst (CreateRound now (closed_round closedAt closedBy r) (ld_Rounds l2)))"
      "\<And>r'. res = Ok r' \<Longrightarrow> r' = closed_round closedAt closedBy r"
proof -
  obtain pr l2 where pr: "persist_obligations now m closedAt obs l = (pr, l2)" by fastforce
  show ?thesis
  proof (cases pr)
    case (Ok u)
    let ?create = "CreateRound now (closed_round closedAt closedBy r)"
    have run: "(res, l') = act_bind (on_Rounds ?create) (\<lambda>_. act_lift (Ok (closed_round closedAt closedBy r))) l2"
      using assms pr Ok by (simp add: commit_round_def act_bind_step closed_round_def Let_def)
    obtain cr l3 where cr: "on_Rounds ?create l2 = (cr, l3)" by fastforce
    have "fst (?create (ld_Rounds l2)) = cr" using cr by (metis fst_conv on_store_simps(9))
    moreover have "l3 = l'" "is_ok res \<longleftrightarrow> is_ok cr" "res = Ok r' \<Longrightarrow> r' = closed_round closedAt closedBy r" for r'
      using run cr by (cases cr; simp add: act_bind_step)+
    ultimately show ?thesis using commit [of l2] pr Ok cr by simp
  next
    case (Err e)
    then have "res = Err e" "l' = l2" using assms pr by (simp_all add: commit_round_def act_bind_step Let_def)
    then show ?thesis using persisting pr by simp
  next
    case Panic
    then show ?thesis using persist_no_panic [of now m closedAt obs l] pr by simp
  qed
qed

text \<open>What has been established when the second half starts.\<close>

definition ready_to_close :: "ledger \<Rightarrow> month \<Rightarrow> gotime \<Rightarrow> round \<Rightarrow> obligation list \<Rightarrow> bool" where
  "ready_to_close l m closedAt r obs \<longleftrightarrow>
     lookup (ld_Rounds l) m = None \<and>
     (\<exists>t. andThen (Month_Next m) Month_Time = (Ok t :: gotime cresult) \<and> \<not> closedAt < t) \<and>
     assembled m l = Ok (r, obs)"

lemma CloseRound_cases:
  assumes "CloseRound now m closedAt closedBy l = (res, l')"
  obtains (refused) "same_docs l' l" "\<not> is_ok res"
  | (ready) r obs l1 where "same_docs l1 l" "ready_to_close l m closedAt r obs"
      "commit_round now m closedAt closedBy r obs l1 = (res, l')"
proof -
  obtain g l0 where g: "on_Rounds (GetRound m) l = (g, l0)" by fastforce
  have same0: "same_docs l0 l" using on_Rounds_GetRound [of m l l0] g by simp
  have gf: "fst (GetRound m (ld_Rounds l)) = g" using g by (metis fst_conv on_store_simps(9))
  show ?thesis
  proof (cases "g = Err ErrNotFound \<and> (\<exists>t. andThen (Month_Next m) Month_Time = (Ok t :: gotime cresult) \<and> \<not> closedAt < t)")
    case False
    then have "l' = l0" "\<not> is_ok res" using assms
      by (auto simp: CloseRound_def g is_ok_iff act_bind_lift split: outcome.splits if_splits)
    then show ?thesis using refused same0 by simp
  next
    case True
    then have open_m: "lookup (ld_Rounds l) m = None"
      using gf store.get_missing by (auto simp: GetRound_def)
    have run: "(res, l') = act_bind (assemble m) (\<lambda>(r, obs). commit_round now m closedAt closedBy r obs) l0"
      using assms True by (auto simp: CloseRound_def g act_bind_lift)
    obtain a l1 where a: "assemble m l0 = (a, l1)" by fastforce
    have same1: "same_docs l1 l" using assemble_same [of m l0] a same0 by (auto intro: same_docs_trans)
    show ?thesis
    proof (cases "is_ok a")
      case True
      then obtain r obs where ro: "a = Ok (r, obs)" by (cases a) auto
      have fa: "fst (assemble m l0) = Ok (r, obs)" using a ro by simp
      have "assembled m l = Ok (r, obs)"
        using assemble_Ok [OF fa] unfolding same_docs_assembled(1) [OF same0] .
      then have "ready_to_close l m closedAt r obs"
        using open_m \<open>g = _ \<and> _\<close> unfolding ready_to_close_def by blast
      then show ?thesis using ready same1 run a ro by (simp add: act_bind_step)
    next
      case False
      then have "l' = l1 \<and> \<not> is_ok res" using run a by (cases a) (auto simp: act_bind_step)
      then show ?thesis using refused same1 by simp
    qed
  qed
qed

end
