(* ===== verification/ObligationMachine.thy ===== *)
theory ObligationMachine
  imports EngineProps "HOL-Library.Sublist"
begin

text \<open>
  Months and obligations as machines: the arithmetic of months, and the lifecycle of an obligation as
  a step relation over \<open>Obligation.Transition\<close> with the invariant on its history.
\<close>

section \<open>Months\<close>

text \<open>
  For valid months the string comparison \<open>Before\<close> is the
  chronological order of their first instants.
\<close>

theorem month_order_chronological:
  assumes "valid_month a" "valid_month b"
  shows "\<exists>ta tb. Month_Time a = (Ok ta :: gotime cresult) \<and> Month_Time b = (Ok tb :: gotime cresult) \<and>
    (Month_Before a b \<longleftrightarrow> ta < tb)"
proof -
  let ?i = "month_index a" and ?j = "month_index b"
  have "?i < ?j \<longleftrightarrow> ?i div 12 < ?j div 12 \<or> ?i div 12 = ?j div 12 \<and> ?i mod 12 < ?j mod 12"
  proof (cases "?i div 12" "?j div 12" rule: linorder_cases)
    case less
    then show ?thesis by (metis leD leI less_irrefl zdiv_mono1 zero_less_numeral)
  next
    case equal
    then show ?thesis by (metis add_less_cancel_left less_irrefl mult_div_mod_eq)
  next
    case greater
    then show ?thesis by (metis leD less_imp_le less_imp_neq zdiv_mono1 zero_less_numeral)
  qed
  then have "Month_Before a b \<longleftrightarrow>
      GoTime (?i div 12) (?i mod 12 + 1) 1 0 < GoTime (?j div 12) (?j mod 12 + 1) 1 0"
    using Month_Before_iff [OF assms]
    by (simp only: less_gotime_def gotime.sel add_less_cancel_right) simp
  then show ?thesis
    by (intro exI conjI) (rule Month_Time_valid [OF assms(1)], rule Month_Time_valid [OF assms(2)])
qed

lemma valid_literals: "valid_month ''2026-09''" "valid_month ''2026-10''" "valid_month ''9999-12''"
  by (simp_all add: month_eval)

theorem month_order_chronological_witness:
  "\<exists>ta tb. Month_Time ''2026-09'' = (Ok ta :: gotime cresult) \<and>
     Month_Time ''2026-10'' = (Ok tb :: gotime cresult) \<and> ta < tb"
  using month_order_chronological [OF valid_literals(1,2)] by (simp add: Month_Before_def)

text \<open>
  \<open>Add\<close> is an action of the integers on the valid months, as long as
  the year stays within 0 to 9999: adding twice adds the sum, adding a positive number moves strictly
  later and a negative one strictly earlier, \<open>Prev\<close> undoes \<open>Next\<close>, and no month lies
  between a month and its \<open>Next\<close>.
\<close>

theorem month_arithmetic:
  assumes "valid_month m" "in_months (month_index m + n)"
  shows "\<exists>r. Month_Add m n = (Ok r :: month cresult) \<and> valid_month r \<and>
    month_index r = month_index m + n \<and>
    Month_Add r k = (Month_Add m (n + k) :: month cresult) \<and>
    (Month_Before m r \<longleftrightarrow> 0 < n) \<and> (Month_Before r m \<longleftrightarrow> n < 0) \<and>
    (n = 1 \<longrightarrow> Month_Prev r = (Ok m :: month cresult) \<and>
      (\<forall>x. valid_month x \<longrightarrow> \<not> (Month_Before m x \<and> Month_Before x r)))"
proof -
  let ?r = "month_at (month_index m + n)"
  have r: "valid_month ?r" "month_index ?r = month_index m + n"
    using assms(2) by (simp_all add: valid_month_at month_index_month_at)
  have "\<not> (Month_Before m x \<and> Month_Before x ?r)" if "n = 1" "valid_month x" for x
    using that r Month_Before_iff [OF assms(1) that(2)] Month_Before_iff [OF that(2) r(1)] by simp
  moreover have "Month_Prev ?r = (Ok m :: month cresult)" if "n = 1"
    using that r month_at_index(1) [OF assms(1)] by (simp add: Month_Prev_valid)
  ultimately show ?thesis
    using assms(1) r Month_Before_iff [OF assms(1) r(1)] Month_Before_iff [OF r(1) assms(1)]
    by (intro exI [of _ ?r]) (simp add: Month_Add_eq add.assoc)
qed

lemma index_literal: "month_index ''2026-10'' = 24321"
  by (simp add: month_index_def time_Parse_def is_digit_def digit_val_def)

theorem month_arithmetic_witness:
  "\<exists>r. Month_Add ''2026-10'' 12 = (Ok r :: month cresult) \<and> Month_Before ''2026-10'' r"
  using month_arithmetic [OF valid_literals(2), of 12 0] by (auto simp: index_literal)

text \<open>
  The last representable month has a \<open>Next\<close> that is not a valid
  month and sorts before it: past year 9999 the string order is no longer chronological.
\<close>

theorem month_next_leaves_range:
  "Month_Next ''9999-12'' = (Ok ''10000-01'' :: month cresult) \<and> \<not> valid_month ''10000-01'' \<and>
   Month_Before ''10000-01'' ''9999-12''"
proof -
  have "month_index ''9999-12'' = 119999"
    by (simp add: month_index_def time_Parse_def is_digit_def digit_val_def)
  moreover have "show_nat 10000 = ''10000''"
    by (simp add: show_nat.simps [of 10000] show_nat_4) code_simp
  moreover have pad1: "pad_int 1 2 = ''01''" by code_simp
  ultimately have "Month_Next ''9999-12'' = (Ok ''10000-01'' :: month cresult)"
    by (simp add: Month_Next_valid [OF valid_literals(3)] month_at_def MonthOf_def pad_int_def
        [of 10000] pad1)
  then show ?thesis
    by (simp add: month_eval Month_Before_def)
qed

section \<open>The lifecycle of an obligation\<close>

inductive ob_step :: "obligation \<Rightarrow> obligation \<Rightarrow> bool" where
  ob_stepI: "Obligation_Transition x to at note = Ok y \<Longrightarrow> ob_step x y"

inductive_cases ob_stepE: "ob_step x y"

fun linked :: "obligation_event list \<Rightarrow> bool" where
  "linked [] = True"
| "linked [e] = (ev_To e \<in> set (obligationTransitions (ev_From e)))"
| "linked (e # f # es) = (ev_To e \<in> set (obligationTransitions (ev_From e)) \<and> ev_To e = ev_From f \<and>
     linked (f # es))"

definition history_ok :: "obligation \<Rightarrow> bool" where
  "history_ok x \<longleftrightarrow> linked (ob_History x) \<and>
     (ob_History x \<noteq> [] \<longrightarrow> ev_To (last (ob_History x)) = ob_State x)"

lemma transition_loop_Ok_iff:
  "transition_loop ls x to at note = Ok y \<longleftrightarrow> to \<in> set ls \<and>
     y = x\<lparr>ob_History := ob_History x @
             [\<lparr>ev_From = ob_State x, ev_To = to, ev_At = at, ev_Note = note\<rparr>], ob_State := to\<rparr>"
  by (induction ls x to at "note" rule: transition_loop.induct) auto

lemma Obligation_Transition_Ok_iff:
  "Obligation_Transition x to at note = Ok y \<longleftrightarrow> to \<in> set (obligationTransitions (ob_State x)) \<and>
     y = x\<lparr>ob_History := ob_History x @
             [\<lparr>ev_From = ob_State x, ev_To = to, ev_At = at, ev_Note = note\<rparr>], ob_State := to\<rparr>"
  by (simp add: Obligation_Transition_def transition_loop_Ok_iff)

lemma transition_loop_Err:
  "to \<notin> set ls \<Longrightarrow> transition_loop ls x to at note = Err (IllegalTransition (Obligation_ID x) (ob_State x) to)"
  by (induction ls) auto

lemma linked_snoc:
  "linked (es @ [e]) \<longleftrightarrow> linked es \<and> ev_To e \<in> set (obligationTransitions (ev_From e)) \<and>
     (es \<noteq> [] \<longrightarrow> ev_To (last es) = ev_From e)"
  by (induction es rule: linked.induct) auto

lemma ob_step_props:
  assumes "ob_step x y"
  shows "history_ok x \<Longrightarrow> history_ok y" "strict_prefix (ob_History x) (ob_History y)"
    "Obligation_ID y = Obligation_ID x" "ob_AmountCents y = ob_AmountCents x"
    "ob_Currency y = ob_Currency x" "ob_DueDate y = ob_DueDate x"
    "ob_State y \<in> set (obligationTransitions (ob_State x))"
  using assms
  by (auto elim!: ob_stepE simp: Obligation_Transition_Ok_iff history_ok_def linked_snoc Obligation_ID_def intro: strict_prefixI')

text \<open>
  \<open>Transition\<close> accepts exactly the legal transitions; it then
  sets the state and appends one event, and otherwise returns an error.
\<close>

theorem obligation_transition_guard:
  "Obligation_Transition x to at note =
    (if (ob_State x, to) \<in> {(ObligationEstimated, ObligationEarned), (ObligationEarned, ObligationOwed),
          (ObligationOwed, ObligationInitiated), (ObligationInitiated, ObligationSettled),
          (ObligationInitiated, ObligationOwed), (ObligationSettled, ObligationOwed)}
     then Ok (x\<lparr>ob_State := to, ob_History := ob_History x @
       [\<lparr>ev_From = ob_State x, ev_To = to, ev_At = at, ev_Note = note\<rparr>]\<rparr>)
     else Err (IllegalTransition (Obligation_ID x) (ob_State x) to))"
  by (auto simp: Obligation_Transition_def obligationTransitions_def)

text \<open>
  C12 (obligation_history). Along any sequence of transitions the history is a linked chain of legal
  transitions that ends in the current state, it only grows at its end, and the identifier, amount,
  currency and due date never change.
\<close>

theorem obligation_history:
  assumes "ob_step\<^sup>*\<^sup>* x y" "history_ok x"
  shows "history_ok y \<and> prefix (ob_History x) (ob_History y) \<and> Obligation_ID y = Obligation_ID x \<and>
    ob_AmountCents y = ob_AmountCents x \<and> ob_Currency y = ob_Currency x \<and> ob_DueDate y = ob_DueDate x"
  using assms
proof (induction rule: rtranclp_induct)
  case (step y z)
  then show ?case
    using ob_step_props [OF step.hyps(2)] by (auto dest: prefix_order.trans [OF _ prefix_order.less_imp_le])
qed simp

definition sample_obligation :: obligation where
  "sample_obligation = obligation_of sample_program ''2026-02'' (GoTime 2026 5 1 0)
     \<lparr>ent_Account = ''ann'', ent_Credits = 1, ent_AmountCents = 33\<rparr>"

definition sample_owed :: obligation where
  "sample_owed = sample_obligation\<lparr>ob_State := ObligationOwed,
     ob_History := [\<lparr>ev_From = ObligationEarned, ev_To = ObligationOwed, ev_At = zeroTime, ev_Note = ''''\<rparr>]\<rparr>"

lemma sample_ob_step: "ob_step sample_obligation sample_owed"
  by (rule ob_stepI [of _ ObligationOwed zeroTime "''''"])
    (simp add: Obligation_Transition_def obligationTransitions_def sample_owed_def sample_obligation_def
      obligation_of_def)

theorem obligation_history_witness: "history_ok sample_owed \<and> ob_AmountCents sample_owed = 33"
proof -
  have "history_ok sample_obligation" by (simp add: history_ok_def sample_obligation_def obligation_of_def)
  then show ?thesis
    using obligation_history [OF r_into_rtranclp [of ob_step, OF sample_ob_step]]
    by (simp add: sample_obligation_def obligation_of_def)
qed

text \<open>
  From every state an obligation of a closed round can be in, settlement can
  still be reached by transitions, and the estimated state is never entered again.
\<close>

theorem obligation_settles:
  assumes "ob_step\<^sup>*\<^sup>* x y" "ob_State x = ObligationEarned"
  shows "ob_State y \<noteq> ObligationEstimated \<and>
    (\<exists>z. ob_step\<^sup>*\<^sup>* y z \<and> ob_State z = ObligationSettled)"
proof -
  have step: "\<exists>z. ob_step y z \<and> ob_State z = to" if "to \<in> set (obligationTransitions (ob_State y))" for y to
  proof -
    have "\<exists>z. Obligation_Transition y to zeroTime '''' = Ok z \<and> ob_State z = to"
      using that by (simp add: Obligation_Transition_Ok_iff)
    then show ?thesis by (blast intro: ob_stepI)
  qed
  have "ob_State y \<in> {ObligationEarned, ObligationOwed, ObligationInitiated, ObligationSettled}"
    using assms
    by (induction rule: rtranclp_induct)
      (auto dest!: ob_step_props(7) simp: obligationTransitions_def split: if_splits)
  moreover have settled: "\<exists>z. ob_step\<^sup>*\<^sup>* y z \<and> ob_State z = ObligationSettled"
    if "ob_State y = ObligationSettled" for y using that by blast
  moreover have initiated: "\<exists>z. ob_step\<^sup>*\<^sup>* y z \<and> ob_State z = ObligationSettled"
    if "ob_State y = ObligationInitiated" for y
    using that step [of ObligationSettled y] by (auto simp: obligationTransitions_def)
  moreover have owed: "\<exists>z. ob_step\<^sup>*\<^sup>* y z \<and> ob_State z = ObligationSettled"
    if "ob_State y = ObligationOwed" for y
    using that step [of ObligationInitiated y] initiated
    by (auto simp: obligationTransitions_def) (meson converse_rtranclp_into_rtranclp)
  moreover have "\<exists>z. ob_step\<^sup>*\<^sup>* y z \<and> ob_State z = ObligationSettled"
    if "ob_State y = ObligationEarned" for y
    using that step [of ObligationOwed y] owed
    by (auto simp: obligationTransitions_def) (meson converse_rtranclp_into_rtranclp)
  ultimately show ?thesis by auto
qed

theorem obligation_settles_witness:
  "\<exists>z. ob_step\<^sup>*\<^sup>* sample_owed z \<and> ob_State z = ObligationSettled"
  using obligation_settles [OF r_into_rtranclp [of ob_step, OF sample_ob_step]]
  by (simp add: sample_obligation_def obligation_of_def)

end
