(* ===== verification/LedgerHistory.thy ===== *)
theory LedgerHistory
  imports LedgerProps ObligationMachine
begin

text \<open>
  Histories of the ledger: the operations its callers run, in any order, each store call possibly
  failing before or after it took effect, and the invariant every history keeps.
\<close>

section \<open>Steps\<close>

text \<open>
  Awards change only through \<open>ProposeAward\<close> and \<open>DecideAward\<close>, receipts only
  through \<open>ImportReceipts\<close>, rounds only through \<open>CloseRound\<close>; a stored obligation
  is written back after a legal transition.
\<close>

inductive ledger_step :: "ledger \<Rightarrow> ledger \<Rightarrow> bool" where
  set_program: "ledger_step l (snd (SetProgram now p l))"
| create_participant: "ledger_step l (snd (on_Participants (CreateParticipant now t) l))"
| set_participant: "ledger_step l (snd (on_Participants (SetParticipant now t) l))"
| propose_award: "uuid \<noteq> '''' \<Longrightarrow> ledger_step l (snd (ProposeAward now uuid req l))"
| decide_award: "ledger_step l (snd (DecideAward now i approve decidedBy decision l))"
| import_receipts: "ledger_step l (snd (ImportReceipts now rs l))"
| estimate: "ledger_step l (snd (Estimate m l))"
| close_round: "ledger_step l (snd (CloseRound now m closedAt closedBy l))"
| transition: "lookup (ld_Obligations l) k = Some o' \<Longrightarrow> Obligation_Transition o' to at evidence = Ok o'' \<Longrightarrow>
    ledger_step l (snd (on_Obligations (SetObligation now o'') l))"

abbreviation ledger_steps :: "ledger \<Rightarrow> ledger \<Rightarrow> bool" where
  "ledger_steps \<equiv> ledger_step\<^sup>*\<^sup>*"

definition empty_ledger :: "ledger \<Rightarrow> bool" where
  "empty_ledger l \<longleftrightarrow> docs (ld_Programs l) = [] \<and> docs (ld_Participants l) = [] \<and> docs (ld_Awards l) = [] \<and>
     docs (ld_Receipts l) = [] \<and> docs (ld_Rounds l) = [] \<and> docs (ld_Obligations l) = []"

section \<open>The invariant\<close>

definition store_inv :: "(string \<Rightarrow> 'd \<Rightarrow> bool) \<Rightarrow> 'd docstore \<Rightarrow> bool" where
  "store_inv P s \<longleftrightarrow> wf_map (docs s) \<and> (\<forall>k d. lookup s k = Some d \<longrightarrow> P k d)"

definition program_inv :: "string \<Rightarrow> program \<Rightarrow> bool" where
  "program_inv k p \<longleftrightarrow> prog_Version p = k \<and> Program_Validate p = Ok () \<and>
     prog_CalculationVersion p = CalculationVersion"

definition participant_inv :: "string \<Rightarrow> participant \<Rightarrow> bool" where
  "participant_inv k p \<longleftrightarrow> part_Account p = k \<and> Participant_Validate p = Ok ()"

definition award_inv :: "string \<Rightarrow> award \<Rightarrow> bool" where
  "award_inv k a \<longleftrightarrow> aw_ID a = k \<and> Award_Validate a = Ok ()"

definition receipt_inv :: "string \<Rightarrow> receipt \<Rightarrow> bool" where
  "receipt_inv k r \<longleftrightarrow> rcpt_Source r = k \<and> Receipt_Validate r = Ok ()"

definition obligation_inv :: "string \<Rightarrow> obligation \<Rightarrow> bool" where
  "obligation_inv k o' \<longleftrightarrow> Obligation_ID o' = k \<and> ob_Account o' \<noteq> '''' \<and> valid_month (ob_Month o')"

text \<open>A round is backed when each of its positive entitlements has an obligation.\<close>

definition backed :: "obligation docstore \<Rightarrow> round \<Rightarrow> bool" where
  "backed obs r \<longleftrightarrow> (\<forall>e \<in> set (rd_Entitlements r). 0 < sint (ent_AmountCents e) \<longrightarrow>
     lookup obs (ObligationID (rd_Month r) (ent_Account e)) \<noteq> None)"

definition round_inv :: "string \<Rightarrow> round \<Rightarrow> bool" where
  "round_inv k r \<longleftrightarrow> rd_Month r = k \<and> valid_month k \<and>
     (\<exists>p. VerifyRound \<lparr>st_Program = p, st_Round = r\<rparr> = Ok ()) \<and>
     (\<exists>t. andThen (Month_Next k) Month_Time = (Ok t :: gotime cresult) \<and> \<not> rd_ClosedAt r < t)"

definition ledger_inv :: "ledger \<Rightarrow> bool" where
  "ledger_inv l \<longleftrightarrow> store_inv program_inv (ld_Programs l) \<and> store_inv participant_inv (ld_Participants l) \<and>
     store_inv award_inv (ld_Awards l) \<and> store_inv receipt_inv (ld_Receipts l) \<and>
     store_inv (\<lambda>k r. round_inv k r \<and> backed (ld_Obligations l) r) (ld_Rounds l) \<and>
     store_inv obligation_inv (ld_Obligations l)"

lemma same_docs_inv: "same_docs a b \<Longrightarrow> ledger_inv a = ledger_inv b"
  using same_docs_lookup [of a b] by (simp add: ledger_inv_def store_inv_def backed_def same_docs_def)

lemma ledger_inv_empty: "empty_ledger l \<Longrightarrow> ledger_inv l"
  by (simp add: empty_ledger_def ledger_inv_def store_inv_def lookup_def)

lemma reads_only_inv: "reads_only m \<Longrightarrow> ledger_inv l \<Longrightarrow> ledger_inv (snd (m l))"
  using same_docs_inv [of "snd (m l)" l] by (simp add: reads_only_def)

lemma stamp_simps [simp]:
  "Program_Validate (stamp_program now p) = Program_Validate p" "prog_Version (stamp_program now p) = prog_Version p"
  "prog_CalculationVersion (stamp_program now p) = prog_CalculationVersion p"
  "Participant_Validate (stamp_participant now t) = Participant_Validate t"
  "part_Account (stamp_participant now t) = part_Account t"
  "Award_Validate (stamp_award now a) = Award_Validate a" "aw_ID (stamp_award now a) = aw_ID a"
  "Receipt_Validate (stamp_receipt now r) = Receipt_Validate r" "rcpt_Source (stamp_receipt now r) = rcpt_Source r"
  "Obligation_ID (stamp_obligation now b) = Obligation_ID b" "ob_Account (stamp_obligation now b) = ob_Account b"
  "ob_Month (stamp_obligation now b) = ob_Month b"
  by (simp_all add: stamp_program_def stamp_participant_def stamp_award_def stamp_receipt_def
      stamp_obligation_def Program_Validate_def Participant_Validate_def Award_Validate_def
      Receipt_Validate_def Obligation_ID_def)

lemma inv_program: "ledger_inv l \<Longrightarrow> prog_CalculationVersion p = CalculationVersion \<Longrightarrow>
    ledger_inv (snd (on_Programs (PutProgram now p) l))"
  using programs.set_invariant [of "ld_Programs l" program_inv p now]
  by (simp add: ledger_inv_def store_inv_def wf_stores program_inv_def)

lemma inv_participant: "ledger_inv l \<Longrightarrow> ledger_inv (snd (on_Participants (CreateParticipant now t) l))"
  "ledger_inv l \<Longrightarrow> ledger_inv (snd (on_Participants (SetParticipant now t) l))"
  using participants.create_invariant [of "ld_Participants l" participant_inv t now]
    participants.set_invariant [of "ld_Participants l" participant_inv t now]
  by (simp_all add: ledger_inv_def store_inv_def wf_stores participant_inv_def)

lemma inv_create_award: "ledger_inv l \<Longrightarrow> ledger_inv (snd (on_Awards (CreateAward now u a) l))"
  using new_awards.create_invariant [of "ld_Awards l" award_inv "(u, a)" now]
  by (simp add: ledger_inv_def store_inv_def wf_stores award_inv_def)

lemma inv_set_award: "ledger_inv l \<Longrightarrow> ledger_inv (snd (on_Awards (SetAward now a) l))"
  using awards.set_invariant [of "ld_Awards l" award_inv a now]
  by (simp add: ledger_inv_def store_inv_def wf_stores award_inv_def)

lemma inv_receipt: "ledger_inv l \<Longrightarrow> ledger_inv (snd (on_Receipts (CreateReceipt now r) l))"
  using receipts.create_invariant [of "ld_Receipts l" receipt_inv r now]
  by (simp add: ledger_inv_def store_inv_def wf_stores receipt_inv_def)

lemma backed_mono: "backed s r \<Longrightarrow> (\<And>k. lookup s k \<noteq> None \<Longrightarrow> lookup s' k \<noteq> None) \<Longrightarrow> backed s' r"
  by (auto simp: backed_def)

lemma inv_obligations:
  assumes "ledger_inv l" and "store_inv obligation_inv s" and "\<And>k. lookup (ld_Obligations l) k \<noteq> None \<Longrightarrow> lookup s k \<noteq> None"
  shows "ledger_inv (l\<lparr>ld_Obligations := s\<rparr>)"
  using assms(1,2) backed_mono [of "ld_Obligations l" _ s] assms(3) by (simp add: ledger_inv_def store_inv_def)

lemma inv_create_obligation:
  assumes "ledger_inv l"
  shows "ledger_inv (snd (on_Obligations (CreateObligation now b) l))"
proof (cases "valid_month (ob_Month b)")
  case True
  have "store_inv obligation_inv (snd (CreateObligation now b (ld_Obligations l)))"
    using assms obligations.create_invariant [of "ld_Obligations l" obligation_inv b now] True
    by (simp add: ledger_inv_def store_inv_def wf_stores obligation_inv_def)
  then show ?thesis
    using inv_obligations [OF assms] obligations.create_keeps_key [of "ld_Obligations l" _ now b] by simp
next
  case False
  then show ?thesis using assms by (simp add: CreateObligation_def Validate_eq act_bind_lift)
qed

lemma Transition_Ok:
  assumes "Obligation_Transition b to at evidence = Ok b'"
  shows "Obligation_ID b' = Obligation_ID b \<and> ob_Account b' = ob_Account b \<and> ob_Month b' = ob_Month b"
proof -
  have "transition_loop ls b to at evidence = Ok b' \<Longrightarrow> ?thesis" for ls
    by (induction ls) (auto simp: Obligation_ID_def split: if_splits)
  then show ?thesis using assms by (simp add: Obligation_Transition_def)
qed

lemma inv_transition:
  assumes "ledger_inv l" "lookup (ld_Obligations l) k = Some b" "Obligation_Transition b to at evidence = Ok b'"
  shows "ledger_inv (snd (on_Obligations (SetObligation now b') l))"
proof -
  have "obligation_inv k b" using assms(1,2) by (simp add: ledger_inv_def store_inv_def)
  then have "obligation_inv (Obligation_ID b') (stamp_obligation now b')"
    using Transition_Ok [OF assms(3)] by (simp add: obligation_inv_def)
  then have "store_inv obligation_inv (snd (SetObligation now b' (ld_Obligations l)))"
    using assms(1) obligations.set_invariant [of "ld_Obligations l" obligation_inv b' now]
    by (simp add: ledger_inv_def store_inv_def wf_stores)
  then show ?thesis
    using inv_obligations [OF assms(1)] obligations.set_keeps_key [of "ld_Obligations l" _ now b'] by simp
qed

lemma inv_persist: "ledger_inv l \<Longrightarrow> ledger_inv (snd (persist_obligations now m t os l))"
proof (induction os arbitrary: l)
  case (Cons b os)
  show ?case
    using Cons.IH Cons.prems inv_create_obligation [OF Cons.prems, of now "opened_obligation m t b"]
    by (simp add: persist_Cons Let_def)
qed simp

lemma VerifyRound_closed: "VerifyRound \<lparr>st_Program = p, st_Round = stamp_round now (closed_round t c r)\<rparr> = Ok u \<longleftrightarrow>
    VerifyRound \<lparr>st_Program = p, st_Round = r\<rparr> = Ok u"
  unfolding VerifyRound_Ok_iff by (simp add: stamp_round_def closed_round_def)

lemma round_fields [simp]:
  "rd_Month (stamp_round now r) = rd_Month r" "rd_Entitlements (stamp_round now r) = rd_Entitlements r"
  "rd_ClosedAt (stamp_round now r) = rd_ClosedAt r" "rd_ClosedAt (closed_round t c r) = t"
  "rd_Month (closed_round t c r) = rd_Month r" "rd_Entitlements (closed_round t c r) = rd_Entitlements r"
  by (simp_all add: stamp_round_def closed_round_def)

lemma ready_round:
  assumes "ready_to_close l m closedAt r obs"
  shows "valid_month m" "rd_Month r = m" "\<exists>p. VerifyRound \<lparr>st_Program = p, st_Round = r\<rparr> = Ok ()"
    "\<exists>t. andThen (Month_Next m) Month_Time = (Ok t :: gotime cresult) \<and> \<not> closedAt < t"
    "0 < sint (ent_AmountCents e) \<Longrightarrow> e \<in> set (rd_Entitlements r) \<Longrightarrow>
       \<exists>b \<in> set obs. Obligation_ID b = ObligationID m (ent_Account e)"
proof -
  obtain p c where comp: "ComputeRound p m (month_receipts l m) (approved_awards l) c = Ok (r, obs)"
    using assms by (auto simp: ready_to_close_def elim: assembled_inputs)
  show "valid_month m" "rd_Month r = m" using comp by (auto simp: ComputeRound_Ok_iff)
  show "\<exists>p. VerifyRound \<lparr>st_Program = p, st_Round = r\<rparr> = Ok ()" using ComputeRound_verifies [OF comp] by blast
  show "\<exists>t. andThen (Month_Next m) Month_Time = (Ok t :: gotime cresult) \<and> \<not> closedAt < t"
    using assms by (simp add: ready_to_close_def)
  have "\<exists>due. obs = map (obligation_of p m due) (filter (\<lambda>e. 0 < sint (ent_AmountCents e)) (rd_Entitlements r))"
    using comp by (auto simp: ComputeRound_Ok_iff)
  then show "\<exists>b \<in> set obs. Obligation_ID b = ObligationID m (ent_Account e)"
    if "0 < sint (ent_AmountCents e)" "e \<in> set (rd_Entitlements r)"
    using that by (auto simp: Obligation_ID_def obligation_of_def)
qed

text \<open>The commit of a round adds it only once all its obligations are stored.\<close>

lemma inv_commit:
  assumes inv: "ledger_inv l2" and ready: "ready_to_close l m closedAt r obs"
    and stored: "persist_obligations now m closedAt obs l1 = (Ok (), l2)"
  shows "ledger_inv (snd (on_Rounds (CreateRound now (closed_round closedAt closedBy r)) l2))"
proof -
  let ?r = "closed_round closedAt closedBy r"
  have "backed (ld_Obligations l2) ?r"
    unfolding backed_def
  proof (intro ballI impI)
    fix e assume "e \<in> set (rd_Entitlements ?r)" "0 < sint (ent_AmountCents e)"
    then obtain b where "b \<in> set obs" "Obligation_ID b = ObligationID m (ent_Account e)"
      using ready_round(5) [OF ready] by auto
    then show "lookup (ld_Obligations l2) (ObligationID (rd_Month ?r) (ent_Account e)) \<noteq> None"
      using persist_stored [of now m closedAt obs l1 "()" b] stored ready_round(2) [OF ready] by simp
  qed
  then have "round_inv (rd_Month ?r) (stamp_round now ?r) \<and> backed (ld_Obligations l2) (stamp_round now ?r)"
    using ready_round [OF ready] by (auto simp: round_inv_def VerifyRound_closed backed_def)
  then have "store_inv (\<lambda>k r. round_inv k r \<and> backed (ld_Obligations l2) r) (snd (CreateRound now ?r (ld_Rounds l2)))"
    using inv unfolding ledger_inv_def store_inv_def
    by (intro conjI wf_stores rounds.create_invariant) blast+
  then show ?thesis using inv by (simp add: ledger_inv_def)
qed

lemma inv_close: 
  assumes "ledger_inv l"
  shows "ledger_inv (snd (CloseRound now m closedAt closedBy l))"
proof -
  obtain res l' where run: "CloseRound now m closedAt closedBy l = (res, l')" by fastforce
  then show ?thesis
  proof (cases rule: CloseRound_cases)
    case refused
    then show ?thesis using run assms same_docs_inv by simp
  next
    case (ready r obs l1)
    have inv1: "ledger_inv l1" using ready(1) assms same_docs_inv by blast
    show ?thesis using ready(3)
    proof (cases rule: commit_round_cases)
      case persisting
      then show ?thesis using run inv_persist [OF inv1] by simp
    next
      case (commit l2)
      have "ledger_inv l2" using inv_persist [OF inv1, of now m closedAt obs] commit(1) by simp
      then show ?thesis using inv_commit [OF _ ready(2) commit(1)] commit(2) run by simp
    qed
  qed
qed

text \<open>An award is proposed or decided by at most one write, after reads.\<close>

lemma reads_only_resolve [simp]: "reads_only (resolveSplits hs)"
  unfolding resolveSplits_def by (intro reads_only_bind reads_only_simps)

lemma ProposeAward_effect:
  obtains l1 where "same_docs l1 l" "snd (ProposeAward now uuid req l) = l1"
  | l1 a where "same_docs l1 l" "snd (ProposeAward now uuid req l) = snd (on_Awards (CreateAward now uuid a) l1)"
proof -
  let ?P = "on_Programs (ProgramFor (pr_Activation req))"
  obtain g l1 where g: "?P l = (g, l1)" by fastforce
  have "same_docs (snd (?P l)) l" using reads_only_simps(3) [of "pr_Activation req"] unfolding reads_only_def by blast
  then have same1: "same_docs l1 l" unfolding g by simp
  define E where "E l' \<longleftrightarrow> same_docs l' l \<or>
    (\<exists>l1 a. same_docs l1 l \<and> l' = snd (on_Awards (CreateAward now uuid a) l1))" for l'
  have E0: "E l" "E l1" using same1 by (simp_all add: E_def)
  have tail: "E (snd (act_bind (resolveSplits hs) (\<lambda>splits. act_bind (act_lift x) (\<lambda>y.
      on_Awards (CreateAward now uuid (f splits y)))) l1))" for hs f and x :: "month cresult"
  proof -
    obtain rs l2 where rs: "resolveSplits hs l1 = (rs, l2)" by fastforce
    have "same_docs (snd (resolveSplits hs l1)) l1" using reads_only_resolve [of hs] by (simp add: reads_only_def)
    then have same2: "same_docs l2 l" unfolding rs using same1 by (auto intro: same_docs_trans)
    show ?thesis
    proof (cases "is_ok rs \<and> is_ok x")
      case True
      then obtain splits y where "rs = Ok splits" "x = Ok y" by (auto simp: is_ok_iff)
      then have "act_bind (resolveSplits hs) (\<lambda>splits. act_bind (act_lift x) (\<lambda>y.
          on_Awards (CreateAward now uuid (f splits y)))) l1 = on_Awards (CreateAward now uuid (f splits y)) l2"
        using rs by (simp add: act_bind_step act_bind_lift)
      then show ?thesis using same2 unfolding E_def by metis
    next
      case False
      then have "snd (act_bind (resolveSplits hs) (\<lambda>splits. act_bind (act_lift x) (\<lambda>y.
          on_Awards (CreateAward now uuid (f splits y)))) l1) = l2"
        using rs by (cases rs; cases x) (simp_all add: act_bind_step act_bind_lift)
      then show ?thesis using same2 unfolding E_def by blast
    qed
  qed
  have "E (snd (ProposeAward now uuid req l))"
    unfolding ProposeAward_def
    by (rule act_bind_keeps [where P = E]; cases g) (simp_all add: g E0 tail del: on_store_simps)
  then show ?thesis using that unfolding E_def by blast
qed

text \<open>The two halves of a decision.\<close>

lemma same_docs_GetAward: "same_docs (snd (on_Awards (GetAward i) l)) l"
  using reads_only_simps(9) [of i] unfolding reads_only_def by blast

lemma decide_fetch_effect:
  assumes "decide_fetch i l = (res, l1)"
  shows "same_docs l1 l" "res = Ok a \<Longrightarrow> lookup (ld_Awards l) i = Some a \<and> aw_Status a = AwardProposed"
proof -
  obtain g l2 where g: "on_Awards (GetAward i) l = (g, l2)" by fastforce
  have "l1 = l2" using assms g by (auto simp: decide_fetch_def split: outcome.splits if_splits)
  then show "same_docs l1 l" using same_docs_GetAward [of i l] g by simp
  assume "res = Ok a"
  then have a: "g = Ok a" "aw_Status a = AwardProposed"
    using assms g by (auto simp: decide_fetch_def split: outcome.splits if_splits)
  then have "fst (GetAward i (ld_Awards l)) = Ok a" using g by (metis fst_conv on_store_simps(5))
  then show "lookup (ld_Awards l) i = Some a \<and> aw_Status a = AwardProposed"
    using a(2) store.get_Ok by (simp add: GetAward_def)
qed

lemma decide_write_effect:
  "snd (decide_write now approve decidedBy decision a l) =
   snd (on_Awards (SetAward now (decided_award a approve decidedBy now decision)) l)"
  by (simp add: decide_write_def Let_def snd_act_bind del: on_store_simps split: outcome.splits)

lemma DecideAward_effect:
  obtains l1 where "same_docs l1 l" "snd (DecideAward now i approve decidedBy decision l) = l1"
  | l1 a where "same_docs l1 l" "lookup (ld_Awards l) i = Some a" "aw_Status a = AwardProposed"
      "snd (DecideAward now i approve decidedBy decision l) =
       snd (on_Awards (SetAward now (decided_award a approve decidedBy now decision)) l1)"
proof -
  obtain res l1 where f: "decide_fetch i l = (res, l1)" by fastforce
  note same = decide_fetch_effect(1) [OF f]
  show ?thesis
  proof (cases res)
    case (Ok a)
    then have "snd (DecideAward now i approve decidedBy decision l) =
        snd (on_Awards (SetAward now (decided_award a approve decidedBy now decision)) l1)"
      using f by (simp add: DecideAward_def act_bind_step decide_write_effect del: on_store_simps)
    then show ?thesis using that(2) [OF same] decide_fetch_effect(2) [OF f Ok] by blast
  qed (use that(1) [OF same] f in \<open>simp_all add: DecideAward_def act_bind_step\<close>)
qed

lemma inv_propose: "ledger_inv l \<Longrightarrow> ledger_inv (snd (ProposeAward now uuid req l))"
  by (rule ProposeAward_effect [of l now uuid req]) (simp_all only: same_docs_inv inv_create_award)

lemma inv_decide: "ledger_inv l \<Longrightarrow> ledger_inv (snd (DecideAward now i approve decidedBy decision l))"
  by (rule DecideAward_effect [of l now i approve decidedBy decision]) (simp_all only: same_docs_inv inv_set_award)

lemma import_Cons:
  "import_loop now i d (r # rs) l =
     (let l' = snd (on_Receipts (CreateReceipt now r) l); x = fst (CreateReceipt now r (ld_Receipts l))
      in if is_ok x then import_loop now (i + 1) d rs l'
         else if x = Err ErrAlreadyExists then import_loop now i (d + 1) rs l'
         else ((i, d, mapErr (EIn (''receipt '' @ rcpt_Source r)) x), l'))"
  by (cases "on_Receipts (CreateReceipt now r) l"; cases "fst (CreateReceipt now r (ld_Receipts l))")
    (auto simp: on_store_defs case_prod_beta split: if_splits)

declare import_loop.simps(2) [simp del]

lemma inv_import: "ledger_inv l \<Longrightarrow> ledger_inv (snd (import_loop now i d rs l))"
proof (induction rs arbitrary: i d l)
  case (Cons r rs)
  then show ?case using inv_receipt [OF Cons.prems, of now r] by (simp add: import_Cons Let_def)
qed simp

lemma ledger_inv_step: "ledger_step l l' \<Longrightarrow> ledger_inv l \<Longrightarrow> ledger_inv l'"
proof (induction rule: ledger_step.induct)
  case (set_program l now p)
  have "ledger_inv (snd (on_Programs (PutProgram now (p\<lparr>prog_CalculationVersion := CalculationVersion\<rparr>)) l))"
    by (rule inv_program [OF set_program]) simp
  then show ?case unfolding SetProgram_def Let_def
    by (intro act_bind_keeps [where P = ledger_inv]) (simp_all only: act_lift_simps set_program)
next
  case (import_receipts l now rs)
  then show ?case unfolding ImportReceipts_def by (rule inv_import)
next
  case (estimate l m)
  then show ?case by (intro reads_only_inv) simp
qed (simp_all only: inv_participant inv_propose inv_decide inv_close inv_transition)

lemma ledger_inv_steps: "ledger_steps l l' \<Longrightarrow> ledger_inv l \<Longrightarrow> ledger_inv l'"
  by (induction rule: rtranclp_induct) (auto intro: ledger_inv_step)

section \<open>What a step cannot change\<close>

lemma CloseRound_keeps_round:
  assumes "lookup (ld_Rounds l) k = Some r"
  shows "lookup (ld_Rounds (snd (CloseRound now m closedAt closedBy l))) k = Some r"
proof -
  obtain res l' where run: "CloseRound now m closedAt closedBy l = (res, l')" by fastforce
  then show ?thesis
  proof (cases rule: CloseRound_cases)
    case refused
    then show ?thesis using run assms same_docs_lookup by fastforce
  next
    case (ready rd obs l1)
    have at1: "lookup (ld_Rounds l1) k = Some r" using ready(1) assms same_docs_lookup by fastforce
    show ?thesis using ready(3)
    proof (cases rule: commit_round_cases)
      case persisting
      then show ?thesis using run at1 by simp
    next
      case (commit l2)
      have "ld_Rounds l2 = ld_Rounds l1" using commit(1) persist_frame(5) [of now m closedAt obs l1] by simp
      then show ?thesis using commit(2) run at1
          rounds.create_keeps [of "ld_Rounds l1" k r now "closed_round closedAt closedBy rd"] by simp
    qed
  qed
qed

text \<open>The stores that an operation does not mention keep their state.\<close>

lemma import_frame [simp]:
  "ld_Programs (snd (import_loop now i d rs l)) = ld_Programs l"
  "ld_Participants (snd (import_loop now i d rs l)) = ld_Participants l"
  "ld_Awards (snd (import_loop now i d rs l)) = ld_Awards l"
  "ld_Rounds (snd (import_loop now i d rs l)) = ld_Rounds l"
  "ld_Obligations (snd (import_loop now i d rs l)) = ld_Obligations l"
  by (induction rs arbitrary: i d l) (auto simp: import_Cons Let_def)

lemma import_keeps: "lookup (ld_Receipts l) k = Some r \<Longrightarrow>
    lookup (ld_Receipts (snd (import_loop now i d rs l))) k = Some r"
proof (induction rs arbitrary: i d l)
  case (Cons x rs)
  then show ?case
    using Cons.IH [of "snd (on_Receipts (CreateReceipt now x) l)"]
    by (simp add: import_Cons Let_def receipts.create_keeps)
qed simp

lemma CloseRound_frame:
  "docs (ld_Awards (snd (CloseRound now m closedAt closedBy l))) = docs (ld_Awards l)"
  "docs (ld_Receipts (snd (CloseRound now m closedAt closedBy l))) = docs (ld_Receipts l)"
  "docs (ld_Programs (snd (CloseRound now m closedAt closedBy l))) = docs (ld_Programs l)"
  "docs (ld_Participants (snd (CloseRound now m closedAt closedBy l))) = docs (ld_Participants l)"
proof -
  obtain res l' where run: "CloseRound now m closedAt closedBy l = (res, l')" by fastforce
  then have "docs (ld_Awards l') = docs (ld_Awards l) \<and> docs (ld_Receipts l') = docs (ld_Receipts l) \<and>
      docs (ld_Programs l') = docs (ld_Programs l) \<and> docs (ld_Participants l') = docs (ld_Participants l)"
  proof (cases rule: CloseRound_cases)
    case refused
    then show ?thesis by (simp add: same_docs_def)
  next
    case (ready rd obs l1)
    show ?thesis using ready(3)
    proof (cases rule: commit_round_cases)
      case persisting
      then show ?thesis using ready(1) by (simp add: same_docs_def)
    next
      case (commit l2)
      have "snd (persist_obligations now m closedAt obs l1) = l2" using commit(1) by simp
      then show ?thesis using commit(2) ready(1) persist_frame [of now m closedAt obs l1] by (simp add: same_docs_def)
    qed
  qed
  then show
    "docs (ld_Awards (snd (CloseRound now m closedAt closedBy l))) = docs (ld_Awards l)"
    "docs (ld_Receipts (snd (CloseRound now m closedAt closedBy l))) = docs (ld_Receipts l)"
    "docs (ld_Programs (snd (CloseRound now m closedAt closedBy l))) = docs (ld_Programs l)"
    "docs (ld_Participants (snd (CloseRound now m closedAt closedBy l))) = docs (ld_Participants l)"
    using run by simp_all
qed

lemma docs_lookup: "docs s = docs s' \<Longrightarrow> lookup s k = lookup s' k"
  by (simp add: lookup_def)

lemma SetProgram_frame [simp]:
  "ld_Participants (snd (SetProgram now p l)) = ld_Participants l" "ld_Awards (snd (SetProgram now p l)) = ld_Awards l"
  "ld_Receipts (snd (SetProgram now p l)) = ld_Receipts l" "ld_Rounds (snd (SetProgram now p l)) = ld_Rounds l"
  "ld_Obligations (snd (SetProgram now p l)) = ld_Obligations l"
  by (auto simp: SetProgram_def Let_def act_bind_lift split: outcome.splits)

lemma Estimate_same: "same_docs (snd (Estimate m l)) l"
  using reads_only_Estimate [of m] by (simp add: reads_only_def)

text \<open>A closed round and an imported receipt stay as they are.\<close>

lemma step_keeps_round: "ledger_step l l' \<Longrightarrow> lookup (ld_Rounds l) k = Some r \<Longrightarrow> lookup (ld_Rounds l') k = Some r"
proof (induction rule: ledger_step.induct)
  case (propose_award uuid l now req)
  then show ?case by (rule_tac ProposeAward_effect [of l now uuid req]) (simp_all add: same_docs_lookup)
next
  case (decide_award l now i approve decidedBy decision)
  then show ?case
    by (rule_tac DecideAward_effect [of l now i approve decidedBy decision]) (simp_all add: same_docs_lookup)
next
  case (estimate l m)
  then show ?case using same_docs_lookup [OF Estimate_same [of m l]] by simp
next
  case (close_round l now m closedAt closedBy)
  then show ?case by (rule CloseRound_keeps_round)
qed (simp_all add: ImportReceipts_def)

lemma step_keeps_receipt:
  "ledger_step l l' \<Longrightarrow> lookup (ld_Receipts l) k = Some r \<Longrightarrow> lookup (ld_Receipts l') k = Some r"
proof (induction rule: ledger_step.induct)
  case (propose_award uuid l now req)
  then show ?case by (rule_tac ProposeAward_effect [of l now uuid req]) (simp_all add: same_docs_lookup)
next
  case (decide_award l now i approve decidedBy decision)
  then show ?case
    by (rule_tac DecideAward_effect [of l now i approve decidedBy decision]) (simp_all add: same_docs_lookup)
next
  case (estimate l m)
  then show ?case using same_docs_lookup [OF Estimate_same [of m l]] by simp
next
  case (close_round l now m closedAt closedBy)
  then show ?case using docs_lookup [OF CloseRound_frame(2)] by metis
qed (simp_all add: ImportReceipts_def import_keeps)

text \<open>A decided award stays as it was decided.\<close>

lemma step_keeps_decision:
  "ledger_step l l' \<Longrightarrow> ledger_inv l \<Longrightarrow> lookup (ld_Awards l) k = Some a \<Longrightarrow> aw_Status a \<noteq> AwardProposed \<Longrightarrow>
   lookup (ld_Awards l') k = Some a"
proof (induction rule: ledger_step.induct)
  case (propose_award uuid l now req)
  show ?case
  proof (rule ProposeAward_effect [of l now uuid req])
    fix l1 a' assume "same_docs l1 l" "snd (ProposeAward now uuid req l) = snd (on_Awards (CreateAward now uuid a') l1)"
    then show ?thesis
      using propose_award new_awards.create_keeps [of "ld_Awards l1" k a now "(uuid, a')"] by (simp add: same_docs_lookup)
  qed (use propose_award in \<open>simp add: same_docs_lookup\<close>)
next
  case (decide_award l now i approve decidedBy decision)
  show ?case
  proof (rule DecideAward_effect [of l now i approve decidedBy decision])
    fix l1 a' assume *: "same_docs l1 l" "lookup (ld_Awards l) i = Some a'" "aw_Status a' = AwardProposed"
      "snd (DecideAward now i approve decidedBy decision l) =
       snd (on_Awards (SetAward now (decided_award a' approve decidedBy now decision)) l1)"
    have "aw_ID a' = i" using * decide_award by (simp add: ledger_inv_def store_inv_def award_inv_def)
    moreover have "i \<noteq> k" using * decide_award by auto
    ultimately show ?thesis
      using * decide_award awards.set_keeps_other [of k "decided_award a' approve decidedBy now decision" now "ld_Awards l1"]
      by (simp add: same_docs_lookup decided_award_def)
  qed (use decide_award in \<open>simp add: same_docs_lookup\<close>)
next
  case (estimate l m)
  then show ?case using same_docs_lookup [OF Estimate_same [of m l]] by simp
next
  case (close_round l now m closedAt closedBy)
  then show ?case using docs_lookup [OF CloseRound_frame(1)] by metis
qed (simp_all add: ImportReceipts_def)

section \<open>Concurrent decisions\<close>

text \<open>
  \<open>DecideAward\<close> reads the award and then writes it without a precondition, so other callers may
  run between its two store calls. In this relation every caller \<open>t\<close> that has read a proposed
  award and not yet written it holds the copy it read; the whole operations of \<open>ledger_step\<close> run
  in between, and a caller that never writes has given up.
\<close>

inductive decision_step ::
  "ledger \<times> (nat \<Rightarrow> award option) \<Rightarrow> ledger \<times> (nat \<Rightarrow> award option) \<Rightarrow> bool" where
  decision_other: "ledger_step l l' \<Longrightarrow> decision_step (l, held) (l', held)"
| decision_read: "held t = None \<Longrightarrow> decide_fetch i l = (Ok a, l') \<Longrightarrow>
    decision_step (l, held) (l', held(t \<mapsto> a))"
| decision_refused: "held t = None \<Longrightarrow> decide_fetch i l = (res, l') \<Longrightarrow> \<not> is_ok res \<Longrightarrow>
    decision_step (l, held) (l', held)"
| decision_write: "held t = Some a \<Longrightarrow>
    decision_step (l, held) (snd (decide_write now approve decidedBy decision a l), held(t := None))"

abbreviation decision_steps ::
  "ledger \<times> (nat \<Rightarrow> award option) \<Rightarrow> ledger \<times> (nat \<Rightarrow> award option) \<Rightarrow> bool" where
  "decision_steps \<equiv> decision_step\<^sup>*\<^sup>*"

inductive_cases decision_stepE: "decision_step (l, held) (l', held')"

definition decided_in :: "ledger \<Rightarrow> string \<Rightarrow> bool" where
  "decided_in l i \<longleftrightarrow> (\<exists>a. lookup (ld_Awards l) i = Some a \<and> aw_Status a \<noteq> AwardProposed)"

definition holds_copy :: "(nat \<Rightarrow> award option) \<Rightarrow> string \<Rightarrow> bool" where
  "holds_copy held i \<longleftrightarrow> (\<exists>t b. held t = Some b \<and> aw_ID b = i)"

text \<open>A write of a held copy decides the award it read and touches no other.\<close>

lemma decide_write_inv: "ledger_inv l \<Longrightarrow> ledger_inv (snd (decide_write now approve decidedBy decision a l))"
  unfolding decide_write_effect by (rule inv_set_award)

lemma decide_write_keeps:
  "aw_ID a \<noteq> k \<Longrightarrow> lookup (ld_Awards (snd (decide_write now approve decidedBy decision a l))) k = lookup (ld_Awards l) k"
  unfolding decide_write_effect
  using awards.set_keeps_other [of k "decided_award a approve decidedBy now decision" now "ld_Awards l"]
  by (simp add: decided_award_def)

lemma decide_write_decides:
  assumes "decided_in l i"
  shows "decided_in (snd (decide_write now approve decidedBy decision a l)) i"
proof -
  let ?d = "decided_award a approve decidedBy now decision"
  obtain b where b: "lookup (ld_Awards l) i = Some b" "aw_Status b \<noteq> AwardProposed"
    using assms unfolding decided_in_def by blast
  obtain r s' where run: "SetAward now ?d (ld_Awards l) = (r, s')" by fastforce
  have status: "aw_Status (stamp_award now ?d) \<noteq> AwardProposed" by (simp add: decided_award_def stamp_award_def)
  have "ld_Awards (snd (on_Awards (SetAward now ?d) l)) = s'" using run by simp
  then show ?thesis
    unfolding decided_in_def decide_write_effect using awards.set_failed [OF run] b status by auto
qed

lemma decision_step_inv: "decision_step (l, held) (l', held') \<Longrightarrow> ledger_inv l \<Longrightarrow> ledger_inv l'"
  by (erule decision_stepE)
    (simp_all add: ledger_inv_step decide_write_inv same_docs_inv [OF decide_fetch_effect(1)])

lemma decision_step_decided:
  assumes "decision_step (l, held) (l', held')" "ledger_inv l" "decided_in l i"
  shows "decided_in l' i"
  using assms(1)
proof (cases rule: decision_step.cases)
  case decision_other
  then show ?thesis using step_keeps_decision assms(2,3) unfolding decided_in_def by blast
next
  case (decision_write t a now approve decidedBy decision)
  then show ?thesis using decide_write_decides assms(3) by simp
qed (use assms(3) same_docs_lookup [OF decide_fetch_effect(1)] in \<open>auto simp: decided_in_def\<close>)

text \<open>A decided award of which nobody holds a copy stays as it is: a new reader is refused.\<close>

lemma decision_step_kept:
  assumes "decision_step (l, held) (l', held')" "ledger_inv l"
    and "lookup (ld_Awards l) i = Some a" "aw_Status a \<noteq> AwardProposed" "\<not> holds_copy held i"
  shows "lookup (ld_Awards l') i = Some a \<and> \<not> holds_copy held' i"
  using assms(1)
proof (cases rule: decision_step.cases)
  case decision_other
  then show ?thesis using step_keeps_decision assms(2-5) by blast
next
  case (decision_read t j b)
  have "lookup (ld_Awards l) j = Some b" "aw_Status b = AwardProposed"
    using decide_fetch_effect(2) [OF decision_read(3) refl] by simp_all
  moreover from this have "aw_ID b = j" using assms(2) by (simp add: ledger_inv_def store_inv_def award_inv_def)
  ultimately have "aw_ID b \<noteq> i" using assms(3,4) by auto
  then show ?thesis
    using assms(3,5) decision_read(1) same_docs_lookup [OF decide_fetch_effect(1) [OF decision_read(3)]]
    by (auto simp: holds_copy_def)
next
  case (decision_refused t j res)
  then show ?thesis using assms(3,5) same_docs_lookup [OF decide_fetch_effect(1)] by simp
next
  case (decision_write t b now approve decidedBy decision)
  then show ?thesis using assms(3,5) decide_write_keeps [of b i] by (auto simp: holds_copy_def)
qed

lemma decided_refused:
  assumes "decided_in l i"
  shows "\<not> is_ok (fst (DecideAward now i approve decidedBy decision l))"
proof -
  obtain res l1 where f: "decide_fetch i l = (res, l1)" by fastforce
  have "\<not> is_ok res" using decide_fetch_effect(2) [OF f] assms by (auto simp: decided_in_def is_ok_iff)
  then show ?thesis using f by (cases res) (simp_all add: DecideAward_def act_bind_step)
qed

end
