(* ===== verification/LedgerClaims.thy ===== *)
theory LedgerClaims
  imports LedgerHistory
begin

text \<open>
  The properties of the ledger: what its histories keep, what a close commits, when it succeeds, how it
  is retried, and the two ways in which a close departs from its comments.
\<close>

section \<open>The ledger without faults\<close>

definition fault_free :: "ledger \<Rightarrow> bool" where
  "fault_free l \<longleftrightarrow> faults (ld_Programs l) = [] \<and> faults (ld_Participants l) = [] \<and> faults (ld_Awards l) = [] \<and>
     faults (ld_Receipts l) = [] \<and> faults (ld_Rounds l) = [] \<and> faults (ld_Obligations l) = []"

text \<open>The stores that a computation reads do not fail.\<close>

definition inputs_fault_free :: "ledger \<Rightarrow> bool" where
  "inputs_fault_free l \<longleftrightarrow> faults (ld_Programs l) = [] \<and> faults (ld_Awards l) = [] \<and>
     faults (ld_Receipts l) = [] \<and> faults (ld_Rounds l) = []"

lemma fault_free_inputs: "fault_free l \<Longrightarrow> inputs_fault_free l"
  by (simp add: fault_free_def inputs_fault_free_def)

lemma doc_Get_no_fault: "faults s = [] \<Longrightarrow>
    doc_Get k s = (case lookup s k of None \<Rightarrow> (Err ErrNotFound, s) | Some d \<Rightarrow> (Ok d, s))"
  by (simp add: doc_Get_def)

lemma doc_Create_no_fault: "faults s = [] \<Longrightarrow> doc_Create stamp k d s =
    (if lookup s k \<noteq> None then (Err ErrAlreadyExists, s) else (Ok (), put k (stamp d) s))"
  by (simp add: doc_Create_def)

lemma faults_put [simp]: "faults (put k d s) = faults s"
  by (simp add: put_def)

lemma ProgramFor_no_fault: "faults s = [] \<Longrightarrow>
    ProgramFor m s = (case select_program m None (map snd (docs s)) of None \<Rightarrow> Err ErrNotFound | Some p \<Rightarrow> Ok p, s)"
  by (simp add: ProgramFor_def ListPrograms_def act_bind_def listDocuments_no_fault act_lift_def split: option.splits)

lemma carryforward_fault_free: "inputs_fault_free l \<Longrightarrow> carryforward m l = (carry_result m l, l)"
  by (cases "Month_Prev m :: month cresult")
    (auto simp: carryforward_def carry_result_def inputs_fault_free_def act_bind_lift act_bind_def on_store_defs GetRound_def
      ListRounds_def doc_Get_no_fault listDocuments_no_fault act_lift_def split: option.splits)

lemma assemble_fault_free:
  assumes "inputs_fault_free l"
  shows "assemble m l = (assembled m l, l)"
proof -
  have steps: "on_Programs (ProgramFor m) l = (case select_program m None (map snd (docs (ld_Programs l))) of
        None \<Rightarrow> Err ErrNotFound | Some p \<Rightarrow> Ok p, l)"
    "on_Receipts (ListMonthReceipts m) l = (Ok (month_receipts l m), l)"
    "on_Awards (ListAwards AwardApproved) l = (Ok (approved_awards l), l)"
    using assms by (simp_all add: on_store_defs ProgramFor_no_fault inputs_fault_free_def ListMonthReceipts_def
        ListAwards_def listDocuments_no_fault month_receipts_def approved_awards_def)
  show ?thesis
    unfolding assemble_def assembled_def Validate_eq
    by (cases "carry_result m l")
      (auto simp: act_bind_lift act_bind_def act_err_def steps carryforward_fault_free [OF assms] act_lift_def
        split: option.splits)
qed

lemma CloseRound_fault_free:
  assumes "inputs_fault_free l" "lookup (ld_Rounds l) m = None"
    and "andThen (Month_Next m) Month_Time = (Ok t :: gotime cresult)" "\<not> closedAt < t"
  shows "CloseRound now m closedAt closedBy l =
    (case assembled m l of Ok (r, obs) \<Rightarrow> commit_round now m closedAt closedBy r obs l
     | Err e \<Rightarrow> (Err e, l) | Panic \<Rightarrow> (Panic, l))"
proof -
  have "on_Rounds (GetRound m) l = (Err ErrNotFound, l)"
    using assms(1,2) by (simp add: on_store_defs GetRound_def doc_Get_no_fault inputs_fault_free_def)
  then show ?thesis
    using assms(3,4) by (auto simp: CloseRound_def act_bind_lift act_bind_def [of "assemble m"]
        assemble_fault_free [OF assms(1)] split: outcome.splits)
qed

lemma CreateObligation_no_fault:
  assumes "faults s = []" "valid_month (ob_Month b)" "ob_Account b \<noteq> ''''"
  shows "CreateObligation now b s = (if lookup s (Obligation_ID b) \<noteq> None then (Err ErrAlreadyExists, s)
    else (Ok (), put (Obligation_ID b) (stamp_obligation now b) s))"
  using assms by (simp add: CreateObligation_def act_bind_lift Validate_eq doc_Create_no_fault)

lemma persist_fault_free:
  "fault_free l \<Longrightarrow> \<forall>b \<in> set obs. valid_month (ob_Month b) \<and> ob_Account b \<noteq> '''' \<Longrightarrow>
   fst (persist_obligations now m t obs l) = Ok () \<and> fault_free (snd (persist_obligations now m t obs l))"
proof (induction obs arbitrary: l)
  case (Cons b obs)
  let ?b = "opened_obligation m t b"
  have "fault_free (snd (on_Obligations (CreateObligation now ?b) l))"
    "is_ok (fst (CreateObligation now ?b (ld_Obligations l))) \<or>
     fst (CreateObligation now ?b (ld_Obligations l)) = Err ErrAlreadyExists"
    using Cons.prems CreateObligation_no_fault [of "ld_Obligations l" ?b now] by (auto simp: fault_free_def is_ok_iff)
  then show ?case using Cons by (auto simp: persist_Cons Let_def)
qed simp

lemma commit_fault_free:
  assumes "fault_free l" "\<forall>b \<in> set obs. valid_month (ob_Month b) \<and> ob_Account b \<noteq> ''''"
    and "valid_month (rd_Month r)" "lookup (ld_Rounds l) (rd_Month r) = None"
  shows "\<exists>l'. commit_round now m t c r obs l = (Ok (closed_round t c r), l') \<and>
    lookup (ld_Rounds l') (rd_Month r) = Some (stamp_round now (closed_round t c r))"
proof -
  obtain l2 where p: "persist_obligations now m t obs l = (Ok (), l2)" and ff: "fault_free l2"
    using persist_fault_free [OF assms(1,2), of now m t] by (cases "persist_obligations now m t obs l") auto
  have "ld_Rounds l2 = ld_Rounds l" using p persist_frame(5) [of now m t obs l] by simp
  then have "on_Rounds (CreateRound now (closed_round t c r)) l2 =
      (Ok (), l2\<lparr>ld_Rounds := put (rd_Month r) (stamp_round now (closed_round t c r)) (ld_Rounds l2)\<rparr>)"
    using ff assms(3,4) by (simp add: fault_free_def on_store_defs CreateRound_def act_bind_lift Validate_eq doc_Create_no_fault)
  then show ?thesis
    using p by (auto simp: commit_round_def Let_def act_bind_step closed_round_def [symmetric])
qed

section \<open>A sample ledger\<close>

definition docs_only :: "(string \<times> 'd) list \<Rightarrow> 'd docstore" where
  "docs_only ds = \<lparr>docs = ds, faults = []\<rparr>"

definition sample_ledger :: ledger where
  "sample_ledger = \<lparr>ld_Programs = docs_only [(''v1'', sample_program)], ld_Participants = docs_only [],
     ld_Awards = docs_only [(''a1'', sample_award)], ld_Receipts = docs_only [(''inv-1'', sample_receipt)],
     ld_Rounds = docs_only [], ld_Obligations = docs_only []\<rparr>"

lemma docs_only_simps [simp]: "docs (docs_only ds) = ds" "faults (docs_only ds) = []" "lookup (docs_only ds) = map_of ds"
  by (simp_all add: docs_only_def lookup_def)

lemma sample_ledger_simps [simp]:
  "ld_Programs sample_ledger = docs_only [(''v1'', sample_program)]"
  "ld_Participants sample_ledger = docs_only []" "ld_Awards sample_ledger = docs_only [(''a1'', sample_award)]"
  "ld_Receipts sample_ledger = docs_only [(''inv-1'', sample_receipt)]"
  "ld_Rounds sample_ledger = docs_only []" "ld_Obligations sample_ledger = docs_only []"
  by (simp_all add: sample_ledger_def)

lemma sample_fault_free: "fault_free sample_ledger"
  by (simp add: fault_free_def)

lemma sample_inv: "ledger_inv sample_ledger"
proof -
  have "program_inv ''v1'' sample_program"
    by (simp add: program_inv_def sample_program_def Program_Validate_Ok_iff CalculationVersion_def month_eval)
  moreover have "award_inv ''a1'' sample_award"
    by (simp add: award_inv_def sample_award_def Award_Validate_def Validate_eq month_eval Month_Before_def)
  moreover have "receipt_inv ''inv-1'' sample_receipt"
    by (simp add: receipt_inv_def sample_receipt_def Receipt_Validate_def Validate_eq month_eval)
  ultimately show ?thesis by (auto simp: ledger_inv_def store_inv_def)
qed

lemma sample_month_end: "andThen (Month_Next ''2026-02'') Month_Time = (Ok (GoTime 2026 3 1 0) :: gotime cresult)"
  by code_simp

lemma sample_assembled: "assembled ''2026-02'' sample_ledger = Ok (sample_round, sample_obligations)"
proof -
  have "carry_result ''2026-02'' sample_ledger = Ok 0"
    by (simp add: carry_result_def Month_Prev_valid month_eval)
  moreover have "select_program ''2026-02'' None [sample_program] = Some sample_program"
    by (simp add: sample_program_def Month_Before_def)
  moreover have "month_receipts sample_ledger ''2026-02'' = [sample_receipt]"
    by (simp add: month_receipts_def sample_receipt_def)
  moreover have "approved_awards sample_ledger = [sample_award]"
    by (simp add: approved_awards_def sample_award_def)
  moreover have "valid_month ''2026-02''" by (simp add: month_eval)
  ultimately show ?thesis using sample_compute by (simp add: assembled_def Validate_eq)
qed

definition sample_closing :: gotime where
  "sample_closing = GoTime 2026 3 2 0"

lemma sample_obligations_valid: "\<forall>b \<in> set sample_obligations. valid_month (ob_Month b) \<and> ob_Account b \<noteq> ''''"
  by (simp add: sample_obligations_def sample_entitlements_def obligation_of_def month_eval)

lemma sample_round_month [simp]: "rd_Month sample_round = ''2026-02''"
  by (simp add: sample_round_def)

lemma sample_not_ended: "\<not> sample_closing < GoTime 2026 3 1 0"
  by code_simp

lemma sample_close:
  obtains l' where "CloseRound now ''2026-02'' sample_closing ''op'' sample_ledger =
      (Ok (closed_round sample_closing ''op'' sample_round), l')"
    "lookup (ld_Rounds l') ''2026-02'' = Some (stamp_round now (closed_round sample_closing ''op'' sample_round))"
proof -
  have "CloseRound now ''2026-02'' sample_closing ''op'' sample_ledger =
      commit_round now ''2026-02'' sample_closing ''op'' sample_round sample_obligations sample_ledger"
    using CloseRound_fault_free [OF fault_free_inputs [OF sample_fault_free] _ sample_month_end sample_not_ended, of now "''op''"]
    by (simp add: sample_assembled)
  then show ?thesis
    using commit_fault_free [OF sample_fault_free sample_obligations_valid, of sample_round now "''2026-02''"
        sample_closing "''op''"] that by (auto simp: month_eval)
qed

section \<open>Histories\<close>

text \<open>
  C6 (ledger_rounds_sound). In every history of ledger operations, whatever store calls fail and
  whether they fail before or after they took effect, each stored round stands under its own month, was
  closed after the month had ended, verifies against a program, and has an obligation for each of its
  positive entitlements. The empty ledger satisfies the invariant (\<open>ledger_inv_empty\<close>).
\<close>

theorem ledger_rounds_sound:
  assumes "ledger_inv l0" and "ledger_steps l0 l" and "lookup (ld_Rounds l) m = Some r"
  shows "rd_Month r = m \<and> valid_month m \<and>
    (\<exists>t. andThen (Month_Next m) Month_Time = (Ok t :: gotime cresult) \<and> \<not> rd_ClosedAt r < t) \<and>
    (\<exists>p. VerifyRound \<lparr>st_Program = p, st_Round = r\<rparr> = Ok ()) \<and>
    (\<forall>e \<in> set (rd_Entitlements r). 0 < sint (ent_AmountCents e) \<longrightarrow>
       (\<exists>b. lookup (ld_Obligations l) (ObligationID m (ent_Account e)) = Some b \<and>
          Obligation_ID b = ObligationID m (ent_Account e)))"
proof -
  have inv: "ledger_inv l" using assms(1,2) by (rule ledger_inv_steps [rotated])
  then have "round_inv m r" "backed (ld_Obligations l) r"
    using assms(3) by (auto simp: ledger_inv_def store_inv_def)
  moreover have "Obligation_ID b = k" if "lookup (ld_Obligations l) k = Some b" for k b
    using inv that by (simp add: ledger_inv_def store_inv_def obligation_inv_def)
  ultimately show ?thesis by (fastforce simp: round_inv_def backed_def)
qed

theorem ledger_rounds_sound_witness:
  "\<exists>l r. ledger_steps sample_ledger l \<and> lookup (ld_Rounds l) ''2026-02'' = Some r \<and>
     (\<exists>p. VerifyRound \<lparr>st_Program = p, st_Round = r\<rparr> = Ok ())"
proof -
  obtain l' where c: "CloseRound zeroTime ''2026-02'' sample_closing ''op'' sample_ledger =
      (Ok (closed_round sample_closing ''op'' sample_round), l')"
    "lookup (ld_Rounds l') ''2026-02'' = Some (stamp_round zeroTime (closed_round sample_closing ''op'' sample_round))"
    by (rule sample_close)
  have "ledger_step sample_ledger l'"
    using ledger_step.close_round [of sample_ledger zeroTime "''2026-02''" sample_closing "''op''"] c(1) by simp
  then have "ledger_steps sample_ledger l'" by blast
  then show ?thesis using ledger_rounds_sound [OF sample_inv _ c(2)] c(2) by blast
qed

text \<open>
  C10 (closed_rounds_final). No history changes or removes a closed round, and no later close of its
  month succeeds; nor does a history change an imported receipt.
\<close>

theorem closed_rounds_final:
  assumes "ledger_steps l l'" and "lookup (ld_Rounds l) k = Some r"
  shows "lookup (ld_Rounds l') k = Some r \<and> \<not> is_ok (fst (CloseRound now k closedAt closedBy l')) \<and>
    (\<forall>i x. lookup (ld_Receipts l) i = Some x \<longrightarrow> lookup (ld_Receipts l') i = Some x)"
proof -
  have keep: "lookup (ld_Rounds l') k = Some r \<and>
      (\<forall>i x. lookup (ld_Receipts l) i = Some x \<longrightarrow> lookup (ld_Receipts l') i = Some x)"
    using assms by (induction rule: rtranclp_induct) (auto intro: step_keeps_round step_keeps_receipt)
  obtain res l2 where run: "CloseRound now k closedAt closedBy l' = (res, l2)" by fastforce
  then have "\<not> is_ok res"
    by (cases rule: CloseRound_cases) (use keep in \<open>auto simp: ready_to_close_def\<close>)
  then show ?thesis using keep run by simp
qed

theorem closed_rounds_final_witness:
  "\<exists>l r. lookup (ld_Rounds l) ''2026-02'' = Some r \<and>
     \<not> is_ok (fst (CloseRound zeroTime ''2026-02'' sample_closing ''op'' l))"
proof -
  obtain l' where c: "CloseRound zeroTime ''2026-02'' sample_closing ''op'' sample_ledger =
      (Ok (closed_round sample_closing ''op'' sample_round), l')"
    "lookup (ld_Rounds l') ''2026-02'' = Some (stamp_round zeroTime (closed_round sample_closing ''op'' sample_round))"
    by (rule sample_close)
  show ?thesis using closed_rounds_final [OF rtranclp.rtrancl_refl c(2)] c(2) by blast
qed

text \<open>
  C11 (decisions_final). Decisions run as the two store calls they are, interleaved with one another and
  with the other operations, any store call possibly failing. Once an award is approved or rejected it
  never becomes proposed again and every later decision on it is refused; and it stays exactly as decided
  unless some caller had read it while it was still proposed and not yet written its own decision. That
  condition is needed: \<open>SetAward\<close> has no precondition, and such a caller overwrites the decision
  (\<open>decisions_race\<close>).
\<close>

theorem decisions_final:
  assumes "ledger_inv l" and "decision_steps (l, held) (l', held')"
    and "lookup (ld_Awards l) i = Some a" and "aw_Status a \<noteq> AwardProposed"
  shows "(\<exists>a'. lookup (ld_Awards l') i = Some a' \<and> aw_Status a' \<noteq> AwardProposed) \<and>
    \<not> is_ok (fst (DecideAward now i approve decidedBy decision l')) \<and>
    ((\<forall>t b. held t = Some b \<longrightarrow> aw_ID b \<noteq> i) \<longrightarrow> lookup (ld_Awards l') i = Some a)"
proof -
  have "ledger_inv l' \<and> decided_in l' i \<and>
      (\<not> holds_copy held i \<longrightarrow> lookup (ld_Awards l') i = Some a \<and> \<not> holds_copy held' i)"
    using assms(2)
  proof (induction rule: rtranclp_induct2)
    case refl
    then show ?case using assms(1,3,4) by (simp add: decided_in_def)
  next
    case (step l1 held1 l2 held2)
    have inv: "ledger_inv l1" and keep: "\<not> holds_copy held i \<Longrightarrow> lookup (ld_Awards l1) i = Some a \<and> \<not> holds_copy held1 i"
      using step.IH by blast+
    then show ?case
      using step.IH decision_step_inv [OF step.hyps(2) inv] decision_step_decided [OF step.hyps(2) inv]
        decision_step_kept [OF step.hyps(2) inv _ assms(4)] by blast
  qed
  then show ?thesis using decided_refused by (auto simp: decided_in_def holds_copy_def)
qed

theorem decisions_final_witness:
  "\<exists>l' held'. decision_steps (sample_ledger, Map.empty) (l', held') \<and>
     lookup (ld_Awards l') ''a1'' = Some sample_award"
proof -
  have step: "decision_steps (sample_ledger, Map.empty) (snd (Estimate ''2026-02'' sample_ledger), Map.empty)"
    by (rule r_into_rtranclp) (rule decision_other, rule ledger_step.estimate)
  have "lookup (ld_Awards (snd (Estimate ''2026-02'' sample_ledger))) ''a1'' = Some sample_award"
    using decisions_final [OF sample_inv step, of "''a1''" sample_award] by (simp add: sample_award_def)
  then show ?thesis using step by blast
qed

text \<open>
  Two deciders read the same proposed award; the first approves it and is told so, the second rejects it
  and is told so as well. The stored award is the second's, the approval is lost.
\<close>

lemma decide_fetch_no_fault:
  assumes "faults (ld_Awards l) = []" "lookup (ld_Awards l) i = Some a" "aw_Status a = AwardProposed"
  shows "decide_fetch i l = (Ok a, l)"
  using assms by (simp add: decide_fetch_def GetAward_def doc_Get_no_fault on_store_defs)

lemma decide_write_no_fault:
  assumes "faults (ld_Awards l) = []" "aw_ID a \<noteq> ''''" "Award_Validate (decided_award a y o' now d) = Ok ()"
  shows "\<exists>l'. decide_write now y o' d a l = (Ok (decided_award a y o' now d), l') \<and> faults (ld_Awards l') = [] \<and>
    lookup (ld_Awards l') (aw_ID a) = Some (stamp_award now (decided_award a y o' now d))"
  using assms
  by (simp add: decide_write_def Let_def SetAward_def act_bind_lift act_bind_def act_lift_def on_store_defs doc_no_faults
      decided_award_def)

theorem decisions_race:
  assumes "faults (ld_Awards l) = []" "lookup (ld_Awards l) i = Some a" "aw_Status a = AwardProposed"
    and "aw_ID a = i" "i \<noteq> ''''" "\<And>y o' d. Award_Validate (decided_award a y o' now d) = Ok ()"
  shows "\<exists>l1 l2. decision_steps (l, Map.empty) (l, [1 \<mapsto> a, 2 \<mapsto> a]) \<and>
    decide_write now True ''x'' '''' a l = (Ok (decided_award a True ''x'' now ''''), l1) \<and>
    decision_step (l, [1 \<mapsto> a, 2 \<mapsto> a]) (l1, [2 \<mapsto> a]) \<and>
    lookup (ld_Awards l1) i = Some (stamp_award now (decided_award a True ''x'' now '''')) \<and>
    decide_write now False ''y'' '''' a l1 = (Ok (decided_award a False ''y'' now ''''), l2) \<and>
    decision_step (l1, [2 \<mapsto> a]) (l2, Map.empty) \<and>
    lookup (ld_Awards l2) i = Some (stamp_award now (decided_award a False ''y'' now ''''))"
proof -
  note fetch = decide_fetch_no_fault [OF assms(1-3)]
  have "decision_step (l, Map.empty) (l, [1 \<mapsto> a])" by (rule decision_read [OF _ fetch]) simp
  moreover have "decision_step (l, [1 \<mapsto> a]) (l, [1 \<mapsto> a, 2 \<mapsto> a])" by (rule decision_read [OF _ fetch]) simp
  ultimately have reads: "decision_steps (l, Map.empty) (l, [1 \<mapsto> a, 2 \<mapsto> a])" by auto
  obtain l1 where l1: "decide_write now True ''x'' '''' a l = (Ok (decided_award a True ''x'' now ''''), l1)"
      "faults (ld_Awards l1) = []"
      "lookup (ld_Awards l1) i = Some (stamp_award now (decided_award a True ''x'' now ''''))"
    using decide_write_no_fault [OF assms(1)] assms(4-6) by blast
  obtain l2 where l2: "decide_write now False ''y'' '''' a l1 = (Ok (decided_award a False ''y'' now ''''), l2)"
      "lookup (ld_Awards l2) i = Some (stamp_award now (decided_award a False ''y'' now ''''))"
    using decide_write_no_fault [OF l1(2)] assms(4-6) by blast
  have "decision_step (l, [1 \<mapsto> a, 2 \<mapsto> a]) (l1, [2 \<mapsto> a])"
    using decision_write [of "[1 \<mapsto> a, 2 \<mapsto> a]" 1 a l now True "''x''" "''''"] l1(1) by (simp add: fun_upd_twist)
  moreover have "decision_step (l1, [2 \<mapsto> a]) (l2, Map.empty)"
    using decision_write [of "[2 \<mapsto> a]" 2 a l1 now False "''y''" "''''"] l2(1) by simp
  ultimately show ?thesis using reads l1 l2 by blast
qed

section \<open>Closing a round\<close>

text \<open>
  C7 (close_round_commits). A close that succeeds found the month open, computed the round from the
  program in force, the receipts of the month, the approved awards and the carryforward of the previous
  round (or none, where no earlier round exists), and stored it under its month; it stored an obligation
  for every one computed, kept those that were there, and added no other.
\<close>

theorem close_round_commits:
  assumes "CloseRound now m closedAt closedBy l = (Ok r, l')"
  shows "lookup (ld_Rounds l) m = None \<and> lookup (ld_Rounds l') = (lookup (ld_Rounds l))(m \<mapsto> stamp_round now r) \<and>
    (\<exists>t. andThen (Month_Next m) Month_Time = (Ok t :: gotime cresult) \<and> \<not> closedAt < t) \<and>
    (\<exists>p c r0 obs. in_force l m p \<and> carry_of l m c \<and>
       ComputeRound p m (month_receipts l m) (approved_awards l) c = Ok (r0, obs) \<and>
       r = r0\<lparr>rd_ClosedAt := closedAt, rd_ClosedBy := closedBy\<rparr> \<and>
       (\<forall>b \<in> set obs. lookup (ld_Obligations l') (Obligation_ID b) \<noteq> None) \<and>
       (\<forall>k b. lookup (ld_Obligations l) k = Some b \<longrightarrow> lookup (ld_Obligations l') k = Some b) \<and>
       (\<forall>k b. lookup (ld_Obligations l') k = Some b \<longrightarrow> lookup (ld_Obligations l) k = Some b \<or>
          (\<exists>b0 \<in> set obs. k = Obligation_ID b0 \<and> b = stamp_obligation now (opened_obligation m closedAt b0))))"
  using assms
proof (cases rule: CloseRound_cases)
  case refused
  then show ?thesis by simp
next
  case (ready r0 obs l1)
  have look1: "lookup (ld_Rounds l1) = lookup (ld_Rounds l)" "lookup (ld_Obligations l1) = lookup (ld_Obligations l)"
    using same_docs_lookup [OF ready(1)] by simp_all
  show ?thesis using ready(3)
  proof (cases rule: commit_round_cases)
    case persisting
    then show ?thesis by simp
  next
    case (commit l2)
    have p: "snd (persist_obligations now m closedAt obs l1) = l2" using commit(1) by simp
    have r: "r = closed_round closedAt closedBy r0" using commit(4) by simp
    obtain u where u: "fst (CreateRound now r (ld_Rounds l2)) = Ok u" using commit(3) r by (auto simp: is_ok_iff)
    have l2: "ld_Rounds l2 = ld_Rounds l1" using persist_frame(5) [of now m closedAt obs l1] p by simp
    have m: "rd_Month r = m" using ready_round(2) [OF ready(2)] r by simp
    have "lookup (ld_Rounds l') = (lookup (ld_Rounds l))(m \<mapsto> stamp_round now r)"
      using rounds.create_Ok [of now r "ld_Rounds l2" u "snd (CreateRound now r (ld_Rounds l2))"] u commit(2) r m l2 look1
      by (simp add: prod_eq_iff)
    moreover have "ld_Obligations l' = ld_Obligations l2" using commit(2) by simp
    moreover obtain p c where "in_force l m p" "carry_of l m c"
      "ComputeRound p m (month_receipts l m) (approved_awards l) c = Ok (r0, obs)"
      using ready(2) by (auto simp: ready_to_close_def elim: assembled_inputs)
    moreover have "\<forall>b \<in> set obs. lookup (ld_Obligations l2) (Obligation_ID b) \<noteq> None"
      using persist_stored [of now m closedAt obs l1 "()"] commit(1) by simp
    moreover have "\<forall>k b. lookup (ld_Obligations l) k = Some b \<longrightarrow> lookup (ld_Obligations l2) k = Some b"
      using persist_keeps [of l1 _ _ now m closedAt obs] p look1 by simp
    moreover have "\<forall>k b. lookup (ld_Obligations l2) k = Some b \<longrightarrow> lookup (ld_Obligations l) k = Some b \<or>
          (\<exists>b0 \<in> set obs. k = Obligation_ID b0 \<and> b = stamp_obligation now (opened_obligation m closedAt b0))"
      using persist_adds [of now m closedAt obs l1] p look1 by auto
    ultimately show ?thesis using ready(2) unfolding ready_to_close_def r closed_round_def by auto
  qed
qed

theorem close_round_commits_witness:
  "\<exists>r l'. CloseRound zeroTime ''2026-02'' sample_closing ''op'' sample_ledger = (Ok r, l') \<and>
     lookup (ld_Rounds l') = [''2026-02'' \<mapsto> stamp_round zeroTime r]"
proof -
  obtain l' where c: "CloseRound zeroTime ''2026-02'' sample_closing ''op'' sample_ledger =
      (Ok (closed_round sample_closing ''op'' sample_round), l')"
    by (rule sample_close)
  then show ?thesis using close_round_commits [OF c] by auto
qed

section \<open>When a close succeeds\<close>

lemma check_splits_Ok: "check_splits seen ss = Ok u \<Longrightarrow> s \<in> set ss \<Longrightarrow> split_Account s \<noteq> ''''"
  by (induction seen ss rule: check_splits.induct) (auto split: if_splits)

lemma Award_Validate_accounts: "Award_Validate a = Ok u \<Longrightarrow> s \<in> set (aw_Splits a) \<Longrightarrow> split_Account s \<noteq> ''''"
  by (auto simp: Award_Validate_def outcome_simps split: if_splits dest: check_splits_Ok)

lemma valid_awards_credits:
  assumes "\<forall>a \<in> set awards. Award_Validate a = Ok ()"
  shows "\<exists>credits. ActiveCredits awards m = Ok credits \<and> get0 credits '''' = 0"
proof -
  obtain credits where c: "ActiveCredits awards m = Ok credits"
    using assms by (simp add: ActiveCredits_def active_loop_Ok_iff)
  have "\<forall>s \<in> set (splits_in awards m). split_Account s \<noteq> ''''"
    using assms by (auto simp: splits_in_def dest: Award_Validate_accounts)
  then have "filter (\<lambda>s. split_Account s = '''') (splits_in awards m) = []" by (auto simp: filter_empty_conv)
  then show ?thesis using c ActiveCredits_get0 [OF c, of "''''"] by simp
qed

lemma Allocate_succeeds:
  assumes "credits_fit credits" "0 \<le> sint pool" "get0 credits '''' = 0"
  shows "\<exists>ents. Allocate pool credits = Ok ents \<and> (\<forall>e \<in> set ents. ent_Account e \<noteq> '''')"
proof (cases "credit_sum credits = 0")
  case True
  then show ?thesis using assms(1,2) by (simp add: Allocate_eq credits_fit_def)
next
  case False
  have "'''' \<notin> set (positive_accounts credits)"
    using positive_accounts_props(3) assms(1,3) by (auto simp: credits_fit_def)
  then have "\<forall>i < length (positive_accounts credits). positive_accounts credits ! i \<noteq> ''''"
    using nth_mem by metis
  then show ?thesis using Allocate_shape [OF assms(1) False assms(2)] by auto
qed

lemma ComputeRound_succeeds:
  assumes "Program_Validate p = Ok ()" "prog_CalculationVersion p = CalculationVersion" "valid_month m"
    and "\<not> Month_Before m (prog_EffectiveFrom p)"
    and "\<forall>x \<in> set receipts. Receipt_Validate x = Ok () \<and> rcpt_Month x = m \<and> rcpt_Currency x = prog_Currency p"
    and "\<forall>a \<in> set awards. Award_Validate a = Ok ()"
    and "\<And>credits. ActiveCredits awards m = Ok credits \<Longrightarrow> credits_fit credits"
  shows "\<exists>r obs. ComputeRound p m receipts awards c = Ok (r, obs) \<and>
    (\<forall>b \<in> set obs. valid_month (ob_Month b) \<and> ob_Account b \<noteq> '''')"
proof -
  obtain net where net: "sum_receipts p m 0 receipts = Ok net" using assms(5) by (simp add: sum_receipts_Ok_iff)
  obtain credits where cr: "ActiveCredits awards m = Ok credits" "get0 credits '''' = 0"
    using valid_awards_credits [OF assms(6)] by blast
  let ?pool = "if sint (c + PoolShareCents (prog_PoolBps p) net) < 0 then 0 else c + PoolShareCents (prog_PoolBps p) net"
  have "0 \<le> sint ?pool" by simp
  then obtain ents where ents: "Allocate ?pool credits = Ok ents" "\<forall>e \<in> set ents. ent_Account e \<noteq> ''''"
    using Allocate_succeeds [OF assms(7) [OF cr(1)] _ cr(2)] by blast
  obtain due where due: "DueDate p m = Ok due" by (simp add: DueDate_def Let_def Month_Time_valid [OF assms(3)])
  let ?r = "make_round p m net c (c + PoolShareCents (prog_PoolBps p) net) (credit_sum credits) ents"
  let ?obs = "map (obligation_of p m due) (filter (\<lambda>e. 0 < sint (ent_AmountCents e)) ents)"
  have "ComputeRound p m receipts awards c = Ok (?r, ?obs)"
    unfolding ComputeRound_Ok_iff using assms(1-4) net cr(1) ents(1) due by blast
  moreover have "\<forall>b \<in> set ?obs. valid_month (ob_Month b) \<and> ob_Account b \<noteq> ''''"
    using ents(2) assms(3) by (auto simp: obligation_of_def)
  ultimately show ?thesis by blast
qed

lemma in_force_selected:
  "in_force l m q \<Longrightarrow> \<exists>p. select_program m None (map snd (docs (ld_Programs l))) = Some p \<and> in_force l m p"
proof -
  assume q: "in_force l m q"
  then obtain p where p: "select_program m None (map snd (docs (ld_Programs l))) = Some p"
    by (cases "select_program m None (map snd (docs (ld_Programs l)))") (auto simp: select_program_None in_force_def)
  then show ?thesis using select_program_Some [OF p] by (auto simp: in_force_def)
qed

lemma store_inv_listed: "store_inv P s \<Longrightarrow> d \<in> snd ` set (docs s) \<Longrightarrow> \<exists>k. P k d"
proof -
  assume inv: "store_inv P s" and "d \<in> snd ` set (docs s)"
  then obtain k where "(k, d) \<in> set (docs s)" by auto
  then have "lookup s k = Some d" using inv unfolding store_inv_def lookup_def by (intro map_of_is_SomeI) auto
  then show ?thesis using inv by (auto simp: store_inv_def)
qed

lemma assembled_succeeds:
  assumes inv: "ledger_inv l" and m: "valid_month m" and p: "in_force l m p" and c: "carry_of l m c"
    and currency: "\<And>p x. in_force l m p \<Longrightarrow> x \<in> set (month_receipts l m) \<Longrightarrow> rcpt_Currency x = prog_Currency p"
    and fit: "\<And>credits. ActiveCredits (approved_awards l) m = Ok credits \<Longrightarrow> credits_fit credits"
  shows "\<exists>r obs. assembled m l = Ok (r, obs) \<and> rd_Month r = m \<and>
    (\<forall>b \<in> set obs. valid_month (ob_Month b) \<and> ob_Account b \<noteq> '''')"
proof -
  obtain p' where p': "select_program m None (map snd (docs (ld_Programs l))) = Some p'" "in_force l m p'"
    using in_force_selected [OF p] by blast
  obtain k where "program_inv k p'"
    using p'(2) inv store_inv_listed [of program_inv "ld_Programs l" p'] by (auto simp: in_force_def ledger_inv_def)
  moreover have "\<forall>x \<in> set (month_receipts l m). Receipt_Validate x = Ok () \<and> rcpt_Month x = m \<and>
      rcpt_Currency x = prog_Currency p'"
    using inv store_inv_listed [of receipt_inv "ld_Receipts l"] currency [OF p'(2)]
    by (fastforce simp: month_receipts_def ledger_inv_def receipt_inv_def)
  moreover have "\<forall>a \<in> set (approved_awards l). Award_Validate a = Ok ()"
    using inv store_inv_listed [of award_inv "ld_Awards l"]
    by (fastforce simp: approved_awards_def ledger_inv_def award_inv_def)
  ultimately obtain r obs where r: "ComputeRound p' m (month_receipts l m) (approved_awards l) c = Ok (r, obs)"
    "\<forall>b \<in> set obs. valid_month (ob_Month b) \<and> ob_Account b \<noteq> ''''"
    using ComputeRound_succeeds [of p' m "month_receipts l m" "approved_awards l" c] m p'(2) fit
    by (auto simp: program_inv_def in_force_def)
  moreover have "rd_Month r = m" using r(1) by (auto simp: ComputeRound_Ok_iff)
  ultimately show ?thesis
    using p'(1) c [folded carry_result_Ok_iff] m by (simp add: assembled_def Validate_eq)
qed

text \<open>
  C8 (close_round_succeeds). In a ledger that satisfies the invariant and whose stores do not fail,
  closing an open month that has ended succeeds, stores the round and reports it, once a program is in
  force, the receipts are in its currency, the active credits fit in an int64 and the previous round is
  closed or no earlier one exists.
\<close>

theorem close_round_succeeds:
  assumes "ledger_inv l" and "fault_free l" and "valid_month m" and "lookup (ld_Rounds l) m = None"
    and "andThen (Month_Next m) Month_Time = (Ok t :: gotime cresult)" and "\<not> closedAt < t"
    and "in_force l m p" and "carry_of l m c"
    and "\<And>p x. in_force l m p \<Longrightarrow> x \<in> set (month_receipts l m) \<Longrightarrow> rcpt_Currency x = prog_Currency p"
    and "\<And>credits. ActiveCredits (approved_awards l) m = Ok credits \<Longrightarrow> credits_fit credits"
  shows "\<exists>r l'. CloseRound now m closedAt closedBy l = (Ok r, l') \<and>
    lookup (ld_Rounds l') m = Some (stamp_round now r)"
proof -
  obtain r obs where r: "assembled m l = Ok (r, obs)" "rd_Month r = m"
    "\<forall>b \<in> set obs. valid_month (ob_Month b) \<and> ob_Account b \<noteq> ''''"
    using assembled_succeeds [OF assms(1,3,7,8,9,10)] by blast
  have "CloseRound now m closedAt closedBy l = commit_round now m closedAt closedBy r obs l"
    using CloseRound_fault_free [OF fault_free_inputs [OF assms(2)] assms(4,5,6)] r(1) by simp
  then show ?thesis
    using commit_fault_free [OF assms(2) r(3), of r now m closedAt closedBy] assms(3,4) r(2) by auto
qed

lemma sample_in_force: "in_force sample_ledger ''2026-02'' p \<longleftrightarrow> p = sample_program"
  by (auto simp: in_force_def sample_program_def Month_Before_def)

lemma sample_carry: "carry_of sample_ledger ''2026-02'' 0"
  by (simp add: carry_of_def Month_Prev_valid month_eval)

lemma sample_active_fit:
  "ActiveCredits (approved_awards sample_ledger) ''2026-02'' = Ok credits \<Longrightarrow> credits_fit credits"
proof -
  have "approved_awards sample_ledger = [sample_award]"
    by (simp add: approved_awards_def sample_award_def)
  moreover have "ActiveCredits [sample_award] ''2026-02'' = Ok sample_credits"
    by (simp add: month_eval ActiveCredits_def sample_award_def Award_Validate_def Validate_eq
        Month_Before_def Award_ActiveIn_def add_to_def get0_def sample_credits_def)
  ultimately show "ActiveCredits (approved_awards sample_ledger) ''2026-02'' = Ok credits \<Longrightarrow> credits_fit credits"
    using sample_credits_fit(1) by simp
qed

theorem close_round_succeeds_witness:
  "is_ok (fst (CloseRound zeroTime ''2026-02'' sample_closing ''op'' sample_ledger))"
proof -
  have "x \<in> set (month_receipts sample_ledger ''2026-02'') \<Longrightarrow> rcpt_Currency x = prog_Currency sample_program" for x
    by (simp add: month_receipts_def sample_receipt_def sample_program_def)
  then show ?thesis
    using close_round_succeeds [OF sample_inv sample_fault_free _ _ sample_month_end sample_not_ended
        sample_in_force [THEN iffD2, OF refl] sample_carry _ sample_active_fit, of zeroTime "''op''"]
    by (fastforce simp: sample_in_force month_eval)
qed

section \<open>Retrying a close\<close>

text \<open>A close that fails to store its round leaves the rounds as they were.\<close>

lemma CreateRound_docs:
  "lookup (snd (CreateRound now r s)) (rd_Month r) = None \<Longrightarrow> docs (snd (CreateRound now r s)) = docs s"
proof -
  have "docs s' = docs s \<or> lookup s' k \<noteq> None" if "doc_Create stamp k d s = (x, s')" for stamp k d x s'
    using that by (auto simp: doc_Create_def lookup_pop_fault split: prod.splits fault.splits if_splits dest: pop_fault_docs)
  from this [where stamp = "stamp_round now" and k = "rd_Month r" and d = r]
  show "lookup (snd (CreateRound now r s)) (rd_Month r) = None \<Longrightarrow> docs (snd (CreateRound now r s)) = docs s"
    by (cases "doc_Create (stamp_round now) (rd_Month r) r s")
      (auto simp: CreateRound_def act_bind_lift Validate_eq split: if_splits)
qed

text \<open>After any attempt the month is closed with the computed round or the computation is unchanged.\<close>

lemma close_attempt:
  assumes "CloseRound now m closedAt closedBy l = (res, l')" and "assembled m l = Ok (r, obs)"
    and "lookup (ld_Rounds l) m = None"
  shows "lookup (ld_Rounds l') m = Some (stamp_round now (closed_round closedAt closedBy r)) \<or>
    lookup (ld_Rounds l') m = None \<and> assembled m l' = assembled m l"
  using assms(1)
proof (cases rule: CloseRound_cases)
  case refused
  then show ?thesis using assms(3) same_docs_lookup same_docs_assembled by metis
next
  case (ready r' obs' l1)
  have eq: "r' = r" "obs' = obs" using ready(2) assms(2) by (auto simp: ready_to_close_def)
  have open1: "lookup (ld_Rounds l1) m = None" "assembled m l1 = assembled m l"
    using ready(1) assms(3) same_docs_lookup same_docs_assembled by metis+
  have inputs: "assembled m (snd (persist_obligations now m closedAt obs l1)) = assembled m l1"
    by (rule assembled_cong) simp_all
  show ?thesis using ready(3)
  proof (cases rule: commit_round_cases)
    case persisting
    then show ?thesis using open1 inputs eq by simp
  next
    case (commit l2)
    let ?r = "closed_round closedAt closedBy r"
    have p: "snd (persist_obligations now m closedAt obs l1) = l2" using commit(1) eq by simp
    have r2: "ld_Rounds l2 = ld_Rounds l1" using persist_frame(5) [of now m closedAt obs l1] p by simp
    have l': "l' = snd (on_Rounds (CreateRound now ?r) l2)" using commit(2) eq by simp
    have m: "rd_Month ?r = m" using ready_round(2) [OF ready(2)] eq by simp
    show ?thesis
    proof (cases "lookup (ld_Rounds l') m")
      case None
      then have "docs (ld_Rounds l') = docs (ld_Rounds l2)"
        using CreateRound_docs [of now ?r "ld_Rounds l2"] l' m by simp
      then have "same_docs l' l2" using l' by (simp add: same_docs_def)
      then have "assembled m l' = assembled m l"
        using same_docs_assembled [of l' l2 m] inputs p open1(2) by simp
      then show ?thesis using None by blast
    next
      case (Some d)
      then show ?thesis
        using rounds.create_adds [of now ?r "ld_Rounds l2" m d] l' r2 open1(1) by simp
    qed
  qed
qed

lemma persist_Ok_valid:
  "fst (persist_obligations now m t obs l) = Ok u \<Longrightarrow> \<forall>b \<in> set obs. valid_month (ob_Month b) \<and> ob_Account b \<noteq> ''''"
proof (induction obs arbitrary: l)
  case (Cons b obs)
  let ?b = "opened_obligation m t b"
  let ?x = "fst (CreateObligation now ?b (ld_Obligations l))"
  have acc: "is_ok ?x \<or> ?x = Err ErrAlreadyExists"
    and "fst (persist_obligations now m t obs (snd (on_Obligations (CreateObligation now ?b) l))) = Ok u"
    using Cons.prems by (auto simp: persist_Cons Let_def outcome_simps split: if_splits)
  moreover have "valid_month (ob_Month b) \<and> ob_Account b \<noteq> ''''"
    using acc by (auto simp: CreateObligation_def act_bind_lift Validate_eq split: if_splits)
  ultimately show ?case using Cons.IH by auto
qed simp

text \<open>What a successful close says about the stores it started from.\<close>

lemma CloseRound_started:
  assumes "CloseRound now m closedAt closedBy l = (Ok r, l')"
  obtains r0 obs t where "assembled m l = Ok (r0, obs)" "lookup (ld_Rounds l) m = None"
    "andThen (Month_Next m) Month_Time = (Ok t :: gotime cresult)" "\<not> closedAt < t"
    "r = closed_round closedAt closedBy r0" "valid_month m" "rd_Month r0 = m"
    "\<forall>b \<in> set obs. valid_month (ob_Month b) \<and> ob_Account b \<noteq> ''''"
  using assms
proof (cases rule: CloseRound_cases)
  case (ready r0 obs l1)
  note start = ready_round(1,2,4) [OF ready(2)] ready(2) [unfolded ready_to_close_def]
  show ?thesis using ready(3)
  proof (cases rule: commit_round_cases)
    case (commit l2)
    have "\<forall>b \<in> set obs. valid_month (ob_Month b) \<and> ob_Account b \<noteq> ''''"
      using persist_Ok_valid [of now m closedAt obs l1 "()"] commit(1) by simp
    then show ?thesis using start commit(4) [OF refl] that by blast
  qed simp
qed simp

text \<open>
  C9 (close_is_retryable). A close that would succeed can be retried after any attempt whose stores
  failed: either the failed attempt has committed the very round, or closing again without failures
  commits it.
\<close>

theorem close_is_retryable:
  assumes "CloseRound now m closedAt closedBy l0 = (Ok r, l0')"
    and "same_docs l l0" and "CloseRound now' m closedAt closedBy l = (res, l1)"
    and "fault_free l2" and "same_docs l2 l1"
  shows "lookup (ld_Rounds l1) m = Some (stamp_round now' r) \<or>
    (\<exists>l3. CloseRound now'' m closedAt closedBy l2 = (Ok r, l3) \<and>
       lookup (ld_Rounds l3) m = Some (stamp_round now'' r))"
proof (rule CloseRound_started [OF assms(1)])
  fix r0 obs t
  assume start: "assembled m l0 = Ok (r0, obs)" "lookup (ld_Rounds l0) m = None"
    "andThen (Month_Next m) Month_Time = (Ok t :: gotime cresult)" "\<not> closedAt < t"
    "r = closed_round closedAt closedBy r0" "valid_month m" "rd_Month r0 = m"
    "\<forall>b \<in> set obs. valid_month (ob_Month b) \<and> ob_Account b \<noteq> ''''"
  have "assembled m l = Ok (r0, obs)" "lookup (ld_Rounds l) m = None"
    using start(1,2) assms(2) same_docs_lookup same_docs_assembled by metis+
  from close_attempt [OF assms(3) this] show ?thesis
  proof
    assume "lookup (ld_Rounds l1) m = None \<and> assembled m l1 = assembled m l"
    then have l2: "lookup (ld_Rounds l2) m = None" "assembled m l2 = Ok (r0, obs)"
      using \<open>assembled m l = _\<close> assms(5) same_docs_lookup same_docs_assembled by metis+
    then have "CloseRound now'' m closedAt closedBy l2 = commit_round now'' m closedAt closedBy r0 obs l2"
      using CloseRound_fault_free [OF fault_free_inputs [OF assms(4)] _ start(3,4)] by simp
    then show ?thesis
      using commit_fault_free [OF assms(4) start(8), of r0 now'' m closedAt closedBy] start(5,6,7) l2(1) by auto
  qed (simp add: start(5))
qed

definition flaky_ledger :: ledger where
  "flaky_ledger = sample_ledger\<lparr>ld_Obligations := \<lparr>docs = [], faults = [NoFault, FailBefore ''timeout'']\<rparr>\<rparr>"

theorem close_is_retryable_witness:
  "\<exists>res l1 r. CloseRound zeroTime ''2026-02'' sample_closing ''op'' flaky_ledger = (res, l1) \<and>
     (\<forall>l2. fault_free l2 \<and> same_docs l2 l1 \<longrightarrow>
        lookup (ld_Rounds l1) ''2026-02'' = Some (stamp_round zeroTime r) \<or>
        (\<exists>l3. CloseRound zeroTime ''2026-02'' sample_closing ''op'' l2 = (Ok r, l3)))"
proof -
  obtain l' where c: "CloseRound zeroTime ''2026-02'' sample_closing ''op'' sample_ledger =
      (Ok (closed_round sample_closing ''op'' sample_round), l')"
    by (rule sample_close)
  have same: "same_docs flaky_ledger sample_ledger" by (simp add: same_docs_def flaky_ledger_def)
  obtain res l1 where run: "CloseRound zeroTime ''2026-02'' sample_closing ''op'' flaky_ledger = (res, l1)" by fastforce
  show ?thesis using close_is_retryable [OF c same run] run by blast
qed

end
