(* ===== verification/LedgerAdmin.thy ===== *)
theory LedgerAdmin
  imports LedgerClaims
begin

text \<open>
  Properties of the administrative operations, and two histories in which closing a round departs from
  its comments.
\<close>

section \<open>Importing receipts\<close>

lemma CreateReceipt_no_fault:
  assumes "faults s = []"
  shows "CreateReceipt now r s =
    (if Receipt_Validate r \<noteq> Ok () then (Receipt_Validate r, s)
     else if lookup s (rcpt_Source r) \<noteq> None then (Err ErrAlreadyExists, s)
     else (Ok (), put (rcpt_Source r) (stamp_receipt now r) s))"
  using assms by (auto simp: CreateReceipt_def act_bind_lift doc_Create_no_fault split: outcome.splits)

text \<open>What an import that reports no error has left behind, whatever calls might have failed.\<close>

lemma import_Ok:
  assumes "import_loop now i d rs l = ((i', d', Ok u), l')"
  shows "i' + d' = i + d + length rs" and "r \<in> set rs \<Longrightarrow> Receipt_Validate r = Ok ()"
    and "r \<in> set rs \<Longrightarrow> lookup (ld_Receipts l') (rcpt_Source r) \<noteq> None"
proof -
  have "i' + d' = i + d + length rs \<and>
    (\<forall>r \<in> set rs. Receipt_Validate r = Ok () \<and> lookup (ld_Receipts l') (rcpt_Source r) \<noteq> None)"
    using assms
  proof (induction rs arbitrary: i d l)
    case (Cons x rs)
    let ?x = "fst (CreateReceipt now x (ld_Receipts l))"
    let ?l = "snd (on_Receipts (CreateReceipt now x) l)"
    have acc: "is_ok ?x \<or> ?x = Err ErrAlreadyExists"
      using Cons.prems by (auto simp: import_Cons Let_def outcome_simps split: if_splits)
    define i1 where "i1 = (if is_ok ?x then i + 1 else i)"
    define d1 where "d1 = (if is_ok ?x then d else d + 1)"
    have step: "i1 + d1 = i + d + 1" "is_ok ?x \<or> ?x = Err ErrAlreadyExists"
      using acc by (auto simp: i1_def d1_def)
    have run: "import_loop now i1 d1 rs ?l = ((i', d', Ok u), l')"
      using Cons.prems acc by (auto simp: import_Cons Let_def i1_def d1_def)
    have valid: "Receipt_Validate x = Ok ()"
      using step(2) by (auto simp: CreateReceipt_def act_bind_lift split: outcome.splits)
    have "lookup (ld_Receipts ?l) (rcpt_Source x) \<noteq> None"
      using step(2) receipts.create_accepted [of now x "ld_Receipts l"] by (auto simp: is_ok_iff)
    then have "lookup (ld_Receipts l') (rcpt_Source x) \<noteq> None"
      using import_keeps [of ?l "rcpt_Source x" _ now i1 d1 rs] run by fastforce
    then show ?case using Cons.IH [OF run] step(1) valid by simp
  qed simp
  then show "i' + d' = i + d + length rs" and "r \<in> set rs \<Longrightarrow> Receipt_Validate r = Ok ()"
    and "r \<in> set rs \<Longrightarrow> lookup (ld_Receipts l') (rcpt_Source r) \<noteq> None"
    by auto
qed

lemma import_present:
  "faults (ld_Receipts l) = [] \<Longrightarrow>
   \<forall>r \<in> set rs. Receipt_Validate r = Ok () \<and> lookup (ld_Receipts l) (rcpt_Source r) \<noteq> None \<Longrightarrow>
   import_loop now i d rs l = ((i, d + length rs, Ok ()), l)"
proof (induction rs arbitrary: d)
  case (Cons r rs)
  then have "CreateReceipt now r (ld_Receipts l) = (Err ErrAlreadyExists, ld_Receipts l)"
    by (auto simp: CreateReceipt_no_fault)
  then show ?case using Cons by (simp add: import_Cons)
qed simp

text \<open>
  An import that succeeds accounts for every receipt of the batch, and
  importing the batch again, after any number of other operations, creates nothing, counts every
  receipt as a duplicate and leaves the ledger as it is.
\<close>

theorem import_idempotent:
  assumes "ImportReceipts now rs l = ((imported, duplicates, Ok u), l1)"
    and "ledger_steps l1 l2" and "faults (ld_Receipts l2) = []"
  shows "imported + duplicates = length rs \<and> ImportReceipts now' rs l2 = ((0, length rs, Ok ()), l2)"
proof -
  note first = import_Ok [OF assms(1) [unfolded ImportReceipts_def]]
  have "lookup (ld_Receipts l2) (rcpt_Source r) \<noteq> None" if "r \<in> set rs" for r
    using assms(2) first(3) [OF that] by (induction rule: rtranclp_induct) (auto dest: step_keeps_receipt)
  then show ?thesis using first import_present [of l2 rs now' 0 0] assms(3) by (simp add: ImportReceipts_def)
qed

theorem import_idempotent_witness:
  "ImportReceipts zeroTime [sample_receipt] sample_ledger = ((0, 1, Ok ()), sample_ledger)"
proof -
  have "Receipt_Validate sample_receipt = Ok ()"
    by (simp add: sample_receipt_def Receipt_Validate_def Validate_eq month_eval)
  then have "ImportReceipts zeroTime [sample_receipt] sample_ledger = ((0, 1, Ok ()), sample_ledger)"
    using import_present [of sample_ledger "[sample_receipt]" zeroTime 0 0]
    by (simp add: ImportReceipts_def sample_receipt_def)
  from import_idempotent [OF this rtranclp.rtrancl_refl, of zeroTime] show ?thesis by simp
qed

section \<open>Proposing an award\<close>

lemma accounts_by_handle_member:
  "map_of (accounts_by_handle ps) h = Some acc \<Longrightarrow> \<exists>p \<in> set ps. ToLower (part_GitHubHandle p) = h \<and> part_Account p = acc"
proof -
  have "map_of (foldl (\<lambda>acc p. AList.update (ToLower (part_GitHubHandle p)) (part_Account p) acc) m ps) h = Some acc \<Longrightarrow>
    map_of m h = Some acc \<or> (\<exists>p \<in> set ps. ToLower (part_GitHubHandle p) = h \<and> part_Account p = acc)" for m
    by (induction ps arbitrary: m) (fastforce simp: update_conv' split: if_splits)+
  then show "map_of (accounts_by_handle ps) h = Some acc \<Longrightarrow> ?thesis"
    by (fastforce simp: accounts_by_handle_def)
qed

lemma resolve_loop_Ok:
  "resolve_loop accounts hs = Ok ss \<longleftrightarrow>
     list_all2 (\<lambda>h s. map_of accounts (ToLower (hs_GitHubHandle h)) = Some (split_Account s) \<and>
       split_Credits s = hs_Credits h) hs ss"
  by (induction accounts hs arbitrary: ss rule: resolve_loop.induct)
    (auto simp: outcome_simps list_all2_Cons1 split: option.splits)

lemma resolveSplits_Ok:
  assumes "fst (resolveSplits hs l) = Ok ss"
  shows "list_all2 (\<lambda>h s. split_Credits s = hs_Credits h \<and> (\<exists>t \<in> snd ` set (docs (ld_Participants l)).
      ToLower (part_GitHubHandle t) = ToLower (hs_GitHubHandle h) \<and> part_Account t = split_Account s)) hs ss"
proof -
  obtain ps where ps: "fst (ListParticipants (ld_Participants l)) = Ok ps"
    and r: "resolve_loop (accounts_by_handle ps) hs = Ok ss"
    using assms by (auto simp: resolveSplits_def outcome_simps)
  have "set ps = snd ` set (docs (ld_Participants l))"
    using listDocuments_Ok [of "\<lambda>_. True" "ld_Participants l" ps] ps by (simp add: ListParticipants_def)
  then show ?thesis using r unfolding resolve_loop_Ok
    by (elim list_all2_mono) (auto dest!: accounts_by_handle_member)
qed

text \<open>
  A proposal that succeeds stores, under its fresh identifier, a proposed
  award on the terms of the program in force in its activation month: that program's version and the
  expiration it derives, and for each requested split the account of an enrolled participant with that
  handle, whatever its case. Nothing else in the awards changes.
\<close>

theorem propose_award_terms:
  assumes "ProposeAward now uuid req l = (Ok i, l')"
  shows "i = uuid \<and> lookup (ld_Awards l) uuid = None \<and>
    (\<exists>p expiration ss. in_force l (pr_Activation req) p \<and>
       Program_ExpirationMonth p (pr_Activation req) = Ok expiration \<and>
       list_all2 (\<lambda>h s. split_Credits s = hs_Credits h \<and> (\<exists>t \<in> snd ` set (docs (ld_Participants l)).
         ToLower (part_GitHubHandle t) = ToLower (hs_GitHubHandle h) \<and> part_Account t = split_Account s))
         (pr_Splits req) ss \<and>
       lookup (ld_Awards l') = (lookup (ld_Awards l))(uuid \<mapsto>
         stamp_award now ((proposed_award req ss expiration (prog_Version p) now)\<lparr>aw_ID := uuid\<rparr>)))"
proof -
  let ?P = "on_Programs (ProgramFor (pr_Activation req))"
  obtain g l1 where g: "?P l = (g, l1)" by fastforce
  then have "same_docs (snd (?P l)) l" using reads_only_simps(3) [of "pr_Activation req"] unfolding reads_only_def by blast
  then have same1: "same_docs l1 l" unfolding g by simp
  have ok: "fst (ProposeAward now uuid req l) = Ok i" "snd (ProposeAward now uuid req l) = l'" using assms by simp_all
  obtain p where p: "g = Ok p"
    using ok(1) g by (cases g) (auto simp: ProposeAward_def outcome_simps split: if_splits)
  have "fst (ProgramFor (pr_Activation req) (ld_Programs l)) = Ok p" using g p by (metis fst_conv on_store_simps(1))
  from select_program_Some [OF ProgramFor_selects [OF this]]
  have force: "in_force l (pr_Activation req) p" by (auto simp: in_force_def)
  obtain rs l2 where rs: "resolveSplits (pr_Splits req) l1 = (rs, l2)" by fastforce
  have "same_docs (snd (resolveSplits (pr_Splits req) l1)) l1"
    using reads_only_resolve [of "pr_Splits req"] by (simp add: reads_only_def)
  then have same2: "same_docs l2 l" unfolding rs using same1 by (auto intro: same_docs_trans)
  have run: "(Ok i, l') = act_bind (resolveSplits (pr_Splits req)) (\<lambda>splits.
      act_bind (act_lift (Program_ExpirationMonth p (pr_Activation req))) (\<lambda>expiration.
        on_Awards (CreateAward now uuid (proposed_award req splits expiration (prog_Version p) now)))) l1"
    using assms g p by (auto simp: ProposeAward_def act_bind_lift Validate_eq split: if_splits)
  obtain ss where ss: "rs = Ok ss" using run rs by (cases rs) (auto simp: act_bind_step)
  obtain e where e: "Program_ExpirationMonth p (pr_Activation req) = Ok e"
    using run rs ss by (cases "Program_ExpirationMonth p (pr_Activation req)") (auto simp: act_bind_step act_bind_lift)
  let ?a = "proposed_award req ss e (prog_Version p) now"
  have create: "(Ok i, l') = on_Awards (CreateAward now uuid ?a) l2"
    using run rs ss e by (simp add: act_bind_step act_bind_lift)
  then have c: "CreateAward now uuid ?a (ld_Awards l2) = (Ok i, ld_Awards l')"
    by (simp add: on_store_defs prod_eq_iff case_prod_beta)
  have "i = uuid" using c
    by (auto simp: CreateAward_def Let_def act_bind_lift act_bind_def split: if_splits outcome.splits prod.splits)
  moreover have "lookup (ld_Awards l2) uuid = None \<and> lookup (ld_Awards l') = (lookup (ld_Awards l2))(uuid \<mapsto>
      stamp_award now (?a\<lparr>aw_ID := uuid\<rparr>))"
    using new_awards.create_Ok [of now "(uuid, ?a)" "ld_Awards l2" i "ld_Awards l'"] c by simp
  moreover have "fst (resolveSplits (pr_Splits req) l1) = Ok ss" using rs ss by simp
  from resolveSplits_Ok [OF this] have "list_all2 (\<lambda>h s. split_Credits s = hs_Credits h \<and>
      (\<exists>t \<in> snd ` set (docs (ld_Participants l)).
         ToLower (part_GitHubHandle t) = ToLower (hs_GitHubHandle h) \<and> part_Account t = split_Account s)) (pr_Splits req) ss"
    using same1 by (simp add: same_docs_def)
  moreover have "lookup (ld_Awards l2) = lookup (ld_Awards l)" using same_docs_lookup [OF same2] by simp
  ultimately show ?thesis using force e by (intro conjI exI [of _ p] exI [of _ e] exI [of _ ss]) simp_all
qed

definition sample_member :: participant where
  "sample_member = \<lparr>part_Account = ''bob'', part_GitHubHandle = ''Bob'', part_AgreementVersion = ''1'',
     part_AgreementAcceptedAt = zeroTime, part_AgreementEvidence = '''', part_Status = ParticipantEligible,
     part_PayoutProviderRef = '''', part_PayoutReady = False, part_CreatedAt = zeroTime, part_UpdatedAt = zeroTime\<rparr>"

definition enrolled_ledger :: ledger where
  "enrolled_ledger = sample_ledger\<lparr>ld_Participants := docs_only [(''bob'', sample_member)]\<rparr>"

definition sample_request :: propose_request where
  "sample_request = \<lparr>pr_Splits = [\<lparr>hs_GitHubHandle = ''BOB'', hs_Credits = 5\<rparr>], pr_Activation = ''2026-02'',
     pr_Evidence = [''pr''], pr_Description = '''', pr_ProposedBy = ''op''\<rparr>"

lemma sample_expiration: "Program_ExpirationMonth sample_program ''2026-02'' = Ok ''2027-02''"
proof -
  have "(Month_Add ''2026-02'' 12 :: month cresult) = Ok ''2027-02''" by code_simp
  then show ?thesis by (simp add: Program_ExpirationMonth_def sample_program_def)
qed

lemma sample_resolve: "resolveSplits (pr_Splits sample_request) enrolled_ledger =
    (Ok [\<lparr>split_Account = ''bob'', split_Credits = 5\<rparr>], enrolled_ledger)"
proof -
  have "ToLower ''Bob'' = ToLower ''BOB''" by code_simp
  then show ?thesis
    by (simp add: resolveSplits_def ListParticipants_def act_bind_def on_store_defs listDocuments_no_fault
        enrolled_ledger_def sample_request_def sample_member_def accounts_by_handle_def act_lift_def)
qed

lemma sample_propose: "\<exists>l'. ProposeAward zeroTime ''u1'' sample_request enrolled_ledger = (Ok ''u1'', l')"
proof -
  let ?a = "proposed_award sample_request [\<lparr>split_Account = ''bob'', split_Credits = 5\<rparr>] ''2027-02'' ''v1'' zeroTime"
  have act: "pr_Activation sample_request = ''2026-02''" by (simp add: sample_request_def)
  have "on_Programs (ProgramFor ''2026-02'') enrolled_ledger = (Ok sample_program, enrolled_ledger)"
    by (simp add: on_store_defs ProgramFor_no_fault enrolled_ledger_def sample_program_def Month_Before_def)
  moreover have "prog_Version sample_program = ''v1''" by (simp add: sample_program_def)
  moreover have "Award_Validate (?a\<lparr>aw_ID := ''u1''\<rparr>) = Ok ()"
    by (simp add: proposed_award_def sample_request_def Award_Validate_def Validate_eq month_eval Month_Before_def)
  then have "\<exists>l'. on_Awards (CreateAward zeroTime ''u1'' ?a) enrolled_ledger = (Ok ''u1'', l')"
    by (simp add: on_store_defs CreateAward_def Let_def act_bind_lift act_bind_def doc_Create_no_fault act_lift_def
        enrolled_ledger_def proposed_award_def)
  moreover have "valid_month ''2026-02''" by (simp add: month_eval)
  ultimately show ?thesis
    by (simp add: ProposeAward_def act act_bind_lift Validate_eq act_bind_step(1) [where m = "resolveSplits (pr_Splits sample_request)" and s = enrolled_ledger, OF sample_resolve] sample_expiration)
qed

theorem propose_award_terms_witness:
  "\<exists>l' a. ProposeAward zeroTime ''u1'' sample_request enrolled_ledger = (Ok ''u1'', l') \<and>
     lookup (ld_Awards l') ''u1'' = Some a"
proof -
  obtain l' where "ProposeAward zeroTime ''u1'' sample_request enrolled_ledger = (Ok ''u1'', l')"
    using sample_propose by blast
  then show ?thesis using propose_award_terms [of zeroTime "''u1''" sample_request enrolled_ledger "''u1''" l'] by auto
qed

section \<open>Closing out of order\<close>

text \<open>Closing a month whose round has no obligations, as an equation.\<close>

lemma CloseRound_no_obligations:
  assumes "inputs_fault_free l" "lookup (ld_Rounds l) m = None"
    and "andThen (Month_Next m) Month_Time = (Ok t :: gotime cresult)" "\<not> closedAt < t"
    and "assembled m l = Ok (r, [])" "rd_Month r = m" "valid_month m"
  shows "CloseRound now m closedAt closedBy l = (Ok (closed_round closedAt closedBy r),
    l\<lparr>ld_Rounds := put m (stamp_round now (closed_round closedAt closedBy r)) (ld_Rounds l)\<rparr>)"
proof -
  have "on_Rounds (CreateRound now (closed_round closedAt closedBy r)) l =
      (Ok (), l\<lparr>ld_Rounds := put m (stamp_round now (closed_round closedAt closedBy r)) (ld_Rounds l)\<rparr>)"
    using assms by (simp add: inputs_fault_free_def on_store_defs CreateRound_def act_bind_lift Validate_eq
        doc_Create_no_fault)
  then show ?thesis
    using CloseRound_fault_free [OF assms(1-4), of now closedBy] assms(5)
    by (simp add: commit_round_def Let_def act_bind_def closed_round_def [symmetric] act_lift_def)
qed

lemma ComputeRound_no_awards:
  assumes "Program_Validate p = Ok ()" "prog_CalculationVersion p = CalculationVersion" "valid_month m"
    and "\<not> Month_Before m (prog_EffectiveFrom p)" "sum_receipts p m 0 receipts = Ok net"
  shows "ComputeRound p m receipts [] c =
    Ok (make_round p m net c (c + PoolShareCents (prog_PoolBps p) net) 0 [], [])"
proof -
  obtain due where "DueDate p m = Ok due" by (simp add: DueDate_def Let_def Month_Time_valid [OF assms(3)])
  moreover have "ActiveCredits [] m = Ok []" by (simp add: ActiveCredits_def)
  moreover have "Allocate (if sint x < 0 then 0 else x) [] = Ok []" for x by (simp add: Allocate_eq credit_sum_def)
  ultimately show ?thesis
    unfolding ComputeRound_Ok_iff using assms
    by (intro conjI exI [of _ net] exI [of _ "[]"] exI [of _ due]) (simp_all add: credit_sum_def)
qed

definition no_awards_ledger :: ledger where
  "no_awards_ledger = sample_ledger\<lparr>ld_Awards := docs_only []\<rparr>"

lemma sample_program_ok: "Program_Validate sample_program = Ok ()" "prog_CalculationVersion sample_program = CalculationVersion"
  "prog_EffectiveFrom sample_program = ''2026-01''"
  by (simp_all add: sample_program_def Program_Validate_Ok_iff CalculationVersion_def month_eval)

definition march_round :: round where
  "march_round = make_round sample_program ''2026-03'' 0 0 0 0 []"

definition february_round :: round where
  "february_round = make_round sample_program ''2026-02'' 500 0 100 0 []"

lemma march_assembled: "assembled ''2026-03'' no_awards_ledger = Ok (march_round, [])"
proof -
  have "carry_result ''2026-03'' no_awards_ledger = Ok 0"
    by (simp add: carry_result_def Month_Prev_valid month_eval no_awards_ledger_def)
  moreover have "month_receipts no_awards_ledger ''2026-03'' = []"
    by (simp add: month_receipts_def sample_receipt_def no_awards_ledger_def)
  moreover have "PoolShareCents (prog_PoolBps sample_program) 0 = 0" by code_simp
  ultimately show ?thesis
    using ComputeRound_no_awards [OF sample_program_ok(1,2), of "''2026-03''" "[]" 0 0]
    by (simp add: assembled_def Validate_eq month_eval approved_awards_def no_awards_ledger_def
        sample_program_ok(3) Month_Before_def march_round_def)
qed

text \<open>
  Against its comment, closing out of order is not rejected: with February and
  March open, March closes first with nothing carried into it, February closes after it, and
  the 100 cents February leaves unallocated are in no later round.
\<close>

theorem close_out_of_order:
  "\<exists>l1 l2 r1 r2.
     CloseRound zeroTime ''2026-03'' (GoTime 2026 4 2 0) ''op'' no_awards_ledger = (Ok r1, l1) \<and>
     CloseRound zeroTime ''2026-02'' (GoTime 2026 4 2 0) ''op'' l1 = (Ok r2, l2) \<and>
     rd_UnallocatedCents r2 = 100 \<and> rd_CarryforwardCents r1 = 0 \<and>
     lookup (ld_Rounds l2) ''2026-03'' = Some (stamp_round zeroTime r1)"
proof -
  let ?t = "GoTime 2026 4 2 0"
  let ?r1 = "closed_round ?t ''op'' march_round"
  let ?l1 = "no_awards_ledger\<lparr>ld_Rounds := put ''2026-03'' (stamp_round zeroTime ?r1) (ld_Rounds no_awards_ledger)\<rparr>"
  have march_end: "andThen (Month_Next ''2026-03'') Month_Time = (Ok (GoTime 2026 4 1 0) :: gotime cresult)"
    and late: "\<not> ?t < GoTime 2026 4 1 0" "\<not> ?t < GoTime 2026 3 1 0"
    by code_simp+
  have c1: "CloseRound zeroTime ''2026-03'' ?t ''op'' no_awards_ledger = (Ok ?r1, ?l1)"
    by (rule CloseRound_no_obligations [OF _ _ march_end late(1) march_assembled])
      (simp_all add: inputs_fault_free_def no_awards_ledger_def march_round_def month_eval)
  have prev: "(Month_Prev ''2026-02'' :: month cresult) = Ok ''2026-01''" by code_simp
  have "docs (put k d s) = AList.update k d (docs s)" for k and d :: round and s by (simp add: put_def)
  then have "carry_result ''2026-02'' ?l1 = Ok 0"
    by (simp add: carry_result_def prev no_awards_ledger_def march_round_def Month_Before_def)
  moreover have "month_receipts ?l1 ''2026-02'' = [sample_receipt]"
    by (simp add: month_receipts_def sample_receipt_def no_awards_ledger_def)
  moreover have "sum_receipts sample_program ''2026-02'' 0 [sample_receipt] = Ok 500"
    by (simp add: month_eval sample_receipt_def sample_program_def Receipt_Validate_def Validate_eq
        Receipt_NetCents_def)
  moreover have "0 + PoolShareCents (prog_PoolBps sample_program) 500 = 100" by code_simp
  ultimately have "assembled ''2026-02'' ?l1 = Ok (february_round, [])"
    using ComputeRound_no_awards [OF sample_program_ok(1,2), of "''2026-02''" "[sample_receipt]" 500 0]
    by (simp add: assembled_def Validate_eq month_eval approved_awards_def no_awards_ledger_def
        sample_program_ok(3) Month_Before_def february_round_def)
  from CloseRound_no_obligations [OF _ _ sample_month_end late(2) this, of zeroTime "''op''"]
  obtain l2 where c2: "CloseRound zeroTime ''2026-02'' ?t ''op'' ?l1 = (Ok (closed_round ?t ''op'' february_round), l2)"
    "ld_Rounds l2 = put ''2026-02'' (stamp_round zeroTime (closed_round ?t ''op'' february_round)) (ld_Rounds ?l1)"
    by (simp add: inputs_fault_free_def no_awards_ledger_def february_round_def month_eval)
  have "rd_UnallocatedCents (closed_round ?t ''op'' february_round) = 100" "rd_CarryforwardCents ?r1 = 0"
    by (simp_all add: february_round_def march_round_def closed_round_def amount_sum_def make_round_def Let_def
        Round_AllocatedCents_def)
  then show ?thesis using c1 c2 by (intro exI conjI) (assumption | simp)+
qed

section \<open>Retrying with changed inputs\<close>

lemma commit_keeps_obligation:
  assumes "lookup (ld_Obligations l) k = Some b"
  shows "lookup (ld_Obligations (snd (commit_round now m t c r obs l))) k = Some b"
proof -
  obtain res l' where run: "commit_round now m t c r obs l = (res, l')" by fastforce
  then show ?thesis
  proof (cases rule: commit_round_cases)
    case persisting
    then show ?thesis using run persist_keeps [OF assms] by simp
  next
    case (commit l2)
    then show ?thesis using run persist_keeps [OF assms, of now m t obs] by simp
  qed
qed

definition late_receipt :: receipt where
  "late_receipt = sample_receipt\<lparr>rcpt_Source := ''inv-2'', rcpt_Adjustments := []\<rparr>"

definition late_entitlements :: "entitlement list" where
  "late_entitlements =
     [\<lparr>ent_Account = ''ann'', ent_Credits = 1, ent_AmountCents = 100\<rparr>,
      \<lparr>ent_Account = ''bob'', ent_Credits = 2, ent_AmountCents = 200\<rparr>]"

definition late_round :: round where
  "late_round = make_round sample_program ''2026-02'' 1500 0 300 3 late_entitlements"

definition late_obligations :: "obligation list" where
  "late_obligations = map (obligation_of sample_program ''2026-02'' (GoTime 2026 5 1 0)) late_entitlements"

lemma late_compute:
  "ComputeRound sample_program ''2026-02'' [sample_receipt, late_receipt] [sample_award] 0 =
     Ok (late_round, late_obligations)"
proof -
  have "\<not> Month_Before ''2026-02'' (prog_EffectiveFrom sample_program)" "valid_month ''2026-02''"
    by (simp_all add: sample_program_ok(3) Month_Before_def month_eval)
  moreover have "sum_receipts sample_program ''2026-02'' 0 [sample_receipt, late_receipt] = Ok 1500"
    by (simp add: month_eval sample_receipt_def late_receipt_def sample_program_def Receipt_Validate_def Validate_eq
        Receipt_NetCents_def)
  moreover have "ActiveCredits [sample_award] ''2026-02'' = Ok sample_credits"
    by (simp add: month_eval ActiveCredits_def sample_award_def Award_Validate_def Validate_eq
        Month_Before_def Award_ActiveIn_def add_to_def get0_def sample_credits_def)
  moreover have "0 + PoolShareCents (prog_PoolBps sample_program) 1500 = 300" by code_simp
  moreover have "Allocate 300 sample_credits = Ok late_entitlements" by code_simp
  moreover have "credit_sum sample_credits = 3" by (simp add: sample_credits_def credit_sum_def)
  ultimately show ?thesis
    using sample_due sample_program_ok(1,2) unfolding ComputeRound_Ok_iff late_round_def late_obligations_def
    by (intro conjI exI [of _ 1500] exI [of _ sample_credits] exI [of _ late_entitlements]
        exI [of _ "GoTime 2026 5 1 0"]) (auto simp: late_entitlements_def)
qed

definition opened_ann :: obligation where
  "opened_ann = stamp_obligation zeroTime (opened_obligation ''2026-02'' sample_closing (hd sample_obligations))"

definition interrupted_ledger :: ledger where
  "interrupted_ledger = sample_ledger\<lparr>ld_Obligations := docs_only [(''2026-02:ann'', opened_ann)]\<rparr>"

text \<open>The first close stores one obligation, then the store fails.\<close>

lemma interrupted_close:
  "\<exists>e. CloseRound zeroTime ''2026-02'' sample_closing ''op'' flaky_ledger = (Err e, interrupted_ledger)"
proof -
  have "assembled ''2026-02'' flaky_ledger = Ok (sample_round, sample_obligations)"
    using sample_assembled same_docs_assembled [of flaky_ledger sample_ledger] by (simp add: same_docs_def flaky_ledger_def)
  then have run: "CloseRound zeroTime ''2026-02'' sample_closing ''op'' flaky_ledger =
      commit_round zeroTime ''2026-02'' sample_closing ''op'' sample_round sample_obligations flaky_ledger"
    using CloseRound_fault_free [OF _ _ sample_month_end sample_not_ended, of flaky_ledger zeroTime "''op''"]
    by (simp add: inputs_fault_free_def flaky_ledger_def)
  have "\<exists>e. persist_obligations zeroTime ''2026-02'' sample_closing sample_obligations flaky_ledger =
      (Err e, interrupted_ledger)"
    by (simp add: persist_Cons Let_def sample_obligations_def sample_entitlements_def flaky_ledger_def
        interrupted_ledger_def CreateObligation_def act_bind_lift doc_Create_def pop_fault_def Validate_eq month_eval
        lookup_def put_def Obligation_ID_def ObligationID_def obligation_of_def opened_ann_def docs_only_def)
  then show ?thesis by (auto simp: run commit_round_def Let_def act_bind_step)
qed

lemma late_import:
  "ImportReceipts zeroTime [late_receipt] interrupted_ledger = ((1, 0, Ok ()), interrupted_ledger\<lparr>ld_Receipts :=
     docs_only [(''inv-1'', sample_receipt), (''inv-2'', stamp_receipt zeroTime late_receipt)]\<rparr>)"
proof -
  have "Receipt_Validate late_receipt = Ok ()" "rcpt_Source late_receipt = ''inv-2''"
    by (simp_all add: late_receipt_def sample_receipt_def Receipt_Validate_def Validate_eq month_eval)
  then have "CreateReceipt zeroTime late_receipt (docs_only [(''inv-1'', sample_receipt)]) =
      (Ok (), docs_only [(''inv-1'', sample_receipt), (''inv-2'', stamp_receipt zeroTime late_receipt)])"
    by (simp add: CreateReceipt_no_fault put_def docs_only_def lookup_def)
  then show ?thesis
    by (simp add: ImportReceipts_def import_Cons interrupted_ledger_def)
qed

text \<open>
  Against its comment, an obligation left by a failed close need not be the one
  the retry computes: the close fails after storing one obligation, a late receipt of the month is
  imported, and the retry commits a round that entitles the account to 100 cents next to an obligation
  of 33.
\<close>

theorem close_retry_stale:
  "\<exists>e l1 l2 r l3 x b.
     CloseRound zeroTime ''2026-02'' sample_closing ''op'' flaky_ledger = (Err e, l1) \<and>
     ImportReceipts zeroTime [late_receipt] l1 = ((1, 0, Ok ()), l2) \<and>
     CloseRound zeroTime ''2026-02'' sample_closing ''op'' l2 = (Ok r, l3) \<and>
     x \<in> set (rd_Entitlements r) \<and> lookup (ld_Obligations l3) (ObligationID ''2026-02'' (ent_Account x)) = Some b \<and>
     ent_AmountCents x = 100 \<and> ob_AmountCents b = 33"
proof -
  let ?l2 = "interrupted_ledger\<lparr>ld_Receipts :=
     docs_only [(''inv-1'', sample_receipt), (''inv-2'', stamp_receipt zeroTime late_receipt)]\<rparr>"
  have "ComputeRound sample_program ''2026-02'' [sample_receipt, stamp_receipt zeroTime late_receipt] [sample_award] 0 =
      Ok (late_round, late_obligations)"
    using late_compute by (simp add: stamp_receipt_def late_receipt_def sample_receipt_def)
  moreover have "carry_result ''2026-02'' ?l2 = Ok 0"
    by (simp add: carry_result_def Month_Prev_valid month_eval interrupted_ledger_def)
  moreover have "month_receipts ?l2 ''2026-02'' = [sample_receipt, stamp_receipt zeroTime late_receipt]"
    by (simp add: month_receipts_def sample_receipt_def late_receipt_def stamp_receipt_def)
  moreover have "approved_awards ?l2 = [sample_award]"
    by (simp add: approved_awards_def sample_award_def interrupted_ledger_def)
  ultimately have asm: "assembled ''2026-02'' ?l2 = Ok (late_round, late_obligations)"
    by (simp add: assembled_def Validate_eq month_eval interrupted_ledger_def sample_program_ok(3) Month_Before_def)
  have ff: "fault_free ?l2" by (simp add: fault_free_def interrupted_ledger_def)
  have valid: "\<forall>b \<in> set late_obligations. valid_month (ob_Month b) \<and> ob_Account b \<noteq> ''''"
    by (simp add: late_obligations_def late_entitlements_def obligation_of_def month_eval)
  have run: "CloseRound zeroTime ''2026-02'' sample_closing ''op'' ?l2 =
      commit_round zeroTime ''2026-02'' sample_closing ''op'' late_round late_obligations ?l2"
    using CloseRound_fault_free [OF fault_free_inputs [OF ff] _ sample_month_end sample_not_ended, of zeroTime "''op''"] asm
    by (simp add: interrupted_ledger_def)
  have "rd_Month late_round = ''2026-02''" by (simp add: late_round_def)
  then obtain l3 where c: "commit_round zeroTime ''2026-02'' sample_closing ''op'' late_round late_obligations ?l2 =
      (Ok (closed_round sample_closing ''op'' late_round), l3)"
    using commit_fault_free [OF ff valid, of late_round zeroTime "''2026-02''" sample_closing "''op''"]
    by (auto simp: month_eval interrupted_ledger_def)
  have "lookup (ld_Obligations l3) ''2026-02:ann'' = Some opened_ann"
    using commit_keeps_obligation [of ?l2 "''2026-02:ann''" opened_ann zeroTime "''2026-02''" sample_closing "''op''"
        late_round late_obligations] c by (simp add: interrupted_ledger_def)
  moreover have "ob_AmountCents opened_ann = 33"
    by (simp add: opened_ann_def stamp_obligation_def opened_obligation_def sample_obligations_def sample_entitlements_def
        obligation_of_def)
  moreover have "hd late_entitlements \<in> set (rd_Entitlements (closed_round sample_closing ''op'' late_round))"
    "ent_AmountCents (hd late_entitlements) = 100" "ObligationID ''2026-02'' (ent_Account (hd late_entitlements)) = ''2026-02:ann''"
    by (simp_all add: late_entitlements_def late_round_def ObligationID_def)
  ultimately show ?thesis using interrupted_close late_import run c by metis
qed

end
