(* ===== verification/DocValues.thy ===== *)
theory DocValues
  imports GoTime
begin

text \<open>
  Documents as package document handles them: the dynamic values of a decoded document, the Go values a
  caller passes, and the functions of \<^verbatim>\<open>document/encoding.go\<close> on them. The codec
  (\<^verbatim>\<open>docmarshal.Marshaler\<close>, bson or another third-party format) and the comparisons of
  the assertion library that filters use are parameters.
\<close>

section \<open>Values\<close>

text \<open>
  The dynamic value of an \<open>any\<close>: a leaf stands for a comparable value together with its Go
  type. \<open>VStruct\<close> is a struct other than a time.
\<close>

datatype 'v gvalue =
  VNil | VTime gotime | VLeaf 'v | VList "'v gvalue list"
| VMap "(string \<times> 'v gvalue) list" | VStruct "(string \<times> 'v gvalue) list"

type_synonym 'v fields = "(string \<times> 'v gvalue) list"

text \<open>
  What a caller passes as document: a struct by its exported fields, a map (\<open>True\<close> for
  \<open>map[string]any\<close>, \<open>False\<close> for a map of another type), a pointer or an interface
  value (\<open>True\<close> for an interface without methods), both possibly nil, or anything else.
\<close>

datatype 'v gval =
  GStruct "'v fields" | GMap bool "'v fields" | GPtr "'v gval option" | GIface bool "'v gval option"
| GScalar 'v | GNil

datatype docerr =
  DNotFound | DAlreadyExists | DPreconditionFailed | DPermissionDenied | DError string

type_synonym 'a dresult = "(docerr, 'a) outcome"

definition DefaultCreatedAtField :: string where "DefaultCreatedAtField = ''CreatedAt''"
definition DefaultUpdatedAtField :: string where "DefaultUpdatedAtField = ''UpdatedAt''"
definition LowerCreatedAtField :: string where "LowerCreatedAtField = ''createdat''"
definition LowerUpdatedAtField :: string where "LowerUpdatedAtField = ''updatedat''"

record 'v doc_update =
  up_FieldPath :: "string list"
  up_Value :: "'v gvalue"

datatype op = OpEqual | OpGreaterThan | OpGreaterThanEqual | OpLessThan | OpLessThanEqual | OpOther string

record 'v doc_filter =
  fl_FieldPath :: "string list"
  fl_Value :: "'v gvalue"
  fl_Op :: op

section \<open>Finding the document in what was passed\<close>

fun DerefCreateValue :: "'v gval \<Rightarrow> 'v gval dresult" where
  "DerefCreateValue (GStruct f) = Ok (GStruct f)"
| "DerefCreateValue (GMap a f) = Ok (GMap a f)"
| "DerefCreateValue (GPtr (Some v)) = DerefCreateValue v"
| "DerefCreateValue (GIface True (Some v)) = DerefCreateValue v"
| "DerefCreateValue v = Err (DError ''only struct or map values are allowed'')"

fun is_ptr :: "'v gval \<Rightarrow> bool" where
  "is_ptr (GPtr _) = True"
| "is_ptr _ = False"

text \<open>The loop of \<open>DerefUpdateValue\<close> with its variable \<open>prev\<close>.\<close>

fun deref_update :: "'v gval \<Rightarrow> 'v gval \<Rightarrow> 'v gval dresult" where
  "deref_update prev (GStruct f) =
     (if is_ptr prev then Ok prev else Err (DError ''only pointers to a struct or map values are allowed''))"
| "deref_update prev (GMap a f) = Ok (GMap a f)"
| "deref_update prev (GPtr (Some v)) = deref_update (GPtr (Some v)) v"
| "deref_update prev (GIface True (Some v)) = deref_update (GIface True (Some v)) v"
| "deref_update prev v = Err (DError ''only pointers to a struct or map values are allowed'')"

definition DerefUpdateValue :: "'v gval \<Rightarrow> 'v gval dresult" where
  "DerefUpdateValue data = deref_update data data"

fun IsEncodeable :: "'v gval \<Rightarrow> bool" where
  "IsEncodeable (GPtr (Some v)) = True"
| "IsEncodeable (GMap a f) = True"
| "IsEncodeable v = False"

section \<open>Time stamps\<close>

definition setMapField :: "'v fields \<Rightarrow> string \<Rightarrow> 'v gvalue \<Rightarrow> 'v fields" where
  "setMapField m key v = AList.update key v m"

text \<open>A field of another struct type is settable and of kind struct, and setting a time in it panics;
  a field that is missing or of another kind is left alone.\<close>

definition reflectSetTimeField :: "'v fields \<Rightarrow> string \<Rightarrow> gotime \<Rightarrow> 'v fields dresult" where
  "reflectSetTimeField s k t =
     (case map_of s k of
        Some (VTime _) \<Rightarrow> Ok (AList.update k (VTime t) s)
      | Some (VStruct _) \<Rightarrow> Panic
      | _ \<Rightarrow> Ok s)"

text \<open>Setting a field through \<open>s.Elem()\<close>: of a pointer to a struct, anything else panics.\<close>

fun set_through_ptr :: "('v fields \<Rightarrow> 'v fields dresult) \<Rightarrow> 'v gval \<Rightarrow> 'v fields dresult" where
  "set_through_ptr g (GPtr (Some (GStruct f))) = g f"
| "set_through_ptr g v = Panic"

definition UpdateDefaultUpdatedAtField :: "'v gval \<Rightarrow> gotime \<Rightarrow> bool \<Rightarrow> 'v gval dresult" where
  "UpdateDefaultUpdatedAtField doc now lowerCase =
     (let updatedAtField = (if lowerCase then LowerUpdatedAtField else DefaultUpdatedAtField)
      in case doc of
           GMap True m \<Rightarrow> Ok (GMap True (setMapField m updatedAtField (VTime now)))
         | GStruct f \<Rightarrow>
             andThen (reflectSetTimeField f updatedAtField now) (\<lambda>f'. Ok (GPtr (Some (GStruct f'))))
         | _ \<Rightarrow> andThen (set_through_ptr (\<lambda>f. reflectSetTimeField f updatedAtField now) doc)
             (\<lambda>f'. Ok (GPtr (Some (GStruct f')))))"

text \<open>
  For a map the copies that \<open>setMapField\<close> returns are dropped; for a struct the default names
  are used whatever \<open>lowerCase\<close> says, and the clock is read again (\<open>now'\<close>).
\<close>

definition UpdateDefaultCreatedAtField :: "'v gval \<Rightarrow> gotime \<Rightarrow> gotime \<Rightarrow> bool \<Rightarrow> 'v gval dresult" where
  "UpdateDefaultCreatedAtField doc now now' lowerCase =
     (let stamps = (\<lambda>f. andThen (reflectSetTimeField f DefaultCreatedAtField now')
                          (\<lambda>f'. reflectSetTimeField f' DefaultUpdatedAtField now'))
      in case doc of
           GMap True m \<Rightarrow>
             (let updatedAtField = (if lowerCase then LowerUpdatedAtField else DefaultUpdatedAtField);
                  createdAtField = (if lowerCase then LowerCreatedAtField else DefaultCreatedAtField);
                  _ = setMapField m updatedAtField (VTime now);
                  _ = setMapField m createdAtField (VTime now)
              in Ok doc)
         | GStruct f \<Rightarrow> andThen (stamps f) (\<lambda>f'. Ok (GStruct f'))
         | _ \<Rightarrow> andThen (set_through_ptr stamps doc) (\<lambda>f'. Ok (GStruct f')))"

section \<open>The codec\<close>

record ('v, 'b) marshaler =
  Marshal :: "'v gval \<Rightarrow> 'b option"
  Unmarshal :: "'b \<Rightarrow> 'v fields option"
  DefaultLowerCase :: bool

definition UpdateUpdatedAtField :: "('v, 'b) marshaler \<Rightarrow> gotime \<Rightarrow> 'v gval \<Rightarrow> 'v gval dresult" where
  "UpdateUpdatedAtField M now doc = UpdateDefaultUpdatedAtField doc now (DefaultLowerCase M)"

definition UpdateCreatedAtField :: "('v, 'b) marshaler \<Rightarrow> gotime \<Rightarrow> gotime \<Rightarrow> 'v gval \<Rightarrow> 'v gval dresult" where
  "UpdateCreatedAtField M now now' doc = UpdateDefaultCreatedAtField doc now now' (DefaultLowerCase M)"

definition Encode :: "('v, 'b) marshaler \<Rightarrow> gotime \<Rightarrow> gotime \<Rightarrow> 'v gval \<Rightarrow> bool \<Rightarrow> 'b dresult" where
  "Encode M now now' doc addCreatedAt =
     andThen (if addCreatedAt then UpdateCreatedAtField M now now' doc else UpdateUpdatedAtField M now doc)
       (\<lambda>d. orPanic (Marshal M d))"

definition decode :: "('v, 'b) marshaler \<Rightarrow> 'b \<Rightarrow> 'v fields dresult" where
  "decode M raw = (case Unmarshal M raw of None \<Rightarrow> Err (DError ''decode'') | Some f \<Rightarrow> Ok f)"

definition SafeDecode :: "('v, 'b) marshaler \<Rightarrow> 'v gval \<Rightarrow> 'b \<Rightarrow> 'v fields dresult" where
  "SafeDecode M rcv raw =
     (if \<not> IsEncodeable rcv then Err (DError ''receiver is not a pointer and not a map or is nil'')
      else decode M raw)"

section \<open>Updates\<close>

text \<open>Go's \<open>==\<close> on two \<open>any\<close> values; values of the same uncomparable type panic.\<close>

fun go_eq :: "'v gvalue \<Rightarrow> 'v gvalue \<Rightarrow> bool dresult" where
  "go_eq (VList _) (VList _) = Panic"
| "go_eq (VMap _) (VMap _) = Panic"
| "go_eq a b = Ok (a = b)"

definition field_value :: "'v fields \<Rightarrow> string \<Rightarrow> 'v gvalue" where
  "field_value proto k = (case map_of proto k of None \<Rightarrow> VNil | Some v \<Rightarrow> v)"

fun precondField :: "'v fields \<Rightarrow> string list \<Rightarrow> 'v gvalue \<Rightarrow> bool dresult" where
  "precondField proto [] v = Panic"
| "precondField proto [k] v = go_eq (field_value proto k) v"
| "precondField proto (k # k' # ks) v =
     (case map_of proto k of
        Some (VMap m) \<Rightarrow> precondField m (k' # ks) v
      | _ \<Rightarrow> Ok False)"

fun updateField :: "'v fields \<Rightarrow> string list \<Rightarrow> 'v gvalue \<Rightarrow> 'v fields dresult" where
  "updateField proto [] v = Panic"
| "updateField proto [k] v = Ok (AList.update k v proto)"
| "updateField proto (k # k' # ks) v =
     (case map_of proto k of
        Some (VMap m) \<Rightarrow> andThen (updateField m (k' # ks) v) (\<lambda>m'. Ok (AList.update k (VMap m') proto))
      | _ \<Rightarrow> Ok proto)"

definition case_path :: "bool \<Rightarrow> string list \<Rightarrow> string list" where
  "case_path lowerCase path = (if lowerCase then map ToLower path else path)"

fun check_preconds :: "bool \<Rightarrow> 'v fields \<Rightarrow> 'v doc_update list \<Rightarrow> unit dresult" where
  "check_preconds lowerCase proto [] = Ok ()"
| "check_preconds lowerCase proto (c # cs) =
     (if up_FieldPath c = [] then Panic
      else andThen (precondField proto (case_path lowerCase (up_FieldPath c)) (up_Value c)) (\<lambda>holds.
        if \<not> holds then Err DPreconditionFailed else check_preconds lowerCase proto cs))"

fun apply_updates :: "bool \<Rightarrow> string \<Rightarrow> 'v doc_update list \<Rightarrow> 'v fields \<Rightarrow> 'v fields dresult" where
  "apply_updates lowerCase updatedAtField [] proto = Ok proto"
| "apply_updates lowerCase updatedAtField (u # us) proto =
     (if up_FieldPath u = [] then Panic
      else if hd (up_FieldPath u) = updatedAtField then apply_updates lowerCase updatedAtField us proto
      else andThen (updateField proto (case_path lowerCase (up_FieldPath u)) (up_Value u))
        (apply_updates lowerCase updatedAtField us))"

definition UpdateProto ::
  "('v, 'b) marshaler \<Rightarrow> gotime \<Rightarrow> 'v doc_update list \<Rightarrow> 'v fields \<Rightarrow> 'v doc_update list \<Rightarrow> 'v fields dresult" where
  "UpdateProto M now updates proto preconds =
     (let lowerCase = DefaultLowerCase M;
          updatedAtField = (if lowerCase then LowerUpdatedAtField else DefaultUpdatedAtField)
      in andThen (check_preconds lowerCase proto preconds) (\<lambda>_.
         andThen (apply_updates lowerCase updatedAtField updates proto) (\<lambda>proto.
         updateField proto [updatedAtField] (VTime now))))"

section \<open>Filters\<close>

text \<open>The assertions of the assertion library, true when they report no failure.\<close>

record 'v asserts =
  EqualValues :: "'v gvalue \<Rightarrow> 'v gvalue \<Rightarrow> bool"
  Greater :: "'v gvalue \<Rightarrow> 'v gvalue \<Rightarrow> bool"
  GreaterOrEqual :: "'v gvalue \<Rightarrow> 'v gvalue \<Rightarrow> bool"
  Less :: "'v gvalue \<Rightarrow> 'v gvalue \<Rightarrow> bool"
  LessOrEqual :: "'v gvalue \<Rightarrow> 'v gvalue \<Rightarrow> bool"

definition doMatchFilter :: "'v asserts \<Rightarrow> 'v gvalue \<Rightarrow> op \<Rightarrow> 'v gvalue \<Rightarrow> bool dresult" where
  "doMatchFilter A v oper fv =
     (case oper of
        OpEqual \<Rightarrow> Ok (EqualValues A v fv)
      | OpGreaterThan \<Rightarrow> Ok (Greater A v fv)
      | OpLessThan \<Rightarrow> Ok (Less A v fv)
      | OpGreaterThanEqual \<Rightarrow> Ok (if EqualValues A v fv then True else GreaterOrEqual A v fv)
      | OpLessThanEqual \<Rightarrow> Ok (if EqualValues A v fv then True else LessOrEqual A v fv)
      | OpOther _ \<Rightarrow> Panic)"

text \<open>A path through a value that is not a map panics at the type assertion.\<close>

fun match_path :: "'v asserts \<Rightarrow> 'v fields \<Rightarrow> string list \<Rightarrow> op \<Rightarrow> 'v gvalue \<Rightarrow> bool dresult" where
  "match_path A proto [] oper fv = Panic"
| "match_path A proto [k] oper fv = doMatchFilter A (field_value proto k) oper fv"
| "match_path A proto (k # k' # ks) oper fv =
     (case map_of proto k of
        None \<Rightarrow> Ok False
      | Some VNil \<Rightarrow> Ok False
      | Some (VMap m) \<Rightarrow> match_path A m (k' # ks) oper fv
      | Some _ \<Rightarrow> Panic)"

definition MatchFilter :: "'v asserts \<Rightarrow> 'v fields \<Rightarrow> 'v doc_filter \<Rightarrow> bool dresult" where
  "MatchFilter A proto f = match_path A proto (fl_FieldPath f) (fl_Op f) (fl_Value f)"

fun MatchesAllFilters :: "'v asserts \<Rightarrow> bool \<Rightarrow> 'v fields \<Rightarrow> 'v doc_filter list \<Rightarrow> bool dresult" where
  "MatchesAllFilters A lowerCase proto [] = Ok True"
| "MatchesAllFilters A lowerCase proto (f # fs) =
     andThen (MatchFilter A proto (f\<lparr>fl_FieldPath := case_path lowerCase (fl_FieldPath f)\<rparr>)) (\<lambda>b.
       if \<not> b then Ok False else MatchesAllFilters A lowerCase proto fs)"

definition WithFilter :: "'v doc_filter list \<Rightarrow> string list \<Rightarrow> 'v gvalue \<Rightarrow> op \<Rightarrow> 'v doc_filter list" where
  "WithFilter fs fieldPath v oper = fs @ [\<lparr>fl_FieldPath = fieldPath, fl_Value = v, fl_Op = oper\<rparr>]"

definition WithFilterProjectID :: "'v doc_filter list \<Rightarrow> 'v gvalue \<Rightarrow> 'v doc_filter list" where
  "WithFilterProjectID fs projectID = WithFilter fs [''ProjectID''] projectID OpEqual"

section \<open>The list iterator\<close>

record 'b list_iterator =
  li_docs :: "'b list"

definition HasNext :: "'b list_iterator \<Rightarrow> bool" where
  "HasNext it \<longleftrightarrow> length (li_docs it) > 0"

text \<open>A document that does not decode stays at the head; with no document left the call panics.\<close>

definition NextTo ::
  "('v, 'b) marshaler \<Rightarrow> 'v gval \<Rightarrow> 'b list_iterator \<Rightarrow> 'v fields dresult \<times> 'b list_iterator" where
  "NextTo M rcv it =
     (case li_docs it of
        [] \<Rightarrow> (Panic, it)
      | raw # rest \<Rightarrow>
          (case SafeDecode M rcv raw of
             Ok f \<Rightarrow> (Ok f, it\<lparr>li_docs := rest\<rparr>)
           | r \<Rightarrow> (r, it)))"

definition Extend ::
  "('v, 'b) marshaler \<Rightarrow> 'v asserts \<Rightarrow> 'v doc_filter list \<Rightarrow> 'b \<Rightarrow> 'b list_iterator \<Rightarrow> 'b list_iterator dresult" where
  "Extend M A filters v it =
     (case decode M v of
        Ok proto \<Rightarrow>
          andThen (MatchesAllFilters A (DefaultLowerCase M) proto filters) (\<lambda>b.
            if \<not> b then Ok it else Ok (it\<lparr>li_docs := li_docs it @ [v]\<rparr>))
      | _ \<Rightarrow> Ok it)"

fun extend_all ::
  "('v, 'b) marshaler \<Rightarrow> 'v asserts \<Rightarrow> 'v doc_filter list \<Rightarrow> 'b list \<Rightarrow> 'b list_iterator \<Rightarrow> 'b list_iterator dresult" where
  "extend_all M A filters [] it = Ok it"
| "extend_all M A filters (v # vs) it =
     andThen (Extend M A filters v it) (extend_all M A filters vs)"

end
