(* ===== verification/DocInMemory.thy ===== *)
theory DocInMemory
  imports DocValues
begin

text \<open>
  The in-memory document service (\<^verbatim>\<open>document/inmemory.go\<close>) and the interface
  \<^verbatim>\<open>document.Service\<close> (\<^verbatim>\<open>document/service.go\<close>) as a record of
  operations over a state, so that the services that wrap another one are functions on such records.
  What a service promises is a locale in terms of a view of its state.
\<close>

section \<open>The interface\<close>

text \<open>\<open>List\<close> stands for the call with its iterator drained into maps. The clock readings of a
  call are its first arguments.\<close>

record ('s, 'v) service =
  svc_Create :: "gotime \<Rightarrow> string \<Rightarrow> 'v gval \<Rightarrow> 's \<Rightarrow> unit dresult \<times> 's"
  svc_Set :: "gotime \<Rightarrow> string \<Rightarrow> 'v gval \<Rightarrow> 's \<Rightarrow> unit dresult \<times> 's"
  svc_Update :: "gotime \<Rightarrow> string \<Rightarrow> 'v doc_update list \<Rightarrow> 'v doc_update list \<Rightarrow> 's \<Rightarrow> unit dresult \<times> 's"
  svc_Get :: "string \<Rightarrow> 'v gval \<Rightarrow> 's \<Rightarrow> 'v fields dresult \<times> 's"
  svc_Delete :: "string \<Rightarrow> 's \<Rightarrow> unit dresult \<times> 's"
  svc_List :: "'v doc_filter list \<Rightarrow> 's \<Rightarrow> 'v fields list dresult \<times> 's"
  svc_Close :: "'s \<Rightarrow> unit dresult \<times> 's"

section \<open>The in-memory service\<close>

record ('v, 'b) memory_config =
  mem_marshaler :: "('v, 'b) marshaler"
  mem_asserts :: "'v asserts"

type_synonym 'b storage = "(string \<times> 'b) list"

definition NewInMemoryServiceWithMarshaler :: "'b storage" where
  "NewInMemoryServiceWithMarshaler = []"

definition mem_set ::
  "('v, 'b) memory_config \<Rightarrow> gotime \<Rightarrow> string \<Rightarrow> 'v gval \<Rightarrow> bool \<Rightarrow> 'b storage \<Rightarrow> unit dresult \<times> 'b storage" where
  "mem_set C now i data errAlreadyExists s =
     (if data = GNil then (Panic, s)
      else case DerefCreateValue data of
        Panic \<Rightarrow> (Panic, s)
      | Err e \<Rightarrow> (Err e, s)
      | Ok d \<Rightarrow>
          if errAlreadyExists \<and> map_of s i \<noteq> None then (Err DAlreadyExists, s)
          else (case Encode (mem_marshaler C) now now d True of
            Ok b \<Rightarrow> (Ok (), AList.update i b s)
          | Err e \<Rightarrow> (Err e, s)
          | Panic \<Rightarrow> (Panic, s)))"

definition mem_Set ::
  "('v, 'b) memory_config \<Rightarrow> gotime \<Rightarrow> string \<Rightarrow> 'v gval \<Rightarrow> 'b storage \<Rightarrow> unit dresult \<times> 'b storage" where
  "mem_Set C now i data s = mem_set C now i data False s"

definition mem_Create ::
  "('v, 'b) memory_config \<Rightarrow> gotime \<Rightarrow> string \<Rightarrow> 'v gval \<Rightarrow> 'b storage \<Rightarrow> unit dresult \<times> 'b storage" where
  "mem_Create C now i data s = mem_set C now i data True s"

definition mem_getValue :: "('v, 'b) memory_config \<Rightarrow> string \<Rightarrow> 'v gval \<Rightarrow> 'b storage \<Rightarrow> 'v fields dresult" where
  "mem_getValue C i rcv s =
     (case map_of s i of
        None \<Rightarrow> Err DNotFound
      | Some raw \<Rightarrow> SafeDecode (mem_marshaler C) rcv raw)"

definition mem_Get :: "('v, 'b) memory_config \<Rightarrow> string \<Rightarrow> 'v gval \<Rightarrow> 'b storage \<Rightarrow> 'v fields dresult \<times> 'b storage" where
  "mem_Get C i rcv s = (mem_getValue C i rcv s, s)"

text \<open>The update decodes into a map behind a pointer.\<close>

definition map_ptr :: "'v gval" where
  "map_ptr = GPtr (Some (GMap True []))"

definition mem_Update ::
  "('v, 'b) memory_config \<Rightarrow> gotime \<Rightarrow> string \<Rightarrow> 'v doc_update list \<Rightarrow> 'v doc_update list \<Rightarrow>
   'b storage \<Rightarrow> unit dresult \<times> 'b storage" where
  "mem_Update C now i updates preconds s =
     (if updates = [] then (Panic, s)
      else case andThen (mem_getValue C i map_ptr s) (\<lambda>proto.
             andThen (UpdateProto (mem_marshaler C) now updates proto preconds) (\<lambda>proto.
             Encode (mem_marshaler C) now now (GMap True proto) False)) of
        Ok b \<Rightarrow> (Ok (), AList.update i b s)
      | Err e \<Rightarrow> (Err e, s)
      | Panic \<Rightarrow> (Panic, s))"

definition mem_Close :: "'b storage \<Rightarrow> unit dresult \<times> 'b storage" where
  "mem_Close s = (Ok (), s)"

definition mem_Delete :: "string \<Rightarrow> 'b storage \<Rightarrow> unit dresult \<times> 'b storage" where
  "mem_Delete i s = (Ok (), AList.delete i s)"

definition mem_List ::
  "('v, 'b) memory_config \<Rightarrow> 'v doc_filter list \<Rightarrow> 'b storage \<Rightarrow> 'b list_iterator dresult \<times> 'b storage" where
  "mem_List C filters s =
     (extend_all (mem_marshaler C) (mem_asserts C) filters (map snd s) \<lparr>li_docs = []\<rparr>, s)"

definition mem_Drop :: "'b storage \<Rightarrow> unit dresult \<times> 'b storage" where
  "mem_Drop s = (Ok (), [])"

text \<open>Draining an iterator into maps, the way \<open>iterator.ToSlice\<close> does.\<close>

fun drain_docs :: "('v, 'b) marshaler \<Rightarrow> 'b list \<Rightarrow> 'v fields list dresult" where
  "drain_docs M [] = Ok []"
| "drain_docs M (raw # rest) =
     andThen (SafeDecode M map_ptr raw) (\<lambda>f. andThen (drain_docs M rest) (\<lambda>fs. Ok (f # fs)))"

definition memory_service :: "('v, 'b) memory_config \<Rightarrow> ('b storage, 'v) service" where
  "memory_service C =
     \<lparr>svc_Create = mem_Create C, svc_Set = mem_Set C, svc_Update = mem_Update C, svc_Get = mem_Get C,
      svc_Delete = mem_Delete,
      svc_List = (\<lambda>fs s. (andThen (fst (mem_List C fs s)) (\<lambda>it. drain_docs (mem_marshaler C) (li_docs it)), s)),
      svc_Close = mem_Close\<rparr>"

lemma memory_service_simps [simp]:
  "svc_Create (memory_service C) = mem_Create C" "svc_Set (memory_service C) = mem_Set C"
  "svc_Update (memory_service C) = mem_Update C" "svc_Get (memory_service C) = mem_Get C"
  "svc_Delete (memory_service C) = mem_Delete" "svc_Close (memory_service C) = mem_Close"
  "svc_List (memory_service C) fs s =
     (andThen (fst (mem_List C fs s)) (\<lambda>it. drain_docs (mem_marshaler C) (li_docs it)), s)"
  by (simp_all add: memory_service_def)

section \<open>What a service promises\<close>

text \<open>
  In terms of a view of the state, documents of some stored form by ID, and the content a stored form
  decodes to: writes touch only their own document and reads none; a read that succeeds returns the
  content of its document, and the three outcomes callers test for mean what they say.
\<close>

locale doc_db =
  fixes svc :: "('s, 'v) service"
    and view :: "'s \<Rightarrow> string \<Rightarrow> 'd option"
    and content :: "'d \<Rightarrow> 'v fields option"
  assumes create_frame: "k \<noteq> i \<Longrightarrow> view (snd (svc_Create svc now i d s)) k = view s k"
    and set_frame: "k \<noteq> i \<Longrightarrow> view (snd (svc_Set svc now i d s)) k = view s k"
    and update_frame: "k \<noteq> i \<Longrightarrow> view (snd (svc_Update svc now i us ps s)) k = view s k"
    and delete_frame: "k \<noteq> i \<Longrightarrow> view (snd (svc_Delete svc i s)) k = view s k"
    and get_reads: "view (snd (svc_Get svc i rcv s)) = view s"
    and list_reads: "view (snd (svc_List svc fs s)) = view s"
    and create_Ok: "fst (svc_Create svc now i d s) = Ok u \<Longrightarrow>
      view s i = None \<and> view (snd (svc_Create svc now i d s)) i \<noteq> None"
    and create_exists: "fst (svc_Create svc now i d s) = Err DAlreadyExists \<Longrightarrow> view s i \<noteq> None"
    and set_Ok: "fst (svc_Set svc now i d s) = Ok u \<Longrightarrow> view (snd (svc_Set svc now i d s)) i \<noteq> None"
    and update_Ok: "fst (svc_Update svc now i us ps s) = Ok u \<Longrightarrow>
      view s i \<noteq> None \<and> view (snd (svc_Update svc now i us ps s)) i \<noteq> None"
    and update_missing: "fst (svc_Update svc now i us ps s) = Err DNotFound \<Longrightarrow> view s i = None"
    and update_not_exists: "fst (svc_Update svc now i us ps s) \<noteq> Err DAlreadyExists"
    and get_Ok: "fst (svc_Get svc i rcv s) = Ok f \<Longrightarrow> \<exists>d. view s i = Some d \<and> content d = Some f"
    and get_missing: "fst (svc_Get svc i rcv s) = Err DNotFound \<Longrightarrow> view s i = None"
    and get_local: "view s i = view s' i \<Longrightarrow> fst (svc_Get svc i rcv s) = fst (svc_Get svc i rcv s')"
    and delete_Ok: "fst (svc_Delete svc i s) = Ok u \<Longrightarrow> view (snd (svc_Delete svc i s)) i = None"
begin

text \<open>What one caller reads does not change when another writes elsewhere.\<close>

lemma get_after_other_write:
  assumes "k \<noteq> i"
  shows "fst (svc_Get svc k rcv (snd (svc_Create svc now i d s))) = fst (svc_Get svc k rcv s)"
    and "fst (svc_Get svc k rcv (snd (svc_Set svc now i d s))) = fst (svc_Get svc k rcv s)"
    and "fst (svc_Get svc k rcv (snd (svc_Update svc now i us ps s))) = fst (svc_Get svc k rcv s)"
    and "fst (svc_Get svc k rcv (snd (svc_Delete svc i s))) = fst (svc_Get svc k rcv s)"
  using assms by (auto intro!: get_local simp: create_frame set_frame update_frame delete_frame)

lemma create_twice:
  assumes "fst (svc_Create svc now i d s) = Ok u"
  shows "\<not> is_ok (fst (svc_Create svc now' i d' (snd (svc_Create svc now i d s))))"
  using create_Ok [OF assms] create_Ok [of now' i d' "snd (svc_Create svc now i d s)"]
  by (auto simp: is_ok_iff)

lemma get_after_delete:
  "fst (svc_Delete svc i s) = Ok u \<Longrightarrow> \<not> is_ok (fst (svc_Get svc i rcv (snd (svc_Delete svc i s))))"
  using delete_Ok [of i s u] get_Ok [of i rcv "snd (svc_Delete svc i s)"] by (auto simp: is_ok_iff)

end

lemma Encode_no_not_found [simp]: "Encode M now now' d b \<noteq> Err e"
proof -
  have stamp: "reflectSetTimeField f k t \<noteq> Err e" for f k t
    by (simp add: reflectSetTimeField_def split: option.splits gvalue.splits)
  have through: "set_through_ptr g v \<noteq> Err e" if "\<And>f. g f \<noteq> Err e" for g v
    using that by (cases "(g, v)" rule: set_through_ptr.cases) auto
  have two: "andThen (reflectSetTimeField f k t) (\<lambda>f'. reflectSetTimeField f' k' t) \<noteq> Err e" for f k k' t
    by (auto simp: outcome_simps stamp)
  show ?thesis
    by (auto simp: Encode_def UpdateCreatedAtField_def UpdateUpdatedAtField_def UpdateDefaultCreatedAtField_def
        UpdateDefaultUpdatedAtField_def Let_def outcome_simps stamp through two split: gval.splits bool.splits if_splits)
qed

lemma UpdateProto_errors: "UpdateProto M now us proto ps = Err e \<Longrightarrow> e = DPreconditionFailed"
proof -
  have eq: "go_eq a b \<noteq> Err e" for a b :: "'a gvalue" and e by (cases "(a, b)" rule: go_eq.cases) auto
  have pre: "precondField f p v \<noteq> Err e" for f p and v :: "'a gvalue" and e
    by (induction f p v rule: precondField.induct) (auto simp: eq split: option.splits gvalue.splits)
  have upd: "updateField f p v \<noteq> Err e" for f p and v :: "'a gvalue" and e
    by (induction f p v rule: updateField.induct) (auto simp: outcome_simps split: option.splits gvalue.splits)
  have chk: "check_preconds l f ps = Err e \<Longrightarrow> e = DPreconditionFailed" for l and f :: "'a fields" and ps e
    by (induction l f ps rule: check_preconds.induct) (auto simp: outcome_simps pre split: if_splits)
  have app: "apply_updates l k us f \<noteq> Err e" for l k us and f :: "'a fields" and e
    by (induction l k us f rule: apply_updates.induct) (auto simp: outcome_simps upd split: if_splits)
  show "UpdateProto M now us proto ps = Err e \<Longrightarrow> e = DPreconditionFailed"
    by (auto simp: UpdateProto_def Let_def outcome_simps upd app dest: chk split: if_splits)
qed

lemma decode_errors: "decode M raw \<noteq> Err DNotFound" "decode M raw \<noteq> Err DAlreadyExists"
  "SafeDecode M rcv raw \<noteq> Err DNotFound" "SafeDecode M rcv raw \<noteq> Err DAlreadyExists"
  by (auto simp: SafeDecode_def decode_def split: option.splits)

lemma DerefCreateValue_errors: "DerefCreateValue v \<noteq> Err DNotFound" "DerefCreateValue v \<noteq> Err DAlreadyExists"
  by (induction v rule: DerefCreateValue.induct) auto

lemma map_of_mem_writes:
  "map_of (snd (mem_Create C now i d s)) = map_of s \<or> (\<exists>b. map_of (snd (mem_Create C now i d s)) = (map_of s)(i \<mapsto> b))"
  "map_of (snd (mem_Set C now i d s)) = map_of s \<or> (\<exists>b. map_of (snd (mem_Set C now i d s)) = (map_of s)(i \<mapsto> b))"
  "map_of (snd (mem_Update C now i us ps s)) = map_of s \<or>
     (\<exists>b. map_of (snd (mem_Update C now i us ps s)) = (map_of s)(i \<mapsto> b))"
  by (auto simp: mem_Create_def mem_Set_def mem_set_def mem_Update_def update_conv' split: outcome.splits if_splits)

lemma mem_set_Ok: "fst (mem_set C now i d e s) = Ok u \<Longrightarrow>
    (e \<longrightarrow> map_of s i = None) \<and> (\<exists>b. map_of (snd (mem_set C now i d e s)) = (map_of s)(i \<mapsto> b))"
  by (auto simp: mem_set_def update_conv' split: outcome.splits if_splits)

lemma mem_set_exists: "fst (mem_set C now i d e s) = Err DAlreadyExists \<Longrightarrow> e \<and> map_of s i \<noteq> None"
  using DerefCreateValue_errors [of d] by (auto simp: mem_set_def split: outcome.splits if_splits)

lemma mem_Update_Ok: "fst (mem_Update C now i us ps s) = Ok u \<Longrightarrow>
    map_of s i \<noteq> None \<and> (\<exists>b. map_of (snd (mem_Update C now i us ps s)) = (map_of s)(i \<mapsto> b))"
  by (auto simp: mem_Update_def mem_getValue_def update_conv' split: outcome.splits if_splits option.splits)

lemma mem_Update_errors: "fst (mem_Update C now i us ps s) = Err e \<Longrightarrow>
    (e = DNotFound \<longrightarrow> map_of s i = None) \<and> e \<noteq> DAlreadyExists"
  by (auto simp: mem_Update_def mem_getValue_def outcome_simps decode_errors
      split: outcome.splits if_splits option.splits dest: UpdateProto_errors)

interpretation memory: doc_db "memory_service C" map_of "Unmarshal (mem_marshaler C)" for C
proof
  fix k i now s and d :: "'a gval" and us ps :: "'a doc_update list" and u
  show "k \<noteq> i \<Longrightarrow> map_of (snd (svc_Create (memory_service C) now i d s)) k = map_of s k"
    using map_of_mem_writes(1) [of C now i d s] by auto
  show "k \<noteq> i \<Longrightarrow> map_of (snd (svc_Set (memory_service C) now i d s)) k = map_of s k"
    using map_of_mem_writes(2) [of C now i d s] by auto
  show "k \<noteq> i \<Longrightarrow> map_of (snd (svc_Update (memory_service C) now i us ps s)) k = map_of s k"
    using map_of_mem_writes(3) [of C now i us ps s] by auto
  show "fst (svc_Create (memory_service C) now i d s) = Ok u \<Longrightarrow>
      map_of s i = None \<and> map_of (snd (svc_Create (memory_service C) now i d s)) i \<noteq> None"
    using mem_set_Ok [of C now i d True s u] by (auto simp: mem_Create_def)
  show "fst (svc_Create (memory_service C) now i d s) = Err DAlreadyExists \<Longrightarrow> map_of s i \<noteq> None"
    using mem_set_exists [of C now i d True s] by (auto simp: mem_Create_def)
  show "fst (svc_Set (memory_service C) now i d s) = Ok u \<Longrightarrow>
      map_of (snd (svc_Set (memory_service C) now i d s)) i \<noteq> None"
    using mem_set_Ok [of C now i d False s u] by (auto simp: mem_Set_def)
  show "fst (svc_Update (memory_service C) now i us ps s) = Ok u \<Longrightarrow>
      map_of s i \<noteq> None \<and> map_of (snd (svc_Update (memory_service C) now i us ps s)) i \<noteq> None"
    using mem_Update_Ok [of C now i us ps s u] by auto
  show "fst (svc_Update (memory_service C) now i us ps s) = Err DNotFound \<Longrightarrow> map_of s i = None"
    using mem_Update_errors [of C now i us ps s DNotFound] by simp
  show "fst (svc_Update (memory_service C) now i us ps s) \<noteq> Err DAlreadyExists"
    using mem_Update_errors [of C now i us ps s DAlreadyExists] by auto
qed (auto simp: mem_Delete_def mem_Get_def mem_getValue_def delete_conv' decode_errors SafeDecode_def decode_def
    split: option.splits if_splits)

end
