(* ===== verification/DocPartition.thy ===== *)
theory DocPartition
  imports DocInMemory
begin

text \<open>
  Partitions of a document service (\<^verbatim>\<open>document/partition.go\<close>): a service over another
  one that prefixes every ID and marks every document with a field.
\<close>

section \<open>Operations\<close>

record ('s, 'v) partitioned =
  pt_other :: "('s, 'v) service"
  pt_partition :: string
  pt_partitionField :: string
  pt_name :: "'v gvalue"

text \<open>\<open>pt_name\<close> is the partition's name as the value that is stored and compared.\<close>

definition makePartitionID :: "('s, 'v) partitioned \<Rightarrow> string \<Rightarrow> string" where
  "makePartitionID c i = pt_partition c @ ''.'' @ i"

definition new_partitioned :: "('s, 'v) service \<Rightarrow> (string \<Rightarrow> 'v) \<Rightarrow> string \<Rightarrow> ('s, 'v) partitioned" where
  "new_partitioned other str p =
     \<lparr>pt_other = other, pt_partition = p, pt_partitionField = ''__partition_'' @ p, pt_name = VLeaf (str p)\<rparr>"

text \<open>A failed mark deletes the document, whose result is ignored.\<close>

definition setPartitionField :: "('s, 'v) partitioned \<Rightarrow> gotime \<Rightarrow> string \<Rightarrow> 's \<Rightarrow> unit dresult \<times> 's" where
  "setPartitionField c now i s =
     (case svc_Update (pt_other c) now i [\<lparr>up_FieldPath = [pt_partitionField c], up_Value = pt_name c\<rparr>] [] s of
        (Ok _, s') \<Rightarrow> (Ok (), s')
      | (Panic, s') \<Rightarrow> (Panic, s')
      | (Err e, s') \<Rightarrow>
          (case svc_Delete (pt_other c) i s' of
             (Panic, s'') \<Rightarrow> (Panic, s'')
           | (_, s'') \<Rightarrow> (Err e, s'')))"

definition part_Create :: "('s, 'v) partitioned \<Rightarrow> gotime \<Rightarrow> string \<Rightarrow> 'v gval \<Rightarrow> 's \<Rightarrow> unit dresult \<times> 's" where
  "part_Create c now i d s =
     (let i = makePartitionID c i in
      case svc_Create (pt_other c) now i d s of
        (Ok _, s') \<Rightarrow> setPartitionField c now i s'
      | r \<Rightarrow> r)"

definition part_Set :: "('s, 'v) partitioned \<Rightarrow> gotime \<Rightarrow> string \<Rightarrow> 'v gval \<Rightarrow> 's \<Rightarrow> unit dresult \<times> 's" where
  "part_Set c now i d s =
     (let i = makePartitionID c i in
      case svc_Set (pt_other c) now i d s of
        (Ok _, s') \<Rightarrow> setPartitionField c now i s'
      | r \<Rightarrow> r)"

definition part_Update ::
  "('s, 'v) partitioned \<Rightarrow> gotime \<Rightarrow> string \<Rightarrow> 'v doc_update list \<Rightarrow> 'v doc_update list \<Rightarrow> 's \<Rightarrow> unit dresult \<times> 's" where
  "part_Update c now i us ps s = svc_Update (pt_other c) now (makePartitionID c i) us ps s"

definition part_Get :: "('s, 'v) partitioned \<Rightarrow> string \<Rightarrow> 'v gval \<Rightarrow> 's \<Rightarrow> 'v fields dresult \<times> 's" where
  "part_Get c i rcv s = svc_Get (pt_other c) (makePartitionID c i) rcv s"

definition part_Delete :: "('s, 'v) partitioned \<Rightarrow> string \<Rightarrow> 's \<Rightarrow> unit dresult \<times> 's" where
  "part_Delete c i s = svc_Delete (pt_other c) (makePartitionID c i) s"

definition part_List :: "('s, 'v) partitioned \<Rightarrow> 'v doc_filter list \<Rightarrow> 's \<Rightarrow> 'v fields list dresult \<times> 's" where
  "part_List c filters s =
     svc_List (pt_other c)
       (filters @ [\<lparr>fl_FieldPath = [pt_partitionField c], fl_Value = pt_name c, fl_Op = OpEqual\<rparr>]) s"

definition part_Close :: "('s, 'v) partitioned \<Rightarrow> 's \<Rightarrow> unit dresult \<times> 's" where
  "part_Close c s = svc_Close (pt_other c) s"

definition WithPartition :: "('s, 'v) service \<Rightarrow> (string \<Rightarrow> 'v) \<Rightarrow> string \<Rightarrow> ('s, 'v) service" where
  "WithPartition other str p =
     (let c = new_partitioned other str p in
      \<lparr>svc_Create = part_Create c, svc_Set = part_Set c, svc_Update = part_Update c, svc_Get = part_Get c,
       svc_Delete = part_Delete c, svc_List = part_List c, svc_Close = part_Close c\<rparr>)"

lemma WithPartition_simps [simp]:
  "svc_Create (WithPartition other str p) = part_Create (new_partitioned other str p)"
  "svc_Set (WithPartition other str p) = part_Set (new_partitioned other str p)"
  "svc_Update (WithPartition other str p) = part_Update (new_partitioned other str p)"
  "svc_Get (WithPartition other str p) = part_Get (new_partitioned other str p)"
  "svc_Delete (WithPartition other str p) = part_Delete (new_partitioned other str p)"
  "svc_List (WithPartition other str p) = part_List (new_partitioned other str p)"
  by (simp_all add: WithPartition_def Let_def)

lemma new_partitioned_simps [simp]:
  "pt_other (new_partitioned other str p) = other"
  "makePartitionID (new_partitioned other str p) i = p @ ''.'' @ i"
  by (simp_all add: new_partitioned_def makePartitionID_def)

section \<open>A partition is a service\<close>

text \<open>What the mark does, for any service under it.\<close>

context doc_db
begin

lemma mark_frame:
  assumes "k \<noteq> i"
  shows "view (snd (setPartitionField (new_partitioned svc str p) now i s)) k = view s k"
  using assms update_frame delete_frame
  by (auto simp: setPartitionField_def split: prod.splits outcome.splits) (metis snd_conv)+

lemma mark_Ok:
  assumes "fst (setPartitionField (new_partitioned svc str p) now i s) = Ok u"
  shows "view (snd (setPartitionField (new_partitioned svc str p) now i s)) i \<noteq> None"
proof -
  let ?us = "[\<lparr>up_FieldPath = [pt_partitionField (new_partitioned svc str p)],
    up_Value = pt_name (new_partitioned svc str p)\<rparr>]"
  obtain r s' where run: "svc_Update svc now i ?us [] s = (r, s')" by fastforce
  then obtain u' where "r = Ok u'"
    using assms by (cases r) (auto simp: setPartitionField_def split: prod.splits outcome.splits)
  then show ?thesis using run update_Ok [of now i ?us "[]" s u'] by (simp add: setPartitionField_def)
qed

lemma mark_not_exists: "fst (setPartitionField (new_partitioned svc str p) now i s) \<noteq> Err DAlreadyExists"
proof -
  let ?us = "[\<lparr>up_FieldPath = [pt_partitionField (new_partitioned svc str p)],
    up_Value = pt_name (new_partitioned svc str p)\<rparr>]"
  show ?thesis
    using update_not_exists [of now i ?us "[]" s]
    by (auto simp: setPartitionField_def split: prod.splits outcome.splits)
qed

lemma partition_frame:
  assumes "k \<noteq> p @ ''.'' @ i"
  shows "view (snd (svc_Create (WithPartition svc str p) now i d s)) k = view s k"
    and "view (snd (svc_Set (WithPartition svc str p) now i d s)) k = view s k"
    and "view (snd (svc_Update (WithPartition svc str p) now i us ps s)) k = view s k"
    and "view (snd (svc_Delete (WithPartition svc str p) i s)) k = view s k"
  using create_frame [OF assms, of now d s] set_frame [OF assms, of now d s] mark_frame [OF assms]
    update_frame [OF assms, of now us ps s] delete_frame [OF assms, of s]
  by (auto simp: part_Create_def part_Set_def part_Update_def part_Delete_def Let_def split: prod.splits outcome.splits)

text \<open>So partitions nest: a partition keeps the contract of the service under it.\<close>

lemma partition_db: "doc_db (WithPartition svc str p) (\<lambda>s i. view s (p @ ''.'' @ i)) content"
proof
  fix k i now s d us ps u
  show "k \<noteq> i \<Longrightarrow> view (snd (svc_Create (WithPartition svc str p) now i d s)) (p @ ''.'' @ k) = view s (p @ ''.'' @ k)"
    using create_frame [of "p @ ''.'' @ k" "p @ ''.'' @ i" now d s] mark_frame [of "p @ ''.'' @ k" "p @ ''.'' @ i" str p now]
    by (auto simp: part_Create_def Let_def split: prod.splits outcome.splits)
  show "k \<noteq> i \<Longrightarrow> view (snd (svc_Set (WithPartition svc str p) now i d s)) (p @ ''.'' @ k) = view s (p @ ''.'' @ k)"
    using set_frame [of "p @ ''.'' @ k" "p @ ''.'' @ i" now d s] mark_frame [of "p @ ''.'' @ k" "p @ ''.'' @ i" str p now]
    by (auto simp: part_Set_def Let_def split: prod.splits outcome.splits)
  show "fst (svc_Create (WithPartition svc str p) now i d s) = Ok u \<Longrightarrow> view s (p @ ''.'' @ i) = None \<and>
      view (snd (svc_Create (WithPartition svc str p) now i d s)) (p @ ''.'' @ i) \<noteq> None"
    using create_Ok [of now "p @ ''.'' @ i" d s] mark_Ok [of str p now "p @ ''.'' @ i"]
    by (auto simp: part_Create_def Let_def split: prod.splits outcome.splits)
  show "fst (svc_Create (WithPartition svc str p) now i d s) = Err DAlreadyExists \<Longrightarrow> view s (p @ ''.'' @ i) \<noteq> None"
    using create_exists [of now "p @ ''.'' @ i" d s] mark_not_exists [of str p now "p @ ''.'' @ i"]
    by (auto simp: part_Create_def Let_def split: prod.splits outcome.splits)
  show "fst (svc_Set (WithPartition svc str p) now i d s) = Ok u \<Longrightarrow>
      view (snd (svc_Set (WithPartition svc str p) now i d s)) (p @ ''.'' @ i) \<noteq> None"
    using set_Ok [of now "p @ ''.'' @ i" d s] mark_Ok [of str p now "p @ ''.'' @ i"]
    by (auto simp: part_Set_def Let_def split: prod.splits outcome.splits)
next
  fix k i now s s' us ps rcv u f fs
  show "k \<noteq> i \<Longrightarrow> view (snd (svc_Update (WithPartition svc str p) now i us ps s)) (p @ ''.'' @ k) = view s (p @ ''.'' @ k)"
    by (simp add: part_Update_def update_frame)
  show "k \<noteq> i \<Longrightarrow> view (snd (svc_Delete (WithPartition svc str p) i s)) (p @ ''.'' @ k) = view s (p @ ''.'' @ k)"
    by (simp add: part_Delete_def delete_frame)
  show "(\<lambda>i. view (snd (svc_Get (WithPartition svc str p) i' rcv s)) (p @ ''.'' @ i)) = (\<lambda>i. view s (p @ ''.'' @ i))" for i'
    by (simp add: part_Get_def get_reads)
  show "(\<lambda>i. view (snd (svc_List (WithPartition svc str p) fs s)) (p @ ''.'' @ i)) = (\<lambda>i. view s (p @ ''.'' @ i))"
    by (simp add: part_List_def list_reads)
  show "fst (svc_Update (WithPartition svc str p) now i us ps s) = Ok u \<Longrightarrow> view s (p @ ''.'' @ i) \<noteq> None \<and>
      view (snd (svc_Update (WithPartition svc str p) now i us ps s)) (p @ ''.'' @ i) \<noteq> None"
    using update_Ok [of now "p @ ''.'' @ i" us ps s u] by (simp add: part_Update_def)
  show "fst (svc_Update (WithPartition svc str p) now i us ps s) = Err DNotFound \<Longrightarrow> view s (p @ ''.'' @ i) = None"
    using update_missing [of now "p @ ''.'' @ i" us ps s] by (simp add: part_Update_def)
  show "fst (svc_Update (WithPartition svc str p) now i us ps s) \<noteq> Err DAlreadyExists"
    by (simp add: part_Update_def update_not_exists)
  show "fst (svc_Get (WithPartition svc str p) i rcv s) = Ok f \<Longrightarrow> \<exists>d. view s (p @ ''.'' @ i) = Some d \<and> content d = Some f"
    using get_Ok [of "p @ ''.'' @ i" rcv s f] by (simp add: part_Get_def)
  show "fst (svc_Get (WithPartition svc str p) i rcv s) = Err DNotFound \<Longrightarrow> view s (p @ ''.'' @ i) = None"
    using get_missing [of "p @ ''.'' @ i" rcv s] by (simp add: part_Get_def)
  show "view s (p @ ''.'' @ i) = view s' (p @ ''.'' @ i) \<Longrightarrow>
      fst (svc_Get (WithPartition svc str p) i rcv s) = fst (svc_Get (WithPartition svc str p) i rcv s')"
    using get_local [of s "p @ ''.'' @ i" s' rcv] by (simp add: part_Get_def)
  show "fst (svc_Delete (WithPartition svc str p) i s) = Ok u \<Longrightarrow>
      view (snd (svc_Delete (WithPartition svc str p) i s)) (p @ ''.'' @ i) = None"
    using delete_Ok [of "p @ ''.'' @ i" s u] by (simp add: part_Delete_def)
qed

end

interpretation memory_partition: doc_db "WithPartition (memory_service C) str p" "\<lambda>s i. map_of s (p @ ''.'' @ i)"
    "Unmarshal (mem_marshaler C)" for C str p
  by (rule memory.partition_db)

section \<open>Isolation\<close>

lemma partition_id_inject:
  assumes "CHR ''.'' \<notin> set p" "CHR ''.'' \<notin> set q"
  shows "p @ ''.'' @ i = q @ ''.'' @ j \<longleftrightarrow> p = q \<and> i = j"
  using assms
proof (induction p arbitrary: q)
  case Nil
  then show ?case by (cases q) auto
next
  case (Cons a p)
  then show ?case by (cases q) auto
qed

end
