(* ===== verification/DocClaims.thy ===== *)
theory DocClaims
  imports DocPartition
begin

text \<open>Properties of the in-memory document service and of partitions over it.\<close>

section \<open>The codec\<close>

text \<open>
  What the code relies on of a codec: what it marshals it unmarshals, to the fields \<open>enc\<close> of the
  value; those of a map are its entries with normalised values (a bson date for a time, say).
\<close>

definition codec_law :: "('v, 'b) marshaler \<Rightarrow> ('v gval \<Rightarrow> 'v fields) \<Rightarrow> ('v gvalue \<Rightarrow> 'v gvalue) \<Rightarrow> bool" where
  "codec_law M enc norm \<longleftrightarrow>
     (\<forall>d b. Marshal M d = Some b \<longrightarrow> Unmarshal M b = Some (enc d)) \<and>
     (\<forall>f. enc (GMap True f) = map (\<lambda>(k, v). (k, norm v)) f)"

text \<open>A codec that satisfies it, storing the fields themselves.\<close>

fun plain_fields :: "'v gval \<Rightarrow> 'v fields option" where
  "plain_fields (GStruct f) = Some f"
| "plain_fields (GMap a f) = Some f"
| "plain_fields (GPtr (Some (GStruct f))) = Some f"
| "plain_fields v = None"

definition plain_codec :: "('v, 'v fields) marshaler" where
  "plain_codec = \<lparr>Marshal = plain_fields, Unmarshal = Some, DefaultLowerCase = False\<rparr>"

definition plain_config :: "(string, string fields) memory_config" where
  "plain_config = \<lparr>mem_marshaler = plain_codec, mem_asserts = \<lparr>EqualValues = (=), Greater = (\<lambda>a b. False),
     GreaterOrEqual = (=), Less = (\<lambda>a b. False), LessOrEqual = (=)\<rparr>\<rparr>"

lemma plain_codec_law: "codec_law plain_codec (\<lambda>d. the (plain_fields d)) id"
  by (simp add: codec_law_def plain_codec_def)

lemma plain_config_simps [simp]:
  "mem_marshaler plain_config = plain_codec" "Marshal plain_codec = plain_fields" "Unmarshal plain_codec = Some"
  "DefaultLowerCase plain_codec = False" "EqualValues (mem_asserts plain_config) = (=)"
  by (simp_all add: plain_config_def plain_codec_def)

section \<open>Updates\<close>

definition update_heads :: "bool \<Rightarrow> 'v doc_update list \<Rightarrow> string set" where
  "update_heads lowerCase us = (\<lambda>u. hd (case_path lowerCase (up_FieldPath u))) ` set us"

lemma updateField_other: "updateField f path v = Ok f' \<Longrightarrow> k \<noteq> hd path \<Longrightarrow> map_of f' k = map_of f k"
  by (induction f path v rule: updateField.induct)
    (auto simp: outcome_simps update_conv' split: option.splits gvalue.splits)

lemma apply_updates_other:
  "apply_updates l uf us f = Ok f' \<Longrightarrow> k \<notin> update_heads l us \<Longrightarrow> map_of f' k = map_of f k"
proof (induction l uf us f rule: apply_updates.induct)
  case (2 l uf u us f)
  show ?case
  proof (cases "hd (up_FieldPath u) = uf")
    case True
    then show ?thesis using 2 by (auto simp: update_heads_def split: if_splits)
  next
    case False
    then obtain f1 where f1: "updateField f (case_path l (up_FieldPath u)) (up_Value u) = Ok f1"
      "apply_updates l uf us f1 = Ok f'"
      using 2(3) by (auto simp: outcome_simps split: if_splits)
    then show ?thesis using 2(2,3,4) False updateField_other [OF f1(1), of k]
      by (auto simp: update_heads_def split: if_splits)
  qed
qed simp

lemma apply_updates_last:
  assumes "apply_updates l uf (us1 @ u # us2) f = Ok f'" and "case_path l (up_FieldPath u) = [k]"
    and "hd (up_FieldPath u) \<noteq> uf" and "k \<notin> update_heads l us2"
  shows "map_of f' k = Some (up_Value u)"
  using assms(1)
proof (induction us1 arbitrary: f)
  case Nil
  then obtain f1 where "updateField f [k] (up_Value u) = Ok f1" "apply_updates l uf us2 f1 = Ok f'"
    using assms(2,3) by (auto simp: outcome_simps split: if_splits)
  then show ?case using apply_updates_other assms(4) by (fastforce simp: update_conv')
next
  case (Cons a us1)
  then show ?case by (auto simp: outcome_simps split: if_splits)
qed

lemma check_preconds_Ok:
  "check_preconds l f ps = Ok u \<Longrightarrow> p \<in> set ps \<Longrightarrow> precondField f (case_path l (up_FieldPath p)) (up_Value p) = Ok True"
proof (induction l f ps rule: check_preconds.induct)
  case (2 l f c cs)
  then obtain b where b: "precondField f (case_path l (up_FieldPath c)) (up_Value c) = Ok b"
    "b \<and> check_preconds l f cs = Ok u" "up_FieldPath c \<noteq> []"
    by (simp add: andThen_eq_Ok split: if_splits)
  then show ?case using 2 by (cases "p = c") simp_all
qed simp

lemma Unmarshal_Encode_map:
  assumes "codec_law M enc norm" "Encode M now now' (GMap True f) False = Ok b"
  shows "Unmarshal M b = Some (map (\<lambda>(k, v). (k, norm v))
    (AList.update (if DefaultLowerCase M then LowerUpdatedAtField else DefaultUpdatedAtField) (VTime now) f))"
proof -
  let ?f = "AList.update (if DefaultLowerCase M then LowerUpdatedAtField else DefaultUpdatedAtField) (VTime now) f"
  have "Marshal M (GMap True ?f) = Some b"
    using assms(2) by (simp add: Encode_def UpdateUpdatedAtField_def UpdateDefaultUpdatedAtField_def
        Let_def setMapField_def outcome_simps)
  then have "Unmarshal M b = Some (enc (GMap True ?f))" using assms(1) unfolding codec_law_def by blast
  moreover have "enc (GMap True ?f) = map (\<lambda>(k, v). (k, norm v)) ?f" using assms(1) unfolding codec_law_def by blast
  ultimately show ?thesis by simp
qed

text \<open>
  C13 (memory_update_exact). An update that succeeds was allowed by every precondition, wrote the last
  value given for each named field and the time of the update, and left every field it does not name, and
  every other document, as it was, up to the normal form of the codec.
\<close>

theorem memory_update_exact:
  assumes codec: "codec_law (mem_marshaler C) enc norm"
    and upd: "mem_Update C now i us ps s = (Ok u, s')" and before: "mem_getValue C i map_ptr s = Ok f"
    and l: "l = DefaultLowerCase (mem_marshaler C)"
    and stamp: "stamp = (if l then LowerUpdatedAtField else DefaultUpdatedAtField)"
  shows "\<exists>f'. mem_getValue C i map_ptr s' = Ok f' \<and>
    map_of f' stamp = Some (norm (VTime now)) \<and>
    (\<forall>k. k \<notin> update_heads l us \<and> k \<noteq> stamp \<longrightarrow> map_of f' k = map_option norm (map_of f k)) \<and>
    (\<forall>us1 x us2 k. us = us1 @ x # us2 \<and> case_path l (up_FieldPath x) = [k] \<and> hd (up_FieldPath x) \<noteq> stamp \<and>
       k \<noteq> stamp \<and> k \<notin> update_heads l us2 \<longrightarrow> map_of f' k = Some (norm (up_Value x))) \<and>
    (\<forall>p \<in> set ps. precondField f (case_path l (up_FieldPath p)) (up_Value p) = Ok True) \<and>
    (\<forall>j. j \<noteq> i \<longrightarrow> map_of s' j = map_of s j)"
proof -
  let ?M = "mem_marshaler C"
  obtain f2 b where f2: "UpdateProto ?M now us f ps = Ok f2" and b: "Encode ?M now now (GMap True f2) False = Ok b"
    and s': "s' = AList.update i b s"
    using upd before by (auto simp: mem_Update_def outcome_simps split: outcome.splits if_splits)
  obtain f1 where pre: "check_preconds l f ps = Ok ()" and f1: "apply_updates l stamp us f = Ok f1"
    and f2': "f2 = AList.update stamp (VTime now) f1"
    using f2 unfolding UpdateProto_def Let_def l stamp by (auto simp: outcome_simps)
  let ?f' = "map (\<lambda>(k, v). (k, norm v)) (AList.update stamp (VTime now) f2)"
  have "Unmarshal ?M b = Some ?f'" using Unmarshal_Encode_map [OF codec b] by (simp add: l stamp)
  then have "mem_getValue C i map_ptr s' = Ok ?f'"
    by (simp add: mem_getValue_def s' update_conv' SafeDecode_def map_ptr_def decode_def)
  moreover have get': "map_of ?f' k = map_option norm (if k = stamp then Some (VTime now) else map_of f1 k)" for k
    by (simp add: map_of_map update_conv' f2')
  moreover have "map_of ?f' k = map_option norm (map_of f k)" if "k \<notin> update_heads l us" "k \<noteq> stamp" for k
    using get' [of k] that apply_updates_other [OF f1 that(1)] by simp
  moreover have "map_of ?f' k = Some (norm (up_Value x))"
    if "us = us1 @ x # us2" "case_path l (up_FieldPath x) = [k]" "hd (up_FieldPath x) \<noteq> stamp" "k \<noteq> stamp"
      "k \<notin> update_heads l us2" for us1 x us2 k
    using get' [of k] that apply_updates_last [of l stamp us1 x us2 f f1 k] f1 by simp
  moreover have "map_of s' j = map_of s j" if "j \<noteq> i" for j using that by (simp add: s' update_conv')
  moreover have "precondField f (case_path l (up_FieldPath p)) (up_Value p) = Ok True" if "p \<in> set ps" for p
    using check_preconds_Ok [OF pre that] .
  moreover have "map_of ?f' stamp = Some (norm (VTime now))" using get' [of stamp] by simp
  ultimately show ?thesis by blast
qed

definition sample_store :: "(string \<times> string fields) list" where
  "sample_store = [(''d1'', [(''Name'', VLeaf ''x''), (''Size'', VLeaf ''1'')])]"

lemma sample_update: "mem_Update plain_config now ''d1'' [\<lparr>up_FieldPath = [''Size''], up_Value = VLeaf ''2''\<rparr>]
    [\<lparr>up_FieldPath = [''Name''], up_Value = VLeaf ''x''\<rparr>] sample_store =
    (Ok (), [(''d1'', [(''Name'', VLeaf ''x''), (''Size'', VLeaf ''2''), (''UpdatedAt'', VTime now)])])"
  by (simp add: mem_Update_def mem_getValue_def sample_store_def SafeDecode_def map_ptr_def decode_def
      UpdateProto_def Let_def case_path_def field_value_def DefaultUpdatedAtField_def Encode_def
      UpdateUpdatedAtField_def UpdateDefaultUpdatedAtField_def setMapField_def)

theorem memory_update_exact_witness:
  "\<exists>f'. mem_getValue plain_config ''d1'' map_ptr
      (snd (mem_Update plain_config zeroTime ''d1'' [\<lparr>up_FieldPath = [''Size''], up_Value = VLeaf ''2''\<rparr>]
        [\<lparr>up_FieldPath = [''Name''], up_Value = VLeaf ''x''\<rparr>] sample_store)) = Ok f' \<and>
     map_of f' ''UpdatedAt'' = Some (VTime zeroTime)"
proof -
  have "mem_getValue plain_config ''d1'' map_ptr sample_store = Ok [(''Name'', VLeaf ''x''), (''Size'', VLeaf ''1'')]"
    by (simp add: mem_getValue_def sample_store_def SafeDecode_def map_ptr_def decode_def)
  note upd = memory_update_exact [OF _ sample_update [of zeroTime] this refl refl, of "\<lambda>d. the (plain_fields d)" id]
  have "codec_law (mem_marshaler plain_config) (\<lambda>d. the (plain_fields d)) id" by (simp add: plain_codec_law)
  from upd [OF this] show ?thesis unfolding sample_update snd_conv
    by (elim exE conjE) (intro exI conjI, assumption, simp add: DefaultUpdatedAtField_def)
qed

section \<open>Creating and reading back\<close>

definition stamped :: "gotime \<Rightarrow> 'v fields \<Rightarrow> string \<Rightarrow> 'v gvalue option" where
  "stamped now f k = (case map_of f k of
     Some (VTime t) \<Rightarrow> Some (VTime (if k \<in> {DefaultCreatedAtField, DefaultUpdatedAtField} then now else t))
   | v \<Rightarrow> v)"

lemma reflectSetTimeField_Ok: "reflectSetTimeField f k t = Ok f' \<Longrightarrow>
    map_of f' j = (case map_of f j of Some (VTime t') \<Rightarrow> Some (VTime (if j = k then t else t')) | v \<Rightarrow> v)"
  by (auto simp: reflectSetTimeField_def update_conv' split: option.splits gvalue.splits)

lemma DerefCreateValue_Ok: "DerefCreateValue v = Ok d \<Longrightarrow> (\<exists>f. d = GStruct f) \<or> (\<exists>a f. d = GMap a f)"
  by (induction v rule: DerefCreateValue.induct) auto

lemma Encode_created:
  assumes "Encode M now now d True = Ok b" "DerefCreateValue v = Ok d"
  shows "(\<exists>f f'. d = GStruct f \<and> Marshal M (GStruct f') = Some b \<and> (\<forall>k. map_of f' k = stamped now f k)) \<or>
    (\<exists>f. d = GMap True f \<and> Marshal M (GMap True f) = Some b)"
  using DerefCreateValue_Ok [OF assms(2)]
proof
  assume "\<exists>f. d = GStruct f"
  then obtain f where d: "d = GStruct f" by blast
  then obtain f1 f2 where f1: "reflectSetTimeField f DefaultCreatedAtField now = Ok f1"
    and f2: "reflectSetTimeField f1 DefaultUpdatedAtField now = Ok f2" and m: "Marshal M (GStruct f2) = Some b"
    using assms(1) by (auto simp: Encode_def UpdateCreatedAtField_def UpdateDefaultCreatedAtField_def Let_def outcome_simps)
  have "map_of f2 k = stamped now f k" for k
    using reflectSetTimeField_Ok [OF f1, of k] reflectSetTimeField_Ok [OF f2, of k]
    by (auto simp: stamped_def DefaultCreatedAtField_def DefaultUpdatedAtField_def split: option.splits gvalue.splits)
  then show ?thesis using d m by blast
next
  assume "\<exists>a f. d = GMap a f"
  then obtain a f where d: "d = GMap a f" by blast
  then have "a" using assms(1)
    by (cases a) (auto simp: Encode_def UpdateCreatedAtField_def UpdateDefaultCreatedAtField_def Let_def)
  then show ?thesis using assms(1) d
    by (auto simp: Encode_def UpdateCreatedAtField_def UpdateDefaultCreatedAtField_def Let_def outcome_simps)
qed

text \<open>
  C14 (memory_create_get). A creation that succeeds found no document, and reading it gives the fields
  of the value passed, behind however many pointers: of a struct with its time fields CreatedAt and
  UpdatedAt set to the time of the creation, but of a map exactly the entries passed, without either
  stamp. A second creation is refused.
\<close>

theorem memory_create_get:
  assumes "codec_law (mem_marshaler C) enc norm" and "mem_Create C now i data s = (Ok u, s')"
  shows "map_of s i = None \<and> \<not> is_ok (fst (mem_Create C now' i data' s')) \<and>
    ((\<exists>f f'. DerefCreateValue data = Ok (GStruct f) \<and> mem_getValue C i map_ptr s' = Ok (enc (GStruct f')) \<and>
        (\<forall>k. map_of f' k = stamped now f k)) \<or>
     (\<exists>f. DerefCreateValue data = Ok (GMap True f) \<and>
        mem_getValue C i map_ptr s' = Ok (map (\<lambda>(k, v). (k, norm v)) f)))"
proof -
  have law: "Marshal (mem_marshaler C) d = Some b \<Longrightarrow> Unmarshal (mem_marshaler C) b = Some (enc d)"
    "enc (GMap True f) = map (\<lambda>(k, v). (k, norm v)) f" for d b f
    using assms(1) unfolding codec_law_def by blast+
  have run: "mem_set C now i data True s = (Ok u, s')" using assms(2) by (simp add: mem_Create_def)
  obtain d b where d: "DerefCreateValue data = Ok d" and fresh: "map_of s i = None"
    and b: "Encode (mem_marshaler C) now now d True = Ok b" and s': "s' = AList.update i b s"
    using run by (auto simp: mem_set_def split: outcome.splits if_splits)
  have get: "Unmarshal (mem_marshaler C) b = Some f \<Longrightarrow> mem_getValue C i map_ptr s' = Ok f" for f
    by (simp add: mem_getValue_def s' update_conv' SafeDecode_def map_ptr_def decode_def)
  have "\<not> is_ok (fst (mem_Create C now' i data' s'))"
    using mem_set_Ok [of C now' i data' True s'] s' by (auto simp: is_ok_iff mem_Create_def update_conv')
  then show ?thesis using Encode_created [OF b d] fresh d law get by metis
qed

theorem memory_create_get_witness:
  "\<exists>f. mem_getValue plain_config ''a'' map_ptr (snd (mem_Create plain_config zeroTime ''a''
      (GPtr (Some (GMap True [(''Name'', VLeaf ''x'')]))) [])) = Ok f \<and> map_of f ''CreatedAt'' = None"
proof -
  have run: "mem_Create plain_config zeroTime ''a'' (GPtr (Some (GMap True [(''Name'', VLeaf ''x'')]))) [] =
      (Ok (), [(''a'', [(''Name'', VLeaf ''x'')])])"
    by (simp add: mem_Create_def mem_set_def Encode_def UpdateCreatedAtField_def UpdateDefaultCreatedAtField_def Let_def)
  have "codec_law (mem_marshaler plain_config) (\<lambda>d. the (plain_fields d)) id" by (simp add: plain_codec_law)
  from memory_create_get [OF this run] show ?thesis unfolding run by auto
qed

section \<open>Listing\<close>

lemma MatchesAllFilters_not_Err [simp]: "MatchesAllFilters A l f fs \<noteq> Err e"
proof -
  have "match_path A g p oper v \<noteq> Err e" for g p oper v
    by (induction A g p oper v rule: match_path.induct)
      (auto simp: doMatchFilter_def split: op.splits option.splits gvalue.splits)
  then show ?thesis
    by (induction A l f fs rule: MatchesAllFilters.induct) (auto simp: MatchFilter_def outcome_simps split: if_splits)
qed

definition selected :: "('v, 'b) memory_config \<Rightarrow> 'v doc_filter list \<Rightarrow> 'b \<Rightarrow> 'v fields option" where
  "selected C fs raw = (case Unmarshal (mem_marshaler C) raw of
     None \<Rightarrow> None
   | Some f \<Rightarrow>
       if MatchesAllFilters (mem_asserts C) (DefaultLowerCase (mem_marshaler C)) f fs = Ok True then Some f else None)"

definition filter_panics :: "('v, 'b) memory_config \<Rightarrow> 'v doc_filter list \<Rightarrow> 'b \<Rightarrow> bool" where
  "filter_panics C fs raw \<longleftrightarrow> (\<exists>f. Unmarshal (mem_marshaler C) raw = Some f \<and>
     MatchesAllFilters (mem_asserts C) (DefaultLowerCase (mem_marshaler C)) f fs = Panic)"

lemma Extend_eq: "Extend (mem_marshaler C) (mem_asserts C) fs raw it =
    (if filter_panics C fs raw then Panic
     else Ok (it\<lparr>li_docs := li_docs it @ (if selected C fs raw = None then [] else [raw])\<rparr>))"
proof (cases "Unmarshal (mem_marshaler C) raw")
  case None
  then show ?thesis by (simp add: Extend_def decode_def selected_def filter_panics_def)
next
  case (Some f)
  then show ?thesis
    by (cases "MatchesAllFilters (mem_asserts C) (DefaultLowerCase (mem_marshaler C)) f fs")
      (auto simp: Extend_def decode_def selected_def filter_panics_def)
qed

lemma extend_all_eq: "extend_all (mem_marshaler C) (mem_asserts C) fs raws it =
    (if \<exists>raw \<in> set raws. filter_panics C fs raw then Panic
     else Ok (it\<lparr>li_docs := li_docs it @ filter (\<lambda>raw. selected C fs raw \<noteq> None) raws\<rparr>))"
  by (induction raws arbitrary: it) (auto simp: Extend_eq)

lemma drain_selected: "drain_docs (mem_marshaler C) (filter (\<lambda>raw. selected C fs raw \<noteq> None) raws) =
    Ok (List.map_filter (selected C fs) raws)"
proof (induction raws)
  case (Cons raw raws)
  show ?case
  proof (cases "selected C fs raw")
    case (Some f)
    then have "Unmarshal (mem_marshaler C) raw = Some f" by (auto simp: selected_def split: option.splits if_splits)
    then show ?thesis using Cons Some by (simp add: SafeDecode_def map_ptr_def decode_def List.map_filter_simps)
  qed (use Cons in \<open>simp add: List.map_filter_simps\<close>)
qed (simp add: List.map_filter_simps)

lemma memory_list_eq:
  "svc_List (memory_service C) fs s =
     (if \<exists>raw \<in> snd ` set s. filter_panics C fs raw then Panic
      else Ok (List.map_filter (selected C fs) (map snd s)), s)"
proof -
  have "svc_List (memory_service C) fs s =
      (if \<exists>raw \<in> set (map snd s). filter_panics C fs raw then Panic
       else drain_docs (mem_marshaler C) (filter (\<lambda>raw. selected C fs raw \<noteq> None) (map snd s)), s)"
    by (simp add: mem_List_def extend_all_eq del: not_None_eq)
  then show ?thesis unfolding drain_selected by simp
qed

subsection \<open>What a filter means\<close>

text \<open>
  Independently of the code: the value at the end of a path, which is nil for a last name that is
  missing and does not exist past a missing or nil name; a path is navigable where every value it
  passes through is a map or nil; and the comparison each operator stands for, of the stored value with
  the value of the filter. \<open>eqv\<close> says which values count as equal, \<open>key\<close> gives the
  ordered values their kind and their position in the order of that kind.
\<close>

fun value_at :: "'v gvalue \<Rightarrow> string list \<Rightarrow> 'v gvalue option" where
  "value_at v [] = Some v"
| "value_at (VMap m) (k # ks) = value_at (field_value m k) ks"
| "value_at v (k # ks) = None"

fun passable :: "'v gvalue \<Rightarrow> bool" where
  "passable VNil = True"
| "passable (VMap m) = True"
| "passable v = False"

definition navigable :: "'v fields \<Rightarrow> string list \<Rightarrow> bool" where
  "navigable f path \<longleftrightarrow>
     (\<forall>n < length path. case value_at (VMap f) (take n path) of None \<Rightarrow> True | Some w \<Rightarrow> passable w)"

definition above :: "('v gvalue \<Rightarrow> (string \<times> 'k::linorder) option) \<Rightarrow> 'v gvalue \<Rightarrow> 'v gvalue \<Rightarrow> bool" where
  "above key a b \<longleftrightarrow>
     (case (key a, key b) of (Some (t, x), Some (u, y)) \<Rightarrow> t = u \<and> y < x | _ \<Rightarrow> False)"

fun op_holds ::
  "('v gvalue \<Rightarrow> 'v gvalue \<Rightarrow> bool) \<Rightarrow> ('v gvalue \<Rightarrow> (string \<times> 'k::linorder) option) \<Rightarrow>
   op \<Rightarrow> 'v gvalue \<Rightarrow> 'v gvalue \<Rightarrow> bool" where
  "op_holds eqv key OpEqual v w = eqv v w"
| "op_holds eqv key OpGreaterThan v w = above key v w"
| "op_holds eqv key OpLessThan v w = above key w v"
| "op_holds eqv key OpGreaterThanEqual v w = (eqv v w \<or> above key v w)"
| "op_holds eqv key OpLessThanEqual v w = (eqv v w \<or> above key w v)"
| "op_holds eqv key (OpOther x) v w = False"

definition stored_path :: "('v, 'b) memory_config \<Rightarrow> 'v doc_filter \<Rightarrow> string list" where
  "stored_path C q = (if DefaultLowerCase (mem_marshaler C) then map ToLower (fl_FieldPath q) else fl_FieldPath q)"

definition meets ::
  "('v, 'b) memory_config \<Rightarrow> ('v gvalue \<Rightarrow> 'v gvalue \<Rightarrow> bool) \<Rightarrow> ('v gvalue \<Rightarrow> (string \<times> 'k::linorder) option) \<Rightarrow>
   'v fields \<Rightarrow> 'v doc_filter \<Rightarrow> bool" where
  "meets C eqv key f q \<longleftrightarrow>
     (case value_at (VMap f) (stored_path C q) of None \<Rightarrow> False | Some v \<Rightarrow> op_holds eqv key (fl_Op q) v (fl_Value q))"

text \<open>
  What is relied on of the assertion library: equality is \<open>eqv\<close>, the orderings compare two values
  of one kind by their position, and values of one kind at one position are equal.
\<close>

definition asserts_by ::
  "('v gvalue \<Rightarrow> 'v gvalue \<Rightarrow> bool) \<Rightarrow> ('v gvalue \<Rightarrow> (string \<times> 'k::linorder) option) \<Rightarrow> 'v asserts \<Rightarrow> bool" where
  "asserts_by eqv key A \<longleftrightarrow> (\<forall>a b.
     EqualValues A a b = eqv a b \<and> Greater A a b = above key a b \<and> Less A a b = above key b a \<and>
     GreaterOrEqual A a b = (above key a b \<or> key a \<noteq> None \<and> key a = key b) \<and>
     LessOrEqual A a b = (above key b a \<or> key a \<noteq> None \<and> key a = key b) \<and>
     (key a \<noteq> None \<and> key a = key b \<longrightarrow> eqv a b))"

definition proper_filter :: "'v doc_filter \<Rightarrow> bool" where
  "proper_filter q \<longleftrightarrow> fl_FieldPath q \<noteq> [] \<and> (\<forall>x. fl_Op q \<noteq> OpOther x)"

lemma doMatchFilter_means:
  "asserts_by eqv key A \<Longrightarrow> \<forall>x. oper \<noteq> OpOther x \<Longrightarrow> doMatchFilter A v oper w = Ok (op_holds eqv key oper v w)"
  unfolding asserts_by_def doMatchFilter_def by (cases oper) auto

lemma value_at_VNil [simp]: "value_at VNil ks = (if ks = [] then Some VNil else None)"
  by (cases ks) simp_all

lemma navigable_Cons: "navigable f (k # ks) \<longleftrightarrow> ks = [] \<or>
    (case field_value f k of VNil \<Rightarrow> True | VMap m \<Rightarrow> navigable m ks | _ \<Rightarrow> False)"
proof (cases "ks = []")
  case False
  have "navigable f (k # ks) \<longleftrightarrow>
      (\<forall>n < length ks. case value_at (field_value f k) (take n ks) of None \<Rightarrow> True | Some w \<Rightarrow> passable w)"
    unfolding navigable_def by (simp add: All_less_Suc2)
  moreover have "\<not> passable v \<Longrightarrow>
      \<not> (\<forall>n < length ks. case value_at v (take n ks) of None \<Rightarrow> True | Some w \<Rightarrow> passable w)" for v :: "'a gvalue"
    using False by (auto intro!: exI [of _ 0])
  ultimately show ?thesis
    using False by (cases "field_value f k") (simp_all add: navigable_def)
qed (simp add: navigable_def)

lemma match_path_means:
  assumes "asserts_by eqv key A" "\<forall>x. oper \<noteq> OpOther x"
  shows "path \<noteq> [] \<Longrightarrow> match_path A f path oper w =
    (if \<not> navigable f path then Panic
     else Ok (case value_at (VMap f) path of None \<Rightarrow> False | Some v \<Rightarrow> op_holds eqv key oper v w))"
proof (induction path arbitrary: f)
  case (Cons k ks)
  show ?case
  proof (cases ks)
    case Nil
    then show ?thesis using doMatchFilter_means [OF assms] by (simp add: navigable_Cons)
  next
    case (Cons k' ks')
    then show ?thesis
      using Cons.IH by (auto simp: navigable_Cons [of f k] field_value_def split: option.splits gvalue.splits)
  qed
qed simp

text \<open>A document on which a filter's path is not navigable while the filters before it are satisfied.\<close>

definition stuck_on ::
  "('v, 'b) memory_config \<Rightarrow> ('v gvalue \<Rightarrow> 'v gvalue \<Rightarrow> bool) \<Rightarrow> ('v gvalue \<Rightarrow> (string \<times> 'k::linorder) option) \<Rightarrow>
   'v doc_filter list \<Rightarrow> 'v fields \<Rightarrow> bool" where
  "stuck_on C eqv key fs f \<longleftrightarrow> (\<exists>as q bs. fs = as @ q # bs \<and> (\<forall>p \<in> set as. meets C eqv key f p) \<and>
     \<not> navigable f (stored_path C q))"

lemma stuck_on_simps [simp]:
  "\<not> stuck_on C eqv key [] f"
  "stuck_on C eqv key (q # fs) f \<longleftrightarrow>
     \<not> navigable f (stored_path C q) \<or> meets C eqv key f q \<and> stuck_on C eqv key fs f"
proof -
  show "stuck_on C eqv key (q # fs) f \<longleftrightarrow>
      \<not> navigable f (stored_path C q) \<or> meets C eqv key f q \<and> stuck_on C eqv key fs f"
  proof
    assume "stuck_on C eqv key (q # fs) f"
    then obtain as p bs where *: "q # fs = as @ p # bs" "\<forall>p \<in> set as. meets C eqv key f p" "\<not> navigable f (stored_path C p)"
      unfolding stuck_on_def by blast
    then show "\<not> navigable f (stored_path C q) \<or> meets C eqv key f q \<and> stuck_on C eqv key fs f"
      unfolding stuck_on_def by (cases as) auto
  next
    assume "\<not> navigable f (stored_path C q) \<or> meets C eqv key f q \<and> stuck_on C eqv key fs f"
    then show "stuck_on C eqv key (q # fs) f"
    proof
      assume "\<not> navigable f (stored_path C q)"
      then show ?thesis unfolding stuck_on_def by (intro exI [of _ "[]"]) auto
    next
      assume *: "meets C eqv key f q \<and> stuck_on C eqv key fs f"
      then obtain as p bs where "fs = as @ p # bs" "\<forall>p \<in> set as. meets C eqv key f p" "\<not> navigable f (stored_path C p)"
        unfolding stuck_on_def by blast
      then show ?thesis using * unfolding stuck_on_def by (intro exI [of _ "q # as"]) auto
    qed
  qed
qed (simp add: stuck_on_def)

lemma MatchesAllFilters_means:
  assumes "asserts_by eqv key (mem_asserts C)" "\<forall>q \<in> set fs. proper_filter q"
  shows "MatchesAllFilters (mem_asserts C) (DefaultLowerCase (mem_marshaler C)) f fs =
    (if stuck_on C eqv key fs f then Panic else Ok (\<forall>q \<in> set fs. meets C eqv key f q))"
  using assms(2)
proof (induction fs)
  case (Cons q fs)
  have "MatchFilter (mem_asserts C) f (q\<lparr>fl_FieldPath := case_path (DefaultLowerCase (mem_marshaler C)) (fl_FieldPath q)\<rparr>) =
      (if \<not> navigable f (stored_path C q) then Panic else Ok (meets C eqv key f q))"
    using match_path_means [OF assms(1), of "fl_Op q" "stored_path C q" f "fl_Value q"] Cons.prems
    by (auto simp: MatchFilter_def proper_filter_def case_path_def stored_path_def meets_def)
  then show ?case using Cons by simp
qed simp

lemma selected_filter:
  assumes "\<And>f. MatchesAllFilters (mem_asserts C) (DefaultLowerCase (mem_marshaler C)) f fs =
      (if B f then Panic else Ok (P f))"
    and "\<forall>raw \<in> snd ` set s. \<not> filter_panics C fs raw"
  shows "List.map_filter (selected C fs) (map snd s) =
    filter P (List.map_filter (\<lambda>(i, raw). Unmarshal (mem_marshaler C) raw) s)"
  using assms(2)
  by (induction s) (auto simp: selected_def filter_panics_def assms(1) List.map_filter_simps split: option.splits)

text \<open>
  C15 (memory_list_exact). Listing gives, in the order of the store, exactly the stored documents whose
  values satisfy every filter: the value at the filter's path, compared with the filter's value by the
  filter's operator. A document that does not decode is skipped. The call panics if and only if, on some
  stored document, a filter's path leads through a value that is neither a map nor nil while the document
  satisfies all the filters before it; it never returns an error and changes nothing. The filters have a
  path and a known operator, and the assertion library compares as \<open>asserts_by\<close> says. (The
  comparisons are of the stored value with the filter's, so \<open>OpGreaterThan\<close> selects documents
  whose stored value is the greater one.)
\<close>

theorem memory_list_exact:
  assumes "asserts_by eqv key (mem_asserts C)" and "\<forall>q \<in> set fs. proper_filter q"
  shows "svc_List (memory_service C) fs s =
    (if \<exists>(i, raw) \<in> set s. \<exists>f. Unmarshal (mem_marshaler C) raw = Some f \<and> stuck_on C eqv key fs f then Panic
     else Ok (filter (\<lambda>f. \<forall>q \<in> set fs. meets C eqv key f q)
           (List.map_filter (\<lambda>(i, raw). Unmarshal (mem_marshaler C) raw) s)), s)"
proof -
  note means = MatchesAllFilters_means [OF assms]
  have panic: "(\<exists>(i, raw) \<in> set s. \<exists>f. Unmarshal (mem_marshaler C) raw = Some f \<and> stuck_on C eqv key fs f) \<longleftrightarrow>
      (\<exists>raw \<in> snd ` set s. filter_panics C fs raw)"
    by (force simp: filter_panics_def means)
  show ?thesis
    unfolding memory_list_eq panic
    by (cases "\<exists>raw \<in> snd ` set s. filter_panics C fs raw") (use selected_filter [OF means, of s] in simp_all)
qed

definition ordered_config :: "(int, int fields) memory_config" where
  "ordered_config = \<lparr>mem_marshaler = plain_codec, mem_asserts =
     \<lparr>EqualValues = (=),
      Greater = (\<lambda>a b. case (a, b) of (VLeaf x, VLeaf y) \<Rightarrow> y < x | _ \<Rightarrow> False),
      GreaterOrEqual = (\<lambda>a b. case (a, b) of (VLeaf x, VLeaf y) \<Rightarrow> y \<le> x | _ \<Rightarrow> False),
      Less = (\<lambda>a b. case (a, b) of (VLeaf x, VLeaf y) \<Rightarrow> x < y | _ \<Rightarrow> False),
      LessOrEqual = (\<lambda>a b. case (a, b) of (VLeaf x, VLeaf y) \<Rightarrow> x \<le> y | _ \<Rightarrow> False)\<rparr>\<rparr>"

definition leaf_key :: "int gvalue \<Rightarrow> (string \<times> int) option" where
  "leaf_key v = (case v of VLeaf x \<Rightarrow> Some (''int'', x) | _ \<Rightarrow> None)"

lemma ordered_asserts: "asserts_by (=) leaf_key (mem_asserts ordered_config)"
  by (auto simp: asserts_by_def ordered_config_def leaf_key_def above_def split: gvalue.splits)

theorem memory_list_exact_witness:
  "fst (svc_List (memory_service ordered_config)
      [\<lparr>fl_FieldPath = [''a'', ''n''], fl_Value = VLeaf 3, fl_Op = OpGreaterThan\<rparr>]
      [(''x'', [(''a'', VMap [(''n'', VLeaf 5)])]), (''y'', [(''a'', VMap [(''n'', VLeaf 2)])]), (''z'', [])]) =
    Ok [[(''a'', VMap [(''n'', VLeaf 5)])]]"
proof -
  let ?q = "\<lparr>fl_FieldPath = [''a'', ''n''], fl_Value = VLeaf 3, fl_Op = OpGreaterThan\<rparr> :: int doc_filter"
  have C: "mem_marshaler ordered_config = plain_codec" by (simp add: ordered_config_def)
  have "\<forall>q \<in> set [?q]. proper_filter q" by (simp add: proper_filter_def)
  note list = memory_list_exact [OF ordered_asserts this]
  show ?thesis
    unfolding list
    by (simp add: C meets_def stored_path_def navigable_Cons field_value_def above_def leaf_key_def
        List.map_filter_simps navigable_def All_less_Suc2)
qed

section \<open>Partitions\<close>

text \<open>
  The documents of a partition are those with its prefix; each carries the partition's mark, a field
  that listing filters on. \<open>mark_field\<close> is the name of the field as it is stored. A document is
  bare of a field when it does not decode with it.
\<close>

definition mark_field :: "('v, 'b) memory_config \<Rightarrow> string \<Rightarrow> string" where
  "mark_field C p = (if DefaultLowerCase (mem_marshaler C) then ToLower (''__partition_'' @ p) else ''__partition_'' @ p)"

definition bare :: "('v, 'b) memory_config \<Rightarrow> string \<Rightarrow> 'b \<Rightarrow> bool" where
  "bare C k raw \<longleftrightarrow> (\<forall>f. Unmarshal (mem_marshaler C) raw = Some f \<longrightarrow> map_of f k = None)"

definition bare_at :: "('v, 'b) memory_config \<Rightarrow> string \<Rightarrow> string \<Rightarrow> 'b storage \<Rightarrow> bool" where
  "bare_at C k i s \<longleftrightarrow> (\<forall>raw. (i, raw) \<in> set s \<longrightarrow> bare C k raw)"

definition bare_partition :: "('v, 'b) memory_config \<Rightarrow> string \<Rightarrow> string \<Rightarrow> 'b storage \<Rightarrow> bool" where
  "bare_partition C k p s \<longleftrightarrow> (\<forall>i. bare_at C k (p @ ''.'' @ i) s)"

text \<open>What is passed to a creation lacks a field, as a map or however the codec encodes the struct.\<close>

definition lacks_field :: "('v gval \<Rightarrow> 'v fields) \<Rightarrow> string \<Rightarrow> 'v gval \<Rightarrow> bool" where
  "lacks_field enc k d \<longleftrightarrow> (case DerefCreateValue d of
     Ok (GStruct f) \<Rightarrow> \<forall>f'. dom (map_of f') = dom (map_of f) \<longrightarrow> map_of (enc (GStruct f')) k = None
   | Ok (GMap True f) \<Rightarrow> map_of f k = None
   | _ \<Rightarrow> True)"

definition flat_filter :: "'v doc_filter \<Rightarrow> bool" where
  "flat_filter q \<longleftrightarrow> length (fl_FieldPath q) = 1 \<and> (\<forall>x. fl_Op q \<noteq> OpOther x)"

lemma set_alist_update: "x \<in> set (AList.update k v s) \<Longrightarrow> x \<in> set s \<or> x = (k, v)"
  by (induction s) (auto split: if_splits)

lemma bare_at_simps:
  "bare C k b \<Longrightarrow> bare_at C k i s \<Longrightarrow> bare_at C k i (AList.update i b s)"
  "bare_at C k i s \<Longrightarrow> bare_at C k i (AList.delete i s)"
  by (auto simp: bare_at_def AList.delete_eq dest: set_alist_update)

lemma mem_set_bare:
  assumes "codec_law (mem_marshaler C) enc norm" "lacks_field enc k d" "bare_at C k i s"
  shows "bare_at C k i (snd (mem_set C now i d e s))"
proof -
  have law: "Marshal (mem_marshaler C) x = Some b \<Longrightarrow> Unmarshal (mem_marshaler C) b = Some (enc x)"
    "enc (GMap True f) = map (\<lambda>(k, v). (k, norm v)) f" for x b f
    using assms(1) unfolding codec_law_def by blast+
  have "bare C k b"
    if D: "DerefCreateValue d = Ok x" and E: "Encode (mem_marshaler C) now now x True = Ok b" for x b
    using Encode_created [OF E D]
  proof
    assume "\<exists>f f'. x = GStruct f \<and> Marshal (mem_marshaler C) (GStruct f') = Some b \<and> (\<forall>k. map_of f' k = stamped now f k)"
    then obtain f f' where x: "x = GStruct f" and m: "Marshal (mem_marshaler C) (GStruct f') = Some b"
      and st: "\<forall>k. map_of f' k = stamped now f k" by blast
    have "dom (map_of f') = dom (map_of f)"
      using st by (auto simp: dom_def stamped_def split: option.splits gvalue.splits)
    then show ?thesis using assms(2) D x law(1) [OF m] by (simp add: bare_def lacks_field_def)
  next
    assume "\<exists>f. x = GMap True f \<and> Marshal (mem_marshaler C) (GMap True f) = Some b"
    then show ?thesis using assms(2) D law by (auto simp: bare_def lacks_field_def map_of_map)
  qed
  then show ?thesis
    using assms(3) by (auto simp: mem_set_def intro!: bare_at_simps(1) split: outcome.splits)
qed

lemma mem_Update_bare:
  assumes "codec_law (mem_marshaler C) enc norm" "bare_at C k i s"
    and "k \<notin> update_heads (DefaultLowerCase (mem_marshaler C)) us"
    and "k \<noteq> (if DefaultLowerCase (mem_marshaler C) then LowerUpdatedAtField else DefaultUpdatedAtField)"
  shows "bare_at C k i (snd (mem_Update C now i us ps s))"
proof (cases "fst (mem_Update C now i us ps s)")
  case (Ok u)
  let ?M = "mem_marshaler C"
  let ?stamp = "if DefaultLowerCase ?M then LowerUpdatedAtField else DefaultUpdatedAtField"
  obtain f f2 b where get: "mem_getValue C i map_ptr s = Ok f" and f2: "UpdateProto ?M now us f ps = Ok f2"
    and b: "Encode ?M now now (GMap True f2) False = Ok b" and s': "snd (mem_Update C now i us ps s) = AList.update i b s"
    using Ok by (auto simp: mem_Update_def outcome_simps split: outcome.splits if_splits)
  obtain f1 where f1: "apply_updates (DefaultLowerCase ?M) ?stamp us f = Ok f1"
    and f2': "f2 = AList.update ?stamp (VTime now) f1"
    using f2 unfolding UpdateProto_def Let_def by (auto simp: outcome_simps)
  obtain raw where "(i, raw) \<in> set s" "Unmarshal ?M raw = Some f"
    using get by (auto simp: mem_getValue_def SafeDecode_def map_ptr_def decode_def dest: map_of_SomeD split: option.splits)
  then have "map_of f k = None" using assms(2) by (auto simp: bare_at_def bare_def)
  then have "map_of f2 k = None"
    using apply_updates_other [OF f1 assms(3)] assms(4) by (simp add: f2' update_conv')
  then have "bare C k b"
    using Unmarshal_Encode_map [OF assms(1) b] assms(4) by (simp add: bare_def map_of_map update_conv')
  then show ?thesis unfolding s' using assms(2) by (rule bare_at_simps(1))
qed (use assms(2) in \<open>auto simp: mem_Update_def split: outcome.splits if_splits\<close>)

text \<open>Operations at one key leave the rest of the store, and its order, alone.\<close>

definition elsewhere :: "string \<Rightarrow> 'b storage \<Rightarrow> 'b storage" where
  "elsewhere i s = filter (\<lambda>x. fst x \<noteq> i) s"

lemma elsewhere_simps [simp]:
  "elsewhere i (AList.update i b s) = elsewhere i s" "elsewhere i (AList.delete i s) = elsewhere i s"
  by (induction s) (auto simp: elsewhere_def AList.delete_eq)

lemma elsewhere_ops [simp]:
  "elsewhere i (snd (mem_set C now i d e s)) = elsewhere i s" "elsewhere i (snd (mem_Update C now i us ps s)) = elsewhere i s"
  "elsewhere i (snd (mem_Delete i s)) = elsewhere i s"
  by (auto simp: mem_set_def mem_Update_def mem_Delete_def split: outcome.splits)

lemma bare_at_elsewhere: "elsewhere i s' = elsewhere i s \<Longrightarrow> bare_at C k j s \<Longrightarrow> j \<noteq> i \<Longrightarrow> bare_at C k j s'"
proof -
  have "j \<noteq> i \<Longrightarrow> (j, raw) \<in> set s \<longleftrightarrow> (j, raw) \<in> set (elsewhere i s)" for s :: "'a storage" and raw
    by (simp add: elsewhere_def)
  then show "elsewhere i s' = elsewhere i s \<Longrightarrow> bare_at C k j s \<Longrightarrow> j \<noteq> i \<Longrightarrow> bare_at C k j s'"
    unfolding bare_at_def by metis
qed

lemma mark_field_not_stamp:
  "mark_field C q \<noteq> (if DefaultLowerCase (mem_marshaler C) then LowerUpdatedAtField else DefaultUpdatedAtField)"
  by (simp add: mark_field_def LowerUpdatedAtField_def DefaultUpdatedAtField_def ToLower_def)

lemma mark_heads:
  "update_heads (DefaultLowerCase (mem_marshaler C))
     [\<lparr>up_FieldPath = [pt_partitionField (new_partitioned svc str p)], up_Value = v\<rparr>] = {mark_field C p}"
  by (simp add: update_heads_def case_path_def mark_field_def new_partitioned_def)

lemma mark_keeps:
  assumes "codec_law (mem_marshaler C) enc norm" "bare_at C (mark_field C q) i s" "mark_field C p \<noteq> mark_field C q"
  shows "bare_at C (mark_field C q) i (snd (setPartitionField (new_partitioned (memory_service C) str p) now i s)) \<and>
    elsewhere i (snd (setPartitionField (new_partitioned (memory_service C) str p) now i s)) = elsewhere i s"
proof -
  let ?us = "[\<lparr>up_FieldPath = [pt_partitionField (new_partitioned (memory_service C) str p)],
    up_Value = pt_name (new_partitioned (memory_service C) str p)\<rparr>]"
  obtain r s1 where run: "mem_Update C now i ?us [] s = (r, s1)" by fastforce
  have "mark_field C q \<notin> update_heads (DefaultLowerCase (mem_marshaler C)) ?us"
    unfolding mark_heads using assms(3) by simp
  then have "bare_at C (mark_field C q) i s1" "elsewhere i s1 = elsewhere i s"
    using mem_Update_bare [OF assms(1,2) _ mark_field_not_stamp, of ?us now "[]"] elsewhere_ops(2) [of i C now ?us "[]" s]
    unfolding run by simp_all
  then show ?thesis
    by (auto simp: setPartitionField_def run mem_Delete_def bare_at_simps split: outcome.splits)
qed

lemma partition_write:
  assumes "codec_law (mem_marshaler C) enc norm" "mark_field C p \<noteq> mark_field C q"
    and "lacks_field enc (mark_field C q) d" "mark_field C q \<notin> update_heads (DefaultLowerCase (mem_marshaler C)) us"
    and "bare_partition C (mark_field C q) p s" and "P = WithPartition (memory_service C) str p"
    and "w \<in> {svc_Create P now i d, svc_Set P now i d, svc_Update P now i us ps, svc_Delete P i}"
  shows "bare_partition C (mark_field C q) p (snd (w s)) \<and> elsewhere (p @ ''.'' @ i) (snd (w s)) = elsewhere (p @ ''.'' @ i) s"
proof -
  let ?i = "p @ ''.'' @ i" and ?k = "mark_field C q"
  have at: "bare_at C ?k ?i s" using assms(5) by (simp add: bare_partition_def)
  have wrote: "bare_at C ?k ?i (snd (case mem_set C now ?i d e s of
        (Ok _, s') \<Rightarrow> setPartitionField (new_partitioned (memory_service C) str p) now ?i s' | r \<Rightarrow> r)) \<and>
      elsewhere ?i (snd (case mem_set C now ?i d e s of
        (Ok _, s') \<Rightarrow> setPartitionField (new_partitioned (memory_service C) str p) now ?i s' | r \<Rightarrow> r)) = elsewhere ?i s" for e
  proof -
    obtain r s1 where run: "mem_set C now ?i d e s = (r, s1)" by fastforce
    have "bare_at C ?k ?i s1" "elsewhere ?i s1 = elsewhere ?i s"
      using mem_set_bare [OF assms(1,3) at, of now e] elsewhere_ops(1) [of ?i C now d e s] unfolding run by simp_all
    then show ?thesis using mark_keeps [OF assms(1) _ assms(2)] run by (auto split: outcome.splits)
  qed
  have ops: "svc_Create P now i d s = (case mem_set C now ?i d True s of
        (Ok _, s') \<Rightarrow> setPartitionField (new_partitioned (memory_service C) str p) now ?i s' | r \<Rightarrow> r)"
    "svc_Set P now i d s = (case mem_set C now ?i d False s of
        (Ok _, s') \<Rightarrow> setPartitionField (new_partitioned (memory_service C) str p) now ?i s' | r \<Rightarrow> r)"
    "svc_Update P now i us ps s = mem_Update C now ?i us ps s" "svc_Delete P i s = mem_Delete ?i s"
    by (simp_all only: assms(6) WithPartition_simps part_Create_def part_Set_def part_Update_def part_Delete_def Let_def
        mem_Create_def mem_Set_def new_partitioned_simps memory_service_simps)
  have "bare_at C ?k ?i (snd (mem_Delete ?i s))" using bare_at_simps(2) [OF at] by (simp add: mem_Delete_def)
  then have "bare_at C ?k ?i (snd (w s)) \<and> elsewhere ?i (snd (w s)) = elsewhere ?i s"
    using assms(7) wrote [of True] wrote [of False] mem_Update_bare [OF assms(1) at assms(4) mark_field_not_stamp]
      elsewhere_ops(2,3) ops by (elim insertE emptyE) (simp_all only: simp_thms)
  then show ?thesis using bare_at_elsewhere [of ?i "snd (w s)" s C ?k] assms(5) unfolding bare_partition_def by metis
qed

text \<open>Filters of one name and a known operator panic on no document.\<close>

lemma flat_no_panic: "\<forall>q \<in> set fs. flat_filter q \<Longrightarrow> MatchesAllFilters A l f fs \<noteq> Panic"
proof (induction fs)
  case (Cons q fs)
  then obtain x where "fl_FieldPath q = [x]" by (auto simp: flat_filter_def length_Suc_conv)
  then show ?case
    using Cons by (auto simp: MatchFilter_def flat_filter_def case_path_def doMatchFilter_def outcome_simps split: op.splits)
qed simp

lemma MatchesAllFilters_append:
  "MatchesAllFilters A l f (fs @ gs) = Ok True \<longleftrightarrow> MatchesAllFilters A l f fs = Ok True \<and> MatchesAllFilters A l f gs = Ok True"
  by (induction fs) (auto simp: outcome_simps split: if_splits)

lemma bare_not_listed:
  assumes "bare C (mark_field C q) raw" "\<not> EqualValues (mem_asserts C) VNil v"
  shows "selected C (fs @ [\<lparr>fl_FieldPath = [''__partition_'' @ q], fl_Value = v, fl_Op = OpEqual\<rparr>]) raw = None"
  using assms
  by (auto simp: selected_def bare_def MatchesAllFilters_append MatchFilter_def case_path_def doMatchFilter_def
      field_value_def mark_field_def split: option.splits if_splits)

lemma list_elsewhere:
  assumes "bare_at C (mark_field C q) i s" "\<not> EqualValues (mem_asserts C) VNil (VLeaf (str q))" "\<forall>q \<in> set fs. flat_filter q"
  shows "fst (svc_List (WithPartition (memory_service C) str q) fs s) =
    Ok (List.map_filter (selected C (fs @ [\<lparr>fl_FieldPath = [''__partition_'' @ q], fl_Value = VLeaf (str q), fl_Op = OpEqual\<rparr>]))
      (map snd (elsewhere i s)))"
proof -
  let ?fs = "fs @ [\<lparr>fl_FieldPath = [''__partition_'' @ q], fl_Value = VLeaf (str q), fl_Op = OpEqual\<rparr>]"
  have "\<not> filter_panics C ?fs raw" for raw
    using flat_no_panic [of ?fs] assms(3) by (auto simp: filter_panics_def flat_filter_def)
  then have "fst (svc_List (memory_service C) ?fs s) = Ok (List.map_filter (selected C ?fs) (map snd s))"
    unfolding memory_list_eq by simp
  moreover have "List.map_filter (selected C ?fs) (map snd s) = List.map_filter (selected C ?fs) (map snd (elsewhere i s))"
    using assms(1) bare_not_listed [OF _ assms(2)]
    by (induction s) (auto simp: List.map_filter_simps elsewhere_def bare_at_def split: option.splits)
  ultimately show ?thesis by (simp add: part_List_def new_partitioned_def del: memory_service_simps)
qed

text \<open>
  C16 (partition_isolated). Two partitions of a memory service whose different names have no dot are
  isolated: whatever is created, set, updated or deleted in one, under any ID, every read in the other
  gives what it gave before. So does every listing in the other, with the same documents in the same
  order, where the documents of the first partition are bare of the second one's mark and nothing written
  through the first names that field (which its documents then stay bare of), the marks differ as they
  are stored, a missing field does not equal a partition's name, and the filters of the listing name one
  field each. The conditions are needed: a document that carries the other's mark is listed there
  (\<open>partition_forged\<close>), and a filter with a longer path can panic on a document of another
  partition (\<open>partition_filter_panics\<close>).
\<close>

theorem partition_isolated:
  assumes "CHR ''.'' \<notin> set p" "CHR ''.'' \<notin> set q" "p \<noteq> q"
    and "w \<in> {svc_Create P now i d, svc_Set P now i d, svc_Update P now i us ps, svc_Delete P i}"
    and "P = WithPartition (memory_service C) str p" "Q = WithPartition (memory_service C) str q"
  shows "svc_Get Q j rcv (snd (w s)) = (fst (svc_Get Q j rcv s), snd (w s)) \<and>
    (codec_law (mem_marshaler C) enc norm \<and> mark_field C p \<noteq> mark_field C q \<and>
     \<not> EqualValues (mem_asserts C) VNil (VLeaf (str q)) \<and>
     bare_partition C (mark_field C q) p s \<and> lacks_field enc (mark_field C q) d \<and>
     mark_field C q \<notin> update_heads (DefaultLowerCase (mem_marshaler C)) us \<and> (\<forall>f \<in> set fs. flat_filter f) \<longrightarrow>
       fst (svc_List Q fs (snd (w s))) = fst (svc_List Q fs s) \<and> bare_partition C (mark_field C q) p (snd (w s)))"
proof (intro conjI impI)
  have ne: "q @ ''.'' @ j \<noteq> p @ ''.'' @ i" using partition_id_inject [OF assms(2,1)] assms(3) by blast
  have "map_of (snd (w s)) (q @ ''.'' @ j) = map_of s (q @ ''.'' @ j)"
    using assms(4) memory.partition_frame [OF ne] unfolding assms(5) by auto
  then show "svc_Get Q j rcv (snd (w s)) = (fst (svc_Get Q j rcv s), snd (w s))"
    by (simp add: assms(6) part_Get_def mem_Get_def mem_getValue_def)
next
  assume *: "codec_law (mem_marshaler C) enc norm \<and> mark_field C p \<noteq> mark_field C q \<and>
     \<not> EqualValues (mem_asserts C) VNil (VLeaf (str q)) \<and>
     bare_partition C (mark_field C q) p s \<and> lacks_field enc (mark_field C q) d \<and>
     mark_field C q \<notin> update_heads (DefaultLowerCase (mem_marshaler C)) us \<and> (\<forall>f \<in> set fs. flat_filter f)"
  note w = partition_write [of C enc norm p q d us s P str w now i ps, OF _ _ _ _ _ assms(5,4)]
  have w: "bare_partition C (mark_field C q) p (snd (w s))" "elsewhere (p @ ''.'' @ i) (snd (w s)) = elsewhere (p @ ''.'' @ i) s"
    using w * by blast+
  then show "fst (svc_List Q fs (snd (w s))) = fst (svc_List Q fs s)"
    unfolding assms(6)
    using list_elsewhere [of C q "p @ ''.'' @ i" _ str fs] * by (simp add: bare_partition_def del: WithPartition_simps)
  show "bare_partition C (mark_field C q) p (snd (w s))" by (rule w(1))
qed

text \<open>
  A document written in partition \<open>a\<close> with the field \<open>__partition_b\<close> is listed in
  partition \<open>b\<close>, where no read finds it; and a document of partition \<open>a\<close> whose field is
  no map makes a listing in \<open>b\<close> panic that filters on a field inside it, although \<open>b\<close> is
  empty.
\<close>

lemma part_create_plain:
  "snd (svc_Create (WithPartition (memory_service plain_config) id ''a'') now ''x'' (GMap True [(k, VLeaf v)]) []) =
   [(''a.x'', AList.update ''UpdatedAt'' (VTime now) (AList.update ''__partition_a'' (VLeaf ''a'') [(k, VLeaf v)]))]"
  by (simp add: part_Create_def setPartitionField_def new_partitioned_def makePartitionID_def mem_Create_def
      mem_set_def mem_Update_def mem_getValue_def SafeDecode_def map_ptr_def decode_def UpdateProto_def Let_def
      case_path_def DefaultUpdatedAtField_def DefaultCreatedAtField_def Encode_def UpdateUpdatedAtField_def
      UpdateCreatedAtField_def UpdateDefaultCreatedAtField_def UpdateDefaultUpdatedAtField_def setMapField_def
      reflectSetTimeField_def)

theorem partition_forged:
  "let s = snd (svc_Create (WithPartition (memory_service plain_config) id ''a'') now ''x''
        (GMap True [(''__partition_b'', VLeaf ''b'')]) []);
       Q = WithPartition (memory_service plain_config) id ''b''
   in (\<exists>f. fst (svc_List Q [] s) = Ok [f]) \<and> fst (svc_Get Q ''x'' map_ptr s) = Err DNotFound"
  unfolding Let_def part_create_plain
proof
  let ?s = "[(''a.x'', AList.update ''UpdatedAt'' (VTime now)
    (AList.update ''__partition_a'' (VLeaf ''a'') [(''__partition_b'', VLeaf ''b'')]))]"
  show "\<exists>f. fst (svc_List (WithPartition (memory_service plain_config) id ''b'') [] ?s) = Ok [f]"
    by (simp add: part_List_def new_partitioned_def memory_list_eq filter_panics_def selected_def MatchFilter_def
        case_path_def doMatchFilter_def field_value_def List.map_filter_simps del: memory_service_simps)
  show "fst (svc_Get (WithPartition (memory_service plain_config) id ''b'') ''x'' map_ptr ?s) = Err DNotFound"
    by (simp add: part_Get_def mem_Get_def mem_getValue_def)
qed

theorem partition_filter_panics:
  "let s = snd (svc_Create (WithPartition (memory_service plain_config) id ''a'') now ''x''
        (GMap True [(''Name'', VLeaf ''n'')]) [])
   in fst (svc_List (WithPartition (memory_service plain_config) id ''b'')
        [\<lparr>fl_FieldPath = [''Name'', ''First''], fl_Value = VLeaf ''n'', fl_Op = OpEqual\<rparr>] s) = Panic"
  unfolding Let_def part_create_plain
  by (simp add: part_List_def new_partitioned_def memory_list_eq filter_panics_def MatchFilter_def case_path_def
      del: memory_service_simps)

text \<open>
  With a dot in a name they are not: the document \<open>b.c\<close> of partition
  \<open>a\<close> and the document \<open>c\<close> of partition \<open>a.b\<close> are the same one. Creating the
  first makes it readable as the second, and deleting the second removes the first.
\<close>

theorem partition_collision:
  "let P = WithPartition (memory_service plain_config) id ''a'';
       Q = WithPartition (memory_service plain_config) id ''a.b'';
       (r, s) = svc_Create P now ''b.c'' (GStruct [(''Name'', VLeaf ''x'')]) []
   in r = Ok () \<and> svc_Get Q ''c'' map_ptr s = svc_Get P ''b.c'' map_ptr s \<and> is_ok (fst (svc_Get Q ''c'' map_ptr s)) \<and>
      fst (svc_Delete Q ''c'' s) = Ok () \<and> fst (svc_Get P ''b.c'' map_ptr (snd (svc_Delete Q ''c'' s))) = Err DNotFound"
proof -
  have run: "part_Create (new_partitioned (memory_service plain_config) id ''a'') now ''b.c''
      (GStruct [(''Name'', VLeaf ''x'')]) [] =
      (Ok (), [(''a.b.c'', [(''Name'', VLeaf ''x''), (''__partition_a'', VLeaf ''a''), (''UpdatedAt'', VTime now)])])"
    by (simp add: part_Create_def setPartitionField_def new_partitioned_def makePartitionID_def mem_Create_def
        mem_set_def mem_Update_def mem_getValue_def SafeDecode_def map_ptr_def decode_def UpdateProto_def Let_def
        case_path_def DefaultUpdatedAtField_def DefaultCreatedAtField_def Encode_def UpdateUpdatedAtField_def
        UpdateCreatedAtField_def UpdateDefaultCreatedAtField_def UpdateDefaultUpdatedAtField_def setMapField_def
        reflectSetTimeField_def)
  show ?thesis unfolding Let_def WithPartition_simps run prod.case
    by (simp add: part_Get_def part_Delete_def mem_Get_def mem_getValue_def mem_Delete_def SafeDecode_def
        map_ptr_def decode_def)
qed

theorem partition_isolated_witness:
  "let Q = WithPartition (memory_service plain_config) id ''b'';
       s = snd (svc_Create (WithPartition (memory_service plain_config) id ''a'') zeroTime ''x''
         (GMap True [(''Name'', VLeaf ''x'')]) [])
   in fst (svc_Get Q ''x'' map_ptr s) = Err DNotFound \<and>
      fst (svc_List Q [\<lparr>fl_FieldPath = [''Name''], fl_Value = VLeaf ''x'', fl_Op = OpEqual\<rparr>] s) = Ok []"
proof -
  let ?P = "WithPartition (memory_service plain_config) id ''a''" and ?d = "GMap True [(''Name'', VLeaf ''x'')]"
    and ?q = "\<lparr>fl_FieldPath = [''Name''], fl_Value = VLeaf ''x'', fl_Op = OpEqual\<rparr>"
  have mem: "svc_Create ?P zeroTime ''x'' ?d \<in> {svc_Create ?P zeroTime ''x'' ?d, svc_Set ?P zeroTime ''x'' ?d,
      svc_Update ?P zeroTime ''x'' [] [], svc_Delete ?P ''x''}" by blast
  have conds: "codec_law (mem_marshaler plain_config) (\<lambda>d. the (plain_fields d)) id"
    "mark_field plain_config ''a'' \<noteq> mark_field plain_config ''b''"
    "\<not> EqualValues (mem_asserts plain_config) VNil (VLeaf (id ''b''))"
    "bare_partition plain_config (mark_field plain_config ''b'') ''a'' []"
    "lacks_field (\<lambda>d. the (plain_fields d)) (mark_field plain_config ''b'') ?d"
    "mark_field plain_config ''b'' \<notin> update_heads (DefaultLowerCase (mem_marshaler plain_config)) []"
    "\<forall>f \<in> set [?q]. flat_filter f"
    by (simp_all add: plain_codec_law mark_field_def bare_partition_def bare_at_def lacks_field_def update_heads_def
        flat_filter_def)
  have names: "CHR ''.'' \<notin> set ''a''" "CHR ''.'' \<notin> set ''b''" "''a'' \<noteq> ''b''" by simp_all
  note iso = partition_isolated [OF names mem refl refl, of "''x''" map_ptr "[]" "\<lambda>d. the (plain_fields d)" id "[?q]"]
  have "fst (svc_Get (WithPartition (memory_service plain_config) id ''b'') ''x'' map_ptr []) = Err DNotFound"
    "fst (svc_List (WithPartition (memory_service plain_config) id ''b'') [?q] []) = Ok []"
    by (simp_all add: part_Get_def mem_Get_def mem_getValue_def part_List_def mem_List_def)
  moreover from iso have "svc_Get (WithPartition (memory_service plain_config) id ''b'') ''x'' map_ptr
      (snd (svc_Create ?P zeroTime ''x'' ?d [])) =
      (fst (svc_Get (WithPartition (memory_service plain_config) id ''b'') ''x'' map_ptr []),
       snd (svc_Create ?P zeroTime ''x'' ?d []))" by simp
  moreover from iso have "fst (svc_List (WithPartition (memory_service plain_config) id ''b'') [?q]
      (snd (svc_Create ?P zeroTime ''x'' ?d []))) =
      fst (svc_List (WithPartition (memory_service plain_config) id ''b'') [?q] [])" using conds by blast
  ultimately show ?thesis unfolding Let_def by (metis fst_conv)
qed

end
