(* ===== verification/Retry.thy ===== *)
theory Retry
  imports Prelude
begin

text \<open>
  Retrying (\<^verbatim>\<open>retry/retry.go\<close>): the back-off strategies on 64-bit counters and
  durations, and the loop of \<open>Retry\<close>. What the context and the timer say is an argument, as is
  the function that merges errors, which is third-party code.
\<close>

section \<open>Strategies\<close>

text \<open>A strategy maps the number of the retry to a pause in nanoseconds and whether to stop.\<close>

type_synonym strategy = "64 word \<Rightarrow> int64 \<times> bool"

definition LimitStrategy :: "64 word \<Rightarrow> strategy" where
  "LimitStrategy limit retries = (0, limit \<le> retries)"

text \<open>The loop of \<open>ExponentialStrategy\<close>, with the number of rounds that its counter still allows.\<close>

fun exp_loop :: "nat \<Rightarrow> int64 \<Rightarrow> int64 \<Rightarrow> int64" where
  "exp_loop 0 mx sleep = sleep"
| "exp_loop (Suc n) mx sleep =
     (if \<not> (0 < sint sleep \<and> sint sleep < sint mx) then sleep
      else if quo (sint mx) 2 < sint sleep then mx
      else exp_loop n mx (sleep * 2))"

definition ExponentialStrategy :: "int64 \<Rightarrow> int64 \<Rightarrow> strategy" where
  "ExponentialStrategy mn mx retries =
     (let sleep = exp_loop (unat retries - 1) mx mn
      in (if sint mx < sint sleep then mx else sleep, False))"

definition SequentialStrategy :: "int64 \<Rightarrow> strategy" where
  "SequentialStrategy every retries = (every, False)"

fun combined_loop :: "strategy list \<Rightarrow> int64 \<Rightarrow> strategy" where
  "combined_loop [] mx retries = (mx, False)"
| "combined_loop (st # sts) mx retries =
     (let (sleep, stop) = st retries
      in if stop then (sleep, stop)
         else combined_loop sts (if sint mx < sint sleep then sleep else mx) retries)"

definition CombinedStrategy :: "strategy \<Rightarrow> strategy list \<Rightarrow> strategy" where
  "CombinedStrategy i n = combined_loop (i # n) 0"

definition DefaultStrategy :: strategy where
  "DefaultStrategy = CombinedStrategy (LimitStrategy 10) [ExponentialStrategy 1000000 1024000000]"

section \<open>The loop\<close>

text \<open>
  \<open>ctx_Err\<close> is the error of the context in a state; \<open>wait_for\<close> the \<open>select\<close> between
  the end of the context and the timer, true when the timer fired.
\<close>

record ('e, 's) retry_env =
  ctx_Err :: "'s \<Rightarrow> 'e option"
  wait_for :: "int64 \<Rightarrow> 's \<Rightarrow> bool \<times> 's"

partial_function (option) retry_loop ::
  "('e option \<Rightarrow> 'e \<Rightarrow> 'e) \<Rightarrow> ('e, 's) retry_env \<Rightarrow> strategy \<Rightarrow> ('s \<Rightarrow> (bool \<times> ('e, unit) outcome) \<times> 's) \<Rightarrow>
   64 word \<Rightarrow> 'e option \<Rightarrow> 's \<Rightarrow> (('e, unit) outcome \<times> 's) option" where
  "retry_loop app E strat fn retryCount result s =
     (case fn s of ((again, r), s') \<Rightarrow>
        (case r of
           Ok u \<Rightarrow> Some (Ok (), s')
         | Panic \<Rightarrow> Some (Panic, s')
         | Err e \<Rightarrow>
             (case ctx_Err E s' of
                Some c \<Rightarrow> Some (Err (app (Some (app result c)) e), s')
              | None \<Rightarrow>
                  if \<not> again then
                    Some (Err (if result = None then e else app result e), s')
                  else
                    (let result = app result e; retryCount = retryCount + 1;
                         (sleep, stop) = strat retryCount
                     in if stop then Some (Err result, s')
                        else (let (fired, s'') = wait_for E sleep s'
                              in if \<not> fired then Some (Err result, s'')
                                 else retry_loop app E strat fn retryCount (Some result) s'')))))"

definition Retry ::
  "('e option \<Rightarrow> 'e \<Rightarrow> 'e) \<Rightarrow> ('e, 's) retry_env \<Rightarrow> strategy \<Rightarrow> ('s \<Rightarrow> (bool \<times> ('e, unit) outcome) \<times> 's) \<Rightarrow>
   's \<Rightarrow> (('e, unit) outcome \<times> 's) option" where
  "Retry app E strat fn s = retry_loop app E strat fn 0 None s"

text \<open>
  A rule for the loop: \<open>I\<close> holds before each attempt, \<open>J\<close> after one that may be followed by
  another, and \<open>Q\<close> of the success and the state at the end.
\<close>

lemma retry_loop_rule:
  assumes run: "retry_loop app E strat fn n result w = Some (r, w')" and init: "I w"
    and attempt: "\<And>w b r w1. I w \<Longrightarrow> fn w = ((b, r), w1) \<Longrightarrow> Q (is_ok r) w1 \<and> (b \<longrightarrow> J w1)"
    and pause: "\<And>w sleep b w1. J w \<Longrightarrow> wait_for E sleep w = (b, w1) \<Longrightarrow> if b then I w1 else Q False w1"
  shows "Q (is_ok r) w'"
proof -
  define P where "P E0 fn0 w res \<longleftrightarrow> (E0 = E \<longrightarrow> fn0 = fn \<longrightarrow> I w \<longrightarrow> Q (is_ok (fst res)) (snd res))"
    for E0 fn0 w and res :: "('a, unit) outcome \<times> 'b"
  have "P E fn w (r, w')"
  proof (rule retry_loop.raw_induct [where P = "\<lambda>app E strat fn n result w res. P E fn w res", OF _ run])
    fix loop app E0 strat fn0 n result w res
    assume ih: "\<And>app E strat fn n result w res. loop app E strat fn n result w = Some res \<Longrightarrow> P E fn w res"
      and ret: "(case fn0 w of ((again, r), w') \<Rightarrow>
        (case r of
           Ok u \<Rightarrow> Some (Ok (), w')
         | Panic \<Rightarrow> Some (Panic, w')
         | Err e \<Rightarrow>
             (case ctx_Err E0 w' of
                Some c \<Rightarrow> Some (Err (app (Some (app result c)) e), w')
              | None \<Rightarrow>
                  if \<not> again then
                    Some (Err (if result = None then e else app result e), w')
                  else
                    (let result = app result e; n = n + 1; (sleep, stop) = strat n
                     in if stop then Some (Err result, w')
                        else (let (fired, s'') = wait_for E0 sleep w'
                              in if \<not> fired then Some (Err result, s'')
                                 else loop app E0 strat fn0 n (Some result) s''))))) = Some res"
    show "P E0 fn0 w res" unfolding P_def
    proof (intro impI)
      assume eq: "E0 = E" "fn0 = fn" and "I w"
      obtain b r1 w1 where fn: "fn w = ((b, r1), w1)" by (metis surj_pair)
      have att: "Q (is_ok r1) w1" "b \<Longrightarrow> J w1" using attempt [OF \<open>I w\<close> fn] by auto
      show "Q (is_ok (fst res)) (snd res)"
      proof (cases r1)
        case (Err e)
        obtain b2 w2 where wait: "wait_for E (fst (strat (n + 1))) w1 = (b2, w2)" by fastforce
        show ?thesis
        proof (cases "ctx_Err E w1 = None \<and> b \<and> \<not> snd (strat (n + 1))")
          case True
          then have next_w: "if b2 then I w2 else Q False w2" using pause [OF att(2) wait] by simp
          show ?thesis
          proof (cases b2)
            case fired: True
            then have "loop app E strat fn (n + 1) (Some (app result e)) w2 = Some res"
              using ret fn eq Err True wait by (simp add: split_beta Let_def)
            from ih [OF this] show ?thesis using next_w fired by (simp add: P_def)
          next
            case False
            then have "res = (Err (app result e), w2)" using ret fn eq Err True wait by (simp add: split_beta Let_def)
            then show ?thesis using next_w False by simp
          qed
        next
          case False
          then have "\<exists>e'. res = (Err e', w1)"
            using ret fn eq Err by (auto simp: split_beta Let_def split: option.splits if_splits)
          then show ?thesis using att(1) Err by auto
        qed
      qed (use ret fn eq att in auto)
    qed
  qed
  then show ?thesis using init by (simp add: P_def)
qed

section \<open>Back-off\<close>

lemma exp_loop_exact:
  "0 < sint sleep \<Longrightarrow> sint sleep \<le> sint mx \<Longrightarrow> sint (exp_loop n mx sleep) = min (sint mx) (sint sleep * 2 ^ n)"
proof (induction n mx sleep rule: exp_loop.induct)
  case (2 n mx sleep)
  have grow: "sint sleep * 1 \<le> sint sleep * 2 ^ n" using 2(2) by (intro mult_left_mono) simp_all
  show ?case
  proof (cases "sint sleep < sint mx \<and> \<not> quo (sint mx) 2 < sint sleep")
    case True
    then have "sint sleep \<le> sint mx div 2" using 2(2,3) by simp
    then have "fits64 (sint sleep + sint sleep)" using 2(2) sint64_bounds [of mx] by (simp add: fits64_def)
    then have double: "sint (sleep * 2) = 2 * sint sleep"
      using sint_plus_fits [of sleep sleep] by (simp add: mult_2_right)
    have "0 < sint (sleep * 2)" "sint (sleep * 2) \<le> sint mx"
      using \<open>sint sleep \<le> sint mx div 2\<close> 2(2) unfolding double by simp_all
    then show ?thesis using 2(1) True 2(2) unfolding double by (simp add: algebra_simps)
  next
    case False
    then have "sint mx \<le> sint sleep * 2" using 2(2,3) by auto
    then have "sint mx \<le> sint sleep * 2 ^ Suc n" using grow unfolding power_Suc by linarith
    moreover have "sint (exp_loop (Suc n) mx sleep) = sint mx" using False 2(2,3) by auto
    ultimately show ?thesis by linarith
  qed
qed simp

lemma ExponentialStrategy_exact:
  assumes "0 \<le> sint mn"
  shows "sint (fst (ExponentialStrategy mn mx retries)) = min (sint mx) (sint mn * 2 ^ (unat retries - 1))"
proof (cases "0 < sint mn \<and> sint mn \<le> sint mx")
  case True
  then have "sint (exp_loop (unat retries - 1) mx mn) = min (sint mx) (sint mn * 2 ^ (unat retries - 1))"
    using exp_loop_exact by blast
  then show ?thesis by (auto simp: ExponentialStrategy_def Let_def min_def)
next
  case False
  then have "exp_loop (unat retries - 1) mx mn = mn" by (cases "unat retries - 1") auto
  moreover have "sint mn * 1 \<le> sint mn * 2 ^ (unat retries - 1)" using assms by (intro mult_left_mono) simp_all
  then have "sint mn = 0 \<or> sint mx \<le> sint mn * 2 ^ (unat retries - 1)" using False assms by linarith
  ultimately show ?thesis using False assms
    by (cases "sint mn = 0") (simp_all add: ExponentialStrategy_def Let_def min_def)
qed

lemma combined_loop_stop: "st \<in> set sts \<Longrightarrow> snd (st retries) \<Longrightarrow> snd (combined_loop sts mx retries)"
  by (induction sts mx retries rule: combined_loop.induct) (auto simp: Let_def split: prod.splits)

lemma DefaultStrategy_stops: "10 \<le> retries \<Longrightarrow> snd (DefaultStrategy retries)"
  by (simp add: DefaultStrategy_def CombinedStrategy_def LimitStrategy_def)

section \<open>The attempts\<close>

text \<open>The loop with the results of its attempts recorded.\<close>

definition traced :: "('s \<Rightarrow> 'r \<times> 's) \<Rightarrow> 's \<times> 'r list \<Rightarrow> 'r \<times> 's \<times> 'r list" where
  "traced fn = (\<lambda>(s, tr). let (r, s') = fn s in (r, s', tr @ [r]))"

definition traced_env :: "('e, 's) retry_env \<Rightarrow> ('e, 's \<times> 'r list) retry_env" where
  "traced_env E = \<lparr>ctx_Err = (\<lambda>(s, tr). ctx_Err E s),
     wait_for = (\<lambda>sleep (s, tr). let (b, s') = wait_for E sleep s in (b, s', tr))\<rparr>"

text \<open>What one round of the loop does.\<close>

lemma retry_loop_cases:
  obtains (final) b r e s' where "fst (fn s) = (b, r)"
    "retry_loop app (traced_env E) strat (traced fn) n result (s, tr) = Some (e, s', tr @ [(b, r)])"
    "is_ok e \<longleftrightarrow> is_ok r"
  | (again) e result' s' where "\<not> snd (strat (n + 1))" "fst (fn s) = (True, Err e)"
    "retry_loop app (traced_env E) strat (traced fn) n result (s, tr) =
      retry_loop app (traced_env E) strat (traced fn) (n + 1) (Some result') (s', tr @ [(True, Err e)])"
proof -
  obtain b r s' where fn: "fn s = ((b, r), s')" by (metis surj_pair)
  note unroll = retry_loop.simps [of app "traced_env E" strat "traced fn" n result "(s, tr)"]
  show thesis
  proof (cases r)
    case (Err e)
    show thesis
    proof (cases "ctx_Err E s' = None \<and> b \<and> \<not> snd (strat (n + 1)) \<and> fst (wait_for E (fst (strat (n + 1))) s')")
      case True
      show thesis
        by (rule again [of e "app result e" "snd (wait_for E (fst (strat (n + 1))) s')"])
          (use True Err fn unroll in \<open>simp_all add: traced_def traced_env_def Let_def split_beta\<close>)
    next
      case False
      have "\<exists>e' t. retry_loop app (traced_env E) strat (traced fn) n result (s, tr) =
          Some (Err e', t, tr @ [(b, Err e)])"
        using False Err fn unroll
        by (cases "ctx_Err E s'") (auto simp: traced_def traced_env_def Let_def split_beta)
      then show thesis using final [of b r] Err fn by auto
    qed
  qed (use fn unroll final in \<open>auto simp: traced_def\<close>)
qed

lemma retry_loop_bounded:
  assumes stops: "\<forall>c. limit \<le> c \<longrightarrow> snd (strat c)" and "n < limit \<or> n = 0"
  shows "\<exists>r s' tr' b o'. retry_loop app (traced_env E) strat (traced fn) n result (s, tr) =
      Some (r, s', tr @ tr' @ [(b, o')]) \<and> (is_ok r \<longleftrightarrow> is_ok o') \<and>
      (\<forall>x \<in> set tr'. \<exists>e. x = (True, Err e)) \<and> length tr' < max 1 (unat limit - unat n)"
  using assms(2)
proof (induction "unat limit - unat n" arbitrary: n result s tr rule: less_induct)
  case less
  show ?case
  proof (cases rule: retry_loop_cases [of fn s app E strat n result tr])
    case (again e result' s')
    have next_n: "n + 1 < limit" using stops again(1) by (metis linorder_not_le)
    have "n + 1 \<noteq> 0" using less(2) next_n
      by (metis add_eq_0_iff linorder_not_less one_neq_zero word_n1_ge add.right_neutral add.commute)
    then have succ: "unat (n + 1) = unat n + 1" by (metis Suc_eq_plus1 add.commute unatSuc)
    have lt: "unat n + 1 < unat limit" using next_n succ by (simp add: word_less_nat_alt)
    then have "unat limit - unat (n + 1) < unat limit - unat n" using succ by simp
    from less(1) [OF this, of "Some result'" s' "tr @ [(True, Err e)]"] next_n
    obtain r s'' tr' b o' where rest: "retry_loop app (traced_env E) strat (traced fn) (n + 1) (Some result')
        (s', tr @ [(True, Err e)]) = Some (r, s'', (tr @ [(True, Err e)]) @ tr' @ [(b, o')])"
      and facts: "is_ok r \<longleftrightarrow> is_ok o'" "\<forall>x \<in> set tr'. \<exists>e. x = (True, Err e)"
        "length tr' < max 1 (unat limit - unat (n + 1))"
      by blast
    show ?thesis unfolding again(3) rest using facts succ lt
      by (intro exI [of _ r] exI [of _ s''] exI [of _ "(True, Err e) # tr'"] exI [of _ b] exI [of _ o']) auto
  next
    case (final b r e s')
    then show ?thesis by (intro exI [of _ e] exI [of _ s'] exI [of _ "[]"] exI [of _ b] exI [of _ r]) auto
  qed
qed

section \<open>Properties\<close>

text \<open>
  From a minimum that is not negative the exponential strategy never stops and
  pauses before retry n for exactly the minimum doubled n - 1 times, cut at the maximum, whatever the
  64-bit values: the doubling never wraps around.
\<close>

theorem backoff_exact:
  assumes "0 \<le> sint mn"
  shows "sint (fst (ExponentialStrategy mn mx n)) = min (sint mx) (sint mn * 2 ^ (unat n - 1)) \<and>
    \<not> snd (ExponentialStrategy mn mx n)"
  using ExponentialStrategy_exact [OF assms] by (simp add: ExponentialStrategy_def Let_def)

theorem backoff_exact_witness:
  "sint (fst (ExponentialStrategy 100000000 5000000000 38)) = 5000000000"
  using backoff_exact [of 100000000 5000000000 38] by simp

text \<open>
  C25 (retry_bounded). With a strategy that stops from some count on, such as the default one from ten
  on, \<open>Retry\<close> returns whatever the function, the context and the timer do: it calls the function
  at least once and at most that many times (once for a count of zero), every call but the last failed
  and asked for another, and it succeeds if and only if the last call did.
\<close>

theorem retry_bounded:
  assumes "\<forall>c. limit \<le> c \<longrightarrow> snd (strat c)"
  shows "\<exists>r s' tr b o'. Retry app (traced_env E) strat (traced fn) (s, []) = Some (r, s', tr @ [(b, o')]) \<and>
    (is_ok r \<longleftrightarrow> is_ok o') \<and> (\<forall>x \<in> set tr. \<exists>e. x = (True, Err e)) \<and>
    length (tr @ [(b, o')]) \<le> max 1 (unat limit)"
  using retry_loop_bounded [OF assms, of 0 app E fn None s "[]"] unfolding Retry_def by fastforce

theorem retry_bounded_witness:
  "\<exists>r tr. Retry (\<lambda>r e. e) (traced_env \<lparr>ctx_Err = (\<lambda>_. None), wait_for = (\<lambda>sleep s. (True, s))\<rparr>) DefaultStrategy
     (traced (\<lambda>n. ((True, Err ''down''), n))) ((), []) = Some (r, (), tr) \<and> length tr \<le> 10"
proof -
  have "\<forall>c \<ge> 10. snd (DefaultStrategy c)" using DefaultStrategy_stops by blast
  from retry_bounded [OF this, of "\<lambda>r e. e" "\<lparr>ctx_Err = (\<lambda>_. None), wait_for = (\<lambda>sleep s. (True, s))\<rparr>"
      "\<lambda>n. ((True, Err ''down''), n)" "()"]
  show ?thesis by fastforce
qed

end
