(* ===== verification/DocSync.thy ===== *)
theory DocSync
  imports DocClaims Retry
begin

text \<open>
  Concurrent use of a document service: the wrappers of \<^verbatim>\<open>document/sync.go\<close> that
  put a mutex around another service, as a step relation over interleaved threads, and
  \<^verbatim>\<open>document/consistent.go\<close>, the read-modify-write loop on top of \<open>Retry\<close>, amid
  writes of others.
\<close>

section \<open>Calls of a service\<close>

datatype 'v call =
  CCreate gotime string "'v gval" | CSet gotime string "'v gval"
| CUpdate gotime string "'v doc_update list" "'v doc_update list"
| CGet string "'v gval" | CDelete string | CList "'v doc_filter list" | CClose

datatype 'v reply = RUnit "unit dresult" | RDoc "'v fields dresult" | RDocs "'v fields list dresult"

fun perform :: "('s, 'v) service \<Rightarrow> 'v call \<Rightarrow> 's \<Rightarrow> 'v reply \<times> 's" where
  "perform svc (CCreate now i d) s = map_prod RUnit id (svc_Create svc now i d s)"
| "perform svc (CSet now i d) s = map_prod RUnit id (svc_Set svc now i d s)"
| "perform svc (CUpdate now i us ps) s = map_prod RUnit id (svc_Update svc now i us ps s)"
| "perform svc (CGet i rcv) s = map_prod RDoc id (svc_Get svc i rcv s)"
| "perform svc (CDelete i) s = map_prod RUnit id (svc_Delete svc i s)"
| "perform svc (CList fs) s = map_prod RDocs id (svc_List svc fs s)"
| "perform svc CClose s = map_prod RUnit id (svc_Close svc s)"

section \<open>Locks\<close>

datatype lock_mode = LLock | LRLock

text \<open>How each method of \<open>syncService\<close> and of \<open>rwSyncService\<close> takes the mutex.\<close>

fun sync_mode :: "'v call \<Rightarrow> lock_mode" where
  "sync_mode (CCreate _ _ _) = LLock"
| "sync_mode (CSet _ _ _) = LLock"
| "sync_mode (CUpdate _ _ _ _) = LLock"
| "sync_mode (CGet _ _) = LLock"
| "sync_mode (CDelete _) = LLock"
| "sync_mode (CList _) = LLock"
| "sync_mode CClose = LLock"

fun rw_mode :: "'v call \<Rightarrow> lock_mode" where
  "rw_mode (CCreate _ _ _) = LLock"
| "rw_mode (CSet _ _ _) = LLock"
| "rw_mode (CUpdate _ _ _ _) = LLock"
| "rw_mode (CGet _ _) = LRLock"
| "rw_mode (CDelete _) = LLock"
| "rw_mode (CList _) = LRLock"
| "rw_mode CClose = LLock"

record rwmutex =
  mu_writer :: bool
  mu_readers :: nat

text \<open>\<open>None\<close>: the thread has to wait.\<close>

fun acquire :: "lock_mode \<Rightarrow> rwmutex \<Rightarrow> rwmutex option" where
  "acquire LLock m = (if mu_writer m \<or> 0 < mu_readers m then None else Some (m\<lparr>mu_writer := True\<rparr>))"
| "acquire LRLock m = (if mu_writer m then None else Some (m\<lparr>mu_readers := mu_readers m + 1\<rparr>))"

fun release :: "lock_mode \<Rightarrow> rwmutex \<Rightarrow> rwmutex" where
  "release LLock m = m\<lparr>mu_writer := False\<rparr>"
| "release LRLock m = m\<lparr>mu_readers := mu_readers m - 1\<rparr>"

section \<open>Interleaved threads\<close>

text \<open>
  The service under the wrapper need not be safe for concurrent use: a call reads the state in one step
  and writes it in a later one, and would lose what others write in between.
\<close>

datatype ('s, 'v) phase =
  Idle | Waiting "'v call" | Entered "'v call" | Running "'v call" 's | Returning "'v call" "'v reply"

record ('s, 'v) threads =
  th_store :: 's
  th_lock :: rwmutex
  th_phase :: "nat \<Rightarrow> ('s, 'v) phase"
  th_log :: "('v call \<times> 'v reply) list"

definition threads_init :: "'s \<Rightarrow> ('s, 'v) threads" where
  "threads_init s = \<lparr>th_store = s, th_lock = \<lparr>mu_writer = False, mu_readers = 0\<rparr>, th_phase = (\<lambda>t. Idle), th_log = []\<rparr>"

inductive sync_step ::
  "('s, 'v) service \<Rightarrow> ('v call \<Rightarrow> lock_mode) \<Rightarrow> ('s, 'v) threads \<Rightarrow> ('s, 'v) threads \<Rightarrow> bool"
  for svc mode where
  enter: "th_phase w t = Idle \<Longrightarrow> sync_step svc mode w (w\<lparr>th_phase := (th_phase w)(t := Waiting c)\<rparr>)"
| lock: "th_phase w t = Waiting c \<Longrightarrow> acquire (mode c) (th_lock w) = Some m \<Longrightarrow>
    sync_step svc mode w (w\<lparr>th_phase := (th_phase w)(t := Entered c), th_lock := m\<rparr>)"
| start: "th_phase w t = Entered c \<Longrightarrow>
    sync_step svc mode w (w\<lparr>th_phase := (th_phase w)(t := Running c (th_store w))\<rparr>)"
| finish: "th_phase w t = Running c s \<Longrightarrow> perform svc c s = (r, s') \<Longrightarrow>
    sync_step svc mode w
      (w\<lparr>th_phase := (th_phase w)(t := Returning c r), th_store := s', th_log := th_log w @ [(c, r)]\<rparr>)"
| unlock: "th_phase w t = Returning c r \<Longrightarrow>
    sync_step svc mode w (w\<lparr>th_phase := (th_phase w)(t := Idle), th_lock := release (mode c) (th_lock w)\<rparr>)"

inductive reaches ::
  "('s, 'v) service \<Rightarrow> ('v call \<Rightarrow> lock_mode) \<Rightarrow> 's \<Rightarrow> ('s, 'v) threads \<Rightarrow> bool"
  for svc mode s where
  init: "reaches svc mode s (threads_init s)"
| step: "reaches svc mode s w \<Longrightarrow> sync_step svc mode w w' \<Longrightarrow> reaches svc mode s w'"

section \<open>The invariant of the lock\<close>

fun held :: "('v call \<Rightarrow> lock_mode) \<Rightarrow> ('s, 'v) phase \<Rightarrow> lock_mode option" where
  "held mode Idle = None"
| "held mode (Waiting c) = None"
| "held mode (Entered c) = Some (mode c)"
| "held mode (Running c s) = Some (mode c)"
| "held mode (Returning c r) = Some (mode c)"

definition holders :: "('v call \<Rightarrow> lock_mode) \<Rightarrow> lock_mode \<Rightarrow> ('s, 'v) threads \<Rightarrow> nat set" where
  "holders mode k w = {t. held mode (th_phase w t) = Some k}"

text \<open>A sequential run of the calls of a log with the replies it records.\<close>

fun replay :: "('s, 'v) service \<Rightarrow> 's \<Rightarrow> ('v call \<times> 'v reply) list \<Rightarrow> 's \<Rightarrow> bool" where
  "replay svc s [] s' \<longleftrightarrow> s' = s"
| "replay svc s ((c, r) # log) s' \<longleftrightarrow> fst (perform svc c s) = r \<and> replay svc (snd (perform svc c s)) log s'"

lemma replay_snoc:
  "replay svc s (log @ [(c, r)]) s' \<longleftrightarrow> (\<exists>t. replay svc s log t \<and> perform svc c t = (r, s'))"
  by (induction log arbitrary: s) (auto simp: prod_eq_iff)

definition lock_inv :: "('s, 'v) service \<Rightarrow> ('v call \<Rightarrow> lock_mode) \<Rightarrow> 's \<Rightarrow> ('s, 'v) threads \<Rightarrow> bool" where
  "lock_inv svc mode s w \<longleftrightarrow>
     finite (holders mode LRLock w) \<and> card (holders mode LRLock w) = mu_readers (th_lock w) \<and>
     (if mu_writer (th_lock w) then mu_readers (th_lock w) = 0 \<and> (\<exists>t. holders mode LLock w = {t})
      else holders mode LLock w = {}) \<and>
     (\<forall>t c s'. th_phase w t = Running c s' \<longrightarrow> s' = th_store w) \<and>
     replay svc s (th_log w) (th_store w)"

lemma holders_upd:
  "holders mode k (w\<lparr>th_phase := (th_phase w)(t := p)\<rparr>) =
     (if held mode p = Some k then insert t (holders mode k w) else holders mode k w - {t})"
  by (auto simp: holders_def)

lemma holders_other [simp]:
  "holders mode k (w\<lparr>th_lock := m\<rparr>) = holders mode k w" "holders mode k (w\<lparr>th_store := s\<rparr>) = holders mode k w"
  "holders mode k (w\<lparr>th_log := l\<rparr>) = holders mode k w"
  by (simp_all add: holders_def)

lemma holders_same:
  "held mode p = held mode (th_phase w t) \<Longrightarrow> holders mode k (w\<lparr>th_phase := (th_phase w)(t := p)\<rparr>) = holders mode k w"
  by (auto simp: holders_def)

lemma lock_inv_init: "lock_inv svc mode s (threads_init s)"
  by (simp add: lock_inv_def threads_init_def holders_def)

text \<open>A thread that runs a writing call is alone with the lock; one that runs a reading call keeps
  writers out.\<close>

lemma running_alone:
  assumes inv: "lock_inv svc mode s w" and run: "th_phase w t = Running c s'" and other: "th_phase w u = Running d s''"
    and "u \<noteq> t"
  shows "mode c = LRLock"
proof (rule ccontr)
  assume "mode c \<noteq> LRLock"
  then have "t \<in> holders mode LLock w" using run by (cases "mode c") (simp_all add: holders_def)
  then have m: "mu_writer (th_lock w)" "holders mode LLock w = {t}"
    using inv by (auto simp: lock_inv_def split: if_splits)
  then have "holders mode LRLock w = {}" using inv by (auto simp: lock_inv_def)
  moreover have "u \<in> holders mode (mode d) w" using other by (simp add: holders_def)
  ultimately show False using m(2) \<open>u \<noteq> t\<close> by (cases "mode d") auto
qed

lemma lock_inv_step:
  assumes pure: "\<And>c s. mode c = LRLock \<Longrightarrow> snd (perform svc c s) = s"
    and inv: "lock_inv svc mode s w" and "sync_step svc mode w w'"
  shows "lock_inv svc mode s w'"
proof -
  have fin: "finite (holders mode LRLock w)" and card: "card (holders mode LRLock w) = mu_readers (th_lock w)"
    and wr: "if mu_writer (th_lock w) then mu_readers (th_lock w) = 0 \<and> (\<exists>t. holders mode LLock w = {t})
      else holders mode LLock w = {}"
    and run: "\<And>t c s'. th_phase w t = Running c s' \<Longrightarrow> s' = th_store w"
    and rep: "replay svc s (th_log w) (th_store w)"
    using inv unfolding lock_inv_def by blast+
  show ?thesis
    using assms(3)
  proof cases
    case (enter t c)
    then have h: "holders mode k w' = holders mode k w" for k by (simp add: holders_same)
    show ?thesis unfolding lock_inv_def h using enter fin card wr rep by (simp add: run)
  next
    case (lock t c m)
    then have new: "t \<notin> holders mode k w" for k by (simp add: holders_def)
    have h: "holders mode k w' = (if mode c = k then insert t (holders mode k w) else holders mode k w)" for k
      using new lock by (simp add: holders_upd)
    show ?thesis
    proof (cases "mode c")
      case LLock
      then show ?thesis unfolding lock_inv_def h using lock fin card wr rep by (auto simp: run split: if_splits)
    next
      case LRLock
      then show ?thesis unfolding lock_inv_def h
        using lock fin card wr rep new [of LRLock] by (auto simp: run split: if_splits)
    qed
  next
    case (start t c)
    then have h: "holders mode k w' = holders mode k w" for k by (simp add: holders_same)
    show ?thesis unfolding lock_inv_def h using start fin card wr rep by (simp add: run)
  next
    case (finish t c s1 r s2)
    then have h: "holders mode k w' = holders mode k w" for k by (simp add: holders_same)
    have s1: "s1 = th_store w" using run finish(2) by blast
    have "s' = s2" if "th_phase w' u = Running d s'" for u d s'
    proof -
      have u: "u \<noteq> t" "th_phase w u = Running d s'" using that finish(1) by (simp_all split: if_splits)
      from running_alone [OF inv finish(2) u(2,1)] have "mode c = LRLock" .
      then have "s2 = s1" using pure [of c s1] finish(3) by simp
      then show ?thesis using run [OF u(2)] s1 by simp
    qed
    moreover have "replay svc s (th_log w @ [(c, r)]) s2" using rep finish(3) s1 by (auto simp: replay_snoc)
    moreover have "th_store w' = s2" "th_log w' = th_log w @ [(c, r)]" "th_lock w' = th_lock w"
      using finish(1) by simp_all
    ultimately show ?thesis unfolding lock_inv_def h using fin card wr by simp
  next
    case (unlock t c r)
    then have old: "t \<in> holders mode (mode c) w" and only: "\<And>k. t \<in> holders mode k w \<Longrightarrow> k = mode c"
      by (simp_all add: holders_def)
    have h: "holders mode k w' = holders mode k w - {t}" for k using unlock by (simp add: holders_upd)
    have rest: "\<forall>t c s'. th_phase w' t = Running c s' \<longrightarrow> s' = th_store w'" "replay svc s (th_log w') (th_store w')"
      using unlock rep by (simp_all add: run)
    show ?thesis
    proof (cases "mode c")
      case LLock
      then have m: "mu_writer (th_lock w)" "holders mode LLock w = {t}" "mu_readers (th_lock w) = 0"
        using wr old by (auto split: if_splits)
      then have "holders mode LRLock w = {}" using fin card by simp
      then show ?thesis unfolding lock_inv_def h using m unlock(1) LLock rest by simp
    next
      case LRLock
      have tin: "t \<in> holders mode LRLock w" "t \<notin> holders mode LLock w" using old only [of LLock] LRLock by auto
      have "mu_readers (th_lock w) \<noteq> 0" using fin card tin(1) card_0_eq [OF fin] by (metis empty_iff)
      then have free: "\<not> mu_writer (th_lock w)" "holders mode LLock w = {}" using wr by (simp_all split: if_splits)
      have lock': "th_lock w' = (th_lock w)\<lparr>mu_readers := mu_readers (th_lock w) - 1\<rparr>"
        using unlock(1) LRLock by simp
      show ?thesis unfolding lock_inv_def h lock' using fin card tin(1) free rest by simp
    qed
  qed
qed

lemma reaches_inv:
  assumes "\<And>c s. mode c = LRLock \<Longrightarrow> snd (perform svc c s) = s"
  shows "reaches svc mode s w \<Longrightarrow> lock_inv svc mode s w"
proof (induction rule: reaches.induct)
  case init
  show ?case by (rule lock_inv_init)
next
  case (step w w')
  show ?case using assms by (rule lock_inv_step [OF _ step(3,2)])
qed

text \<open>While a call waits some thread can take a step other than a new call.\<close>

lemma no_deadlock:
  assumes inv: "lock_inv svc mode s w" and "th_phase w t \<noteq> Idle"
  shows "\<exists>w'. sync_step svc mode w w' \<and> (\<forall>u. th_phase w u = Idle \<longrightarrow> th_phase w' u = Idle)"
proof -
  have go: ?thesis if h: "u \<in> holders mode k w" for u k
  proof (cases "th_phase w u")
    case (Entered c)
    from start [OF this, where svc = svc and mode = mode] show ?thesis using Entered by (intro exI conjI) (assumption, simp)
  next
    case (Running c s')
    obtain r s'' where "perform svc c s' = (r, s'')" by fastforce
    from finish [OF Running this, where mode = mode] show ?thesis using Running by (intro exI conjI) (assumption, simp)
  next
    case (Returning c r)
    from unlock [OF this, where svc = svc and mode = mode] show ?thesis using Returning by (intro exI conjI) (assumption, simp)
  qed (use h in \<open>simp_all add: holders_def\<close>)
  show ?thesis
  proof (cases "holders mode LLock w = {} \<and> holders mode LRLock w = {}")
    case False
    then show ?thesis using go by blast
  next
    case True
    then have free: "\<not> mu_writer (th_lock w)" "mu_readers (th_lock w) = 0"
      using inv by (auto simp: lock_inv_def split: if_splits)
    have "held mode (th_phase w t) \<noteq> Some k" for k using True by (cases k) (auto simp: holders_def)
    then have "held mode (th_phase w t) = None" by (meson not_None_eq)
    then obtain c where c: "th_phase w t = Waiting c" using assms(2) by (cases "th_phase w t") auto
    obtain m where "acquire (mode c) (th_lock w) = Some m" using free by (cases "mode c") auto
    from lock [where svc = svc and mode = mode, OF c this] show ?thesis using c by (intro exI conjI) (assumption, simp)
  qed
qed

text \<open>
  C17 (sync_linearizable). Threads that call a service through \<open>Sync\<close>, or through \<open>RWSync\<close>
  a service whose reads leave its state alone, in any interleaving of the steps of their calls, see one
  sequential run: the state and every reply are those of running the calls one after the other in the
  order they took effect, each between its call and its return. No interleaving deadlocks.
\<close>

theorem sync_linearizable:
  assumes "reaches svc mode s w"
    and "mode = sync_mode \<or>
      mode = rw_mode \<and> (\<forall>i rcv fs s. snd (svc_Get svc i rcv s) = s \<and> snd (svc_List svc fs s) = s)"
  shows "replay svc s (th_log w) (th_store w) \<and>
    (\<forall>t. th_phase w t \<noteq> Idle \<longrightarrow>
      (\<exists>w'. sync_step svc mode w w' \<and> (\<forall>u. th_phase w u = Idle \<longrightarrow> th_phase w' u = Idle)))"
proof -
  have pure: "snd (perform svc c s) = s" if "mode c = LRLock" for c s using assms(2) that by (cases c) auto
  have inv: "lock_inv svc mode s w" using reaches_inv [OF _ assms(1)] pure by blast
  then show ?thesis using no_deadlock [OF inv] unfolding lock_inv_def by blast
qed

theorem sync_linearizable_witness:
  "\<exists>w. reaches (memory_service plain_config) rw_mode [] w \<and> th_phase w 1 = Waiting (CGet ''a'' map_ptr) \<and>
     th_store w = [(''a'', [(''Name'', VLeaf ''x'')])] \<and>
     replay (memory_service plain_config) [] (th_log w) (th_store w)"
proof -
  let ?svc = "memory_service plain_config"
  let ?c = "CCreate zeroTime ''a'' (GStruct [(''Name'', VLeaf ''x'')]) :: string call"
  let ?d = "[(''a'', [(''Name'', VLeaf ''x'')])]"
  let ?W = "\<lambda>s b p0 p1 log. \<lparr>th_store = s, th_lock = \<lparr>mu_writer = b, mu_readers = 0\<rparr>,
    th_phase = (\<lambda>t. Idle)(0 := p0, 1 := p1), th_log = log\<rparr>"
  have run: "perform ?svc ?c [] = (RUnit (Ok ()), ?d)"
    by (simp add: mem_Create_def mem_set_def Encode_def UpdateCreatedAtField_def UpdateDefaultCreatedAtField_def Let_def
        reflectSetTimeField_def DefaultCreatedAtField_def DefaultUpdatedAtField_def)
  have "reaches ?svc rw_mode [] (?W [] False Idle Idle [])"
    using reaches.init [of ?svc rw_mode "[]"] by (simp add: threads_init_def fun_upd_idem)
  from reaches.step [OF this enter [of _ 0 _ _ ?c]]
  have "reaches ?svc rw_mode [] (?W [] False (Waiting ?c) Idle [])" by (simp add: fun_upd_twist)
  from reaches.step [OF this enter [of _ 1 _ _ "CGet ''a'' map_ptr"]]
  have "reaches ?svc rw_mode [] (?W [] False (Waiting ?c) (Waiting (CGet ''a'' map_ptr)) [])"
    by (simp add: fun_upd_twist)
  from reaches.step [OF this lock [of _ 0 ?c]]
  have "reaches ?svc rw_mode [] (?W [] True (Entered ?c) (Waiting (CGet ''a'' map_ptr)) [])"
    by (simp add: fun_upd_twist)
  from reaches.step [OF this start [of _ 0 ?c]]
  have "reaches ?svc rw_mode [] (?W [] True (Running ?c []) (Waiting (CGet ''a'' map_ptr)) [])"
    by (simp add: fun_upd_twist)
  from reaches.step [OF this finish [OF _ run, of _ 0]]
  have r: "reaches ?svc rw_mode [] (?W ?d True (Returning ?c (RUnit (Ok ()))) (Waiting (CGet ''a'' map_ptr))
      [(?c, RUnit (Ok ()))])"
    by (simp add: fun_upd_twist)
  have pure: "rw_mode = sync_mode \<or> rw_mode = rw_mode \<and>
      (\<forall>i rcv fs s. snd (svc_Get ?svc i rcv s) = s \<and> snd (svc_List ?svc fs s) = s)"
    by (simp add: mem_Get_def)
  from sync_linearizable [OF r pure] have "replay ?svc [] [(?c, RUnit (Ok ()))] ?d" by simp
  then show ?thesis using r by (intro exI conjI) (assumption, simp_all)
qed

end
