(* ===== verification/DocConsistent.thy ===== *)
theory DocConsistent
  imports DocSync
begin

text \<open>
  The read-modify-write loop \<^verbatim>\<open>ConsistentUpdate\<close> of
  \<^verbatim>\<open>document/consistent.go\<close>, amid the writes of others: between any two of its calls
  other callers may change the store in any way.
\<close>

section \<open>The loop\<close>

text \<open>
  \<open>others t\<close> is what others do to the store after the call or pause number \<open>t\<close>. The state is
  the store, the number of calls so far and the document variable of the caller, which the callback
  reads.
\<close>

type_synonym ('s, 'v) cu_world = "'s \<times> nat \<times> 'v fields"

definition consistent_attempt ::
  "('s, 'v) service \<Rightarrow> (nat \<Rightarrow> gotime) \<Rightarrow> (nat \<Rightarrow> 's \<Rightarrow> 's) \<Rightarrow> string \<Rightarrow> 'v gval \<Rightarrow>
   ('v fields \<Rightarrow> 'v doc_update list \<times> 'v doc_update list) \<Rightarrow> ('s, 'v) cu_world \<Rightarrow>
   (bool \<times> unit dresult) \<times> ('s, 'v) cu_world" where
  "consistent_attempt svc now others i rcv callback = (\<lambda>(s, t, doc).
     (case svc_Get svc i rcv s of
        (Err e, s1) \<Rightarrow> ((False, Err e), (others t s1, t + 1, doc))
      | (Panic, s1) \<Rightarrow> ((False, Panic), (others t s1, t + 1, doc))
      | (Ok f, s1) \<Rightarrow>
          (let (us, ps) = callback f
           in case svc_Update svc (now (t + 1)) i us ps (others t s1) of
                (Panic, s2) \<Rightarrow> ((False, Panic), (others (t + 1) s2, t + 2, f))
              | (Err e, s2) \<Rightarrow> ((e = DPreconditionFailed, Err e), (others (t + 1) s2, t + 2, f))
              | (Ok _, s2) \<Rightarrow>
                  (case svc_Get svc i rcv (others (t + 1) s2) of
                     (Ok f', s3) \<Rightarrow> ((False, Ok ()), (others (t + 2) s3, t + 3, f'))
                   | (Err e, s3) \<Rightarrow> ((False, Err e), (others (t + 2) s3, t + 3, f))
                   | (Panic, s3) \<Rightarrow> ((False, Panic), (others (t + 2) s3, t + 3, f))))))"

definition cu_env :: "(nat \<Rightarrow> 's \<Rightarrow> 's) \<Rightarrow> (nat \<Rightarrow> docerr option) \<Rightarrow> (nat \<Rightarrow> bool) \<Rightarrow> (docerr, ('s, 'v) cu_world) retry_env" where
  "cu_env others ctx fired =
     \<lparr>ctx_Err = (\<lambda>(s, t, doc). ctx t), wait_for = (\<lambda>sleep (s, t, doc). (fired t, others t s, t + 1, doc))\<rparr>"

definition ConsistentUpdate ::
  "(docerr option \<Rightarrow> docerr \<Rightarrow> docerr) \<Rightarrow> (nat \<Rightarrow> docerr option) \<Rightarrow> (nat \<Rightarrow> bool) \<Rightarrow> ('s, 'v) service \<Rightarrow>
   (nat \<Rightarrow> gotime) \<Rightarrow> (nat \<Rightarrow> 's \<Rightarrow> 's) \<Rightarrow> string \<Rightarrow> 'v gval \<Rightarrow> strategy \<Rightarrow>
   ('v fields \<Rightarrow> 'v doc_update list \<times> 'v doc_update list) \<Rightarrow> ('s, 'v) cu_world \<Rightarrow>
   (unit dresult \<times> ('s, 'v) cu_world) option" where
  "ConsistentUpdate app ctx fired svc now others i rcv strat callback w =
     Retry app (cu_env others ctx fired) strat (consistent_attempt svc now others i rcv callback) w"

section \<open>What others do\<close>

definition run_others :: "(nat \<Rightarrow> 's \<Rightarrow> 's) \<Rightarrow> nat \<Rightarrow> nat \<Rightarrow> 's \<Rightarrow> 's" where
  "run_others others a b s = fold others [a..<b] s"

lemma run_others_refl [simp]: "run_others others a a s = s"
  by (simp add: run_others_def)

lemma run_others_step: "a \<le> b \<Longrightarrow> run_others others a (Suc b) s = others b (run_others others a b s)"
  by (simp add: run_others_def)

text \<open>What the caller did to the store up to time \<open>t\<close>: nothing, or one successful update.\<close>

definition no_write :: "(nat \<Rightarrow> 's \<Rightarrow> 's) \<Rightarrow> 's \<Rightarrow> nat \<Rightarrow> 's \<Rightarrow> bool" where
  "no_write others s t s' \<longleftrightarrow> s' = run_others others 0 t s"

definition one_write ::
  "('v, 'b) memory_config \<Rightarrow> (nat \<Rightarrow> gotime) \<Rightarrow> (nat \<Rightarrow> 'b storage \<Rightarrow> 'b storage) \<Rightarrow> string \<Rightarrow> 'v gval \<Rightarrow>
   ('v fields \<Rightarrow> 'v doc_update list \<times> 'v doc_update list) \<Rightarrow> 'b storage \<Rightarrow> bool \<Rightarrow>
   ('b storage, 'v) cu_world \<Rightarrow> bool" where
  "one_write C now others i rcv callback s ok = (\<lambda>(s', t, doc).
     (\<exists>a f us ps s1. a < t \<and> mem_getValue C i rcv (run_others others 0 a s) = Ok f \<and> callback f = (us, ps) \<and>
        mem_Update C (now (a + 1)) i us ps (run_others others 0 (a + 1) s) = (Ok (), s1) \<and>
        s' = run_others others (a + 1) t s1 \<and>
        (ok \<longrightarrow> mem_getValue C i rcv (run_others others (a + 1) (a + 2) s1) = Ok doc)))"

lemma mem_Update_not_Ok: "mem_Update C now i us ps s = (r, s') \<Longrightarrow> \<not> is_ok r \<Longrightarrow> s' = s"
  by (auto simp: mem_Update_def split: outcome.splits if_splits)

lemma mem_Update_preconds: "mem_Update C now i us ps s = (Ok u, s') \<Longrightarrow>
    \<exists>g. mem_getValue C i map_ptr s = Ok g \<and>
      (\<forall>p \<in> set ps. precondField g (case_path (DefaultLowerCase (mem_marshaler C)) (up_FieldPath p)) (up_Value p) = Ok True)"
  by (auto simp: mem_Update_def UpdateProto_def Let_def outcome_simps dest: check_preconds_Ok
      split: outcome.splits if_splits)

text \<open>One attempt.\<close>

lemma consistent_attempt_cases:
  assumes "consistent_attempt (memory_service C) now others i rcv callback (run_others others 0 t s, t, doc) =
    ((again, r), (s', t', doc'))"
  shows "no_write others s t' s' \<and> \<not> is_ok r \<or> \<not> again \<and> one_write C now others i rcv callback s (is_ok r) (s', t', doc')"
proof -
  let ?s0 = "run_others others 0 t s"
  let ?s1 = "run_others others 0 (t + 1) s"
  have s1: "others t ?s0 = ?s1" by (simp add: run_others_step)
  have s2: "others (t + 1) ?s1 = run_others others 0 (t + 2) s" using run_others_step [of 0 "Suc t" others s] by simp
  have after: "others (t + 1) x = run_others others (t + 1) (t + 2) x"
    "others (t + 2) (others (t + 1) x) = run_others others (t + 1) (t + 3) x" for x
    using run_others_step [of "t + 1" "t + 1" others x] run_others_step [of "t + 1" "t + 2" others x]
    by (simp_all add: numeral_3_eq_3)
  show ?thesis
  proof (cases "mem_getValue C i rcv ?s0")
    case (Ok f)
    obtain us ps where cb: "callback f = (us, ps)" by fastforce
    obtain r1 s3 where upd: "mem_Update C (now (t + 1)) i us ps ?s1 = (r1, s3)" by fastforce
    show ?thesis
    proof (cases r1)
      case (Ok u)
      let ?g = "mem_getValue C i rcv (others (t + 1) s3)"
      have "consistent_attempt (memory_service C) now others i rcv callback (?s0, t, doc) =
          ((False, case ?g of Ok f' \<Rightarrow> Ok () | Err e \<Rightarrow> Err e | Panic \<Rightarrow> Panic),
           (others (t + 2) (others (t + 1) s3), t + 3, case ?g of Ok f' \<Rightarrow> f' | _ \<Rightarrow> f))"
        using \<open>mem_getValue C i rcv ?s0 = Ok f\<close> cb upd Ok
        by (simp add: consistent_attempt_def mem_Get_def s1 split: outcome.split)
      then have "\<not> again" "t' = t + 3" "s' = others (t + 2) (others (t + 1) s3)" "is_ok r \<longrightarrow> ?g = Ok doc'"
        using assms by (auto split: outcome.splits)
      then have "\<not> again" "t' = t + 3" "s' = run_others others (t + 1) (t + 3) s3"
        "is_ok r \<longrightarrow> mem_getValue C i rcv (run_others others (t + 1) (t + 2) s3) = Ok doc'"
        by (simp_all only: after(1) after(2) [of s3, unfolded after(1)] not_False_eq_True)
      then show ?thesis using \<open>mem_getValue C i rcv ?s0 = Ok f\<close> cb upd Ok unfolding one_write_def prod.case
        by (intro disjI2 conjI exI [of _ t] exI [of _ f] exI [of _ us] exI [of _ ps] exI [of _ s3]) simp_all
    next
      case (Err e)
      then have "s3 = ?s1" using mem_Update_not_Ok [OF upd] by simp
      then show ?thesis using assms \<open>mem_getValue C i rcv ?s0 = Ok f\<close> cb upd Err s2
        by (auto simp: consistent_attempt_def mem_Get_def s1 no_write_def)
    next
      case Panic
      then have "s3 = ?s1" using mem_Update_not_Ok [OF upd] by simp
      then show ?thesis using assms \<open>mem_getValue C i rcv ?s0 = Ok f\<close> cb upd Panic s2
        by (auto simp: consistent_attempt_def mem_Get_def s1 no_write_def)
    qed
  next
    case (Err e)
    then show ?thesis using assms by (auto simp: consistent_attempt_def mem_Get_def s1 no_write_def)
  next
    case Panic
    then show ?thesis using assms by (auto simp: consistent_attempt_def mem_Get_def s1 no_write_def)
  qed
qed

text \<open>
  A callback is versioned by a field when one of its preconditions asks for the value that this field
  had in the document it was given. The field identifies the document while others write when no two
  different documents they leave under the ID, up to the time \<open>t\<close>, have the same value in it.
\<close>

definition versioned ::
  "('v, 'b) memory_config \<Rightarrow> ('v fields \<Rightarrow> 'v doc_update list \<times> 'v doc_update list) \<Rightarrow> string \<Rightarrow> bool" where
  "versioned C callback vk \<longleftrightarrow> (\<forall>f. \<exists>p \<in> set (snd (callback f)).
     case_path (DefaultLowerCase (mem_marshaler C)) (up_FieldPath p) = [vk] \<and> up_Value p = field_value f vk)"

definition identifies ::
  "('v, 'b) memory_config \<Rightarrow> string \<Rightarrow> string \<Rightarrow> (nat \<Rightarrow> 'b storage \<Rightarrow> 'b storage) \<Rightarrow> 'b storage \<Rightarrow> nat \<Rightarrow> bool" where
  "identifies C i vk others s t \<longleftrightarrow> (\<forall>b < t. \<forall>c \<le> t. \<forall>f g.
     mem_getValue C i map_ptr (run_others others 0 b s) = Ok f \<and>
     mem_getValue C i map_ptr (run_others others 0 c s) = Ok g \<and> field_value f vk = field_value g vk \<longrightarrow> f = g)"

lemma go_eq_True: "go_eq a b = Ok True \<Longrightarrow> a = b"
  by (cases "(a, b)" rule: go_eq.cases) auto

lemma mem_getValue_map_ptr: "mem_getValue C i rcv s = Ok f \<Longrightarrow> mem_getValue C i map_ptr s = Ok f"
  by (auto simp: mem_getValue_def SafeDecode_def map_ptr_def split: option.splits if_splits)

text \<open>What the preconditions of a versioned callback say of the document they hold for.\<close>

lemma versioned_same:
  assumes "versioned C callback vk" "callback f = (us, ps)"
    and "\<forall>p \<in> set ps. precondField g (case_path (DefaultLowerCase (mem_marshaler C)) (up_FieldPath p)) (up_Value p) = Ok True"
  shows "field_value g vk = field_value f vk"
proof -
  obtain p where "p \<in> set ps" "case_path (DefaultLowerCase (mem_marshaler C)) (up_FieldPath p) = [vk]"
    "up_Value p = field_value f vk"
    using assms(1,2) unfolding versioned_def by (metis snd_conv)
  then show ?thesis using assms(3) go_eq_True by fastforce
qed

section \<open>Property\<close>

text \<open>
  C20 (consistent_update_atomic). Whatever others do to the store between the calls of
  \<open>ConsistentUpdate\<close> over the in-memory service: if it succeeds, it updated the document once, with
  what the callback made of the fields it had read, at a moment when the stored document satisfied every
  precondition, all other changes are those of the others, and the document it leaves in the caller's
  variable was read after that update. If it fails it made at most that one update. If the callback's
  preconditions ask for the version it read, the document the update replaced has that version; and where
  the version identifies the document, the one replaced is the one the callback had read, so no write of
  another is lost. Without such a precondition a write between the read and the update is overwritten.
\<close>

theorem consistent_update_atomic:
  assumes "ConsistentUpdate app ctx fired (memory_service C) now others i rcv strat callback (s, 0, doc) =
    Some (r, (s', t', doc'))"
  shows "if is_ok r then
      \<exists>a f us ps s1 g. a < t' \<and> mem_getValue C i rcv (run_others others 0 a s) = Ok f \<and> callback f = (us, ps) \<and>
        mem_getValue C i map_ptr (run_others others 0 (a + 1) s) = Ok g \<and>
        (\<forall>p \<in> set ps. precondField g (case_path (DefaultLowerCase (mem_marshaler C)) (up_FieldPath p)) (up_Value p) = Ok True) \<and>
        mem_Update C (now (a + 1)) i us ps (run_others others 0 (a + 1) s) = (Ok (), s1) \<and>
        s' = run_others others (a + 1) t' s1 \<and>
        mem_getValue C i rcv (run_others others (a + 1) (a + 2) s1) = Ok doc' \<and>
        (\<forall>vk. versioned C callback vk \<longrightarrow>
           field_value g vk = field_value f vk \<and> (identifies C i vk others s t' \<longrightarrow> g = f))
    else no_write others s t' s' \<or> one_write C now others i rcv callback s False (s', t', doc')"
proof -
  let ?Q = "\<lambda>ok (s', t', doc'). no_write others s t' s' \<and> \<not> ok \<or> one_write C now others i rcv callback s ok (s', t', doc')"
  have "?Q (is_ok r) (s', t', doc')"
  proof (rule retry_loop_rule [where I = "\<lambda>(s', t', doc). no_write others s t' s'" and Q = ?Q and
        J = "\<lambda>(s', t', doc'). no_write others s t' s'", OF assms [unfolded ConsistentUpdate_def Retry_def]])
    fix w b r w1
    assume "case w of (s', t', doc) \<Rightarrow> no_write others s t' s'"
      and "consistent_attempt (memory_service C) now others i rcv callback w = ((b, r), w1)"
    then show "?Q (is_ok r) w1 \<and> (b \<longrightarrow> (case w1 of (s', t', doc') \<Rightarrow> no_write others s t' s'))"
      using consistent_attempt_cases [of C now others i rcv callback "fst (snd w)" s "snd (snd w)" b r]
      by (fastforce simp: no_write_def)
  qed (auto simp: no_write_def cu_env_def run_others_step split: if_splits)
  then show ?thesis
  proof (cases "is_ok r")
    case True
    then obtain a f us ps s1 where w: "a < t'" "mem_getValue C i rcv (run_others others 0 a s) = Ok f" "callback f = (us, ps)"
        "mem_Update C (now (a + 1)) i us ps (run_others others 0 (a + 1) s) = (Ok (), s1)"
        "s' = run_others others (a + 1) t' s1" "mem_getValue C i rcv (run_others others (a + 1) (a + 2) s1) = Ok doc'"
      using \<open>?Q (is_ok r) (s', t', doc')\<close> unfolding one_write_def prod.case by blast
    obtain g where g: "mem_getValue C i map_ptr (run_others others 0 (a + 1) s) = Ok g"
        "\<forall>p \<in> set ps. precondField g (case_path (DefaultLowerCase (mem_marshaler C)) (up_FieldPath p)) (up_Value p) = Ok True"
      using mem_Update_preconds [OF w(4)] by blast
    have "field_value g vk = field_value f vk \<and> (identifies C i vk others s t' \<longrightarrow> g = f)"
      if "versioned C callback vk" for vk
      using versioned_same [OF that w(3) g(2)] mem_getValue_map_ptr [OF w(2)] g(1) w(1)
      unfolding identifies_def by (metis Suc_eq_plus1 Suc_leI)
    then show ?thesis using g w True by (simp only: if_True) blast
  qed simp
qed

text \<open>A caller that retries once because another one writes between its read and its update.\<close>

definition meddle :: "nat \<Rightarrow> string fields storage \<Rightarrow> string fields storage" where
  "meddle t s = (if t = 0 then [(''d'', [(''Size'', VLeaf ''5'')])] else s)"

definition resize :: "string fields \<Rightarrow> string doc_update list \<times> string doc_update list" where
  "resize f = ([\<lparr>up_FieldPath = [''Prev''], up_Value = field_value f ''Size''\<rparr>],
     [\<lparr>up_FieldPath = [''Size''], up_Value = field_value f ''Size''\<rparr>])"

theorem consistent_update_atomic_witness:
  "\<exists>w. ConsistentUpdate (\<lambda>_ e. e) (\<lambda>_. None) (\<lambda>_. True) (memory_service plain_config) (\<lambda>_. zeroTime) meddle ''d''
      map_ptr DefaultStrategy resize ([(''d'', [(''Size'', VLeaf ''1'')])], 0, []) = Some (Ok (), w) \<and>
    (\<exists>a f g s1. mem_getValue plain_config ''d'' map_ptr (run_others meddle 0 (a + 1) [(''d'', [(''Size'', VLeaf ''1'')])]) = Ok g \<and>
       field_value g ''Size'' = field_value f ''Size'' \<and>
       mem_Update plain_config zeroTime ''d'' (fst (resize f)) (snd (resize f))
         (run_others meddle 0 (a + 1) [(''d'', [(''Size'', VLeaf ''1'')])]) = (Ok (), s1))"
proof -
  let ?E = "cu_env meddle (\<lambda>_. None) (\<lambda>_. True) :: (docerr, (string fields storage, string) cu_world) retry_env"
  let ?fn = "consistent_attempt (memory_service plain_config) (\<lambda>_. zeroTime) meddle ''d'' map_ptr resize"
  let ?w = "([(''d'', [(''Size'', VLeaf ''1'')])], 0, []) :: (string fields storage, string) cu_world"
  let ?w1 = "([(''d'', [(''Size'', VLeaf ''5'')])], 3, [(''Size'', VLeaf ''1'')]) :: (string fields storage, string) cu_world"
  let ?d = "[(''Size'', VLeaf ''5''), (''Prev'', VLeaf ''5''), (''UpdatedAt'', VTime zeroTime)] :: string fields"
  note ev = consistent_attempt_def mem_Get_def mem_getValue_def SafeDecode_def map_ptr_def decode_def resize_def
    field_value_def meddle_def mem_Update_def UpdateProto_def Let_def case_path_def DefaultUpdatedAtField_def Encode_def
    UpdateUpdatedAtField_def UpdateDefaultUpdatedAtField_def setMapField_def
  have a1: "?fn ?w = ((True, Err DPreconditionFailed), ([(''d'', [(''Size'', VLeaf ''5'')])], 2, [(''Size'', VLeaf ''1'')]))"
    by (simp add: ev)
  have a2: "?fn ?w1 = ((False, Ok ()), ([(''d'', ?d)], 6, ?d))"
    by (simp add: ev)
  have "retry_loop (\<lambda>_ e. e) ?E DefaultStrategy ?fn 1 (Some DPreconditionFailed) ?w1 = Some (Ok (), ([(''d'', ?d)], 6, ?d))"
    by (subst retry_loop.simps) (simp add: a2)
  moreover have "snd (DefaultStrategy 1) = False"
    by (simp add: DefaultStrategy_def CombinedStrategy_def LimitStrategy_def ExponentialStrategy_def Let_def word_le_nat_alt)
  ultimately have run: "ConsistentUpdate (\<lambda>_ e. e) (\<lambda>_. None) (\<lambda>_. True) (memory_service plain_config) (\<lambda>_. zeroTime)
      meddle ''d'' map_ptr DefaultStrategy resize ?w = Some (Ok (), ([(''d'', ?d)], 6, ?d))"
    unfolding ConsistentUpdate_def Retry_def
    by (subst retry_loop.simps) (simp add: a1 cu_env_def split_beta Let_def meddle_def)
  have "versioned plain_config resize ''Size''" by (simp add: versioned_def resize_def case_path_def)
  with consistent_update_atomic [OF run] obtain a f us ps s1 g where "resize f = (us, ps)"
    "mem_getValue plain_config ''d'' map_ptr (run_others meddle 0 (a + 1) (fst ?w)) = Ok g"
    "field_value g ''Size'' = field_value f ''Size''"
    "mem_Update plain_config zeroTime ''d'' us ps (run_others meddle 0 (a + 1) (fst ?w)) = (Ok (), s1)"
    by auto
  then have "mem_getValue plain_config ''d'' map_ptr (run_others meddle 0 (a + 1) (fst ?w)) = Ok g \<and>
      field_value g ''Size'' = field_value f ''Size'' \<and>
      mem_Update plain_config zeroTime ''d'' (fst (resize f)) (snd (resize f))
        (run_others meddle 0 (a + 1) (fst ?w)) = (Ok (), s1)" by simp
  then show ?thesis using run by auto
qed

end
