(* ===== verification/DocBolt.thy ===== *)
theory DocBolt
  imports DocConsistent
begin

text \<open>
  The document store over an embedded bbolt database (\<^verbatim>\<open>document/bolt/service.go\<close>)
  with its batches (\<^verbatim>\<open>document/batch.go\<close>). The database is third-party code: its
  operations are a record, what its documentation says of them the predicate \<open>bbolt_law\<close>.
\<close>

section \<open>The database\<close>

text \<open>
  A state of the database, as a transaction sees it. \<open>bb_Bucket\<close> tells whether the bucket of a
  collection exists, \<open>bb_ForEach\<close> lists it in key order. \<open>bb_View\<close> is the error that a read-only
  transaction cannot begin with; \<open>bb_Update\<close> runs a function in a read-write transaction (the first
  argument is the flag \<open>NoSync\<close>), whose result is what its closure collected.
\<close>

record ('s, 'b) bbolt =
  bb_Bucket :: "string \<Rightarrow> 's \<Rightarrow> bool"
  bb_Get :: "string \<Rightarrow> string \<Rightarrow> 's \<Rightarrow> 'b option"
  bb_Put :: "string \<Rightarrow> string \<Rightarrow> 'b \<Rightarrow> 's \<Rightarrow> unit dresult \<times> 's"
  bb_Delete :: "string \<Rightarrow> string \<Rightarrow> 's \<Rightarrow> unit dresult \<times> 's"
  bb_ForEach :: "string \<Rightarrow> 's \<Rightarrow> (string \<times> 'b) list"
  bb_CreateBucketIfNotExists :: "string \<Rightarrow> 's \<Rightarrow> unit dresult \<times> 's"
  bb_DeleteBucket :: "string \<Rightarrow> 's \<Rightarrow> unit dresult \<times> 's"
  bb_View :: "'s \<Rightarrow> docerr option"
  bb_Update :: "bool \<Rightarrow> ('s \<Rightarrow> docerr option list dresult \<times> 's) \<Rightarrow> 's \<Rightarrow> docerr option list dresult \<times> 's"

section \<open>The store\<close>

text \<open>\<open>bs_size\<close> is the length of the encoded bytes.\<close>

record ('v, 'b, 's) bolt_store =
  bs_marshaler :: "('v, 'b) marshaler"
  bs_asserts :: "'v asserts"
  bs_size :: "'b \<Rightarrow> nat"
  bs_db :: "('s, 'b) bbolt"
  bs_collID :: string

abbreviation bs_absent :: "('v, 'b, 's) bolt_store \<Rightarrow> string \<Rightarrow> 's \<Rightarrow> bool" where
  "bs_absent S k s \<equiv> (case bb_Get (bs_db S) (bs_collID S) k s of None \<Rightarrow> True | Some b \<Rightarrow> bs_size S b = 0)"

text \<open>The first use of a bucket that does not exist panics.\<close>

definition in_bucket :: "('v, 'b, 's) bolt_store \<Rightarrow> ('s \<Rightarrow> unit dresult \<times> 's) \<Rightarrow> 's \<Rightarrow> unit dresult \<times> 's" where
  "in_bucket S act s = (if bb_Bucket (bs_db S) (bs_collID S) s then act s else (Panic, s))"

text \<open>
  A read-write transaction whose commit durability honours the context (\<open>noSync\<close>).
\<close>

definition bolt_update ::
  "('v, 'b, 's) bolt_store \<Rightarrow> bool \<Rightarrow> ('s \<Rightarrow> docerr option list dresult \<times> 's) \<Rightarrow> 's \<Rightarrow> docerr option list dresult \<times> 's" where
  "bolt_update S noSync fn s = bb_Update (bs_db S) noSync fn s"

definition no_results :: "unit dresult \<Rightarrow> docerr option list dresult" where
  "no_results r = andThen r (\<lambda>_. Ok [])"

definition drop_results :: "docerr option list dresult \<Rightarrow> unit dresult" where
  "drop_results r = andThen r (\<lambda>_. Ok ())"

definition transact :: "('v, 'b, 's) bolt_store \<Rightarrow> bool \<Rightarrow> ('s \<Rightarrow> unit dresult \<times> 's) \<Rightarrow> 's \<Rightarrow> unit dresult \<times> 's" where
  "transact S noSync fn s = map_prod drop_results id (bolt_update S noSync (map_prod no_results id \<circ> fn) s)"

definition bolt_createBucketIfNotExists :: "('v, 'b, 's) bolt_store \<Rightarrow> bool \<Rightarrow> 's \<Rightarrow> unit dresult \<times> 's" where
  "bolt_createBucketIfNotExists S noSync s =
     transact S noSync (\<lambda>s. map_prod (mapErr (\<lambda>e. DError ''create collection'')) id
       (bb_CreateBucketIfNotExists (bs_db S) (bs_collID S) s)) s"

definition bolt_getData :: "('v, 'b, 's) bolt_store \<Rightarrow> string \<Rightarrow> 'v gval \<Rightarrow> 's \<Rightarrow> 'v fields dresult" where
  "bolt_getData S i rcv s =
     (case bb_View (bs_db S) s of
        Some e \<Rightarrow> Err e
      | None \<Rightarrow>
          if \<not> bb_Bucket (bs_db S) (bs_collID S) s then Panic
          else if bs_absent S i s then Err DNotFound
          else SafeDecode (bs_marshaler S) rcv (the (bb_Get (bs_db S) (bs_collID S) i s)))"

definition bolt_Get :: "('v, 'b, 's) bolt_store \<Rightarrow> string \<Rightarrow> 'v gval \<Rightarrow> 's \<Rightarrow> 'v fields dresult \<times> 's" where
  "bolt_Get S i rcv s = (bolt_getData S i rcv s, s)"

text \<open>\<open>b.Put(key, document.Encode(s.marshaler, doc, addCreatedAt))\<close>.\<close>

definition put_encoded ::
  "('v, 'b, 's) bolt_store \<Rightarrow> gotime \<Rightarrow> string \<Rightarrow> 'v gval \<Rightarrow> bool \<Rightarrow> 's \<Rightarrow> unit dresult \<times> 's" where
  "put_encoded S now i d addCreatedAt s =
     (case Encode (bs_marshaler S) now now d addCreatedAt of
        Ok b \<Rightarrow> bb_Put (bs_db S) (bs_collID S) i b s
      | Err e \<Rightarrow> (Err e, s)
      | Panic \<Rightarrow> (Panic, s))"

definition bolt_set ::
  "('v, 'b, 's) bolt_store \<Rightarrow> bool \<Rightarrow> gotime \<Rightarrow> string \<Rightarrow> 'v gval \<Rightarrow> bool \<Rightarrow> 's \<Rightarrow> unit dresult \<times> 's" where
  "bolt_set S noSync now i doc errAlreadyExists s =
     (if doc = GNil then (Panic, s)
      else case DerefCreateValue doc of
        Err e \<Rightarrow> (Err e, s)
      | Panic \<Rightarrow> (Panic, s)
      | Ok d \<Rightarrow> transact S noSync (in_bucket S (\<lambda>s.
          if errAlreadyExists \<and> \<not> bs_absent S i s then (Err DAlreadyExists, s)
          else put_encoded S now i d True s)) s)"

definition bolt_Set :: "('v, 'b, 's) bolt_store \<Rightarrow> bool \<Rightarrow> gotime \<Rightarrow> string \<Rightarrow> 'v gval \<Rightarrow> 's \<Rightarrow> unit dresult \<times> 's" where
  "bolt_Set S noSync now i doc s = bolt_set S noSync now i doc False s"

definition bolt_Create :: "('v, 'b, 's) bolt_store \<Rightarrow> bool \<Rightarrow> gotime \<Rightarrow> string \<Rightarrow> 'v gval \<Rightarrow> 's \<Rightarrow> unit dresult \<times> 's" where
  "bolt_Create S noSync now i doc s = bolt_set S noSync now i doc True s"

text \<open>Reading, changing and writing back one document inside a transaction.\<close>

definition update_doc ::
  "('v, 'b, 's) bolt_store \<Rightarrow> gotime \<Rightarrow> string \<Rightarrow> 'v doc_update list \<Rightarrow> 'v doc_update list \<Rightarrow> 's \<Rightarrow> unit dresult \<times> 's" where
  "update_doc S now i updates preconds s =
     (if bs_absent S i s then (Err DNotFound, s)
      else case andThen (SafeDecode (bs_marshaler S) map_ptr (the (bb_Get (bs_db S) (bs_collID S) i s))) (\<lambda>doc.
             UpdateProto (bs_marshaler S) now updates doc preconds) of
        Ok doc \<Rightarrow> put_encoded S now i (GMap True doc) False s
      | Err e \<Rightarrow> (Err e, s)
      | Panic \<Rightarrow> (Panic, s))"

definition bolt_Update ::
  "('v, 'b, 's) bolt_store \<Rightarrow> bool \<Rightarrow> gotime \<Rightarrow> string \<Rightarrow> 'v doc_update list \<Rightarrow> 'v doc_update list \<Rightarrow> 's \<Rightarrow> unit dresult \<times> 's" where
  "bolt_Update S noSync now i updates preconds s =
     (if updates = [] then (Panic, s)
      else transact S noSync (in_bucket S (update_doc S now i updates preconds)) s)"

definition bolt_Delete :: "('v, 'b, 's) bolt_store \<Rightarrow> bool \<Rightarrow> string \<Rightarrow> 's \<Rightarrow> unit dresult \<times> 's" where
  "bolt_Delete S noSync i s =
     transact S noSync (in_bucket S (bb_Delete (bs_db S) (bs_collID S) i)) s"

definition bolt_List :: "('v, 'b, 's) bolt_store \<Rightarrow> 'v doc_filter list \<Rightarrow> 's \<Rightarrow> 'b list_iterator dresult \<times> 's" where
  "bolt_List S filters s =
     (case bb_View (bs_db S) s of
        Some e \<Rightarrow> Err e
      | None \<Rightarrow>
          if \<not> bb_Bucket (bs_db S) (bs_collID S) s then Panic
          else extend_all (bs_marshaler S) (bs_asserts S) filters (map snd (bb_ForEach (bs_db S) (bs_collID S) s)) \<lparr>li_docs = []\<rparr>,
      s)"

definition bolt_Drop :: "('v, 'b, 's) bolt_store \<Rightarrow> bool \<Rightarrow> 's \<Rightarrow> unit dresult \<times> 's" where
  "bolt_Drop S noSync s =
     (case transact S noSync (bb_DeleteBucket (bs_db S) (bs_collID S)) s of
        (Ok _, s') \<Rightarrow>
          (case bolt_createBucketIfNotExists S noSync s' of
             (Ok _, s'') \<Rightarrow> (Ok (), s'')
           | (_, s'') \<Rightarrow> (Panic, s''))
      | r \<Rightarrow> r)"

section \<open>Batches\<close>

text \<open>\<open>bo_Doc\<close> is \<open>GNil\<close> for a nil document.\<close>

datatype batch_op_type = BatchCreate | BatchSet | BatchUpdate | BatchDelete | BatchOther int

record 'v batch_op =
  bo_Type :: batch_op_type
  bo_ID :: string
  bo_Doc :: "'v gval"
  bo_Updates :: "'v doc_update list"
  bo_Preconditions :: "'v doc_update list"

definition applyBatchOp :: "('v, 'b, 's) bolt_store \<Rightarrow> gotime \<Rightarrow> 'v batch_op \<Rightarrow> 's \<Rightarrow> unit dresult \<times> 's" where
  "applyBatchOp S now x s =
     (case bo_Type x of
        BatchDelete \<Rightarrow> in_bucket S (bb_Delete (bs_db S) (bs_collID S) (bo_ID x)) s
      | BatchUpdate \<Rightarrow>
          if bo_Updates x = [] then (Err (DError ''batch: no paths to update''), s)
          else in_bucket S (update_doc S now (bo_ID x) (bo_Updates x) (bo_Preconditions x)) s
      | BatchOther _ \<Rightarrow> (Err (DError ''batch: unknown operation type''), s)
      | _ \<Rightarrow>
          if bo_Doc x = GNil then (Err (DError ''batch: nil document''), s)
          else (case DerefCreateValue (bo_Doc x) of
            Err e \<Rightarrow> (Err e, s)
          | Panic \<Rightarrow> (Panic, s)
          | Ok d \<Rightarrow> in_bucket S (\<lambda>s.
              if bo_Type x = BatchCreate \<and> \<not> bs_absent S (bo_ID x) s then (Err DAlreadyExists, s)
              else put_encoded S now (bo_ID x) d True s) s))"

definition rejected :: "docerr \<Rightarrow> bool" where
  "rejected e \<longleftrightarrow> e \<in> {DAlreadyExists, DNotFound, DPreconditionFailed}"

fun batch_loop :: "('v, 'b, 's) bolt_store \<Rightarrow> gotime \<Rightarrow> 'v batch_op list \<Rightarrow> 's \<Rightarrow> docerr option list dresult \<times> 's" where
  "batch_loop S now [] s = (Ok [], s)"
| "batch_loop S now (x # ops) s =
     (case applyBatchOp S now x s of
        (Ok _, s') \<Rightarrow> map_prod (\<lambda>r. andThen r (\<lambda>rs. Ok (None # rs))) id (batch_loop S now ops s')
      | (Err e, s') \<Rightarrow>
          if rejected e then map_prod (\<lambda>r. andThen r (\<lambda>rs. Ok (Some e # rs))) id (batch_loop S now ops s')
          else (Err e, s')
      | (Panic, s') \<Rightarrow> (Panic, s'))"

definition ApplyBatch ::
  "('v, 'b, 's) bolt_store \<Rightarrow> bool \<Rightarrow> gotime \<Rightarrow> 'v batch_op list \<Rightarrow> 's \<Rightarrow> docerr option list dresult \<times> 's" where
  "ApplyBatch S noSync now ops s =
     bolt_update S noSync (batch_loop S now ops) s"

definition bolt_service :: "('v, 'b, 's) bolt_store \<Rightarrow> bool \<Rightarrow> ('s, 'v) service" where
  "bolt_service S noSync =
     \<lparr>svc_Create = bolt_Create S noSync, svc_Set = bolt_Set S noSync, svc_Update = bolt_Update S noSync,
      svc_Get = bolt_Get S, svc_Delete = bolt_Delete S noSync,
      svc_List = (\<lambda>fs s. (andThen (fst (bolt_List S fs s)) (\<lambda>it. drain_docs (bs_marshaler S) (li_docs it)), s)),
      svc_Close = (\<lambda>s. (Ok (), s))\<rparr>"

section \<open>What the database promises\<close>

text \<open>
  In terms of the buckets a state shows: reads and writes are those of a map, a bucket is listed once
  per key, a read-write transaction takes effect as a whole when its function succeeds and the commit
  does, and otherwise not at all, and the errors of the database are none of the package's own.
\<close>

definition db_fails :: "'a dresult \<Rightarrow> bool" where
  "db_fails r \<longleftrightarrow> (\<exists>e. r = Err e \<and> \<not> rejected e)"

definition bbolt_law :: "('s, 'b) bbolt \<Rightarrow> ('s \<Rightarrow> string \<Rightarrow> (string \<Rightarrow> 'b option) option) \<Rightarrow> bool" where
  "bbolt_law B view \<longleftrightarrow>
     (\<forall>c s. bb_Bucket B c s \<longleftrightarrow> view s c \<noteq> None) \<and>
     (\<forall>c k s m. view s c = Some m \<longrightarrow> bb_Get B c k s = m k) \<and>
     (\<forall>c k b s m. view s c = Some m \<longrightarrow> (case bb_Put B c k b s of (r, s') \<Rightarrow>
        db_fails r \<or> r = Ok () \<and> view s' = (view s)(c \<mapsto> m(k \<mapsto> b)))) \<and>
     (\<forall>c k s m. view s c = Some m \<longrightarrow> (case bb_Delete B c k s of (r, s') \<Rightarrow>
        db_fails r \<or> r = Ok () \<and> view s' = (view s)(c \<mapsto> m(k := None)))) \<and>
     (\<forall>c s m. view s c = Some m \<longrightarrow> distinct (map fst (bb_ForEach B c s)) \<and> map_of (bb_ForEach B c s) = m) \<and>
     (\<forall>c s. case bb_CreateBucketIfNotExists B c s of (r, s') \<Rightarrow>
        db_fails r \<or> r = Ok () \<and> view s' = (if view s c = None then (view s)(c \<mapsto> Map.empty) else view s)) \<and>
     (\<forall>c s. case bb_DeleteBucket B c s of (r, s') \<Rightarrow> db_fails r \<or> r = Ok () \<and> view s' = (view s)(c := None)) \<and>
     (\<forall>s e. bb_View B s = Some e \<longrightarrow> \<not> rejected e) \<and>
     (\<forall>noSync fn s. case (fn s, bb_Update B noSync fn s) of ((r, t), (r', s')) \<Rightarrow>
        r' = r \<and> view s' = (if is_ok r then view t else view s) \<or> db_fails r' \<and> view s' = view s)"

lemma bbolt_lawD:
  assumes "bbolt_law B view"
  shows bbolt_Bucket: "bb_Bucket B c s \<longleftrightarrow> view s c \<noteq> None"
    and bbolt_Get: "view s c = Some m \<Longrightarrow> bb_Get B c k s = m k"
    and bbolt_Put: "view s c = Some m \<Longrightarrow> bb_Put B c k b s = (r, s') \<Longrightarrow>
      db_fails r \<or> r = Ok () \<and> view s' = (view s)(c \<mapsto> m(k \<mapsto> b))"
    and bbolt_Delete: "view s c = Some m \<Longrightarrow> bb_Delete B c k s = (r, s') \<Longrightarrow>
      db_fails r \<or> r = Ok () \<and> view s' = (view s)(c \<mapsto> m(k := None))"
    and bbolt_ForEach: "view s c = Some m \<Longrightarrow> distinct (map fst (bb_ForEach B c s)) \<and> map_of (bb_ForEach B c s) = m"
    and bbolt_CreateBucket: "bb_CreateBucketIfNotExists B c s = (r, s') \<Longrightarrow>
      db_fails r \<or> r = Ok () \<and> view s' = (if view s c = None then (view s)(c \<mapsto> Map.empty) else view s)"
    and bbolt_DeleteBucket: "bb_DeleteBucket B c s = (r, s') \<Longrightarrow> db_fails r \<or> r = Ok () \<and> view s' = (view s)(c := None)"
    and bbolt_View: "bb_View B s = Some e \<Longrightarrow> \<not> rejected e"
    and bbolt_Update: "fn s = (q, t) \<Longrightarrow> bb_Update B noSync fn s = (q', s') \<Longrightarrow>
      q' = q \<and> view s' = (if is_ok q then view t else view s) \<or> db_fails q' \<and> view s' = view s"
proof -
  note law = assms [unfolded bbolt_law_def]
  note c1 = law [THEN conjunct1] and l1 = law [THEN conjunct2]
  note c2 = l1 [THEN conjunct1] and l2 = l1 [THEN conjunct2]
  note c3 = l2 [THEN conjunct1] and l3 = l2 [THEN conjunct2]
  note c4 = l3 [THEN conjunct1] and l4 = l3 [THEN conjunct2]
  note c5 = l4 [THEN conjunct1] and l5 = l4 [THEN conjunct2]
  note l7 = l5 [THEN conjunct2, THEN conjunct2]
  show "bb_Bucket B c s \<longleftrightarrow> view s c \<noteq> None" using c1 by simp
  show "view s c = Some m \<Longrightarrow> bb_Get B c k s = m k" using c2 by simp
  show "view s c = Some m \<Longrightarrow> bb_Put B c k b s = (r, s') \<Longrightarrow>
      db_fails r \<or> r = Ok () \<and> view s' = (view s)(c \<mapsto> m(k \<mapsto> b))" using c3 [rule_format, of s c m k b] by simp
  show "view s c = Some m \<Longrightarrow> bb_Delete B c k s = (r, s') \<Longrightarrow>
      db_fails r \<or> r = Ok () \<and> view s' = (view s)(c \<mapsto> m(k := None))" using c4 [rule_format, of s c m k] by simp
  show "view s c = Some m \<Longrightarrow> distinct (map fst (bb_ForEach B c s)) \<and> map_of (bb_ForEach B c s) = m" using c5 by simp
  show "bb_CreateBucketIfNotExists B c s = (r, s') \<Longrightarrow>
      db_fails r \<or> r = Ok () \<and> view s' = (if view s c = None then (view s)(c \<mapsto> Map.empty) else view s)"
    using l5 [THEN conjunct1, THEN spec [of _ c], THEN spec [of _ s]] by simp
  show "bb_DeleteBucket B c s = (r, s') \<Longrightarrow> db_fails r \<or> r = Ok () \<and> view s' = (view s)(c := None)"
    using l5 [THEN conjunct2, THEN conjunct1, THEN spec [of _ c], THEN spec [of _ s]] by simp
  show "bb_View B s = Some e \<Longrightarrow> \<not> rejected e" using l7 by simp
  show "fn s = (q, t) \<Longrightarrow> bb_Update B noSync fn s = (q', s') \<Longrightarrow>
      q' = q \<and> view s' = (if is_ok q then view t else view s) \<or> db_fails q' \<and> view s' = view s"
    using l7 [THEN conjunct2, THEN spec [of _ noSync], THEN spec [of _ fn], THEN spec [of _ s]] by simp
qed

section \<open>Refinement\<close>

text \<open>The in-memory service a store behaves like, and the relation of their states.\<close>

definition memory_of :: "('v, 'b, 's) bolt_store \<Rightarrow> ('v, 'b) memory_config" where
  "memory_of S = \<lparr>mem_marshaler = bs_marshaler S, mem_asserts = bs_asserts S\<rparr>"

definition stored :: "('v, 'b, 's) bolt_store \<Rightarrow> ('s \<Rightarrow> string \<Rightarrow> (string \<Rightarrow> 'b option) option) \<Rightarrow> 's \<Rightarrow> 'b storage \<Rightarrow> bool" where
  "stored S view s m \<longleftrightarrow> view s (bs_collID S) = Some (map_of m) \<and> wf_map m \<and> (\<forall>k b. map_of m k = Some b \<longrightarrow> bs_size S b \<noteq> 0)"

text \<open>No value encodes to nothing.\<close>

definition sizes :: "('v, 'b, 's) bolt_store \<Rightarrow> bool" where
  "sizes S \<longleftrightarrow> (\<forall>d b. Marshal (bs_marshaler S) d = Some b \<longrightarrow> bs_size S b \<noteq> 0)"

lemma stored_absent:
  "bbolt_law (bs_db S) view \<Longrightarrow> stored S view s m \<Longrightarrow> bs_absent S k s \<longleftrightarrow> map_of m k = None"
  "bbolt_law (bs_db S) view \<Longrightarrow> stored S view s m \<Longrightarrow> bb_Get (bs_db S) (bs_collID S) k s = map_of m k"
  "bbolt_law (bs_db S) view \<Longrightarrow> stored S view s m \<Longrightarrow> bb_Bucket (bs_db S) (bs_collID S) s"
  using bbolt_Get bbolt_Bucket by (fastforce simp: stored_def split: option.splits dest: map_of_SomeD)+

lemma stored_view: "view s' = view s \<Longrightarrow> stored S view s m \<Longrightarrow> stored S view s' m"
  by (simp add: stored_def)

text \<open>Writing inside a transaction.\<close>

lemma put_encoded_sim:
  assumes law: "bbolt_law (bs_db S) view" and "sizes S" and st: "stored S view s m"
    and run: "put_encoded S now i d b s = (r, s')"
  shows "db_fails r \<or> (case Encode (bs_marshaler S) now now d b of
      Ok x \<Rightarrow> r = Ok () \<and> stored S view s' (AList.update i x m)
    | Err e \<Rightarrow> r = Err e \<and> s' = s | Panic \<Rightarrow> r = Panic \<and> s' = s)"
proof (cases "Encode (bs_marshaler S) now now d b")
  case (Ok x)
  then have size: "bs_size S x \<noteq> 0" using assms(2) by (auto simp: sizes_def Encode_def outcome_simps)
  have "bb_Put (bs_db S) (bs_collID S) i x s = (r, s')" using run Ok by (simp add: put_encoded_def)
  from bbolt_Put [OF law _ this] st show ?thesis using Ok size
    by (auto simp: stored_def update_conv')
qed (use run in \<open>simp_all add: put_encoded_def\<close>)

lemma update_doc_sim:
  assumes law: "bbolt_law (bs_db S) view" and "sizes S" and st: "stored S view s m" and "us \<noteq> []"
    and run: "update_doc S now i us ps s = (r, s')"
  shows "db_fails r \<or> r = fst (mem_Update (memory_of S) now i us ps m) \<and>
    stored S view s' (snd (mem_Update (memory_of S) now i us ps m))"
proof (cases "map_of m i")
  case None
  then have "r = Err DNotFound" "s' = s" using run assms(4) stored_absent [OF law st] by (simp_all add: update_doc_def)
  then show ?thesis using None assms(4) st by (simp add: mem_Update_def mem_getValue_def memory_of_def)
next
  case (Some raw)
  let ?step = "andThen (SafeDecode (bs_marshaler S) map_ptr raw) (\<lambda>doc. UpdateProto (bs_marshaler S) now us doc ps)"
  have present: "\<not> bs_absent S i s" "the (bb_Get (bs_db S) (bs_collID S) i s) = raw"
    using stored_absent(1) [OF law st, of i] stored_absent(2) [OF law st, of i] Some by (auto split: option.splits)
  have mem: "mem_Update (memory_of S) now i us ps m =
      (case andThen ?step (\<lambda>doc. Encode (bs_marshaler S) now now (GMap True doc) False) of
         Ok b \<Rightarrow> (Ok (), AList.update i b m) | Err e \<Rightarrow> (Err e, m) | Panic \<Rightarrow> (Panic, m))"
    using Some assms(4) by (simp add: mem_Update_def mem_getValue_def memory_of_def andThen_assoc)
  have run': "(case ?step of Ok doc \<Rightarrow> put_encoded S now i (GMap True doc) False s
      | Err e \<Rightarrow> (Err e, s) | Panic \<Rightarrow> (Panic, s)) = (r, s')"
    using run present unfolding update_doc_def by (simp only: if_False)
  show ?thesis
  proof (cases ?step)
    case (Ok doc)
    then have "put_encoded S now i (GMap True doc) False s = (r, s')" using run' by simp
    from put_encoded_sim [OF law assms(2) st this] show ?thesis
      using st unfolding mem Ok by (auto split: outcome.splits)
  qed (use run' mem st in auto)
qed

lemma mem_set_not_Ok: "mem_set C now i d e m = (r, m') \<Longrightarrow> \<not> is_ok r \<Longrightarrow> m' = m"
  by (auto simp: mem_set_def split: outcome.splits if_splits)

lemma drop_no_results [simp]: "drop_results (no_results r) = r"
  by (cases r) (simp_all add: drop_results_def no_results_def)

lemma drop_results_fails [simp]: "db_fails (drop_results r) = db_fails r"
  by (cases r) (simp_all add: drop_results_def db_fails_def)

lemma is_ok_no_results [simp]: "is_ok (no_results r) = is_ok r"
  by (cases r) (simp_all add: no_results_def)

text \<open>A transaction whose function behaves like an operation in memory does so as a whole.\<close>

lemma transact_view:
  assumes law: "bbolt_law (bs_db S) view" and run: "transact S noSync fn s = (r, s')"
  shows "r = fst (fn s) \<and> view s' = (if is_ok (fst (fn s)) then view (snd (fn s)) else view s) \<or>
    db_fails r \<and> view s' = view s"
proof -
  obtain q where q: "bb_Update (bs_db S) noSync (map_prod no_results id \<circ> fn) s = (q, s')" "r = drop_results q"
    using run unfolding transact_def bolt_update_def by (metis (no_types, lifting) id_apply map_prod_simp prod.inject surj_pair)
  have f: "(map_prod no_results id \<circ> fn) s = (no_results (fst (fn s)), snd (fn s))" by (simp add: map_prod_def split_beta)
  from bbolt_Update [OF law f q(1)] show ?thesis using q(2) by auto
qed

lemma transact_sim:
  assumes law: "bbolt_law (bs_db S) view" and st: "stored S view s m"
    and inner: "db_fails (fst (fn s)) \<or> fst (fn s) = r0 \<and> (is_ok r0 \<longrightarrow> stored S view (snd (fn s)) m0)"
    and fail: "\<not> is_ok r0 \<Longrightarrow> m0 = m" and run: "transact S noSync fn s = (r, s')"
  shows "r = r0 \<and> stored S view s' m0 \<or> db_fails r \<and> stored S view s' m"
proof -
  show ?thesis using transact_view [OF law run]
  proof
    assume h: "r = fst (fn s) \<and> view s' = (if is_ok (fst (fn s)) then view (snd (fn s)) else view s)"
    show ?thesis
    proof (cases "is_ok r")
      case True
      then have "\<not> db_fails r" by (auto simp: db_fails_def is_ok_iff)
      then show ?thesis using h inner True stored_view [of view s' "snd (fn s)"] by auto
    next
      case False
      then have "stored S view s' m" using h st stored_view by metis
      then show ?thesis using h inner fail False by auto
    qed
  next
    assume "db_fails r \<and> view s' = view s"
    then show ?thesis using stored_view [OF _ st] by simp
  qed
qed

lemma bolt_set_sim:
  assumes law: "bbolt_law (bs_db S) view" and sz: "sizes S" and st: "stored S view s m"
    and run: "bolt_set S noSync now i d e s = (r, s')"
  shows "r = fst (mem_set (memory_of S) now i d e m) \<and> stored S view s' (snd (mem_set (memory_of S) now i d e m)) \<or>
    db_fails r \<and> stored S view s' m"
proof (cases "d = GNil \<or> (\<forall>d'. DerefCreateValue d \<noteq> Ok d')")
  case True
  then have "bolt_set S noSync now i d e s = (fst (mem_set (memory_of S) now i d e m), s)"
    "snd (mem_set (memory_of S) now i d e m) = m"
    by (cases "d = GNil"; cases "DerefCreateValue d"; simp add: bolt_set_def mem_set_def)+
  then show ?thesis using run st by simp
next
  case False
  then obtain d' where d': "DerefCreateValue d = Ok d'" by blast
  let ?fn = "\<lambda>s. if e \<and> \<not> bs_absent S i s then (Err DAlreadyExists, s) else put_encoded S now i d' True s"
  have tx: "transact S noSync (in_bucket S ?fn) s = (r, s')" using run False d' by (simp add: bolt_set_def)
  have mem: "mem_set (memory_of S) now i d e m =
      (if e \<and> map_of m i \<noteq> None then (Err DAlreadyExists, m)
       else case Encode (bs_marshaler S) now now d' True of
         Ok b \<Rightarrow> (Ok (), AList.update i b m) | Err x \<Rightarrow> (Err x, m) | Panic \<Rightarrow> (Panic, m))"
    using False d' by (auto simp: mem_set_def memory_of_def)
  obtain q t where q: "?fn s = (q, t)" by fastforce
  have in_b: "in_bucket S ?fn s = (q, t)" using q stored_absent(3) [OF law st] by (simp add: in_bucket_def)
  have "db_fails q \<or> q = fst (mem_set (memory_of S) now i d e m) \<and>
      (is_ok (fst (mem_set (memory_of S) now i d e m)) \<longrightarrow> stored S view t (snd (mem_set (memory_of S) now i d e m)))"
  proof (cases "e \<and> map_of m i \<noteq> None")
    case True
    then show ?thesis using q stored_absent(1) [OF law st, of i] unfolding mem by auto
  next
    case False
    then have "put_encoded S now i d' True s = (q, t)" using q stored_absent(1) [OF law st, of i] by auto
    from put_encoded_sim [OF law sz st this] show ?thesis using False unfolding mem
      by (auto split: outcome.splits)
  qed
  then show ?thesis
    by (intro transact_sim [OF law st _ _ tx]) (use in_b mem_set_not_Ok [OF prod.collapse [symmetric]] in auto)
qed

lemma bolt_Update_sim:
  assumes law: "bbolt_law (bs_db S) view" and sz: "sizes S" and st: "stored S view s m"
    and run: "bolt_Update S noSync now i us ps s = (r, s')"
  shows "r = fst (mem_Update (memory_of S) now i us ps m) \<and>
      stored S view s' (snd (mem_Update (memory_of S) now i us ps m)) \<or> db_fails r \<and> stored S view s' m"
proof (cases "us = []")
  case True
  then show ?thesis using run st by (auto simp: bolt_Update_def mem_Update_def)
next
  case False
  obtain q t where q: "update_doc S now i us ps s = (q, t)" by fastforce
  have in_b: "in_bucket S (update_doc S now i us ps) s = (q, t)"
    using q stored_absent(3) [OF law st] by (simp add: in_bucket_def)
  have tx: "transact S noSync (in_bucket S (update_doc S now i us ps)) s = (r, s')"
    using run False by (simp add: bolt_Update_def)
  show ?thesis
    by (intro transact_sim [OF law st _ _ tx])
      (use in_b update_doc_sim [OF law sz st False q] mem_Update_not_Ok [OF prod.collapse [symmetric]] in auto)
qed

lemma bolt_Delete_sim:
  assumes law: "bbolt_law (bs_db S) view" and st: "stored S view s m" and run: "bolt_Delete S noSync i s = (r, s')"
  shows "r = fst (mem_Delete i m) \<and> stored S view s' (snd (mem_Delete i m)) \<or> db_fails r \<and> stored S view s' m"
proof -
  obtain q t where q: "bb_Delete (bs_db S) (bs_collID S) i s = (q, t)" by fastforce
  have tx: "transact S noSync (in_bucket S (bb_Delete (bs_db S) (bs_collID S) i)) s = (r, s')"
    using run by (simp add: bolt_Delete_def)
  have in_b: "in_bucket S (bb_Delete (bs_db S) (bs_collID S) i) s = (q, t)"
    using q stored_absent(3) [OF law st] by (simp add: in_bucket_def)
  have "view s (bs_collID S) = Some (map_of m)" using st by (simp add: stored_def)
  from bbolt_Delete [OF law this q]
  have "db_fails q \<or> q = Ok () \<and> stored S view t (AList.delete i m)" using st by (auto simp: stored_def delete_conv')
  then show ?thesis by (intro transact_sim [OF law st _ _ tx]) (use in_b in \<open>auto simp: mem_Delete_def\<close>)
qed

lemma bolt_Get_sim:
  assumes law: "bbolt_law (bs_db S) view" and st: "stored S view s m"
  shows "fst (bolt_Get S i rcv s) = fst (mem_Get (memory_of S) i rcv m) \<or> db_fails (fst (bolt_Get S i rcv s))"
proof (cases "bb_View (bs_db S) s")
  case None
  have "bolt_getData S i rcv s = mem_getValue (memory_of S) i rcv m"
    using None stored_absent(1) [OF law st, of i] stored_absent(2,3) [OF law st]
    by (cases "map_of m i") (auto simp: bolt_getData_def mem_getValue_def memory_of_def split: option.splits)
  then show ?thesis by (simp add: bolt_Get_def mem_Get_def)
next
  case (Some e)
  then show ?thesis using bbolt_View [OF law] by (simp add: bolt_Get_def bolt_getData_def db_fails_def)
qed

text \<open>The bucket is listed in another order than a map.\<close>

lemma mset_map_filter: "mset (List.map_filter f xs) = image_mset (the \<circ> f) (filter_mset (\<lambda>x. f x \<noteq> None) (mset xs))"
  by (induction xs) (auto simp: List.map_filter_simps split: option.split)

definition same_docs_reply :: "'v fields list dresult \<Rightarrow> 'v fields list dresult \<Rightarrow> bool" where
  "same_docs_reply r r0 \<longleftrightarrow> r = r0 \<or> (\<exists>xs ys. r = Ok xs \<and> r0 = Ok ys \<and> mset xs = mset ys)"

lemma bolt_List_sim:
  assumes law: "bbolt_law (bs_db S) view" and st: "stored S view s m"
  shows "same_docs_reply (fst (svc_List (bolt_service S noSync) fs s)) (fst (svc_List (memory_service (memory_of S)) fs m)) \<or>
    db_fails (fst (svc_List (bolt_service S noSync) fs s))"
proof (cases "bb_View (bs_db S) s")
  case None
  let ?b = "bb_ForEach (bs_db S) (bs_collID S) s"
  let ?C = "memory_of S"
  have b: "distinct (map fst ?b)" "map_of ?b = map_of m" and wf: "wf_map m"
    using st bbolt_ForEach [OF law, of s "bs_collID S" "map_of m"] by (simp_all add: stored_def)
  then have "set ?b = set m" by (metis map_of_inject_set)
  then have same: "mset ?b = mset m" using b(1) wf by (metis distinct_map set_eq_iff_mset_eq_distinct)
  have "fst (bolt_List S fs s) = extend_all (mem_marshaler ?C) (mem_asserts ?C) fs (map snd ?b) \<lparr>li_docs = []\<rparr>"
    using None stored_absent(3) [OF law st] by (simp add: bolt_List_def memory_of_def)
  moreover have "bs_marshaler S = mem_marshaler ?C" by (simp add: memory_of_def)
  ultimately have "fst (svc_List (bolt_service S noSync) fs s) =
      andThen (extend_all (mem_marshaler ?C) (mem_asserts ?C) fs (map snd ?b) \<lparr>li_docs = []\<rparr>)
        (\<lambda>it. drain_docs (mem_marshaler ?C) (li_docs it))"
    by (simp add: bolt_service_def)
  also have "\<dots> = (if \<exists>raw \<in> snd ` set ?b. filter_panics ?C fs raw then Panic
       else drain_docs (mem_marshaler ?C) (filter (\<lambda>raw. selected ?C fs raw \<noteq> None) (map snd ?b)))"
    by (simp add: extend_all_eq del: not_None_eq)
  finally have l: "fst (svc_List (bolt_service S noSync) fs s) =
      (if \<exists>raw \<in> snd ` set ?b. filter_panics ?C fs raw then Panic
       else Ok (List.map_filter (selected ?C fs) (map snd ?b)))"
    unfolding drain_selected .
  have "fst (svc_List (memory_service ?C) fs m) =
      (if \<exists>raw \<in> snd ` set m. filter_panics ?C fs raw then Panic
       else Ok (List.map_filter (selected ?C fs) (map snd m)))"
    by (simp only: memory_list_eq fst_conv)
  then show ?thesis unfolding same_docs_reply_def l using \<open>set ?b = set m\<close> same by (simp add: mset_map_filter)
next
  case (Some e)
  then show ?thesis using bbolt_View [OF law] by (simp add: bolt_service_def bolt_List_def db_fails_def)
qed

section \<open>Batches are sequences\<close>

text \<open>The call an operation of a batch mirrors, and the sequence of the calls of a batch.\<close>

fun batch_call :: "gotime \<Rightarrow> 'v batch_op \<Rightarrow> 'v call" where
  "batch_call now x = (case bo_Type x of
     BatchCreate \<Rightarrow> CCreate now (bo_ID x) (bo_Doc x)
   | BatchSet \<Rightarrow> CSet now (bo_ID x) (bo_Doc x)
   | BatchUpdate \<Rightarrow> CUpdate now (bo_ID x) (bo_Updates x) (bo_Preconditions x)
   | BatchDelete \<Rightarrow> CDelete (bo_ID x)
   | BatchOther _ \<Rightarrow> CClose)"

fun reply_error :: "'v reply \<Rightarrow> docerr option" where
  "reply_error (RUnit (Err e)) = Some e"
| "reply_error _ = None"

fun run_ops :: "('v, 'b) memory_config \<Rightarrow> gotime \<Rightarrow> 'v batch_op list \<Rightarrow> 'b storage \<Rightarrow> docerr option list \<times> 'b storage" where
  "run_ops C now [] m = ([], m)"
| "run_ops C now (x # ops) m =
     (let (r, m) = perform (memory_service C) (batch_call now x) m; (rs, m) = run_ops C now ops m
      in (reply_error r # rs, m))"

lemma batch_set_sim:
  assumes law: "bbolt_law (bs_db S) view" and sz: "sizes S" and st: "stored S view s m" and "d \<noteq> GNil"
    and run: "(case DerefCreateValue d of Err e \<Rightarrow> (Err e, s) | Panic \<Rightarrow> (Panic, s)
      | Ok d' \<Rightarrow> in_bucket S (\<lambda>s. if e \<and> \<not> bs_absent S i s then (Err DAlreadyExists, s)
          else put_encoded S now i d' True s) s) = (r, s')"
  shows "db_fails r \<or> r = fst (mem_set (memory_of S) now i d e m) \<and> stored S view s' (snd (mem_set (memory_of S) now i d e m))"
proof (cases "DerefCreateValue d")
  case (Ok d')
  show ?thesis
  proof (cases "e \<and> map_of m i \<noteq> None")
    case True
    then have "r = Err DAlreadyExists" "s' = s"
      using run Ok stored_absent(1) [OF law st, of i] stored_absent(3) [OF law st] by (auto simp: in_bucket_def)
    then show ?thesis using True Ok st assms(4) by (auto simp: mem_set_def)
  next
    case False
    then have "put_encoded S now i d' True s = (r, s')"
      using run Ok stored_absent(1) [OF law st, of i] stored_absent(3) [OF law st] by (auto simp: in_bucket_def)
    from put_encoded_sim [OF law sz st this] False show ?thesis
      using Ok st assms(4) by (auto simp: mem_set_def memory_of_def split: outcome.splits)
  qed
qed (use run st assms(4) in \<open>auto simp: mem_set_def\<close>)

lemma applyBatchOp_sim:
  assumes law: "bbolt_law (bs_db S) view" and sz: "sizes S" and st: "stored S view s m"
    and run: "applyBatchOp S now x s = (r, s')"
  shows "db_fails r \<or> (\<exists>m'. perform (memory_service (memory_of S)) (batch_call now x) m = (RUnit r, m') \<and> stored S view s' m')"
proof (cases "bo_Type x")
  case BatchCreate
  show ?thesis
  proof (cases "bo_Doc x = GNil")
    case True
    then show ?thesis using run BatchCreate by (auto simp: applyBatchOp_def db_fails_def rejected_def)
  next
    case False
    have "applyBatchOp S now x s = (case DerefCreateValue (bo_Doc x) of Err e \<Rightarrow> (Err e, s) | Panic \<Rightarrow> (Panic, s)
        | Ok d \<Rightarrow> in_bucket S (\<lambda>s. if True \<and> \<not> bs_absent S (bo_ID x) s then (Err DAlreadyExists, s)
            else put_encoded S now (bo_ID x) d True s) s)"
      using False BatchCreate by (cases "DerefCreateValue (bo_Doc x)") (simp_all add: applyBatchOp_def in_bucket_def)
    from batch_set_sim [OF law sz st False this [symmetric, unfolded run]] show ?thesis using BatchCreate
      by (auto simp: mem_Create_def prod_eq_iff)
  qed
next
  case BatchSet
  show ?thesis
  proof (cases "bo_Doc x = GNil")
    case True
    then show ?thesis using run BatchSet by (auto simp: applyBatchOp_def db_fails_def rejected_def)
  next
    case False
    have "applyBatchOp S now x s = (case DerefCreateValue (bo_Doc x) of Err e \<Rightarrow> (Err e, s) | Panic \<Rightarrow> (Panic, s)
        | Ok d \<Rightarrow> in_bucket S (\<lambda>s. if False \<and> \<not> bs_absent S (bo_ID x) s then (Err DAlreadyExists, s)
            else put_encoded S now (bo_ID x) d True s) s)"
      using False BatchSet by (cases "DerefCreateValue (bo_Doc x)") (simp_all add: applyBatchOp_def in_bucket_def)
    from batch_set_sim [OF law sz st False this [symmetric, unfolded run]] show ?thesis using BatchSet
      by (auto simp: mem_Set_def prod_eq_iff)
  qed
next
  case BatchUpdate
  show ?thesis
  proof (cases "bo_Updates x = []")
    case True
    then show ?thesis using run BatchUpdate by (auto simp: applyBatchOp_def db_fails_def rejected_def)
  next
    case False
    have "update_doc S now (bo_ID x) (bo_Updates x) (bo_Preconditions x) s = (r, s')"
      using run BatchUpdate False stored_absent(3) [OF law st] by (simp add: applyBatchOp_def in_bucket_def)
    from update_doc_sim [OF law sz st False this] show ?thesis using BatchUpdate by (auto simp: prod_eq_iff)
  qed
next
  case BatchDelete
  have del: "bb_Delete (bs_db S) (bs_collID S) (bo_ID x) s = (r, s')"
    using run BatchDelete stored_absent(3) [OF law st] by (simp add: applyBatchOp_def in_bucket_def)
  have "view s (bs_collID S) = Some (map_of m)" using st by (simp add: stored_def)
  from bbolt_Delete [OF law this del] show ?thesis using st BatchDelete
    by (auto simp: mem_Delete_def stored_def delete_conv')
next
  case (BatchOther z)
  then show ?thesis using run by (auto simp: applyBatchOp_def db_fails_def rejected_def)
qed

lemma batch_loop_sim:
  assumes law: "bbolt_law (bs_db S) view" and sz: "sizes S"
  shows "stored S view s m \<Longrightarrow> batch_loop S now ops s = (Ok rs, s') \<Longrightarrow>
    stored S view s' (snd (run_ops (memory_of S) now ops m)) \<and> rs = fst (run_ops (memory_of S) now ops m)"
proof (induction ops arbitrary: s m rs)
  case (Cons x ops)
  obtain r t where x: "applyBatchOp S now x s = (r, t)" by fastforce
  have "\<not> db_fails r" "r \<noteq> Panic" using Cons.prems(2) x by (auto simp: db_fails_def split: if_splits)
  with applyBatchOp_sim [OF law sz Cons.prems(1) x] obtain m' where
    m': "perform (memory_service (memory_of S)) (batch_call now x) m = (RUnit r, m')" "stored S view t m'" by blast
  obtain rs' where rs': "batch_loop S now ops t = (Ok rs', s')" "rs = (case r of Err e \<Rightarrow> Some e | _ \<Rightarrow> None) # rs'"
    using Cons.prems(2) x \<open>r \<noteq> Panic\<close>
    by (cases r; cases "batch_loop S now ops t"; cases "fst (batch_loop S now ops t)") (auto split: if_splits)
  from Cons.IH [OF m'(2) rs'(1)] show ?case using m'(1) rs'(2)
    by (cases r) (simp_all add: split_beta Let_def del: batch_call.simps)
qed simp

section \<open>Properties\<close>

fun same_reply :: "'v reply \<Rightarrow> 'v reply \<Rightarrow> bool" where
  "same_reply (RDocs r) (RDocs r0) \<longleftrightarrow> same_docs_reply r r0"
| "same_reply r r0 \<longleftrightarrow> r = r0"

fun reply_fails :: "'v reply \<Rightarrow> bool" where
  "reply_fails (RUnit r) \<longleftrightarrow> db_fails r"
| "reply_fails (RDoc r) \<longleftrightarrow> db_fails r"
| "reply_fails (RDocs r) \<longleftrightarrow> db_fails r"

text \<open>
  C18 (bolt_refines_memory). Over any database that does what bbolt documents, every call of the store
  either gives what the in-memory service gives on the same documents (a listing up to its order) and
  leaves the same documents, or fails with an error of the database and changes nothing.
\<close>

theorem bolt_refines_memory:
  assumes "bbolt_law (bs_db S) view" and "sizes S" and "stored S view s m"
    and "perform (bolt_service S noSync) c s = (r, s')"
    and "perform (memory_service (memory_of S)) c m = (r0, m0)"
  shows "same_reply r r0 \<and> stored S view s' m0 \<or> reply_fails r \<and> stored S view s' m"
proof (cases c)
  case (CCreate now i d)
  then show ?thesis using assms(4,5) bolt_set_sim [OF assms(1-3), of noSync now i d True "fst (bolt_Create S noSync now i d s)" s']
    by (auto simp: bolt_service_def bolt_Create_def mem_Create_def prod_eq_iff)
next
  case (CSet now i d)
  then show ?thesis using assms(4,5) bolt_set_sim [OF assms(1-3), of noSync now i d False "fst (bolt_Set S noSync now i d s)" s']
    by (auto simp: bolt_service_def bolt_Set_def mem_Set_def prod_eq_iff)
next
  case (CUpdate now i us ps)
  then show ?thesis using assms(4,5)
      bolt_Update_sim [OF assms(1-3), of noSync now i us ps "fst (bolt_Update S noSync now i us ps s)" s']
    by (auto simp: bolt_service_def prod_eq_iff)
next
  case (CDelete i)
  then show ?thesis using assms(4,5) bolt_Delete_sim [OF assms(1,3), of noSync i "fst (bolt_Delete S noSync i s)" s']
    by (auto simp: bolt_service_def prod_eq_iff)
next
  case (CGet i rcv)
  then show ?thesis using assms(3-5) bolt_Get_sim [OF assms(1,3), of i rcv]
    by (auto simp: bolt_service_def bolt_Get_def mem_Get_def prod_eq_iff)
next
  case (CList fs)
  have "snd (svc_List (bolt_service S noSync) fs s) = s" by (simp add: bolt_service_def)
  then show ?thesis using CList assms(3-5) bolt_List_sim [OF assms(1,3), of noSync fs]
    by (auto simp: prod_eq_iff)
next
  case CClose
  then show ?thesis using assms(3-5) by (auto simp: bolt_service_def mem_Close_def)
qed

text \<open>
  C19 (bolt_batch_sequential). A batch that succeeds has done what its operations do one after the
  other as single calls, and reports for each of them the error of that call; a batch that does not
  succeed has changed nothing.
\<close>

theorem bolt_batch_sequential:
  assumes "bbolt_law (bs_db S) view" and "sizes S" and "stored S view s m"
    and "ApplyBatch S noSync now ops s = (r, s')"
  shows "if is_ok r then r = Ok (fst (run_ops (memory_of S) now ops m)) \<and>
      stored S view s' (snd (run_ops (memory_of S) now ops m)) else stored S view s' m"
proof -
  obtain q t where q: "batch_loop S now ops s = (q, t)" by fastforce
  from bbolt_Update [where fn = "batch_loop S now ops" and s = s, OF assms(1) q, of noSync r s'] assms(4)
  have "r = q \<and> view s' = (if is_ok q then view t else view s) \<or> db_fails r \<and> view s' = view s"
    by (simp add: ApplyBatch_def bolt_update_def)
  moreover have "\<not> is_ok r" if "db_fails r" using that by (auto simp: db_fails_def)
  ultimately show ?thesis
    using batch_loop_sim [OF assms(1-3), of now ops _ t] q stored_view [OF _ assms(3)] stored_view [of view s' t]
    by (cases q) (auto simp: is_ok_iff)
qed

text \<open>A database that satisfies the law: buckets as association lists.\<close>

definition plain_view :: "(string \<times> (string \<times> 'b) list) list \<Rightarrow> string \<Rightarrow> (string \<Rightarrow> 'b option) option" where
  "plain_view s c = map_option map_of (map_of s c)"

definition plain_bolt :: "((string \<times> (string \<times> 'b) list) list, 'b) bbolt" where
  "plain_bolt =
     \<lparr>bb_Bucket = (\<lambda>c s. map_of s c \<noteq> None),
      bb_Get = (\<lambda>c k s. case map_of s c of None \<Rightarrow> None | Some m \<Rightarrow> map_of m k),
      bb_Put = (\<lambda>c k b s. (Ok (), AList.update c (AList.update k b (the (map_of s c))) s)),
      bb_Delete = (\<lambda>c k s. (Ok (), AList.update c (AList.delete k (the (map_of s c))) s)),
      bb_ForEach = (\<lambda>c s. AList.clearjunk (the (map_of s c))),
      bb_CreateBucketIfNotExists = (\<lambda>c s. (Ok (), if map_of s c = None then AList.update c [] s else s)),
      bb_DeleteBucket = (\<lambda>c s. (Ok (), AList.delete c s)),
      bb_View = (\<lambda>s. None),
      bb_Update = (\<lambda>noSync fn s. case fn s of (Ok r, s') \<Rightarrow> (Ok r, s') | (r, s') \<Rightarrow> (r, s))\<rparr>"

lemma plain_bolt_law: "bbolt_law plain_bolt plain_view"
  by (auto simp: bbolt_law_def plain_bolt_def plain_view_def update_conv' delete_conv' map_of_clearjunk fun_eq_iff
      split: option.splits outcome.splits prod.splits)

definition sample_bolt :: "(string, string fields, (string \<times> (string \<times> string fields) list) list) bolt_store" where
  "sample_bolt = \<lparr>bs_marshaler = plain_codec, bs_asserts = mem_asserts plain_config, bs_size = (\<lambda>b. Suc (length b)),
     bs_db = plain_bolt, bs_collID = ''docs''\<rparr>"

lemma sample_bolt_facts:
  "bbolt_law (bs_db sample_bolt) plain_view" "sizes sample_bolt" "stored sample_bolt plain_view [(''docs'', sample_store)] sample_store"
  "memory_of sample_bolt = plain_config"
  by (simp_all add: sample_bolt_def plain_bolt_law sizes_def stored_def plain_view_def sample_store_def memory_of_def plain_config_def)

theorem bolt_refines_memory_witness:
  "same_reply (fst (perform (bolt_service sample_bolt False) (CGet ''d1'' map_ptr) [(''docs'', sample_store)]))
     (fst (perform (memory_service plain_config) (CGet ''d1'' map_ptr) sample_store))"
proof -
  let ?b = "perform (bolt_service sample_bolt False) (CGet ''d1'' map_ptr) [(''docs'', sample_store)]"
  have "\<not> reply_fails (fst ?b)"
    by (simp add: bolt_service_def bolt_Get_def bolt_getData_def sample_bolt_def plain_bolt_def sample_store_def
        SafeDecode_def map_ptr_def decode_def db_fails_def)
  then show ?thesis
    using bolt_refines_memory [OF sample_bolt_facts(1-3), of False "CGet ''d1'' map_ptr" "fst ?b" "snd ?b"]
    unfolding sample_bolt_facts(4) by (metis prod.collapse)
qed

definition sample_batch :: "string batch_op list" where
  "sample_batch =
     [\<lparr>bo_Type = BatchDelete, bo_ID = ''d2'', bo_Doc = GNil, bo_Updates = [], bo_Preconditions = []\<rparr>,
      \<lparr>bo_Type = BatchCreate, bo_ID = ''d1'', bo_Doc = GMap True [], bo_Updates = [], bo_Preconditions = []\<rparr>]"

theorem bolt_batch_sequential_witness:
  "fst (ApplyBatch sample_bolt False zeroTime sample_batch [(''docs'', sample_store)]) =
     Ok (fst (run_ops plain_config zeroTime sample_batch sample_store)) \<and>
   fst (run_ops plain_config zeroTime sample_batch sample_store) = [None, Some DAlreadyExists]"
proof -
  let ?b = "ApplyBatch sample_bolt False zeroTime sample_batch [(''docs'', sample_store)]"
  have "is_ok (fst ?b)"
    by (simp add: ApplyBatch_def bolt_update_def sample_batch_def applyBatchOp_def in_bucket_def sample_bolt_def
        plain_bolt_def sample_store_def rejected_def)
  moreover have "fst (run_ops plain_config zeroTime sample_batch sample_store) = [None, Some DAlreadyExists]"
    by (simp add: sample_batch_def mem_Create_def mem_set_def mem_Delete_def sample_store_def)
  ultimately show ?thesis
    using bolt_batch_sequential [OF sample_bolt_facts(1-3), of False zeroTime sample_batch "fst ?b" "snd ?b"]
    unfolding sample_bolt_facts(4) by simp
qed

text \<open>Dropping a collection leaves it empty.\<close>

lemma bolt_Drop_Ok:
  assumes law: "bbolt_law (bs_db S) view" and run: "bolt_Drop S noSync s = (Ok u, s')"
  shows "stored S view s' []"
proof -
  obtain u1 s1 u2 where d: "transact S noSync (bb_DeleteBucket (bs_db S) (bs_collID S)) s = (Ok u1, s1)"
    and c: "bolt_createBucketIfNotExists S noSync s1 = (Ok u2, s')"
    using run by (auto simp: bolt_Drop_def split: prod.splits outcome.splits)
  have "view s1 (bs_collID S) = None"
    using transact_view [OF law d] bbolt_DeleteBucket [OF law, of "bs_collID S" s]
    by (cases "bb_DeleteBucket (bs_db S) (bs_collID S) s") (auto simp: db_fails_def)
  then show ?thesis
    using transact_view [OF law c [unfolded bolt_createBucketIfNotExists_def]]
      bbolt_CreateBucket [OF law, of "bs_collID S" s1]
    by (cases "bb_CreateBucketIfNotExists (bs_db S) (bs_collID S) s1") (auto simp: db_fails_def stored_def outcome_simps)
qed

end
