(* ===== verification/BoltHandles.thy ===== *)
theory BoltHandles
  imports Prelude
begin

text \<open>
  The database handles that stores on the same path share (\<^verbatim>\<open>document/bolt/service.go\<close>):
  opening, counting and closing, as a step relation over concurrent calls of \<open>NewWithMarshaler\<close> and
  \<open>Close\<close>, whose sections under the package's mutex are one step each.
\<close>

section \<open>State\<close>

record sharedDB =
  sh_db :: nat
  sh_refs :: int

text \<open>
  \<open>hw_dbs\<close> is the package variable \<open>dbs\<close>; the other fields are what the calls in progress and
  their callers hold: the live stores by path and handle, the calls that have found no handle and go on
  to open one, those that have opened one, and the handles evicted and about to be closed.
\<close>

record handle_world =
  hw_dbs :: "(string \<times> sharedDB) list"
  hw_open :: "nat list"
  hw_fresh :: nat
  hw_stores :: "(string \<times> nat) list"
  hw_opening :: "string list"
  hw_opened :: "(string \<times> nat) list"
  hw_closing :: "nat list"

definition handles_init :: handle_world where
  "handles_init = \<lparr>hw_dbs = [], hw_open = [], hw_fresh = 0, hw_stores = [], hw_opening = [], hw_opened = [], hw_closing = []\<rparr>"

section \<open>The sections under the mutex\<close>

text \<open>The end of \<open>NewWithMarshaler\<close>'s section: take a reference to the shared handle.\<close>

definition take_ref :: "string \<Rightarrow> handle_world \<Rightarrow> handle_world" where
  "take_ref path w =
     (case map_of (hw_dbs w) path of
        None \<Rightarrow> w
      | Some shared \<Rightarrow>
          w\<lparr>hw_dbs := AList.update path (shared\<lparr>sh_refs := sh_refs shared + 1\<rparr>) (hw_dbs w),
            hw_stores := (path, sh_db shared) # hw_stores w\<rparr>)"

text \<open>The second section, after \<open>bolt.Open\<close>: register the handle, or close it if another call has
  registered one.\<close>

definition register :: "string \<Rightarrow> nat \<Rightarrow> handle_world \<Rightarrow> handle_world" where
  "register path db w =
     take_ref path
       (if map_of (hw_dbs w) path = None then w\<lparr>hw_dbs := AList.update path \<lparr>sh_db = db, sh_refs = 0\<rparr> (hw_dbs w)\<rparr>
        else w\<lparr>hw_open := remove1 db (hw_open w)\<rparr>)"

definition bolt_Close :: "string \<Rightarrow> nat \<Rightarrow> handle_world \<Rightarrow> handle_world" where
  "bolt_Close path db w =
     (case map_of (hw_dbs w) path of
        None \<Rightarrow> w
      | Some shared \<Rightarrow>
          if sh_db shared \<noteq> db then w
          else if sh_refs shared - 1 > 0 then
            w\<lparr>hw_dbs := AList.update path (shared\<lparr>sh_refs := sh_refs shared - 1\<rparr>) (hw_dbs w)\<rparr>
          else w\<lparr>hw_dbs := AList.delete path (hw_dbs w), hw_closing := db # hw_closing w\<rparr>)"

section \<open>Steps\<close>

text \<open>
  A store whose bucket cannot be created is closed again, like one its caller closes.
\<close>

inductive handle_step :: "handle_world \<Rightarrow> handle_world \<Rightarrow> bool" where
  found: "map_of (hw_dbs w) p \<noteq> None \<Longrightarrow> handle_step w (take_ref p w)"
| missing: "map_of (hw_dbs w) p = None \<Longrightarrow> handle_step w (w\<lparr>hw_opening := p # hw_opening w\<rparr>)"
| open_fails: "p \<in> set (hw_opening w) \<Longrightarrow> handle_step w (w\<lparr>hw_opening := remove1 p (hw_opening w)\<rparr>)"
| open_succeeds: "p \<in> set (hw_opening w) \<Longrightarrow>
    handle_step w (w\<lparr>hw_opening := remove1 p (hw_opening w), hw_open := hw_fresh w # hw_open w,
      hw_opened := (p, hw_fresh w) # hw_opened w, hw_fresh := hw_fresh w + 1\<rparr>)"
| relock: "(p, db) \<in> set (hw_opened w) \<Longrightarrow>
    handle_step w (register p db (w\<lparr>hw_opened := remove1 (p, db) (hw_opened w)\<rparr>))"
| close: "(p, db) \<in> set (hw_stores w) \<Longrightarrow>
    handle_step w (bolt_Close p db (w\<lparr>hw_stores := remove1 (p, db) (hw_stores w)\<rparr>))"
| close_db: "db \<in> set (hw_closing w) \<Longrightarrow>
    handle_step w (w\<lparr>hw_open := remove1 db (hw_open w), hw_closing := remove1 db (hw_closing w)\<rparr>)"

section \<open>Invariant\<close>

text \<open>The handles accounted for and the references counted; in between the count of a path may be zero.\<close>

definition handles_ok :: "handle_world \<Rightarrow> bool" where
  "handles_ok w \<longleftrightarrow> wf_map (hw_dbs w) \<and> distinct (hw_open w) \<and> (\<forall>h \<in> set (hw_open w). h < hw_fresh w) \<and>
     mset (hw_open w) = image_mset (sh_db \<circ> snd) (mset (hw_dbs w)) + mset (map snd (hw_opened w)) + mset (hw_closing w) \<and>
     (\<forall>p sh. map_of (hw_dbs w) p = Some sh \<longrightarrow> sh_refs sh = int (count (mset (hw_stores w)) (p, sh_db sh))) \<and>
     (\<forall>p h. (p, h) \<in> set (hw_stores w) \<longrightarrow> (\<exists>sh. map_of (hw_dbs w) p = Some sh \<and> sh_db sh = h))"

definition counts_positive :: "handle_world \<Rightarrow> bool" where
  "counts_positive w \<longleftrightarrow> (\<forall>p sh. map_of (hw_dbs w) p = Some sh \<longrightarrow> sh_refs sh > 0)"

text \<open>Multisets of the entries of a map.\<close>

declare map_of_eq_Some_iff [simp del]

lemma mset_update_new: "map_of m k = None \<Longrightarrow> mset (AList.update k v m) = add_mset (k, v) (mset m)"
  by (induction m) auto

lemma mset_delete: "wf_map m \<Longrightarrow> map_of m k = Some v \<Longrightarrow> mset m = add_mset (k, v) (mset (AList.delete k m))"
  by (induction m) (auto simp: delete_id split: if_splits)

lemma mset_update_old: "wf_map m \<Longrightarrow> map_of m k = Some v \<Longrightarrow>
    mset (AList.update k v' m) = add_mset (k, v') (mset (AList.delete k m))"
  by (induction m) (auto simp: delete_id split: if_splits)

lemma handles_mset_update:
  assumes "wf_map m" "map_of m k = Some v" "sh_db v' = sh_db v"
  shows "image_mset (sh_db \<circ> snd) (mset (AList.update k v' m)) = image_mset (sh_db \<circ> snd) (mset m)"
  using mset_update_old [OF assms(1,2), of v'] mset_delete [OF assms(1,2)] assms(3) by simp

lemma handles_ok_init: "handles_ok handles_init" "counts_positive handles_init"
  by (simp_all add: handles_ok_def counts_positive_def handles_init_def)

lemma handles_okD:
  assumes "handles_ok w"
  shows ok_wf: "wf_map (hw_dbs w)" and ok_distinct: "distinct (hw_open w)"
    and ok_fresh: "h \<in> set (hw_open w) \<Longrightarrow> h < hw_fresh w"
    and ok_open: "mset (hw_open w) =
      image_mset (sh_db \<circ> snd) (mset (hw_dbs w)) + mset (map snd (hw_opened w)) + mset (hw_closing w)"
    and ok_refs: "map_of (hw_dbs w) p = Some sh \<Longrightarrow> sh_refs sh = int (count (mset (hw_stores w)) (p, sh_db sh))"
    and ok_stores: "(p, h) \<in> set (hw_stores w) \<Longrightarrow> \<exists>sh. map_of (hw_dbs w) p = Some sh \<and> sh_db sh = h"
  using assms unfolding handles_ok_def by blast+

lemma handles_ok_take_ref:
  assumes ok: "handles_ok w"
  shows "handles_ok (take_ref p w)"
proof (cases "map_of (hw_dbs w) p")
  case None
  then show ?thesis using assms by (simp add: take_ref_def)
next
  case (Some sh)
  let ?sh = "sh\<lparr>sh_refs := sh_refs sh + 1\<rparr>"
  have dbs: "map_of (hw_dbs (take_ref p w)) q = (if q = p then Some ?sh else map_of (hw_dbs w) q)" for q
    using Some by (simp add: take_ref_def update_conv')
  have same: "hw_open (take_ref p w) = hw_open w" "hw_fresh (take_ref p w) = hw_fresh w"
    "hw_opened (take_ref p w) = hw_opened w" "hw_closing (take_ref p w) = hw_closing w"
    "hw_stores (take_ref p w) = (p, sh_db sh) # hw_stores w"
    "hw_dbs (take_ref p w) = AList.update p ?sh (hw_dbs w)"
    using Some by (simp_all add: take_ref_def)
  have mset: "image_mset (sh_db \<circ> snd) (mset (hw_dbs (take_ref p w))) = image_mset (sh_db \<circ> snd) (mset (hw_dbs w))"
    unfolding same using handles_mset_update [OF ok_wf [OF ok] Some] by simp
  have refs: "sh_refs s' = int (count (mset (hw_stores (take_ref p w))) (q, sh_db s'))"
    if "map_of (hw_dbs (take_ref p w)) q = Some s'" for q s'
    using that ok_refs [OF ok Some] ok_refs [OF ok, of q s'] unfolding dbs same(5) by (auto split: if_splits)
  have "\<exists>s'. map_of (hw_dbs (take_ref p w)) q = Some s' \<and> sh_db s' = h"
    if "(q, h) \<in> set (hw_stores (take_ref p w))" for q h
    using that ok_stores [OF ok, of q h] Some unfolding dbs same(5) by auto
  moreover have "wf_map (hw_dbs (take_ref p w))" using ok_wf [OF ok] by (simp add: same)
  ultimately show ?thesis using ok_distinct [OF ok] ok_fresh [OF ok] ok_open [OF ok] refs mset
    unfolding handles_ok_def by (simp only: same(1-4)) blast
qed

lemma counts_positive_take_ref:
  assumes ok: "handles_ok w" and "\<And>q sh. q \<noteq> p \<Longrightarrow> map_of (hw_dbs w) q = Some sh \<Longrightarrow> sh_refs sh > 0"
  shows "counts_positive (take_ref p w)"
proof -
  have "sh_refs sh \<ge> 0" if "map_of (hw_dbs w) p = Some sh" for sh using ok_refs [OF ok that] by simp
  moreover have "sh_refs sh > 0" if "map_of (hw_dbs w) p = None" "map_of (hw_dbs w) q = Some sh" for q sh
    using that assms(2) [of q sh] by (cases "q = p") simp_all
  ultimately show ?thesis using assms(2) unfolding counts_positive_def take_ref_def
    by (cases "map_of (hw_dbs w) p") (auto simp: update_conv' add_nonneg_pos split: if_splits)
qed

lemma handles_ok_register:
  assumes ok: "handles_ok w" and pos: "counts_positive w" and op: "(p, db) \<in> set (hw_opened w)"
  defines "w' \<equiv> w\<lparr>hw_opened := remove1 (p, db) (hw_opened w)\<rparr>"
  shows "handles_ok (register p db w')" "counts_positive (register p db w')"
proof -
  have opened: "mset (hw_opened w) = add_mset (p, db) (mset (hw_opened w'))" using op by (simp add: w'_def)
  define w2 where "w2 = (if map_of (hw_dbs w') p = None
    then w'\<lparr>hw_dbs := AList.update p \<lparr>sh_db = db, sh_refs = 0\<rparr> (hw_dbs w')\<rparr> else w'\<lparr>hw_open := remove1 db (hw_open w')\<rparr>)"
  have stores: "hw_stores w2 = hw_stores w" "hw_fresh w2 = hw_fresh w" by (simp_all add: w2_def w'_def)
  have "handles_ok w2"
  proof (cases "map_of (hw_dbs w) p")
    case None
    then have w2: "w2 = w'\<lparr>hw_dbs := AList.update p \<lparr>sh_db = db, sh_refs = 0\<rparr> (hw_dbs w)\<rparr>"
      by (simp add: w2_def w'_def)
    have none: "(p, h) \<notin> set (hw_stores w)" for h using ok_stores [OF ok, of p h] None by auto
    have "hw_dbs w2 = AList.update p \<lparr>sh_db = db, sh_refs = 0\<rparr> (hw_dbs w)" by (simp add: w2)
    then have dbs: "map_of (hw_dbs w2) q = (if q = p then Some \<lparr>sh_db = db, sh_refs = 0\<rparr> else map_of (hw_dbs w) q)" for q
      by (simp add: update_conv')
    have "mset (hw_open w2) = image_mset (sh_db \<circ> snd) (mset (hw_dbs w2)) + mset (map snd (hw_opened w2)) + mset (hw_closing w2)"
    proof -
      have "hw_open w2 = hw_open w" "hw_opened w2 = hw_opened w'" "hw_closing w2 = hw_closing w"
        by (simp_all add: w2 w'_def)
      then show ?thesis using ok_open [OF ok] by (simp add: w2 mset_update_new [OF None] opened)
    qed
    moreover have "sh_refs s' = int (count (mset (hw_stores w2)) (q, sh_db s'))" if "map_of (hw_dbs w2) q = Some s'" for q s'
    proof (cases "q = p")
      case True
      then have "s' = \<lparr>sh_db = db, sh_refs = 0\<rparr>" using that by (simp add: dbs)
      then show ?thesis using True none by (simp add: stores count_eq_zero_iff)
    next
      case False
      then show ?thesis using that ok_refs [OF ok, of q s'] unfolding dbs stores by simp
    qed
    moreover have "\<exists>s'. map_of (hw_dbs w2) q = Some s' \<and> sh_db s' = h" if "(q, h) \<in> set (hw_stores w2)" for q h
      using that ok_stores [OF ok, of q h] none unfolding stores dbs by (cases "q = p") simp_all
    moreover have "wf_map (hw_dbs w2)" "hw_open w2 = hw_open w" using ok_wf [OF ok] by (simp_all add: w2 w'_def)
    ultimately show ?thesis using ok_distinct [OF ok] ok_fresh [OF ok] unfolding handles_ok_def stores by metis
  next
    case (Some sh)
    then have w2: "w2 = w'\<lparr>hw_open := remove1 db (hw_open w)\<rparr>" by (simp add: w2_def w'_def)
    have "mset (hw_open w) = add_mset db (image_mset (sh_db \<circ> snd) (mset (hw_dbs w)) + mset (map snd (hw_opened w')) + mset (hw_closing w))"
      using ok_open [OF ok] opened by simp
    then have "mset (hw_open w2) = image_mset (sh_db \<circ> snd) (mset (hw_dbs w2)) + mset (map snd (hw_opened w2)) + mset (hw_closing w2)"
    proof -
      have "hw_open w2 = remove1 db (hw_open w)" "hw_opened w2 = hw_opened w'" "hw_closing w2 = hw_closing w"
        "hw_dbs w2 = hw_dbs w"
        by (simp_all add: w2 w'_def)
      then show ?thesis using \<open>mset (hw_open w) = _\<close> by simp
    qed
    moreover have "distinct (hw_open w2)" "set (hw_open w2) \<subseteq> set (hw_open w)" "hw_dbs w2 = hw_dbs w"
      using ok_distinct [OF ok] set_remove1_subset by (auto simp: w2 w'_def)
    ultimately show ?thesis using ok_wf [OF ok] ok_fresh [OF ok] ok_refs [OF ok] ok_stores [OF ok]
      unfolding handles_ok_def stores by (metis subsetD)
  qed
  moreover have "sh_refs sh > 0" if "q \<noteq> p" "map_of (hw_dbs w2) q = Some sh" for q sh
    using pos that unfolding counts_positive_def by (cases "map_of (hw_dbs w) p") (auto simp: w2_def w'_def update_conv')
  ultimately show "handles_ok (register p db w')" "counts_positive (register p db w')"
    unfolding register_def w2_def [symmetric] by (auto intro: handles_ok_take_ref counts_positive_take_ref)
qed

lemma handles_ok_close:
  assumes ok: "handles_ok w" and pos: "counts_positive w" and st: "(p, db) \<in> set (hw_stores w)"
  defines "w' \<equiv> w\<lparr>hw_stores := remove1 (p, db) (hw_stores w)\<rparr>"
  shows "handles_ok (bolt_Close p db w')" "counts_positive (bolt_Close p db w')"
proof -
  obtain sh where sh: "map_of (hw_dbs w) p = Some sh" "sh_db sh = db" using ok_stores [OF ok st] by blast
  have stores: "mset (hw_stores w) = add_mset (p, db) (mset (hw_stores w'))" using st by (simp add: w'_def)
  have same: "hw_open w' = hw_open w" "hw_fresh w' = hw_fresh w" "hw_dbs w' = hw_dbs w" "hw_opened w' = hw_opened w"
    "hw_closing w' = hw_closing w"
    by (simp_all add: w'_def)
  have refs: "sh_refs sh = 1 + int (count (mset (hw_stores w')) (p, db))" using ok_refs [OF ok sh(1)] sh(2) stores by simp
  have others: "sh_refs s' = int (count (mset (hw_stores w')) (q, sh_db s'))"
    if "q \<noteq> p" "map_of (hw_dbs w) q = Some s'" for q s'
    using ok_refs [OF ok that(2)] that(1) stores by simp
  have has: "\<exists>s'. map_of (hw_dbs w) q = Some s' \<and> sh_db s' = h" if "(q, h) \<in> set (hw_stores w')" for q h
    using ok_stores [OF ok, of q h] that set_remove1_subset unfolding w'_def by fastforce
  show "handles_ok (bolt_Close p db w')"
  proof (cases "sh_refs sh - 1 > 0")
    case True
    let ?sh = "sh\<lparr>sh_refs := sh_refs sh - 1\<rparr>"
    have c: "bolt_Close p db w' = w'\<lparr>hw_dbs := AList.update p ?sh (hw_dbs w)\<rparr>"
      using True sh by (simp add: bolt_Close_def same)
    have proj: "hw_dbs (bolt_Close p db w') = AList.update p ?sh (hw_dbs w)" "hw_open (bolt_Close p db w') = hw_open w"
      "hw_fresh (bolt_Close p db w') = hw_fresh w" "hw_opened (bolt_Close p db w') = hw_opened w"
      "hw_closing (bolt_Close p db w') = hw_closing w" "hw_stores (bolt_Close p db w') = hw_stores w'"
      unfolding c by (simp_all add: same)
    have "wf_map (AList.update p ?sh (hw_dbs w))" using ok_wf [OF ok] by simp
    moreover have "mset (hw_open w) = image_mset (sh_db \<circ> snd) (mset (AList.update p ?sh (hw_dbs w))) +
        mset (map snd (hw_opened w)) + mset (hw_closing w)"
      using handles_mset_update [OF ok_wf [OF ok] sh(1), of ?sh] ok_open [OF ok] by simp
    moreover have "sh_refs s' = int (count (mset (hw_stores w')) (q, sh_db s'))"
      if "map_of (AList.update p ?sh (hw_dbs w)) q = Some s'" for q s'
      using that others [of q s'] refs sh(2) by (auto simp: update_conv' split: if_splits)
    moreover have "\<exists>s'. map_of (AList.update p ?sh (hw_dbs w)) q = Some s' \<and> sh_db s' = h"
      if "(q, h) \<in> set (hw_stores w')" for q h
      using has [OF that] sh by (auto simp: update_conv')
    ultimately show ?thesis using ok_distinct [OF ok] ok_fresh [OF ok]
      unfolding handles_ok_def proj by blast
  next
    case False
    have c: "bolt_Close p db w' = w'\<lparr>hw_dbs := AList.delete p (hw_dbs w), hw_closing := db # hw_closing w\<rparr>"
      using False sh by (simp add: bolt_Close_def same)
    have proj: "hw_dbs (bolt_Close p db w') = AList.delete p (hw_dbs w)" "hw_open (bolt_Close p db w') = hw_open w"
      "hw_fresh (bolt_Close p db w') = hw_fresh w" "hw_opened (bolt_Close p db w') = hw_opened w"
      "hw_closing (bolt_Close p db w') = db # hw_closing w" "hw_stores (bolt_Close p db w') = hw_stores w'"
      unfolding c by (simp_all add: same)
    have "count (mset (hw_stores w')) (p, db) = 0" using False refs by simp
    then have gone: "(p, db) \<notin> set (hw_stores w')" by (simp add: count_eq_zero_iff)
    then have no_p: "(p, h) \<notin> set (hw_stores w')" for h using has [of p h] sh by auto
    have "image_mset (sh_db \<circ> snd) (mset (hw_dbs w)) = add_mset db (image_mset (sh_db \<circ> snd) (mset (AList.delete p (hw_dbs w))))"
      using mset_delete [OF ok_wf [OF ok] sh(1)] sh(2) by simp
    then have "mset (hw_open w) = image_mset (sh_db \<circ> snd) (mset (AList.delete p (hw_dbs w))) +
        mset (map snd (hw_opened w)) + mset (db # hw_closing w)"
      using ok_open [OF ok] by simp
    moreover have "wf_map (AList.delete p (hw_dbs w))" using ok_wf [OF ok] by simp
    moreover have "sh_refs s' = int (count (mset (hw_stores w')) (q, sh_db s'))"
      if "map_of (AList.delete p (hw_dbs w)) q = Some s'" for q s'
      using that others [of q s'] by (auto simp: delete_conv' split: if_splits)
    moreover have "\<exists>s'. map_of (AList.delete p (hw_dbs w)) q = Some s' \<and> sh_db s' = h"
      if "(q, h) \<in> set (hw_stores w')" for q h
      using has [OF that] no_p [of h] that by (auto simp: delete_conv')
    ultimately show ?thesis using ok_distinct [OF ok] ok_fresh [OF ok]
      unfolding handles_ok_def proj by blast
  qed
  have "map_of (hw_dbs (bolt_Close p db w')) q = (if q = p then
      (if sh_refs sh - 1 > 0 then Some (sh\<lparr>sh_refs := sh_refs sh - 1\<rparr>) else None) else map_of (hw_dbs w) q)" for q
    using sh by (simp add: bolt_Close_def same update_conv' delete_conv')
  then show "counts_positive (bolt_Close p db w')"
    using pos unfolding counts_positive_def by (auto split: if_splits)
qed

lemma handles_ok_step:
  assumes "handle_step w w'" and "handles_ok w" and "counts_positive w"
  shows "handles_ok w' \<and> counts_positive w'"
  using assms
proof (induction rule: handle_step.induct)
  case (found w p)
  then show ?case using handles_ok_take_ref counts_positive_take_ref by (simp add: counts_positive_def)
next
  case (relock p db w)
  then show ?case using handles_ok_register by blast
next
  case (close p db w)
  then show ?case using handles_ok_close by blast
next
  case (close_db db w)
  have "mset (hw_closing w) = add_mset db (mset (remove1 db (hw_closing w)))" using close_db(1) by simp
  then have "mset (hw_open w) = add_mset db (image_mset (sh_db \<circ> snd) (mset (hw_dbs w)) + mset (map snd (hw_opened w)) +
      mset (remove1 db (hw_closing w)))"
    using ok_open [OF close_db(2)] by simp
  then have "mset (remove1 db (hw_open w)) = image_mset (sh_db \<circ> snd) (mset (hw_dbs w)) + mset (map snd (hw_opened w)) +
      mset (remove1 db (hw_closing w))"
    by simp
  then show ?case using close_db(2,3) set_remove1_subset [of db "hw_open w"]
    unfolding handles_ok_def counts_positive_def by (simp add: subset_iff)
next
  case (open_succeeds p w)
  then have "hw_fresh w \<notin> set (hw_open w)" using ok_fresh by blast
  then show ?case using open_succeeds(2,3) unfolding handles_ok_def counts_positive_def by (auto simp: less_Suc_eq)
qed (simp_all add: handles_ok_def counts_positive_def)


section \<open>Property\<close>

text \<open>
  C24 (bolt_handles_safe). However calls of \<open>NewWithMarshaler\<close> and \<open>Close\<close> interleave, as long
  as no store is closed twice: the handle of every live store is open, is the one registered for its
  path and is not about to be closed, the count of a registered handle is the number of its live stores,
  which is positive, and every open handle is accounted for: none leaks.
\<close>

theorem bolt_handles_safe:
  assumes "handle_step\<^sup>*\<^sup>* handles_init w"
  shows "(\<forall>(p, h) \<in> set (hw_stores w). \<exists>sh. map_of (hw_dbs w) p = Some sh \<and> sh_db sh = h \<and>
      h \<in> set (hw_open w) \<and> h \<notin> set (hw_closing w)) \<and>
    (\<forall>p sh. map_of (hw_dbs w) p = Some sh \<longrightarrow>
      sh_refs sh = int (length (filter (\<lambda>s. s = (p, sh_db sh)) (hw_stores w))) \<and> sh_refs sh > 0) \<and>
    set (hw_open w) = (sh_db \<circ> snd) ` set (hw_dbs w) \<union> snd ` set (hw_opened w) \<union> set (hw_closing w)"
proof -
  have "handles_ok w \<and> counts_positive w"
    using assms by (induction rule: rtranclp_induct) (use handles_ok_init handles_ok_step in blast)+
  then have ok: "handles_ok w" and pos: "counts_positive w" by simp_all
  have open_set: "set (hw_open w) = (sh_db \<circ> snd) ` set (hw_dbs w) \<union> snd ` set (hw_opened w) \<union> set (hw_closing w)"
    using arg_cong [OF ok_open [OF ok], of set_mset] by simp
  have "\<exists>sh. map_of (hw_dbs w) p = Some sh \<and> sh_db sh = h \<and> h \<in> set (hw_open w) \<and> h \<notin> set (hw_closing w)"
    if mem: "(p, h) \<in> set (hw_stores w)" for p h
  proof -
    obtain sh where sh: "map_of (hw_dbs w) p = Some sh" "sh_db sh = h" using ok_stores [OF ok mem] by blast
    have reg: "h \<in># image_mset (sh_db \<circ> snd) (mset (hw_dbs w))" using map_of_SomeD [OF sh(1)] sh(2) by force
    have "count (mset (hw_open w)) h \<le> 1" using ok_distinct [OF ok] by (simp add: distinct_count_atmost_1)
    moreover have "count (mset (hw_open w)) h \<ge> count (image_mset (sh_db \<circ> snd) (mset (hw_dbs w))) h + count (mset (hw_closing w)) h"
      unfolding ok_open [OF ok] by simp
    moreover have "count (image_mset (sh_db \<circ> snd) (mset (hw_dbs w))) h > 0" using reg by (simp only: count_greater_zero_iff)
    ultimately have "count (mset (hw_closing w)) h = 0" by linarith
    then have "h \<notin> set (hw_closing w)" by (simp add: count_eq_zero_iff)
    moreover have "h \<in> set (hw_open w)" using reg open_set by auto
    ultimately show ?thesis using sh by blast
  qed
  moreover have "count (mset xs) x = length (filter (\<lambda>s. s = x) xs)" for xs and x :: "string \<times> nat"
    by (induction xs) auto
  ultimately show ?thesis using ok_refs [OF ok] pos open_set unfolding counts_positive_def by auto
qed

theorem bolt_handles_safe_witness:
  "\<exists>w. handle_step\<^sup>*\<^sup>* handles_init w \<and> hw_stores w = [(''db'', 0)] \<and> 0 \<in> set (hw_open w)"
proof -
  let ?w1 = "handles_init\<lparr>hw_opening := [''db'']\<rparr>"
  let ?w2 = "handles_init\<lparr>hw_open := [0], hw_opened := [(''db'', 0)], hw_fresh := 1\<rparr>"
  let ?w3 = "handles_init\<lparr>hw_dbs := [(''db'', \<lparr>sh_db = 0, sh_refs = 1\<rparr>)], hw_open := [0], hw_stores := [(''db'', 0)], hw_fresh := 1\<rparr>"
  have "handle_step handles_init ?w1" using missing [of handles_init "''db''"] by (simp add: handles_init_def)
  then have "handle_step\<^sup>*\<^sup>* handles_init ?w1" ..
  moreover have "handle_step ?w1 ?w2" using open_succeeds [of "''db''" ?w1] by (simp add: handles_init_def)
  ultimately have "handle_step\<^sup>*\<^sup>* handles_init ?w2" by (rule rtranclp.rtrancl_into_rtrancl)
  moreover have "handle_step ?w2 ?w3" using relock [of "''db''" 0 ?w2]
    by (simp add: handles_init_def register_def take_ref_def)
  ultimately have r: "handle_step\<^sup>*\<^sup>* handles_init ?w3" by (rule rtranclp.rtrancl_into_rtrancl)
  have "0 \<in> set (hw_open ?w3)" using bolt_handles_safe [OF r] by (simp add: handles_init_def)
  then show ?thesis using r by (intro exI [of _ ?w3]) (simp add: handles_init_def)
qed

text \<open>
  The hypothesis matters: a store that is closed twice takes the reference of its sibling with it, whose
  handle is closed under it.
\<close>

lemma double_close:
  defines "w \<equiv> handles_init\<lparr>hw_dbs := [(''db'', \<lparr>sh_db = 0, sh_refs = 2\<rparr>)], hw_open := [0], hw_fresh := 1,
    hw_stores := [(''db'', 0), (''db'', 0)]\<rparr>"
  shows "hw_closing (bolt_Close ''db'' 0 (bolt_Close ''db'' 0 (w\<lparr>hw_stores := [(''db'', 0)]\<rparr>))) = [0]"
  by (simp add: w_def bolt_Close_def handles_init_def)

end
