(* ===== verification/IPBlock.thy ===== *)
theory IPBlock
  imports DocStore "HOL-Library.Product_Lexorder"
begin

unbundle bit_operations_syntax

text \<open>
  Blocklists of addresses (\<^verbatim>\<open>ipblock/ipblock.go\<close>, \<^verbatim>\<open>set.go\<close>,
  \<^verbatim>\<open>memory.go\<close>): addresses and prefixes as package net/netip has them, the index
  that answers which block covers an address, and the list kept in memory.
\<close>

section \<open>Addresses and prefixes\<close>

datatype addr = NoAddr | A4 "32 word" | A6 "128 word" string

datatype pfx = NoPrefix | Prefix addr nat

fun addr_Is4 :: "addr \<Rightarrow> bool" where
  "addr_Is4 (A4 _) = True"
| "addr_Is4 _ = False"

text \<open>IPv4-mapped: eighty zero bits, then sixteen ones.\<close>

fun Is4In6 :: "addr \<Rightarrow> bool" where
  "Is4In6 (A6 w z) \<longleftrightarrow> drop_bit 32 w = 0xFFFF"
| "Is4In6 _ \<longleftrightarrow> False"

fun Unmap :: "addr \<Rightarrow> addr" where
  "Unmap (A6 w z) = (if Is4In6 (A6 w z) then A4 (ucast w) else A6 w z)"
| "Unmap a = a"

fun WithoutZone :: "addr \<Rightarrow> addr" where
  "WithoutZone (A6 w z) = A6 w ''''"
| "WithoutZone a = a"

fun addr_bits :: "addr \<Rightarrow> nat" where
  "addr_bits NoAddr = 0"
| "addr_bits (A4 _) = 32"
| "addr_bits (A6 _ _) = 128"

text \<open>\<open>netip.PrefixFrom\<close> drops the zone; \<open>Masked\<close> clears the host bits.\<close>

definition PrefixFrom :: "addr \<Rightarrow> nat \<Rightarrow> pfx" where
  "PrefixFrom a n = (if a \<noteq> NoAddr \<and> n \<le> addr_bits a then Prefix (WithoutZone a) n else NoPrefix)"

definition keep_high :: "nat \<Rightarrow> 'a::len word \<Rightarrow> 'a word" where
  "keep_high n w = w AND NOT (mask (LENGTH('a) - n))"

fun Masked :: "pfx \<Rightarrow> pfx" where
  "Masked (Prefix (A4 w) n) = Prefix (A4 (keep_high n w)) n"
| "Masked (Prefix (A6 w z) n) = Prefix (A6 (keep_high n w) '''') n"
| "Masked p = NoPrefix"

fun px_Addr :: "pfx \<Rightarrow> addr" where
  "px_Addr (Prefix a n) = a"
| "px_Addr NoPrefix = NoAddr"

fun px_Bits :: "pfx \<Rightarrow> nat" where
  "px_Bits (Prefix a n) = n"
| "px_Bits NoPrefix = 0"

text \<open>A prefix that a program can hold: made by \<open>PrefixFrom\<close> or \<open>ParsePrefix\<close>.\<close>

definition valid_pfx :: "pfx \<Rightarrow> bool" where
  "valid_pfx p \<longleftrightarrow> (\<exists>a n. p = PrefixFrom a n)"

datatype ip_err = EInvalidPrefix | EInvalidAddr | EExpired | ErrNotBlocked | EStore cerr

type_synonym 'a ip_result = "(ip_err, 'a) outcome"

definition canonical :: "pfx \<Rightarrow> pfx ip_result" where
  "canonical p =
     (if p = NoPrefix then Err EInvalidPrefix
      else (let p = (if Is4In6 (px_Addr p) \<and> 96 \<le> px_Bits p then PrefixFrom (Unmap (px_Addr p)) (px_Bits p - 96) else p)
            in Ok (Masked p)))"

definition canonicalAddr :: "addr \<Rightarrow> addr ip_result" where
  "canonicalAddr a = (if a = NoAddr then Err EInvalidAddr else Ok (WithoutZone (Unmap a)))"

section \<open>Blocks\<close>

record ip_block =
  ib_Prefix :: pfx
  ib_Reason :: string
  ib_BlockedBy :: string
  ib_BlockedAt :: gotime
  ib_ExpiresAt :: gotime

text \<open>Times are instants, so \<open>UTC\<close> changes none.\<close>

definition prepare :: "ip_block \<Rightarrow> gotime \<Rightarrow> ip_block ip_result" where
  "prepare b now =
     andThen (canonical (ib_Prefix b)) (\<lambda>p.
       let b = b\<lparr>ib_Prefix := p\<rparr>;
           b = (if ib_BlockedAt b = zeroTime then b\<lparr>ib_BlockedAt := now\<rparr> else b)
       in if ib_ExpiresAt b \<noteq> zeroTime \<and> \<not> now < ib_ExpiresAt b then Err EExpired else Ok b)"

definition block_active :: "ip_block \<Rightarrow> gotime \<Rightarrow> bool" where
  "block_active b now \<longleftrightarrow> ib_ExpiresAt b = zeroTime \<or> now < ib_ExpiresAt b"

section \<open>The index\<close>

record block_set =
  bs_byPrefix :: "(pfx \<times> ip_block) list"
  bs_lengths4 :: "nat list"
  bs_lengths6 :: "nat list"

fun index_blocks :: "ip_block list \<Rightarrow> block_set \<Rightarrow> block_set" where
  "index_blocks [] s = s"
| "index_blocks (b # bs) s =
     (let s = (if map_of (bs_byPrefix s) (ib_Prefix b) \<noteq> None then s
               else if addr_Is4 (px_Addr (ib_Prefix b)) then s\<lparr>bs_lengths4 := bs_lengths4 s @ [px_Bits (ib_Prefix b)]\<rparr>
               else s\<lparr>bs_lengths6 := bs_lengths6 s @ [px_Bits (ib_Prefix b)]\<rparr>)
      in index_blocks bs (s\<lparr>bs_byPrefix := AList.update (ib_Prefix b) b (bs_byPrefix s)\<rparr>))"

text \<open>\<open>slices.Sort\<close>, \<open>slices.Compact\<close>, \<open>slices.Reverse\<close>.\<close>

definition longest_first :: "nat list \<Rightarrow> nat list" where
  "longest_first ls = rev (remdups_adj (sort ls))"

definition newBlockSet :: "ip_block list \<Rightarrow> block_set" where
  "newBlockSet bs =
     (let s = index_blocks bs \<lparr>bs_byPrefix = [], bs_lengths4 = [], bs_lengths6 = []\<rparr>
      in s\<lparr>bs_lengths4 := longest_first (bs_lengths4 s), bs_lengths6 := longest_first (bs_lengths6 s)\<rparr>)"

fun probe :: "block_set \<Rightarrow> addr \<Rightarrow> gotime \<Rightarrow> nat list \<Rightarrow> ip_block option" where
  "probe s a now [] = None"
| "probe s a now (n # ns) =
     (case map_of (bs_byPrefix s) (Masked (PrefixFrom a n)) of
        Some b \<Rightarrow> if block_active b now then Some b else probe s a now ns
      | None \<Rightarrow> probe s a now ns)"

definition block_lookup :: "block_set \<Rightarrow> addr \<Rightarrow> gotime \<Rightarrow> ip_block option" where
  "block_lookup s a now = probe s a now (if addr_Is4 a then bs_lengths4 s else bs_lengths6 s)"

text \<open>The order of \<open>netip.Addr.Compare\<close>, then the length.\<close>

fun addr_key :: "addr \<Rightarrow> nat \<times> nat" where
  "addr_key NoAddr = (0, 0)"
| "addr_key (A4 w) = (32, unat w)"
| "addr_key (A6 w z) = (128, unat w)"

definition pfx_key :: "pfx \<Rightarrow> (nat \<times> nat) \<times> nat" where
  "pfx_key p = (addr_key (px_Addr p), px_Bits p)"

definition block_list :: "block_set \<Rightarrow> gotime \<Rightarrow> ip_block list" where
  "block_list s now =
     sort_key (\<lambda>b. pfx_key (ib_Prefix b)) (filter (\<lambda>b. block_active b now) (map snd (bs_byPrefix s)))"

section \<open>The list in memory\<close>

record memory_list =
  ml_blocks :: "(pfx \<times> ip_block) list"
  ml_set :: block_set

definition newMemoryList :: memory_list where
  "newMemoryList = \<lparr>ml_blocks = [], ml_set = newBlockSet []\<rparr>"

definition reindex :: "memory_list \<Rightarrow> memory_list" where
  "reindex m = m\<lparr>ml_set := newBlockSet (map snd (ml_blocks m))\<rparr>"

definition ml_Block :: "gotime \<Rightarrow> ip_block \<Rightarrow> memory_list \<Rightarrow> unit ip_result \<times> memory_list" where
  "ml_Block now b m =
     (case prepare b now of
        Err e \<Rightarrow> (Err e, m)
      | Panic \<Rightarrow> (Panic, m)
      | Ok b \<Rightarrow> (Ok (), reindex (m\<lparr>ml_blocks := AList.update (ib_Prefix b) b (ml_blocks m)\<rparr>)))"

definition ml_Unblock :: "gotime \<Rightarrow> pfx \<Rightarrow> memory_list \<Rightarrow> unit ip_result \<times> memory_list" where
  "ml_Unblock now p m =
     (case canonical p of
        Err e \<Rightarrow> (Err e, m)
      | Panic \<Rightarrow> (Panic, m)
      | Ok p \<Rightarrow>
          (case map_of (ml_blocks m) p of
             None \<Rightarrow> (Err ErrNotBlocked, m)
           | Some b \<Rightarrow>
               (if block_active b now then Ok () else Err ErrNotBlocked,
                reindex (m\<lparr>ml_blocks := AList.delete p (ml_blocks m)\<rparr>))))"

definition ml_Check :: "gotime \<Rightarrow> addr \<Rightarrow> memory_list \<Rightarrow> ip_block option ip_result" where
  "ml_Check now a m = andThen (canonicalAddr a) (\<lambda>a. Ok (block_lookup (ml_set m) a now))"

definition ml_List :: "gotime \<Rightarrow> memory_list \<Rightarrow> ip_block list ip_result" where
  "ml_List now m = Ok (block_list (ml_set m) now)"

section \<open>Covering\<close>

text \<open>The specification: the first \<open>n\<close> bits agree, within one family.\<close>

fun covers :: "pfx \<Rightarrow> addr \<Rightarrow> bool" where
  "covers (Prefix (A4 v) n) (A4 w) \<longleftrightarrow> (\<forall>i < n. bit v (31 - i) \<longleftrightarrow> bit w (31 - i))"
| "covers (Prefix (A6 v z) n) (A6 w z') \<longleftrightarrow> (\<forall>i < n. bit v (127 - i) \<longleftrightarrow> bit w (127 - i))"
| "covers _ _ \<longleftrightarrow> False"

fun canonical_addr :: "addr \<Rightarrow> bool" where
  "canonical_addr NoAddr = False"
| "canonical_addr (A4 w) = True"
| "canonical_addr (A6 w z) \<longleftrightarrow> z = '''' \<and> \<not> Is4In6 (A6 w z)"

definition canonical_pfx :: "pfx \<Rightarrow> bool" where
  "canonical_pfx p \<longleftrightarrow> p \<noteq> NoPrefix \<and> px_Addr p \<noteq> NoAddr \<and> px_Bits p \<le> addr_bits (px_Addr p) \<and> Masked p = p"

lemma bit_keep_high: "bit (keep_high n (w :: 'a::len word)) i \<longleftrightarrow> LENGTH('a) - n \<le> i \<and> i < LENGTH('a) \<and> bit w i"
  by (auto simp: keep_high_def bit_and_iff bit_not_iff bit_mask_iff dest: bit_imp_le_length)

lemma keep_high_idem [simp]: "keep_high n (keep_high n w) = keep_high n w"
  by (rule bit_eqI) (simp add: bit_keep_high)

lemma keep_high_eq_iff:
  assumes "n \<le> LENGTH('a)"
  shows "keep_high n v = v \<Longrightarrow> keep_high n w = v \<longleftrightarrow> (\<forall>i < n. bit v (LENGTH('a) - 1 - i) \<longleftrightarrow> bit (w :: 'a::len word) (LENGTH('a) - 1 - i))"
proof -
  assume v: "keep_high n v = v"
  have v': "bit v i \<longleftrightarrow> LENGTH('a) - n \<le> i \<and> i < LENGTH('a) \<and> bit v i" for i
    using bit_keep_high [of n v i] unfolding v .
  show ?thesis
  proof
    assume w: "keep_high n w = v"
    show "\<forall>i < n. bit v (LENGTH('a) - 1 - i) \<longleftrightarrow> bit w (LENGTH('a) - 1 - i)"
    proof (intro allI impI)
      fix i assume "i < n"
      then show "bit v (LENGTH('a) - 1 - i) \<longleftrightarrow> bit w (LENGTH('a) - 1 - i)"
        using bit_keep_high [of n w "LENGTH('a) - 1 - i"] assms unfolding w by auto
    qed
  next
    assume agree: "\<forall>i < n. bit v (LENGTH('a) - 1 - i) \<longleftrightarrow> bit w (LENGTH('a) - 1 - i)"
    show "keep_high n w = v"
    proof (rule bit_eqI)
      fix j assume "possible_bit TYPE('a word) j"
      then have j: "j < LENGTH('a)" by (simp add: possible_bit_word)
      show "bit (keep_high n w) j \<longleftrightarrow> bit v j"
      proof (cases "LENGTH('a) - n \<le> j")
        case True
        then have "LENGTH('a) - 1 - j < n" "LENGTH('a) - 1 - (LENGTH('a) - 1 - j) = j" using j assms by auto
        then show ?thesis using agree j True by (metis bit_keep_high)
      next
        case False
        then show ?thesis using v' [of j] by (simp add: bit_keep_high)
      qed
    qed
  qed
qed

lemma Masked_covers:
  assumes "canonical_pfx p" "canonical_addr a" "n \<le> addr_bits a"
  shows "Masked (PrefixFrom a n) = p \<longleftrightarrow> px_Bits p = n \<and> covers p a"
proof (cases p)
  case (Prefix b m)
  have four: "keep_high m w = v \<longleftrightarrow> covers (Prefix (A4 v) m) (A4 w)" if "m \<le> 32" "keep_high m v = v" for v w :: "32 word"
    using keep_high_eq_iff [of m v w] that by simp
  have six: "keep_high m w = v \<longleftrightarrow> covers (Prefix (A6 v z) m) (A6 w z')" if "m \<le> 128" "keep_high m v = v"
    for v w :: "128 word" and z z'
    using keep_high_eq_iff [of m v w] that by simp
  show ?thesis
  proof (cases "n = m")
    case True
    then show ?thesis using assms Prefix
      by (cases a; cases b) (auto simp: canonical_pfx_def PrefixFrom_def four six simp del: covers.simps(1,2))
  next
    case False
    then show ?thesis using assms Prefix by (cases a) (auto simp: PrefixFrom_def)
  qed
qed (use assms in \<open>simp add: canonical_pfx_def\<close>)

lemma covers_unique:
  assumes "canonical_pfx p" "canonical_pfx q" "canonical_addr a" "covers p a" "covers q a" "px_Bits p = px_Bits q"
  shows "p = q"
proof -
  have "px_Bits p \<le> addr_bits a" using assms(1,4) by (cases "(p, a)" rule: covers.cases) (auto simp: canonical_pfx_def)
  then show ?thesis using Masked_covers [of p a "px_Bits p"] Masked_covers [of q a "px_Bits p"] assms by metis
qed

lemma canonical_Ok:
  assumes "valid_pfx p" "canonical p = Ok q"
  shows "canonical_pfx q"
proof -
  obtain a n where p: "p = PrefixFrom a n" using assms(1) by (auto simp: valid_pfx_def)
  then show ?thesis using assms(2)
    by (cases a) (auto simp: canonical_def canonical_pfx_def PrefixFrom_def Let_def split: if_splits)
qed

lemma canonicalAddr_Ok: "canonicalAddr a = Ok b \<Longrightarrow> canonical_addr b"
  by (cases a) (auto simp: canonicalAddr_def split: if_splits)

lemma canonical_no_panic [simp]: "canonical p \<noteq> Panic" "prepare b now \<noteq> Panic"
  by (auto simp: canonical_def prepare_def Let_def outcome_simps)

section \<open>The index finds the narrowest block\<close>

text \<open>The last block of a list on each prefix.\<close>

definition latest :: "ip_block list \<Rightarrow> pfx \<Rightarrow> ip_block option" where
  "latest bs = map_of (rev (map (\<lambda>b. (ib_Prefix b, b)) bs))"

definition index_inv :: "block_set \<Rightarrow> bool" where
  "index_inv s \<longleftrightarrow> wf_map (bs_byPrefix s) \<and> (\<forall>p b. map_of (bs_byPrefix s) p = Some b \<longrightarrow> ib_Prefix b = p) \<and>
     set (bs_lengths4 s) = px_Bits ` {p \<in> dom (map_of (bs_byPrefix s)). addr_Is4 (px_Addr p)} \<and>
     set (bs_lengths6 s) = px_Bits ` {p \<in> dom (map_of (bs_byPrefix s)). \<not> addr_Is4 (px_Addr p)}"

lemma index_blocks_inv: "index_inv s \<Longrightarrow> index_inv (index_blocks bs s)"
proof (induction bs s rule: index_blocks.induct)
  case (2 b bs s)
  let ?p = "ib_Prefix b"
  have wf: "wf_map (bs_byPrefix s)" using 2(2) by (simp add: index_inv_def)
  show ?case
  proof (cases "map_of (bs_byPrefix s) ?p")
    case None
    have dom: "{p \<in> insert ?p (dom (map_of (bs_byPrefix s))). P p} =
        (if P ?p then insert ?p {p \<in> dom (map_of (bs_byPrefix s)). P p} else {p \<in> dom (map_of (bs_byPrefix s)). P p})" for P
      by auto
    show ?thesis unfolding index_blocks.simps Let_def
      by (intro 2(1) [OF refl, unfolded Let_def])
        (use 2(2) None dom [of "\<lambda>p. addr_Is4 (px_Addr p)"] dom [of "\<lambda>p. \<not> addr_Is4 (px_Addr p)"] wf in
          \<open>auto simp: index_inv_def update_conv' simp del: map_of_eq_Some_iff split: if_splits\<close>)
  next
    case (Some b')
    then have same: "insert ?p (dom (map_of (bs_byPrefix s))) = dom (map_of (bs_byPrefix s))" by auto
    show ?thesis unfolding index_blocks.simps Let_def
      by (intro 2(1) [OF refl, unfolded Let_def])
        (use 2(2) Some same wf in \<open>auto simp: index_inv_def update_conv' simp del: map_of_eq_Some_iff split: if_splits\<close>)
  qed
qed simp

lemma index_blocks_latest: "map_of (bs_byPrefix (index_blocks bs s)) = map_of (bs_byPrefix s) ++ latest bs"
proof (induction bs s rule: index_blocks.induct)
  case (2 b bs s)
  show ?case unfolding index_blocks.simps Let_def 2 [OF refl, unfolded Let_def]
    by (simp add: latest_def update_conv' map_add_def fun_eq_iff split: option.split)
qed (simp add: latest_def)

lemma longest_first_props: "set (longest_first ls) = set ls" "sorted_wrt (\<ge>) (longest_first ls)"
  by (simp_all add: longest_first_def sorted_wrt_rev)

lemma newBlockSet_props:
  shows newBlockSet_byPrefix: "map_of (bs_byPrefix (newBlockSet bs)) = latest bs"
    and newBlockSet_wf: "wf_map (bs_byPrefix (newBlockSet bs))"
    and newBlockSet_4: "set (bs_lengths4 (newBlockSet bs)) = px_Bits ` {p \<in> dom (latest bs). addr_Is4 (px_Addr p)}"
    and newBlockSet_6: "set (bs_lengths6 (newBlockSet bs)) = px_Bits ` {p \<in> dom (latest bs). \<not> addr_Is4 (px_Addr p)}"
    and newBlockSet_sorted: "sorted_wrt (\<ge>) (bs_lengths4 (newBlockSet bs))" "sorted_wrt (\<ge>) (bs_lengths6 (newBlockSet bs))"
proof -
  let ?s = "index_blocks bs \<lparr>bs_byPrefix = [], bs_lengths4 = [], bs_lengths6 = []\<rparr>"
  have inv: "index_inv ?s" by (intro index_blocks_inv) (simp add: index_inv_def)
  have map: "map_of (bs_byPrefix ?s) = latest bs" by (simp add: index_blocks_latest)
  show "map_of (bs_byPrefix (newBlockSet bs)) = latest bs" using map by (simp add: newBlockSet_def Let_def)
  show "wf_map (bs_byPrefix (newBlockSet bs))" using inv by (simp add: newBlockSet_def Let_def index_inv_def)
  show "set (bs_lengths4 (newBlockSet bs)) = px_Bits ` {p \<in> dom (latest bs). addr_Is4 (px_Addr p)}"
    "set (bs_lengths6 (newBlockSet bs)) = px_Bits ` {p \<in> dom (latest bs). \<not> addr_Is4 (px_Addr p)}"
    using inv unfolding map [symmetric] by (simp_all add: newBlockSet_def Let_def index_inv_def longest_first_props)
  show "sorted_wrt (\<ge>) (bs_lengths4 (newBlockSet bs))" "sorted_wrt (\<ge>) (bs_lengths6 (newBlockSet bs))"
    by (simp_all add: newBlockSet_def Let_def longest_first_props)
qed

lemma latest_Prefix: "latest bs p = Some b \<Longrightarrow> ib_Prefix b = p \<and> b \<in> set bs"
  unfolding latest_def by (auto dest: map_of_SomeD)

text \<open>The specification of a lookup in the blocks \<open>m\<close>.\<close>

definition narrowest :: "(pfx \<Rightarrow> ip_block option) \<Rightarrow> addr \<Rightarrow> gotime \<Rightarrow> ip_block option \<Rightarrow> bool" where
  "narrowest m a now r \<longleftrightarrow>
     (case r of
        None \<Rightarrow> \<forall>p b. m p = Some b \<and> covers p a \<longrightarrow> \<not> block_active b now
      | Some b \<Rightarrow> m (ib_Prefix b) = Some b \<and> covers (ib_Prefix b) a \<and> block_active b now \<and>
          (\<forall>p b'. m p = Some b' \<and> covers p a \<and> block_active b' now \<longrightarrow> px_Bits p \<le> px_Bits (ib_Prefix b)))"

lemma probe_narrowest:
  assumes "canonical_addr a" and "\<forall>p \<in> dom (map_of (bs_byPrefix s)). canonical_pfx p"
    and "\<forall>p b. map_of (bs_byPrefix s) p = Some b \<longrightarrow> ib_Prefix b = p" and "\<forall>n \<in> set ns. n \<le> addr_bits a"
    and "sorted_wrt (\<ge>) ns"
    and "\<And>p b. map_of (bs_byPrefix s) p = Some b \<Longrightarrow> covers p a \<Longrightarrow> block_active b now \<Longrightarrow> px_Bits p \<in> set ns"
  shows "narrowest (map_of (bs_byPrefix s)) a now (probe s a now ns)"
proof -
  let ?m = "map_of (bs_byPrefix s)"
  have hit: "?m (Masked (PrefixFrom a n)) = Some b \<longleftrightarrow> (\<exists>p. ?m p = Some b \<and> px_Bits p = n \<and> covers p a)"
    if "n \<le> addr_bits a" for n b
    using Masked_covers [OF _ assms(1) that] assms(2) by (metis domI)
  have "narrowest (?m |` {p. px_Bits p \<in> set ns}) a now (probe s a now ns)"
    using assms(4,5)
  proof (induction ns)
    case Nil
    then show ?case by (simp add: narrowest_def)
  next
    case (Cons n ns)
    let ?q = "Masked (PrefixFrom a n)"
    show ?case
    proof (cases "\<exists>b. ?m ?q = Some b \<and> block_active b now")
      case True
      then obtain b where b: "?m ?q = Some b" "block_active b now" by blast
      then obtain p where p: "?m p = Some b" "px_Bits p = n" "covers p a" using hit Cons.prems(1) by auto
      have "ib_Prefix b = p" using assms(3) p(1) by blast
      then show ?thesis using b p Cons.prems(2) by (auto simp: narrowest_def restrict_map_def split: if_splits)
    next
      case False
      then have none: "\<not> block_active b now" if "?m p = Some b" "px_Bits p = n" "covers p a" for p b
        using hit Cons.prems(1) that by (metis list.set_intros(1))
      have "probe s a now (n # ns) = probe s a now ns" using False by (auto split: option.splits)
      moreover have "narrowest (?m |` {p. px_Bits p \<in> set ns}) a now (probe s a now ns)"
        using Cons by simp
      ultimately show ?thesis using none
        by (fastforce simp: narrowest_def restrict_map_def split: option.splits if_splits)
    qed
  qed
  then show ?thesis using assms(6)
    by (fastforce simp: narrowest_def restrict_map_def split: option.splits if_splits)
qed

lemma block_lookup_narrowest:
  assumes "canonical_addr a" and can: "\<forall>p \<in> dom (latest bs). canonical_pfx p"
  shows "narrowest (latest bs) a now (block_lookup (newBlockSet bs) a now)"
proof -
  have fam: "addr_Is4 (px_Addr p) = addr_Is4 a \<and> addr_bits (px_Addr p) = addr_bits a" if "covers p a" for p
    using that by (cases "(p, a)" rule: covers.cases) auto
  have bits: "px_Bits p \<le> addr_bits a" if "p \<in> dom (latest bs)" "addr_Is4 (px_Addr p) = addr_Is4 a" for p
  proof -
    have "px_Addr p \<noteq> NoAddr" "px_Bits p \<le> addr_bits (px_Addr p)" using can that(1) by (auto simp: canonical_pfx_def)
    then show ?thesis using that(2) assms(1) by (cases "px_Addr p"; cases a) simp_all
  qed
  let ?ns = "if addr_Is4 a then bs_lengths4 (newBlockSet bs) else bs_lengths6 (newBlockSet bs)"
  have ns: "set ?ns = px_Bits ` {p \<in> dom (latest bs). addr_Is4 (px_Addr p) = addr_Is4 a}"
    using newBlockSet_4 [of bs] newBlockSet_6 [of bs] by (cases "addr_Is4 a") simp_all
  have "narrowest (map_of (bs_byPrefix (newBlockSet bs))) a now (probe (newBlockSet bs) a now ?ns)"
  proof (rule probe_narrowest [OF assms(1)])
    show "\<forall>p \<in> dom (map_of (bs_byPrefix (newBlockSet bs))). canonical_pfx p" unfolding newBlockSet_byPrefix by (rule can)
    show "\<forall>p b. map_of (bs_byPrefix (newBlockSet bs)) p = Some b \<longrightarrow> ib_Prefix b = p"
      unfolding newBlockSet_byPrefix using latest_Prefix by blast
    show "\<forall>n \<in> set ?ns. n \<le> addr_bits a" unfolding ns using bits by blast
    show "sorted_wrt (\<ge>) ?ns" using newBlockSet_sorted by simp
    show "px_Bits p \<in> set ?ns" if "map_of (bs_byPrefix (newBlockSet bs)) p = Some b" "covers p a" for p b
      unfolding ns using that fam [of p] unfolding newBlockSet_byPrefix by (intro imageI) auto
  qed
  then show ?thesis unfolding block_lookup_def newBlockSet_byPrefix .
qed

section \<open>The list in memory refines a map\<close>

datatype ip_op = OpBlock gotime ip_block | OpUnblock gotime pfx

fun op_pfx :: "ip_op \<Rightarrow> pfx" where
  "op_pfx (OpBlock now b) = ib_Prefix b"
| "op_pfx (OpUnblock now p) = p"

fun ml_step :: "ip_op \<Rightarrow> memory_list \<Rightarrow> unit ip_result \<times> memory_list" where
  "ml_step (OpBlock now b) m = ml_Block now b m"
| "ml_step (OpUnblock now p) m = ml_Unblock now p m"

text \<open>What the interface promises: the blocks by canonical prefix.\<close>

type_synonym ref_list = "pfx \<Rightarrow> ip_block option"

fun ref_step :: "ip_op \<Rightarrow> ref_list \<Rightarrow> unit ip_result \<times> ref_list" where
  "ref_step (OpBlock now b) m =
     (case prepare b now of Ok b \<Rightarrow> (Ok (), m(ib_Prefix b \<mapsto> b)) | Err e \<Rightarrow> (Err e, m) | Panic \<Rightarrow> (Panic, m))"
| "ref_step (OpUnblock now p) m =
     (case canonical p of
        Ok p \<Rightarrow>
          (case m p of
             None \<Rightarrow> (Err ErrNotBlocked, m)
           | Some b \<Rightarrow> (if block_active b now then Ok () else Err ErrNotBlocked, m(p := None)))
      | Err e \<Rightarrow> (Err e, m) | Panic \<Rightarrow> (Panic, m))"

fun run_ip :: "('o \<Rightarrow> 's \<Rightarrow> 'r \<times> 's) \<Rightarrow> 'o list \<Rightarrow> 's \<Rightarrow> 'r list \<times> 's" where
  "run_ip step [] s = ([], s)"
| "run_ip step (x # xs) s = (let (r, s) = step x s; (rs, s) = run_ip step xs s in (r # rs, s))"

definition ref_inv :: "ref_list \<Rightarrow> bool" where
  "ref_inv m \<longleftrightarrow> (\<forall>p b. m p = Some b \<longrightarrow> ib_Prefix b = p \<and> canonical_pfx p \<and> canonical p = Ok p)"

definition ml_inv :: "memory_list \<Rightarrow> bool" where
  "ml_inv m \<longleftrightarrow> wf_map (ml_blocks m) \<and> ref_inv (map_of (ml_blocks m)) \<and> ml_set m = newBlockSet (map snd (ml_blocks m))"

lemma drop_keep_high: "96 \<le> n \<Longrightarrow> drop_bit 32 (keep_high n (w :: 128 word)) = drop_bit 32 w"
  by (rule bit_eqI) (auto simp: bit_drop_bit_eq bit_keep_high dest: bit_imp_le_length)

lemma canonical_idem:
  assumes "valid_pfx p" "canonical p = Ok q"
  shows "canonical q = Ok q"
proof -
  obtain a n where p: "p = PrefixFrom a n" using assms(1) by (auto simp: valid_pfx_def)
  then show ?thesis using assms(2)
    by (cases a) (auto simp: canonical_def PrefixFrom_def Let_def drop_keep_high split: if_splits)
qed

lemma prepare_Ok: "prepare b now = Ok b' \<Longrightarrow> canonical (ib_Prefix b) = Ok (ib_Prefix b')"
  by (auto simp: prepare_def Let_def outcome_simps split: if_splits)

lemma ref_step_inv: "valid_pfx (op_pfx x) \<Longrightarrow> ref_inv m \<Longrightarrow> ref_inv (snd (ref_step x m))"
  by (cases x) (auto simp: ref_inv_def canonical_idem intro: canonical_Ok dest!: prepare_Ok split: outcome.split option.split)

lemma latest_values: "wf_map m \<Longrightarrow> ref_inv (map_of m) \<Longrightarrow> latest (map snd m) = map_of m"
proof -
  assume wf: "wf_map m" and inv: "ref_inv (map_of m)"
  have keys: "map (\<lambda>b. (ib_Prefix b, b)) (map snd m) = m"
  proof -
    have "ib_Prefix b = p" if "(p, b) \<in> set m" for p b
      using inv map_of_eq_Some_iff [OF wf, of p b] that unfolding ref_inv_def by blast
    then have "map (\<lambda>x. (ib_Prefix (snd x), snd x)) m = map id m" by (intro map_cong) auto
    then show ?thesis by (simp add: comp_def)
  qed
  show ?thesis unfolding latest_def keys using map_of_mset_eq [OF wf, of "rev m"] by simp
qed

lemma ml_step_ref:
  assumes inv: "ml_inv m" and "valid_pfx (op_pfx x)"
  shows "fst (ml_step x m) = fst (ref_step x (map_of (ml_blocks m)))"
    "map_of (ml_blocks (snd (ml_step x m))) = snd (ref_step x (map_of (ml_blocks m)))" "ml_inv (snd (ml_step x m))"
proof -
  show 1: "fst (ml_step x m) = fst (ref_step x (map_of (ml_blocks m)))"
    by (cases x) (auto simp: ml_Block_def ml_Unblock_def split: outcome.split option.split)
  show 2: "map_of (ml_blocks (snd (ml_step x m))) = snd (ref_step x (map_of (ml_blocks m)))"
    by (cases x) (auto simp: ml_Block_def ml_Unblock_def reindex_def update_conv' delete_conv'
        split: outcome.split option.split)
  have "wf_map (ml_blocks (snd (ml_step x m)))"
    using inv by (cases x) (auto simp: ml_inv_def ml_Block_def ml_Unblock_def reindex_def split: outcome.split option.split)
  moreover have "ml_set (snd (ml_step x m)) = newBlockSet (map snd (ml_blocks (snd (ml_step x m))))"
    using inv by (cases x) (auto simp: ml_inv_def ml_Block_def ml_Unblock_def reindex_def split: outcome.split option.split)
  moreover have "ref_inv (map_of (ml_blocks (snd (ml_step x m))))"
    unfolding 2 using inv assms(2) by (intro ref_step_inv) (simp_all add: ml_inv_def)
  ultimately show "ml_inv (snd (ml_step x m))" by (simp add: ml_inv_def)
qed

lemma run_ip_sim:
  assumes "\<And>x s m. R s m \<Longrightarrow> P x \<Longrightarrow> fst (step x s) = fst (step' x m) \<and> R (snd (step x s)) (snd (step' x m))"
  shows "R s m \<Longrightarrow> \<forall>x \<in> set xs. P x \<Longrightarrow>
    fst (run_ip step xs s) = fst (run_ip step' xs m) \<and> R (snd (run_ip step xs s)) (snd (run_ip step' xs m))"
proof (induction xs arbitrary: s m)
  case (Cons x xs)
  then show ?case using assms [of s m x] Cons.IH [of "snd (step x s)" "snd (step' x m)"] by (simp add: split_beta Let_def)
qed simp

definition in_force :: "ref_list \<Rightarrow> gotime \<Rightarrow> ip_block set" where
  "in_force m now = {b. \<exists>p. m p = Some b \<and> block_active b now}"

lemma block_list_props:
  assumes "latest bs = m"
  shows "set (block_list (newBlockSet bs) now) = in_force m now"
    "sorted (map (\<lambda>b. pfx_key (ib_Prefix b)) (block_list (newBlockSet bs) now))"
    "distinct (map ib_Prefix (block_list (newBlockSet bs) now))"
proof -
  let ?m = "bs_byPrefix (newBlockSet bs)"
  have m: "map_of ?m = m" "wf_map ?m" using newBlockSet_byPrefix newBlockSet_wf assms by auto
  have "set ?m = {(p, b). m p = Some b}" using m map_of_eq_Some_iff [OF m(2)] by auto
  then show "set (block_list (newBlockSet bs) now) = in_force m now"
    by (auto simp: block_list_def in_force_def image_iff)
  show "sorted (map (\<lambda>b. pfx_key (ib_Prefix b)) (block_list (newBlockSet bs) now))" by (simp add: block_list_def)
  have fst_eq: "map ib_Prefix (map snd ?m) = map fst ?m"
    using m latest_Prefix [of bs] assms map_of_eq_Some_iff [OF m(2)] by (force intro: map_cong)
  then have "distinct (map ib_Prefix (map snd ?m))" using m(2) by (simp only:)
  then have "distinct (map ib_Prefix (filter (\<lambda>b. block_active b now) (map snd ?m)))" by (rule distinct_map_filter)
  then have "distinct (filter (\<lambda>b. block_active b now) (map snd ?m))"
    "inj_on ib_Prefix (set (filter (\<lambda>b. block_active b now) (map snd ?m)))"
    unfolding distinct_map by blast+
  then show "distinct (map ib_Prefix (block_list (newBlockSet bs) now))"
    by (simp add: block_list_def distinct_map)
qed

text \<open>A map has one narrowest answer and one ordered listing.\<close>

lemma narrowest_unique:
  assumes "narrowest m a now r" "narrowest m a now r'" "canonical_addr a" "ref_inv m"
  shows "r = r'"
proof (cases r)
  case None
  then show ?thesis using assms(1,2) by (cases r') (auto simp: narrowest_def)
next
  case (Some b)
  then obtain b' where b': "r' = Some b'" using assms(1,2) by (cases r') (auto simp: narrowest_def)
  have 1: "m (ib_Prefix b) = Some b" "covers (ib_Prefix b) a" "block_active b now"
    "\<And>p c. m p = Some c \<Longrightarrow> covers p a \<Longrightarrow> block_active c now \<Longrightarrow> px_Bits p \<le> px_Bits (ib_Prefix b)"
    using assms(1) unfolding Some narrowest_def by simp_all
  have 2: "m (ib_Prefix b') = Some b'" "covers (ib_Prefix b') a" "block_active b' now"
    "\<And>p c. m p = Some c \<Longrightarrow> covers p a \<Longrightarrow> block_active c now \<Longrightarrow> px_Bits p \<le> px_Bits (ib_Prefix b')"
    using assms(2) unfolding b' narrowest_def by simp_all
  have "px_Bits (ib_Prefix b) = px_Bits (ib_Prefix b')" using 1(4) [OF 2(1-3)] 2(4) [OF 1(1-3)] by simp
  moreover have "canonical_pfx (ib_Prefix b)" "canonical_pfx (ib_Prefix b')"
    using assms(4) 1(1) 2(1) unfolding ref_inv_def by blast+
  ultimately have "ib_Prefix b = ib_Prefix b'" using covers_unique assms(3) 1(2) 2(2) by blast
  then have "Some b = Some b'" using 1(1) 2(1) by metis
  then show ?thesis unfolding Some b' .
qed

lemma pfx_key_inject:
  assumes "canonical_pfx p" "canonical_pfx q" "pfx_key p = pfx_key q"
  shows "p = q"
proof -
  obtain a n c k where pq: "p = Prefix a n" "q = Prefix c k" using assms(1,2) by (cases p; cases q) (auto simp: canonical_pfx_def)
  then show ?thesis using assms
    by (cases a; cases c) (auto simp: pfx_key_def canonical_pfx_def word_unat_eq_iff)
qed

lemma block_list_unique:
  assumes "latest bs = m" "latest bs' = m" "ref_inv m"
  shows "block_list (newBlockSet bs) now = block_list (newBlockSet bs') now"
proof -
  let ?xs = "block_list (newBlockSet bs) now" and ?ys = "block_list (newBlockSet bs') now"
  let ?k = "\<lambda>b. pfx_key (ib_Prefix b)"
  note px = block_list_props [OF assms(1), of now] and py = block_list_props [OF assms(2), of now]
  have can: "canonical_pfx (ib_Prefix b) \<and> m (ib_Prefix b) = Some b" if "b \<in> in_force m now" for b
    using that assms(3) by (auto simp: in_force_def ref_inv_def)
  have inj: "inj_on ?k (in_force m now)"
    using can pfx_key_inject by (intro inj_onI) (metis option.inject)
  have "distinct (map ?k ?xs)" "distinct (map ?k ?ys)"
    using px(1,3) py(1,3) inj by (auto simp: distinct_map)
  then have "map ?k ?xs = map ?k ?ys"
    using px(1,2) py(1,2) by (intro sorted_distinct_set_unique) auto
  then show ?thesis using inj px(1) py(1) by (simp add: inj_on_map_eq_map)
qed

lemma run_ml_ref:
  assumes "\<forall>x \<in> set ops. valid_pfx (op_pfx x)"
  shows "fst (run_ip ml_step ops newMemoryList) = fst (run_ip ref_step ops Map.empty)"
    "map_of (ml_blocks (snd (run_ip ml_step ops newMemoryList))) = snd (run_ip ref_step ops Map.empty)"
    "ml_inv (snd (run_ip ml_step ops newMemoryList))"
proof -
  have "fst (run_ip ml_step ops newMemoryList) = fst (run_ip ref_step ops Map.empty) \<and>
      (map_of (ml_blocks (snd (run_ip ml_step ops newMemoryList))) = snd (run_ip ref_step ops Map.empty) \<and>
       ml_inv (snd (run_ip ml_step ops newMemoryList)))"
  proof (rule run_ip_sim [where R = "\<lambda>m ref. map_of (ml_blocks m) = ref \<and> ml_inv m" and P = "\<lambda>x. valid_pfx (op_pfx x)"])
    show "map_of (ml_blocks newMemoryList) = Map.empty \<and> ml_inv newMemoryList"
      by (simp add: newMemoryList_def ml_inv_def ref_inv_def)
    show "fst (ml_step x s) = fst (ref_step x t) \<and>
        map_of (ml_blocks (snd (ml_step x s))) = snd (ref_step x t) \<and> ml_inv (snd (ml_step x s))"
      if "map_of (ml_blocks s) = t \<and> ml_inv s" "valid_pfx (op_pfx x)" for x s t
      using ml_step_ref [OF _ that(2)] that(1) by auto
  qed (rule assms)
  then show "fst (run_ip ml_step ops newMemoryList) = fst (run_ip ref_step ops Map.empty)"
    "map_of (ml_blocks (snd (run_ip ml_step ops newMemoryList))) = snd (run_ip ref_step ops Map.empty)"
    "ml_inv (snd (run_ip ml_step ops newMemoryList))"
    by blast+
qed

section \<open>Property\<close>

text \<open>
  C21 (blocklist_exact). After any sequence of blocks and unblocks the list in memory has answered as a
  map from canonical prefixes to blocks would, a check of an address finds the narrowest block in force
  whose first bits are those of the address, and none if and only if no block in force covers it, and a
  listing is exactly the blocks in force, once each, in the order of their prefixes.
\<close>

theorem blocklist_exact:
  assumes "\<forall>x \<in> set ops. valid_pfx (op_pfx x)"
    and "run_ip ml_step ops newMemoryList = (rs, m)" and "run_ip ref_step ops Map.empty = (rs', ref)"
  shows "rs = rs' \<and>
    (\<forall>now a. if a = NoAddr then ml_Check now a m = Err EInvalidAddr
       else \<exists>r. ml_Check now a m = Ok r \<and> narrowest ref (WithoutZone (Unmap a)) now r) \<and>
    (\<forall>now. \<exists>xs. ml_List now m = Ok xs \<and> set xs = in_force ref now \<and> distinct (map ib_Prefix xs) \<and>
       sorted (map (\<lambda>b. pfx_key (ib_Prefix b)) xs))"
proof -
  have rs: "rs = rs'" and ref: "map_of (ml_blocks m) = ref" and inv: "ml_inv m"
    using run_ml_ref [OF assms(1)] assms(2,3) by simp_all
  let ?bs = "map snd (ml_blocks m)"
  have set: "ml_set m = newBlockSet ?bs" and ref_inv: "ref_inv ref" and wf: "wf_map (ml_blocks m)"
    using inv ref by (simp_all add: ml_inv_def)
  have latest: "latest ?bs = ref" using latest_values [OF wf] ref_inv ref by simp
  have can: "\<forall>p \<in> dom (latest ?bs). canonical_pfx p" using ref_inv unfolding latest ref_inv_def by auto
  have "\<exists>r. ml_Check now a m = Ok r \<and> narrowest ref (WithoutZone (Unmap a)) now r" if "a \<noteq> NoAddr" for now a
    using block_lookup_narrowest [OF _ can, of "WithoutZone (Unmap a)" now] canonicalAddr_Ok [of a] that
    unfolding latest by (simp add: ml_Check_def canonicalAddr_def set)
  moreover have "ml_Check now NoAddr m = Err EInvalidAddr" for now by (simp add: ml_Check_def canonicalAddr_def)
  ultimately show ?thesis using rs block_list_props [OF latest] by (auto simp: ml_List_def set)
qed

definition sample_ops :: "ip_op list" where
  "sample_ops =
     [OpBlock zeroTime \<lparr>ib_Prefix = PrefixFrom (A4 0x0A000000) 8, ib_Reason = ''lan'', ib_BlockedBy = ''op'',
        ib_BlockedAt = zeroTime, ib_ExpiresAt = zeroTime\<rparr>,
      OpBlock zeroTime \<lparr>ib_Prefix = PrefixFrom (A6 0xFFFF0A010203 '''') 112, ib_Reason = ''host'', ib_BlockedBy = ''op'',
        ib_BlockedAt = zeroTime, ib_ExpiresAt = zeroTime\<rparr>]"

theorem blocklist_exact_witness:
  "\<exists>r. ml_Check zeroTime (A4 0x0A01FFFF) (snd (run_ip ml_step sample_ops newMemoryList)) = Ok r \<and>
     narrowest (snd (run_ip ref_step sample_ops Map.empty)) (A4 0x0A01FFFF) zeroTime r"
proof -
  have "\<forall>x \<in> set sample_ops. valid_pfx (op_pfx x)" by (auto simp: sample_ops_def valid_pfx_def)
  from blocklist_exact [OF this prod.collapse [symmetric] prod.collapse [symmetric]]
  show ?thesis by (auto dest!: spec [of _ "A4 0x0A01FFFF"] spec [of _ zeroTime])
qed

end
