(* ===== verification/IPStore.thy ===== *)
theory IPStore
  imports IPBlock
begin

text \<open>
  The blocklist kept in a document store (\<^verbatim>\<open>ipblock/document.go\<close>) and the cache in front
  of a reader (\<^verbatim>\<open>ipblock/cache.go\<close>). The text form of a prefix is that of package
  net/netip, a parameter with what its documentation says of it.
\<close>

section \<open>Documents\<close>

record block_document =
  bd_Prefix :: string
  bd_Reason :: string
  bd_BlockedBy :: string
  bd_BlockedAt :: gotime
  bd_ExpiresAt :: "gotime option"

record pfx_format =
  pf_String :: "pfx \<Rightarrow> string"
  pf_Parse :: "string \<Rightarrow> pfx option"

text \<open>A valid prefix parses back, and its text is digits, letters, dots, colons and a slash.\<close>

definition pfx_format_law :: "pfx_format \<Rightarrow> bool" where
  "pfx_format_law F \<longleftrightarrow>
     (\<forall>p. valid_pfx p \<and> p \<noteq> NoPrefix \<longrightarrow> pf_Parse F (pf_String F p) = Some p \<and> CHR ''_'' \<notin> set (pf_String F p))"

definition toDocument :: "pfx_format \<Rightarrow> ip_block \<Rightarrow> block_document" where
  "toDocument F b =
     \<lparr>bd_Prefix = pf_String F (ib_Prefix b), bd_Reason = ib_Reason b, bd_BlockedBy = ib_BlockedBy b,
      bd_BlockedAt = ib_BlockedAt b, bd_ExpiresAt = (if ib_ExpiresAt b \<noteq> zeroTime then Some (ib_ExpiresAt b) else None)\<rparr>"

definition fromDocument :: "pfx_format \<Rightarrow> block_document \<Rightarrow> ip_block ip_result" where
  "fromDocument F d =
     (case pf_Parse F (bd_Prefix d) of
        None \<Rightarrow> Err EInvalidPrefix
      | Some p \<Rightarrow> andThen (canonical p) (\<lambda>p.
          Ok \<lparr>ib_Prefix = p, ib_Reason = bd_Reason d, ib_BlockedBy = bd_BlockedBy d, ib_BlockedAt = bd_BlockedAt d,
              ib_ExpiresAt = (case bd_ExpiresAt d of None \<Rightarrow> zeroTime | Some t \<Rightarrow> t)\<rparr>))"

text \<open>\<open>strings.Replace(s, "/", "_", 1)\<close>.\<close>

fun replace_slash :: "string \<Rightarrow> string" where
  "replace_slash [] = []"
| "replace_slash (c # s) = (if c = CHR ''/'' then CHR ''_'' # s else c # replace_slash s)"

definition documentID :: "pfx_format \<Rightarrow> pfx \<Rightarrow> string" where
  "documentID F p = replace_slash (pf_String F p)"

section \<open>The list\<close>

definition dl_Block :: "pfx_format \<Rightarrow> gotime \<Rightarrow> ip_block \<Rightarrow> block_document docstore \<Rightarrow> unit ip_result \<times> block_document docstore" where
  "dl_Block F now b s =
     (case prepare b now of
        Err e \<Rightarrow> (Err e, s)
      | Panic \<Rightarrow> (Panic, s)
      | Ok b \<Rightarrow> map_prod (mapErr (\<lambda>e. EStore (EIn ''ipblock: block'' e))) id
          (doc_Set id (documentID F (ib_Prefix b)) (toDocument F b) s))"

definition dl_Unblock :: "pfx_format \<Rightarrow> gotime \<Rightarrow> pfx \<Rightarrow> block_document docstore \<Rightarrow> unit ip_result \<times> block_document docstore" where
  "dl_Unblock F now p s =
     (case canonical p of
        Err e \<Rightarrow> (Err e, s)
      | Panic \<Rightarrow> (Panic, s)
      | Ok p \<Rightarrow>
          (case doc_Get (documentID F p) s of
             (Err e, s) \<Rightarrow> (Err (if e = ErrNotFound then ErrNotBlocked else EStore (EIn ''ipblock: unblock'' e)), s)
           | (Panic, s) \<Rightarrow> (Panic, s)
           | (Ok d, s) \<Rightarrow>
               (case doc_Delete (documentID F p) s of
                  (Err e, s) \<Rightarrow> (Err (EStore (EIn ''ipblock: unblock'' e)), s)
                | (Panic, s) \<Rightarrow> (Panic, s)
                | (Ok _, s) \<Rightarrow>
                    (case bd_ExpiresAt d of
                       Some t \<Rightarrow> (if now < t then Ok () else Err ErrNotBlocked, s)
                     | None \<Rightarrow> (Ok (), s)))))"

fun valid_blocks :: "pfx_format \<Rightarrow> block_document list \<Rightarrow> ip_block list" where
  "valid_blocks F [] = []"
| "valid_blocks F (d # ds) = (case fromDocument F d of Ok b \<Rightarrow> b # valid_blocks F ds | _ \<Rightarrow> valid_blocks F ds)"

definition dl_load :: "pfx_format \<Rightarrow> block_document docstore \<Rightarrow> block_set ip_result \<times> block_document docstore" where
  "dl_load F s =
     (case doc_List (\<lambda>_. True) s of
        (Err e, s) \<Rightarrow> (Err (EStore (EIn ''ipblock: list blocks'' e)), s)
      | (Panic, s) \<Rightarrow> (Panic, s)
      | (Ok ds, s) \<Rightarrow> (Ok (newBlockSet (valid_blocks F ds)), s))"

definition dl_Check :: "pfx_format \<Rightarrow> gotime \<Rightarrow> addr \<Rightarrow> block_document docstore \<Rightarrow> ip_block option ip_result \<times> block_document docstore" where
  "dl_Check F now a s =
     (case canonicalAddr a of
        Err e \<Rightarrow> (Err e, s)
      | Panic \<Rightarrow> (Panic, s)
      | Ok a \<Rightarrow> map_prod (\<lambda>r. andThen r (\<lambda>set. Ok (block_lookup set a now))) id (dl_load F s))"

definition dl_List :: "pfx_format \<Rightarrow> gotime \<Rightarrow> block_document docstore \<Rightarrow> ip_block list ip_result \<times> block_document docstore" where
  "dl_List F now s = map_prod (\<lambda>r. andThen r (\<lambda>set. Ok (block_list set now))) id (dl_load F s)"

fun dl_step :: "pfx_format \<Rightarrow> ip_op \<Rightarrow> block_document docstore \<Rightarrow> unit ip_result \<times> block_document docstore" where
  "dl_step F (OpBlock now b) s = dl_Block F now b s"
| "dl_step F (OpUnblock now p) s = dl_Unblock F now p s"

section \<open>Simulation\<close>

lemma replace_slash_inject:
  "replace_slash s = replace_slash t \<Longrightarrow> CHR ''_'' \<notin> set s \<Longrightarrow> CHR ''_'' \<notin> set t \<Longrightarrow> s = t"
proof (induction s arbitrary: t rule: replace_slash.induct)
  case (1 t)
  then show ?case by (cases t) (auto split: if_splits)
next
  case (2 c s t)
  then show ?case by (cases t) (auto split: if_splits)
qed

lemma canonical_valid:
  assumes "valid_pfx p" "canonical p = Ok q"
  shows "valid_pfx q \<and> q \<noteq> NoPrefix"
proof -
  have q: "canonical_pfx q" by (rule canonical_Ok [OF assms])
  obtain a n where [simp]: "q = Prefix a n" using q by (cases q) (auto simp: canonical_pfx_def)
  have "q = PrefixFrom a n" using q by (cases a) (auto simp: canonical_pfx_def PrefixFrom_def)
  then show ?thesis unfolding valid_pfx_def by auto
qed

text \<open>The documents of a store are those of the blocks of the map.\<close>

definition dl_inv :: "pfx_format \<Rightarrow> block_document docstore \<Rightarrow> ref_list \<Rightarrow> bool" where
  "dl_inv F s m \<longleftrightarrow> faults s = [] \<and> wf_map (docs s) \<and> ref_inv m \<and> (\<forall>p b. m p = Some b \<longrightarrow> valid_pfx p) \<and>
     set (docs s) = {(documentID F p, toDocument F b) | p b. m p = Some b}"

lemma documentID_inject:
  assumes "pfx_format_law F" "valid_pfx p" "valid_pfx q" "p \<noteq> NoPrefix" "q \<noteq> NoPrefix"
  shows "documentID F p = documentID F q \<longleftrightarrow> p = q"
proof
  assume "documentID F p = documentID F q"
  then have "pf_String F p = pf_String F q"
    using assms replace_slash_inject unfolding pfx_format_law_def documentID_def by blast
  then show "p = q" using assms unfolding pfx_format_law_def by (metis option.inject)
qed simp

lemma dl_lookup:
  assumes law: "pfx_format_law F" and inv: "dl_inv F s m" and p: "valid_pfx p" "p \<noteq> NoPrefix"
  shows "lookup s (documentID F p) = map_option (toDocument F) (m p)"
proof -
  have wf: "wf_map (docs s)" using inv by (simp add: dl_inv_def)
  have set: "set (docs s) = {(documentID F p, toDocument F b) | p b. m p = Some b}" using inv by (simp add: dl_inv_def)
  have inj: "documentID F q = documentID F p \<longleftrightarrow> q = p" if "m q = Some b" for q b
  proof -
    have "valid_pfx q" "q \<noteq> NoPrefix" using that inv by (auto simp: dl_inv_def ref_inv_def canonical_pfx_def)
    then show ?thesis using documentID_inject [OF law] p by blast
  qed
  have "(documentID F p, d) \<in> set (docs s) \<longleftrightarrow> map_option (toDocument F) (m p) = Some d" for d
  proof
    assume "(documentID F p, d) \<in> set (docs s)"
    then obtain q b where q: "documentID F q = documentID F p" "d = toDocument F b" "m q = Some b" unfolding set by auto
    then have "q = p" using inj by blast
    then show "map_option (toDocument F) (m p) = Some d" using q by simp
  next
    assume "map_option (toDocument F) (m p) = Some d"
    then show "(documentID F p, d) \<in> set (docs s)" unfolding set by auto
  qed
  then have "lookup s (documentID F p) = Some d \<longleftrightarrow> map_option (toDocument F) (m p) = Some d" for d
    unfolding lookup_def map_of_eq_Some_iff [OF wf] .
  then show ?thesis by (metis not_None_eq)
qed

lemma fromDocument_toDocument:
  assumes "pfx_format_law F" "valid_pfx (ib_Prefix b)" "canonical_pfx (ib_Prefix b)" "canonical (ib_Prefix b) = Ok (ib_Prefix b)"
  shows "fromDocument F (toDocument F b) = Ok b"
proof -
  have "ib_Prefix b \<noteq> NoPrefix" using assms(3) by (simp add: canonical_pfx_def)
  then have "pf_Parse F (pf_String F (ib_Prefix b)) = Some (ib_Prefix b)"
    using assms(1,2) unfolding pfx_format_law_def by blast
  then show ?thesis using assms(4) by (simp add: fromDocument_def toDocument_def)
qed

lemma valid_blocks_eq: "(\<And>d. d \<in> set ds \<Longrightarrow> fromDocument F d = Ok (g d)) \<Longrightarrow> valid_blocks F ds = map g ds"
  by (induction ds) auto

lemma dl_load_latest:
  assumes law: "pfx_format_law F" and inv: "dl_inv F s m"
  shows "\<exists>bs. dl_load F s = (Ok (newBlockSet bs), s) \<and> latest bs = m"
proof -
  let ?g = "\<lambda>d. case fromDocument F d of Ok b \<Rightarrow> b"
  let ?bs = "map ?g (map snd (docs s))"
  have wf: "wf_map (docs s)" and set: "set (docs s) = {(documentID F p, toDocument F b) | p b. m p = Some b}"
    and ref: "ref_inv m" and vp: "m p = Some b \<Longrightarrow> valid_pfx p" and ff: "faults s = []" for p b
    using inv by (simp_all add: dl_inv_def)
  have rt: "fromDocument F (toDocument F b) = Ok b" if "m p = Some b" for p b
    using fromDocument_toDocument [OF law] vp [OF that] ref that by (simp add: ref_inv_def)
  have "fromDocument F d = Ok (?g d)" if "d \<in> set (map snd (docs s))" for d
    using that rt unfolding set_map set by auto
  then have "valid_blocks F (map snd (docs s)) = ?bs" by (rule valid_blocks_eq)
  then have load: "dl_load F s = (Ok (newBlockSet ?bs), s)" using ff by (simp add: dl_load_def doc_List_def)
  have mem: "b \<in> set ?bs \<longleftrightarrow> (\<exists>p. m p = Some b)" for b
    using rt unfolding set_map set by (force simp: image_iff)
  have "latest ?bs p = m p" for p
  proof (cases "m p")
    case None
    have "ib_Prefix b = p \<Longrightarrow> b \<notin> set ?bs" for b unfolding mem using ref None by (auto simp: ref_inv_def)
    then show ?thesis using latest_Prefix [of ?bs p] None by (cases "latest ?bs p") auto
  next
    case (Some b)
    then have b: "b \<in> set ?bs" "ib_Prefix b = p" using mem ref by (auto simp: ref_inv_def)
    then have "(p, b) \<in> set (rev (map (\<lambda>b. (ib_Prefix b, b)) ?bs))" unfolding set_rev set_map [of "\<lambda>b. (ib_Prefix b, b)"]
      by (intro image_eqI [of _ _ b]) simp_all
    then obtain b' where "latest ?bs p = Some b'" unfolding latest_def by (meson weak_map_of_SomeI)
    then have b': "ib_Prefix b' = p" "b' \<in> set ?bs" using latest_Prefix by blast+
    then obtain q where "m q = Some b'" using mem by blast
    then have "m p = Some b'" using ref b'(1) unfolding ref_inv_def by blast
    then show ?thesis using \<open>latest ?bs p = Some b'\<close> by (simp only:)
  qed
  then show ?thesis using load by blast
qed

lemma set_update: "wf_map xs \<Longrightarrow> set (AList.update k v xs) = insert (k, v) {x \<in> set xs. fst x \<noteq> k}"
  by (induction xs) (auto simp: image_iff)

lemma set_delete: "set (AList.delete k xs) = {x \<in> set xs. fst x \<noteq> k}"
  by (induction xs) auto

lemma dl_step_ref:
  assumes law: "pfx_format_law F" and inv: "dl_inv F s m" and valid: "valid_pfx (op_pfx x)"
  shows "fst (dl_step F x s) = fst (ref_step x m) \<and> dl_inv F (snd (dl_step F x s)) (snd (ref_step x m))"
proof -
  have wf: "wf_map (docs s)" and set: "set (docs s) = {(documentID F p, toDocument F b) | p b. m p = Some b}"
    and ref: "ref_inv m" and vp: "m p = Some b \<Longrightarrow> valid_pfx p" and ff: "faults s = []" for p b
    using inv by (simp_all add: dl_inv_def)
  have ref': "ref_inv (snd (ref_step x m))" using ref_step_inv [OF valid ref] .
  have ids: "documentID F q = documentID F p \<longleftrightarrow> q = p" if "m q = Some b" "valid_pfx p" "p \<noteq> NoPrefix" for p q b
    using documentID_inject [OF law] that vp ref by (auto simp: ref_inv_def canonical_pfx_def)
  show ?thesis
  proof (cases x)
    case (OpBlock now b)
    show ?thesis
    proof (cases "prepare b now")
      case (Ok b')
      let ?p = "ib_Prefix b'"
      have p: "valid_pfx ?p" "?p \<noteq> NoPrefix" using canonical_valid valid prepare_Ok [OF Ok] OpBlock by auto
      have run: "dl_step F x s = (Ok (), put (documentID F ?p) (toDocument F b') s)"
        using OpBlock Ok ff by (simp add: dl_Block_def doc_Set_def)
      have "set (docs (put (documentID F ?p) (toDocument F b') s)) =
          {(documentID F p, toDocument F b) | p b. (m(?p \<mapsto> b')) p = Some b}"
        using ids [OF _ p] by (auto simp: put_def set_update [OF wf] set split: if_splits)
      then show ?thesis using ref' vp p wf ff OpBlock Ok unfolding dl_inv_def run
        by (auto simp: put_def split: if_splits)
    qed (use OpBlock inv in \<open>simp_all add: dl_Block_def\<close>)
  next
    case (OpUnblock now q)
    show ?thesis
    proof (cases "canonical q")
      case (Ok p)
      have p: "valid_pfx p" "p \<noteq> NoPrefix" using canonical_valid valid Ok OpUnblock by auto
      have look: "lookup s (documentID F p) = map_option (toDocument F) (m p)" by (rule dl_lookup [OF law inv p])
      show ?thesis
      proof (cases "m p")
        case None
        then show ?thesis using Ok OpUnblock look ff inv by (simp add: dl_Unblock_def doc_Get_def)
      next
        case (Some b)
        have get: "doc_Get (documentID F p) s = (Ok (toDocument F b), s)" using look Some ff by (simp add: doc_Get_def)
        have del: "doc_Delete (documentID F p) s = (Ok (), s\<lparr>docs := AList.delete (documentID F p) (docs s)\<rparr>)"
          using ff by (simp add: doc_Delete_def)
        have run: "dl_step F x s = (if block_active b now then Ok () else Err ErrNotBlocked,
            s\<lparr>docs := AList.delete (documentID F p) (docs s)\<rparr>)"
          using OpUnblock Ok get del by (auto simp: dl_Unblock_def block_active_def toDocument_def)
        have "set (AList.delete (documentID F p) (docs s)) = {(documentID F r, toDocument F b) | r b. (m(p := None)) r = Some b}"
          using ids [OF _ p] by (auto simp: set_delete set split: if_splits)
        then show ?thesis using ref' vp wf ff OpUnblock Ok Some unfolding dl_inv_def run by auto
      qed
    qed (use OpUnblock inv in \<open>simp_all add: dl_Unblock_def\<close>)
  qed
qed

section \<open>The cache\<close>

text \<open>
  Durations are differences of instants in nanoseconds; \<open>instant\<close> is a clock reading as such a
  number. A load is one call of \<open>src.List\<close> in the background: it starts under the mutex and ends
  under it.
\<close>

record ip_cache =
  ca_ttl :: int
  ca_set :: "block_set option"
  ca_err :: "ip_err option"
  ca_attempted :: int
  ca_loading :: bool

definition newCache :: "int \<Rightarrow> int \<Rightarrow> ip_cache" where
  "newCache ttl zero = \<lparr>ca_ttl = ttl, ca_set = None, ca_err = None, ca_attempted = zero, ca_loading = False\<rparr>"

text \<open>The first section of \<open>current\<close>; the flag tells that it starts a load.\<close>

definition cache_begin :: "int \<Rightarrow> ip_cache \<Rightarrow> bool \<times> ip_cache" where
  "cache_begin now c =
     (if \<not> ca_loading c \<and> now - ca_attempted c \<ge> ca_ttl c
      then (True, c\<lparr>ca_loading := True, ca_attempted := now\<rparr>)
      else (False, c))"

text \<open>What that section answers: a copy, an error, or that the call waits for the load.\<close>

datatype cache_answer = Answer "block_set ip_result" | WaitForLoad

definition cache_answer :: "ip_cache \<Rightarrow> cache_answer" where
  "cache_answer c =
     (case ca_set c of
        Some s \<Rightarrow> Answer (Ok s)
      | None \<Rightarrow> if \<not> ca_loading c then Answer (case ca_err c of None \<Rightarrow> Panic | Some e \<Rightarrow> Err e) else WaitForLoad)"

text \<open>The answer of a call that has waited.\<close>

definition cache_after_wait :: "ip_cache \<Rightarrow> block_set ip_result" where
  "cache_after_wait c =
     (case ca_set c of Some s \<Rightarrow> Ok s | None \<Rightarrow> (case ca_err c of None \<Rightarrow> Panic | Some e \<Rightarrow> Err e))"

definition cache_load :: "ip_block list ip_result \<Rightarrow> ip_cache \<Rightarrow> ip_cache" where
  "cache_load r c =
     (case r of
        Ok blocks \<Rightarrow> c\<lparr>ca_loading := False, ca_set := Some (newBlockSet blocks), ca_err := None\<rparr>
      | Err e \<Rightarrow> c\<lparr>ca_loading := False, ca_err := Some e\<rparr>
      | Panic \<Rightarrow> c)"

text \<open>
  A run of the cache: its clock only grows, a load ends after it has started, and a call that waits goes
  on once a load has ended. The history records the starts of loads and the lists that loads returned,
  latest first, and every answer with the lists loaded by then.
\<close>

record cache_run =
  cr_cache :: ip_cache
  cr_now :: int
  cr_starts :: "int list"
  cr_ended :: nat
  cr_loaded :: "ip_block list list"
  cr_answers :: "(ip_block list list \<times> block_set ip_result) list"

definition cache_run_init :: "int \<Rightarrow> int \<Rightarrow> int \<Rightarrow> cache_run" where
  "cache_run_init ttl zero now =
     \<lparr>cr_cache = newCache ttl zero, cr_now = now, cr_starts = [], cr_ended = 0, cr_loaded = [], cr_answers = []\<rparr>"

definition note_answer :: "cache_run \<Rightarrow> cache_run" where
  "note_answer w =
     (case cache_answer (cr_cache w) of
        Answer r \<Rightarrow> w\<lparr>cr_answers := (cr_loaded w, r) # cr_answers w\<rparr>
      | WaitForLoad \<Rightarrow> w)"

inductive cache_step :: "cache_run \<Rightarrow> cache_run \<Rightarrow> bool" where
  tick: "t \<ge> cr_now w \<Longrightarrow> cache_step w (w\<lparr>cr_now := t\<rparr>)"
| current: "cache_begin (cr_now w) (cr_cache w) = (b, c) \<Longrightarrow>
    cache_step w (note_answer (w\<lparr>cr_cache := c, cr_starts := (if b then cr_now w # cr_starts w else cr_starts w)\<rparr>))"
| loaded: "ca_loading (cr_cache w) \<Longrightarrow>
    cache_step w (w\<lparr>cr_cache := cache_load (Ok bs) (cr_cache w), cr_ended := cr_ended w + 1, cr_loaded := bs # cr_loaded w\<rparr>)"
| failed: "ca_loading (cr_cache w) \<Longrightarrow>
    cache_step w (w\<lparr>cr_cache := cache_load (Err e) (cr_cache w), cr_ended := cr_ended w + 1\<rparr>)"
| waited: "cr_ended w > 0 \<Longrightarrow>
    cache_step w (w\<lparr>cr_answers := (cr_loaded w, cache_after_wait (cr_cache w)) # cr_answers w\<rparr>)"

definition good_answer :: "ip_block list list \<Rightarrow> block_set ip_result \<Rightarrow> bool" where
  "good_answer L r \<longleftrightarrow> (case L of [] \<Rightarrow> (\<exists>e. r = Err e) | bs # _ \<Rightarrow> r = Ok (newBlockSet bs))"

definition cache_inv :: "int \<Rightarrow> cache_run \<Rightarrow> bool" where
  "cache_inv ttl w \<longleftrightarrow> ca_ttl (cr_cache w) = ttl \<and>
     ca_set (cr_cache w) = (case cr_loaded w of [] \<Rightarrow> None | bs # _ \<Rightarrow> Some (newBlockSet bs)) \<and>
     (ca_set (cr_cache w) = None \<and> cr_ended w > 0 \<longrightarrow> ca_err (cr_cache w) \<noteq> None) \<and>
     (cr_ended w = 0 \<and> \<not> ca_loading (cr_cache w) \<longrightarrow> cr_now w - ca_attempted (cr_cache w) \<ge> ttl) \<and>
     (\<forall>t \<in> set (cr_starts w). t \<le> ca_attempted (cr_cache w)) \<and> sorted_wrt (\<lambda>t t'. t - t' \<ge> ttl) (cr_starts w) \<and>
     (\<forall>(L, r) \<in> set (cr_answers w). good_answer L r)"

lemma cache_inv_init: "now - zero \<ge> ttl \<Longrightarrow> cache_inv ttl (cache_run_init ttl zero now)"
  by (simp add: cache_inv_def cache_run_init_def newCache_def)

lemma good_answer_now:
  assumes "cache_inv ttl w"
  shows "cr_ended w > 0 \<Longrightarrow> good_answer (cr_loaded w) (cache_after_wait (cr_cache w))"
    "cr_ended w > 0 \<or> ca_loading (cr_cache w) \<Longrightarrow> cache_answer (cr_cache w) = Answer r \<Longrightarrow> good_answer (cr_loaded w) r"
  using assms unfolding cache_inv_def good_answer_def cache_after_wait_def cache_answer_def
  by (auto split: list.splits option.splits if_splits)

lemma cache_inv_note_answer:
  assumes "cache_inv ttl w" "cr_ended w > 0 \<or> ca_loading (cr_cache w)"
  shows "cache_inv ttl (note_answer w)"
proof (cases "cache_answer (cr_cache w)")
  case (Answer r)
  then show ?thesis using good_answer_now(2) [OF assms Answer] assms(1) by (simp add: note_answer_def cache_inv_def)
qed (use assms in \<open>simp add: note_answer_def\<close>)

lemma cache_inv_step: "cache_step w w' \<Longrightarrow> ttl > 0 \<Longrightarrow> cache_inv ttl w \<Longrightarrow> cache_inv ttl w'"
proof (induction rule: cache_step.induct)
  case (tick w t)
  then show ?case by (auto simp: cache_inv_def)
next
  case (current w b c)
  let ?w = "w\<lparr>cr_cache := c, cr_starts := (if b then cr_now w # cr_starts w else cr_starts w)\<rparr>"
  have "cr_ended ?w > 0 \<or> ca_loading (cr_cache ?w)"
    using current by (auto simp: cache_begin_def cache_inv_def split: if_splits)
  moreover have "cache_inv ttl ?w"
  proof (cases b)
    case True
    then have "c = (cr_cache w)\<lparr>ca_loading := True, ca_attempted := cr_now w\<rparr>"
      "cr_now w - ca_attempted (cr_cache w) \<ge> ttl"
      using current(1,3) by (auto simp: cache_begin_def cache_inv_def split: if_splits)
    then show ?thesis using True current(2,3) by (fastforce simp: cache_inv_def)
  next
    case False
    then show ?thesis using current(1,3) by (auto simp: cache_begin_def split: if_splits)
  qed
  ultimately show ?case using cache_inv_note_answer by blast
next
  case (waited w)
  then show ?case using good_answer_now(1) by (auto simp: cache_inv_def)
qed (auto simp: cache_inv_def cache_load_def)

section \<open>Properties\<close>

text \<open>
  C22 (stored_blocklist_agrees). The blocklist in a document store whose calls succeed answers every
  sequence of blocks and unblocks like the one in memory, and afterwards every check and every listing,
  whatever text form prefixes have, as long as it parses back and has no underscore.
\<close>

theorem stored_blocklist_agrees:
  assumes law: "pfx_format_law F" and valid: "\<forall>x \<in> set ops. valid_pfx (op_pfx x)"
    and mem: "run_ip ml_step ops newMemoryList = (rs, m)"
    and stored: "run_ip (dl_step F) ops \<lparr>docs = [], faults = []\<rparr> = (rs', s)"
  shows "rs' = rs \<and> (\<forall>now a. dl_Check F now a s = (ml_Check now a m, s)) \<and> (\<forall>now. dl_List F now s = (ml_List now m, s))"
proof -
  let ?ref = "snd (run_ip ref_step ops Map.empty)"
  have "dl_inv F \<lparr>docs = [], faults = []\<rparr> Map.empty" by (simp add: dl_inv_def ref_inv_def)
  then have "fst (run_ip (dl_step F) ops \<lparr>docs = [], faults = []\<rparr>) = fst (run_ip ref_step ops Map.empty) \<and>
      dl_inv F (snd (run_ip (dl_step F) ops \<lparr>docs = [], faults = []\<rparr>)) ?ref"
    by (rule run_ip_sim [where R = "dl_inv F" and P = "\<lambda>x. valid_pfx (op_pfx x)", rotated]) (use valid dl_step_ref [OF law] in blast)+
  then have rs': "rs' = fst (run_ip ref_step ops Map.empty)" and inv: "dl_inv F s ?ref" using stored by simp_all
  note ml = run_ml_ref [OF valid, unfolded mem fst_conv snd_conv]
  have ml_inv: "wf_map (ml_blocks m)" "ref_inv ?ref" "ml_set m = newBlockSet (map snd (ml_blocks m))"
    using ml(2,3) by (simp_all add: ml_inv_def)
  have latest_m: "latest (map snd (ml_blocks m)) = ?ref" using latest_values ml_inv(1,2) ml(2) by simp
  obtain bs where bs: "dl_load F s = (Ok (newBlockSet bs), s)" "latest bs = ?ref" using dl_load_latest [OF law inv] by blast
  have can: "\<forall>p \<in> dom ?ref. canonical_pfx p" using ml_inv(2) by (auto simp: ref_inv_def)
  have "block_lookup (newBlockSet bs) a now = block_lookup (ml_set m) a now" if "canonical_addr a" for a now
    using block_lookup_narrowest [OF that, of bs now] block_lookup_narrowest [OF that, of "map snd (ml_blocks m)" now]
      narrowest_unique [OF _ _ that ml_inv(2)] can unfolding bs(2) latest_m ml_inv(3) by blast
  then have "dl_Check F now a s = (ml_Check now a m, s)" for now a
    using canonicalAddr_Ok [of a] bs(1) by (cases "canonicalAddr a") (simp_all add: dl_Check_def ml_Check_def)
  moreover have "dl_List F now s = (ml_List now m, s)" for now
    using block_list_unique [OF bs(2) latest_m ml_inv(2)] bs(1) ml_inv(3) by (simp add: dl_List_def ml_List_def)
  ultimately show ?thesis using rs' ml(1) by simp
qed

text \<open>A text form that satisfies the law: the address in unary.\<close>

fun unary_String :: "pfx \<Rightarrow> string" where
  "unary_String (Prefix (A4 w) n) = CHR ''4'' # replicate (unat w) CHR ''a'' @ CHR ''/'' # replicate n CHR ''b''"
| "unary_String (Prefix (A6 w z) n) = CHR ''6'' # replicate (unat w) CHR ''a'' @ CHR ''/'' # replicate n CHR ''b''"
| "unary_String _ = []"

definition unary_Parse :: "string \<Rightarrow> pfx option" where
  "unary_Parse s =
     (let w = length (takeWhile (\<lambda>c. c = CHR ''a'') (tl s)); n = length (dropWhile (\<lambda>c. c = CHR ''a'') (tl s)) - 1
      in if s = [] then None
         else if hd s = CHR ''4'' then Some (Prefix (A4 (of_nat w)) n) else Some (Prefix (A6 (of_nat w) '''') n))"

lemma unary_format_law: "pfx_format_law \<lparr>pf_String = unary_String, pf_Parse = unary_Parse\<rparr>"
proof -
  have take: "takeWhile (\<lambda>c. c = x) (replicate k x @ y # ys) = replicate k x"
    "dropWhile (\<lambda>c. c = x) (replicate k x @ y # ys) = y # ys" if "y \<noteq> x" for x y :: char and k ys
    using that by (induction k) simp_all
  have "unary_Parse (unary_String p) = Some p \<and> CHR ''_'' \<notin> set (unary_String p)"
    if "p = PrefixFrom a n" "p \<noteq> NoPrefix" for p a n
    using that by (cases a) (auto simp: PrefixFrom_def unary_Parse_def Let_def take split: if_splits)
  then show ?thesis by (auto simp: pfx_format_law_def valid_pfx_def)
qed

theorem stored_blocklist_agrees_witness:
  "\<exists>rs m s. run_ip ml_step sample_ops newMemoryList = (rs, m) \<and>
     run_ip (dl_step \<lparr>pf_String = unary_String, pf_Parse = unary_Parse\<rparr>) sample_ops \<lparr>docs = [], faults = []\<rparr> = (rs, s) \<and>
     (\<forall>now a. fst (dl_Check \<lparr>pf_String = unary_String, pf_Parse = unary_Parse\<rparr> now a s) = ml_Check now a m)"
proof -
  let ?F = "\<lparr>pf_String = unary_String, pf_Parse = unary_Parse\<rparr>"
  obtain rs m where m: "run_ip ml_step sample_ops newMemoryList = (rs, m)" by fastforce
  obtain rs' s where s: "run_ip (dl_step ?F) sample_ops \<lparr>docs = [], faults = []\<rparr> = (rs', s)" by fastforce
  have "\<forall>x \<in> set sample_ops. valid_pfx (op_pfx x)" by (auto simp: sample_ops_def valid_pfx_def)
  from stored_blocklist_agrees [OF unary_format_law this m s] show ?thesis using m s by auto
qed

text \<open>
  C23 (cache_serves_last_load). However calls, loads and the clock interleave, a cache with a positive
  time to live whose clock starts past it answers with the list last loaded once a load has succeeded,
  failed reloads notwithstanding, and with an error, never a panic, before that; its loads start at least
  the time to live apart.
\<close>

theorem cache_serves_last_load:
  assumes "cache_step\<^sup>*\<^sup>* (cache_run_init ttl zero now) w" and "ttl > 0" and "now - zero \<ge> ttl"
  shows "(\<forall>(L, r) \<in> set (cr_answers w). case L of [] \<Rightarrow> (\<exists>e. r = Err e) | bs # _ \<Rightarrow> r = Ok (newBlockSet bs)) \<and>
    sorted_wrt (\<lambda>t t'. t - t' \<ge> ttl) (cr_starts w)"
proof -
  have "cache_inv ttl w"
    using assms(1) by (induction rule: rtranclp_induct) (use assms(2,3) cache_inv_init cache_inv_step in blast)+
  then show ?thesis by (simp add: cache_inv_def good_answer_def)
qed

theorem cache_serves_last_load_witness:
  "\<exists>w. cache_step\<^sup>*\<^sup>* (cache_run_init 60 0 100) w \<and> length (cr_answers w) = 1 \<and>
     (\<forall>(L, r) \<in> set (cr_answers w). r = Ok (newBlockSet []))"
proof -
  let ?w0 = "cache_run_init 60 0 100"
  let ?c1 = "\<lparr>ca_ttl = 60, ca_set = None, ca_err = None, ca_attempted = 100, ca_loading = True\<rparr>"
  let ?w1 = "?w0\<lparr>cr_cache := ?c1, cr_starts := [100]\<rparr>"
  let ?c2 = "?c1\<lparr>ca_loading := False, ca_set := Some (newBlockSet [])\<rparr>"
  let ?w2 = "?w1\<lparr>cr_cache := ?c2, cr_ended := 1, cr_loaded := [[]]\<rparr>"
  let ?w3 = "?w2\<lparr>cr_answers := [([[]], Ok (newBlockSet []))]\<rparr>"
  have "cache_step ?w0 ?w1"
    using current [of ?w0 True ?c1]
    by (simp add: cache_run_init_def newCache_def cache_begin_def note_answer_def cache_answer_def)
  then have "cache_step\<^sup>*\<^sup>* ?w0 ?w1" ..
  moreover have "cache_step ?w1 ?w2"
    using loaded [of ?w1 "[]"] by (simp add: cache_run_init_def cache_load_def)
  ultimately have "cache_step\<^sup>*\<^sup>* ?w0 ?w2" by (rule rtranclp.rtrancl_into_rtrancl)
  moreover have "cache_step ?w2 ?w3"
    using waited [of ?w2] by (simp add: cache_run_init_def cache_after_wait_def)
  ultimately have r: "cache_step\<^sup>*\<^sup>* ?w0 ?w3" by (rule rtranclp.rtrancl_into_rtrancl)
  from cache_serves_last_load [OF r] have "\<forall>(L, r) \<in> set (cr_answers ?w3). r = Ok (newBlockSet [])" by simp
  then show ?thesis using r by (intro exI [of _ ?w3]) simp
qed

end
