(* ===== verification/Iterators.thy ===== *)
theory Iterators
  imports DocInMemory
begin

text \<open>
  Package iterator (\<^verbatim>\<open>iterator/*.go\<close>): iterators as records of operations over a state,
  the combinators on them, and the lists they stand for. A call of \<open>Next\<close> may not return, and
  \<open>app\<close> is the third-party function that merges errors.
\<close>

section \<open>Iterators\<close>

record ('s, 'a, 'e) iterator =
  it_Next :: "'s \<Rightarrow> ('a option \<times> 's) option"
  it_Err :: "'s \<Rightarrow> 'e option"
  it_Close :: "'s \<Rightarrow> 'e option \<times> 's"

definition FromSlice :: "('a list, 'a, 'e) iterator" where
  "FromSlice =
     \<lparr>it_Next = (\<lambda>els. case els of [] \<Rightarrow> Some (None, els) | x # xs \<Rightarrow> Some (Some x, xs)),
      it_Err = (\<lambda>_. None), it_Close = (\<lambda>s. (None, s))\<rparr>"

text \<open>\<open>iterator.Empty\<close> is \<open>FromSlice\<close> of nil.\<close>

definition Empty_els :: "'a list" where
  "Empty_els = []"

definition ErrorIt :: "'e \<Rightarrow> ('s, 'a, 'e) iterator" where
  "ErrorIt e = \<lparr>it_Next = (\<lambda>s. Some (None, s)), it_Err = (\<lambda>_. Some e), it_Close = (\<lambda>s. (None, s))\<rparr>"

text \<open>An iterator over a function, with the errors it has met beside the state of the function.\<close>

definition FromFunc ::
  "('e option \<Rightarrow> 'e \<Rightarrow> 'e) \<Rightarrow> ('s \<Rightarrow> ('a option \<times> 'e option \<times> 's) option) \<Rightarrow> ('s \<Rightarrow> 'e option \<times> 's) \<Rightarrow>
   ('s \<times> 'e option, 'a, 'e) iterator" where
  "FromFunc app fn close =
     \<lparr>it_Next = (\<lambda>(s, e). case fn s of
          None \<Rightarrow> None
        | Some (r, err, s') \<Rightarrow>
            (case err of Some x \<Rightarrow> Some (None, (s', Some (app e x))) | None \<Rightarrow> Some (r, (s', e)))),
      it_Err = snd,
      it_Close = (\<lambda>(s, e). let (r, s') = close s in (r, (s', e)))\<rparr>"

definition MapIt ::
  "('e option \<Rightarrow> 'e \<Rightarrow> 'e) \<Rightarrow> ('s, 'a, 'e) iterator \<Rightarrow> ('a \<Rightarrow> 'b) \<Rightarrow> ('s \<times> 'e option, 'b, 'e) iterator" where
  "MapIt app it fn =
     FromFunc app (\<lambda>s. case it_Next it s of
         None \<Rightarrow> None
       | Some (None, s') \<Rightarrow> Some (None, it_Err it s', s')
       | Some (Some x, s') \<Rightarrow> Some (Some (fn x), None, s')) (it_Close it)"

partial_function (option) filter_next ::
  "('s, 'a, 'e) iterator \<Rightarrow> ('a \<Rightarrow> bool) \<Rightarrow> 's \<Rightarrow> ('a option \<times> 'e option \<times> 's) option" where
  "filter_next it fn s =
     (case it_Next it s of
        None \<Rightarrow> None
      | Some (r, s') \<Rightarrow>
          (case r of
             None \<Rightarrow> Some (None, it_Err it s', s')
           | Some x \<Rightarrow> if fn x then Some (Some x, None, s') else filter_next it fn s'))"

definition FilterIt ::
  "('e option \<Rightarrow> 'e \<Rightarrow> 'e) \<Rightarrow> ('s, 'a, 'e) iterator \<Rightarrow> ('a \<Rightarrow> bool) \<Rightarrow> ('s \<times> 'e option, 'a, 'e) iterator" where
  "FilterIt app it fn = FromFunc app (filter_next it fn) (it_Close it)"

partial_function (option) unslice_next ::
  "('s, 'a list, 'e) iterator \<Rightarrow> 's \<Rightarrow> 'a list \<Rightarrow> ('a option \<times> 's \<times> 'a list) option" where
  "unslice_next it s next_els =
     (case next_els of
        x # xs \<Rightarrow> Some (Some x, s, xs)
      | [] \<Rightarrow>
          (case it_Next it s of
             None \<Rightarrow> None
           | Some (r, s') \<Rightarrow> (case r of None \<Rightarrow> Some (None, s', []) | Some els \<Rightarrow> unslice_next it s' els)))"

definition Unslice :: "('s, 'a list, 'e) iterator \<Rightarrow> ('s \<times> 'a list, 'a, 'e) iterator" where
  "Unslice it =
     \<lparr>it_Next = (\<lambda>(s, els). unslice_next it s els), it_Err = (\<lambda>(s, els). it_Err it s),
      it_Close = (\<lambda>(s, els). let (r, s') = it_Close it s in (r, (s', els)))\<rparr>"

text \<open>
  The remaining iterators of an aggregate with their states, and its errors. One that fails stays at
  the head, closed.
\<close>

partial_function (option) aggregate_next ::
  "('e option \<Rightarrow> 'e \<Rightarrow> 'e) \<Rightarrow> (('s, 'a, 'e) iterator \<times> 's) list \<Rightarrow> 'e option \<Rightarrow>
   ('a option \<times> (('s, 'a, 'e) iterator \<times> 's) list \<times> 'e option) option" where
  "aggregate_next app its err =
     (case its of
        [] \<Rightarrow> Some (None, [], err)
      | (it, s) # rest \<Rightarrow>
          (case it_Next it s of
             None \<Rightarrow> None
           | Some (r, s1) \<Rightarrow>
               (case r of
                  Some x \<Rightarrow> Some (Some x, (it, s1) # rest, err)
                | None \<Rightarrow>
                    (let err = (case it_Err it s1 of None \<Rightarrow> err | Some e \<Rightarrow> Some (app err e));
                         (cerr, s2) = it_Close it s1;
                         err = (case cerr of None \<Rightarrow> err | Some e \<Rightarrow> Some (app err e))
                     in if err \<noteq> None then Some (None, (it, s2) # rest, err)
                        else aggregate_next app rest err))))"

fun close_all :: "('e option \<Rightarrow> 'e \<Rightarrow> 'e) \<Rightarrow> (('s, 'a, 'e) iterator \<times> 's) list \<Rightarrow> 'e option \<Rightarrow>
   'e option \<times> (('s, 'a, 'e) iterator \<times> 's) list" where
  "close_all app [] ret = (ret, [])"
| "close_all app ((it, s) # its) ret =
     (let (e, s') = it_Close it s;
          (r, its') = close_all app its (case e of None \<Rightarrow> ret | Some x \<Rightarrow> Some (app ret x))
      in (r, (it, s') # its'))"

definition Aggregate :: "('e option \<Rightarrow> 'e \<Rightarrow> 'e) \<Rightarrow> ((('s, 'a, 'e) iterator \<times> 's) list \<times> 'e option, 'a, 'e) iterator" where
  "Aggregate app =
     \<lparr>it_Next = (\<lambda>(its, err). aggregate_next app its err), it_Err = snd,
      it_Close = (\<lambda>(its, err). let (r, its') = close_all app its None in (r, (its', err)))\<rparr>"

section \<open>Consumers\<close>

partial_function (option) to_slice :: "('s, 'a, 'e) iterator \<Rightarrow> 'a list \<Rightarrow> 's \<Rightarrow> (('e, 'a list) outcome \<times> 's) option" where
  "to_slice it ret s =
     (case it_Next it s of
        None \<Rightarrow> None
      | Some (r, s') \<Rightarrow>
          (case r of
             None \<Rightarrow> Some (case it_Err it s' of Some e \<Rightarrow> (Err e, s') | None \<Rightarrow> (Ok ret, s'))
           | Some x \<Rightarrow> to_slice it (ret @ [x]) s'))"

definition ToSlice :: "('s, 'a, 'e) iterator \<Rightarrow> 's \<Rightarrow> (('e, 'a list) outcome \<times> 's) option" where
  "ToSlice it s = to_slice it [] s"

text \<open>The result of \<open>Reduce\<close> keeps the value reached beside the error.\<close>

partial_function (option) Reduce ::
  "('s, 'a, 'e) iterator \<Rightarrow> ('v \<Rightarrow> 'a \<Rightarrow> 'v \<times> 'e option) \<Rightarrow> 'v \<Rightarrow> 's \<Rightarrow> (('v \<times> 'e option) \<times> 's) option" where
  "Reduce it reducer ret s =
     (case it_Next it s of
        None \<Rightarrow> None
      | Some (r, s') \<Rightarrow>
          (case r of
             None \<Rightarrow> Some ((ret, it_Err it s'), s')
           | Some x \<Rightarrow>
               (case reducer ret x of
                  (ret', Some e) \<Rightarrow> Some ((ret', Some e), s')
                | (ret', None) \<Rightarrow> Reduce it reducer ret' s')))"

text \<open>
  \<open>IsEmpty\<close> takes the first element: without one it closes the iterator and gives an empty one
  (\<open>None\<close>), otherwise an iterator that gives that element first.
\<close>

definition peeked :: "('e option \<Rightarrow> 'e \<Rightarrow> 'e) \<Rightarrow> ('s, 'a, 'e) iterator \<Rightarrow> (('a option \<times> 's) \<times> 'e option, 'a, 'e) iterator" where
  "peeked app it =
     FromFunc app (\<lambda>(el, s). case el of
         Some x \<Rightarrow> Some (Some x, None, (None, s))
       | None \<Rightarrow>
           (case it_Next it s of
              None \<Rightarrow> None
            | Some (None, s') \<Rightarrow> Some (None, it_Err it s', (None, s'))
            | Some (Some x, s') \<Rightarrow> Some (Some x, None, (None, s'))))
       (\<lambda>(el, s). let (r, s') = it_Close it s in (r, (el, s')))"

definition IsEmpty :: "('s, 'a, 'e) iterator \<Rightarrow> 's \<Rightarrow> (('a option \<times> 's) option \<times> 's) option" where
  "IsEmpty it s =
     (case it_Next it s of
        None \<Rightarrow> None
      | Some (None, s') \<Rightarrow> Some (None, snd (it_Close it s'))
      | Some (Some x, s') \<Rightarrow> Some (Some (Some x, s'), s'))"

section \<open>Over documents\<close>

definition FromDocumentIterator ::
  "('e option \<Rightarrow> 'e \<Rightarrow> 'e) \<Rightarrow> (docerr \<Rightarrow> 'e) \<Rightarrow> ('v, 'b) marshaler \<Rightarrow> ('b list_iterator \<times> 'e option, 'v fields, 'e) iterator" where
  "FromDocumentIterator app err M =
     FromFunc app (\<lambda>it.
       if \<not> HasNext it then Some (None, None, it)
       else (case NextTo M map_ptr it of
               (Ok f, it') \<Rightarrow> Some (Some f, None, it')
             | (Err e, it') \<Rightarrow> Some (None, Some (err e), it')
             | (Panic, it') \<Rightarrow> None))
       (\<lambda>it. (None, it))"

section \<open>The elements an iterator gives\<close>

text \<open>Calling \<open>Next\<close> until it says no gives \<open>xs\<close> and leaves the error \<open>e\<close>.\<close>

inductive runs :: "('s, 'a, 'e) iterator \<Rightarrow> 's \<Rightarrow> 'a list \<Rightarrow> 'e option \<Rightarrow> 's \<Rightarrow> bool" for it where
  stop: "it_Next it s = Some (None, s') \<Longrightarrow> runs it s [] (it_Err it s') s'"
| more: "it_Next it s = Some (Some x, s1) \<Longrightarrow> runs it s1 xs e s' \<Longrightarrow> runs it s (x # xs) e s'"

inductive_cases runs_NilE: "runs it s [] e s'"
inductive_cases runs_ConsE: "runs it s (x # xs) e s'"

lemma runs_det: "runs it s xs e s' \<Longrightarrow> runs it s ys e2 s2 \<Longrightarrow> ys = xs \<and> e2 = e \<and> s2 = s'"
proof (induction arbitrary: ys e2 s2 rule: runs.induct)
  case (stop s s') then show ?case by (auto elim: runs.cases)
next
  case (more s x s1 xs e s')
  from more.prems show ?case
    by (cases rule: runs.cases) (use more.hyps(1) more.IH in auto)
qed

lemma runs_stopI: "it_Next it s = Some (None, s') \<Longrightarrow> e = it_Err it s' \<Longrightarrow> runs it s [] e s'"
  by (simp add: runs.stop)

lemma runs_next_eq: "it_Next it s = it_Next it s1 \<Longrightarrow> runs it s1 xs e s' \<Longrightarrow> runs it s xs e s'"
  by (erule runs.cases) (auto intro: runs.intros)

section \<open>What the combinators give\<close>

lemma runs_FromSlice: "runs FromSlice xs xs None []"
proof (induction xs)
  case Nil
  show ?case using runs.stop [of FromSlice "[]" "[]"] by (simp add: FromSlice_def)
next
  case (Cons x xs)
  then show ?case by (intro runs.more) (simp_all add: FromSlice_def)
qed

lemma runs_MapIt:
  assumes "runs it s xs e s'"
  shows "runs (MapIt app it fn) (s, None) (map fn xs) (map_option (app None) e) (s', map_option (app None) e)"
  using assms
proof (induction rule: runs.induct)
  case (stop s s')
  let ?e = "map_option (app None) (it_Err it s')"
  have "it_Next (MapIt app it fn) (s, None) = Some (None, (s', ?e))"
    using stop by (cases "it_Err it s'") (simp_all add: MapIt_def FromFunc_def)
  from runs.stop [OF this] show ?case by (simp add: MapIt_def FromFunc_def)
next
  case (more s x s1 xs e s')
  then show ?case by (auto intro!: runs.more simp: MapIt_def FromFunc_def)
qed

lemma runs_FilterIt:
  assumes "runs it s xs e s'"
  shows "runs (FilterIt app it fn) (s, None) (filter fn xs) (map_option (app None) e) (s', map_option (app None) e)"
  using assms
proof (induction rule: runs.induct)
  case (stop s s')
  let ?e = "map_option (app None) (it_Err it s')"
  have "it_Next (FilterIt app it fn) (s, None) = Some (None, (s', ?e))"
    using stop by (cases "it_Err it s'") (simp_all add: FilterIt_def FromFunc_def filter_next.simps [of it])
  from runs.stop [OF this] show ?case by (simp add: FilterIt_def FromFunc_def)
next
  case (more s x s1 xs e s')
  show ?case
  proof (cases "fn x")
    case True
    then show ?thesis using more
      by (auto intro!: runs.more simp: FilterIt_def FromFunc_def filter_next.simps [of it fn s])
  next
    case False
    have skip: "it_Next (FilterIt app it fn) (s, None) = it_Next (FilterIt app it fn) (s1, None)"
      using more.hyps(1) False by (simp add: FilterIt_def FromFunc_def filter_next.simps [of it fn s])
    from runs_next_eq [OF skip more.IH] False show ?thesis by simp
  qed
qed

lemma unslice_skip:
  "it_Next it s = Some (Some els, s1) \<Longrightarrow> it_Next (Unslice it) (s, []) = it_Next (Unslice it) (s1, els)"
  by (simp add: Unslice_def unslice_next.simps [of it s])

lemma unslice_held:
  "runs (Unslice it) (s, els) xs e s' \<Longrightarrow> runs (Unslice it) (s, x # els) (x # xs) e s'"
  by (rule runs.more) (simp_all add: Unslice_def unslice_next.simps [of it s "x # els"])

lemma runs_Unslice:
  assumes "runs it s xss e s'"
  shows "runs (Unslice it) (s, els) (els @ concat xss) e (s', [])"
  using assms
proof (induction arbitrary: els rule: runs.induct)
  case (stop s s')
  have "it_Next (Unslice it) (s, []) = Some (None, (s', []))"
    using stop by (simp add: Unslice_def unslice_next.simps [of it s])
  then have nil: "runs (Unslice it) (s, []) [] (it_Err it s') (s', [])"
    by (rule runs_stopI) (simp add: Unslice_def)
  show ?case
    by (induction els) (auto intro!: nil unslice_held)
next
  case (more s x s1 xs e s')
  have nil: "runs (Unslice it) (s, []) (x @ concat xs) e (s', [])"
    by (rule runs_next_eq [OF unslice_skip [OF more.hyps(1)] more.IH])
  show ?case
    by (induction els) (use nil in \<open>auto intro!: unslice_held\<close>)
qed

lemma runs_to_slice:
  assumes "runs it s xs e s'"
  shows "to_slice it acc s = Some (case e of None \<Rightarrow> Ok (acc @ xs) | Some x \<Rightarrow> Err x, s')"
  using assms
proof (induction arbitrary: acc rule: runs.induct)
  case (stop s s')
  then show ?case by (simp add: to_slice.simps [of it acc s] split: option.splits)
next
  case (more s x s1 xs e s')
  then show ?case by (simp add: to_slice.simps [of it acc s] split: option.splits)
qed

lemma runs_ToSlice:
  "runs it s xs e s' \<Longrightarrow> ToSlice it s = Some (case e of None \<Rightarrow> Ok xs | Some x \<Rightarrow> Err x, s')"
  by (simp add: ToSlice_def runs_to_slice [of it s xs e s' "[]"] split: option.splits)

fun reduce_list :: "('v \<Rightarrow> 'a \<Rightarrow> 'v \<times> 'e option) \<Rightarrow> 'v \<Rightarrow> 'a list \<Rightarrow> 'v \<times> 'e option" where
  "reduce_list f v [] = (v, None)"
| "reduce_list f v (x # xs) = (case f v x of (v', Some e) \<Rightarrow> (v', Some e) | (v', None) \<Rightarrow> reduce_list f v' xs)"

lemma runs_Reduce:
  assumes "runs it s xs e s'"
  shows "\<exists>s2. Reduce it f v s = Some ((case reduce_list f v xs of (w, Some x) \<Rightarrow> (w, Some x) | (w, None) \<Rightarrow> (w, e)), s2)"
  using assms
proof (induction arbitrary: v rule: runs.induct)
  case (stop s s')
  then show ?case by (simp add: Reduce.simps [of it f v s])
next
  case (more s x s1 xs e s')
  note unfold = Reduce.simps [of it f v s]
  show ?case
  proof (cases "f v x")
    case (Pair v' r)
    then show ?thesis using more.hyps(1) more.IH [of v'] by (cases r) (simp_all add: unfold)
  qed
qed

text \<open>What an aggregate gives: the elements up to the first iterator that fails or cannot be closed.\<close>

definition merged :: "('e option \<Rightarrow> 'e \<Rightarrow> 'e) \<Rightarrow> 'e option \<Rightarrow> 'e option \<Rightarrow> 'e option" where
  "merged app e c =
     (let err = (case e of None \<Rightarrow> None | Some x \<Rightarrow> Some (app None x))
      in case c of None \<Rightarrow> err | Some x \<Rightarrow> Some (app err x))"

fun in_order :: "('e option \<Rightarrow> 'e \<Rightarrow> 'e) \<Rightarrow> ('a list \<times> 'e option \<times> 'e option) list \<Rightarrow> 'a list \<times> 'e option" where
  "in_order app [] = ([], None)"
| "in_order app ((xs, e, c) # rs) =
     (case merged app e c of
        Some err \<Rightarrow> (xs, Some err)
      | None \<Rightarrow> (let (ys, err) = in_order app rs in (xs @ ys, err)))"

text \<open>An iterator in a state gives a list and an error, and then closes with an error or without.\<close>

definition gives :: "('s, 'a, 'e) iterator \<times> 's \<Rightarrow> 'a list \<times> 'e option \<times> 'e option \<Rightarrow> bool" where
  "gives its r = (case its of (it, s) \<Rightarrow> case r of (xs, e, c) \<Rightarrow>
     \<exists>s'. runs it s xs e s' \<and> fst (it_Close it s') = c)"

lemma aggregate_last:
  assumes "runs it s xs e s'" and "it_Close it s' = (c, s2)" and "merged app e c = Some err"
  shows "\<exists>fin. runs (Aggregate app) ((it, s) # rest, None) xs (Some err) fin"
  using assms
proof (induction rule: runs.induct)
  case (stop s s')
  have "it_Next (Aggregate app) ((it, s) # rest, None) = Some (None, ((it, s2) # rest, Some err))"
    using stop by (simp add: Aggregate_def aggregate_next.simps [of app "_ # _"] merged_def Let_def)
  then show ?case by (intro exI, rule runs_stopI) (simp_all add: Aggregate_def)
next
  case (more s x s1 xs e s')
  then obtain fin where "runs (Aggregate app) ((it, s1) # rest, None) xs (Some err) fin" by blast
  moreover have "it_Next (Aggregate app) ((it, s) # rest, None) = Some (Some x, ((it, s1) # rest, None))"
    using more by (simp add: Aggregate_def aggregate_next.simps [of app "_ # _"])
  ultimately show ?case by (blast intro: runs.more)
qed

lemma aggregate_next_iterator:
  assumes "runs it s xs e s'" and "it_Close it s' = (c, s2)" and "merged app e c = None"
    and rest: "runs (Aggregate app) (rest, None) ys er fin"
  shows "runs (Aggregate app) ((it, s) # rest, None) (xs @ ys) er fin"
  using assms(1-3)
proof (induction rule: runs.induct)
  case (stop s s')
  then have "it_Err it s' = None" "c = None" by (auto simp: merged_def Let_def split: option.splits)
  then have "it_Next (Aggregate app) ((it, s) # rest, None) = it_Next (Aggregate app) (rest, None)"
    using stop by (simp add: Aggregate_def aggregate_next.simps [of app "_ # _"])
  from runs_next_eq [OF this rest] show ?case by simp
next
  case (more s x s1 xs e s')
  have "it_Next (Aggregate app) ((it, s) # rest, None) = Some (Some x, ((it, s1) # rest, None))"
    using more by (simp add: Aggregate_def aggregate_next.simps [of app "_ # _"])
  from runs.more [OF this] more show ?case by simp
qed

lemma runs_Aggregate:
  assumes "list_all2 gives its rs"
  shows "\<exists>fin. runs (Aggregate app) (its, None) (fst (in_order app rs)) (snd (in_order app rs)) fin"
  using assms
proof (induction rule: list_all2_induct)
  case Nil
  have "it_Next (Aggregate app) ([], None) = Some (None, ([], None))"
    by (simp add: Aggregate_def aggregate_next.simps [of app "[]"])
  then have "runs (Aggregate app) ([], None) [] None ([], None)" by (rule runs_stopI) (simp add: Aggregate_def)
  then show ?case by auto
next
  case (Cons i its r rs)
  obtain it s where i: "i = (it, s)" by (cases i)
  obtain xs e c where r: "r = (xs, e, c)" by (cases r)
  from Cons(1) obtain s' where s': "runs it s xs e s'" "fst (it_Close it s') = c"
    by (auto simp: gives_def i r)
  then obtain s2 where close: "it_Close it s' = (c, s2)" by (cases "it_Close it s'") simp
  show ?case
  proof (cases "merged app e c")
    case None
    from Cons(3) obtain fin where
      "runs (Aggregate app) (its, None) (fst (in_order app rs)) (snd (in_order app rs)) fin" by blast
    from aggregate_next_iterator [OF s'(1) close None this] None
    have "runs (Aggregate app) ((it, s) # its, None) (fst (in_order app ((xs, e, c) # rs)))
        (snd (in_order app ((xs, e, c) # rs))) fin"
      by (simp add: case_prod_unfold Let_def)
    then show ?thesis unfolding i r by (rule exI)
  next
    case (Some err)
    from aggregate_last [OF s'(1) close Some] Some show ?thesis by (simp add: i r)
  qed
qed

lemma runs_peeked:
  assumes "runs it s xs e s'"
  shows "runs (peeked app it) ((None, s), None) xs (map_option (app None) e) ((None, s'), map_option (app None) e)"
  using assms
proof (induction rule: runs.induct)
  case (stop s s')
  then show ?case by (intro runs_stopI) (cases "it_Err it s'"; simp add: peeked_def FromFunc_def)+
next
  case (more s x s1 xs e s')
  then show ?case by (auto intro!: runs.more simp: peeked_def FromFunc_def)
qed

section \<open>Properties\<close>

text \<open>
  C27 (pipeline_exact).
  A whole pipeline: blocks of elements from several iterators, aggregated, flattened, filtered,
  mapped and collected. Whatever the iterators are (the source, whether and how each fails, whether
  each closes), if iterator i gives the blocks and the error in r_i, then \<open>ToSlice\<close> returns the image
  of exactly the elements that pass the filter, in order, when none fails; and when one fails, or its
  \<open>Close\<close> does, it returns the error of the first such iterator and no elements.
\<close>

theorem pipeline_exact:
  assumes "list_all2 gives its rs"
  shows "map_option fst (ToSlice (MapIt app (FilterIt app (Unslice (Aggregate app)) keep) fn)
           ((((its, None), []), None), None)) =
         Some (case in_order app rs of
             (xss, None) \<Rightarrow> Ok (map fn (filter keep (concat xss)))
           | (xss, Some e) \<Rightarrow> Err (app None (app None e)))"
proof -
  obtain xss e where rs: "in_order app rs = (xss, e)" by (cases "in_order app rs")
  obtain fin where fin: "runs (Aggregate app) (its, None) xss e fin"
    using runs_Aggregate [OF assms, of app] rs by auto
  note run = runs_ToSlice [OF runs_MapIt [OF runs_FilterIt [OF runs_Unslice [OF fin, of "[]"]]]]
  show ?thesis by (simp add: run rs split: option.splits)
qed

theorem pipeline_exact_witness:
  "map_option fst (ToSlice (MapIt (\<lambda>_ e. e) (FilterIt (\<lambda>_ e. e) (Unslice (Aggregate (\<lambda>_ e. e))) odd) (\<lambda>n. n * 10))
      (((([(FromSlice, [[1, 2], [], [3]]), (FromSlice, [[5]])], None), []), None), None)) =
     Some (Ok [10, 30, 50 :: nat] :: (nat, nat list) outcome) \<and>
   map_option fst (ToSlice (MapIt (\<lambda>_ e. e) (FilterIt (\<lambda>_ e. e) (Unslice (Aggregate (\<lambda>_ e. e))) odd) (\<lambda>n. n * 10))
      (((([(FromSlice, [[1, 2]]), (ErrorIt 404, []), (FromSlice, [[5 :: nat]])], None), []), None), None)) =
     Some (Err 404 :: (nat, nat list) outcome)"
proof -
  have slice: "gives (FromSlice, xss) (xss, None, None)" for xss :: "nat list list"
    by (auto simp: gives_def FromSlice_def intro: runs_FromSlice [unfolded FromSlice_def])
  have fail: "gives (ErrorIt (404 :: nat), [] :: nat list list) ([], Some 404, None)"
    by (auto simp: gives_def ErrorIt_def intro!: runs_stopI)
  have a: "list_all2 gives [(FromSlice, [[1, 2], [], [3]]), (FromSlice, [[5]])]
      [([[1, 2], [], [3]], None, None), ([[5 :: nat]], None, None :: nat option)]"
    by (simp add: slice)
  have b: "list_all2 gives [(FromSlice, [[1, 2]]), (ErrorIt 404, []), (FromSlice, [[5 :: nat]])]
      [([[1, 2]], None, None), ([], Some (404 :: nat), None), ([[5]], None, None)]"
    by (simp add: slice fail)
  show ?thesis
    using pipeline_exact [OF a, of "\<lambda>_ e. e" odd "\<lambda>n. n * 10"] pipeline_exact [OF b, of "\<lambda>_ e. e" odd "\<lambda>n. n * 10"]
    by (simp add: merged_def)
qed

text \<open>
  \<open>IsEmpty\<close>: an iterator with elements is replaced by one that gives the same elements and ends with
  the same error (wrapped), the peeked element included; an iterator without elements is reported
  empty and closed, and the iterator returned in its place ends without an error even when the
  iterator had failed.
\<close>

theorem is_empty_exact:
  assumes "runs it s xs e s'"
  shows "if xs = [] then IsEmpty it s = Some (None, snd (it_Close it s')) \<and>
           (ToSlice FromSlice Empty_els :: (('e, 'a list) outcome \<times> 'a list) option) = Some (Ok [], [])
         else \<exists>first s1 fin. IsEmpty it s = Some (Some first, s1) \<and>
           runs (peeked app it) (first, None) xs (map_option (app None) e) fin"
proof (cases xs)
  case Nil
  with assms have "it_Next it s = Some (None, s')" by (auto elim: runs_NilE)
  moreover have "ToSlice FromSlice (Empty_els :: 'a list) = Some (Ok [], Empty_els)"
    using runs_ToSlice [OF runs_FromSlice [of Empty_els]] by (simp add: Empty_els_def)
  ultimately show ?thesis using Nil by (simp add: IsEmpty_def Empty_els_def)
next
  case (Cons x ys)
  with assms obtain s1 where s1: "it_Next it s = Some (Some x, s1)" "runs it s1 ys e s'"
    by (auto elim: runs_ConsE)
  have "runs (peeked app it) ((Some x, s1), None) (x # ys) (map_option (app None) e)
      ((None, s'), map_option (app None) e)"
    by (rule runs.more [OF _ runs_peeked [OF s1(2)]]) (simp add: peeked_def FromFunc_def)
  then show ?thesis using s1(1) Cons by (auto simp: IsEmpty_def)
qed

theorem is_empty_exact_witness:
  "(\<exists>fin. IsEmpty FromSlice [1, 2 :: nat] = Some (Some (Some 1, [2]), [2]) \<and>
     runs (peeked (\<lambda>_ e. e) (FromSlice :: (nat list, nat, nat) iterator)) ((Some 1, [2]), None) [1, 2] None fin) \<and>
   IsEmpty (ErrorIt 404 :: (unit, nat, nat) iterator) () = Some (None, ())"
proof -
  have fail: "runs (ErrorIt 404 :: (unit, nat, nat) iterator) () [] (Some 404) ()"
    by (auto simp: ErrorIt_def intro!: runs_stopI)
  show ?thesis
    using is_empty_exact [OF runs_FromSlice, of "[1, 2 :: nat]" "\<lambda>_ e. e :: nat"] is_empty_exact [OF fail]
    by (auto simp: IsEmpty_def FromSlice_def)
qed

end
