(* ===== verification/GoText.thy ===== *)
theory GoText
  imports GoTime
begin

text \<open>
  What the program uses of packages strconv and strings: decimal numbers of 64 bits, splitting at a
  separator, upper case, and the lemmas on reading back what was written.
\<close>

section \<open>Numbers and text\<close>

type_synonym bytes = "8 word list"

text \<open>\<open>strconv.Itoa\<close> and \<open>strconv.Atoi\<close>.\<close>

definition Itoa :: "int64 \<Rightarrow> string" where
  "Itoa n = (if sint n < 0 then CHR ''-'' # show_nat (nat (- sint n)) else show_nat (nat (sint n)))"

definition digits_value :: "string \<Rightarrow> nat" where
  "digits_value s = foldl (\<lambda>a c. 10 * a + digit_val c) 0 s"

definition Atoi :: "string \<Rightarrow> int64 option" where
  "Atoi s =
     (let (neg, ds) = (case s of c # cs \<Rightarrow> if c = CHR ''-'' then (True, cs) else if c = CHR ''+'' then (False, cs) else (False, s)
                       | [] \<Rightarrow> (False, s));
          v = (if neg then - int (digits_value ds) else int (digits_value ds))
      in if ds \<noteq> [] \<and> list_all is_digit ds \<and> fits64 v then Some (word_of_int v) else None)"

text \<open>\<open>strings.Split\<close> with a separator of one character.\<close>

fun Split :: "char \<Rightarrow> string \<Rightarrow> string list" where
  "Split c [] = [[]]"
| "Split c (x # s) =
     (if x = c then [] # Split c s
      else (case Split c s of [] \<Rightarrow> [[x]] | t # ts \<Rightarrow> (x # t) # ts))"

text \<open>\<open>strings.ToUpper\<close> on ASCII names.\<close>

definition upper_char :: "char \<Rightarrow> char" where
  "upper_char c = (if of_char c \<in> {97..<123::nat} then char_of (of_char c - 32 :: nat) else c)"

definition ToUpper :: "string \<Rightarrow> string" where
  "ToUpper s = map upper_char s"

section \<open>Numbers read back\<close>

lemma show_nat_digits: "list_all is_digit (show_nat n) \<and> show_nat n \<noteq> []"
proof (induction n rule: show_nat.induct)
  case (1 n)
  then show ?case
    by (cases "n < 10") (simp_all add: show_nat_1 show_nat_step list_all_iff ball_Un)
qed

lemma digits_value_show_nat [simp]: "digits_value (show_nat n) = n"
proof (induction n rule: show_nat.induct)
  case (1 n)
  then show ?case
    by (cases "n < 10") (simp_all add: show_nat_1 show_nat_step digits_value_def)
qed

lemma no_sign: "is_digit c \<Longrightarrow> c \<noteq> CHR ''-'' \<and> c \<noteq> CHR ''+''"
  by (auto simp: is_digit_def)

lemma show_nat_no_minus: "CHR ''-'' \<notin> set (show_nat n)"
  using show_nat_digits [of n] no_sign by (auto simp: list_all_iff)

lemma Atoi_Itoa [simp]: "Atoi (Itoa n) = Some n"
proof (cases "sint n < 0")
  case True
  then show ?thesis using show_nat_digits by (simp add: Atoi_def Itoa_def)
next
  case False
  obtain c cs where ds: "show_nat (nat (sint n)) = c # cs"
    using show_nat_digits [of "nat (sint n)"] by (cases "show_nat (nat (sint n))") auto
  then have "is_digit c" using show_nat_digits [of "nat (sint n)"] by simp
  then have "c \<noteq> CHR ''-''" "c \<noteq> CHR ''+''" using no_sign by blast+
  moreover have "digits_value (c # cs) = nat (sint n)" "list_all is_digit (c # cs)"
    using digits_value_show_nat [of "nat (sint n)"] show_nat_digits [of "nat (sint n)"] unfolding ds by simp_all
  moreover have "Itoa n = c # cs" using False ds by (simp add: Itoa_def)
  ultimately show ?thesis using False unfolding Atoi_def by simp
qed

lemma Itoa_inject: "Itoa a = Itoa b \<longleftrightarrow> a = b"
  by (metis Atoi_Itoa option.inject)

lemma Split_none: "c \<notin> set s \<Longrightarrow> Split c s = [s]"
  by (induction s) auto

lemma Split_nonempty: "Split c s \<noteq> []"
  by (cases s) (auto split: list.splits)

lemma Split_append: "c \<notin> set t \<Longrightarrow> Split c (s @ [c] @ t) = Split c s @ [t]"
proof (induction s)
  case (Cons x s)
  then show ?case using Split_nonempty [of c s] by (auto split: list.splits)
qed (simp add: Split_none)

lemma length_Split: "length (Split c s) = 1 + length (filter ((=) c) s)"
proof (induction s)
  case (Cons x s)
  then show ?case using Split_nonempty [of c s] by (auto split: list.splits)
qed simp

lemma upper_minus: "upper_char c = CHR ''-'' \<longleftrightarrow> c = CHR ''-''"
proof -
  have "upper_char c \<noteq> CHR ''-''" if "of_char c \<in> {97..<123::nat}"
  proof
    assume "upper_char c = CHR ''-''"
    then have eq: "of_char (char_of (of_char c - 32 :: nat) :: char) = (of_char CHR ''-'' :: nat)"
      using that by (simp add: upper_char_def)
    have "(of_char c - 32 :: nat) mod 256 = of_char c - 32" using that by (intro mod_less) auto
    then show False using that eq by auto
  qed
  then show ?thesis by (cases "of_char c \<in> {97..<123::nat}") (auto simp: upper_char_def)
qed

lemma ToUpper_minus: "CHR ''-'' \<in> set (ToUpper p) \<longleftrightarrow> CHR ''-'' \<in> set p"
proof -
  have "CHR ''-'' = upper_char c \<longleftrightarrow> c = CHR ''-''" for c using upper_minus [of c] by metis
  then show ?thesis by (simp add: ToUpper_def image_iff)
qed

end
