(* ===== verification/IssueTracker.thy ===== *)
theory IssueTracker
  imports DocStore Retry GoText
begin

text \<open>
  The issue tracker (\<^verbatim>\<open>issue/document_tracker.go\<close>, \<^verbatim>\<open>issue/report.go\<close>)
  over a store of report documents: reports numbered per package, the retry loop that finds a free
  number, the filters of the listings, and the other operations of the tracker.
\<close>

section \<open>Identifiers\<close>

definition makeID :: "string \<Rightarrow> int64 \<Rightarrow> string" where
  "makeID pkg n = ToUpper pkg @ ''-'' @ Itoa n"

definition parseID :: "string \<Rightarrow> int64 option" where
  "parseID i = (case Split CHR ''-'' i of [_, t] \<Rightarrow> Atoi t | _ \<Rightarrow> None)"

section \<open>Reports\<close>

text \<open>The build information is opaque here; \<open>None\<close> is a nil map.\<close>

record report =
  rp_Package :: string
  rp_Version :: string
  rp_Author :: string
  rp_Subject :: string
  rp_Notes :: string
  rp_Build :: string
  rp_CreatedAt :: gotime
  rp_UpdatedAt :: gotime
  rp_UpdatedBy :: string
  rp_Closed :: bool
  rp_ClosedAt :: gotime
  rp_Metadata :: "(string \<times> string) list option"

definition IsInternalLabel :: "string \<Rightarrow> bool" where
  "IsInternalLabel k \<longleftrightarrow> take 1 k = ''_''"

definition documentTypeReport :: "8 word" where
  "documentTypeReport = 0"

definition ReportMetadataIDField :: string where
  "ReportMetadataIDField = ''_id''"

definition reportMetadataIssueNumberField :: string where
  "reportMetadataIssueNumberField = ''_in''"

definition autoIncrementMaxRetries :: "64 word" where
  "autoIncrementMaxRetries = 1000"

record report_document =
  rdoc_Type :: "8 word"
  rdoc_Report :: report

text \<open>Reading a Go map that may be nil.\<close>

definition md_get :: "report \<Rightarrow> string \<Rightarrow> string option" where
  "md_get r k = (case rp_Metadata r of None \<Rightarrow> None | Some m \<Rightarrow> map_of m k)"

definition rdoc_UpdatedTime :: "report_document \<Rightarrow> gotime" where
  "rdoc_UpdatedTime d = rp_UpdatedAt (rdoc_Report d)"

definition rdoc_WithUpdatedTime :: "gotime \<Rightarrow> report_document \<Rightarrow> report_document" where
  "rdoc_WithUpdatedTime now d = d\<lparr>rdoc_Report := (rdoc_Report d)\<lparr>rp_UpdatedAt := now\<rparr>\<rparr>"

definition rdoc_WithUpdatedBy :: "string \<Rightarrow> report_document \<Rightarrow> report_document" where
  "rdoc_WithUpdatedBy author d = d\<lparr>rdoc_Report := (rdoc_Report d)\<lparr>rp_UpdatedBy := author\<rparr>\<rparr>"

definition rdoc_ID :: "report_document \<Rightarrow> string" where
  "rdoc_ID d = (case md_get (rdoc_Report d) ReportMetadataIDField of None \<Rightarrow> '''' | Some i \<Rightarrow> i)"

definition rdoc_WithID :: "string \<Rightarrow> report_document \<Rightarrow> report_document" where
  "rdoc_WithID i d =
     (let m = (case rp_Metadata (rdoc_Report d) of None \<Rightarrow> [] | Some m \<Rightarrow> m)
      in d\<lparr>rdoc_Report := (rdoc_Report d)\<lparr>rp_Metadata := Some (AList.update ReportMetadataIDField i m)\<rparr>\<rparr>)"

section \<open>Filters\<close>

text \<open>The values in filters of the tracker. Every filter has the operator \<open>OpEqual\<close>.\<close>

datatype filter_value = FVType "8 word" | FVString string | FVBool bool

type_synonym report_filter = "string list \<times> filter_value"

fun user_filter :: "string \<times> string \<Rightarrow> report_filter" where
  "user_filter (k, v) =
     (let ks = Split CHR ''.'' k
      in (''Report'' # ks,
          if ks = [''Closed'']
          then (if v \<in> {''True'', ''true'', ''TRUE''} then FVBool True
                else if v \<in> {''False'', ''false'', ''FALSE''} then FVBool False
                else FVString v)
          else FVString v))"

text \<open>The second component is the map of the caller afterwards.\<close>

definition makeReportFilters ::
  "string \<Rightarrow> (string \<times> string) list option \<Rightarrow> report_filter list \<times> (string \<times> string) list option" where
  "makeReportFilters pkg user =
     (let given = (case user of None \<Rightarrow> [] | Some m \<Rightarrow> m);
          fs = (if map_of given ''Closed'' = None then AList.update ''Closed'' ''false'' given else given)
      in ([([''Type''], FVType documentTypeReport), ([''Report'', ''Package''], FVString pkg)] @ map user_filter fs,
          case user of None \<Rightarrow> None | Some _ \<Rightarrow> Some fs))"

definition addVersionFilter :: "report_filter list \<Rightarrow> string \<Rightarrow> report_filter list" where
  "addVersionFilter fs ver = fs @ [([''Report'', ''Version''], FVString ver)]"

text \<open>The field of a report document at a path, as far as a filter can equal it.\<close>

definition report_value :: "report_document \<Rightarrow> string list \<Rightarrow> filter_value option" where
  "report_value d path =
     (let r = rdoc_Report d in
      if path = [''Type''] then Some (FVType (rdoc_Type d))
      else if path = [''Report'', ''Package''] then Some (FVString (rp_Package r))
      else if path = [''Report'', ''Version''] then Some (FVString (rp_Version r))
      else if path = [''Report'', ''Author''] then Some (FVString (rp_Author r))
      else if path = [''Report'', ''Subject''] then Some (FVString (rp_Subject r))
      else if path = [''Report'', ''Notes''] then Some (FVString (rp_Notes r))
      else if path = [''Report'', ''UpdatedBy''] then Some (FVString (rp_UpdatedBy r))
      else if path = [''Report'', ''Closed''] then Some (FVBool (rp_Closed r))
      else (case path of
              [a, b, k] \<Rightarrow> if a = ''Report'' \<and> b = ''Metadata'' then map_option FVString (md_get r k) else None
            | _ \<Rightarrow> None))"

definition satisfies :: "report_filter list \<Rightarrow> report_document \<Rightarrow> bool" where
  "satisfies fs d \<longleftrightarrow> list_all (\<lambda>(path, v). report_value d path = Some v) fs"

section \<open>The tracker\<close>

datatype issue_err =
  IssueInvalid | IssueExtraneous | IssueStore cerr | IssueFetch issue_err | IssueList cerr
| IssueNotExist string | IssueContext

type_synonym 'a issue_result = "(issue_err, 'a) outcome"

record tracker =
  tk_db :: "report_document docstore"
  tk_lastIssueNumber :: "(string \<times> int64) list"

definition NewDocumentTracker :: "report_document docstore \<Rightarrow> tracker" where
  "NewDocumentTracker db = \<lparr>tk_db = db, tk_lastIssueNumber = []\<rparr>"

text \<open>\<open>list\<close> with its iterator drained.\<close>

definition tk_list :: "report_filter list \<Rightarrow> tracker \<Rightarrow> report list issue_result \<times> tracker" where
  "tk_list fs tk =
     (case doc_List (satisfies fs) (tk_db tk) of
        (Ok ds, db) \<Rightarrow> (Ok (map rdoc_Report ds), tk\<lparr>tk_db := db\<rparr>)
      | (Err e, db) \<Rightarrow> (Err (IssueList e), tk\<lparr>tk_db := db\<rparr>)
      | (Panic, db) \<Rightarrow> (Panic, tk\<lparr>tk_db := db\<rparr>))"

definition ListPackageReports ::
  "string \<Rightarrow> (string \<times> string) list option \<Rightarrow> tracker \<Rightarrow> report list issue_result \<times> tracker" where
  "ListPackageReports pkg user = tk_list (fst (makeReportFilters pkg user))"

definition ListVersionReports ::
  "string \<Rightarrow> string \<Rightarrow> (string \<times> string) list option \<Rightarrow> tracker \<Rightarrow> report list issue_result \<times> tracker" where
  "ListVersionReports pkg ver user = tk_list (addVersionFilter (fst (makeReportFilters pkg user)) ver)"

text \<open>The loop of \<open>fetchLastIssueNumber\<close>; reports without a number are skipped.\<close>

definition issue_number :: "report \<Rightarrow> int64 option" where
  "issue_number r = (case md_get r reportMetadataIssueNumberField of None \<Rightarrow> None | Some s \<Rightarrow> Atoi s)"

fun scan_numbers :: "report list \<Rightarrow> int64 \<Rightarrow> int64" where
  "scan_numbers [] mx = mx"
| "scan_numbers (r # rs) mx =
     scan_numbers rs (case issue_number r of None \<Rightarrow> mx | Some n \<Rightarrow> if sint mx < sint n then n else mx)"

definition fetchLastIssueNumber :: "string \<Rightarrow> tracker \<Rightarrow> int64 issue_result \<times> tracker" where
  "fetchLastIssueNumber pkg tk =
     (case ListPackageReports pkg None tk of
        (Err e, tk) \<Rightarrow> (Err (IssueFetch e), tk)
      | (Panic, tk) \<Rightarrow> (Panic, tk)
      | (Ok rs, tk) \<Rightarrow>
          (let mx = scan_numbers rs 0
           in (Ok mx, tk\<lparr>tk_lastIssueNumber := AList.update pkg mx (tk_lastIssueNumber tk)\<rparr>)))"

definition incomplete :: "report \<Rightarrow> bool" where
  "incomplete r \<longleftrightarrow> rp_Package r = '''' \<or> rp_Author r = '''' \<or> rp_Subject r = ''''"

definition number_metadata :: "string \<Rightarrow> int64 \<Rightarrow> (string \<times> string) list \<Rightarrow> (string \<times> string) list" where
  "number_metadata i n m =
     AList.update reportMetadataIssueNumberField (Itoa n) (AList.update ReportMetadataIDField i m)"

text \<open>
  The variables of the loop of \<open>CreateReport\<close>: the tracker, the number of attempts, the last
  number, the identifier and the metadata of the report, a map shared with the caller. The document
  type has no field of its own for the time of its creation, so the service stamps nothing.
\<close>

type_synonym create_vars = "tracker \<times> nat \<times> int64 \<times> string \<times> (string \<times> string) list"

definition create_attempt :: "report \<Rightarrow> create_vars \<Rightarrow> (bool \<times> unit issue_result) \<times> create_vars" where
  "create_attempt r = (\<lambda>(tk, t, n, _, m).
     (let n = n + 1;
          tk = tk\<lparr>tk_lastIssueNumber := AList.update (rp_Package r) n (tk_lastIssueNumber tk)\<rparr>;
          i = makeID (rp_Package r) n;
          m = number_metadata i n m;
          d = \<lparr>rdoc_Type = documentTypeReport, rdoc_Report = r\<lparr>rp_Metadata := Some m\<rparr>\<rparr>;
          (res, db) = doc_Create id i d (tk_db tk)
      in ((res = Err ErrAlreadyExists, mapErr IssueStore res), (tk\<lparr>tk_db := db\<rparr>, t + 1, n, i, m))))"

text \<open>
  What the context and the timer say, and what other processes do to the store, between the
  attempts.
\<close>

definition create_env ::
  "(nat \<Rightarrow> bool) \<Rightarrow> (nat \<Rightarrow> bool) \<Rightarrow> (nat \<Rightarrow> report_document docstore \<Rightarrow> report_document docstore) \<Rightarrow>
   (issue_err, create_vars) retry_env" where
  "create_env done_ctx fired others =
     \<lparr>ctx_Err = (\<lambda>(tk, t, _). if done_ctx t then Some IssueContext else None),
      wait_for = (\<lambda>sleep (tk, t, vars). (fired t, (tk\<lparr>tk_db := others t (tk_db tk)\<rparr>, t, vars)))\<rparr>"

text \<open>The result, the metadata map of the caller afterwards, and the tracker.\<close>

definition CreateReport ::
  "(issue_err option \<Rightarrow> issue_err \<Rightarrow> issue_err) \<Rightarrow> (issue_err, create_vars) retry_env \<Rightarrow> gotime \<Rightarrow> gotime \<Rightarrow> report \<Rightarrow>
   tracker \<Rightarrow> (string issue_result \<times> (string \<times> string) list option \<times> tracker) option" where
  "CreateReport app E now1 now2 r tk =
     (if incomplete r then Some (Err IssueInvalid, rp_Metadata r, tk)
      else
        (let m = (case rp_Metadata r of None \<Rightarrow> [] | Some m \<Rightarrow> m);
             r = r\<lparr>rp_CreatedAt := (if rp_CreatedAt r = zeroTime then now1 else rp_CreatedAt r), rp_UpdatedAt := now2\<rparr>
         in case (case map_of (tk_lastIssueNumber tk) (rp_Package r) of
                    Some n \<Rightarrow> (Ok n, tk)
                  | None \<Rightarrow> fetchLastIssueNumber (rp_Package r) tk) of
              (Err e, tk) \<Rightarrow> Some (Err e, rp_Metadata r, tk)
            | (Panic, tk) \<Rightarrow> Some (Panic, rp_Metadata r, tk)
            | (Ok n, tk) \<Rightarrow>
                (case Retry app E (LimitStrategy autoIncrementMaxRetries) (create_attempt r) (tk, 0, n, '''', m) of
                   None \<Rightarrow> None
                 | Some (res, (tk, _, _, i, m)) \<Rightarrow>
                     Some (andThen res (\<lambda>_. Ok i), if rp_Metadata r = None then None else Some m, tk))))"

definition GetReport :: "string \<Rightarrow> tracker \<Rightarrow> report issue_result \<times> tracker" where
  "GetReport i tk =
     (case doc_Get i (tk_db tk) of
        (Ok d, db) \<Rightarrow> (Ok (rdoc_Report d), tk\<lparr>tk_db := db\<rparr>)
      | (Err e, db) \<Rightarrow> (Err (IssueStore e), tk\<lparr>tk_db := db\<rparr>)
      | (Panic, db) \<Rightarrow> (Panic, tk\<lparr>tk_db := db\<rparr>))"

definition DeleteReport :: "string \<Rightarrow> tracker \<Rightarrow> unit issue_result \<times> tracker" where
  "DeleteReport i tk =
     (case doc_Get i (tk_db tk) of
        (Err e, db) \<Rightarrow> (Err (IssueStore e), tk\<lparr>tk_db := db\<rparr>)
      | (Panic, db) \<Rightarrow> (Panic, tk\<lparr>tk_db := db\<rparr>)
      | (Ok _, db) \<Rightarrow>
          (let (res, db) = doc_Delete i db in (mapErr IssueStore res, tk\<lparr>tk_db := db\<rparr>)))"

definition CloseReport :: "gotime \<Rightarrow> string \<Rightarrow> tracker \<Rightarrow> unit issue_result \<times> tracker" where
  "CloseReport now i tk =
     (case doc_Modify (\<lambda>d. d\<lparr>rdoc_Report :=
          (rdoc_Report d)\<lparr>rp_Closed := True, rp_ClosedAt := now, rp_UpdatedAt := now\<rparr>\<rparr>) i (tk_db tk) of
        (Ok _, db) \<Rightarrow> (Ok (), tk\<lparr>tk_db := db\<rparr>)
      | (Panic, db) \<Rightarrow> (Panic, tk\<lparr>tk_db := db\<rparr>)
      | (Err e, db) \<Rightarrow>
          (Err (if e = ErrNotFound then IssueNotExist i else IssueStore e), tk\<lparr>tk_db := db\<rparr>))"

definition update_times :: "gotime \<Rightarrow> report \<Rightarrow> report" where
  "update_times now r =
     r\<lparr>rp_UpdatedAt := now,
       rp_CreatedAt := (if rp_CreatedAt r = zeroTime then now else rp_CreatedAt r),
       rp_ClosedAt := (if \<not> rp_Closed r then zeroTime else if rp_ClosedAt r = zeroTime then now else rp_ClosedAt r)\<rparr>"

definition UpdateReport ::
  "gotime \<Rightarrow> string \<Rightarrow> report \<Rightarrow> tracker \<Rightarrow> unit issue_result \<times> (string \<times> string) list option \<times> tracker" where
  "UpdateReport now i r tk =
     (if incomplete r then (Err IssueInvalid, rp_Metadata r, tk)
      else
        (let m = (case rp_Metadata r of None \<Rightarrow> [] | Some m \<Rightarrow> m)
         in case parseID i of
              None \<Rightarrow> (Err IssueExtraneous, rp_Metadata r, tk)
            | Some n \<Rightarrow>
                (let m = number_metadata i n m;
                     d = \<lparr>rdoc_Type = documentTypeReport, rdoc_Report = (update_times now r)\<lparr>rp_Metadata := Some m\<rparr>\<rparr>;
                     (res, db) = doc_Set id i d (tk_db tk)
                 in (mapErr IssueStore res, if rp_Metadata r = None then None else Some m, tk\<lparr>tk_db := db\<rparr>))))"

lemma makeID_inject: "makeID p a = makeID p b \<longleftrightarrow> a = b"
  by (simp add: makeID_def Itoa_inject)

lemma parseID_makeID:
  assumes "0 \<le> sint n"
  shows "parseID (makeID p n) = (if CHR ''-'' \<in> set p then None else Some n)"
proof -
  have it: "CHR ''-'' \<notin> set (Itoa n)" using assms show_nat_no_minus by (simp add: Itoa_def)
  have split: "Split CHR ''-'' (makeID p n) = Split CHR ''-'' (ToUpper p) @ [Itoa n]"
    unfolding makeID_def using Split_append [OF it, of "ToUpper p"] by simp
  show ?thesis
  proof (cases "CHR ''-'' \<in> set p")
    case True
    then have "filter ((=) CHR ''-'') (ToUpper p) \<noteq> []" using ToUpper_minus [of p] by (auto simp: filter_empty_conv)
    then have "length (Split CHR ''-'' (ToUpper p)) \<noteq> 1" by (simp add: length_Split)
    then have "length (Split CHR ''-'' (makeID p n)) \<noteq> 2" by (simp add: split)
    then show ?thesis using True by (auto simp: parseID_def split: list.splits)
  next
    case False
    then show ?thesis using ToUpper_minus [of p] by (simp add: parseID_def split Split_none)
  qed
qed

section \<open>The free number\<close>

lemma number_metadata_map_of:
  "map_of (number_metadata i n m) =
     (map_of m)(ReportMetadataIDField \<mapsto> i, reportMetadataIssueNumberField \<mapsto> Itoa n)"
  by (simp add: number_metadata_def update_conv')

text \<open>An environment that neither stops the loop nor writes to the store.\<close>

definition quiet :: "(issue_err, create_vars) retry_env" where
  "quiet = create_env (\<lambda>_. False) (\<lambda>_. True) (\<lambda>_. id)"

lemma quiet_simps [simp]:
  "ctx_Err quiet v = None" "wait_for quiet sleep (tk, t, v') = (True, (tk, t, v'))"
  by (simp_all add: quiet_def create_env_def split: prod.splits)

text \<open>An attempt at a number that is taken, and one at a free number.\<close>

lemma attempt_taken:
  assumes "faults (tk_db tk) = []" and "lookup (tk_db tk) (makeID (rp_Package r) (n + 1)) \<noteq> None"
  shows "create_attempt r (tk, t, n, i, m) =
    ((True, Err (IssueStore ErrAlreadyExists)),
     (tk\<lparr>tk_lastIssueNumber := AList.update (rp_Package r) (n + 1) (tk_lastIssueNumber tk)\<rparr>, t + 1, n + 1,
      makeID (rp_Package r) (n + 1), number_metadata (makeID (rp_Package r) (n + 1)) (n + 1) m))"
  using assms by (simp add: create_attempt_def doc_Create_def Let_def)

lemma attempt_free:
  assumes "faults (tk_db tk) = []" and "lookup (tk_db tk) (makeID (rp_Package r) (n + 1)) = None"
  shows "create_attempt r (tk, t, n, i, m) =
    (let i' = makeID (rp_Package r) (n + 1); m' = number_metadata i' (n + 1) m
     in ((False, Ok ()),
         (tk\<lparr>tk_lastIssueNumber := AList.update (rp_Package r) (n + 1) (tk_lastIssueNumber tk),
             tk_db := put i' \<lparr>rdoc_Type = documentTypeReport, rdoc_Report = r\<lparr>rp_Metadata := Some m'\<rparr>\<rparr> (tk_db tk)\<rparr>,
          t + 1, n + 1, i', m')))"
  using assms by (simp add: create_attempt_def doc_Create_def Let_def)

text \<open>What the loop leaves when the first free number comes \<open>k\<close> after \<open>n\<close>.\<close>

definition created :: "report \<Rightarrow> int64 \<Rightarrow> (string \<times> string) list \<Rightarrow> tracker \<Rightarrow> create_vars \<Rightarrow> bool" where
  "created r n m tk = (\<lambda>(tk', _, n', i, m'). n' = n \<and> i = makeID (rp_Package r) n \<and>
     map_of m' = (map_of m)(ReportMetadataIDField \<mapsto> i, reportMetadataIssueNumberField \<mapsto> Itoa n) \<and>
     tk' = tk\<lparr>tk_db := put i \<lparr>rdoc_Type = documentTypeReport, rdoc_Report = r\<lparr>rp_Metadata := Some m'\<rparr>\<rparr> (tk_db tk),
              tk_lastIssueNumber := AList.update (rp_Package r) n (tk_lastIssueNumber tk)\<rparr>)"

lemma loop_finds_free:
  assumes "faults (tk_db tk) = []"
    and "\<forall>j \<in> {1..<k}. lookup (tk_db tk) (makeID (rp_Package r) (n + of_nat j)) \<noteq> None"
    and "lookup (tk_db tk) (makeID (rp_Package r) (n + of_nat k)) = None"
    and "1 \<le> k" and "unat c + k \<le> 1000"
  shows "\<exists>v. retry_loop app quiet (LimitStrategy autoIncrementMaxRetries) (create_attempt r) c result (tk, t, n, i, m) =
      Some (Ok (), v) \<and> created r (n + of_nat k) m tk v"
  using assms
proof (induction k arbitrary: c result tk t n i m)
  case (Suc k)
  note unroll = retry_loop.simps [of app quiet _ "create_attempt r" c result "(tk, t, n, i, m)"]
  show ?case
  proof (cases "k = 0")
    case True
    then show ?thesis using attempt_free [OF Suc.prems(1), of r n t i m] Suc.prems(3)
      by (simp add: unroll Let_def created_def number_metadata_map_of)
  next
    case False
    let ?i = "makeID (rp_Package r) (n + 1)"
    let ?tk = "tk\<lparr>tk_lastIssueNumber := AList.update (rp_Package r) (n + 1) (tk_lastIssueNumber tk)\<rparr>"
    let ?m = "number_metadata ?i (n + 1) m"
    have taken: "lookup (tk_db tk) ?i \<noteq> None" using Suc.prems(2) False by (force dest: bspec [of _ _ 1])
    have uc: "unat (c + 1) = unat c + 1" using Suc.prems(5) False by (simp add: unat_word_ariths)
    then have go_on: "\<not> autoIncrementMaxRetries \<le> c + 1"
      using Suc.prems(5) False by (simp add: autoIncrementMaxRetries_def word_le_nat_alt)
    have shift: "n + 1 + of_nat j = n + of_nat (Suc j)" for j by simp
    have strat: "LimitStrategy autoIncrementMaxRetries (c + 1) = (0, False)"
      using go_on by (simp add: LimitStrategy_def)
    have "\<exists>v. retry_loop app quiet (LimitStrategy autoIncrementMaxRetries) (create_attempt r) (c + 1)
        (Some (app result (IssueStore ErrAlreadyExists))) (?tk, t + 1, n + 1, ?i, ?m) = Some (Ok (), v) \<and>
        created r (n + 1 + of_nat k) ?m ?tk v"
    proof (rule Suc.IH)
      show "\<forall>j \<in> {1..<k}. lookup (tk_db ?tk) (makeID (rp_Package r) (n + 1 + of_nat j)) \<noteq> None"
      proof
        fix j assume "j \<in> {1..<k}"
        then have "Suc j \<in> {1..<Suc k}" by simp
        from bspec [OF Suc.prems(2) this] show "lookup (tk_db ?tk) (makeID (rp_Package r) (n + 1 + of_nat j)) \<noteq> None"
          unfolding shift by simp
      qed
      show "lookup (tk_db ?tk) (makeID (rp_Package r) (n + 1 + of_nat k)) = None"
        unfolding shift using Suc.prems(3) by simp
    qed (use Suc.prems(1,5) False uc in auto)
    then obtain v where loop: "retry_loop app quiet (LimitStrategy autoIncrementMaxRetries) (create_attempt r) (c + 1)
        (Some (app result (IssueStore ErrAlreadyExists))) (?tk, t + 1, n + 1, ?i, ?m) = Some (Ok (), v)"
      and v: "created r (n + 1 + of_nat k) ?m ?tk v" by blast
    have "created r (n + of_nat (Suc k)) m tk v"
      using v unfolding shift by (auto simp: created_def number_metadata_map_of split: prod.splits)
    moreover have "retry_loop app quiet (LimitStrategy autoIncrementMaxRetries) (create_attempt r) c result
        (tk, t, n, i, m) = Some (Ok (), v)"
      unfolding unroll attempt_taken [OF Suc.prems(1) taken, of t i m] using loop strat by (simp add: Let_def)
    ultimately show ?thesis by blast
  qed
qed simp

text \<open>The number the loop of a fetch ends with.\<close>

lemma scan_numbers_Max:
  "sint (scan_numbers rs mx) = Max (insert (sint mx) {sint n | n. \<exists>r \<in> set rs. issue_number r = Some n})"
proof (induction rs mx rule: scan_numbers.induct)
  case (2 r rs mx)
  let ?S = "\<lambda>rs. {sint n | n. \<exists>r \<in> set rs. issue_number r = Some n}"
  have fin: "finite (?S rs)"
    by (rule finite_subset [of _ "(\<lambda>r. sint (the (issue_number r))) ` set rs"]) (auto intro: rev_image_eqI)
  show ?case
  proof (cases "issue_number r")
    case None
    then have "?S (r # rs) = ?S rs" by auto
    then show ?thesis using 2 None by simp
  next
    case (Some n)
    have S: "insert (sint mx) (?S (r # rs)) = insert (sint mx) (insert (sint n) (?S rs))" using Some by auto
    have "Max (insert (max (sint mx) (sint n)) (?S rs)) = Max (insert (sint mx) (insert (sint n) (?S rs)))"
      using fin by (cases "?S rs = {}") (auto simp: max.assoc)
    then show ?thesis using 2 Some unfolding S by (auto simp: max_def split: if_splits)
  qed
qed simp

text \<open>
  The number the tracker starts from: the last one it gave for the package, otherwise the largest
  number of an open report.
\<close>

definition start_number :: "string \<Rightarrow> tracker \<Rightarrow> int64" where
  "start_number pkg tk =
     (case map_of (tk_lastIssueNumber tk) pkg of
        Some n \<Rightarrow> n
      | None \<Rightarrow> scan_numbers (map rdoc_Report (filter (\<lambda>d. rdoc_Type d = documentTypeReport \<and>
          rp_Package (rdoc_Report d) = pkg \<and> \<not> rp_Closed (rdoc_Report d)) (map snd (docs (tk_db tk))))) 0)"

lemma default_filters:
  "satisfies (fst (makeReportFilters pkg None)) d \<longleftrightarrow>
     rdoc_Type d = documentTypeReport \<and> rp_Package (rdoc_Report d) = pkg \<and> \<not> rp_Closed (rdoc_Report d)"
  by (auto simp: satisfies_def makeReportFilters_def report_value_def Let_def)

lemma default_satisfies:
  "satisfies (fst (makeReportFilters pkg None)) =
     (\<lambda>d. rdoc_Type d = documentTypeReport \<and> rp_Package (rdoc_Report d) = pkg \<and> \<not> rp_Closed (rdoc_Report d))"
  using default_filters by blast

lemma fetch_start:
  assumes "faults (tk_db tk) = []" and "map_of (tk_lastIssueNumber tk) pkg = None"
  shows "fetchLastIssueNumber pkg tk =
    (Ok (start_number pkg tk), tk\<lparr>tk_lastIssueNumber := AList.update pkg (start_number pkg tk) (tk_lastIssueNumber tk)\<rparr>)"
  using assms
  by (simp add: fetchLastIssueNumber_def ListPackageReports_def tk_list_def doc_List_def default_satisfies
      start_number_def Let_def)

lemma update_same: "map_of al k = Some v \<Longrightarrow> AList.update k v al = al"
  by (induction al) auto

lemma start_of_create:
  assumes "faults (tk_db tk) = []"
  shows "(case map_of (tk_lastIssueNumber tk) pkg of Some n \<Rightarrow> (Ok n, tk) | None \<Rightarrow> fetchLastIssueNumber pkg tk) =
    (Ok (start_number pkg tk), tk\<lparr>tk_lastIssueNumber := AList.update pkg (start_number pkg tk) (tk_lastIssueNumber tk)\<rparr>)"
proof (cases "map_of (tk_lastIssueNumber tk) pkg")
  case (Some n)
  then show ?thesis by (simp add: start_number_def update_same)
qed (simp add: fetch_start [OF assms])

lemma create_run:
  assumes "\<not> incomplete r" and "faults (tk_db tk) = []"
    and r': "r\<lparr>rp_CreatedAt := (if rp_CreatedAt r = zeroTime then now1 else rp_CreatedAt r), rp_UpdatedAt := now2\<rparr> = r'"
    and loop: "Retry app E (LimitStrategy autoIncrementMaxRetries) (create_attempt r')
      (tk\<lparr>tk_lastIssueNumber := AList.update (rp_Package r) (start_number (rp_Package r) tk) (tk_lastIssueNumber tk)\<rparr>,
       0, start_number (rp_Package r) tk, '''', case rp_Metadata r of None \<Rightarrow> [] | Some m \<Rightarrow> m) =
      Some (res, (tk', t, n', i, m))"
  shows "CreateReport app E now1 now2 r tk =
    Some (andThen res (\<lambda>_. Ok i), if rp_Metadata r = None then None else Some m, tk')"
proof -
  have same: "rp_Package r' = rp_Package r" "rp_Metadata r' = rp_Metadata r" using r' by auto
  show ?thesis
    unfolding CreateReport_def Let_def r' same start_of_create [OF assms(2)] using assms(1) loop by simp
qed

lemma fst_doc_Set: "faults s = [] \<Longrightarrow> fst (doc_Set stamp k d s) = Ok ()"
  by (simp add: doc_Set_def)

section \<open>Properties\<close>

text \<open>
  C26 (create_report_first_free). With a store that does not fail and a context that does not end,
  \<open>CreateReport\<close> gives a complete report the first number after the start number whose identifier
  is free, if one of the next thousand is: the report is stored under that identifier with the
  identifier and the number in its metadata, the tracker remembers the number, no other document
  changes. The start number is the last one given for the package or, in a new tracker, the largest
  one of the open reports of the package: closed ones are found by trying.
\<close>

theorem create_report_first_free:
  assumes "\<not> incomplete r" and "faults (tk_db tk) = []"
    and "n = start_number (rp_Package r) tk" and "1 \<le> k" and "k \<le> 1000"
    and "\<forall>j \<in> {1..<k}. lookup (tk_db tk) (makeID (rp_Package r) (n + of_nat j)) \<noteq> None"
    and "lookup (tk_db tk) (makeID (rp_Package r) (n + of_nat k)) = None"
  shows "\<exists>m md. CreateReport app quiet now1 now2 r tk =
    (let i = makeID (rp_Package r) (n + of_nat k);
         r' = r\<lparr>rp_CreatedAt := (if rp_CreatedAt r = zeroTime then now1 else rp_CreatedAt r),
                rp_UpdatedAt := now2, rp_Metadata := Some m\<rparr>
     in Some (Ok i, md,
          \<lparr>tk_db = put i \<lparr>rdoc_Type = documentTypeReport, rdoc_Report = r'\<rparr> (tk_db tk),
           tk_lastIssueNumber = AList.update (rp_Package r) (n + of_nat k) (tk_lastIssueNumber tk)\<rparr>)) \<and>
    map_of m = (\<lambda>key. md_get r key)
      (ReportMetadataIDField \<mapsto> makeID (rp_Package r) (n + of_nat k),
       reportMetadataIssueNumberField \<mapsto> Itoa (n + of_nat k))"
proof -
  let ?r = "r\<lparr>rp_CreatedAt := (if rp_CreatedAt r = zeroTime then now1 else rp_CreatedAt r), rp_UpdatedAt := now2\<rparr>"
  let ?m = "case rp_Metadata r of None \<Rightarrow> [] | Some m \<Rightarrow> m"
  let ?tk = "tk\<lparr>tk_lastIssueNumber := AList.update (rp_Package r) n (tk_lastIssueNumber tk)\<rparr>"
  obtain v where loop: "retry_loop app quiet (LimitStrategy autoIncrementMaxRetries) (create_attempt ?r) 0 None
      (?tk, 0, n, '''', ?m) = Some (Ok (), v)" and v: "created ?r (n + of_nat k) ?m ?tk v"
    using loop_finds_free [of ?tk k ?r n 0 app None 0 "''''" ?m] assms(2,4-7) by auto
  obtain tk' t n' i m where vars: "v = (tk', t, n', i, m)" by (cases v)
  have md: "map_of ?m = md_get r" by (auto simp: md_get_def split: option.splits)
  have run: "CreateReport app quiet now1 now2 r tk =
      Some (Ok i, if rp_Metadata r = None then None else Some m, tk')"
    using create_run [OF assms(1,2) refl, of app quiet now2 now1 "Ok ()" tk' t n' i m] loop
    by (simp add: Retry_def vars assms(3) cong: if_cong)
  have tk': "tk' = \<lparr>tk_db = put i \<lparr>rdoc_Type = documentTypeReport, rdoc_Report = ?r\<lparr>rp_Metadata := Some m\<rparr>\<rparr> (tk_db tk),
      tk_lastIssueNumber = AList.update (rp_Package r) (n + of_nat k) (tk_lastIssueNumber tk)\<rparr>"
    and i: "i = makeID (rp_Package r) (n + of_nat k)"
    and m: "map_of m = (md_get r)(ReportMetadataIDField \<mapsto> i, reportMetadataIssueNumberField \<mapsto> Itoa (n + of_nat k))"
    using v md by (simp_all add: created_def vars)
  show ?thesis
    by (intro exI [of _ m] exI conjI) (use run tk' i m in \<open>simp_all add: Let_def\<close>)
qed

definition sample_report :: report where
  "sample_report = \<lparr>rp_Package = ''blue'', rp_Version = ''1'', rp_Author = ''ann'', rp_Subject = ''crash'', rp_Notes = [],
     rp_Build = [], rp_CreatedAt = zeroTime, rp_UpdatedAt = zeroTime, rp_UpdatedBy = [], rp_Closed = False,
     rp_ClosedAt = zeroTime, rp_Metadata = None\<rparr>"

definition sample_tracker :: tracker where
  "sample_tracker = NewDocumentTracker
     \<lparr>docs = [(''BLUE-1'', \<lparr>rdoc_Type = 0, rdoc_Report = sample_report\<lparr>rp_Closed := True, rp_Metadata := Some [(''_in'', ''1'')]\<rparr>\<rparr>)],
      faults = []\<rparr>"

text \<open>A new tracker over a store whose only report is closed tries its number and takes the next.\<close>

theorem create_report_first_free_witness:
  "\<exists>md tk'. CreateReport (\<lambda>_ e. e) quiet zeroTime zeroTime sample_report sample_tracker = Some (Ok ''BLUE-2'', md, tk')"
proof -
  have it: "Itoa 1 = ''1''" "Itoa 2 = ''2''" by (simp_all add: Itoa_def show_nat_1 digit_def, code_simp+)
  have up: "ToUpper ''blue'' = ''BLUE''" by (simp add: ToUpper_def upper_char_def, code_simp)
  have n: "0 = start_number (rp_Package sample_report) sample_tracker"
    by (simp add: start_number_def sample_tracker_def sample_report_def NewDocumentTracker_def)
  have one: "{1..<2 :: nat} = {1}" by auto
  have taken: "\<forall>j \<in> {1..<2}. lookup (tk_db sample_tracker) (makeID (rp_Package sample_report) (0 + of_nat j)) \<noteq> None"
    unfolding one by (simp add: sample_tracker_def NewDocumentTracker_def sample_report_def lookup_def makeID_def it up)
  have free: "lookup (tk_db sample_tracker) (makeID (rp_Package sample_report) (0 + of_nat 2)) = None"
    by (simp add: sample_tracker_def NewDocumentTracker_def sample_report_def lookup_def makeID_def it up)
  have "\<not> incomplete sample_report" "faults (tk_db sample_tracker) = []"
    by (simp_all add: incomplete_def sample_report_def sample_tracker_def NewDocumentTracker_def)
  from create_report_first_free [OF this n _ _ taken free, of "\<lambda>_ e. e" zeroTime zeroTime]
  show ?thesis by (auto simp: Let_def makeID_def sample_report_def it up)
qed

text \<open>
  The identifier of a report with a number that is not negative is accepted by
  \<open>UpdateReport\<close> exactly when the name of the package has no hyphen: then the complete report is
  written under it with that identifier and number in its metadata. With a hyphen in the name the
  tracker refuses the identifiers it has given itself, and stores nothing.
\<close>

theorem own_ids_parse:
  assumes "\<not> incomplete r" and "0 \<le> sint n"
  shows "let i = makeID (rp_Package r) n;
             m = number_metadata i n (case rp_Metadata r of None \<Rightarrow> [] | Some m \<Rightarrow> m);
             d = \<lparr>rdoc_Type = documentTypeReport, rdoc_Report = (update_times now r)\<lparr>rp_Metadata := Some m\<rparr>\<rparr>
         in UpdateReport now i r tk =
              (if CHR ''-'' \<in> set (rp_Package r) then (Err IssueExtraneous, rp_Metadata r, tk)
               else (mapErr IssueStore (fst (doc_Set id i d (tk_db tk))), if rp_Metadata r = None then None else Some m,
                     tk\<lparr>tk_db := snd (doc_Set id i d (tk_db tk))\<rparr>))"
  using assms by (simp add: UpdateReport_def parseID_makeID Let_def split_beta)

theorem own_ids_parse_witness:
  "fst (UpdateReport zeroTime (makeID ''blue-docs'' 1) (sample_report\<lparr>rp_Package := ''blue-docs''\<rparr>) sample_tracker) =
     Err IssueExtraneous \<and>
   fst (UpdateReport zeroTime (makeID ''blue'' 1) sample_report sample_tracker) = Ok ()"
proof -
  have a: "\<not> incomplete (sample_report\<lparr>rp_Package := ''blue-docs''\<rparr>)" and b: "\<not> incomplete sample_report"
    by (simp_all add: incomplete_def sample_report_def)
  have "faults (tk_db sample_tracker) = []" by (simp add: sample_tracker_def NewDocumentTracker_def)
  then show ?thesis
    using own_ids_parse [OF a, of 1 zeroTime sample_tracker] own_ids_parse [OF b, of 1 zeroTime sample_tracker]
    by (simp add: Let_def split_beta fst_doc_Set sample_report_def)
qed

end
