(* ===== verification/UpspinFile.thy ===== *)
theory UpspinFile
  imports GoText Retry
begin

unbundle bit_operations_syntax

text \<open>
  The in-memory file of package upspin (\<^verbatim>\<open>upspin/file.go\<close>), open for reading and
  writing at once: a slice with its backing array, a reader over a copy of the slice, two offsets. The
  client that fetches and stores contents is third-party code, a record of operations.
\<close>

section \<open>State\<close>

datatype file_err =
  FEOF | FNotExist | FExist | FClosed | FNotWritable | FNegative | FTooLong | FBadOffset | FBadWhence | FReader
| FClient string | FSequence int64 int64

type_synonym 'a file_result = "(file_err, 'a) outcome"

text \<open>
  \<open>uc_Get\<close> gives the contents with the bytes of their array beyond them; \<open>uc_Put\<close> and \<open>uc_Lookup\<close> give
  the sequence number of the entry.
\<close>

record 'c client =
  uc_Get :: "string \<Rightarrow> 'c \<Rightarrow> (bytes \<times> bytes) file_result \<times> 'c"
  uc_Put :: "string \<Rightarrow> bytes \<Rightarrow> 'c \<Rightarrow> int64 file_result \<times> 'c"
  uc_Lookup :: "string \<Rightarrow> 'c \<Rightarrow> int64 file_result \<times> 'c"

text \<open>\<open>bytes.Reader\<close>.\<close>

record bytes_reader =
  br_s :: bytes
  br_i :: int64

text \<open>The slice \<open>data\<close> is the first \<open>f_len\<close> bytes of the array \<open>f_array\<close>, whose length is its capacity.\<close>

record 'c upspin_file =
  f_name :: string
  f_writable :: bool
  f_create :: bool
  f_dirty :: bool
  f_closed :: bool
  f_readOffset :: int64
  f_writeOffset :: int64
  f_reader :: bytes_reader
  f_array :: bytes
  f_len :: nat
  f_lastPutSeqID :: int64
  f_client :: 'c

definition f_data :: "'c upspin_file \<Rightarrow> bytes" where
  "f_data f = take (f_len f) (f_array f)"

section \<open>The reader\<close>

definition br_Read :: "nat \<Rightarrow> bytes_reader \<Rightarrow> bytes file_result \<times> bytes_reader" where
  "br_Read n r =
     (if int (length (br_s r)) \<le> sint (br_i r) then (Err FEOF, r)
      else (let b = take n (drop (nat (sint (br_i r))) (br_s r))
            in (Ok b, r\<lparr>br_i := br_i r + of_nat (length b)\<rparr>)))"

text \<open>With fewer bytes than asked for the reader returns them and the end of the file.\<close>

definition br_ReadAt :: "nat \<Rightarrow> int64 \<Rightarrow> bytes_reader \<Rightarrow> bytes \<times> file_err option" where
  "br_ReadAt n off r =
     (if sint off < 0 then ([], Some FReader)
      else if int (length (br_s r)) \<le> sint off then ([], Some FEOF)
      else (let b = take n (drop (nat (sint off)) (br_s r)) in (b, if length b < n then Some FEOF else None)))"

definition br_Seek :: "int64 \<Rightarrow> int \<Rightarrow> bytes_reader \<Rightarrow> int64 file_result \<times> bytes_reader" where
  "br_Seek offset whence r =
     (if whence \<notin> {0, 1, 2} then (Err FReader, r)
      else (let a = (if whence = 0 then offset else if whence = 1 then br_i r + offset
                     else of_nat (length (br_s r)) + offset)
            in if sint a < 0 then (Err FReader, r) else (Ok a, r\<lparr>br_i := a\<rparr>)))"

section \<open>Operations\<close>

definition O_WRONLY :: "64 word" where
  "O_WRONLY = 1"

definition O_RDWR :: "64 word" where
  "O_RDWR = 2"

definition O_CREATE :: "64 word" where
  "O_CREATE = 64"

definition O_EXCL :: "64 word" where
  "O_EXCL = 128"

definition has_flag :: "64 word \<Rightarrow> 64 word \<Rightarrow> bool" where
  "has_flag flag bits \<longleftrightarrow> flag AND bits = bits"

definition file_Open :: "'c client \<Rightarrow> 'c \<Rightarrow> string \<Rightarrow> 64 word \<Rightarrow> 'c upspin_file file_result" where
  "file_Open U c name flag =
     (let (r, c) = uc_Get U name c;
          create = (flag AND O_CREATE \<noteq> 0);
          opened = (\<lambda>data spare. Ok \<lparr>f_name = name,
             f_writable = (has_flag flag O_RDWR \<or> has_flag flag O_WRONLY), f_create = create,
             f_dirty = True, f_closed = False, f_readOffset = 0, f_writeOffset = of_nat (length data),
             f_reader = \<lparr>br_s = [], br_i = 0\<rparr>, f_array = data @ spare, f_len = length data,
             f_lastPutSeqID = 0, f_client = c\<rparr>)
      in case r of
           Panic \<Rightarrow> Panic
         | Err e \<Rightarrow> if e \<noteq> FNotExist \<or> \<not> create then Err e else opened [] []
         | Ok (data, spare) \<Rightarrow> if create \<and> flag AND O_EXCL \<noteq> 0 then Err FExist else opened data spare)"

definition initRead :: "'c upspin_file \<Rightarrow> file_err option \<times> 'c upspin_file" where
  "initRead f =
     (let (r, rd) = br_Seek (f_readOffset f) 0 \<lparr>br_s = f_data f, br_i = 0\<rparr>;
          f = f\<lparr>f_dirty := False, f_reader := rd\<rparr>
      in case r of Ok n \<Rightarrow> (None, f\<lparr>f_readOffset := n\<rparr>) | Err e \<Rightarrow> (Some e, f) | Panic \<Rightarrow> (None, f))"

definition ready :: "'c upspin_file \<Rightarrow> file_err option \<times> 'c upspin_file" where
  "ready f = (if f_dirty f then initRead f else (None, f))"

definition file_Read :: "nat \<Rightarrow> 'c upspin_file \<Rightarrow> bytes file_result \<times> 'c upspin_file" where
  "file_Read n f =
     (case ready f of
        (Some e, f) \<Rightarrow> (Err e, f)
      | (None, f) \<Rightarrow>
          (case br_Read n (f_reader f) of
             (Ok b, rd) \<Rightarrow> (Ok b, f\<lparr>f_reader := rd, f_readOffset := f_readOffset f + of_nat (length b)\<rparr>)
           | (r, rd) \<Rightarrow> (r, f\<lparr>f_reader := rd\<rparr>)))"

definition file_ReadAt :: "nat \<Rightarrow> int64 \<Rightarrow> 'c upspin_file \<Rightarrow> (bytes \<times> file_err option) \<times> 'c upspin_file" where
  "file_ReadAt n off f =
     (case ready f of
        (Some e, f) \<Rightarrow> (([], Some e), f)
      | (None, f) \<Rightarrow> (br_ReadAt n off (f_reader f), f))"

text \<open>\<open>maxInt\<close> is the largest 64-bit integer: no offset is greater.\<close>

definition file_Seek :: "int64 \<Rightarrow> int \<Rightarrow> 'c upspin_file \<Rightarrow> int64 file_result \<times> 'c upspin_file" where
  "file_Seek offset whence f =
     (if f_closed f then (Err FClosed, f)
      else case ready f of
        (Some e, f) \<Rightarrow> (Err e, f)
      | (None, f) \<Rightarrow>
          if sint (f_writeOffset f + offset) < 0 \<or> sint (f_readOffset f + offset) < 0 \<or> sint maxInt64 < sint offset \<or>
             \<not> f_writable f \<and> int (f_len f) < sint offset
          then (Err FBadOffset, f)
          else if whence \<notin> {0, 1, 2} then (Err FBadWhence, f)
          else (case br_Seek offset whence (f_reader f) of
                  (Ok ret, rd) \<Rightarrow> (Ok ret, f\<lparr>f_reader := rd, f_writeOffset := ret, f_readOffset := ret\<rparr>)
                | (r, rd) \<Rightarrow> (r, f\<lparr>f_reader := rd\<rparr>)))"

text \<open>
  \<open>make\<close> with a length and a capacity panics when the capacity is smaller; reslicing and slicing beyond
  the capacity or the length panics too.
\<close>

definition grow :: "int64 \<Rightarrow> 'c upspin_file \<Rightarrow> 'c upspin_file option" where
  "grow end f =
     (if int (length (f_array f)) < sint end then
        (let nLen = word_of_int (quo (sint (end * 3)) 2) :: int64;
             nLen = (if sint maxInt64 < sint nLen then maxInt64 else nLen)
         in if sint nLen < int (f_len f) then None
            else Some (f\<lparr>f_array := f_data f @ replicate (nat (sint nLen) - f_len f) 0\<rparr>))
      else Some f)"

definition overwrite :: "nat \<Rightarrow> bytes \<Rightarrow> bytes \<Rightarrow> bytes" where
  "overwrite off b xs = take off xs @ b @ drop (off + length b) xs"

definition file_writeAt :: "bytes \<Rightarrow> int64 \<Rightarrow> 'c upspin_file \<Rightarrow> nat file_result \<times> 'c upspin_file" where
  "file_writeAt b off f =
     (if f_closed f then (Err FClosed, f)
      else if \<not> f_writable f then (Err FNotWritable, f)
      else if sint off < 0 then (Err FNegative, f)
      else (let end = off + of_nat (length b)
            in if sint maxInt64 < sint end then (Err FTooLong, f)
               else case grow end (f\<lparr>f_dirty := True\<rparr>) of
                 None \<Rightarrow> (Panic, f\<lparr>f_dirty := True\<rparr>)
               | Some f \<Rightarrow>
                   if int (length (f_array f)) < sint end then (Panic, f)
                   else (let f = (if int (f_len f) < sint end then f\<lparr>f_len := nat (sint end)\<rparr> else f)
                         in if int (f_len f) < sint off then (Panic, f)
                            else (Ok (length b), f\<lparr>f_array :=
                              overwrite (nat (sint off)) (take (f_len f - nat (sint off)) b) (f_array f)\<rparr>))))"

definition file_Write :: "bytes \<Rightarrow> 'c upspin_file \<Rightarrow> nat file_result \<times> 'c upspin_file" where
  "file_Write b f =
     (case file_writeAt b (f_writeOffset f) f of
        (Ok n, f) \<Rightarrow> (Ok n, f\<lparr>f_writeOffset := f_writeOffset f + of_nat n\<rparr>)
      | r \<Rightarrow> r)"

definition file_put :: "'c client \<Rightarrow> 'c upspin_file \<Rightarrow> unit file_result \<times> 'c upspin_file" where
  "file_put U f =
     (case uc_Put U (f_name f) (f_data f) (f_client f) of
        (Ok seq, c) \<Rightarrow> (Ok (), f\<lparr>f_client := c, f_lastPutSeqID := seq\<rparr>)
      | (Err e, c) \<Rightarrow> (Err e, f\<lparr>f_client := c\<rparr>)
      | (Panic, c) \<Rightarrow> (Panic, f\<lparr>f_client := c\<rparr>))"

definition file_sync :: "'c client \<Rightarrow> 'c upspin_file \<Rightarrow> int64 file_result \<times> 'c upspin_file" where
  "file_sync U f =
     (if f_closed f then (Err FClosed, f)
      else if f_writable f \<or> f_len f = 0 \<and> f_create f
      then (case file_put U f of
              (Ok _, f) \<Rightarrow> (Ok (f_lastPutSeqID f), f)
            | (Err e, f) \<Rightarrow> (Err e, f)
            | (Panic, f) \<Rightarrow> (Panic, f))
      else (Err FNotWritable, f))"

definition syncStrategy :: strategy where
  "syncStrategy = CombinedStrategy (LimitStrategy 100) [ExponentialStrategy 1000000 1024000000]"

text \<open>One look at the entry; the state is the file and the sequence number found.\<close>

definition sync_attempt ::
  "'c client \<Rightarrow> int64 \<Rightarrow> 'c upspin_file \<times> int64 option \<Rightarrow> (bool \<times> unit file_result) \<times> 'c upspin_file \<times> int64 option" where
  "sync_attempt U seqID = (\<lambda>(f, ret).
     (case uc_Lookup U (f_name f) (f_client f) of
        (Err e, c) \<Rightarrow> ((e = FNotExist, Err e), (f\<lparr>f_client := c\<rparr>, ret))
      | (Panic, c) \<Rightarrow> ((False, Panic), (f\<lparr>f_client := c\<rparr>, ret))
      | (Ok seq, c) \<Rightarrow>
          if seq \<noteq> seqID then ((True, Err (FSequence seq seqID)), (f\<lparr>f_client := c\<rparr>, ret))
          else ((False, Ok ()), (f\<lparr>f_client := c\<rparr>, Some seq))))"

definition file_Sync ::
  "(file_err option \<Rightarrow> file_err \<Rightarrow> file_err) \<Rightarrow> (file_err, 'c upspin_file \<times> int64 option) retry_env \<Rightarrow> 'c client \<Rightarrow> 'c upspin_file \<Rightarrow>
   (int64 option file_result \<times> 'c upspin_file) option" where
  "file_Sync app E U f =
     (case file_sync U f of
        (Err e, f) \<Rightarrow> Some (Err e, f)
      | (Panic, f) \<Rightarrow> Some (Panic, f)
      | (Ok seqID, f) \<Rightarrow>
          (case Retry app E syncStrategy (sync_attempt U seqID) (f, None) of
             None \<Rightarrow> None
           | Some (r, (f, ret)) \<Rightarrow> Some (andThen r (\<lambda>_. Ok ret), f)))"

text \<open>
  The offsets are cut with \<open>math.Min\<close> on floats, exact here: the smaller of the two is at most the new
  size, which is below the length of the data.
\<close>

definition file_Truncate :: "int64 \<Rightarrow> 'c upspin_file \<Rightarrow> unit file_result \<times> 'c upspin_file" where
  "file_Truncate newSize f =
     (if f_closed f then (Err FClosed, f)
      else if \<not> f_writable f then (Err FNotWritable, f)
      else if int (f_len f) \<le> sint newSize then (Ok (), f)
      else if sint newSize < 0 then (Panic, f\<lparr>f_dirty := True\<rparr>)
      else (let cut = (\<lambda>off. if sint newSize < sint off then newSize else off)
            in (Ok (), f\<lparr>f_dirty := True, f_len := nat (sint newSize),
                 f_writeOffset := cut (f_writeOffset f), f_readOffset := cut (f_readOffset f)\<rparr>)))"

definition file_Close :: "'c client \<Rightarrow> 'c upspin_file \<Rightarrow> unit file_result \<times> 'c upspin_file" where
  "file_Close U f =
     (if f_closed f then (Err FClosed, f)
      else (let f = f\<lparr>f_closed := True\<rparr>
            in if \<not> f_writable f then (Ok (), f)
               else (let (r, f) = file_put U f in (r, f\<lparr>f_array := [], f_len := 0\<rparr>))))"

section \<open>The file as its bytes\<close>

text \<open>
  What a file should be: bytes and two offsets. A write beyond the end fills the gap with zeros. The
  last field remembers that the file has been cut.
\<close>

record ref_file =
  rf_data :: bytes
  rf_r :: nat
  rf_w :: nat
  rf_cut :: bool

datatype file_op =
  FRead nat | FReadAt nat int | FWrite bytes | FWriteAt bytes int | FSeek int int | FTruncate int

datatype file_reply =
  RBytes "bytes file_result" | RAt bytes "file_err option" | RCount "nat file_result" | RPos "int file_result" | RUnit "unit file_result"

definition ref_write :: "nat \<Rightarrow> bytes \<Rightarrow> bytes \<Rightarrow> bytes" where
  "ref_write off b xs = overwrite off b (xs @ replicate (off + length b - length xs) 0)"

fun ref_step :: "file_op \<Rightarrow> ref_file \<Rightarrow> file_reply \<times> ref_file" where
  "ref_step (FRead n) f =
     (if length (rf_data f) \<le> rf_r f then (RBytes (Err FEOF), f)
      else (let b = take n (drop (rf_r f) (rf_data f)) in (RBytes (Ok b), f\<lparr>rf_r := rf_r f + length b\<rparr>)))"
| "ref_step (FReadAt n off) f =
     (if off < 0 then (RAt [] (Some FReader), f)
      else if int (length (rf_data f)) \<le> off then (RAt [] (Some FEOF), f)
      else (let b = take n (drop (nat off) (rf_data f)) in (RAt b (if length b < n then Some FEOF else None), f)))"
| "ref_step (FWrite b) f =
     (RCount (Ok (length b)), f\<lparr>rf_data := ref_write (rf_w f) b (rf_data f), rf_w := rf_w f + length b\<rparr>)"
| "ref_step (FWriteAt b off) f =
     (if off < 0 then (RCount (Err FNegative), f)
      else (RCount (Ok (length b)), f\<lparr>rf_data := ref_write (nat off) b (rf_data f)\<rparr>))"
| "ref_step (FSeek offset whence) f =
     (if int (rf_w f) + offset < 0 \<or> int (rf_r f) + offset < 0 then (RPos (Err FBadOffset), f)
      else if whence \<notin> {0, 1, 2} then (RPos (Err FBadWhence), f)
      else (let a = (if whence = 0 then offset else if whence = 1 then int (rf_r f) + offset
                     else int (length (rf_data f)) + offset)
            in if a < 0 then (RPos (Err FReader), f) else (RPos (Ok a), f\<lparr>rf_r := nat a, rf_w := nat a\<rparr>)))"
| "ref_step (FTruncate n) f =
     (if int (length (rf_data f)) \<le> n then (RUnit (Ok ()), f)
      else (RUnit (Ok ()), f\<lparr>rf_data := take (nat n) (rf_data f), rf_r := min (nat n) (rf_r f),
             rf_w := min (nat n) (rf_w f), rf_cut := True\<rparr>))"

fun file_step :: "file_op \<Rightarrow> 'c upspin_file \<Rightarrow> file_reply \<times> 'c upspin_file" where
  "file_step (FRead n) f = map_prod RBytes id (file_Read n f)"
| "file_step (FReadAt n off) f = map_prod (\<lambda>(b, e). RAt b e) id (file_ReadAt n (word_of_int off) f)"
| "file_step (FWrite b) f = map_prod RCount id (file_Write b f)"
| "file_step (FWriteAt b off) f = map_prod RCount id (file_writeAt b (word_of_int off) f)"
| "file_step (FSeek offset whence) f =
     map_prod (\<lambda>r. RPos (andThen r (\<lambda>n. Ok (sint n)))) id (file_Seek (word_of_int offset) whence f)"
| "file_step (FTruncate n) f = map_prod RUnit id (file_Truncate (word_of_int n) f)"

text \<open>
  Sizes and offsets up to a tebibyte, no negative truncation, and after a truncation no write that
  starts beyond the end.
\<close>

definition file_max :: int where
  "file_max = 1099511627776"

fun op_fits :: "file_op \<Rightarrow> ref_file \<Rightarrow> bool" where
  "op_fits (FRead n) f \<longleftrightarrow> True"
| "op_fits (FReadAt n off) f \<longleftrightarrow> \<bar>off\<bar> \<le> file_max"
| "op_fits (FWrite b) f \<longleftrightarrow> int (length b) \<le> file_max \<and> (rf_cut f \<longrightarrow> rf_w f \<le> length (rf_data f))"
| "op_fits (FWriteAt b off) f \<longleftrightarrow> int (length b) \<le> file_max \<and> \<bar>off\<bar> \<le> file_max \<and>
     (rf_cut f \<longrightarrow> off \<le> int (length (rf_data f)))"
| "op_fits (FSeek offset whence) f \<longleftrightarrow> \<bar>offset\<bar> \<le> file_max"
| "op_fits (FTruncate n) f \<longleftrightarrow> 0 \<le> n \<and> n \<le> file_max"

definition ref_small :: "ref_file \<Rightarrow> bool" where
  "ref_small f \<longleftrightarrow> int (length (rf_data f)) \<le> file_max \<and> int (rf_r f) \<le> file_max \<and> int (rf_w f) \<le> file_max"

fun ref_run :: "file_op list \<Rightarrow> ref_file \<Rightarrow> file_reply list \<times> ref_file" where
  "ref_run [] f = ([], f)"
| "ref_run (x # xs) f = (let (r, f) = ref_step x f; (rs, f) = ref_run xs f in (r # rs, f))"

fun file_run :: "file_op list \<Rightarrow> 'c upspin_file \<Rightarrow> file_reply list \<times> 'c upspin_file" where
  "file_run [] f = ([], f)"
| "file_run (x # xs) f = (let (r, f) = file_step x f; (rs, f) = file_run xs f in (r # rs, f))"

fun run_fits :: "file_op list \<Rightarrow> ref_file \<Rightarrow> bool" where
  "run_fits [] f \<longleftrightarrow> True"
| "run_fits (x # xs) f \<longleftrightarrow> ref_small f \<and> op_fits x f \<and> run_fits xs (snd (ref_step x f))"

section \<open>Refinement\<close>

definition zero_tail :: "'c upspin_file \<Rightarrow> bool" where
  "zero_tail f \<longleftrightarrow> (\<forall>i. f_len f \<le> i \<and> i < length (f_array f) \<longrightarrow> f_array f ! i = 0)"

definition file_sim :: "'c upspin_file \<Rightarrow> ref_file \<Rightarrow> bool" where
  "file_sim f g \<longleftrightarrow> \<not> f_closed f \<and> f_writable f \<and> f_len f \<le> length (f_array f) \<and> rf_data g = f_data f \<and>
     sint (f_readOffset f) = int (rf_r g) \<and> sint (f_writeOffset f) = int (rf_w g) \<and>
     (\<not> f_dirty f \<longrightarrow> br_s (f_reader f) = f_data f \<and> br_i (f_reader f) = f_readOffset f) \<and>
     (\<not> rf_cut g \<longrightarrow> zero_tail f)"

lemma length_f_data: "f_len f \<le> length (f_array f) \<Longrightarrow> length (f_data f) = f_len f"
  by (simp add: f_data_def)

lemma sint_of_nat64: "int n < 9223372036854775808 \<Longrightarrow> sint (of_nat n :: int64) = int n"
  using sint_word_of_int_fits [of "int n"] by (simp add: fits64_def)

lemma sint_plus_of_nat:
  "0 \<le> sint (w :: int64) \<Longrightarrow> sint w + int n < 9223372036854775808 \<Longrightarrow> sint (w + of_nat n) = sint w + int n"
  using sint_of_nat64 [of n] sint_plus_fits [of w "of_nat n"] by (simp add: fits64_def)

lemma grow_ok:
  assumes "f_len f \<le> length (f_array f)" "0 \<le> sint end" "sint end \<le> 2 * file_max" "int (f_len f) \<le> file_max"
  shows "\<exists>f'. grow end f = Some f' \<and> f_data f' = f_data f \<and> f' = f\<lparr>f_array := f_array f'\<rparr> \<and>
    nat (sint end) \<le> length (f_array f') \<and> f_len f \<le> length (f_array f') \<and> (zero_tail f \<longrightarrow> zero_tail f')"
proof (cases "int (length (f_array f)) < sint end")
  case False
  then show ?thesis using assms by (intro exI [of _ f]) (simp add: grow_def)
next
  case True
  have three: "sint (end * 3) = 3 * sint end"
    using sint_word_of_int_fits [of "sint end * 3"] assms(2,3)
    by (simp add: fits64_def file_max_def wi_hom_mult [symmetric])
  let ?n = "word_of_int (quo (sint (end * 3)) 2) :: int64"
  have n: "sint ?n = 3 * sint end div 2"
  proof -
    have "fits64 (3 * sint end div 2)" using assms(2,3) unfolding fits64_def file_max_def by presburger
    then show ?thesis using sint_word_of_int_fits [of "3 * sint end div 2"] assms(2) three by simp
  qed
  have big: "sint end \<le> sint ?n" "\<not> sint maxInt64 < sint ?n"
    unfolding n using assms(2,3) by (simp_all add: maxInt64_def file_max_def)
  let ?f = "f\<lparr>f_array := f_data f @ replicate (nat (sint ?n) - f_len f) 0\<rparr>"
  have len: "length (f_array ?f) = nat (sint ?n)" using True assms(1) big(1) by (simp add: f_data_def)
  have "grow end f = Some ?f" using True big assms(1) by (simp add: grow_def Let_def)
  moreover have "f_data ?f = f_data f" using assms(1) by (simp add: f_data_def)
  moreover have "zero_tail ?f"
    unfolding zero_tail_def using assms(1) by (auto simp: f_data_def nth_append intro!: nth_replicate)
  moreover have "nat (sint end) \<le> length (f_array ?f)" "f_len f \<le> length (f_array ?f)"
    unfolding len using big(1) True assms(1) by linarith+
  ultimately show ?thesis by (intro exI [of _ ?f]) simp
qed

lemma overwrite_data:
  assumes "len \<le> length xs" "off + length b \<le> length xs" "off \<le> len \<or> (\<forall>i. len \<le> i \<and> i < length xs \<longrightarrow> xs ! i = 0)"
  shows "take (max len (off + length b)) (overwrite off b xs) = ref_write off b (take len xs)"
proof (rule nth_equalityI)
  show len: "length (take (max len (off + length b)) (overwrite off b xs)) = length (ref_write off b (take len xs))"
    using assms(1,2) by (auto simp: overwrite_def ref_write_def)
  fix i assume "i < length (take (max len (off + length b)) (overwrite off b xs))"
  then have i: "i < max len (off + length b)" by simp
  let ?ys = "take len xs @ replicate (off + length b - length (take len xs)) 0"
  have ys: "?ys ! i = xs ! i" if "i < len \<or> i < off"
    using that i assms by (auto simp: nth_append)
  have lys: "length ?ys = max len (off + length b)" using assms(1) by auto
  have nth: "overwrite off b zs ! i = (if i < off then zs ! i else if i < off + length b then b ! (i - off) else zs ! i)"
    if "off + length b \<le> length zs" "i < length zs" for zs
    using that by (cases "i < off"; cases "i < off + length b") (auto simp: overwrite_def nth_append min_def)
  have "take (max len (off + length b)) (overwrite off b xs) ! i = overwrite off b xs ! i" using i by simp
  also have "\<dots> = overwrite off b ?ys ! i"
    using nth [of xs] nth [of ?ys] ys i assms(1,2) lys by auto
  finally show "take (max len (off + length b)) (overwrite off b xs) ! i = ref_write off b (take len xs) ! i"
    by (simp add: ref_write_def)
qed

lemma writeAt_ok:
  assumes "\<not> f_closed f" "f_writable f" "f_len f \<le> length (f_array f)" "0 \<le> sint off" "sint off \<le> file_max"
    and "int (length b) \<le> file_max" "int (f_len f) \<le> file_max" and gap: "nat (sint off) \<le> f_len f \<or> zero_tail f"
  shows "\<exists>arr len. file_writeAt b off f = (Ok (length b), f\<lparr>f_dirty := True, f_array := arr, f_len := len\<rparr>) \<and>
    len \<le> length arr \<and> take len arr = ref_write (nat (sint off)) b (f_data f) \<and>
    (zero_tail f \<longrightarrow> zero_tail (f\<lparr>f_dirty := True, f_array := arr, f_len := len\<rparr>))"
proof -
  let ?fin = "off + of_nat (length b)" and ?o = "nat (sint off)" and ?f1 = "f\<lparr>f_dirty := True\<rparr>"
  have e: "sint ?fin = sint off + int (length b)"
    using assms(4-6) by (intro sint_plus_of_nat) (simp_all add: file_max_def)
  then have en: "nat (sint ?fin) = ?o + length b" using assms(4) by simp
  obtain f2 where f2: "grow ?fin ?f1 = Some f2" "f_data f2 = f_data f" "f2 = ?f1\<lparr>f_array := f_array f2\<rparr>"
    "?o + length b \<le> length (f_array f2)" "f_len f \<le> length (f_array f2)" "zero_tail f \<longrightarrow> zero_tail f2"
    using grow_ok [of ?f1 ?fin] assms e en by (auto simp: f_data_def zero_tail_def)
  let ?len = "max (f_len f) (?o + length b)" and ?arr = "overwrite ?o b (f_array f2)"
  have "f_len f2 = f_len (?f1\<lparr>f_array := f_array f2\<rparr>)" using f2(3) by (rule arg_cong)
  then have l2: "f_len f2 = f_len f" by simp
  have fields: "f2\<lparr>f_len := y, f_array := x\<rparr> = f\<lparr>f_dirty := True, f_array := x, f_len := y\<rparr>" for x y
    by (subst f2(3)) simp
  have "file_writeAt b off f = (Ok (length b), f\<lparr>f_dirty := True, f_array := ?arr, f_len := ?len\<rparr>)"
  proof -
    have "\<not> sint off < 0" "\<not> sint maxInt64 < sint ?fin"
      using e assms(4-6) by (simp_all add: maxInt64_def file_max_def)
    moreover have "\<not> int (length (f_array f2)) < sint ?fin" using f2(4) e assms(4) by linarith
    moreover have longer: "(if int (f_len f2) < sint ?fin then f2\<lparr>f_len := nat (sint ?fin)\<rparr> else f2) = f2\<lparr>f_len := ?len\<rparr>"
      unfolding en using l2 e assms(4) by (cases "int (f_len f2) < sint ?fin") (auto simp: max_def)
    moreover have "take (?len - ?o) b = b" "\<not> int ?len < sint off" using assms(4) by simp_all
    ultimately have "file_writeAt b off f = (Ok (length b), f2\<lparr>f_len := ?len, f_array := ?arr\<rparr>)"
      unfolding file_writeAt_def Let_def f2(1) option.case longer
      by (simp add: assms(1,2))
    then show ?thesis unfolding fields .
  qed
  moreover have "?len \<le> length ?arr" using f2(4,5) by (simp add: overwrite_def)
  moreover have "take ?len ?arr = ref_write ?o b (f_data f)"
  proof -
    have "take ?len ?arr = ref_write ?o b (take (f_len f) (f_array f2))"
      using overwrite_data [OF f2(5,4)] gap f2(6) l2 by (auto simp: zero_tail_def)
    then show ?thesis using f2(2) l2 by (simp add: f_data_def)
  qed
  moreover have "zero_tail (f\<lparr>f_dirty := True, f_array := ?arr, f_len := ?len\<rparr>)" if "zero_tail f"
    using f2(4-6) that l2 by (auto simp: zero_tail_def overwrite_def nth_append min_def)
  ultimately show ?thesis by blast
qed

lemma ready_ok:
  assumes "file_sim f g"
  shows "\<exists>f'. ready f = (None, f') \<and> file_sim f' g \<and> \<not> f_dirty f' \<and> br_s (f_reader f') = rf_data g \<and>
    sint (br_i (f_reader f')) = int (rf_r g) \<and> f_writeOffset f' = f_writeOffset f \<and> f_readOffset f' = f_readOffset f \<and>
    f_writable f' \<and> \<not> f_closed f'"
proof (cases "f_dirty f")
  case True
  have "br_Seek (f_readOffset f) 0 \<lparr>br_s = f_data f, br_i = 0\<rparr> =
      (Ok (f_readOffset f), \<lparr>br_s = f_data f, br_i = f_readOffset f\<rparr>)"
    using assms by (simp add: br_Seek_def file_sim_def Let_def)
  then show ?thesis using assms True
    by (simp add: ready_def initRead_def file_sim_def zero_tail_def f_data_def)
next
  case False
  then show ?thesis using assms by (simp add: ready_def file_sim_def)
qed

lemma word_of_int_small:
  "\<bar>i\<bar> \<le> file_max \<Longrightarrow> sint (word_of_int i :: int64) = i"
  by (intro sint_word_of_int_fits) (simp add: fits64_def file_max_def abs_le_iff)

lemma sint_add_small:
  "\<bar>sint (a :: int64)\<bar> \<le> 4 * file_max \<Longrightarrow> \<bar>sint b\<bar> \<le> 4 * file_max \<Longrightarrow> sint (a + b) = sint a + sint b"
  by (intro sint_plus_fits) (simp add: fits64_def file_max_def abs_le_iff)

lemma sim_write:
  assumes sim: "file_sim f g" and small: "ref_small g" and off: "0 \<le> sint off" "sint off \<le> file_max"
    and b: "int (length b) \<le> file_max" and cut: "rf_cut g \<longrightarrow> nat (sint off) \<le> length (rf_data g)"
  shows "\<exists>f'. file_writeAt b off f = (Ok (length b), f') \<and>
    file_sim f' (g\<lparr>rf_data := ref_write (nat (sint off)) b (rf_data g)\<rparr>) \<and> f_writeOffset f' = f_writeOffset f \<and> f_dirty f'"
proof -
  have s: "\<not> f_closed f" "f_writable f" "f_len f \<le> length (f_array f)" "rf_data g = f_data f" "\<not> rf_cut g \<longrightarrow> zero_tail f"
    using sim by (simp_all add: file_sim_def)
  have len: "int (f_len f) \<le> file_max" using small s(3,4) by (simp add: ref_small_def length_f_data)
  have "nat (sint off) \<le> f_len f \<or> zero_tail f" using cut s length_f_data [OF s(3)] by auto
  from writeAt_ok [OF s(1-3) off b len this] obtain arr len where
    w: "file_writeAt b off f = (Ok (length b), f\<lparr>f_dirty := True, f_array := arr, f_len := len\<rparr>)"
      "len \<le> length arr" "take len arr = ref_write (nat (sint off)) b (f_data f)"
      "zero_tail f \<longrightarrow> zero_tail (f\<lparr>f_dirty := True, f_array := arr, f_len := len\<rparr>)" by blast
  have "file_sim (f\<lparr>f_dirty := True, f_array := arr, f_len := len\<rparr>) (g\<lparr>rf_data := ref_write (nat (sint off)) b (rf_data g)\<rparr>)"
    using sim w(2-4) s(5) unfolding file_sim_def by (simp add: f_data_def [of "f\<lparr>f_dirty := True, f_array := arr, f_len := len\<rparr>"])
  then show ?thesis using w(1) by auto
qed

lemma file_step_sim:
  assumes sim: "file_sim f g" and small: "ref_small g" and fits: "op_fits x g"
  shows "fst (file_step x f) = fst (ref_step x g) \<and> file_sim (snd (file_step x f)) (snd (ref_step x g))"
proof -
  have len: "int (length (rf_data g)) \<le> file_max" and r: "int (rf_r g) \<le> file_max" and w: "int (rf_w g) \<le> file_max"
    using small by (simp_all add: ref_small_def)
  obtain f' where f': "ready f = (None, f')" "file_sim f' g" "\<not> f_dirty f'" "br_s (f_reader f') = rf_data g"
    "sint (br_i (f_reader f')) = int (rf_r g)" "f_writeOffset f' = f_writeOffset f" "f_readOffset f' = f_readOffset f"
    "f_writable f'" "\<not> f_closed f'"
    using ready_ok [OF sim] by blast
  have offs: "sint (f_readOffset f) = int (rf_r g)" "sint (f_writeOffset f) = int (rf_w g)" "f_writable f" "\<not> f_closed f"
    "f_len f \<le> length (f_array f)" "rf_data g = f_data f"
    using sim by (simp_all add: file_sim_def)
  show ?thesis
  proof (cases x)
    case (FRead n)
    show ?thesis
    proof (cases "length (rf_data g) \<le> rf_r g")
      case True
      then show ?thesis using FRead f' by (simp add: file_Read_def br_Read_def)
    next
      case False
      let ?b = "take n (drop (rf_r g) (rf_data g))"
      have lb: "rf_r g + length ?b \<le> length (rf_data g)" using False by auto
      have adv: "sint (v + of_nat (length ?b)) = int (rf_r g) + int (length ?b)" if "sint v = int (rf_r g)" for v :: int64
        using that lb len by (subst sint_plus_of_nat) (simp_all add: file_max_def)
      have same: "br_i (f_reader f') = f_readOffset f'" using f'(2,3) by (simp add: file_sim_def)
      have "file_Read n f = (Ok ?b, f'\<lparr>f_reader := (f_reader f')\<lparr>br_i := br_i (f_reader f') + of_nat (length ?b)\<rparr>,
          f_readOffset := f_readOffset f' + of_nat (length ?b)\<rparr>)"
        using False f' by (simp add: file_Read_def br_Read_def Let_def)
      moreover have "file_sim (f'\<lparr>f_reader := (f_reader f')\<lparr>br_i := br_i (f_reader f') + of_nat (length ?b)\<rparr>,
          f_readOffset := f_readOffset f' + of_nat (length ?b)\<rparr>) (g\<lparr>rf_r := rf_r g + length ?b\<rparr>)"
        using f'(2) same adv [of "f_readOffset f'"] offs(1) f'(7) unfolding file_sim_def
        by (simp add: f_data_def zero_tail_def)
      ultimately show ?thesis using FRead False by (simp add: Let_def)
    qed
  next
    case (FReadAt n off)
    then have "sint (word_of_int off :: int64) = off" using fits word_of_int_small by simp
    then show ?thesis using FReadAt f' by (simp add: file_ReadAt_def br_ReadAt_def Let_def)
  next
    case (FWrite b)
    have b: "int (length b) \<le> file_max" "rf_cut g \<longrightarrow> nat (sint (f_writeOffset f)) \<le> length (rf_data g)"
      using fits FWrite offs(2) by simp_all
    obtain f2 where f2: "file_writeAt b (f_writeOffset f) f = (Ok (length b), f2)"
      "file_sim f2 (g\<lparr>rf_data := ref_write (rf_w g) b (rf_data g)\<rparr>)" "f_writeOffset f2 = f_writeOffset f"
      using sim_write [OF sim small _ _ b] offs(2) w by auto
    have "sint (f_writeOffset f2 + of_nat (length b)) = int (rf_w g + length b)"
      using f2(3) offs(2) w b(1) by (subst sint_plus_of_nat) (simp_all add: file_max_def)
    then have "file_sim (f2\<lparr>f_writeOffset := f_writeOffset f2 + of_nat (length b)\<rparr>)
        (g\<lparr>rf_data := ref_write (rf_w g) b (rf_data g), rf_w := rf_w g + length b\<rparr>)"
      using f2(2) unfolding file_sim_def by (simp add: f_data_def zero_tail_def)
    then show ?thesis using FWrite f2(1) by (simp add: file_Write_def)
  next
    case (FWriteAt b off)
    have so: "sint (word_of_int off :: int64) = off" using fits FWriteAt word_of_int_small by simp
    show ?thesis
    proof (cases "off < 0")
      case True
      then show ?thesis using FWriteAt so offs sim by (simp add: file_writeAt_def)
    next
      case False
      have "0 \<le> sint (word_of_int off :: int64)" "sint (word_of_int off :: int64) \<le> file_max" "int (length b) \<le> file_max"
        "rf_cut g \<longrightarrow> nat (sint (word_of_int off :: int64)) \<le> length (rf_data g)"
        using False fits FWriteAt so by auto
      from sim_write [OF sim small this] obtain f2 where
        "file_writeAt b (word_of_int off) f = (Ok (length b), f2)" "file_sim f2 (g\<lparr>rf_data := ref_write (nat off) b (rf_data g)\<rparr>)"
        unfolding so by blast
      then show ?thesis using False FWriteAt by simp
    qed
  next
    case (FTruncate n)
    have n: "sint (word_of_int n :: int64) = n" "0 \<le> n" using fits FTruncate word_of_int_small by simp_all
    have l: "f_len f = length (rf_data g)" using offs(5,6) length_f_data by metis
    show ?thesis
    proof (cases "int (f_len f) \<le> n")
      case True
      then show ?thesis using FTruncate n offs sim l by (simp add: file_Truncate_def)
    next
      case False
      let ?cut = "\<lambda>v :: int64. if sint (word_of_int n :: int64) < sint v then word_of_int n else v"
      have c: "sint (?cut v) = int (min (nat n) k)" if "sint v = int k" for v k using that n by auto
      have "file_sim (f\<lparr>f_dirty := True, f_len := nat n, f_writeOffset := ?cut (f_writeOffset f), f_readOffset := ?cut (f_readOffset f)\<rparr>)
          (g\<lparr>rf_data := take (nat n) (rf_data g), rf_r := min (nat n) (rf_r g), rf_w := min (nat n) (rf_w g), rf_cut := True\<rparr>)"
      proof -
        have "nat n \<le> f_len f" using False n(2) by linarith
        then have "take (nat n) (take (f_len f) (f_array f)) = take (nat n) (f_array f)" by simp
        then show ?thesis
          using sim c [OF offs(1)] c [OF offs(2)] \<open>nat n \<le> f_len f\<close> unfolding file_sim_def f_data_def by auto
      qed
      then show ?thesis using FTruncate False n l offs by (simp add: file_Truncate_def Let_def)
    qed
  next
    case (FSeek offset whence)
    have so: "sint (word_of_int offset :: int64) = offset" "\<bar>offset\<bar> \<le> file_max" using fits FSeek word_of_int_small by simp_all
    let ?o = "word_of_int offset :: int64"
    have add: "sint (v + ?o) = int k + offset" if "sint v = int k" "int k \<le> file_max" for v k
      using sint_add_small [of v ?o] that so by (simp add: file_max_def)
    have eof: "sint (of_nat (length (rf_data g)) + ?o) = int (length (rf_data g)) + offset"
      using add [OF sint_of_nat64 len] len by (simp add: file_max_def)
    have nomax: "\<not> sint maxInt64 < sint ?o" using sint64_bounds [of ?o] by (simp add: maxInt64_def)
    have checks: "sint (f_writeOffset f' + ?o) = int (rf_w g) + offset" "sint (f_readOffset f' + ?o) = int (rf_r g) + offset"
      "sint (br_i (f_reader f') + ?o) = int (rf_r g) + offset"
      using add offs f'(5-7) r w by simp_all
    let ?a = "if whence = 0 then offset else if whence = 1 then int (rf_r g) + offset else int (length (rf_data g)) + offset"
    let ?aw = "if whence = 0 then ?o else if whence = 1 then br_i (f_reader f') + ?o else of_nat (length (rf_data g)) + ?o"
    have a: "sint ?aw = ?a" using checks(3) eof so by simp
    show ?thesis
    proof (cases "int (rf_w g) + offset < 0 \<or> int (rf_r g) + offset < 0")
      case True
      then have "file_Seek ?o whence f = (Err FBadOffset, f')"
        unfolding file_Seek_def f'(1) using offs(4) checks(1,2) by auto
      then show ?thesis using FSeek True f'(2) by simp
    next
      case False
      have seek: "file_Seek ?o whence f = (if whence \<notin> {0, 1, 2} then (Err FBadWhence, f')
          else (case br_Seek ?o whence (f_reader f') of
                  (Ok ret, rd) \<Rightarrow> (Ok ret, f'\<lparr>f_reader := rd, f_writeOffset := ret, f_readOffset := ret\<rparr>)
                | (r, rd) \<Rightarrow> (r, f'\<lparr>f_reader := rd\<rparr>)))"
        unfolding file_Seek_def f'(1) using offs(4) checks(1,2) nomax f'(8) False by simp
      have br: "br_Seek ?o whence (f_reader f') = (if ?a < 0 then (Err FReader, f_reader f')
          else (Ok ?aw, (f_reader f')\<lparr>br_i := ?aw\<rparr>))" if "whence \<in> {0, 1, 2}"
        unfolding br_Seek_def f'(4) Let_def a [symmetric] using that by simp
      show ?thesis
      proof (cases "whence \<notin> {0, 1, 2} \<or> ?a < 0")
        case True
        then show ?thesis
        proof (cases "whence \<in> {0, 1, 2}")
          case in_range: True
          with True have "?a < 0" by blast
          then have "file_Seek ?o whence f = (Err FReader, f')" unfolding seek br [OF in_range] using in_range by simp
          moreover have "ref_step (FSeek offset whence) g = (RPos (Err FReader), g)"
            unfolding ref_step.simps Let_def using False in_range \<open>?a < 0\<close> by (simp only: if_False if_True HOL.simp_thms)
          ultimately show ?thesis using FSeek f'(2) by simp
        next
          case out: False
          then have "file_Seek ?o whence f = (Err FBadWhence, f')" unfolding seek by simp
          moreover have "ref_step (FSeek offset whence) g = (RPos (Err FBadWhence), g)"
            unfolding ref_step.simps using False out by (simp only: if_False if_True HOL.simp_thms)
          ultimately show ?thesis using FSeek f'(2) by simp
        qed
      next
        case good: False
        then have w3: "whence \<in> {0, 1, 2}" "\<not> ?a < 0" by blast+
      have "file_Seek ?o whence f = (Ok ?aw, f'\<lparr>f_reader := (f_reader f')\<lparr>br_i := ?aw\<rparr>, f_writeOffset := ?aw, f_readOffset := ?aw\<rparr>)"
        unfolding seek br [OF w3(1)] using w3 by (simp only: if_False if_True HOL.simp_thms prod.case outcome.case)
      moreover have "file_sim (f'\<lparr>f_reader := (f_reader f')\<lparr>br_i := ?aw\<rparr>, f_writeOffset := ?aw, f_readOffset := ?aw\<rparr>)
          (g\<lparr>rf_r := nat ?a, rf_w := nat ?a\<rparr>)"
        using f'(2,3) a w3(2) unfolding file_sim_def by (simp add: f_data_def zero_tail_def)
      moreover have "ref_step (FSeek offset whence) g = (RPos (Ok ?a), g\<lparr>rf_r := nat ?a, rf_w := nat ?a\<rparr>)"
        unfolding ref_step.simps Let_def using False w3 by (simp only: if_False if_True HOL.simp_thms)
      ultimately show ?thesis using FSeek a by (simp only: file_step.simps map_prod_simp andThen.simps fst_conv snd_conv id_apply)
      qed
    qed
  qed
qed

lemma file_run_sim:
  "file_sim f g \<Longrightarrow> run_fits xs g \<Longrightarrow>
   fst (file_run xs f) = fst (ref_run xs g) \<and> file_sim (snd (file_run xs f)) (snd (ref_run xs g))"
proof (induction xs arbitrary: f g)
  case (Cons x xs)
  then have "ref_small g" "op_fits x g" "run_fits xs (snd (ref_step x g))" by simp_all
  from file_step_sim [OF Cons.prems(1) this(1,2)] Cons.IH [OF _ this(3)] show ?case
    by (simp add: split_beta Let_def)
qed simp

section \<open>Properties\<close>

definition ref_open :: "bytes \<Rightarrow> ref_file" where
  "ref_open data = \<lparr>rf_data = data, rf_r = 0, rf_w = length data, rf_cut = False\<rparr>"

lemma open_sim:
  assumes "uc_Get U name c = (Ok (data, spare), c')" and "\<forall>x \<in> set spare. x = 0" and "has_flag flag O_RDWR"
    and "flag AND O_CREATE = 0 \<or> flag AND O_EXCL = 0" and "int (length data) \<le> file_max"
  shows "\<exists>f. file_Open U c name flag = Ok f \<and> file_sim f (ref_open data)"
proof -
  have "sint (of_nat (length data) :: int64) = int (length data)"
    using assms(5) by (intro sint_of_nat64) (simp add: file_max_def)
  then show ?thesis using assms
    by (auto simp: file_Open_def file_sim_def ref_open_def f_data_def zero_tail_def nth_append)
qed

text \<open>
  C29 (file_is_its_bytes).
  A file opened for reading and writing behaves as its bytes with a read and a write offset: over any
  sequence of reads, writes, seeks and truncations, errors included, every reply is that of the plain
  list of bytes and the data at the end is the same, although the file keeps a growing array, a stale
  copy for its reader and machine integers. It holds for sizes and offsets up to a tebibyte, for a
  fetched array with nothing but zeros beyond the contents, and as long as after a truncation no
  write starts beyond the end.
\<close>

theorem file_is_its_bytes:
  assumes "uc_Get U name c = (Ok (data, spare), c')" and "\<forall>x \<in> set spare. x = 0" and "has_flag flag O_RDWR"
    and "flag AND O_CREATE = 0 \<or> flag AND O_EXCL = 0" and "int (length data) \<le> file_max"
    and fits: "run_fits xs (ref_open data)"
  shows "\<exists>f. file_Open U c name flag = Ok f \<and> fst (file_run xs f) = fst (ref_run xs (ref_open data)) \<and>
    f_data (snd (file_run xs f)) = rf_data (snd (ref_run xs (ref_open data)))"
proof -
  obtain f where f: "file_Open U c name flag = Ok f" "file_sim f (ref_open data)"
    using open_sim [OF assms(1-5)] by blast
  from file_run_sim [OF f(2) fits] have "fst (file_run xs f) = fst (ref_run xs (ref_open data))"
    "rf_data (snd (ref_run xs (ref_open data))) = f_data (snd (file_run xs f))" by (simp_all add: file_sim_def)
  then show ?thesis using f(1) by (intro exI [of _ f]) simp
qed

definition sample_client :: "bytes client" where
  "sample_client = \<lparr>uc_Get = (\<lambda>name c. (Ok (c, []), c)), uc_Put = (\<lambda>name b c. (Ok 1, b)), uc_Lookup = (\<lambda>name c. (Ok 1, c))\<rparr>"

theorem file_is_its_bytes_witness:
  "\<exists>f. file_Open sample_client [1, 2, 3, 4] ''f'' O_RDWR = Ok f \<and>
     fst (file_run [FRead 2, FWriteAt [9] 6, FTruncate 5, FSeek 1 0, FRead 9] f) =
       [RBytes (Ok [1, 2]), RCount (Ok 1), RUnit (Ok ()), RPos (Ok 1), RBytes (Ok [2, 3, 4, 0])]"
proof -
  let ?xs = "[FRead 2, FWriteAt [9] 6, FTruncate 5, FSeek 1 0, FRead 9]"
  have get: "uc_Get sample_client ''f'' [1, 2, 3, 4] = (Ok ([1, 2, 3, 4], []), [1, 2, 3, 4])"
    by (simp add: sample_client_def)
  have run: "run_fits ?xs (ref_open [1, 2, 3, 4])"
    by (simp add: ref_open_def ref_small_def file_max_def ref_write_def overwrite_def Let_def eval_nat_numeral)
  have ref: "fst (ref_run ?xs (ref_open [1, 2, 3, 4])) =
      [RBytes (Ok [1, 2]), RCount (Ok 1), RUnit (Ok ()), RPos (Ok 1), RBytes (Ok [2, 3, 4, 0])]"
    by (simp add: ref_open_def ref_write_def overwrite_def Let_def eval_nat_numeral)
  have flag: "has_flag O_RDWR O_RDWR" "O_RDWR AND O_CREATE = 0 \<or> O_RDWR AND O_EXCL = 0"
    by (simp_all add: has_flag_def O_RDWR_def O_CREATE_def)
  show ?thesis using file_is_its_bytes [OF get _ flag _ run] unfolding ref by (auto simp: file_max_def)
qed

text \<open>
  A truncation does not clear the array: a write beyond the new end that stays within the old one
  fills the gap with the bytes that were cut off, not with zeros.
\<close>

theorem truncated_bytes_return:
  assumes sim: "file_sim f g" and "ref_small g" and "0 \<le> n" "n \<le> off" "off + int (length b) \<le> int (length (rf_data g))"
    and "n < int (length (rf_data g))" "b \<noteq> []"
  shows "f_data (snd (file_step (FWriteAt b off) (snd (file_step (FTruncate n) f)))) = take (nat off) (rf_data g) @ b"
proof -
  have s: "\<not> f_closed f" "f_writable f" "f_len f \<le> length (f_array f)" "rf_data g = f_data f"
    using sim by (simp_all add: file_sim_def)
  have l: "length (rf_data g) = f_len f" using s(3,4) length_f_data by metis
  have small: "int (f_len f) \<le> file_max" using assms(2) l by (simp add: ref_small_def)
  have n: "sint (word_of_int n :: int64) = n" "sint (word_of_int off :: int64) = off"
    using assms(3-5) small l by (simp_all add: word_of_int_small)
  let ?o = "word_of_int off :: int64"
  obtain r w where cut: "file_Truncate (word_of_int n) f =
      (Ok (), f\<lparr>f_dirty := True, f_len := nat n, f_writeOffset := w, f_readOffset := r\<rparr>)"
    using s n assms(3,6) l by (auto simp: file_Truncate_def Let_def)
  let ?f = "f\<lparr>f_dirty := True, f_len := nat n, f_writeOffset := w, f_readOffset := r\<rparr>"
  have e: "sint (?o + of_nat (length b)) = off + int (length b)"
    using assms(3-5) small l n by (subst sint_plus_of_nat) (simp_all add: file_max_def)
  have g: "grow (?o + of_nat (length b)) (?f\<lparr>f_dirty := True\<rparr>) = Some (?f\<lparr>f_dirty := True\<rparr>)"
    using e assms(5) l s(3) by (simp add: grow_def)
  have max: "\<not> sint maxInt64 < off + int (length b)" using assms(5) small l by (simp add: maxInt64_def file_max_def)
  have fit: "\<not> int (length (f_array f)) < off + int (length b)" using assms(5) l s(3) by linarith
  have longer: "n < off + int (length b)" "nat (off + int (length b)) - nat off = length b"
    using assms(3,4,7) by (cases b; simp)+
  have w: "file_writeAt b ?o ?f = (Ok (length b), ?f\<lparr>f_dirty := True,
      f_len := nat (off + int (length b)), f_array := overwrite (nat off) b (f_array f)\<rparr>)"
    using g max fit longer s(1,2) assms(3,4) n e by (simp add: file_writeAt_def Let_def)
  have "f_data (snd (file_writeAt b ?o ?f)) = take (nat off) (f_array f) @ b"
    unfolding w using assms(3-5) l s(3) by (simp add: f_data_def overwrite_def nat_add_distrib max_def)
  also have "take (nat off) (f_array f) = take (nat off) (rf_data g)"
  proof -
    have "nat off \<le> f_len f" using assms(3-5) l by linarith
    then show ?thesis unfolding s(4) f_data_def by simp
  qed
  finally show ?thesis using cut by simp
qed

theorem truncated_bytes_return_witness:
  "\<exists>f. file_Open sample_client [1, 2, 3, 4] ''f'' O_RDWR = Ok f \<and>
     f_data (snd (file_step (FWriteAt [9] 3) (snd (file_step (FTruncate 1) f)))) = [1, 2, 3, 9]"
proof -
  have get: "uc_Get sample_client ''f'' [1, 2, 3, 4] = (Ok ([1, 2, 3, 4], []), [1, 2, 3, 4])"
    by (simp add: sample_client_def)
  have flag: "has_flag O_RDWR O_RDWR" "O_RDWR AND O_CREATE = 0 \<or> O_RDWR AND O_EXCL = 0"
    by (simp_all add: has_flag_def O_RDWR_def O_CREATE_def)
  obtain f where f: "file_Open sample_client [1, 2, 3, 4] ''f'' O_RDWR = Ok f" "file_sim f (ref_open [1, 2, 3, 4])"
    using open_sim [OF get _ flag] by (auto simp: file_max_def)
  have "ref_small (ref_open [1, 2, 3, 4])" by (simp add: ref_small_def ref_open_def file_max_def)
  from truncated_bytes_return [OF f(2) this, of 1 3 "[9]"] f(1) show ?thesis by (auto simp: ref_open_def)
qed

text \<open>
  From the start of a file with data no position relative to its end can be reached: the offset is
  compared with the current ones.
\<close>

lemma seek_back_from_end: "rf_r g = 0 \<Longrightarrow> offset < 0 \<Longrightarrow> fst (ref_step (FSeek offset 2) g) = RPos (Err FBadOffset)"
  by simp

end
