(* ===== verification/ReleaseManager.thy ===== *)
theory ReleaseManager
  imports DocStore GoText
begin

text \<open>
  The release manager over a document service (\<^verbatim>\<open>release/docrelease/document_manager.go\<close>,
  \<^verbatim>\<open>release/manager.go\<close>): packages, release bundles and their data in chunks, with the
  clean-up of uploads that fail part-way. The reader and the writer of the caller are scripts of what
  their calls return; the checksum is a function of the bytes.
\<close>

section \<open>Packages and bundles\<close>

record release_package =
  pk_Name :: string
  pk_Latest :: string
  pk_Notes :: string
  pk_Metadata :: "(string \<times> string) list"
  pk_CreatedAt :: gotime

record release_bundle =
  bu_Package :: string
  bu_Version :: string
  bu_Notes :: string
  bu_Metadata :: "(string \<times> string) list"
  bu_CreatedAt :: gotime

section \<open>Documents\<close>

text \<open>The first constant of the block has no \<open>iota\<close>, so the types start at one.\<close>

definition documentTypeData :: "32 word" where
  "documentTypeData = 1"

definition documentTypeReleaseBundle :: "32 word" where
  "documentTypeReleaseBundle = 2"

definition documentTypePackage :: "32 word" where
  "documentTypePackage = 3"

record release_document =
  rl_Type :: "32 word"
  rl_Package :: string
  rl_Bundle :: release_bundle
  rl_DataChunks :: "string list"
  rl_Checksum :: string

record package_document =
  pd_Type :: "32 word"
  pd_Package :: release_package

record release_data =
  da_Type :: "32 word"
  da_Data :: bytes

datatype release_doc = RelDoc release_document | PkgDoc package_document | DataDoc release_data

text \<open>
  Decoding a stored document into one of the three types. A document of the type decodes to itself;
  what becomes of another is up to the codec.
\<close>

record rel_codec =
  as_release :: "release_doc \<Rightarrow> release_document option"
  as_package :: "release_doc \<Rightarrow> package_document option"
  as_data :: "release_doc \<Rightarrow> release_data option"

definition rel_codec_law :: "rel_codec \<Rightarrow> bool" where
  "rel_codec_law C \<longleftrightarrow> (\<forall>d. as_release C (RelDoc d) = Some d) \<and> (\<forall>d. as_package C (PkgDoc d) = Some d) \<and>
     (\<forall>d. as_data C (DataDoc d) = Some d)"

type_synonym release_db = "release_doc docstore"

datatype release_err =
  RelInvalid | RelStore cerr | RelDecode | RelRead string | RelReadChunk release_err | RelWrite string
| RelLeak string release_err release_err | RelDataIntegrity | RelNoPackage string

type_synonym 'a rel_result = "(release_err, 'a) outcome"

definition makeChunkID :: "string \<Rightarrow> string \<Rightarrow> nat \<Rightarrow> string" where
  "makeChunkID pkg ver i = pkg @ '':'' @ ver @ '':chunk:'' @ show_nat i"

definition makeReleaseDocID :: "string \<Rightarrow> string \<Rightarrow> string" where
  "makeReleaseDocID pkg ver = ''release:'' @ pkg @ '':'' @ ver"

definition makePackageDocID :: "string \<Rightarrow> string" where
  "makePackageDocID pkg = ''package:'' @ pkg"

text \<open>\<open>db.Get\<close> into a variable of one type.\<close>

definition get_as :: "(release_doc \<Rightarrow> 'a option) \<Rightarrow> string \<Rightarrow> release_db \<Rightarrow> 'a rel_result \<times> release_db" where
  "get_as dec i s =
     (case doc_Get i s of
        (Ok d, s) \<Rightarrow> (case dec d of Some x \<Rightarrow> Ok x | None \<Rightarrow> Err RelDecode, s)
      | (Err e, s) \<Rightarrow> (Err (RelStore e), s)
      | (Panic, s) \<Rightarrow> (Panic, s))"

section \<open>Chunks\<close>

text \<open>
  A reader: what its calls of \<open>Read\<close> return, then the end of the file; its size when it can say; its
  progress reports; whether it seeks, and what it returns from its start.
\<close>

datatype read_end = RMore | REOF | RFail string

datatype seeking = NoSeek | SeekTo "(bytes \<times> read_end) list" | SeekFails string | SeekPanics

record reader =
  rd_reads :: "(bytes \<times> read_end) list"
  rd_size :: "int option"
  rd_progress :: "(int \<times> int \<times> string) list"
  rd_seek :: seeking

definition makeLeakError :: "string \<Rightarrow> release_err \<Rightarrow> release_err \<Rightarrow> release_err" where
  "makeLeakError i e re = RelLeak i e re"

definition forceDelete :: "release_err \<Rightarrow> string \<Rightarrow> release_db \<Rightarrow> release_err \<times> release_db" where
  "forceDelete e i s =
     (case doc_Delete i s of
        (Err re, s) \<Rightarrow> (makeLeakError i e (RelStore re), s)
      | (_, s) \<Rightarrow> (e, s))"

text \<open>Every chunk is deleted, the first error is returned.\<close>

fun removeChunks :: "string list \<Rightarrow> release_db \<Rightarrow> release_err option \<times> release_db" where
  "removeChunks [] s = (None, s)"
| "removeChunks (i # ids) s =
     (let (r, s) = doc_Delete i s; (rest, s) = removeChunks ids s
      in (case r of Err e \<Rightarrow> Some (RelStore e) | _ \<Rightarrow> rest, s))"

definition forceRemoveChunks :: "release_err \<Rightarrow> string \<Rightarrow> string list \<Rightarrow> release_db \<Rightarrow> release_err \<times> release_db" where
  "forceRemoveChunks e i ids s =
     (case removeChunks ids s of (Some re, s) \<Rightarrow> (makeLeakError i e re, s) | (None, s) \<Rightarrow> (e, s))"

text \<open>
  The loop of \<open>createDataChunks\<close>: \<open>i\<close> counts the rounds, \<open>ids\<close> the chunks stored, \<open>hashed\<close> is what the
  hash has been fed, \<open>totalSize\<close> the size for the progress. A call that returns nothing ends the loop.
\<close>

fun chunk_loop ::
  "release_bundle \<Rightarrow> int \<Rightarrow> nat \<Rightarrow> string list \<Rightarrow> bytes \<Rightarrow> (bytes \<times> read_end) list \<Rightarrow> (int \<times> int \<times> string) list \<Rightarrow> release_db \<Rightarrow>
   (string list \<times> bytes) rel_result \<times> (int \<times> int \<times> string) list \<times> release_db" where
  "chunk_loop m totalSize i ids hashed [] progress s = (Ok (ids, hashed), progress, s)"
| "chunk_loop m totalSize i ids hashed ((data, end) # reads) progress s =
     (case end of
        RFail msg \<Rightarrow>
          (let (e, s) = forceRemoveChunks (RelRead msg) (makeReleaseDocID (bu_Package m) (bu_Version m)) ids s
           in (Err e, progress, s))
      | _ \<Rightarrow>
          if data = [] then (Ok (ids, hashed), progress, s)
          else
            (let hashed = hashed @ data;
                 progress = progress @ [(int (length hashed), totalSize, ''bytes'')];
                 chunkID = makeChunkID (bu_Package m) (bu_Version m) i
             in case doc_Set id chunkID (DataDoc \<lparr>da_Type = documentTypeData, da_Data = data\<rparr>) s of
                  (Err e, s) \<Rightarrow>
                    (let (e, s) = forceRemoveChunks (RelStore e) (makeReleaseDocID (bu_Package m) (bu_Version m)) ids s
                     in (Err e, progress, s))
                | (Panic, s) \<Rightarrow> (Panic, progress, s)
                | (Ok _, s) \<Rightarrow>
                    if end = REOF then (Ok (ids @ [chunkID], hashed), progress, s)
                    else chunk_loop m totalSize (i + 1) (ids @ [chunkID]) hashed reads progress s))"

definition createDataChunks ::
  "(bytes \<Rightarrow> string) \<Rightarrow> release_bundle \<Rightarrow> reader \<Rightarrow> release_db \<Rightarrow> (string list \<times> string) rel_result \<times> reader \<times> release_db" where
  "createDataChunks hash m r s =
     (let totalSize = (case rd_size r of Some n \<Rightarrow> n | None \<Rightarrow> 0);
          (res, progress, s) = chunk_loop m totalSize 0 [] [] (rd_reads r) (rd_progress r @ [(0, totalSize, ''bytes'')]) s
      in (andThen res (\<lambda>(ids, hashed). Ok (ids, hash hashed)), r\<lparr>rd_progress := progress\<rparr>, s))"

section \<open>Operations\<close>

definition rel_Create :: "release_package \<Rightarrow> release_db \<Rightarrow> unit rel_result \<times> release_db" where
  "rel_Create m s =
     (if pk_Name m = '''' then (Err RelInvalid, s)
      else map_prod (mapErr RelStore) id
        (doc_Set id (makePackageDocID (pk_Name m)) (PkgDoc \<lparr>pd_Type = documentTypePackage, pd_Package = m\<rparr>) s))"

text \<open>
  Updates of fields of a package document; under the identifier of a package there is no document of
  another type.
\<close>

definition on_package :: "(release_package \<Rightarrow> release_package) \<Rightarrow> release_doc \<Rightarrow> release_doc" where
  "on_package f d = (case d of PkgDoc p \<Rightarrow> PkgDoc (p\<lparr>pd_Package := f (pd_Package p)\<rparr>) | _ \<Rightarrow> d)"

definition update_package :: "string \<Rightarrow> (release_package \<Rightarrow> release_package) \<Rightarrow> release_db \<Rightarrow> unit rel_result \<times> release_db" where
  "update_package pkg f s =
     (case doc_Modify (on_package f) (makePackageDocID pkg) s of
        (Err e, s) \<Rightarrow> (Err (if e = ErrNotFound then RelNoPackage pkg else RelStore e), s)
      | (Panic, s) \<Rightarrow> (Panic, s)
      | (Ok _, s) \<Rightarrow> (Ok (), s))"

definition UpdatePackageMetadata :: "string \<Rightarrow> (string \<times> string) list \<Rightarrow> release_db \<Rightarrow> unit rel_result \<times> release_db" where
  "UpdatePackageMetadata pkg metadata s =
     (if pkg = '''' \<or> metadata = [] then (Panic, s)
      else update_package pkg
        (\<lambda>p. p\<lparr>pk_Metadata := fold (\<lambda>(k, v). AList.update k v) metadata (pk_Metadata p)\<rparr>) s)"

definition Upload :: "(bytes \<Rightarrow> string) \<Rightarrow> release_bundle \<Rightarrow> reader \<Rightarrow> release_db \<Rightarrow> unit rel_result \<times> reader \<times> release_db" where
  "Upload hash m r s =
     (if bu_Package m = '''' \<or> bu_Version m = '''' then (Err RelInvalid, r, s)
      else
        (let i = makeReleaseDocID (bu_Package m) (bu_Version m);
             doc = \<lparr>rl_Type = documentTypeReleaseBundle, rl_Package = bu_Package m, rl_Bundle = m,
                    rl_DataChunks = [], rl_Checksum = ''''\<rparr>
         in case doc_Create id i (RelDoc doc) s of
              (Err e, s) \<Rightarrow> (Err (RelStore e), r, s)
            | (Panic, s) \<Rightarrow> (Panic, r, s)
            | (Ok _, s) \<Rightarrow>
                (case createDataChunks hash m r s of
                   (Err e, r, s) \<Rightarrow> (let (e, s) = forceDelete e i s in (Err e, r, s))
                 | (Panic, r, s) \<Rightarrow> (Panic, r, s)
                 | (Ok (ids, checksum), r, s) \<Rightarrow>
                     (case doc_Set id i (RelDoc (doc\<lparr>rl_DataChunks := ids, rl_Checksum := checksum\<rparr>)) s of
                        (Err e, s) \<Rightarrow>
                          (let (e, s) = forceDelete (RelStore e) i s; (e, s) = forceRemoveChunks e i ids s
                           in (Err e, r, s))
                      | (Panic, s) \<Rightarrow> (Panic, r, s)
                      | (Ok _, s) \<Rightarrow>
                          (case update_package (bu_Package m) (\<lambda>p. p\<lparr>pk_Latest := bu_Version m\<rparr>) s of
                             (Err e, s) \<Rightarrow> (let (e, s) = forceDelete e i s in (Err e, r, s))
                           | (Panic, s) \<Rightarrow> (Panic, r, s)
                           | (Ok _, s) \<Rightarrow> (Ok (), r, s))))))"

text \<open>
  A writer: what it has been given, the failures to come of its calls, its progress reports, whether
  it discards, whether it reads and seeks as well.
\<close>

record writer =
  wr_data :: bytes
  wr_faults :: "(nat \<times> string) option list"
  wr_progress :: "(int \<times> int \<times> string) list"
  wr_discard :: bool
  wr_seeks :: bool

definition writer_Write :: "bytes \<Rightarrow> writer \<Rightarrow> string option \<times> writer" where
  "writer_Write b w =
     (case wr_faults w of
        [] \<Rightarrow> (None, w\<lparr>wr_data := wr_data w @ b\<rparr>)
      | None # fs \<Rightarrow> (None, w\<lparr>wr_data := wr_data w @ b, wr_faults := fs\<rparr>)
      | Some (n, msg) # fs \<Rightarrow> (Some msg, w\<lparr>wr_data := wr_data w @ take n b, wr_faults := fs\<rparr>))"

definition writer_Progress :: "nat \<Rightarrow> nat \<Rightarrow> writer \<Rightarrow> writer" where
  "writer_Progress i n w = w\<lparr>wr_progress := wr_progress w @ [(int i, int n, ''chunks'')]\<rparr>"

fun write_loop ::
  "rel_codec \<Rightarrow> nat \<Rightarrow> nat \<Rightarrow> string list \<Rightarrow> bytes \<Rightarrow> writer \<Rightarrow> release_db \<Rightarrow> bytes rel_result \<times> writer \<times> release_db" where
  "write_loop C i n [] hashed w s = (Ok hashed, w, s)"
| "write_loop C i n (chunkID # ids) hashed w s =
     (case get_as (as_data C) chunkID s of
        (Err e, s) \<Rightarrow> (Err (RelReadChunk e), w, s)
      | (Panic, s) \<Rightarrow> (Panic, w, s)
      | (Ok d, s) \<Rightarrow>
          (case writer_Write (da_Data d) w of
             (Some msg, w) \<Rightarrow> (Err (RelWrite msg), w, s)
           | (None, w) \<Rightarrow>
               write_loop C (i + 1) n ids (hashed @ da_Data d) (writer_Progress (i + 1) n w) s))"

definition writeChunks ::
  "(bytes \<Rightarrow> string) \<Rightarrow> rel_codec \<Rightarrow> release_document \<Rightarrow> writer \<Rightarrow> release_db \<Rightarrow> unit rel_result \<times> writer \<times> release_db" where
  "writeChunks hash C doc w s =
     (let n = length (rl_DataChunks doc);
          (r, w, s) = write_loop C 0 n (rl_DataChunks doc) [] (writer_Progress 0 n w) s
      in (andThen r (\<lambda>hashed. if hash hashed \<noteq> rl_Checksum doc then Err RelDataIntegrity else Ok ()), w, s))"

definition rel_Get ::
  "(bytes \<Rightarrow> string) \<Rightarrow> rel_codec \<Rightarrow> string \<Rightarrow> string \<Rightarrow> writer \<Rightarrow> release_db \<Rightarrow> release_bundle rel_result \<times> writer \<times> release_db" where
  "rel_Get hash C pkg ver w s =
     (case get_as (as_release C) (makeReleaseDocID pkg ver) s of
        (Err e, s) \<Rightarrow> (Err e, w, s)
      | (Panic, s) \<Rightarrow> (Panic, w, s)
      | (Ok doc, s) \<Rightarrow>
          if wr_discard w then (Ok (rl_Bundle doc), w, s)
          else (let (r, w, s) = writeChunks hash C doc w s in (andThen r (\<lambda>_. Ok (rl_Bundle doc)), w, s)))"

definition rel_Delete :: "rel_codec \<Rightarrow> string \<Rightarrow> string \<Rightarrow> release_db \<Rightarrow> unit rel_result \<times> release_db" where
  "rel_Delete C pkg ver s =
     (let i = makeReleaseDocID pkg ver
      in case get_as (as_release C) i s of
           (Err e, s) \<Rightarrow> (Err e, s)
         | (Panic, s) \<Rightarrow> (Panic, s)
         | (Ok doc, s) \<Rightarrow>
             (case removeChunks (rl_DataChunks doc) s of
                (Some e, s) \<Rightarrow> (Err e, s)
              | (None, s) \<Rightarrow> map_prod (mapErr RelStore) id (doc_Delete i s)))"

definition rel_GetPackage :: "rel_codec \<Rightarrow> string \<Rightarrow> release_db \<Rightarrow> release_package rel_result \<times> release_db" where
  "rel_GetPackage C pkg s =
     map_prod (\<lambda>r. andThen r (\<lambda>d. Ok (pd_Package d))) id (get_as (as_package C) (makePackageDocID pkg) s)"

definition rel_DeletePackage :: "rel_codec \<Rightarrow> string \<Rightarrow> release_db \<Rightarrow> unit rel_result \<times> release_db" where
  "rel_DeletePackage C pkg s =
     (case rel_GetPackage C pkg s of
        (Err e, s) \<Rightarrow> (Err e, s)
      | (Panic, s) \<Rightarrow> (Panic, s)
      | (Ok _, s) \<Rightarrow> map_prod (mapErr RelStore) id (doc_Delete (makePackageDocID pkg) s))"

section \<open>Listings\<close>

datatype rel_value = RVType "32 word" | RVString string

type_synonym rel_filter = "string list \<times> rel_value"

definition user_filters :: "string \<Rightarrow> (string \<times> string) list \<Rightarrow> rel_filter list" where
  "user_filters root user = map (\<lambda>(k, v). (root # Split CHR ''.'' k, RVString v)) user"

definition makeDocumentBundleFilter :: "string \<Rightarrow> (string \<times> string) list \<Rightarrow> rel_filter list" where
  "makeDocumentBundleFilter pkg user =
     [([''Type''], RVType documentTypeReleaseBundle), ([''Package''], RVString pkg)] @ user_filters ''Bundle'' user"

definition makeDocumentPackageFilter :: "(string \<times> string) list \<Rightarrow> rel_filter list" where
  "makeDocumentPackageFilter user = [([''Type''], RVType documentTypePackage)] @ user_filters ''Package'' user"

text \<open>The field of a document at a path, as far as these filters can equal it.\<close>

fun bundle_value :: "release_bundle \<Rightarrow> string list \<Rightarrow> rel_value option" where
  "bundle_value b [f] =
     (if f = ''Package'' then Some (RVString (bu_Package b))
      else if f = ''Version'' then Some (RVString (bu_Version b))
      else if f = ''Notes'' then Some (RVString (bu_Notes b)) else None)"
| "bundle_value b [f, k] = (if f = ''Metadata'' then map_option RVString (map_of (bu_Metadata b) k) else None)"
| "bundle_value b _ = None"

fun package_value :: "release_package \<Rightarrow> string list \<Rightarrow> rel_value option" where
  "package_value p [f] =
     (if f = ''Name'' then Some (RVString (pk_Name p))
      else if f = ''Latest'' then Some (RVString (pk_Latest p))
      else if f = ''Notes'' then Some (RVString (pk_Notes p)) else None)"
| "package_value p [f, k] = (if f = ''Metadata'' then map_option RVString (map_of (pk_Metadata p) k) else None)"
| "package_value p _ = None"

fun doc_value :: "release_doc \<Rightarrow> string list \<Rightarrow> rel_value option" where
  "doc_value (RelDoc d) path =
     (if path = [''Type''] then Some (RVType (rl_Type d))
      else if path = [''Package''] then Some (RVString (rl_Package d))
      else if path = [''Checksum''] then Some (RVString (rl_Checksum d))
      else case path of r # rest \<Rightarrow> if r = ''Bundle'' then bundle_value (rl_Bundle d) rest else None | [] \<Rightarrow> None)"
| "doc_value (PkgDoc d) path =
     (if path = [''Type''] then Some (RVType (pd_Type d))
      else case path of r # rest \<Rightarrow> if r = ''Package'' then package_value (pd_Package d) rest else None | [] \<Rightarrow> None)"
| "doc_value (DataDoc d) path = (if path = [''Type''] then Some (RVType (da_Type d)) else None)"

definition rel_matches :: "rel_filter list \<Rightarrow> release_doc \<Rightarrow> bool" where
  "rel_matches fs d \<longleftrightarrow> list_all (\<lambda>(path, v). doc_value d path = Some v) fs"

text \<open>The iterators drained: the first document that does not decode is an error.\<close>

fun decode_all :: "(release_doc \<Rightarrow> 'a option) \<Rightarrow> release_doc list \<Rightarrow> 'a list rel_result" where
  "decode_all dec [] = Ok []"
| "decode_all dec (d # ds) =
     (case dec d of None \<Rightarrow> Err RelDecode | Some x \<Rightarrow> andThen (decode_all dec ds) (\<lambda>xs. Ok (x # xs)))"

definition list_as :: "(release_doc \<Rightarrow> 'a option) \<Rightarrow> rel_filter list \<Rightarrow> release_db \<Rightarrow> 'a list rel_result \<times> release_db" where
  "list_as dec fs s =
     (case doc_List (rel_matches fs) s of (r, s) \<Rightarrow> (andThen (mapErr RelStore r) (decode_all dec), s))"

definition rel_List ::
  "rel_codec \<Rightarrow> string \<Rightarrow> (string \<times> string) list \<Rightarrow> release_db \<Rightarrow> release_bundle list rel_result \<times> release_db" where
  "rel_List C pkg user s =
     (case list_as (as_release C) (makeDocumentBundleFilter pkg user) s of
        (r, s) \<Rightarrow> (andThen r (\<lambda>ds. Ok (map rl_Bundle ds)), s))"

definition rel_ListPackages ::
  "rel_codec \<Rightarrow> (string \<times> string) list \<Rightarrow> release_db \<Rightarrow> release_package list rel_result \<times> release_db" where
  "rel_ListPackages C user s =
     (case list_as (as_package C) (makeDocumentPackageFilter user) s of
        (r, s) \<Rightarrow> (andThen r (\<lambda>ds. Ok (map pd_Package ds)), s))"

section \<open>Identifiers\<close>

text \<open>Names without a colon keep the three kinds of identifiers apart.\<close>

definition plain :: "string \<Rightarrow> bool" where
  "plain s \<longleftrightarrow> CHR '':'' \<notin> set s"

definition colons :: "string \<Rightarrow> nat" where
  "colons s = length (filter ((=) CHR '':'') s)"

lemma colons_append [simp]: "colons (s @ t) = colons s + colons t"
  by (simp add: colons_def)

lemma colons_plain: "plain s \<Longrightarrow> colons s = 0"
  by (auto simp: plain_def colons_def filter_empty_conv)

lemma colons_show_nat [simp]: "colons (show_nat n) = 0"
proof -
  have "list_all is_digit (show_nat n)" using show_nat_digits by blast
  then have "CHR '':'' \<notin> set (show_nat n)" by (auto simp: list_all_iff is_digit_def)
  then show ?thesis by (simp add: colons_plain plain_def)
qed

lemma ids_apart:
  assumes "plain pkg" "plain ver"
  shows "makeReleaseDocID pkg ver \<noteq> makeChunkID pkg ver i" "makePackageDocID pkg \<noteq> makeChunkID pkg ver i"
    "makeReleaseDocID pkg ver \<noteq> makePackageDocID pkg"
proof -
  have c: "colons (makeReleaseDocID pkg ver) = 2" "colons (makeChunkID pkg ver i) = 3" "colons (makePackageDocID pkg) = 1"
    using assms [THEN colons_plain] colons_show_nat [of i, unfolded colons_def]
    by (simp_all add: makeReleaseDocID_def makeChunkID_def makePackageDocID_def) (simp_all add: colons_def)
  then show "makeReleaseDocID pkg ver \<noteq> makeChunkID pkg ver i" "makePackageDocID pkg \<noteq> makeChunkID pkg ver i"
    "makeReleaseDocID pkg ver \<noteq> makePackageDocID pkg" by fastforce+
qed

lemma makeChunkID_inject [simp]: "makeChunkID pkg ver i = makeChunkID pkg ver j \<longleftrightarrow> i = j"
  by (auto simp: makeChunkID_def) (metis digits_value_show_nat)

section \<open>Clean-up\<close>

text \<open>Between two stores only documents under \<open>ids\<close> have been deleted.\<close>

definition only_deleted :: "string set \<Rightarrow> release_db \<Rightarrow> release_db \<Rightarrow> bool" where
  "only_deleted ids s s' \<longleftrightarrow> (\<forall>x. lookup s' x = lookup s x \<or> x \<in> ids \<and> lookup s' x = None)"

lemma only_deleted_refl [simp]: "only_deleted ids s s"
  by (simp add: only_deleted_def)

lemma only_deleted_trans: "only_deleted A s t \<Longrightarrow> only_deleted B t u \<Longrightarrow> only_deleted (A \<union> B) s u"
  unfolding only_deleted_def by (metis Un_iff)

lemma only_deleted_None: "only_deleted A s s' \<Longrightarrow> lookup s x = None \<Longrightarrow> lookup s' x = None"
  unfolding only_deleted_def by metis

lemma only_deleted_other: "only_deleted A s s' \<Longrightarrow> x \<notin> A \<Longrightarrow> lookup s' x = lookup s x"
  unfolding only_deleted_def by blast

lemma only_deleted_cases: "only_deleted A s s' \<Longrightarrow> lookup s' x = lookup s x \<or> lookup s' x = None"
  unfolding only_deleted_def by metis

lemma doc_Delete_only: "doc_Delete k s = (r, s') \<Longrightarrow> only_deleted {k} s s'"
  using doc_Delete_view [of k s r s'] by (auto simp: only_deleted_def split: if_splits)

lemma forceDelete_only: "forceDelete e i s = (e', s') \<Longrightarrow> only_deleted {i} s s'"
  by (auto simp: forceDelete_def split: prod.splits outcome.splits dest: doc_Delete_only)

lemma removeChunks_only: "removeChunks ids s = (r, s') \<Longrightarrow> only_deleted (set ids) s s'"
proof (induction ids arbitrary: r s s')
  case (Cons i ids)
  obtain r1 s1 where d: "doc_Delete i s = (r1, s1)" by fastforce
  obtain r2 s2 where rest: "removeChunks ids s1 = (r2, s2)" by fastforce
  then have "s' = s2" using Cons.prems d by simp
  then show ?case using only_deleted_trans [OF doc_Delete_only [OF d] Cons.IH [OF rest]] by simp
qed simp

lemma forceRemoveChunks_only: "forceRemoveChunks e i ids s = (e', s') \<Longrightarrow> only_deleted (set ids) s s'"
  by (auto simp: forceRemoveChunks_def split: prod.splits option.splits dest: removeChunks_only)

section \<open>The chunks of an upload\<close>

text \<open>What a reader gives before its end, an empty read or a failure, and whether it ends well.\<close>

fun read_bytes :: "(bytes \<times> read_end) list \<Rightarrow> bytes" where
  "read_bytes [] = []"
| "read_bytes ((data, end) # reads) =
     (case end of RFail _ \<Rightarrow> [] | REOF \<Rightarrow> data | RMore \<Rightarrow> if data = [] then [] else data @ read_bytes reads)"

fun reads_ok :: "(bytes \<times> read_end) list \<Rightarrow> bool" where
  "reads_ok [] \<longleftrightarrow> True"
| "reads_ok ((data, end) # reads) \<longleftrightarrow>
     (case end of RFail _ \<Rightarrow> False | REOF \<Rightarrow> True | RMore \<Rightarrow> data = [] \<or> reads_ok reads)"

text \<open>The blocks stored under the identifiers of the chunks of \<open>m\<close> from number \<open>i\<close> on.\<close>

definition chunk_ids :: "release_bundle \<Rightarrow> nat \<Rightarrow> bytes list \<Rightarrow> string list" where
  "chunk_ids m i blocks = map (makeChunkID (bu_Package m) (bu_Version m)) [i..<i + length blocks]"

definition data_doc :: "bytes \<Rightarrow> release_doc" where
  "data_doc b = DataDoc \<lparr>da_Type = documentTypeData, da_Data = b\<rparr>"

definition stored_blocks :: "release_bundle \<Rightarrow> nat \<Rightarrow> bytes list \<Rightarrow> release_db \<Rightarrow> bool" where
  "stored_blocks m i blocks s \<longleftrightarrow>
     list_all2 (\<lambda>k b. lookup s k = Some (data_doc b)) (chunk_ids m i blocks) blocks"

definition is_chunk :: "release_bundle \<Rightarrow> string \<Rightarrow> bool" where
  "is_chunk m k \<longleftrightarrow> (\<exists>j. k = makeChunkID (bu_Package m) (bu_Version m) j)"

lemma chunk_ids_simps [simp]:
  "chunk_ids m i [] = []"
  "chunk_ids m i (b # bs) = makeChunkID (bu_Package m) (bu_Version m) i # chunk_ids m (Suc i) bs"
  by (simp_all add: chunk_ids_def upt_conv_Cons del: upt_Suc)

lemma chunk_ids_is_chunk: "k \<in> set (chunk_ids m i bs) \<Longrightarrow> is_chunk m k"
  by (auto simp: chunk_ids_def is_chunk_def)

lemma chunk_ids_fresh: "makeChunkID (bu_Package m) (bu_Version m) i \<notin> set (chunk_ids m (Suc i) bs)"
  by (auto simp: chunk_ids_def)

lemma stored_blocks_simps [simp]:
  "stored_blocks m i [] s"
  "stored_blocks m i (b # bs) s \<longleftrightarrow>
     lookup s (makeChunkID (bu_Package m) (bu_Version m) i) = Some (data_doc b) \<and> stored_blocks m (Suc i) bs s"
  by (simp_all add: stored_blocks_def)

lemma stored_blocks_cong: "\<forall>k \<in> set (chunk_ids m i bs). lookup s' k = lookup s k \<Longrightarrow> stored_blocks m i bs s' = stored_blocks m i bs s"
  unfolding stored_blocks_def by (rule list.rel_cong) simp_all

text \<open>What the loop leaves, whatever fails.\<close>

lemma chunk_loop_result:
  assumes "chunk_loop m totalSize i ids hashed reads pr s = (r, pr', s')" and "\<forall>k \<in> set ids. is_chunk m k"
  shows "(\<forall>k. \<not> is_chunk m k \<longrightarrow> lookup s' k = lookup s k) \<and> r \<noteq> Panic \<and>
    (\<forall>ids' h. r = Ok (ids', h) \<longrightarrow> (\<exists>blocks. ids' = ids @ chunk_ids m i blocks \<and> h = hashed @ concat blocks \<and>
       concat blocks = read_bytes reads \<and> stored_blocks m i blocks s' \<and>
       (\<forall>k. k \<notin> set (chunk_ids m i blocks) \<longrightarrow> lookup s' k = lookup s k)))"
  using assms
proof (induction m totalSize i ids hashed reads pr s arbitrary: r pr' s' rule: chunk_loop.induct)
  case (1 m totalSize i ids hashed pr s)
  then show ?case by (auto intro!: exI [of _ "[]"])
next
  case (2 m totalSize i ids hashed data end' reads pr s)
  let ?k = "makeChunkID (bu_Package m) (bu_Version m) i"
  let ?id = "makeReleaseDocID (bu_Package m) (bu_Version m)"
  have chunk: "is_chunk m ?k" by (auto simp: is_chunk_def)
  have removed: "\<forall>k. \<not> is_chunk m k \<longrightarrow> lookup u k = lookup t k" if "forceRemoveChunks e ?id ids t = (e', u)" for e e' t u
    using only_deleted_other [OF forceRemoveChunks_only [OF that]] "2.prems"(2) by blast
  show ?case
  proof (cases "\<exists>msg. end' = RFail msg")
    case True
    then show ?thesis using "2.prems"(1) removed by (auto split: prod.splits)
  next
    case good: False
    show ?thesis
    proof (cases "data = []")
      case True
      then have "read_bytes ((data, end') # reads) = []" using good by (auto split: read_end.splits)
      then show ?thesis using "2.prems"(1) good True by (auto split: read_end.splits intro!: exI [of _ "[]"])
    next
      case False
      obtain r1 s1 where set: "doc_Set id ?k (data_doc data) s = (r1, s1)" by fastforce
      have view: "lookup s1 = lookup s \<or> lookup s1 = (lookup s)(?k \<mapsto> data_doc data)"
        using store.set_failed [of "id" "(?k, data_doc data)" s r1 s1] set by simp
      then have other: "\<not> is_chunk m k \<longrightarrow> lookup s1 k = lookup s k" for k using chunk by (auto split: if_splits)
      show ?thesis
      proof (cases r1)
        case (Err e)
        then show ?thesis using "2.prems"(1) good False set removed other
          by (auto simp: data_doc_def Let_def split: read_end.splits prod.splits)
      next
        case Panic
        then show ?thesis using set doc_no_panic(3) [of id ?k "data_doc data" s] by simp
      next
        case (Ok u)
        have put: "lookup s1 = (lookup s)(?k \<mapsto> data_doc data)"
          using store.set_Ok [of "id" "(?k, data_doc data)" s u s1] set Ok by simp
        show ?thesis
        proof (cases "end' = REOF")
          case True
          then have "r = Ok (ids @ [?k], hashed @ data)" "s' = s1"
            using "2.prems"(1) False set Ok by (auto simp: data_doc_def Let_def)
          then show ?thesis using True put other by (auto intro!: exI [of _ "[data]"])
        next
          case cont: False
          then have more: "end' = RMore" using good by (cases end') auto
          have run: "chunk_loop m totalSize (i + 1) (ids @ [?k]) (hashed @ data) reads
              (pr @ [(int (length (hashed @ data)), totalSize, ''bytes'')]) s1 = (r, pr', s')"
            using "2.prems"(1) more False set Ok by (simp add: data_doc_def Let_def)
          have ih: "(\<forall>k. \<not> is_chunk m k \<longrightarrow> lookup s' k = lookup s1 k) \<and> r \<noteq> Panic \<and>
              (\<forall>ids' h. r = Ok (ids', h) \<longrightarrow> (\<exists>blocks. ids' = (ids @ [?k]) @ chunk_ids m (i + 1) blocks \<and>
                h = (hashed @ data) @ concat blocks \<and> concat blocks = read_bytes reads \<and> stored_blocks m (i + 1) blocks s' \<and>
                (\<forall>k. k \<notin> set (chunk_ids m (i + 1) blocks) \<longrightarrow> lookup s' k = lookup s1 k)))"
            by (rule "2.IH"(1) [OF more False refl refl refl _ _ cont run])
              (use "2.prems"(2) chunk set Ok in \<open>auto simp: data_doc_def\<close>)
          have "\<exists>blocks. ids' = ids @ chunk_ids m i blocks \<and> h = hashed @ concat blocks \<and>
              concat blocks = read_bytes ((data, end') # reads) \<and> stored_blocks m i blocks s' \<and>
              (\<forall>k. k \<notin> set (chunk_ids m i blocks) \<longrightarrow> lookup s' k = lookup s k)" if "r = Ok (ids', h)" for ids' h
          proof -
            from ih that obtain blocks where b: "ids' = (ids @ [?k]) @ chunk_ids m (i + 1) blocks"
              "h = (hashed @ data) @ concat blocks" "concat blocks = read_bytes reads" "stored_blocks m (i + 1) blocks s'"
              "\<forall>k. k \<notin> set (chunk_ids m (i + 1) blocks) \<longrightarrow> lookup s' k = lookup s1 k" by blast
            have "lookup s' ?k = Some (data_doc data)" using b(5) chunk_ids_fresh put by simp
            then show ?thesis using b more False put by (intro exI [of _ "data # blocks"]) auto
          qed
          then show ?thesis using ih other by auto
        qed
      qed
    qed
  qed
qed

section \<open>Reading back\<close>

lemma get_as_result:
  "get_as dec i s = (r, s') \<Longrightarrow> lookup s' = lookup s \<and> r \<noteq> Panic \<and>
     (\<forall>x. r = Ok x \<longrightarrow> (\<exists>d. lookup s i = Some d \<and> dec d = Some x))"
  using store.get_view [of i s] store.get_Ok [of i s] doc_no_panic(1) [of i s]
  by (cases "doc_Get i s"; cases "fst (doc_Get i s)") (auto simp: get_as_def split: option.splits)

lemma write_loop_result:
  assumes "write_loop C i n ids hashed w s = (Ok h, w', s')"
  shows "\<exists>blocks. list_all2 (\<lambda>k b. \<exists>d x. lookup s k = Some d \<and> as_data C d = Some x \<and> b = da_Data x) ids blocks \<and>
    h = hashed @ concat blocks \<and> wr_data w' = wr_data w @ concat blocks"
  using assms
proof (induction C i n ids hashed w s rule: write_loop.induct)
  case (1 C i n hashed w s)
  then show ?case by (auto intro!: exI [of _ "[]"])
next
  case (2 C i n k ids hashed w s)
  obtain r s1 where get: "get_as (as_data C) k s = (r, s1)" by fastforce
  then obtain x where r: "r = Ok x" using "2.prems" by (cases r) auto
  obtain f w1 where wr: "writer_Write (da_Data x) w = (f, w1)" by fastforce
  have f: "f = None" using "2.prems" get r wr by (cases f) auto
  have data: "wr_data w1 = wr_data w @ da_Data x"
    using wr f by (auto simp: writer_Write_def split: list.splits option.splits)
  have look: "lookup s1 = lookup s" "\<exists>d. lookup s k = Some d \<and> as_data C d = Some x"
    using get_as_result [OF get] r by auto
  have run: "write_loop C (i + 1) n ids (hashed @ da_Data x) (writer_Progress (i + 1) n w1) s1 = (Ok h, w', s')"
    using "2.prems" get r wr f by simp
  from "2.IH" [OF get [symmetric] r wr [symmetric] f run] obtain blocks where
    "list_all2 (\<lambda>k b. \<exists>d x. lookup s1 k = Some d \<and> as_data C d = Some x \<and> b = da_Data x) ids blocks"
    "h = (hashed @ da_Data x) @ concat blocks" "wr_data w' = wr_data (writer_Progress (i + 1) n w1) @ concat blocks"
    by blast
  then show ?case using look data
    by (intro exI [of _ "da_Data x # blocks"]) (auto simp: writer_Progress_def)
qed

text \<open>What a successful download has written.\<close>

lemma rel_Get_result:
  assumes "rel_Get hash C pkg ver w s = (Ok b, w', s')" and "\<not> wr_discard w"
  shows "\<exists>d doc blocks. lookup s (makeReleaseDocID pkg ver) = Some d \<and> as_release C d = Some doc \<and> b = rl_Bundle doc \<and>
    list_all2 (\<lambda>k b. \<exists>d x. lookup s k = Some d \<and> as_data C d = Some x \<and> b = da_Data x) (rl_DataChunks doc) blocks \<and>
    hash (concat blocks) = rl_Checksum doc \<and> wr_data w' = wr_data w @ concat blocks"
proof -
  obtain r s1 where get: "get_as (as_release C) (makeReleaseDocID pkg ver) s = (r, s1)" by fastforce
  then obtain doc where r: "r = Ok doc" using assms by (cases r) (auto simp: rel_Get_def)
  obtain q w2 s2 where loop: "write_loop C 0 (length (rl_DataChunks doc)) (rl_DataChunks doc) []
      (writer_Progress 0 (length (rl_DataChunks doc)) w) s1 = (q, w2, s2)" by (metis surj_pair)
  then obtain h where q: "q = Ok h" "hash h = rl_Checksum doc" "b = rl_Bundle doc" "w' = w2"
    using assms get r by (cases q) (auto simp: rel_Get_def writeChunks_def Let_def split: if_splits)
  have look: "lookup s1 = lookup s" using get_as_result [OF get] by blast
  from write_loop_result [OF loop [unfolded q(1)]] get_as_result [OF get] r q look show ?thesis
    by (auto simp: writer_Progress_def)
qed

section \<open>Uploads that fail\<close>

definition started_doc :: "release_bundle \<Rightarrow> release_doc" where
  "started_doc m = RelDoc \<lparr>rl_Type = documentTypeReleaseBundle, rl_Package = bu_Package m, rl_Bundle = m,
     rl_DataChunks = [], rl_Checksum = ''''\<rparr>"

definition complete_doc :: "(bytes \<Rightarrow> string) \<Rightarrow> release_bundle \<Rightarrow> bytes list \<Rightarrow> release_doc" where
  "complete_doc hash m blocks = RelDoc \<lparr>rl_Type = documentTypeReleaseBundle, rl_Package = bu_Package m, rl_Bundle = m,
     rl_DataChunks = chunk_ids m 0 blocks, rl_Checksum = hash (concat blocks)\<rparr>"

text \<open>The states an upload of \<open>m\<close> may leave: nothing, a document without data, or all of it, less deleted chunks.\<close>

definition upload_left :: "(bytes \<Rightarrow> string) \<Rightarrow> release_bundle \<Rightarrow> bytes \<Rightarrow> release_db \<Rightarrow> bool" where
  "upload_left hash m data s \<longleftrightarrow>
     (let d = lookup s (makeReleaseDocID (bu_Package m) (bu_Version m)) in
      d = None \<or> d = Some (started_doc m) \<or>
      (\<exists>blocks. d = Some (complete_doc hash m blocks) \<and> concat blocks = data \<and>
         list_all2 (\<lambda>k b. lookup s k = None \<or> lookup s k = Some (data_doc b)) (chunk_ids m 0 blocks) blocks))"

lemma upload_leftI:
  "lookup s (makeReleaseDocID (bu_Package m) (bu_Version m)) = None \<or>
   lookup s (makeReleaseDocID (bu_Package m) (bu_Version m)) = Some (started_doc m) \<Longrightarrow> upload_left hash m data s"
  "lookup s (makeReleaseDocID (bu_Package m) (bu_Version m)) = Some (complete_doc hash m bs) \<Longrightarrow> concat bs = data \<Longrightarrow>
   list_all2 (\<lambda>k b. lookup s k = None \<or> lookup s k = Some (data_doc b)) (chunk_ids m 0 bs) bs \<Longrightarrow> upload_left hash m data s"
  unfolding upload_left_def Let_def by blast+

lemma upload_left_cases:
  assumes "upload_left hash m data s"
  obtains "lookup s (makeReleaseDocID (bu_Package m) (bu_Version m)) = None"
  | "lookup s (makeReleaseDocID (bu_Package m) (bu_Version m)) = Some (started_doc m)"
  | bs where "lookup s (makeReleaseDocID (bu_Package m) (bu_Version m)) = Some (complete_doc hash m bs)" "concat bs = data"
      "list_all2 (\<lambda>k b. lookup s k = None \<or> lookup s k = Some (data_doc b)) (chunk_ids m 0 bs) bs"
  using assms unfolding upload_left_def Let_def by (elim disjE exE conjE)

lemma upload_left_deleted:
  assumes "upload_left hash m data s" "only_deleted ids s s'"
  shows "upload_left hash m data s'"
proof -
  note del = only_deleted_cases [OF assms(2)]
  have "list_all2 (\<lambda>k b. lookup s' k = None \<or> lookup s' k = Some (data_doc b)) ks bs"
    if "list_all2 (\<lambda>k b. lookup s k = None \<or> lookup s k = Some (data_doc b)) ks bs" for ks bs
    using that by (rule list_all2_mono) (metis del)
  note blocks = this
  let ?i = "makeReleaseDocID (bu_Package m) (bu_Version m)"
  consider "lookup s' ?i = None" | "lookup s' ?i = lookup s ?i" using del [of ?i] by fastforce
  then show ?thesis
  proof cases
    case 2
    from assms(1) show ?thesis
    proof (cases rule: upload_left_cases)
      case (3 bs)
      from upload_leftI(2) [OF _ 3(2) blocks [OF 3(3)]] 3(1) 2 show ?thesis by simp
    qed (use 2 upload_leftI(1) in simp_all)
  qed (simp add: upload_leftI)
qed

lemma update_package_result:
  assumes "update_package pkg f s = (r, s')"
  shows "r \<noteq> Panic \<and> (\<forall>k. k \<noteq> makePackageDocID pkg \<longrightarrow> lookup s' k = lookup s k)"
  using assms doc_Modify_view
  by (auto simp: update_package_def split: prod.splits outcome.splits dest!: doc_Modify_view)

lemma Upload_left:
  assumes up: "Upload hash m r s = (res, r', s')"
    and "plain (bu_Package m)" "plain (bu_Version m)"
    and new: "lookup s (makeReleaseDocID (bu_Package m) (bu_Version m)) = None"
  shows "upload_left hash m (read_bytes (rd_reads r)) s'"
proof (cases "bu_Package m = '''' \<or> bu_Version m = ''''")
  case True
  then show ?thesis using up new by (auto simp: Upload_def upload_left_def)
next
  case False
  let ?i = "makeReleaseDocID (bu_Package m) (bu_Version m)" and ?data = "read_bytes (rd_reads r)"
  have apart: "\<not> is_chunk m ?i" "\<not> is_chunk m (makePackageDocID (bu_Package m))" "?i \<noteq> makePackageDocID (bu_Package m)"
    using ids_apart [OF assms(2,3)] by (auto simp: is_chunk_def)
  obtain r1 s1 where create: "doc_Create id ?i (started_doc m) s = (r1, s1)" by fastforce
  have s1: "lookup s1 ?i = None \<or> lookup s1 ?i = Some (started_doc m)"
    using store.create_Ok [of id "(?i, started_doc m)" s] store.create_failed [of id "(?i, started_doc m)" s]
      create new doc_no_panic(4) [of id ?i "started_doc m" s] by (cases r1) fastforce+
  show ?thesis
  proof (cases r1)
    case (Ok u)
    obtain r2 rd s2 where chunks: "createDataChunks hash m r s1 = (r2, rd, s2)" by (metis surj_pair)
    obtain q pr where loop: "chunk_loop m (case rd_size r of Some n \<Rightarrow> n | None \<Rightarrow> 0) 0 [] [] (rd_reads r)
        (rd_progress r @ [(0, case rd_size r of Some n \<Rightarrow> n | None \<Rightarrow> 0, ''bytes'')]) s1 = (q, pr, s2)"
      and r2: "r2 = andThen q (\<lambda>(ids, hashed). Ok (ids, hash hashed))"
      using chunks by (auto simp: createDataChunks_def Let_def split: prod.splits)
    note cl = chunk_loop_result [OF loop, simplified]
    have s2: "upload_left hash m ?data s2" using s1 cl apart(1) by (auto simp: upload_left_def)
    show ?thesis
    proof (cases q)
      case (Err e)
      obtain e' t where del: "forceDelete e ?i s2 = (e', t)" by fastforce
      then have "s' = t"
        using up False create Ok chunks r2 Err by (simp add: Upload_def Let_def started_doc_def)
      then show ?thesis using upload_left_deleted [OF s2 forceDelete_only [OF del]] by simp
    next
      case Panic
      then show ?thesis using cl by simp
    next
      case loop_ok: (Ok p)
      obtain ids h where p: "p = (ids, h)" by (cases p)
      from cl loop_ok p obtain blocks where blocks: "ids = chunk_ids m 0 blocks" "h = concat blocks"
        "concat blocks = ?data" "stored_blocks m 0 blocks s2" by auto
      obtain r3 s3 where set: "doc_Set id ?i (complete_doc hash m blocks) s2 = (r3, s3)" by fastforce
      have view: "lookup s3 = lookup s2 \<or> lookup s3 = (lookup s2)(?i \<mapsto> complete_doc hash m blocks)"
        using store.set_failed [of id "(?i, complete_doc hash m blocks)" s2 r3 s3] set by simp
      have there: "list_all2 (\<lambda>k b. lookup s3 k = None \<or> lookup s3 k = Some (data_doc b)) (chunk_ids m 0 blocks) blocks"
      proof (rule list_all2_mono [OF blocks(4) [unfolded stored_blocks_def]])
        have same: "k \<noteq> ?i \<Longrightarrow> lookup s3 k = lookup s2 k" for k using view by auto
        show "lookup s3 k = None \<or> lookup s3 k = Some (data_doc b)" if "lookup s2 k = Some (data_doc b)" for k b
          using that view by (cases "k = ?i") (use s1 cl apart same in \<open>auto simp: data_doc_def started_doc_def\<close>)
      qed
      have s3: "upload_left hash m ?data s3"
      proof (cases "lookup s3 ?i = lookup s2 ?i")
        case True
        then show ?thesis using s1 cl apart(1) by (intro upload_leftI(1)) simp
      next
        case False
        then have "lookup s3 ?i = Some (complete_doc hash m blocks)" using view by auto
        from upload_leftI(2) [OF this blocks(3) there] show ?thesis .
      qed
      have doc3: "complete_doc hash m blocks = RelDoc (\<lparr>rl_Type = documentTypeReleaseBundle, rl_Package = bu_Package m,
          rl_Bundle = m, rl_DataChunks = [], rl_Checksum = ''''\<rparr>\<lparr>rl_DataChunks := ids, rl_Checksum := hash h\<rparr>)"
        by (simp add: complete_doc_def blocks(1,2))
      have mid: "Upload hash m r s = (case (r3, s3) of
          (Err e, s) \<Rightarrow> (let (e, s) = forceDelete (RelStore e) ?i s; (e, s) = forceRemoveChunks e ?i ids s in (Err e, rd, s))
        | (Panic, s) \<Rightarrow> (Panic, rd, s)
        | (Ok _, s) \<Rightarrow> (case update_package (bu_Package m) (\<lambda>p. p\<lparr>pk_Latest := bu_Version m\<rparr>) s of
             (Err e, s) \<Rightarrow> (let (e, s) = forceDelete e ?i s in (Err e, rd, s))
           | (Panic, s) \<Rightarrow> (Panic, rd, s)
           | (Ok _, s) \<Rightarrow> (Ok (), rd, s)))"
        using False create Ok chunks r2 loop_ok p set unfolding doc3
        by (simp add: Upload_def Let_def started_doc_def)
      show ?thesis
      proof (cases r3)
        case (Err e)
        obtain e1 t1 where d1: "forceDelete (RelStore e) ?i s3 = (e1, t1)" by fastforce
        obtain e2 t2 where d2: "forceRemoveChunks e1 ?i ids t1 = (e2, t2)" by fastforce
        have "s' = t2" using up mid Err d1 d2 by simp
        then show ?thesis
          using upload_left_deleted [OF upload_left_deleted [OF s3 forceDelete_only [OF d1]] forceRemoveChunks_only [OF d2]]
          by simp
      next
        case Panic
        then show ?thesis using set doc_no_panic(3) [of id ?i "complete_doc hash m blocks" s2] by simp
      next
        case set_ok: (Ok v)
        obtain r4 s4 where upd: "update_package (bu_Package m) (\<lambda>p. p\<lparr>pk_Latest := bu_Version m\<rparr>) s3 = (r4, s4)" by fastforce
        note u = update_package_result [OF upd]
        have chunk_keys: "list_all2 (\<lambda>k b. lookup s4 k = None \<or> lookup s4 k = Some (data_doc b)) (chunk_ids m 0 bs) bs"
          if "list_all2 (\<lambda>k b. lookup s3 k = None \<or> lookup s3 k = Some (data_doc b)) (chunk_ids m 0 bs) bs" for bs
        proof (rule list.rel_mono_strong [OF that])
          show "lookup s4 k = None \<or> lookup s4 k = Some (data_doc b)"
            if "k \<in> set (chunk_ids m 0 bs)" "lookup s3 k = None \<or> lookup s3 k = Some (data_doc b)" for k b
            using that u apart(2) chunk_ids_is_chunk by metis
        qed
        have eq: "lookup s4 ?i = lookup s3 ?i" using u apart(3) by blast
        have s4: "upload_left hash m ?data s4"
          by (rule upload_left_cases [OF s3]) (use eq in \<open>auto intro: upload_leftI chunk_keys\<close>)
        show ?thesis
        proof (cases r4)
          case (Err e)
          obtain e1 t1 where d1: "forceDelete e ?i s4 = (e1, t1)" by fastforce
          have "s' = t1" using up mid set_ok upd Err d1 by simp
          then show ?thesis using upload_left_deleted [OF s4 forceDelete_only [OF d1]] by simp
        qed (use up mid set_ok upd u s4 in simp_all)
      qed
    qed
  qed (use up False create s1 doc_no_panic(4) [of id ?i "started_doc m" s]
       in \<open>auto simp: Upload_def Let_def started_doc_def upload_left_def\<close>)
qed

section \<open>Uploads that succeed\<close>

lemma chunk_loop_no_faults:
  assumes "faults s = []" "reads_ok reads"
  shows "\<exists>ids' h pr' s'. chunk_loop m totalSize i ids hashed reads pr s = (Ok (ids', h), pr', s') \<and> faults s' = []"
  using assms
proof (induction m totalSize i ids hashed reads pr s rule: chunk_loop.induct)
  case (2 m totalSize i ids hashed data end' reads pr s)
  note put = doc_no_faults(1,6) [OF "2.prems"(1)]
  show ?case
  proof (cases end')
    case RMore
    show ?thesis
    proof (cases "data = []")
      case False
      have "reads_ok reads" using "2.prems"(2) RMore False by simp
      from "2.IH"(1) [OF RMore False refl refl refl _ _ _ _ this] show ?thesis
        using RMore False put by (simp add: Let_def)
    qed (use RMore "2.prems" in simp)
  qed (use "2.prems" put in \<open>simp_all add: Let_def\<close>)
qed simp

lemma createDataChunks_no_faults:
  assumes "faults s = []" "reads_ok (rd_reads r)"
  shows "\<exists>blocks rd s'. createDataChunks hash m r s = (Ok (chunk_ids m 0 blocks, hash (concat blocks)), rd, s') \<and>
    faults s' = [] \<and> concat blocks = read_bytes (rd_reads r) \<and> stored_blocks m 0 blocks s' \<and>
    (\<forall>k. \<not> is_chunk m k \<longrightarrow> lookup s' k = lookup s k)"
proof -
  obtain ids h pr s' where loop: "chunk_loop m (case rd_size r of Some n \<Rightarrow> n | None \<Rightarrow> 0) 0 [] [] (rd_reads r)
      (rd_progress r @ [(0, case rd_size r of Some n \<Rightarrow> n | None \<Rightarrow> 0, ''bytes'')]) s = (Ok (ids, h), pr, s')"
    and f: "faults s' = []" using chunk_loop_no_faults [OF assms] by metis
  from chunk_loop_result [OF loop] obtain blocks where "ids = chunk_ids m 0 blocks" "h = concat blocks"
    "concat blocks = read_bytes (rd_reads r)" "stored_blocks m 0 blocks s'" "\<forall>k. \<not> is_chunk m k \<longrightarrow> lookup s' k = lookup s k"
    by auto
  then show ?thesis using loop f by (auto simp: createDataChunks_def Let_def)
qed

text \<open>The state of an upload before it updates the package.\<close>

lemma Upload_no_faults:
  assumes "faults s = []" "reads_ok (rd_reads r)" "bu_Package m \<noteq> ''''" "bu_Version m \<noteq> ''''"
    and "plain (bu_Package m)" "plain (bu_Version m)"
    and new: "lookup s (makeReleaseDocID (bu_Package m) (bu_Version m)) = None"
  shows "\<exists>blocks rd s'. faults s' = [] \<and> concat blocks = read_bytes (rd_reads r) \<and> stored_blocks m 0 blocks s' \<and>
    lookup s' (makeReleaseDocID (bu_Package m) (bu_Version m)) = Some (complete_doc hash m blocks) \<and>
    lookup s' (makePackageDocID (bu_Package m)) = lookup s (makePackageDocID (bu_Package m)) \<and>
    Upload hash m r s =
      (case update_package (bu_Package m) (\<lambda>p. p\<lparr>pk_Latest := bu_Version m\<rparr>) s' of
         (Err e, s) \<Rightarrow> (let (e, s) = forceDelete e (makeReleaseDocID (bu_Package m) (bu_Version m)) s in (Err e, rd, s))
       | (Panic, s) \<Rightarrow> (Panic, rd, s)
       | (Ok _, s) \<Rightarrow> (Ok (), rd, s))"
proof -
  let ?i = "makeReleaseDocID (bu_Package m) (bu_Version m)" and ?p = "makePackageDocID (bu_Package m)"
  have apart: "\<not> is_chunk m ?i" "\<not> is_chunk m ?p" "?i \<noteq> ?p"
    using ids_apart [OF assms(5,6)] by (auto simp: is_chunk_def)
  let ?s1 = "put ?i (started_doc m) s"
  obtain blocks rd s2 where chunks: "createDataChunks hash m r ?s1 = (Ok (chunk_ids m 0 blocks, hash (concat blocks)), rd, s2)"
    and c: "faults s2 = []" "concat blocks = read_bytes (rd_reads r)" "stored_blocks m 0 blocks s2"
      "\<forall>k. \<not> is_chunk m k \<longrightarrow> lookup s2 k = lookup ?s1 k"
    using createDataChunks_no_faults [OF doc_no_faults(6) [OF assms(1)] assms(2)] by metis
  let ?s3 = "put ?i (complete_doc hash m blocks) s2"
  have "\<forall>k \<in> set (chunk_ids m 0 blocks). lookup ?s3 k = lookup s2 k"
    using chunk_ids_is_chunk apart(1) by auto
  then have "stored_blocks m 0 blocks ?s3" using stored_blocks_cong c(3) by blast
  moreover have "lookup ?s3 ?p = lookup s ?p" using c(4) apart by simp
  moreover have create: "doc_Create id ?i (started_doc m) s = (Ok (), ?s1)"
    using doc_no_faults(2) [OF assms(1), of id ?i "started_doc m"] new by simp
  have "Upload hash m r s =
      (case update_package (bu_Package m) (\<lambda>p. p\<lparr>pk_Latest := bu_Version m\<rparr>) ?s3 of
         (Err e, s) \<Rightarrow> (let (e, s) = forceDelete e ?i s in (Err e, rd, s))
       | (Panic, s) \<Rightarrow> (Panic, rd, s)
       | (Ok _, s) \<Rightarrow> (Ok (), rd, s))"
    unfolding Upload_def Let_def
    using assms(3,4) create [unfolded started_doc_def] chunks [unfolded started_doc_def]
      doc_no_faults(1) [OF c(1), of id ?i "complete_doc hash m blocks", unfolded complete_doc_def]
    by (simp add: complete_doc_def)
  ultimately show ?thesis using c doc_no_faults(6) [OF c(1)] by (intro exI [of _ blocks] exI [of _ rd] exI [of _ ?s3]) simp
qed

lemma write_loop_ok:
  assumes "faults s = []" "wr_faults w = []" "rel_codec_law C"
    and "list_all2 (\<lambda>k b. lookup s k = Some (data_doc b)) ids blocks"
  shows "\<exists>w'. write_loop C i n ids hashed w s = (Ok (hashed @ concat blocks), w', s) \<and>
    wr_data w' = wr_data w @ concat blocks"
  using assms(4,2)
proof (induction ids arbitrary: i blocks hashed w)
  case (Cons k ids)
  then obtain b bs where [simp]: "blocks = b # bs" and b: "lookup s k = Some (data_doc b)"
    and bs: "list_all2 (\<lambda>k b. lookup s k = Some (data_doc b)) ids bs" by (auto simp: list_all2_Cons1)
  have "get_as (as_data C) k s = (Ok \<lparr>da_Type = documentTypeData, da_Data = b\<rparr>, s)"
    using b assms(3) doc_no_faults(3) [OF assms(1)] by (simp add: get_as_def data_doc_def rel_codec_law_def)
  moreover have "writer_Write b w = (None, w\<lparr>wr_data := wr_data w @ b\<rparr>)" using Cons.prems(2) by (simp add: writer_Write_def)
  ultimately show ?case
    using Cons.IH [OF bs, of "writer_Progress (i + 1) n (w\<lparr>wr_data := wr_data w @ b\<rparr>)" "i + 1" "hashed @ b"] Cons.prems(2)
    by (simp add: writer_Progress_def)
qed simp

lemma rel_Get_ok:
  assumes "faults s = []" "wr_faults w = []" "\<not> wr_discard w" "rel_codec_law C"
    and "lookup s (makeReleaseDocID (bu_Package m) (bu_Version m)) = Some (complete_doc hash m blocks)"
    and "stored_blocks m 0 blocks s"
  shows "\<exists>w'. rel_Get hash C (bu_Package m) (bu_Version m) w s = (Ok m, w', s) \<and> wr_data w' = wr_data w @ concat blocks"
proof -
  let ?w = "writer_Progress 0 (length (chunk_ids m 0 blocks)) w"
  obtain w' where "write_loop C 0 (length (chunk_ids m 0 blocks)) (chunk_ids m 0 blocks) [] ?w s = (Ok (concat blocks), w', s)"
    "wr_data w' = wr_data w @ concat blocks"
    using write_loop_ok [OF assms(1) _ assms(4) assms(6) [unfolded stored_blocks_def], of ?w 0 _ "[]"] assms(2)
    by (auto simp: writer_Progress_def)
  then show ?thesis using assms(3,4,5) doc_no_faults(3) [OF assms(1)]
    by (simp add: rel_Get_def get_as_def complete_doc_def rel_codec_law_def writeChunks_def Let_def)
qed

lemma upload_then_get:
  assumes "faults s = []" "reads_ok (rd_reads r)" "bu_Package m \<noteq> ''''" "bu_Version m \<noteq> ''''"
    and "plain (bu_Package m)" "plain (bu_Version m)" "rel_codec_law C"
    and "lookup s (makeReleaseDocID (bu_Package m) (bu_Version m)) = None"
    and p: "lookup s (makePackageDocID (bu_Package m)) = Some (PkgDoc p)"
    and w: "wr_faults w = []" "\<not> wr_discard w"
  shows "\<exists>r' s' w'. Upload hash m r s = (Ok (), r', s') \<and>
    lookup s' (makePackageDocID (bu_Package m)) = Some (PkgDoc (p\<lparr>pd_Package := (pd_Package p)\<lparr>pk_Latest := bu_Version m\<rparr>\<rparr>)) \<and>
    rel_Get hash C (bu_Package m) (bu_Version m) w s' = (Ok m, w', s') \<and>
    wr_data w' = wr_data w @ read_bytes (rd_reads r)"
proof -
  let ?i = "makeReleaseDocID (bu_Package m) (bu_Version m)" and ?p = "makePackageDocID (bu_Package m)"
  obtain blocks rd t where t: "faults t = []" "concat blocks = read_bytes (rd_reads r)" "stored_blocks m 0 blocks t"
    "lookup t ?i = Some (complete_doc hash m blocks)" "lookup t ?p = lookup s ?p"
    "Upload hash m r s = (case update_package (bu_Package m) (\<lambda>p. p\<lparr>pk_Latest := bu_Version m\<rparr>) t of
       (Err e, s) \<Rightarrow> (let (e, s) = forceDelete e ?i s in (Err e, rd, s)) | (Panic, s) \<Rightarrow> (Panic, rd, s) | (Ok _, s) \<Rightarrow> (Ok (), rd, s))"
    using Upload_no_faults [OF assms(1-6,8)] by blast
  let ?t = "put ?p (PkgDoc (p\<lparr>pd_Package := (pd_Package p)\<lparr>pk_Latest := bu_Version m\<rparr>\<rparr>)) t"
  have upd: "update_package (bu_Package m) (\<lambda>p. p\<lparr>pk_Latest := bu_Version m\<rparr>) t = (Ok (), ?t)"
    using t(5) p doc_no_faults(5) [OF t(1)] by (simp add: update_package_def on_package_def)
  have apart: "\<not> is_chunk m ?p" "?i \<noteq> ?p" using ids_apart [OF assms(5,6)] by (auto simp: is_chunk_def)
  have "\<forall>k \<in> set (chunk_ids m 0 blocks). lookup ?t k = lookup t k" using chunk_ids_is_chunk apart(1) by auto
  then have "stored_blocks m 0 blocks ?t" using stored_blocks_cong t(3) by blast
  moreover have "lookup ?t ?i = Some (complete_doc hash m blocks)" using t(4) apart(2) by simp
  ultimately obtain w' where "rel_Get hash C (bu_Package m) (bu_Version m) w ?t = (Ok m, w', ?t)"
    "wr_data w' = wr_data w @ concat blocks"
    using rel_Get_ok [OF doc_no_faults(6) [OF t(1)] w assms(7)] by blast
  then show ?thesis using t(2,6) upd by (intro exI [of _ rd] exI [of _ ?t] exI [of _ w']) simp
qed

section \<open>Properties\<close>

lemma upload_left_get:
  assumes "rel_codec_law C" "\<forall>x. hash x \<noteq> ''''" and left: "upload_left hash m data s"
    and get: "rel_Get hash C (bu_Package m) (bu_Version m) w s = (Ok b, w', s')" "\<not> wr_discard w"
  shows "b = m \<and> wr_data w' = wr_data w @ data"
proof -
  let ?i = "makeReleaseDocID (bu_Package m) (bu_Version m)"
  obtain d doc blocks where g: "lookup s ?i = Some d" "as_release C d = Some doc" "b = rl_Bundle doc"
    "list_all2 (\<lambda>k b. \<exists>d x. lookup s k = Some d \<and> as_data C d = Some x \<and> b = da_Data x) (rl_DataChunks doc) blocks"
    "hash (concat blocks) = rl_Checksum doc" "wr_data w' = wr_data w @ concat blocks"
    using rel_Get_result [OF get] by blast
  from left show ?thesis
  proof (cases rule: upload_left_cases)
    case 2
    then have "rl_Checksum doc = ''''" using g(1,2) assms(1) by (auto simp: started_doc_def rel_codec_law_def)
    then show ?thesis using g(5) assms(2) by metis
  next
    case (3 bs)
    then have doc: "doc = \<lparr>rl_Type = documentTypeReleaseBundle, rl_Package = bu_Package m, rl_Bundle = m,
        rl_DataChunks = chunk_ids m 0 bs, rl_Checksum = hash (concat bs)\<rparr>"
      using g(1,2) assms(1) by (auto simp: complete_doc_def rel_codec_law_def)
    have "blocks = bs"
    proof (rule list.rel_eq [THEN fun_cong, THEN fun_cong, THEN iffD1], rule list_all2_all_nthI)
      show "length blocks = length bs" using g(4) 3(3) unfolding doc by (auto dest!: list_all2_lengthD)
      show "blocks ! j = bs ! j" if "j < length blocks" for j
        using that list_all2_nthD2 [OF g(4) that] list_all2_nthD [OF 3(3), of j] list_all2_lengthD [OF g(4)] assms(1)
        unfolding doc by (auto simp: data_doc_def rel_codec_law_def)
    qed
    then show ?thesis using g doc 3(2) by simp
  qed (use g(1) in simp)
qed

text \<open>The ways an upload ends.\<close>

lemma Upload_runs:
  assumes "Upload hash m r s = (res, r', s')"
  obtains (invalid) "res = Err RelInvalid" "s' = s"
  | (refused) c where "doc_Create id (makeReleaseDocID (bu_Package m) (bu_Version m)) (started_doc m) s = (Err c, s')"
      "res = Err (RelStore c)"
  | (chunks) s1 e rd s2 e' where
      "doc_Create id (makeReleaseDocID (bu_Package m) (bu_Version m)) (started_doc m) s = (Ok (), s1)"
      "createDataChunks hash m r s1 = (Err e, rd, s2)"
      "forceDelete e (makeReleaseDocID (bu_Package m) (bu_Version m)) s2 = (e', s')" "res = Err e'"
  | (seal) s1 ids sum rd s2 c s3 e t e' where
      "doc_Create id (makeReleaseDocID (bu_Package m) (bu_Version m)) (started_doc m) s = (Ok (), s1)"
      "createDataChunks hash m r s1 = (Ok (ids, sum), rd, s2)"
      "doc_Set id (makeReleaseDocID (bu_Package m) (bu_Version m)) (RelDoc \<lparr>rl_Type = documentTypeReleaseBundle,
         rl_Package = bu_Package m, rl_Bundle = m, rl_DataChunks = ids, rl_Checksum = sum\<rparr>) s2 = (Err c, s3)"
      "forceDelete (RelStore c) (makeReleaseDocID (bu_Package m) (bu_Version m)) s3 = (e, t)"
      "forceRemoveChunks e (makeReleaseDocID (bu_Package m) (bu_Version m)) ids t = (e', s')" "res = Err e'"
  | (sealed) s1 ids sum rd s2 s3 r4 s4 where
      "doc_Create id (makeReleaseDocID (bu_Package m) (bu_Version m)) (started_doc m) s = (Ok (), s1)"
      "createDataChunks hash m r s1 = (Ok (ids, sum), rd, s2)"
      "doc_Set id (makeReleaseDocID (bu_Package m) (bu_Version m)) (RelDoc \<lparr>rl_Type = documentTypeReleaseBundle,
         rl_Package = bu_Package m, rl_Bundle = m, rl_DataChunks = ids, rl_Checksum = sum\<rparr>) s2 = (Ok (), s3)"
      "update_package (bu_Package m) (\<lambda>p. p\<lparr>pk_Latest := bu_Version m\<rparr>) s3 = (r4, s4)"
      "(res, s') = (case r4 of Ok _ \<Rightarrow> (Ok (), s4) | Panic \<Rightarrow> (Panic, s4)
         | Err e \<Rightarrow> map_prod Err id (forceDelete e (makeReleaseDocID (bu_Package m) (bu_Version m)) s4))"
  | (panic) s1 rd s2 where "createDataChunks hash m r s1 = (Panic, rd, s2)"
proof (cases "bu_Package m = '''' \<or> bu_Version m = ''''")
  case True
  then show ?thesis using assms invalid by (simp add: Upload_def)
next
  case False
  let ?i = "makeReleaseDocID (bu_Package m) (bu_Version m)"
  obtain r1 s1 where c: "doc_Create id ?i (started_doc m) s = (r1, s1)" by fastforce
  obtain r2 rd s2 where ch: "createDataChunks hash m r s1 = (r2, rd, s2)" by (metis surj_pair)
  note run = assms [unfolded Upload_def Let_def, folded started_doc_def]
  show ?thesis
  proof (cases r1)
    case (Err e)
    then show ?thesis using run False c refused by (simp add: started_doc_def)
  next
    case Panic
    then show ?thesis using c doc_no_panic(4) [of id ?i "started_doc m" s] by simp
  next
    case Ok1: (Ok u)
    show ?thesis
    proof (cases r2)
      case (Err e)
      obtain e' t where "forceDelete e ?i s2 = (e', t)" by fastforce
      then show ?thesis using run False c ch Ok1 Err chunks by (simp add: started_doc_def)
    next
      case Panic
      then show ?thesis using ch panic by blast
    next
      case Ok2: (Ok v)
      obtain ids sum where v: "v = (ids, sum)" by fastforce
      let ?doc = "RelDoc \<lparr>rl_Type = documentTypeReleaseBundle, rl_Package = bu_Package m, rl_Bundle = m,
        rl_DataChunks = ids, rl_Checksum = sum\<rparr>"
      obtain r3 s3 where set: "doc_Set id ?i ?doc s2 = (r3, s3)" by fastforce
      show ?thesis
      proof (cases r3)
        case (Err e)
        obtain e1 t where "forceDelete (RelStore e) ?i s3 = (e1, t)" by fastforce
        moreover obtain e2 t2 where "forceRemoveChunks e1 ?i ids t = (e2, t2)" by fastforce
        ultimately show ?thesis using run False c ch Ok1 Ok2 v set Err seal by (simp add: started_doc_def)
      next
        case Panic
        then show ?thesis using set doc_no_panic(3) [of id ?i ?doc s2] by simp
      next
        case (Ok w)
        obtain r4 s4 where "update_package (bu_Package m) (\<lambda>p. p\<lparr>pk_Latest := bu_Version m\<rparr>) s3 = (r4, s4)" by fastforce
        then show ?thesis using run False c ch Ok1 Ok2 v set Ok
          by (intro sealed [of s1 ids sum rd s2 s3 r4 s4])
            (auto simp: started_doc_def split: outcome.splits prod.splits)
      qed
    qed
  qed
qed

lemma createDataChunks_result:
  assumes "createDataChunks hash m r s = (res, rd, s')"
  shows "res \<noteq> Panic \<and> (\<forall>k. \<not> is_chunk m k \<longrightarrow> lookup s' k = lookup s k) \<and>
    (\<forall>ids sum. res = Ok (ids, sum) \<longrightarrow> (\<exists>blocks. ids = chunk_ids m 0 blocks \<and> sum = hash (concat blocks) \<and>
       concat blocks = read_bytes (rd_reads r) \<and> stored_blocks m 0 blocks s'))"
proof -
  obtain q pr where loop: "chunk_loop m (case rd_size r of Some n \<Rightarrow> n | None \<Rightarrow> 0) 0 [] [] (rd_reads r)
      (rd_progress r @ [(0, case rd_size r of Some n \<Rightarrow> n | None \<Rightarrow> 0, ''bytes'')]) s = (q, pr, s')"
    and res: "res = andThen q (\<lambda>(ids, hashed). Ok (ids, hash hashed))"
    using assms by (auto simp: createDataChunks_def Let_def split: prod.splits)
  show ?thesis using chunk_loop_result [OF loop] unfolding res by (cases q) auto
qed

lemma forceDelete_result:
  assumes "forceDelete e i s = (e', s')"
  shows "lookup s' i = None \<or> (\<exists>re. e' = RelLeak i e re)" "k \<noteq> i \<Longrightarrow> lookup s' k = lookup s k"
  using assms doc_Delete_view [of i s] only_deleted_other [OF forceDelete_only [OF assms], of k]
  by (auto simp: forceDelete_def makeLeakError_def split: prod.splits outcome.splits)

lemma forceRemoveChunks_result:
  assumes "forceRemoveChunks e i ids s = (e', s')"
  shows "e' = e \<or> (\<exists>re. e' = RelLeak i e re)" "k \<notin> set ids \<Longrightarrow> lookup s' k = lookup s k"
  using assms only_deleted_other [OF forceRemoveChunks_only [OF assms], of k]
  by (auto simp: forceRemoveChunks_def makeLeakError_def split: prod.splits option.splits)

text \<open>What is left of the bundle's document, by the result of the upload.\<close>

definition bundle_complete :: "(bytes \<Rightarrow> string) \<Rightarrow> release_bundle \<Rightarrow> bytes \<Rightarrow> release_db \<Rightarrow> bool" where
  "bundle_complete hash m data s \<longleftrightarrow> (\<exists>blocks. concat blocks = data \<and> stored_blocks m 0 blocks s \<and>
     lookup s (makeReleaseDocID (bu_Package m) (bu_Version m)) = Some (complete_doc hash m blocks))"

definition package_points :: "release_bundle \<Rightarrow> release_db \<Rightarrow> release_db \<Rightarrow> bool" where
  "package_points m s s' \<longleftrightarrow> (\<exists>p. lookup s (makePackageDocID (bu_Package m)) = Some (PkgDoc p) \<and>
     lookup s' (makePackageDocID (bu_Package m)) = Some (PkgDoc (p\<lparr>pd_Package := (pd_Package p)\<lparr>pk_Latest := bu_Version m\<rparr>\<rparr>)))"

lemma update_package_points:
  assumes "update_package (bu_Package m) (\<lambda>p. p\<lparr>pk_Latest := bu_Version m\<rparr>) t = (r, s')"
    and "lookup t (makePackageDocID (bu_Package m)) = lookup s (makePackageDocID (bu_Package m))"
    and "\<forall>d. lookup s (makePackageDocID (bu_Package m)) = Some d \<longrightarrow> (\<exists>p. d = PkgDoc p)"
  shows "r = Ok () \<Longrightarrow> package_points m s s'"
    "lookup s' (makePackageDocID (bu_Package m)) = lookup s (makePackageDocID (bu_Package m)) \<or> package_points m s s'"
proof -
  let ?p = "makePackageDocID (bu_Package m)" and ?f = "on_package (\<lambda>p. p\<lparr>pk_Latest := bu_Version m\<rparr>)"
  obtain q where q: "doc_Modify ?f ?p t = (q, s')" "r = Ok () \<Longrightarrow> q = Ok ()"
    using assms(1) by (auto simp: update_package_def split: prod.splits outcome.splits)
  have points: "package_points m s s'" if "lookup t ?p = Some d" "lookup s' = (lookup t)(?p \<mapsto> ?f d)" for d
    using that assms(2,3) by (fastforce simp: package_points_def on_package_def)
  show "r = Ok () \<Longrightarrow> package_points m s s'" "lookup s' ?p = lookup s ?p \<or> package_points m s s'"
    using doc_Modify_view [OF q(1)] q(2) points assms(2) by auto
qed

lemma Upload_outcome:
  assumes up: "Upload hash m r s = (res, r', s')" and plain: "plain (bu_Package m)" "plain (bu_Version m)"
    and new: "lookup s (makeReleaseDocID (bu_Package m) (bu_Version m)) = None"
    and pkg: "\<forall>d. lookup s (makePackageDocID (bu_Package m)) = Some d \<longrightarrow> (\<exists>p. d = PkgDoc p)"
  shows "(res = Ok () \<and> bundle_complete hash m (read_bytes (rd_reads r)) s' \<and> package_points m s s' \<or>
      (\<exists>e. res = Err e \<and> (lookup s' (makePackageDocID (bu_Package m)) = lookup s (makePackageDocID (bu_Package m)) \<or> package_points m s s') \<and>
        (lookup s' (makeReleaseDocID (bu_Package m) (bu_Version m)) = None \<or>
         (\<exists>e0 re. e = RelLeak (makeReleaseDocID (bu_Package m) (bu_Version m)) e0 re) \<or>
         (\<exists>c. fst (doc_Create id (makeReleaseDocID (bu_Package m) (bu_Version m)) (started_doc m) s) = Err c \<and> e = RelStore c)))) \<and>
    (\<forall>k. \<not> is_chunk m k \<and> k \<noteq> makeReleaseDocID (bu_Package m) (bu_Version m) \<and> k \<noteq> makePackageDocID (bu_Package m) \<longrightarrow>
       lookup s' k = lookup s k)"
proof -
  let ?i = "makeReleaseDocID (bu_Package m) (bu_Version m)" and ?p = "makePackageDocID (bu_Package m)"
  have apart: "\<not> is_chunk m ?i" "\<not> is_chunk m ?p" "?p \<noteq> ?i" using ids_apart [OF plain] by (auto simp: is_chunk_def)
  have create: "k \<noteq> ?i \<Longrightarrow> lookup t k = lookup s k" if "doc_Create id ?i (started_doc m) s = (q, t)" for q t k
    using that store.create_Ok [of id "(?i, started_doc m)" s] store.create_failed [of id "(?i, started_doc m)" s]
      doc_no_panic(4) [of id ?i "started_doc m" s] by (cases q) fastforce+
  have set: "k \<noteq> ?i \<Longrightarrow> lookup t' k = lookup t k" if "doc_Set id ?i d t = (q, t')" for d q t t' k
    using that store.set_failed [of id "(?i, d)" t] by fastforce
  show ?thesis
    using up
  proof (cases rule: Upload_runs)
    case invalid
    then show ?thesis using new by simp
  next
    case (refused c)
    then show ?thesis using create [OF refused(1)] apart by auto
  next
    case (chunks s1 e rd s2 e')
    note del = forceDelete_result [OF chunks(3)] and frame = createDataChunks_result [OF chunks(2)]
    have fr: "\<not> is_chunk m k \<Longrightarrow> lookup s2 k = lookup s1 k" for k using frame by blast
    have keep: "k \<noteq> ?i \<Longrightarrow> \<not> is_chunk m k \<Longrightarrow> lookup s' k = lookup s k" for k
      by (simp add: del(2) fr create [OF chunks(1)])
    then show ?thesis using chunks(4) del(1) apart by blast
  next
    case (seal s1 ids sum rd s2 c s3 e t e')
    note del = forceDelete_result [OF seal(4)] and frame = createDataChunks_result [OF seal(2)]
      and rem = forceRemoveChunks_result [OF seal(5)]
    obtain blocks where "ids = chunk_ids m 0 blocks" using frame by blast
    then have ids: "k \<in> set ids \<Longrightarrow> is_chunk m k" for k using chunk_ids_is_chunk by simp
    have fr: "\<not> is_chunk m k \<Longrightarrow> lookup s2 k = lookup s1 k" for k using frame by blast
    have kept: "\<not> is_chunk m k \<Longrightarrow> lookup s' k = lookup t k" for k using rem(2) ids by blast
    have keep: "k \<noteq> ?i \<Longrightarrow> \<not> is_chunk m k \<Longrightarrow> lookup s' k = lookup s k" for k
      by (simp add: kept del(2) fr create [OF seal(1)] set [OF seal(3)])
    have "lookup s' ?i = None \<or> (\<exists>e0 re. e' = RelLeak ?i e0 re)"
      using del(1) rem(1) kept [OF apart(1)] by auto
    then show ?thesis using seal(6) keep apart by blast
  next
    case (sealed s1 ids sum rd s2 s3 r4 s4)
    note frame = createDataChunks_result [OF sealed(2)] and upd = update_package_result [OF sealed(4)]
    have fr: "\<not> is_chunk m k \<Longrightarrow> lookup s2 k = lookup s1 k" for k using frame by blast
    have keep3: "k \<noteq> ?i \<Longrightarrow> \<not> is_chunk m k \<Longrightarrow> lookup s3 k = lookup s k" for k
      by (simp add: fr create [OF sealed(1)] set [OF sealed(3)])
    note points = update_package_points [OF sealed(4) keep3 [OF apart(3,2)] pkg]
    have keep: "k \<noteq> ?i \<Longrightarrow> \<not> is_chunk m k \<Longrightarrow> k \<noteq> ?p \<Longrightarrow> lookup s4 k = lookup s k" for k
      using keep3 upd by simp
    show ?thesis
    proof (cases r4)
      case (Ok u)
      obtain blocks where bs: "ids = chunk_ids m 0 blocks" "sum = hash (concat blocks)"
        "concat blocks = read_bytes (rd_reads r)" "stored_blocks m 0 blocks s2" using frame by blast
      have "lookup s3 ?i = Some (complete_doc hash m blocks)"
        using sealed(3) store.set_Ok [of id "(?i, complete_doc hash m blocks)" s2 "()" s3] bs(1,2)
        by (simp add: complete_doc_def)
      then have doc: "lookup s4 ?i = Some (complete_doc hash m blocks)" using upd apart(3) by metis
      have ne: "k \<noteq> ?i \<and> k \<noteq> ?p" if "k \<in> set (chunk_ids m 0 blocks)" for k
        using chunk_ids_is_chunk [OF that] apart by blast
      have "\<forall>k \<in> set (chunk_ids m 0 blocks). lookup s4 k = lookup s2 k"
        using ne upd by (simp add: set [OF sealed(3)])
      then have "stored_blocks m 0 blocks s4" using stored_blocks_cong bs(4) by blast
      then have "bundle_complete hash m (read_bytes (rd_reads r)) s4" using doc bs(3) unfolding bundle_complete_def by blast
      then show ?thesis using Ok sealed(5) points(1) keep by simp
    next
      case (Err e)
      obtain e' t where del: "forceDelete e ?i s4 = (e', t)" by fastforce
      then have res: "res = Err e'" "s' = t" using sealed(5) Err by simp_all
      note d = forceDelete_result [OF del]
      have "lookup t ?p = lookup s4 ?p" using d(2) apart(3) by blast
      then have "lookup t ?p = lookup s ?p \<or> package_points m s t" using points(2) by (simp add: package_points_def)
      moreover have "k \<noteq> ?i \<Longrightarrow> \<not> is_chunk m k \<Longrightarrow> k \<noteq> ?p \<Longrightarrow> lookup t k = lookup s k" for k
        using keep by (simp add: d(2))
      ultimately show ?thesis unfolding res using d(1) by blast
    next
      case Panic
      then show ?thesis using upd by simp
    qed
  next
    case (panic s1 rd s2)
    then show ?thesis using createDataChunks_result by blast
  qed
qed

text \<open>
  C28 (upload_all_or_nothing).
  An upload of a new release, whatever fails and wherever (the reader, any call to the store, the
  clean-up). If it succeeds, the bundle's document is there with the checksum of what the reader gave,
  every chunk it names is stored, and the package names the version as its latest. If it returns an
  error, no document of the bundle remains, unless the error is that of the creation itself, which may
  have taken effect, or reports a leak because the clean-up failed too; and the package is as it was,
  unless the update of the package failed after it took effect. No document but those of the bundle and of
  its package changes. In all these cases a later download under whatever further failures, if it succeeds,
  returns the manifest and has written exactly the bytes that the reader gave. It assumes names without a
  colon, which keep the identifiers of documents apart, that the document of a package is one, and that
  no checksum is the empty string.
\<close>

theorem upload_all_or_nothing:
  assumes "plain (bu_Package m)" "plain (bu_Version m)" "rel_codec_law C" "\<forall>x. hash x \<noteq> ''''"
    and "lookup s (makeReleaseDocID (bu_Package m) (bu_Version m)) = None"
    and "\<forall>d. lookup s (makePackageDocID (bu_Package m)) = Some d \<longrightarrow> (\<exists>p. d = PkgDoc p)"
    and up: "Upload hash m r s = (res, r', s')"
  shows "(res = Ok () \<and> bundle_complete hash m (read_bytes (rd_reads r)) s' \<and> package_points m s s' \<or>
      (\<exists>e. res = Err e \<and> (lookup s' (makePackageDocID (bu_Package m)) = lookup s (makePackageDocID (bu_Package m)) \<or> package_points m s s') \<and>
        (lookup s' (makeReleaseDocID (bu_Package m) (bu_Version m)) = None \<or>
         (\<exists>e0 re. e = RelLeak (makeReleaseDocID (bu_Package m) (bu_Version m)) e0 re) \<or>
         (\<exists>c. fst (doc_Create id (makeReleaseDocID (bu_Package m) (bu_Version m)) (started_doc m) s) = Err c \<and> e = RelStore c)))) \<and>
    (\<forall>k. \<not> is_chunk m k \<and> k \<noteq> makeReleaseDocID (bu_Package m) (bu_Version m) \<and> k \<noteq> makePackageDocID (bu_Package m) \<longrightarrow>
       lookup s' k = lookup s k) \<and>
    (\<forall>w b w' s''. rel_Get hash C (bu_Package m) (bu_Version m) w s' = (Ok b, w', s'') \<and> \<not> wr_discard w \<longrightarrow>
       b = m \<and> wr_data w' = wr_data w @ read_bytes (rd_reads r))"
  using Upload_outcome [OF up assms(1,2,5,6)] upload_left_get [OF assms(3,4) Upload_left [OF up assms(1,2,5)]] by blast

definition tag_codec :: rel_codec where
  "tag_codec = \<lparr>as_release = (\<lambda>d. case d of RelDoc x \<Rightarrow> Some x | _ \<Rightarrow> None),
     as_package = (\<lambda>d. case d of PkgDoc x \<Rightarrow> Some x | _ \<Rightarrow> None),
     as_data = (\<lambda>d. case d of DataDoc x \<Rightarrow> Some x | _ \<Rightarrow> None)\<rparr>"

lemma tag_codec_law: "rel_codec_law tag_codec"
  by (simp add: tag_codec_def rel_codec_law_def)

definition length_hash :: "bytes \<Rightarrow> string" where
  "length_hash b = CHR ''h'' # show_nat (length b)"

definition sample_bundle :: release_bundle where
  "sample_bundle = \<lparr>bu_Package = ''tool'', bu_Version = ''1'', bu_Notes = '''', bu_Metadata = [], bu_CreatedAt = zeroTime\<rparr>"

definition sample_package_doc :: package_document where
  "sample_package_doc = \<lparr>pd_Type = documentTypePackage, pd_Package = \<lparr>pk_Name = ''tool'', pk_Latest = '''', pk_Notes = '''',
     pk_Metadata = [], pk_CreatedAt = zeroTime\<rparr>\<rparr>"

definition sample_reader :: reader where
  "sample_reader = \<lparr>rd_reads = [([1, 2], RMore), ([3], REOF)], rd_size = Some 3, rd_progress = [], rd_seek = NoSeek\<rparr>"

definition empty_writer :: writer where
  "empty_writer = \<lparr>wr_data = [], wr_faults = [], wr_progress = [], wr_discard = False, wr_seeks = False\<rparr>"

lemma sample_upload:
  defines "s \<equiv> \<lparr>docs = [(''package:tool'', PkgDoc sample_package_doc)], faults = []\<rparr> :: release_db"
  shows "faults s = []" "reads_ok (rd_reads sample_reader)" "bu_Package sample_bundle \<noteq> ''''"
    "bu_Version sample_bundle \<noteq> ''''" "plain (bu_Package sample_bundle)" "plain (bu_Version sample_bundle)"
    "lookup s (makeReleaseDocID (bu_Package sample_bundle) (bu_Version sample_bundle)) = None"
    "lookup s (makePackageDocID (bu_Package sample_bundle)) = Some (PkgDoc sample_package_doc)"
    "wr_faults empty_writer = []" "\<not> wr_discard empty_writer"
  by (simp_all add: s_def sample_reader_def sample_bundle_def plain_def makeReleaseDocID_def makePackageDocID_def
      lookup_def empty_writer_def)

text \<open>
  Without failures a new release of a package that exists is uploaded, becomes the latest version of
  the package, and is downloaded again with its manifest and its bytes.
\<close>

theorem upload_download:
  assumes "faults s = []" "reads_ok (rd_reads r)" "bu_Package m \<noteq> ''''" "bu_Version m \<noteq> ''''"
    and "plain (bu_Package m)" "plain (bu_Version m)" "rel_codec_law C"
    and "lookup s (makeReleaseDocID (bu_Package m) (bu_Version m)) = None"
    and p: "lookup s (makePackageDocID (bu_Package m)) = Some (PkgDoc p)"
    and w: "wr_faults w = []" "\<not> wr_discard w"
  shows "\<exists>r' s' w'. Upload hash m r s = (Ok (), r', s') \<and>
    lookup s' (makePackageDocID (bu_Package m)) = Some (PkgDoc (p\<lparr>pd_Package := (pd_Package p)\<lparr>pk_Latest := bu_Version m\<rparr>\<rparr>)) \<and>
    rel_Get hash C (bu_Package m) (bu_Version m) w s' = (Ok m, w', s') \<and>
    wr_data w' = wr_data w @ read_bytes (rd_reads r)"
  by (rule upload_then_get [OF assms(1-8) p w])

theorem upload_download_witness:
  "\<exists>r' s' w'. Upload length_hash sample_bundle sample_reader
      \<lparr>docs = [(''package:tool'', PkgDoc sample_package_doc)], faults = []\<rparr> = (Ok (), r', s') \<and>
    rel_Get length_hash tag_codec ''tool'' ''1'' empty_writer s' = (Ok sample_bundle, w', s') \<and> wr_data w' = [1, 2, 3]"
  using upload_download [OF sample_upload(1-6) tag_codec_law sample_upload(7-10), of length_hash]
  by (auto simp: sample_bundle_def sample_reader_def empty_writer_def)

theorem upload_all_or_nothing_witness:
  "\<exists>r' s' w'. Upload length_hash sample_bundle sample_reader
      \<lparr>docs = [(''package:tool'', PkgDoc sample_package_doc)], faults = []\<rparr> = (Ok (), r', s') \<and> wr_data w' = [1, 2, 3] \<and>
    rel_Get length_hash tag_codec ''tool'' ''1'' empty_writer s' = (Ok sample_bundle, w', s') \<and>
    bundle_complete length_hash sample_bundle [1, 2, 3] s' \<and>
    package_points sample_bundle \<lparr>docs = [(''package:tool'', PkgDoc sample_package_doc)], faults = []\<rparr> s'"
proof -
  note pre = sample_upload
  obtain r' s' w' where run: "Upload length_hash sample_bundle sample_reader
      \<lparr>docs = [(''package:tool'', PkgDoc sample_package_doc)], faults = []\<rparr> = (Ok (), r', s')"
    and get: "rel_Get length_hash tag_codec (bu_Package sample_bundle) (bu_Version sample_bundle) empty_writer s' =
      (Ok sample_bundle, w', s')"
    using upload_then_get [OF pre(1-6) tag_codec_law pre(7-10), of length_hash] by blast
  have pkg: "\<forall>d. lookup \<lparr>docs = [(''package:tool'', PkgDoc sample_package_doc)], faults = []\<rparr>
      (makePackageDocID (bu_Package sample_bundle)) = Some d \<longrightarrow> (\<exists>p. d = PkgDoc p)"
    by (simp add: lookup_def)
  have h: "\<forall>x. length_hash x \<noteq> ''''" by (simp add: length_hash_def)
  note all = upload_all_or_nothing [OF pre(5,6) tag_codec_law h pre(7) pkg run]
  have "wr_data w' = [1, 2, 3]" using all get pre(10) by (fastforce simp: sample_reader_def empty_writer_def)
  moreover have "bundle_complete length_hash sample_bundle [1, 2, 3] s'"
    "package_points sample_bundle \<lparr>docs = [(''package:tool'', PkgDoc sample_package_doc)], faults = []\<rparr> s'"
    using all by (simp_all add: sample_reader_def)
  ultimately show ?thesis using run get by (auto simp: sample_bundle_def)
qed

text \<open>
  The upload of a release of a package that does not exist fails, without any other failure, and
  removes its document again, but not the chunks it has stored: all the data stays, and nothing refers
  to it any more.
\<close>

theorem upload_leaks_chunks:
  assumes "faults s = []" "reads_ok (rd_reads r)" "bu_Package m \<noteq> ''''" "bu_Version m \<noteq> ''''"
    and "plain (bu_Package m)" "plain (bu_Version m)"
    and "lookup s (makeReleaseDocID (bu_Package m) (bu_Version m)) = None"
    and p: "lookup s (makePackageDocID (bu_Package m)) = None"
  shows "\<exists>r' s' blocks. Upload hash m r s = (Err (RelNoPackage (bu_Package m)), r', s') \<and>
    lookup s' (makeReleaseDocID (bu_Package m) (bu_Version m)) = None \<and>
    concat blocks = read_bytes (rd_reads r) \<and> stored_blocks m 0 blocks s'"
proof -
  let ?i = "makeReleaseDocID (bu_Package m) (bu_Version m)" and ?p = "makePackageDocID (bu_Package m)"
  obtain blocks rd t where t: "faults t = []" "concat blocks = read_bytes (rd_reads r)" "stored_blocks m 0 blocks t"
    "lookup t ?p = lookup s ?p"
    "Upload hash m r s = (case update_package (bu_Package m) (\<lambda>p. p\<lparr>pk_Latest := bu_Version m\<rparr>) t of
       (Err e, s) \<Rightarrow> (let (e, s) = forceDelete e ?i s in (Err e, rd, s)) | (Panic, s) \<Rightarrow> (Panic, rd, s) | (Ok _, s) \<Rightarrow> (Ok (), rd, s))"
    using Upload_no_faults [OF assms(1-7)] by blast
  let ?t = "t\<lparr>docs := AList.delete ?i (docs t)\<rparr>"
  have "update_package (bu_Package m) (\<lambda>p. p\<lparr>pk_Latest := bu_Version m\<rparr>) t = (Err (RelNoPackage (bu_Package m)), t)"
    using t(4) p doc_no_faults(5) [OF t(1)] by (simp add: update_package_def)
  then have run: "Upload hash m r s = (Err (RelNoPackage (bu_Package m)), rd, ?t)"
    using t(5) doc_no_faults(4) [OF t(1)] by (simp add: forceDelete_def)
  have "\<not> is_chunk m ?i" using ids_apart [OF assms(5,6)] by (auto simp: is_chunk_def)
  then have "\<forall>k \<in> set (chunk_ids m 0 blocks). lookup ?t k = lookup t k" using chunk_ids_is_chunk by auto
  then have "stored_blocks m 0 blocks ?t" using stored_blocks_cong t(3) by blast
  then show ?thesis using run t(2) by (intro exI [of _ rd] exI [of _ ?t] exI [of _ blocks]) simp
qed

theorem upload_leaks_chunks_witness:
  "\<exists>r' s' blocks. Upload length_hash sample_bundle sample_reader \<lparr>docs = [], faults = []\<rparr> =
      (Err (RelNoPackage ''tool''), r', s') \<and> concat blocks = [1, 2, 3] \<and> stored_blocks sample_bundle 0 blocks s'"
proof -
  let ?s = "\<lparr>docs = [], faults = []\<rparr> :: release_db"
  have pre: "faults ?s = []" "reads_ok (rd_reads sample_reader)" "bu_Package sample_bundle \<noteq> ''''"
    "bu_Version sample_bundle \<noteq> ''''" "plain (bu_Package sample_bundle)" "plain (bu_Version sample_bundle)"
    "lookup ?s k = None" for k
    by (simp_all add: sample_reader_def sample_bundle_def plain_def lookup_def)
  from upload_leaks_chunks [OF pre(1-6) pre(7) pre(7), of length_hash]
  show ?thesis by (auto simp: sample_bundle_def sample_reader_def)
qed

end
