(* ===== verification/ReleaseApi.thy ===== *)
theory ReleaseApi
  imports ReleaseManager
begin

text \<open>
  The interface of a release manager (\<^verbatim>\<open>release/manager.go\<close>), the adapters of readers and
  writers between managers (\<^verbatim>\<open>release/progress.go\<close>), the manager over documents as an
  instance, and the contract that managers built on another one rely on.
\<close>

section \<open>The interface\<close>

definition Latest :: string where
  "Latest = ''latest''"

record ('e, 's) manager =
  mg_Create :: "release_package \<Rightarrow> 's \<Rightarrow> ('e, unit) outcome \<times> 's"
  mg_UpdatePackageMetadata :: "string \<Rightarrow> (string \<times> string) list \<Rightarrow> 's \<Rightarrow> ('e, unit) outcome \<times> 's"
  mg_DeletePackage :: "string \<Rightarrow> 's \<Rightarrow> ('e, unit) outcome \<times> 's"
  mg_GetPackage :: "string \<Rightarrow> 's \<Rightarrow> ('e, release_package) outcome \<times> 's"
  mg_ListPackages :: "(string \<times> string) list \<Rightarrow> 's \<Rightarrow> ('e, release_package list) outcome \<times> 's"
  mg_Upload :: "release_bundle \<Rightarrow> reader \<Rightarrow> 's \<Rightarrow> ('e, unit) outcome \<times> reader \<times> 's"
  mg_Get :: "string \<Rightarrow> string \<Rightarrow> writer \<Rightarrow> 's \<Rightarrow> ('e, release_bundle) outcome \<times> writer \<times> 's"
  mg_Delete :: "string \<Rightarrow> string \<Rightarrow> 's \<Rightarrow> ('e, unit) outcome \<times> 's"
  mg_List :: "string \<Rightarrow> (string \<times> string) list \<Rightarrow> 's \<Rightarrow> ('e, release_bundle list) outcome \<times> 's"

definition doc_manager :: "(bytes \<Rightarrow> string) \<Rightarrow> rel_codec \<Rightarrow> (release_err, release_db) manager" where
  "doc_manager hash C = \<lparr>mg_Create = rel_Create, mg_UpdatePackageMetadata = UpdatePackageMetadata,
     mg_DeletePackage = rel_DeletePackage C, mg_GetPackage = rel_GetPackage C,
     mg_ListPackages = rel_ListPackages C, mg_Upload = Upload hash, mg_Get = rel_Get hash C,
     mg_Delete = rel_Delete C, mg_List = rel_List C\<rparr>"

section \<open>Adapters\<close>

text \<open>
  \<open>NopProgressWriter(io.Discard)\<close>; \<open>NopProgressReader\<close> of no bytes, which does not seek and has no
  size; a writer that relays to a buffer, or to a writer that seeks, and reports to the original.
\<close>

definition discard_writer :: writer where
  "discard_writer = \<lparr>wr_data = [], wr_faults = [], wr_progress = [], wr_discard = True, wr_seeks = False\<rparr>"

definition nop_reader :: reader where
  "nop_reader = \<lparr>rd_reads = [], rd_size = None, rd_progress = [], rd_seek = NoSeek\<rparr>"

definition relay_to_buffer :: "writer \<Rightarrow> writer" where
  "relay_to_buffer out =
     \<lparr>wr_data = [], wr_faults = [], wr_progress = wr_progress out, wr_discard = False, wr_seeks = False\<rparr>"

definition relay_to_file :: "writer \<Rightarrow> writer" where
  "relay_to_file out = out\<lparr>wr_discard := False, wr_seeks := False\<rparr>"

text \<open>
  \<open>NewRelayProgressReader\<close>. Its \<open>Seek\<close> asks for the seeker among the writers, and there is none: the
  assertion on the nil interface panics.
\<close>

definition NewRelayProgressReader :: "(bytes \<times> read_end) list \<Rightarrow> reader \<Rightarrow> reader" where
  "NewRelayProgressReader reads in' = in'\<lparr>rd_reads := reads, rd_seek := SeekPanics\<rparr>"

text \<open>What a buffer returns to calls that ask for \<open>n\<close> bytes at a time.\<close>

function buffer_reads :: "nat \<Rightarrow> bytes \<Rightarrow> (bytes \<times> read_end) list" where
  "buffer_reads n data = (if data = [] \<or> n = 0 then [] else (take n data, RMore) # buffer_reads n (drop n data))"
  by pat_completeness auto
termination by (relation "measure (\<lambda>(n, data). length data)") auto

declare buffer_reads.simps [simp del]

text \<open>\<open>io.Copy\<close> reads on after an empty read.\<close>

fun copy_all :: "(bytes \<times> read_end) list \<Rightarrow> (string, bytes) outcome" where
  "copy_all [] = Ok []"
| "copy_all ((data, end') # reads) =
     (case end' of
        REOF \<Rightarrow> Ok data
      | RFail msg \<Rightarrow> Err msg
      | RMore \<Rightarrow> andThen (copy_all reads) (\<lambda>rest. Ok (data @ rest)))"

section \<open>What a manager on top of another relies on\<close>

text \<open>
  A release that is new to the manager (\<open>fresh\<close>) and has been uploaded is held: what is got is the
  manifest as the manager stores it and the bytes that were read. Getting changes nothing.
\<close>

definition no_empty_reads :: "(bytes \<times> read_end) list \<Rightarrow> bool" where
  "no_empty_reads reads \<longleftrightarrow> (\<forall>(data, end') \<in> set reads. end' = RMore \<longrightarrow> data \<noteq> [])"

lemma no_empty_reads_simps [simp]:
  "no_empty_reads []"
  "no_empty_reads ((data, end') # reads) \<longleftrightarrow> (end' = RMore \<longrightarrow> data \<noteq> []) \<and> no_empty_reads reads"
  by (auto simp: no_empty_reads_def)

lemma copy_all_read_bytes: "no_empty_reads reads \<Longrightarrow> copy_all reads = Ok data \<Longrightarrow> read_bytes reads = data"
  by (induction reads arbitrary: data rule: copy_all.induct) (auto simp: outcome_simps split: read_end.splits)

lemma buffer_reads_ok: "0 < n \<Longrightarrow> copy_all (buffer_reads n data) = Ok data \<and> no_empty_reads (buffer_reads n data)"
proof (induction n data rule: buffer_reads.induct)
  case (1 n data)
  show ?case
  proof (cases "data = []")
    case False
    then have "copy_all (buffer_reads n (drop n data)) = Ok (drop n data) \<and> no_empty_reads (buffer_reads n (drop n data))"
      using 1 by simp
    then show ?thesis using False 1(2) by (subst (1 2) buffer_reads.simps) simp
  qed (simp add: buffer_reads.simps)
qed

text \<open>A reader of \<open>data\<close>, from where it is and, if it seeks, from its start.\<close>

definition gives :: "reader \<Rightarrow> bytes \<Rightarrow> bool" where
  "gives r data \<longleftrightarrow> no_empty_reads (rd_reads r) \<and> copy_all (rd_reads r) = Ok data \<and>
     (\<forall>reads. rd_seek r = SeekTo reads \<longrightarrow> no_empty_reads reads \<and> copy_all reads = Ok data)"

lemma gives_relay: "no_empty_reads reads \<Longrightarrow> copy_all reads = Ok data \<Longrightarrow> gives (NewRelayProgressReader reads r) data"
  by (simp add: gives_def NewRelayProgressReader_def)

lemma gives_nop [simp]: "gives nop_reader []"
  by (simp add: gives_def nop_reader_def)

locale release_store =
  fixes M :: "('e, 's) manager"
    and fresh :: "string \<Rightarrow> string \<Rightarrow> 's \<Rightarrow> bool"
    and holds :: "release_bundle \<Rightarrow> bytes \<Rightarrow> 's \<Rightarrow> bool"
    and stored :: "release_bundle \<Rightarrow> bytes \<Rightarrow> release_bundle \<Rightarrow> bool"
  assumes upload_holds: "fresh (bu_Package m) (bu_Version m) s \<Longrightarrow> mg_Upload M m r s = (Ok (), r', s') \<Longrightarrow>
      gives r data \<Longrightarrow> holds m data s'"
    and get_held: "holds m data s \<Longrightarrow> mg_Get M (bu_Package m) (bu_Version m) w s = (Ok b, w', s') \<Longrightarrow>
      stored m data b \<and> (wr_discard w \<or> wr_data w' = wr_data w @ data)"
    and holds_get: "holds m data s \<Longrightarrow> mg_Get M pkg ver w s = (res, w', s') \<Longrightarrow> holds m data s'"
    and fresh_get: "fresh pkg ver s \<Longrightarrow> mg_Get M pkg' ver' w s = (res, w', s') \<Longrightarrow> fresh pkg ver s'"
    and get_package_holds: "holds m data s \<Longrightarrow> mg_GetPackage M pkg s = (pres, s') \<Longrightarrow> holds m data s'"
    and get_package_fresh: "fresh pkg ver s \<Longrightarrow> mg_GetPackage M pkg' s = (pres, s') \<Longrightarrow> fresh pkg ver s'"
begin

lemma upload_get:
  assumes "fresh (bu_Package m) (bu_Version m) s" "mg_Upload M m r s = (Ok (), r', s')"
    and "gives r data" and "mg_Get M (bu_Package m) (bu_Version m) w s' = (Ok b, w', s'')"
  shows "stored m data b" "(wr_discard w \<or> wr_data w' = wr_data w @ data)" "holds m data s''"
  using get_held [OF upload_holds [OF assms(1-3)] assms(4)] holds_get [OF upload_holds [OF assms(1-3)] assms(4)] by simp_all

end

section \<open>The manager over documents\<close>

definition rel_fresh :: "(bytes \<Rightarrow> string) \<Rightarrow> rel_codec \<Rightarrow> string \<Rightarrow> string \<Rightarrow> release_db \<Rightarrow> bool" where
  "rel_fresh hash C pkg ver s \<longleftrightarrow> rel_codec_law C \<and> (\<forall>x. hash x \<noteq> '''') \<and> plain pkg \<and> plain ver \<and>
     lookup s (makeReleaseDocID pkg ver) = None"

definition rel_holds :: "(bytes \<Rightarrow> string) \<Rightarrow> rel_codec \<Rightarrow> release_bundle \<Rightarrow> bytes \<Rightarrow> release_db \<Rightarrow> bool" where
  "rel_holds hash C m data s \<longleftrightarrow> rel_codec_law C \<and> (\<forall>x. hash x \<noteq> '''') \<and> upload_left hash m data s"

lemma upload_left_cong: "lookup s' = lookup s \<Longrightarrow> upload_left hash m data s' = upload_left hash m data s"
  unfolding upload_left_def by simp

lemma write_loop_lookup: "write_loop C i n ids hashed w s = (r, w', s') \<Longrightarrow> lookup s' = lookup s"
proof (induction C i n ids hashed w s rule: write_loop.induct)
  case (2 C i n k ids hashed w s)
  obtain g s1 where get: "get_as (as_data C) k s = (g, s1)" by fastforce
  then have look: "lookup s1 = lookup s" using get_as_result by blast
  show ?case
  proof (cases g)
    case (Ok d)
    obtain f w1 where wr: "writer_Write (da_Data d) w = (f, w1)" by fastforce
    show ?thesis
    proof (cases f)
      case None
      then show ?thesis using "2.prems" "2.IH" [OF get [symmetric] Ok wr [symmetric] None] get Ok wr look by simp
    qed (use "2.prems" get Ok wr look in simp)
  qed (use "2.prems" get look in simp_all)
qed simp

lemma rel_Get_lookup:
  assumes "rel_Get hash C pkg ver w s = (r, w', s')"
  shows "lookup s' = lookup s"
proof -
  obtain g s1 where get: "get_as (as_release C) (makeReleaseDocID pkg ver) s = (g, s1)" by fastforce
  then have look: "lookup s1 = lookup s" using get_as_result by blast
  show ?thesis
  proof (cases g)
    case (Ok doc)
    obtain q w2 s2 where loop: "write_loop C 0 (length (rl_DataChunks doc)) (rl_DataChunks doc) []
        (writer_Progress 0 (length (rl_DataChunks doc)) w) s1 = (q, w2, s2)" by (metis surj_pair)
    from write_loop_lookup [OF this] show ?thesis
      using assms get Ok loop look by (auto simp: rel_Get_def writeChunks_def split: if_splits)
  qed (use assms get look in \<open>auto simp: rel_Get_def\<close>)
qed

lemma rel_Get_discard:
  assumes "rel_codec_law C" "upload_left hash m data s" "wr_discard w"
    and "rel_Get hash C (bu_Package m) (bu_Version m) w s = (Ok b, w', s')"
  shows "b = m \<and> w' = w"
proof -
  obtain g s1 where get: "get_as (as_release C) (makeReleaseDocID (bu_Package m) (bu_Version m)) s = (g, s1)" by fastforce
  then obtain doc where g: "g = Ok doc" "b = rl_Bundle doc" "w' = w"
    using assms(3,4) by (cases g) (auto simp: rel_Get_def)
  then obtain d where d: "lookup s (makeReleaseDocID (bu_Package m) (bu_Version m)) = Some d" "as_release C d = Some doc"
    using get_as_result [OF get] by auto
  then have "rl_Bundle doc = m"
    using assms(1) by (cases rule: upload_left_cases [OF assms(2)])
      (auto simp: started_doc_def complete_doc_def rel_codec_law_def)
  then show ?thesis using g by simp
qed

lemma rel_GetPackage_lookup: "rel_GetPackage C pkg s = (res, s') \<Longrightarrow> lookup s' = lookup s"
  using get_as_result [of "as_package C" "makePackageDocID pkg" s]
  by (auto simp: rel_GetPackage_def map_prod_def split: prod.splits)

interpretation doc_rel: release_store "doc_manager hash C" "rel_fresh hash C" "rel_holds hash C" "\<lambda>m data b. b = m" for hash C
proof unfold_locales
  fix m :: release_bundle and r r' :: reader and data :: bytes and s s' :: release_db
  assume "rel_fresh hash C (bu_Package m) (bu_Version m) s" "mg_Upload (doc_manager hash C) m r s = (Ok (), r', s')"
    "gives r data"
  then show "rel_holds hash C m data s'"
    using Upload_left [of hash m r s] copy_all_read_bytes [of "rd_reads r" data]
    by (simp add: rel_fresh_def rel_holds_def doc_manager_def gives_def)
next
  fix m b :: release_bundle and data :: bytes and w w' :: writer and s s' :: release_db
  assume h: "rel_holds hash C m data s"
    and "mg_Get (doc_manager hash C) (bu_Package m) (bu_Version m) w s = (Ok b, w', s')"
  then have get: "rel_Get hash C (bu_Package m) (bu_Version m) w s = (Ok b, w', s')" by (simp add: doc_manager_def)
  show "b = m \<and> (wr_discard w \<or> wr_data w' = wr_data w @ data)"
    using h upload_left_get [OF _ _ _ get] rel_Get_discard [OF _ _ _ get]
    unfolding rel_holds_def by (cases "wr_discard w") auto
next
  fix m :: release_bundle and data :: bytes and pkg ver :: string and w w' :: writer and s s' :: release_db
    and res :: "release_bundle rel_result"
  assume "rel_holds hash C m data s" "mg_Get (doc_manager hash C) pkg ver w s = (res, w', s')"
  then show "rel_holds hash C m data s'"
    using upload_left_cong [OF rel_Get_lookup] by (simp add: rel_holds_def doc_manager_def)
next
  fix pkg ver pkg' ver' :: string and w w' :: writer and s s' :: release_db and res :: "release_bundle rel_result"
  assume "rel_fresh hash C pkg ver s" "mg_Get (doc_manager hash C) pkg' ver' w s = (res, w', s')"
  then show "rel_fresh hash C pkg ver s'" using rel_Get_lookup by (simp add: rel_fresh_def doc_manager_def)
next
  fix m :: release_bundle and data :: bytes and pkg :: string and s s' :: release_db and res :: "release_package rel_result"
  assume "rel_holds hash C m data s" "mg_GetPackage (doc_manager hash C) pkg s = (res, s')"
  then show "rel_holds hash C m data s'"
    using upload_left_cong [OF rel_GetPackage_lookup] by (simp add: rel_holds_def doc_manager_def)
next
  fix pkg ver pkg' :: string and s s' :: release_db and res :: "release_package rel_result"
  assume "rel_fresh hash C pkg ver s" "mg_GetPackage (doc_manager hash C) pkg' s = (res, s')"
  then show "rel_fresh hash C pkg ver s'" using rel_GetPackage_lookup by (simp add: rel_fresh_def doc_manager_def)
qed

end
