(* ===== verification/GcsManager.thy ===== *)
theory GcsManager
  imports ReleaseApi
begin

text \<open>
  The release manager that keeps the data of releases in a bucket and their manifests in another
  manager (\<^verbatim>\<open>release/gcsrelease/manager.go\<close>, \<^verbatim>\<open>bucket.go\<close>). The
  bucket is third-party code, a record of operations. An upload is given twice, as the code has it and
  as the steps at which concurrent uploads interleave.
\<close>

section \<open>Names of objects\<close>

text \<open>\<open>path.Clean\<close> and \<open>path.Join\<close>.\<close>

fun clean_parts :: "bool \<Rightarrow> string list \<Rightarrow> string list \<Rightarrow> string list" where
  "clean_parts rooted acc [] = rev acc"
| "clean_parts rooted acc (p # ps) =
     (if p = '''' \<or> p = ''.'' then clean_parts rooted acc ps
      else if p = ''..'' then
        (case acc of
           [] \<Rightarrow> clean_parts rooted (if rooted then [] else [''..'']) ps
         | t # ts \<Rightarrow> clean_parts rooted (if t = ''..'' then p # acc else ts) ps)
      else clean_parts rooted (p # acc) ps)"

fun join_parts :: "string list \<Rightarrow> string" where
  "join_parts [] = ''''"
| "join_parts [p] = p"
| "join_parts (p # q # ps) = p @ CHR ''/'' # join_parts (q # ps)"

definition path_Clean :: "string \<Rightarrow> string" where
  "path_Clean s =
     (if s = '''' then ''.''
      else (let rooted = (hd s = CHR ''/''); body = join_parts (clean_parts rooted [] (Split CHR ''/'' s))
            in if rooted then CHR ''/'' # body else if body = '''' then ''.'' else body))"

definition path_Join :: "string list \<Rightarrow> string" where
  "path_Join elems =
     (let es = filter (\<lambda>e. e \<noteq> '''') elems in if es = [] then '''' else path_Clean (join_parts es))"

text \<open>Names that are not escaped: objects of different releases can be one, and leave the prefix.\<close>

lemma names_collide: "a \<noteq> '''' \<Longrightarrow> b \<noteq> '''' \<Longrightarrow> c \<noteq> '''' \<Longrightarrow>
  path_Join [prefix, a @ ''/'' @ b, c] = path_Join [prefix, a, b @ ''/'' @ c]"
  by (simp add: path_Join_def)

lemma names_escape: "path_Join [''releases'', ''..'', ''secret''] = ''secret''"
  by (simp add: path_Join_def path_Clean_def Let_def)

section \<open>The bucket\<close>

text \<open>The errors the code tells apart: the object exists (412), it does not (404 or the sentinel).\<close>

datatype blob_err = BExists | BNotExist | BOther string

record signed_url_options =
  su_Method :: string
  su_Expires :: int

record ('w, 'b) bucket =
  bk_NewCreateWriter :: "string \<Rightarrow> 'w"
  bk_Write :: "bytes \<Rightarrow> 'w \<Rightarrow> 'b \<Rightarrow> blob_err option \<times> 'w \<times> 'b"
  bk_Close :: "'w \<Rightarrow> 'b \<Rightarrow> blob_err option \<times> 'b"
  bk_NewReader :: "string \<Rightarrow> 'b \<Rightarrow> (blob_err, reader) outcome \<times> 'b"
  bk_Delete :: "string \<Rightarrow> 'b \<Rightarrow> blob_err option \<times> 'b"
  bk_SignedURL :: "string \<Rightarrow> signed_url_options \<Rightarrow> 'b \<Rightarrow> (blob_err, string) outcome"

section \<open>The manager\<close>

datatype 'e gcs_err =
  GInner 'e | GExists string string | GBlob blob_err | GWrite "'e gcs_err" | GClose "'e gcs_err" | GRead string
| GTruncated int int | GLatest 'e | GReadObject blob_err | GWriteOut string | GReadData string
| GIntegrity string string | GDelete blob_err | GSign blob_err

text \<open>
  The checksum in hexadecimal is a function of the bytes; \<open>gc_not_found\<close> compares the text of an error
  with that of \<open>document.ErrNotFound\<close>.
\<close>

record ('e, 's, 'w, 'b) gcs =
  gc_inner :: "('e, 's) manager"
  gc_bucket :: "('w, 'b) bucket"
  gc_prefix :: string
  gc_signOpts :: "signed_url_options option"
  gc_hash :: "bytes \<Rightarrow> string"
  gc_not_found :: "'e \<Rightarrow> bool"

definition sha256MetadataKey :: string where
  "sha256MetadataKey = ''sha256''"

definition objectName :: "('e, 's, 'w, 'b) gcs \<Rightarrow> string \<Rightarrow> string \<Rightarrow> string" where
  "objectName G pkg ver = path_Join [gc_prefix G, pkg, ver]"

abbreviation bundle_name :: "('e, 's, 'w, 'b) gcs \<Rightarrow> release_bundle \<Rightarrow> string" where
  "bundle_name G m \<equiv> objectName G (bu_Package m) (bu_Version m)"

definition translateExistsErr :: "blob_err \<Rightarrow> release_bundle \<Rightarrow> 'e gcs_err" where
  "translateExistsErr e m = (if e = BExists then GExists (bu_Package m) (bu_Version m) else GBlob e)"

definition forceDeleteObject :: "('e, 's, 'w, 'b) gcs \<Rightarrow> release_bundle \<Rightarrow> 'b \<Rightarrow> 'b" where
  "forceDeleteObject G m b = snd (bk_Delete (gc_bucket G) (bundle_name G m) b)"

definition abortUpload :: "('e, 's, 'w, 'b) gcs \<Rightarrow> 'w \<Rightarrow> release_bundle \<Rightarrow> 'b \<Rightarrow> 'b" where
  "abortUpload G w m b =
     (case bk_Close (gc_bucket G) w b of (Some e, b) \<Rightarrow> b | (None, b) \<Rightarrow> forceDeleteObject G m b)"

definition total_size :: "reader \<Rightarrow> int" where
  "total_size r = (case rd_size r of Some n \<Rightarrow> n | None \<Rightarrow> 0)"

text \<open>One round of the loop of \<open>Upload\<close>: what was read is written before the end or the failure counts.\<close>

datatype 'e round_end = RoundMore | RoundEnd | RoundFail 'e

type_synonym progress = "(int \<times> int \<times> string) list"

definition stream_round ::
  "('e, 's, 'w, 'b) gcs \<Rightarrow> release_bundle \<Rightarrow> int \<Rightarrow> bytes \<times> read_end \<Rightarrow> bytes \<Rightarrow> progress \<Rightarrow> 'w \<Rightarrow> 'b \<Rightarrow>
   'e gcs_err round_end \<times> bytes \<times> progress \<times> 'w \<times> 'b" where
  "stream_round G m totalSize = (\<lambda>(data, end') hashed pr w b.
     (let hashed = hashed @ data;
          (werr, pr, w, b) =
            (if data = [] then (None, pr, w, b)
             else (case bk_Write (gc_bucket G) data w b of
                     (Some e, w, b) \<Rightarrow> (Some e, pr, w, b)
                   | (None, w, b) \<Rightarrow> (None, pr @ [(int (length hashed), totalSize, ''bytes'')], w, b)))
      in case werr of
           Some e \<Rightarrow> (RoundFail (GWrite (translateExistsErr e m)), hashed, pr, w, b)
         | None \<Rightarrow>
             (case end' of
                REOF \<Rightarrow> (RoundEnd, hashed, pr, w, b)
              | RFail msg \<Rightarrow> (RoundFail (GRead msg), hashed, pr, w, b)
              | RMore \<Rightarrow> (RoundMore, hashed, pr, w, b))))"

fun stream_loop ::
  "('e, 's, 'w, 'b) gcs \<Rightarrow> release_bundle \<Rightarrow> int \<Rightarrow> (bytes \<times> read_end) list \<Rightarrow> bytes \<Rightarrow> progress \<Rightarrow> 'w \<Rightarrow> 'b \<Rightarrow>
   ('e gcs_err, bytes) outcome \<times> progress \<times> 'w \<times> 'b" where
  "stream_loop G m totalSize [] hashed pr w b = (Ok hashed, pr, w, b)"
| "stream_loop G m totalSize (x # reads) hashed pr w b =
     (case stream_round G m totalSize x hashed pr w b of
        (RoundFail e, hashed, pr, w, b) \<Rightarrow> (Err e, pr, w, b)
      | (RoundEnd, hashed, pr, w, b) \<Rightarrow> (Ok hashed, pr, w, b)
      | (RoundMore, hashed, pr, w, b) \<Rightarrow> stream_loop G m totalSize reads hashed pr w b)"

definition is_truncated :: "int \<Rightarrow> bytes \<Rightarrow> bool" where
  "is_truncated totalSize hashed \<longleftrightarrow> 0 < totalSize \<and> int (length hashed) \<noteq> totalSize"

definition checksummed :: "('e, 's, 'w, 'b) gcs \<Rightarrow> release_bundle \<Rightarrow> bytes \<Rightarrow> release_bundle" where
  "checksummed G m data = m\<lparr>bu_Metadata := AList.update sha256MetadataKey (gc_hash G data) (bu_Metadata m)\<rparr>"

definition gcs_Upload ::
  "('e, 's, 'w, 'b) gcs \<Rightarrow> release_bundle \<Rightarrow> reader \<Rightarrow> 's \<times> 'b \<Rightarrow> ('e gcs_err, unit) outcome \<times> reader \<times> 's \<times> 'b" where
  "gcs_Upload G m r = (\<lambda>(s, b).
     (case mg_Get (gc_inner G) (bu_Package m) (bu_Version m) discard_writer s of
        (Ok _, _, s) \<Rightarrow> (Err (GExists (bu_Package m) (bu_Version m)), r, s, b)
      | (Panic, _, s) \<Rightarrow> (Panic, r, s, b)
      | (Err _, _, s) \<Rightarrow>
          (let totalSize = total_size r;
               (res, pr, w, b) = stream_loop G m totalSize (rd_reads r) [] (rd_progress r @ [(0, totalSize, ''bytes'')])
                 (bk_NewCreateWriter (gc_bucket G) (bundle_name G m)) b;
               r = r\<lparr>rd_progress := pr\<rparr>
           in case res of
                Err e \<Rightarrow> (Err e, r, s, abortUpload G w m b)
              | Panic \<Rightarrow> (Panic, r, s, b)
              | Ok hashed \<Rightarrow>
                  if is_truncated totalSize hashed
                  then (Err (GTruncated (int (length hashed)) totalSize), r, s, abortUpload G w m b)
                  else (case bk_Close (gc_bucket G) w b of
                          (Some e, b) \<Rightarrow> (Err (GClose (translateExistsErr e m)), r, s, b)
                        | (None, b) \<Rightarrow>
                            (case mg_Upload (gc_inner G) (checksummed G m hashed) nop_reader s of
                               (Ok _, _, s) \<Rightarrow> (Ok (), r, s, b)
                             | (Err e, _, s) \<Rightarrow> (Err (GInner e), r, s, forceDeleteObject G m b)
                             | (Panic, _, s) \<Rightarrow> (Panic, r, s, b))))))"

text \<open>The loop that downloads, the same in this manager and in the client of its handler.\<close>

fun download_loop ::
  "(string \<Rightarrow> 'e) \<Rightarrow> (string \<Rightarrow> 'e) \<Rightarrow> int \<Rightarrow> (bytes \<times> read_end) list \<Rightarrow> bytes \<Rightarrow> writer \<Rightarrow> ('e, bytes) outcome \<times> writer" where
  "download_loop werr rerr totalSize [] hashed out = (Ok hashed, out)"
| "download_loop werr rerr totalSize ((data, end') # reads) hashed out =
     (let hashed = hashed @ data;
          (e, out) =
            (if data = [] then (None, out)
             else (case writer_Write data out of
                     (Some msg, out) \<Rightarrow> (Some msg, out)
                   | (None, out) \<Rightarrow>
                       (None, out\<lparr>wr_progress := wr_progress out @ [(int (length hashed), totalSize, ''bytes'')]\<rparr>)))
      in case e of
           Some msg \<Rightarrow> (Err (werr msg), out)
         | None \<Rightarrow>
             (case end' of
                REOF \<Rightarrow> (Ok hashed, out)
              | RFail msg \<Rightarrow> (Err (rerr msg), out)
              | RMore \<Rightarrow> download_loop werr rerr totalSize reads hashed out))"

definition integrity :: "(bytes \<Rightarrow> string) \<Rightarrow> (string \<Rightarrow> string \<Rightarrow> 'e) \<Rightarrow> release_bundle \<Rightarrow> bytes \<Rightarrow> ('e, release_bundle) outcome" where
  "integrity hash err m data =
     (case map_of (bu_Metadata m) sha256MetadataKey of
        Some expected \<Rightarrow> if hash data \<noteq> expected then Err (err expected (hash data)) else Ok m
      | None \<Rightarrow> Ok m)"

definition gcs_resolve :: "('e, 's, 'w, 'b) gcs \<Rightarrow> string \<Rightarrow> string \<Rightarrow> 's \<Rightarrow> ('e gcs_err, string) outcome \<times> 's" where
  "gcs_resolve G pkg ver s =
     (if ver = Latest
      then (case mg_GetPackage (gc_inner G) pkg s of
              (r, s) \<Rightarrow> (andThen (mapErr GLatest r) (\<lambda>p. Ok (pk_Latest p)), s))
      else (Ok ver, s))"

definition gcs_Get ::
  "('e, 's, 'w, 'b) gcs \<Rightarrow> string \<Rightarrow> string \<Rightarrow> writer \<Rightarrow> 's \<times> 'b \<Rightarrow> ('e gcs_err, release_bundle) outcome \<times> writer \<times> 's \<times> 'b" where
  "gcs_Get G pkg ver out = (\<lambda>(s, b).
     (case gcs_resolve G pkg ver s of
        (Err e, s) \<Rightarrow> (Err e, out, s, b)
      | (Panic, s) \<Rightarrow> (Panic, out, s, b)
      | (Ok ver, s) \<Rightarrow>
          (case mg_Get (gc_inner G) pkg ver discard_writer s of
             (Err e, _, s) \<Rightarrow> (Err (GInner e), out, s, b)
           | (Panic, _, s) \<Rightarrow> (Panic, out, s, b)
           | (Ok m, _, s) \<Rightarrow>
               if wr_discard out then (Ok m, out, s, b)
               else (case bk_NewReader (gc_bucket G) (objectName G pkg ver) b of
                       (Err e, b) \<Rightarrow> (Err (GReadObject e), out, s, b)
                     | (Panic, b) \<Rightarrow> (Panic, out, s, b)
                     | (Ok rd, b) \<Rightarrow>
                         (let totalSize = total_size rd;
                              (res, out) = download_loop GWriteOut GReadData totalSize (rd_reads rd) []
                                (out\<lparr>wr_progress := wr_progress out @ [(0, totalSize, ''bytes'')]\<rparr>)
                          in (andThen res (integrity (gc_hash G) GIntegrity m), out, s, b))))))"

definition delete_object ::
  "('e, 's, 'w, 'b) gcs \<Rightarrow> string \<Rightarrow> ('e, unit) outcome \<Rightarrow> 'b \<Rightarrow> ('e gcs_err, unit) outcome \<times> 'b" where
  "delete_object G name innerErr b =
     (case bk_Delete (gc_bucket G) name b of
        (None, b) \<Rightarrow> (Ok (), b)
      | (Some e, b) \<Rightarrow> (if e = BNotExist then mapErr GInner innerErr else Err (GDelete e), b))"

definition gcs_Delete :: "('e, 's, 'w, 'b) gcs \<Rightarrow> string \<Rightarrow> string \<Rightarrow> 's \<times> 'b \<Rightarrow> ('e gcs_err, unit) outcome \<times> 's \<times> 'b" where
  "gcs_Delete G pkg ver = (\<lambda>(s, b).
     (case mg_Delete (gc_inner G) pkg ver s of
        (Panic, s) \<Rightarrow> (Panic, s, b)
      | (Err e, s) \<Rightarrow>
          if \<not> gc_not_found G e then (Err (GInner e), s, b)
          else (let (r, b) = delete_object G (objectName G pkg ver) (Err e) b in (r, s, b))
      | (Ok _, s) \<Rightarrow> (let (r, b) = delete_object G (objectName G pkg ver) (Ok ()) b in (r, s, b))))"

definition defaultSignedURLExpiry :: int where
  "defaultSignedURLExpiry = 15 * 60 * 1000000000"

definition SignedDownloadURL :: "('e, 's, 'w, 'b) gcs \<Rightarrow> int \<Rightarrow> string \<Rightarrow> string \<Rightarrow> 'b \<Rightarrow> ('e gcs_err, string) outcome" where
  "SignedDownloadURL G now pkg ver b =
     (let opts = (case gc_signOpts G of Some opts \<Rightarrow> opts | None \<Rightarrow> \<lparr>su_Method = ''GET'', su_Expires = 0\<rparr>);
          opts = (if su_Method opts = '''' then opts\<lparr>su_Method := ''GET''\<rparr> else opts);
          opts = (if \<not> now < su_Expires opts then opts\<lparr>su_Expires := now + defaultSignedURLExpiry\<rparr> else opts)
      in mapErr GSign (bk_SignedURL (gc_bucket G) (objectName G pkg ver) opts b))"

text \<open>The other operations are those of the inner manager.\<close>

definition on_inner :: "('s \<Rightarrow> ('e, 'a) outcome \<times> 's) \<Rightarrow> 's \<times> 'b \<Rightarrow> ('e gcs_err, 'a) outcome \<times> 's \<times> 'b" where
  "on_inner f = (\<lambda>(s, b). let (r, s) = f s in (mapErr GInner r, s, b))"

definition gcs_manager :: "('e, 's, 'w, 'b) gcs \<Rightarrow> ('e gcs_err, 's \<times> 'b) manager" where
  "gcs_manager G = \<lparr>mg_Create = (\<lambda>p. on_inner (mg_Create (gc_inner G) p)),
     mg_UpdatePackageMetadata = (\<lambda>pkg md. on_inner (mg_UpdatePackageMetadata (gc_inner G) pkg md)),
     mg_DeletePackage = (\<lambda>pkg. on_inner (mg_DeletePackage (gc_inner G) pkg)),
     mg_GetPackage = (\<lambda>pkg. on_inner (mg_GetPackage (gc_inner G) pkg)),
     mg_ListPackages = (\<lambda>fs. on_inner (mg_ListPackages (gc_inner G) fs)),
     mg_Upload = gcs_Upload G, mg_Get = gcs_Get G, mg_Delete = gcs_Delete G,
     mg_List = (\<lambda>pkg fs. on_inner (mg_List (gc_inner G) pkg fs))\<rparr>"

section \<open>An upload in steps\<close>

text \<open>
  The points at which an upload touches what it shares with others: the inner manager, each write,
  the close that commits, the delete that undoes.
\<close>

datatype ('e, 'w) upload =
  UStart release_bundle reader
| UStream release_bundle reader "(bytes \<times> read_end) list" bytes progress 'w
| UAbort release_bundle reader progress "'e gcs_err" 'w
| UClose release_bundle reader progress bytes 'w
| URecord release_bundle reader progress bytes
| URemove release_bundle reader progress "'e gcs_err"
| UDone release_bundle reader progress "('e gcs_err, unit) outcome"

definition check_size :: "release_bundle \<Rightarrow> reader \<Rightarrow> progress \<Rightarrow> bytes \<Rightarrow> 'w \<Rightarrow> ('e, 'w) upload" where
  "check_size m r pr hashed w =
     (if is_truncated (total_size r) hashed
      then UAbort m r pr (GTruncated (int (length hashed)) (total_size r)) w
      else UClose m r pr hashed w)"

fun up_step :: "('e, 's, 'w, 'b) gcs \<Rightarrow> ('e, 'w) upload \<Rightarrow> 's \<Rightarrow> 'b \<Rightarrow> ('e, 'w) upload \<times> 's \<times> 'b" where
  "up_step G (UStart m r) s b =
     (case mg_Get (gc_inner G) (bu_Package m) (bu_Version m) discard_writer s of
        (Ok _, _, s) \<Rightarrow> (UDone m r (rd_progress r) (Err (GExists (bu_Package m) (bu_Version m))), s, b)
      | (Panic, _, s) \<Rightarrow> (UDone m r (rd_progress r) Panic, s, b)
      | (Err _, _, s) \<Rightarrow>
          (UStream m r (rd_reads r) [] (rd_progress r @ [(0, total_size r, ''bytes'')])
             (bk_NewCreateWriter (gc_bucket G) (bundle_name G m)), s, b))"
| "up_step G (UStream m r [] hashed pr w) s b = (check_size m r pr hashed w, s, b)"
| "up_step G (UStream m r (x # reads) hashed pr w) s b =
     (case stream_round G m (total_size r) x hashed pr w b of
        (RoundFail e, hashed, pr, w, b) \<Rightarrow> (UAbort m r pr e w, s, b)
      | (RoundEnd, hashed, pr, w, b) \<Rightarrow> (check_size m r pr hashed w, s, b)
      | (RoundMore, hashed, pr, w, b) \<Rightarrow> (UStream m r reads hashed pr w, s, b))"
| "up_step G (UAbort m r pr e w) s b =
     (case bk_Close (gc_bucket G) w b of
        (Some _, b) \<Rightarrow> (UDone m r pr (Err e), s, b)
      | (None, b) \<Rightarrow> (URemove m r pr e, s, b))"
| "up_step G (UClose m r pr hashed w) s b =
     (case bk_Close (gc_bucket G) w b of
        (Some e, b) \<Rightarrow> (UDone m r pr (Err (GClose (translateExistsErr e m))), s, b)
      | (None, b) \<Rightarrow> (URecord m r pr hashed, s, b))"
| "up_step G (URecord m r pr hashed) s b =
     (case mg_Upload (gc_inner G) (checksummed G m hashed) nop_reader s of
        (Ok _, _, s) \<Rightarrow> (UDone m r pr (Ok ()), s, b)
      | (Err e, _, s) \<Rightarrow> (URemove m r pr (GInner e), s, b)
      | (Panic, _, s) \<Rightarrow> (UDone m r pr Panic, s, b))"
| "up_step G (URemove m r pr e) s b = (UDone m r pr (Err e), s, forceDeleteObject G m b)"
| "up_step G (UDone m r pr res) s b = (UDone m r pr res, s, b)"

fun up_run :: "nat \<Rightarrow> ('e, 's, 'w, 'b) gcs \<Rightarrow> ('e, 'w) upload \<Rightarrow> 's \<Rightarrow> 'b \<Rightarrow> ('e, 'w) upload \<times> 's \<times> 'b" where
  "up_run 0 G u s b = (u, s, b)"
| "up_run (Suc n) G u s b = (case up_step G u s b of (u, s, b) \<Rightarrow> up_run n G u s b)"

lemma up_run_add: "up_run (j + k) G u s b = (case up_run j G u s b of (u, s, b) \<Rightarrow> up_run k G u s b)"
  by (induction j arbitrary: u s b) (simp_all split: prod.splits)

lemma up_run_done: "up_run k G (UDone m r pr res) s b = (UDone m r pr res, s, b)"
  by (induction k) simp_all

lemma up_run_more:
  "up_run j G u s b = (UDone m r pr res, s', b') \<Longrightarrow> j \<le> k \<Longrightarrow> up_run k G u s b = (UDone m r pr res, s', b')"
  using up_run_add [of j "k - j" G u s b] by (simp add: up_run_done)

text \<open>What a stream comes to.\<close>

definition streamed ::
  "release_bundle \<Rightarrow> reader \<Rightarrow> 's \<Rightarrow> ('e gcs_err, bytes) outcome \<times> progress \<times> 'w \<times> 'b \<Rightarrow> ('e, 'w) upload \<times> 's \<times> 'b" where
  "streamed m r s = (\<lambda>(res, pr, w, b).
     (case res of Ok hashed \<Rightarrow> check_size m r pr hashed w | Err e \<Rightarrow> UAbort m r pr e w | Panic \<Rightarrow> UDone m r pr Panic, s, b))"

lemma up_run_stream:
  "\<exists>k \<le> length reads + 1. up_run k G (UStream m r reads hashed pr w) s b =
     streamed m r s (stream_loop G m (total_size r) reads hashed pr w b)"
proof (induction reads arbitrary: hashed pr w b)
  case Nil
  show ?case by (intro exI [of _ 1]) (simp add: streamed_def)
next
  case (Cons x reads)
  obtain q h p w1 b1 where round: "stream_round G m (total_size r) x hashed pr w b = (q, h, p, w1, b1)"
    by (metis surj_pair)
  show ?case
  proof (cases q)
    case RoundMore
    obtain k where k: "k \<le> length reads + 1"
      "up_run k G (UStream m r reads h p w1) s b1 = streamed m r s (stream_loop G m (total_size r) reads h p w1 b1)"
      using Cons.IH by blast
    then show ?thesis using round RoundMore by (intro exI [of _ "Suc k"]) simp
  qed (use round in \<open>auto simp: streamed_def intro!: exI [of _ 1]\<close>)
qed

lemma stream_loop_no_panic: "stream_loop G m t reads hashed pr w b = (q, rest) \<Longrightarrow> q \<noteq> Panic"
  by (induction reads arbitrary: hashed pr w b) (auto split: prod.splits round_end.splits)

text \<open>Running the steps of an upload alone is the upload.\<close>

lemma upload_in_steps:
  assumes "gcs_Upload G m r (s, b) = (res, r', s', b')"
  shows "\<exists>pr. r' = r\<lparr>rd_progress := pr\<rparr> \<and>
    up_run (length (rd_reads r) + 5) G (UStart m r) s b = (UDone m r pr res, s', b')"
proof -
  obtain q wr s1 where get: "mg_Get (gc_inner G) (bu_Package m) (bu_Version m) discard_writer s = (q, wr, s1)"
    by (metis surj_pair)
  show ?thesis
  proof (cases "\<exists>e. q = Err e")
    case False
    then have "up_run 1 G (UStart m r) s b = (UDone m r (rd_progress r) res, s', b')" "r' = r"
      using assms get by (cases q; simp add: gcs_Upload_def)+
    then show ?thesis using up_run_more [of 1 G "UStart m r" s b]
      by (intro exI [of _ "rd_progress r"]) simp
  next
    case True
    let ?w = "bk_NewCreateWriter (gc_bucket G) (bundle_name G m)" and ?p = "rd_progress r @ [(0, total_size r, ''bytes'')]"
    obtain st pr w1 b1 where stream: "stream_loop G m (total_size r) (rd_reads r) [] ?p ?w b = (st, pr, w1, b1)"
      by (metis surj_pair)
    obtain k where k: "k \<le> length (rd_reads r) + 1"
      "up_run k G (UStream m r (rd_reads r) [] ?p ?w) s1 b = streamed m r s1 (st, pr, w1, b1)"
      using up_run_stream [of "rd_reads r" G m r "[]" ?p ?w s1 b] stream by auto
    have start: "up_run (Suc k) G (UStart m r) s b = streamed m r s1 (st, pr, w1, b1)"
      using True get k(2) by auto
    have "r' = r\<lparr>rd_progress := pr\<rparr> \<and>
      (\<exists>j \<le> 3. case streamed m r s1 (st, pr, w1, b1) of (u, s, b) \<Rightarrow> up_run j G u s b = (UDone m r pr res, s', b'))"
      (is "?r \<and> ?run")
    proof (cases st)
      case (Err e)
      then have "?r" using assms get True stream by (auto simp: gcs_Upload_def Let_def)
      moreover have "up_run 2 G (UAbort m r pr e w1) s1 b1 = (UDone m r pr res, s', b')"
        using assms get True stream Err
        by (auto simp: gcs_Upload_def abortUpload_def numeral_2_eq_2 split: prod.splits option.splits)
      ultimately show ?thesis using Err by (auto simp: streamed_def intro!: exI [of _ 2])
    next
      case (Ok h)
      show ?thesis
      proof (cases "is_truncated (total_size r) h")
        case tr: True
        then have "?r" using assms get True stream Ok by (auto simp: gcs_Upload_def Let_def)
        moreover have "up_run 2 G (UAbort m r pr (GTruncated (int (length h)) (total_size r)) w1) s1 b1 = (UDone m r pr res, s', b')"
          using assms get True stream Ok tr
          by (auto simp: gcs_Upload_def abortUpload_def numeral_2_eq_2 split: prod.splits option.splits)
        ultimately show ?thesis using Ok tr by (auto simp: streamed_def check_size_def intro!: exI [of _ 2])
      next
        case whole: False
        then have "?r" using assms get True stream Ok
          by (auto simp: gcs_Upload_def Let_def split: prod.splits option.splits outcome.splits)
        moreover have "up_run 3 G (UClose m r pr h w1) s1 b1 = (UDone m r pr res, s', b')"
          using assms get True stream Ok whole
          by (auto simp: gcs_Upload_def numeral_3_eq_3 split: prod.splits option.splits outcome.splits)
        ultimately show ?thesis using Ok whole by (auto simp: streamed_def check_size_def intro!: exI [of _ 3])
      qed
    qed (use stream_loop_no_panic [OF stream] in simp)
    then obtain j where j: "?r" "j \<le> 3"
      "case streamed m r s1 (st, pr, w1, b1) of (u, s, b) \<Rightarrow> up_run j G u s b = (UDone m r pr res, s', b')"
      by (elim conjE exE) (rule that; assumption)
    obtain u s2 b2 where mid: "streamed m r s1 (st, pr, w1, b1) = (u, s2, b2)" by (metis surj_pair)
    have "up_run (Suc k + j) G (UStart m r) s b = (UDone m r pr res, s', b')"
      unfolding up_run_add start mid using j(3) unfolding mid by simp
    from up_run_more [OF this, of "length (rd_reads r) + 5"] show ?thesis using j(1,2) k(1) by auto
  qed
qed

section \<open>Concurrent uploads\<close>

text \<open>
  What the code relies on of the bucket, with the contents of its objects as \<open>view\<close>, the object and
  the bytes of a writer as \<open>target\<close> and \<open>written\<close>: a writer only creates, when it is closed, and a
  close that reports an error may still have created; a delete that reports an error may still have
  deleted; a reader gives the object when it ends well.
\<close>

record ('w, 'b) bucket_view =
  bv_view :: "'b \<Rightarrow> string \<Rightarrow> bytes option"
  bv_target :: "'w \<Rightarrow> string"
  bv_written :: "'w \<Rightarrow> bytes"

definition bucket_law :: "('w, 'b) bucket \<Rightarrow> ('w, 'b) bucket_view \<Rightarrow> bool" where
  "bucket_law B V \<longleftrightarrow>
     (\<forall>n. bv_target V (bk_NewCreateWriter B n) = n \<and> bv_written V (bk_NewCreateWriter B n) = []) \<and>
     (\<forall>d w b e w' b'. bk_Write B d w b = (e, w', b') \<longrightarrow> bv_view V b' = bv_view V b \<and> bv_target V w' = bv_target V w \<and>
        (e = None \<longrightarrow> bv_written V w' = bv_written V w @ d)) \<and>
     (\<forall>w b b'. bk_Close B w b = (None, b') \<longrightarrow>
        bv_view V b (bv_target V w) = None \<and> bv_view V b' = (bv_view V b)(bv_target V w \<mapsto> bv_written V w)) \<and>
     (\<forall>w b e b'. bk_Close B w b = (Some e, b') \<longrightarrow> bv_view V b' = bv_view V b \<or>
        bv_view V b (bv_target V w) = None \<and> (\<exists>d. bv_view V b' = (bv_view V b)(bv_target V w \<mapsto> d))) \<and>
     (\<forall>n b e b'. bk_Delete B n b = (e, b') \<longrightarrow>
        bv_view V b' = (bv_view V b)(n := None) \<or> e \<noteq> None \<and> bv_view V b' = bv_view V b) \<and>
     (\<forall>n b q b'. bk_NewReader B n b = (q, b') \<longrightarrow> bv_view V b' = bv_view V b \<and>
        (\<forall>rd. q = Ok rd \<longrightarrow> (\<exists>d. bv_view V b n = Some d \<and> (\<forall>x. copy_all (rd_reads rd) = Ok x \<longrightarrow> x = d))))"

lemma bucket_lawD:
  assumes "bucket_law B V"
  shows "bv_target V (bk_NewCreateWriter B n) = n" "bv_written V (bk_NewCreateWriter B n) = []"
    and "bk_Write B d w b = (e, w', b') \<Longrightarrow> bv_view V b' = bv_view V b \<and> bv_target V w' = bv_target V w \<and>
      (e = None \<longrightarrow> bv_written V w' = bv_written V w @ d)"
    and "bk_Close B w b = (None, b') \<Longrightarrow>
      bv_view V b (bv_target V w) = None \<and> bv_view V b' = (bv_view V b)(bv_target V w \<mapsto> bv_written V w)"
    and "bk_Close B w b = (Some e', b') \<Longrightarrow> bv_view V b' = bv_view V b \<or>
      bv_view V b (bv_target V w) = None \<and> (\<exists>d. bv_view V b' = (bv_view V b)(bv_target V w \<mapsto> d))"
    and "bk_Delete B n b = (e, b') \<Longrightarrow>
      bv_view V b' = (bv_view V b)(n := None) \<or> e \<noteq> None \<and> bv_view V b' = bv_view V b"
    and "bk_NewReader B n b = (q, b') \<Longrightarrow> bv_view V b' = bv_view V b \<and>
      (\<forall>rd. q = Ok rd \<longrightarrow> (\<exists>d. bv_view V b n = Some d \<and> (\<forall>x. copy_all (rd_reads rd) = Ok x \<longrightarrow> x = d)))"
proof -
  note law = assms [unfolded bucket_law_def]
  note laws = law [THEN conjunct2]
  show "bv_target V (bk_NewCreateWriter B n) = n" "bv_written V (bk_NewCreateWriter B n) = []"
    using law [THEN conjunct1] by simp_all
  show "bv_view V b' = bv_view V b \<and> bv_target V w' = bv_target V w \<and> (e = None \<longrightarrow> bv_written V w' = bv_written V w @ d)"
    if "bk_Write B d w b = (e, w', b')" using laws [THEN conjunct1] that by simp
  show "bv_view V b (bv_target V w) = None \<and> bv_view V b' = (bv_view V b)(bv_target V w \<mapsto> bv_written V w)"
    if "bk_Close B w b = (None, b')" using laws [THEN conjunct2, THEN conjunct1] that by simp
  show "bv_view V b' = bv_view V b \<or>
      bv_view V b (bv_target V w) = None \<and> (\<exists>d. bv_view V b' = (bv_view V b)(bv_target V w \<mapsto> d))"
    if "bk_Close B w b = (Some e', b')"
    using laws [THEN conjunct2, THEN conjunct2, THEN conjunct1, rule_format, OF that] .
  show "bv_view V b' = (bv_view V b)(n := None) \<or> e \<noteq> None \<and> bv_view V b' = bv_view V b"
    if "bk_Delete B n b = (e, b')"
    using laws [THEN conjunct2, THEN conjunct2, THEN conjunct2, THEN conjunct1, rule_format, OF that] .
  show "bv_view V b' = bv_view V b \<and>
      (\<forall>rd. q = Ok rd \<longrightarrow> (\<exists>d. bv_view V b n = Some d \<and> (\<forall>x. copy_all (rd_reads rd) = Ok x \<longrightarrow> x = d)))"
    if "bk_NewReader B n b = (q, b')"
    using laws [THEN conjunct2, THEN conjunct2, THEN conjunct2, THEN conjunct2] that by simp
qed

text \<open>
  Uploads by number, with the states they share. Another call may change the inner manager in any way,
  open an object for reading, or delete an object.
\<close>

record ('e, 's, 'w, 'b) world =
  wd_up :: "nat \<Rightarrow> ('e, 'w) upload"
  wd_inner :: 's
  wd_bucket :: 'b

datatype event = Advance nat | Metadata | ReadObject string | DeleteObject string

inductive world_step ::
  "('e, 's, 'w, 'b) gcs \<Rightarrow> ('e, 's, 'w, 'b) world \<Rightarrow> event \<Rightarrow> ('e, 's, 'w, 'b) world \<Rightarrow> bool" for G where
  advance: "up_step G (wd_up W i) (wd_inner W) (wd_bucket W) = (u, s, b) \<Longrightarrow>
    world_step G W (Advance i) \<lparr>wd_up = (wd_up W)(i := u), wd_inner = s, wd_bucket = b\<rparr>"
| metadata: "world_step G W Metadata (W\<lparr>wd_inner := s\<rparr>)"
| read_object: "bk_NewReader (gc_bucket G) n (wd_bucket W) = (q, b) \<Longrightarrow> world_step G W (ReadObject n) (W\<lparr>wd_bucket := b\<rparr>)"
| delete_object: "bk_Delete (gc_bucket G) n (wd_bucket W) = (q, b) \<Longrightarrow> world_step G W (DeleteObject n) (W\<lparr>wd_bucket := b\<rparr>)"

inductive world_run ::
  "('e, 's, 'w, 'b) gcs \<Rightarrow> ('e, 's, 'w, 'b) world \<Rightarrow> event list \<Rightarrow> ('e, 's, 'w, 'b) world \<Rightarrow> bool" for G W where
  run_refl: "world_run G W [] W"
| run_snoc: "world_run G W es W' \<Longrightarrow> world_step G W' e W'' \<Longrightarrow> world_run G W (es @ [e]) W''"


text \<open>An upload that has created its object and not given it up.\<close>

fun committed :: "('e, 'w) upload \<Rightarrow> bool" where
  "committed (URecord m r pr hashed) = True"
| "committed (URemove m r pr e) = True"
| "committed (UDone m r pr res) = (res = Ok ())"
| "committed u = False"

fun up_job :: "('e, 'w) upload \<Rightarrow> release_bundle \<times> reader" where
  "up_job (UStart m r) = (m, r)"
| "up_job (UStream m r reads hashed pr w) = (m, r)"
| "up_job (UAbort m r pr e w) = (m, r)"
| "up_job (UClose m r pr hashed w) = (m, r)"
| "up_job (URecord m r pr hashed) = (m, r)"
| "up_job (URemove m r pr e) = (m, r)"
| "up_job (UDone m r pr res) = (m, r)"

definition up_name :: "('e, 's, 'w, 'b) gcs \<Rightarrow> ('e, 'w) upload \<Rightarrow> string" where
  "up_name G u = bundle_name G (fst (up_job u))"

text \<open>
  The writer of an upload holds what has been read, and a recorded upload has read everything. The
  object of a committed one is there, with those bytes once nothing can undo it.
\<close>

fun up_local :: "('e, 's, 'w, 'b) gcs \<Rightarrow> ('w, 'b) bucket_view \<Rightarrow> ('e, 'w) upload \<Rightarrow> bool" where
  "up_local G V (UStream m r reads hashed pr w) \<longleftrightarrow> bv_target V w = bundle_name G m \<and> bv_written V w = hashed \<and>
     copy_all (rd_reads r) = andThen (copy_all reads) (\<lambda>x. Ok (hashed @ x))"
| "up_local G V (UAbort m r pr e w) \<longleftrightarrow> bv_target V w = bundle_name G m"
| "up_local G V (UClose m r pr hashed w) \<longleftrightarrow> bv_target V w = bundle_name G m \<and> bv_written V w = hashed \<and>
     copy_all (rd_reads r) = Ok hashed"
| "up_local G V (URecord m r pr hashed) \<longleftrightarrow> copy_all (rd_reads r) = Ok hashed"
| "up_local G V u \<longleftrightarrow> True"

fun up_view :: "('e, 's, 'w, 'b) gcs \<Rightarrow> ('w, 'b) bucket_view \<Rightarrow> 'b \<Rightarrow> ('e, 'w) upload \<Rightarrow> bool" where
  "up_view G V b (URecord m r pr hashed) \<longleftrightarrow> bv_view V b (bundle_name G m) = Some hashed"
| "up_view G V b (URemove m r pr e) \<longleftrightarrow> bv_view V b (bundle_name G m) \<noteq> None"
| "up_view G V b (UDone m r pr res) \<longleftrightarrow> res = Ok () \<longrightarrow>
     (\<exists>data. copy_all (rd_reads r) = Ok data \<and> bv_view V b (bundle_name G m) = Some data)"
| "up_view G V b u \<longleftrightarrow> True"

definition world_inv :: "('e, 's, 'w, 'b) gcs \<Rightarrow> ('w, 'b) bucket_view \<Rightarrow> string \<Rightarrow> bytes option \<Rightarrow> ('e, 's, 'w, 'b) world \<Rightarrow> bool" where
  "world_inv G V n d0 W \<longleftrightarrow>
     (\<forall>i. up_local G V (wd_up W i)) \<and>
     (\<forall>i. up_name G (wd_up W i) = n \<longrightarrow> up_view G V (wd_bucket W) (wd_up W i)) \<and>
     (\<forall>i j. up_name G (wd_up W i) = n \<longrightarrow> up_name G (wd_up W j) = n \<longrightarrow>
        committed (wd_up W i) \<longrightarrow> committed (wd_up W j) \<longrightarrow> i = j) \<and>
     (d0 \<noteq> None \<longrightarrow> bv_view V (wd_bucket W) n = d0 \<and> (\<forall>i. up_name G (wd_up W i) = n \<longrightarrow> \<not> committed (wd_up W i)))"

lemma up_step_job: "up_step G u s b = (u', s', b') \<Longrightarrow> up_job u' = up_job u"
  by (cases "(G, u, s, b)" rule: up_step.cases)
    (auto simp: check_size_def split: prod.splits outcome.splits round_end.splits option.splits if_splits)

lemma up_step_name: "up_step G u s b = (u', s', b') \<Longrightarrow> up_name G u' = up_name G u"
  by (simp add: up_name_def up_step_job)

lemma up_view_present: "up_view G V b u \<Longrightarrow> committed u \<Longrightarrow> bv_view V b (up_name G u) \<noteq> None"
  by (cases u) (auto simp: up_name_def)

lemma up_view_cong:
  "bv_view V b' (up_name G u) = bv_view V b (up_name G u) \<or> \<not> committed u \<Longrightarrow> up_view G V b u \<Longrightarrow> up_view G V b' u"
  by (cases u) (auto simp: up_name_def)

lemma check_size_local:
  "bv_target V w = bundle_name G m \<Longrightarrow> bv_written V w = hashed \<Longrightarrow> copy_all (rd_reads r) = Ok hashed \<Longrightarrow>
   up_local G V (check_size m r pr hashed w) \<and> \<not> committed (check_size m r pr hashed w) \<and>
   up_view G V b (check_size m r pr hashed w)"
  by (simp add: check_size_def)

lemma stream_round_law:
  assumes law: "bucket_law (gc_bucket G) V" and "stream_round G m t (data, end') hashed pr w b = (q, h, pr', w', b')"
    and "bv_written V w = hashed"
  shows "bv_view V b' = bv_view V b \<and> bv_target V w' = bv_target V w \<and>
    ((\<forall>e. q \<noteq> RoundFail e) \<longrightarrow> bv_written V w' = h \<and> h = hashed @ data \<and> end' = (if q = RoundEnd then REOF else RMore))"
proof (cases "data = []")
  case True
  then show ?thesis using assms(2,3) by (auto simp: stream_round_def split: read_end.splits)
next
  case False
  obtain e w1 b1 where wrote: "bk_Write (gc_bucket G) data w b = (e, w1, b1)" by (metis surj_pair)
  show ?thesis using assms(2,3) False wrote bucket_lawD(3) [OF law wrote]
    by (cases e) (auto simp: stream_round_def Let_def split: read_end.splits)
qed

text \<open>A step touches no other object, keeps what is there, and commits only where there was nothing.\<close>

lemma up_step_law:
  assumes law: "bucket_law (gc_bucket G) V" and loc: "up_local G V u" and step: "up_step G u s b = (u', s', b')"
  shows "up_local G V u' \<and> (\<forall>k. k \<noteq> up_name G u \<longrightarrow> bv_view V b' k = bv_view V b k) \<and>
    (up_view G V b u \<longrightarrow> up_view G V b' u') \<and>
    (committed u' \<longrightarrow> (if committed u then bv_view V b' = bv_view V b else bv_view V b (up_name G u) = None)) \<and>
    (\<not> committed u \<longrightarrow> bv_view V b (up_name G u) \<noteq> None \<longrightarrow> bv_view V b' = bv_view V b)"
proof (cases u)
  case (UStart m r)
  then show ?thesis using step bucket_lawD(1,2) [OF law]
    by (auto split: prod.splits outcome.splits) (cases "copy_all (rd_reads r)"; simp)+
next
  case (UStream m r reads hashed pr w)
  show ?thesis
  proof (cases reads)
    case Nil
    then show ?thesis using UStream step loc check_size_local [of V w G m hashed r pr b] by auto
  next
    case (Cons x rest)
    obtain data end' where x: "x = (data, end')" by fastforce
    obtain q h pr1 w1 b1 where round: "stream_round G m (total_size r) (data, end') hashed pr w b = (q, h, pr1, w1, b1)"
      by (metis surj_pair)
    have l: "bv_target V w = bundle_name G m" "bv_written V w = hashed"
      "copy_all (rd_reads r) = andThen (copy_all ((data, end') # rest)) (\<lambda>x. Ok (hashed @ x))"
      using loc UStream Cons x by simp_all
    note lw = stream_round_law [OF law round l(2)]
    show ?thesis
    proof (cases q)
      case RoundMore
      then have "u' = UStream m r rest h pr1 w1" "b' = b1" using UStream Cons x round step by auto
      then show ?thesis using lw l RoundMore UStream by (auto simp: andThen_assoc)
    next
      case RoundEnd
      then have "u' = check_size m r pr1 h w1" "b' = b1" using UStream Cons x round step by auto
      then show ?thesis using lw l RoundEnd UStream check_size_local [of V w1 G m h r pr1 b1] by auto
    next
      case (RoundFail e)
      then have "u' = UAbort m r pr1 e w1" "b' = b1" using UStream Cons x round step by auto
      then show ?thesis using lw l UStream by simp
    qed
  qed
next
  case (UAbort m r pr e w)
  obtain c b1 where close: "bk_Close (gc_bucket G) w b = (c, b1)" by fastforce
  show ?thesis using UAbort step loc close bucket_lawD(4,5) [OF law, of w b] by (cases c) (auto simp: up_name_def)
next
  case (UClose m r pr hashed w)
  obtain c b1 where close: "bk_Close (gc_bucket G) w b = (c, b1)" by fastforce
  show ?thesis using UClose step loc close bucket_lawD(4,5) [OF law, of w b] by (cases c) (auto simp: up_name_def)
next
  case (URecord m r pr hashed)
  then show ?thesis using step loc by (auto split: prod.splits outcome.splits)
next
  case (URemove m r pr e)
  obtain c b1 where del: "bk_Delete (gc_bucket G) (bundle_name G m) b = (c, b1)" by fastforce
  show ?thesis using URemove step del bucket_lawD(6) [OF law del] by (auto simp: forceDeleteObject_def up_name_def)
next
  case (UDone m r pr res)
  then show ?thesis using step by auto
qed

lemma world_inv_step:
  assumes law: "bucket_law (gc_bucket G) V" and inv: "world_inv G V n d0 W" and step: "world_step G W e W'"
    and kept: "e \<noteq> DeleteObject n"
  shows "world_inv G V n d0 W'"
  using step
proof (cases rule: world_step.cases)
  case (advance i u s b)
  let ?u = "wd_up W i"
  have inv1: "up_local G V (wd_up W k)" for k using inv by (simp add: world_inv_def)
  have inv2: "up_view G V (wd_bucket W) (wd_up W k)" if "up_name G (wd_up W k) = n" for k
    using inv that by (simp add: world_inv_def)
  have inv3: "k = j" if "up_name G (wd_up W k) = n" "up_name G (wd_up W j) = n" "committed (wd_up W k)"
    "committed (wd_up W j)" for k j using inv that unfolding world_inv_def by blast
  have inv4: "bv_view V (wd_bucket W) n = d0 \<and> (\<forall>k. up_name G (wd_up W k) = n \<longrightarrow> \<not> committed (wd_up W k))"
    if "d0 \<noteq> None" using inv that unfolding world_inv_def by blast
  have loc: "up_local G V u" and other: "up_name G ?u \<noteq> n \<Longrightarrow> bv_view V b n = bv_view V (wd_bucket W) n"
    and view: "up_view G V (wd_bucket W) ?u \<Longrightarrow> up_view G V b u"
    and commit: "committed u \<Longrightarrow> if committed ?u then bv_view V b = bv_view V (wd_bucket W)
      else bv_view V (wd_bucket W) (up_name G ?u) = None"
    and keep: "\<not> committed ?u \<Longrightarrow> bv_view V (wd_bucket W) (up_name G ?u) \<noteq> None \<Longrightarrow> bv_view V b = bv_view V (wd_bucket W)"
    using up_step_law [OF law inv1 advance(3)] by simp_all
  have name: "up_name G u = up_name G ?u" using up_step_name [OF advance(3)] .
  have up: "wd_up W' = (wd_up W)(i := u)" "wd_bucket W' = b" using advance(2) by simp_all
  show ?thesis
  proof (cases "up_name G ?u = n")
    case False
    have "up_view G V b (wd_up W k)" if "up_name G (wd_up W k) = n" for k
      using up_view_cong [of V b G "wd_up W k" "wd_bucket W"] inv2 [OF that] other [OF False] that by simp
    then show ?thesis using inv1 inv3 inv4 loc other [OF False] False name unfolding world_inv_def up by simp
  next
    case mine: True
    have others: "\<not> committed ?u \<and> bv_view V b = bv_view V (wd_bucket W) \<and> \<not> committed u"
      if "k \<noteq> i" "up_name G (wd_up W k) = n" "committed (wd_up W k)" for k
    proof -
      have c: "\<not> committed ?u" using inv3 [OF mine that(2) _ that(3)] that(1) by blast
      moreover have "bv_view V (wd_bucket W) n \<noteq> None"
        using up_view_present [OF inv2 [OF that(2)] that(3)] that(2) by simp
      ultimately show ?thesis using commit keep mine by auto
    qed
    have v: "up_view G V b (((wd_up W)(i := u)) k)" if "up_name G (((wd_up W)(i := u)) k) = n" for k
    proof (cases "k = i")
      case True
      then show ?thesis using view inv2 mine by simp
    next
      case False
      then have nk: "up_name G (wd_up W k) = n" using that by simp
      show ?thesis
        using up_view_cong [of V b G "wd_up W k" "wd_bucket W"] others [OF False nk] inv2 [OF nk] False by fastforce
    qed
    have one: "k = j" if "up_name G (((wd_up W)(i := u)) k) = n" "up_name G (((wd_up W)(i := u)) j) = n"
      "committed (((wd_up W)(i := u)) k)" "committed (((wd_up W)(i := u)) j)" for k j
    proof (rule ccontr)
      assume ne: "k \<noteq> j"
      consider "k = i" "j \<noteq> i" | "j = i" "k \<noteq> i" | "k \<noteq> i" "j \<noteq> i" using ne by blast
      then show False
      proof cases
        case 1
        then show False using others [of j] that by simp
      next
        case 2
        then show False using others [of k] that by simp
      next
        case 3
        then show False using inv3 [of k j] that ne by simp
      qed
    qed
    have old: "bv_view V b n = d0 \<and> (\<forall>k. up_name G (((wd_up W)(i := u)) k) = n \<longrightarrow> \<not> committed (((wd_up W)(i := u)) k))"
      if "d0 \<noteq> None"
    proof -
      have c: "\<not> committed ?u" and d: "bv_view V (wd_bucket W) n = d0" using inv4 [OF that] mine by blast+
      have nn: "bv_view V (wd_bucket W) (up_name G ?u) \<noteq> None" unfolding mine d by (rule that)
      have "\<not> committed u" using commit c nn by (cases "committed u") simp_all
      then show ?thesis using inv4 [OF that] keep [OF c nn] by simp
    qed
    have l: "up_local G V (((wd_up W)(i := u)) k)" for k using inv1 loc by simp
    show ?thesis unfolding world_inv_def up
    proof (intro conjI)
      show "\<forall>k. up_local G V (((wd_up W)(i := u)) k)" using l by blast
      show "\<forall>k. up_name G (((wd_up W)(i := u)) k) = n \<longrightarrow> up_view G V b (((wd_up W)(i := u)) k)" using v by blast
      show "d0 \<noteq> None \<longrightarrow> bv_view V b n = d0 \<and> (\<forall>k. up_name G (((wd_up W)(i := u)) k) = n \<longrightarrow> \<not> committed (((wd_up W)(i := u)) k))"
        by (rule impI) (rule old)
    qed (intro allI impI, rule one)
  qed
next
  case (metadata s)
  then show ?thesis using inv by (simp add: world_inv_def)
next
  case (read_object k q b)
  then have "bv_view V b = bv_view V (wd_bucket W)" using bucket_lawD(7) [OF law] by blast
  then have "up_view G V b u = up_view G V (wd_bucket W) u" for u by (cases u) simp_all
  then show ?thesis using inv read_object \<open>bv_view V b = _\<close> by (simp add: world_inv_def)
next
  case (delete_object k q b)
  then have "bv_view V b n = bv_view V (wd_bucket W) n" using bucket_lawD(6) [OF law delete_object(3)] kept by auto
  then show ?thesis using inv delete_object up_view_cong [of V b G _ "wd_bucket W"] by (auto simp: world_inv_def)
qed

lemma world_inv_run:
  "world_run G W es W' \<Longrightarrow> bucket_law (gc_bucket G) V \<Longrightarrow> world_inv G V n d0 W \<Longrightarrow> DeleteObject n \<notin> set es \<Longrightarrow>
   world_inv G V n d0 W' \<and> (\<forall>i. up_job (wd_up W' i) = up_job (wd_up W i))"
proof (induction rule: world_run.induct)
  case (run_snoc es W' e W'')
  have ih: "world_inv G V n d0 W'" "\<forall>i. up_job (wd_up W' i) = up_job (wd_up W i)" using run_snoc by auto
  have "up_job (wd_up W'' i) = up_job (wd_up W' i)" for i
    using run_snoc.hyps(2) by (cases rule: world_step.cases) (auto dest: up_step_job)
  then show ?case using world_inv_step [OF run_snoc.prems(1) ih(1) run_snoc.hyps(2)] run_snoc.prems(3) ih(2) by auto
qed simp

text \<open>
  C30 (published_once).
  Uploads that run at the same time, interleaved in any order with each other and with every other
  call, under any failures: an object that is in the bucket is never replaced, and nobody publishes
  under its name; and of the uploads under one name at most one reports success, with every byte of
  its reader in the object, as long as no one deletes the object.
\<close>

theorem published_once:
  assumes law: "bucket_law (gc_bucket G) V"
    and start: "\<forall>i. \<exists>m r. wd_up W i = UStart m r" and run: "world_run G W es W'" "DeleteObject n \<notin> set es"
  shows "(\<forall>d. bv_view V (wd_bucket W) n = Some d \<longrightarrow> bv_view V (wd_bucket W') n = Some d \<and>
       (\<forall>i m r pr. wd_up W' i = UDone m r pr (Ok ()) \<longrightarrow> bundle_name G m \<noteq> n)) \<and>
     (\<forall>i m r pr. wd_up W' i = UDone m r pr (Ok ()) \<longrightarrow> bundle_name G m = n \<longrightarrow>
       (\<exists>data. copy_all (rd_reads r) = Ok data \<and> bv_view V (wd_bucket W') n = Some data) \<and>
       (\<forall>j m' r' pr'. wd_up W' j = UDone m' r' pr' (Ok ()) \<longrightarrow> bundle_name G m' = n \<longrightarrow> j = i))"
proof -
  have fresh: "up_local G V (wd_up W i) \<and> up_view G V b (wd_up W i) \<and> \<not> committed (wd_up W i)" for i b
    using start [THEN spec, of i] by auto
  then have "world_inv G V n (bv_view V (wd_bucket W) n) W" unfolding world_inv_def by simp
  note inv = world_inv_run [OF run(1) law this run(2), THEN conjunct1, unfolded world_inv_def]
  have c: "committed (UDone m r pr (Ok ()))" "up_name G (UDone m r pr (Ok ())) = bundle_name G m" for m r pr
    by (simp_all add: up_name_def)
  show ?thesis
  proof (intro conjI allI impI)
    fix d assume "bv_view V (wd_bucket W) n = Some d"
    then show "bv_view V (wd_bucket W') n = Some d" using inv by simp
  next
    fix d i m r pr assume "bv_view V (wd_bucket W) n = Some d" "wd_up W' i = UDone m r pr (Ok ())"
    then show "bundle_name G m \<noteq> n" using inv c by (metis option.distinct(1))
  next
    fix i m r pr assume d: "wd_up W' i = UDone m r pr (Ok ())" "bundle_name G m = n"
    then have "up_name G (wd_up W' i) = n" by (simp add: up_name_def)
    then have "up_view G V (wd_bucket W') (wd_up W' i)" using inv by blast
    then show "\<exists>data. copy_all (rd_reads r) = Ok data \<and> bv_view V (wd_bucket W') n = Some data" using d by simp
    fix j m' r' pr' assume "wd_up W' j = UDone m' r' pr' (Ok ())" "bundle_name G m' = n"
    then show "j = i" using inv d c by metis
  qed
qed

section \<open>What is published is what is downloaded\<close>

lemma stream_loop_reads: "stream_loop G m t reads hashed pr w b = (Ok h, pr', w', b') \<Longrightarrow> \<exists>x. copy_all reads = Ok x \<and> h = hashed @ x"
proof (induction reads arbitrary: hashed pr w b)
  case (Cons x reads)
  obtain data end' where x: "x = (data, end')" by fastforce
  obtain q h1 p1 w1 b1 where round: "stream_round G m t (data, end') hashed pr w b = (q, h1, p1, w1, b1)" by (metis surj_pair)
  then have r: "(\<forall>e. q \<noteq> RoundFail e) \<longrightarrow> h1 = hashed @ data \<and> end' = (if q = RoundEnd then REOF else RMore)"
    by (cases "data = []") (auto simp: stream_round_def Let_def split: read_end.splits prod.splits option.splits)
  show ?case
  proof (cases q)
    case RoundMore
    then have "stream_loop G m t reads h1 p1 w1 b1 = (Ok h, pr', w', b')" using Cons.prems round x by simp
    from Cons.IH [OF this] show ?thesis using r RoundMore x by auto
  qed (use Cons.prems round x r in auto)
qed simp

lemma stream_loop_law:
  assumes "bucket_law (gc_bucket G) V"
  shows "stream_loop G m t reads hashed pr w b = (Ok h, pr', w', b') \<Longrightarrow> bv_written V w = hashed \<Longrightarrow>
    bv_view V b' = bv_view V b \<and> bv_target V w' = bv_target V w \<and> bv_written V w' = h"
proof (induction reads arbitrary: hashed pr w b)
  case (Cons x reads)
  obtain data end' where x: "x = (data, end')" by fastforce
  obtain q h1 p1 w1 b1 where round: "stream_round G m t (data, end') hashed pr w b = (q, h1, p1, w1, b1)" by (metis surj_pair)
  note lw = stream_round_law [OF assms round Cons.prems(2)]
  show ?case
  proof (cases q)
    case RoundMore
    then have run: "stream_loop G m t reads h1 p1 w1 b1 = (Ok h, pr', w', b')" using Cons.prems round x by simp
    have "bv_written V w1 = h1" using lw RoundMore by simp
    from Cons.IH [OF run this] show ?thesis using lw by simp
  qed (use Cons.prems round x lw in auto)
qed simp

lemma download_loop_reads:
  "download_loop we re t reads hashed out = (Ok h, out') \<Longrightarrow>
   \<exists>x. copy_all reads = Ok x \<and> h = hashed @ x \<and> wr_data out' = wr_data out @ x"
proof (induction reads arbitrary: hashed out)
  case (Cons x reads)
  obtain data end' where x: "x = (data, end')" by fastforce
  show ?case
  proof (cases "data = []")
    case True
    then show ?thesis using Cons.prems Cons.IH [of hashed out] x by (cases end') auto
  next
    case False
    obtain f o1 where wr: "writer_Write data out = (f, o1)" by fastforce
    then have f: "f = None" using Cons.prems x False by (cases f) auto
    then have data: "wr_data o1 = wr_data out @ data"
      using wr by (auto simp: writer_Write_def split: list.splits option.splits)
    then show ?thesis using Cons.prems Cons.IH x False wr f by (cases end') (fastforce simp: Let_def)+
  qed
qed simp

text \<open>What an upload that succeeds has done, stage by stage.\<close>

lemma gcs_Upload_Ok:
  assumes "gcs_Upload G m r (s, b) = (Ok (), r', s', b')"
  obtains e wr s1 data pr w b1 rd where
    "mg_Get (gc_inner G) (bu_Package m) (bu_Version m) discard_writer s = (Err e, wr, s1)"
    "stream_loop G m (total_size r) (rd_reads r) [] (rd_progress r @ [(0, total_size r, ''bytes'')])
       (bk_NewCreateWriter (gc_bucket G) (bundle_name G m)) b = (Ok data, pr, w, b1)"
    "copy_all (rd_reads r) = Ok data" "0 < total_size r \<longrightarrow> int (length data) = total_size r"
    "bk_Close (gc_bucket G) w b1 = (None, b')"
    "mg_Upload (gc_inner G) (checksummed G m data) nop_reader s1 = (Ok (), rd, s')"
proof -
  obtain q wr s1 where get: "mg_Get (gc_inner G) (bu_Package m) (bu_Version m) discard_writer s = (q, wr, s1)"
    by (metis surj_pair)
  then obtain e where q: "q = Err e" using assms by (cases q) (auto simp: gcs_Upload_def)
  obtain st pr w b1 where stream: "stream_loop G m (total_size r) (rd_reads r) []
      (rd_progress r @ [(0, total_size r, ''bytes'')]) (bk_NewCreateWriter (gc_bucket G) (bundle_name G m)) b = (st, pr, w, b1)"
    by (metis surj_pair)
  then obtain data where st: "st = Ok data" using assms get q by (cases st) (auto simp: gcs_Upload_def)
  then have tr: "\<not> is_truncated (total_size r) data"
    using assms get q stream by (auto simp: gcs_Upload_def split: if_splits)
  obtain c b2 where close: "bk_Close (gc_bucket G) w b1 = (c, b2)" by fastforce
  then have c: "c = None" using assms get q stream st tr by (cases c) (auto simp: gcs_Upload_def)
  obtain u rd s2 where up: "mg_Upload (gc_inner G) (checksummed G m data) nop_reader s1 = (u, rd, s2)" by (metis surj_pair)
  then have "u = Ok ()" "b' = b2" "s' = s2" using assms get q stream st tr close c by (cases u; auto simp: gcs_Upload_def)+
  then show thesis using that get q stream st stream_loop_reads [OF stream [unfolded st]] tr close c up
    by (auto simp: is_truncated_def)
qed

lemma gcs_Get_Ok:
  fixes G :: "('e, 's, 'w, 'b) gcs"
  assumes "gcs_Get G pkg ver out (s, b) = (Ok x, out', s', b')" "ver \<noteq> Latest"
  obtains wr where "mg_Get (gc_inner G) pkg ver discard_writer s = (Ok x, wr, s')" "wr_discard out" "out' = out" "b' = b"
  | wr rd got where "mg_Get (gc_inner G) pkg ver discard_writer s = (Ok x, wr, s')" "\<not> wr_discard out"
      "bk_NewReader (gc_bucket G) (objectName G pkg ver) b = (Ok rd, b')" "copy_all (rd_reads rd) = Ok got"
      "wr_data out' = wr_data out @ got"
      "\<forall>c. map_of (bu_Metadata x) sha256MetadataKey = Some c \<longrightarrow> gc_hash G got = c"
proof -
  obtain q wr s1 where get: "mg_Get (gc_inner G) pkg ver discard_writer s = (q, wr, s1)" by (metis surj_pair)
  then obtain m where q: "q = Ok m" using assms by (cases q) (auto simp: gcs_Get_def gcs_resolve_def)
  show thesis
  proof (cases "wr_discard out")
    case True
    then show thesis using that(1) assms get q by (auto simp: gcs_Get_def gcs_resolve_def)
  next
    case False
    obtain c b1 where opened: "bk_NewReader (gc_bucket G) (objectName G pkg ver) b = (c, b1)" by fastforce
    then obtain rd where c: "c = Ok rd" using assms get q False by (cases c) (auto simp: gcs_Get_def gcs_resolve_def)
    obtain l o1 where loop: "download_loop (GWriteOut :: string \<Rightarrow> 'e gcs_err) GReadData (total_size rd) (rd_reads rd) []
        (out\<lparr>wr_progress := wr_progress out @ [(0, total_size rd, ''bytes'')]\<rparr>) = (l, o1)" by fastforce
    then have res: "andThen l (integrity (gc_hash G) GIntegrity m) = Ok x" "out' = o1" "s' = s1" "b' = b1"
      using assms get q False opened c by (simp_all add: gcs_Get_def gcs_resolve_def Let_def)
    then obtain h where l: "l = Ok h"
      "integrity (gc_hash G) (GIntegrity :: string \<Rightarrow> string \<Rightarrow> 'e gcs_err) m h = Ok x" by (auto simp: outcome_simps)
    from download_loop_reads [OF loop [unfolded l(1)]] show thesis
      using that(2) get q False opened c res l(2) by (auto simp: integrity_def split: option.splits if_splits)
  qed
qed

lemma checksummed_simps [simp]:
  "bu_Package (checksummed G m data) = bu_Package m" "bu_Version (checksummed G m data) = bu_Version m"
  "map_of (bu_Metadata (checksummed G m data)) sha256MetadataKey = Some (gc_hash G data)"
  by (simp_all add: checksummed_def update_conv')

text \<open>Over an inner manager that keeps its contract, this manager keeps it too.\<close>

definition gcs_fresh :: "(string \<Rightarrow> string \<Rightarrow> 's \<Rightarrow> bool) \<Rightarrow> string \<Rightarrow> string \<Rightarrow> 's \<times> 'b \<Rightarrow> bool" where
  "gcs_fresh fresh pkg ver = (\<lambda>(s, b). ver \<noteq> Latest \<and> fresh pkg ver s)"

definition gcs_holds ::
  "('e, 's, 'w, 'b) gcs \<Rightarrow> ('w, 'b) bucket_view \<Rightarrow> (release_bundle \<Rightarrow> bytes \<Rightarrow> 's \<Rightarrow> bool) \<Rightarrow> release_bundle \<Rightarrow> bytes \<Rightarrow> 's \<times> 'b \<Rightarrow> bool" where
  "gcs_holds G V holds m data = (\<lambda>(s, b). bu_Version m \<noteq> Latest \<and> bucket_law (gc_bucket G) V \<and>
     holds (checksummed G m data) [] s \<and> bv_view V b (bundle_name G m) = Some data)"

lemma gcs_Get_states:
  assumes "gcs_Get G pkg ver out (s, b) = (res, out', s', b')"
  shows "(\<exists>s1. (s1 = s \<or> (\<exists>p. mg_GetPackage (gc_inner G) pkg s = (p, s1))) \<and>
      (s' = s1 \<or> (\<exists>v q wr. mg_Get (gc_inner G) pkg v discard_writer s1 = (q, wr, s')))) \<and>
    (b' = b \<or> (\<exists>n q. bk_NewReader (gc_bucket G) n b = (q, b')))"
proof -
  obtain rv s1 where res: "gcs_resolve G pkg ver s = (rv, s1)" by fastforce
  then have s1: "s1 = s \<or> (\<exists>p. mg_GetPackage (gc_inner G) pkg s = (p, s1))"
    by (auto simp: gcs_resolve_def split: if_splits prod.splits)
  show ?thesis
  proof (cases rv)
    case (Ok v)
    obtain q wr s2 where get: "mg_Get (gc_inner G) pkg v discard_writer s1 = (q, wr, s2)" by (metis surj_pair)
    obtain c b1 where rd: "bk_NewReader (gc_bucket G) (objectName G pkg v) b = (c, b1)" by fastforce
    have "s' = s2" "b' = b \<or> b' = b1" using assms res Ok get rd
      by (auto simp: gcs_Get_def Let_def split: outcome.splits if_splits prod.splits)
    then show ?thesis using s1 get rd by blast
  qed (use assms res s1 in \<open>auto simp: gcs_Get_def\<close>)
qed

context release_store
begin

lemma gcs_upload_recorded:
  assumes "gc_inner G = M" and "gcs_fresh fresh (bu_Package m) (bu_Version m) (s, b)"
    and up: "gcs_Upload G m r (s, b) = (Ok (), r', s', b')"
  shows "\<exists>data. copy_all (rd_reads r) = Ok data \<and> holds (checksummed G m data) [] s' \<and> bu_Version m \<noteq> Latest \<and>
    (\<forall>V. bucket_law (gc_bucket G) V \<longrightarrow> bv_view V b' (bundle_name G m) = Some data)"
proof -
  obtain e wr s1 data pr w b1 rd where u: "mg_Get M (bu_Package m) (bu_Version m) discard_writer s = (Err e, wr, s1)"
    "stream_loop G m (total_size r) (rd_reads r) [] (rd_progress r @ [(0, total_size r, ''bytes'')])
       (bk_NewCreateWriter (gc_bucket G) (bundle_name G m)) b = (Ok data, pr, w, b1)"
    "copy_all (rd_reads r) = Ok data" "bk_Close (gc_bucket G) w b1 = (None, b')"
    "mg_Upload M (checksummed G m data) nop_reader s1 = (Ok (), rd, s')"
    using gcs_Upload_Ok [OF up] assms(1) by metis
  have f: "fresh (bu_Package m) (bu_Version m) s" "bu_Version m \<noteq> Latest" using assms(2) by (simp_all add: gcs_fresh_def)
  have "fresh (bu_Package (checksummed G m data)) (bu_Version (checksummed G m data)) s1"
    using fresh_get [OF f(1) u(1)] by simp
  then have "holds (checksummed G m data) [] s'"
    using upload_holds [OF _ u(5) gives_nop] by simp
  moreover have "bv_view V b' (bundle_name G m) = Some data" if law: "bucket_law (gc_bucket G) V" for V
    using stream_loop_law [OF law u(2)] bucket_lawD(1,2) [OF law] bucket_lawD(4) [OF law u(4)] by simp
  ultimately show ?thesis using u(3) f(2) by blast
qed

lemma gcs_upload_held:
  assumes "gc_inner G = M" and law: "bucket_law (gc_bucket G) V"
    and "gcs_fresh fresh (bu_Package m) (bu_Version m) (s, b)" and up: "gcs_Upload G m r (s, b) = (Ok (), r', s', b')"
  shows "\<exists>data. copy_all (rd_reads r) = Ok data \<and> gcs_holds G V holds m data (s', b')"
  using gcs_upload_recorded [OF assms(1,3) up] law by (auto simp: gcs_holds_def)

lemma gcs_get_held:
  assumes "gc_inner G = M" and "gcs_holds G V holds m data (s, b)"
    and get: "gcs_Get G (bu_Package m) (bu_Version m) out (s, b) = (Ok x, out', s', b')"
  shows "stored (checksummed G m data) [] x \<and> (wr_discard out \<or> wr_data out' = wr_data out @ data)"
proof -
  have h: "bu_Version m \<noteq> Latest" "bucket_law (gc_bucket G) V" "holds (checksummed G m data) [] s"
    "bv_view V b (bundle_name G m) = Some data" using assms(2) by (simp_all add: gcs_holds_def)
  from gcs_Get_Ok [OF get h(1)] show ?thesis
  proof cases
    case (1 wr)
    then show ?thesis using get_held [OF h(3), of discard_writer x wr s'] assms(1) by simp
  next
    case (2 wr rd got)
    then show ?thesis using get_held [OF h(3), of discard_writer x wr s'] assms(1) bucket_lawD(7) [OF h(2) 2(3)] h(4) by simp
  qed
qed

text \<open>Whatever has happened to the bucket since, the bytes that come down have the published checksum.\<close>

lemma gcs_get_checked:
  assumes "gc_inner G = M"
    "holds (checksummed G m data) [] s" "bu_Version m \<noteq> Latest"
    and get: "gcs_Get G (bu_Package m) (bu_Version m) out (s, b) = (Ok x, out', s', b')" "\<not> wr_discard out"
    and same: "\<And>x. stored (checksummed G m data) [] x \<Longrightarrow> x = checksummed G m data"
  shows "x = checksummed G m data \<and> (\<exists>got. wr_data out' = wr_data out @ got \<and> gc_hash G got = gc_hash G data)"
  using gcs_Get_Ok [OF get(1) assms(3)]
proof cases
  case (2 wr rd got)
  then have "x = checksummed G m data" using get_held [OF assms(2), of discard_writer x wr s'] assms(1) same by simp
  then show ?thesis using 2 by auto
qed (use get(2) in simp)

lemma gcs_get_keeps:
  assumes "gc_inner G = M" "bucket_law (gc_bucket G) V" "gcs_Get G pkg ver out (s, b) = (res, out', s', b')"
  shows "gcs_holds G V holds m data (s, b) \<Longrightarrow> gcs_holds G V holds m data (s', b')"
    and "gcs_fresh fresh pkg' ver' (s, b) \<Longrightarrow> gcs_fresh fresh pkg' ver' (s', b')"
proof -
  from gcs_Get_states [OF assms(3)] obtain s1 where s1: "s1 = s \<or> (\<exists>p. mg_GetPackage M pkg s = (p, s1))"
    and s2: "s' = s1 \<or> (\<exists>v q wr. mg_Get M pkg v discard_writer s1 = (q, wr, s'))"
    and b: "b' = b \<or> (\<exists>n q. bk_NewReader (gc_bucket G) n b = (q, b'))" unfolding assms(1) by blast
  have view: "bv_view V b' = bv_view V b" using b bucket_lawD(7) [OF assms(2)] by blast
  show "gcs_holds G V holds m data (s', b')" if "gcs_holds G V holds m data (s, b)"
  proof -
    have "holds (checksummed G m data) [] s1" using s1 get_package_holds that by (auto simp: gcs_holds_def)
    then have "holds (checksummed G m data) [] s'" using s2 holds_get by blast
    then show ?thesis using that view by (simp add: gcs_holds_def)
  qed
  show "gcs_fresh fresh pkg' ver' (s', b')" if "gcs_fresh fresh pkg' ver' (s, b)"
  proof -
    have "fresh pkg' ver' s1" using s1 get_package_fresh that by (auto simp: gcs_fresh_def)
    then have "fresh pkg' ver' s'" using s2 fresh_get by blast
    then show ?thesis using that by (simp add: gcs_fresh_def)
  qed
qed

lemma gcs_release_store:
  assumes "gc_inner G = M" "bucket_law (gc_bucket G) V"
  shows "release_store (gcs_manager G) (gcs_fresh fresh) (gcs_holds G V holds) (\<lambda>m data. stored (checksummed G m data) [])"
proof
  fix m :: release_bundle and r r' :: reader and data :: bytes and st st'
  assume "gcs_fresh fresh (bu_Package m) (bu_Version m) st" "mg_Upload (gcs_manager G) m r st = (Ok (), r', st')"
    "gives r data"
  then show "gcs_holds G V holds m data st'"
    using gcs_upload_held [OF assms, of m "fst st" "snd st" r r' "fst st'" "snd st'"] by (auto simp: gcs_manager_def gives_def)
next
  fix m b :: release_bundle and data :: bytes and w w' :: writer and st st'
  assume "gcs_holds G V holds m data st" "mg_Get (gcs_manager G) (bu_Package m) (bu_Version m) w st = (Ok b, w', st')"
  then show "stored (checksummed G m data) [] b \<and> (wr_discard w \<or> wr_data w' = wr_data w @ data)"
    using gcs_get_held [OF assms(1), of V m data "fst st" "snd st" w b w' "fst st'" "snd st'"] by (simp add: gcs_manager_def)
next
  fix m :: release_bundle and data :: bytes and pkg ver :: string and w w' :: writer and st st' res
  assume "gcs_holds G V holds m data st" "mg_Get (gcs_manager G) pkg ver w st = (res, w', st')"
  then show "gcs_holds G V holds m data st'"
    using gcs_get_keeps(1) [OF assms, of pkg ver w "fst st" "snd st" res w' "fst st'" "snd st'"] by (simp add: gcs_manager_def)
next
  fix pkg ver pkg' ver' :: string and w w' :: writer and st st' res
  assume "gcs_fresh fresh pkg ver st" "mg_Get (gcs_manager G) pkg' ver' w st = (res, w', st')"
  then show "gcs_fresh fresh pkg ver st'"
    using gcs_get_keeps(2) [OF assms, of pkg' ver' w "fst st" "snd st" res w' "fst st'" "snd st'"] by (simp add: gcs_manager_def)
next
  fix m :: release_bundle and data :: bytes and pkg :: string and st st' res
  assume "gcs_holds G V holds m data st" "mg_GetPackage (gcs_manager G) pkg st = (res, st')"
  then show "gcs_holds G V holds m data st'"
    using get_package_holds assms(1) by (auto simp: gcs_manager_def on_inner_def gcs_holds_def split: prod.splits)
next
  fix pkg ver pkg' :: string and st st' res
  assume "gcs_fresh fresh pkg ver st" "mg_GetPackage (gcs_manager G) pkg' st = (res, st')"
  then show "gcs_fresh fresh pkg ver st'"
    using get_package_fresh assms(1) by (auto simp: gcs_manager_def on_inner_def gcs_fresh_def split: prod.splits)
qed

end

section \<open>A bucket as a map\<close>

definition map_bucket :: "(string \<times> bytes, string \<rightharpoonup> bytes) bucket" where
  "map_bucket = \<lparr>bk_NewCreateWriter = (\<lambda>n. (n, [])),
     bk_Write = (\<lambda>d (n, x) b. (None, (n, x @ d), b)),
     bk_Close = (\<lambda>(n, x) b. if b n = None then (None, b(n \<mapsto> x)) else (Some BExists, b)),
     bk_NewReader = (\<lambda>n b. (case b n of None \<Rightarrow> Err BNotExist
       | Some d \<Rightarrow> Ok \<lparr>rd_reads = [(d, REOF)], rd_size = Some (int (length d)), rd_progress = [], rd_seek = NoSeek\<rparr>, b)),
     bk_Delete = (\<lambda>n b. if b n = None then (Some BNotExist, b) else (None, b(n := None))),
     bk_SignedURL = (\<lambda>n opts b. Ok (''https://bucket/'' @ n))\<rparr>"

definition map_view :: "(string \<times> bytes, string \<rightharpoonup> bytes) bucket_view" where
  "map_view = \<lparr>bv_view = (\<lambda>b. b), bv_target = fst, bv_written = snd\<rparr>"

lemma map_bucket_law: "bucket_law map_bucket map_view"
  by (auto simp: bucket_law_def map_bucket_def map_view_def split: if_splits option.splits)

definition map_gcs :: "(bytes \<Rightarrow> string) \<Rightarrow> rel_codec \<Rightarrow> string \<Rightarrow> (release_err, release_db, string \<times> bytes, string \<rightharpoonup> bytes) gcs" where
  "map_gcs hash C prefix = \<lparr>gc_inner = doc_manager hash C, gc_bucket = map_bucket, gc_prefix = prefix,
     gc_signOpts = None, gc_hash = hash, gc_not_found = (\<lambda>e. e = RelStore ErrNotFound)\<rparr>"

interpretation gcs_rel: release_store "gcs_manager (map_gcs hash C prefix)" "gcs_fresh (rel_fresh hash C)"
  "gcs_holds (map_gcs hash C prefix) map_view (rel_holds hash C)" "\<lambda>m data b. b = checksummed (map_gcs hash C prefix) m data" for hash C prefix
  by (rule doc_rel.gcs_release_store) (simp_all add: map_gcs_def map_bucket_law)

section \<open>Properties\<close>

text \<open>
  After an upload of a new release that reports success, with the manifests kept by the manager over
  documents and under any failures: a download that reports success returns the manifest with the
  checksum, and the bytes it wrote have the checksum of the bytes that were uploaded, whatever has
  become of the bucket in between; if the bucket is as the upload left it they are those bytes.
\<close>

theorem gcs_download_checked:
  assumes inner: "gc_inner G = doc_manager hash C" "rel_codec_law C" "\<forall>x. hash x \<noteq> ''''"
    and new: "plain (bu_Package m)" "plain (bu_Version m)" "bu_Version m \<noteq> Latest"
      "lookup s (makeReleaseDocID (bu_Package m) (bu_Version m)) = None"
    and up: "gcs_Upload G m r (s, b) = (Ok (), r', s', b')"
    and get: "gcs_Get G (bu_Package m) (bu_Version m) out (s', c) = (Ok x, out', s'', c')" "\<not> wr_discard out"
  shows "\<exists>data got. copy_all (rd_reads r) = Ok data \<and> x = checksummed G m data \<and> wr_data out' = wr_data out @ got \<and>
    gc_hash G got = gc_hash G data \<and> (bucket_law (gc_bucket G) V \<and> c = b' \<longrightarrow> got = data)"
proof -
  have "gcs_fresh (rel_fresh hash C) (bu_Package m) (bu_Version m) (s, b)"
    using inner new by (simp add: gcs_fresh_def rel_fresh_def)
  from doc_rel.gcs_upload_recorded [OF inner(1) this up] obtain data where d: "copy_all (rd_reads r) = Ok data"
    "rel_holds hash C (checksummed G m data) [] s'"
    "\<forall>V. bucket_law (gc_bucket G) V \<longrightarrow> bv_view V b' (bundle_name G m) = Some data" by blast
  obtain got where got: "x = checksummed G m data" "wr_data out' = wr_data out @ got" "gc_hash G got = gc_hash G data"
    using doc_rel.gcs_get_checked [OF inner(1) d(2) new(3) get] by blast
  have "got = data" if "bucket_law (gc_bucket G) V" "c = b'"
  proof -
    have "gcs_holds G V (rel_holds hash C) m data (s', c)" using d that new(3) by (simp add: gcs_holds_def)
    from doc_rel.gcs_get_held [OF inner(1) this get(1)] show ?thesis using got(2) get(2) by simp
  qed
  then show ?thesis using d(1) got by blast
qed

definition latest_db :: release_db where
  "latest_db = \<lparr>docs = [(''package:tool'', PkgDoc sample_package_doc)], faults = []\<rparr>"

text \<open>Uploads of version 1 of a tool, three bytes in two reads.\<close>

definition tool_job :: "release_bundle \<Rightarrow> reader \<Rightarrow> bool" where
  "tool_job m r \<longleftrightarrow> bu_Package m = ''tool'' \<and> bu_Version m = ''1'' \<and>
     rd_reads r = [([1, 2], RMore), ([3], REOF)] \<and> rd_size r = Some 3 \<and> rd_progress r = []"

lemma sample_job: "tool_job sample_bundle sample_reader"
  by (simp add: tool_job_def sample_bundle_def sample_reader_def)

lemma sample_name: "objectName (map_gcs hash C ''releases'') ''tool'' ''1'' = ''releases/tool/1''"
  by (simp add: objectName_def map_gcs_def path_Join_def path_Clean_def Let_def)

lemmas map_gcs_simps = map_gcs_def map_bucket_def doc_manager_def

lemma sample_get: "mg_Get (doc_manager length_hash tag_codec) ''tool'' ''1'' w latest_db = (Err (RelStore ErrNotFound), w, latest_db)"
  by (simp add: doc_manager_def rel_Get_def get_as_def doc_Get_def latest_db_def lookup_def pop_fault_def makeReleaseDocID_def)

lemma sample_inner_upload:
  assumes "bu_Package m = ''tool''" "bu_Version m = ''1''"
  shows "\<exists>rd s' doc. Upload length_hash (checksummed (map_gcs length_hash tag_codec ''releases'') m [1, 2, 3]) nop_reader latest_db =
     (Ok (), rd, s') \<and> faults s' = [] \<and> lookup s' ''release:tool:1'' = Some (RelDoc doc)"
  using assms by (simp add: Upload_def createDataChunks_def nop_reader_def doc_Create_def doc_Set_def doc_Modify_def update_package_def
      latest_db_def lookup_def pop_fault_def makeReleaseDocID_def makePackageDocID_def put_def Let_def)

abbreviation sample_gcs :: "(release_err, release_db, string \<times> bytes, string \<rightharpoonup> bytes) gcs" where
  "sample_gcs \<equiv> map_gcs length_hash tag_codec ''releases''"

lemma sample_gcs_simps:
  "gc_inner sample_gcs = doc_manager length_hash tag_codec" "gc_hash sample_gcs = length_hash" "gc_bucket sample_gcs = map_bucket"
  "objectName sample_gcs ''tool'' ''1'' = ''releases/tool/1''"
  using sample_name by (simp_all add: map_gcs_def)

lemma tool_job_simps:
  assumes "tool_job m r"
  shows "bu_Package m = ''tool''" "bu_Version m = ''1''" "rd_reads r = [([1, 2], RMore), ([3], REOF)]"
    "total_size r = 3" "rd_progress r = []"
  using assms by (simp_all add: tool_job_def total_size_def)

definition sample_progress :: progress where
  "sample_progress = [(0, 3, ''bytes''), (2, 3, ''bytes''), (3, 3, ''bytes'')]"

lemma sample_steps:
  assumes "tool_job m r"
  shows "up_step sample_gcs (UStart m r) latest_db b =
     (UStream m r [([1, 2], RMore), ([3], REOF)] [] [(0, 3, ''bytes'')] (''releases/tool/1'', []), latest_db, b)"
  "up_step sample_gcs (UStream m r [([1, 2], RMore), ([3], REOF)] [] [(0, 3, ''bytes'')] (n, [])) s b =
     (UStream m r [([3], REOF)] [1, 2] [(0, 3, ''bytes''), (2, 3, ''bytes'')] (n, [1, 2]), s, b)"
  "up_step sample_gcs (UStream m r [([3], REOF)] [1, 2] [(0, 3, ''bytes''), (2, 3, ''bytes'')] (n, [1, 2])) s b =
     (UClose m r sample_progress [1, 2, 3] (n, [1, 2, 3]), s, b)"
  "up_step sample_gcs (UClose m r sample_progress [1, 2, 3] (n, [1, 2, 3])) s b =
     (case b n of
        None \<Rightarrow> (URecord m r sample_progress [1, 2, 3], s, b(n \<mapsto> [1, 2, 3]))
      | Some _ \<Rightarrow> (UDone m r sample_progress (Err (GClose (GExists ''tool'' ''1''))), s, b))"
  by (simp_all add: tool_job_simps [OF assms] sample_gcs_simps sample_get map_bucket_def stream_round_def Let_def check_size_def is_truncated_def
      sample_progress_def translateExistsErr_def split: option.split)

lemma sample_record:
  assumes "tool_job m r"
  shows "\<exists>s' doc. faults s' = [] \<and> lookup s' ''release:tool:1'' = Some (RelDoc doc) \<and> up_step sample_gcs (URecord m r sample_progress [1, 2, 3]) latest_db b =
     (UDone m r sample_progress (Ok ()), s', b)"
  using sample_inner_upload [OF tool_job_simps(1,2) [OF assms]] by (auto simp: sample_gcs_simps doc_manager_def)

text \<open>Advancing uploads one after the other is a run.\<close>

definition advance :: "('e, 's, 'w, 'b) gcs \<Rightarrow> nat \<Rightarrow> ('e, 's, 'w, 'b) world \<Rightarrow> ('e, 's, 'w, 'b) world" where
  "advance G i W = (case up_step G (wd_up W i) (wd_inner W) (wd_bucket W) of
     (u, s, b) \<Rightarrow> \<lparr>wd_up = (wd_up W)(i := u), wd_inner = s, wd_bucket = b\<rparr>)"

lemma advance_run: "world_run G W (map Advance is) (fold (advance G) is W)"
proof (induction "is" rule: rev_induct)
  case (snoc i "is")
  have "world_step G W' (Advance i) (advance G i W')" for W'
    by (cases "up_step G (wd_up W' i) (wd_inner W') (wd_bucket W')") (auto simp: advance_def intro: world_step.advance)
  then show ?case using run_snoc [OF snoc] by simp
qed (simp add: run_refl)

text \<open>Two uploads of one version at once: the second to close is told that the release exists.\<close>

definition sample_world :: "(release_err, release_db, string \<times> bytes, string \<rightharpoonup> bytes) world" where
  "sample_world = \<lparr>wd_up = (\<lambda>_. UStart sample_bundle sample_reader), wd_inner = latest_db, wd_bucket = Map.empty\<rparr>"

lemma sample_race:
  "\<exists>s'. fold (advance sample_gcs) [0, 1, 0, 1, 0, 1, 0, 1, 0] sample_world =
     \<lparr>wd_up = (\<lambda>_. UStart sample_bundle sample_reader)
        (0 := UDone sample_bundle sample_reader sample_progress (Ok ()),
         1 := UDone sample_bundle sample_reader sample_progress (Err (GClose (GExists ''tool'' ''1'')))),
      wd_inner = s', wd_bucket = [''releases/tool/1'' \<mapsto> [1, 2, 3]]\<rparr>"
proof -
  obtain s' where "up_step sample_gcs (URecord sample_bundle sample_reader sample_progress [1, 2, 3]) latest_db
      [''releases/tool/1'' \<mapsto> [1, 2, 3]] =
      (UDone sample_bundle sample_reader sample_progress (Ok ()), s', [''releases/tool/1'' \<mapsto> [1, 2, 3]])"
    using sample_record [OF sample_job] by blast
  then show ?thesis
    by (intro exI [of _ s']) (simp add: sample_world_def advance_def sample_steps [OF sample_job] fun_upd_twist del: up_step.simps)
qed

theorem published_once_witness:
  "\<exists>W'. world_run sample_gcs sample_world (map Advance [0, 1, 0, 1, 0, 1, 0, 1, 0]) W' \<and>
     wd_bucket W' ''releases/tool/1'' = Some [1, 2, 3] \<and>
     (\<forall>j m r pr. wd_up W' j = UDone m r pr (Ok ()) \<longrightarrow> bundle_name sample_gcs m = ''releases/tool/1'' \<longrightarrow> j = 0)"
proof -
  obtain W' where W': "fold (advance sample_gcs) [0, 1, 0, 1, 0, 1, 0, 1, 0] sample_world = W'" by blast
  with sample_race have finished: "wd_up W' 0 = UDone sample_bundle sample_reader sample_progress (Ok ())"
    "wd_bucket W' = [''releases/tool/1'' \<mapsto> [1, 2, 3]]" by auto
  have run: "world_run sample_gcs sample_world (map Advance [0, 1, 0, 1, 0, 1, 0, 1, 0]) W'"
    using advance_run [of sample_gcs sample_world "[0, 1, 0, 1, 0, 1, 0, 1, 0]"] unfolding W' .
  have law: "bucket_law (gc_bucket sample_gcs) map_view" by (simp add: sample_gcs_simps map_bucket_law)
  have start: "\<forall>i. \<exists>m r. wd_up sample_world i = UStart m r" by (simp add: sample_world_def)
  have kept: "DeleteObject ''releases/tool/1'' \<notin> set (map Advance [0, 1, 0, 1, 0, 1, 0, 1, 0])" by auto
  from published_once [OF law start run kept] finished sample_gcs_simps(4) tool_job_simps(1,2) [OF sample_job] run show ?thesis
    by (intro exI [of _ W']) auto
qed

lemma sample_gcs_upload:
  assumes "tool_job m r"
  shows "\<exists>r' s' doc. gcs_Upload sample_gcs m r (latest_db, Map.empty) =
     (Ok (), r', s', [''releases/tool/1'' \<mapsto> [1, 2, 3]]) \<and>
     faults s' = [] \<and> lookup s' ''release:tool:1'' = Some (RelDoc doc)"
proof -
  obtain res r' s1 b1 where up: "gcs_Upload sample_gcs m r (latest_db, Map.empty) = (res, r', s1, b1)"
    by (metis surj_pair)
  obtain s' doc where s': "faults s' = []" "lookup s' ''release:tool:1'' = Some (RelDoc doc)"
    "up_step sample_gcs (URecord m r sample_progress [1, 2, 3]) latest_db [''releases/tool/1'' \<mapsto> [1, 2, 3]] =
      (UDone m r sample_progress (Ok ()), s', [''releases/tool/1'' \<mapsto> [1, 2, 3]])"
    using sample_record [OF assms] by blast
  have "up_run (length (rd_reads r) + 5) sample_gcs (UStart m r) latest_db Map.empty =
      (UDone m r sample_progress (Ok ()), s', [''releases/tool/1'' \<mapsto> [1, 2, 3]])"
    using s'(3) by (simp add: tool_job_simps(3) [OF assms] eval_nat_numeral sample_steps [OF assms] up_run_done del: up_step.simps)
  with upload_in_steps [OF up] have "res = Ok ()" "s1 = s'" "b1 = [''releases/tool/1'' \<mapsto> [1, 2, 3]]" by auto
  then show ?thesis using up s' by blast
qed

lemma sample_gcs_roundtrip:
  assumes job: "tool_job m r"
  obtains r' s' where "gcs_Upload sample_gcs m r (latest_db, Map.empty) = (Ok (), r', s', [''releases/tool/1'' \<mapsto> [1, 2, 3]])"
    "\<forall>w. wr_faults w = [] \<longrightarrow> (\<exists>w'. gcs_Get sample_gcs ''tool'' ''1'' w (s', [''releases/tool/1'' \<mapsto> [1, 2, 3]]) =
       (Ok (checksummed sample_gcs m [1, 2, 3]), w', s', [''releases/tool/1'' \<mapsto> [1, 2, 3]]) \<and>
       (if wr_discard w then w' = w else wr_data w' = wr_data w @ [1, 2, 3]))"
proof -
  let ?b = "[''releases/tool/1'' \<mapsto> [1, 2, 3 :: 8 word]]"
  obtain r' s' doc where up: "gcs_Upload sample_gcs m r (latest_db, Map.empty) = (Ok (), r', s', ?b)"
    and s': "faults s' = []" "lookup s' ''release:tool:1'' = Some (RelDoc doc)" using sample_gcs_upload [OF job] by blast
  have "gcs_fresh (rel_fresh length_hash tag_codec) (bu_Package m) (bu_Version m) (latest_db, Map.empty)"
    using tag_codec_law tool_job_simps(1,2) [OF job]
    by (simp add: gcs_fresh_def rel_fresh_def length_hash_def plain_def Latest_def latest_db_def lookup_def makeReleaseDocID_def)
  from doc_rel.gcs_upload_held [OF sample_gcs_simps(1) _ this up, of map_view] have
    held: "gcs_holds sample_gcs map_view (rel_holds length_hash tag_codec) m [1, 2, 3] (s', ?b)"
    using map_bucket_law by (auto simp: sample_gcs_simps tool_job_simps [OF job])
  have inner: "mg_Get (gc_inner sample_gcs) ''tool'' ''1'' discard_writer s' = (Ok (rl_Bundle doc), discard_writer, s')"
    using s' by (simp add: sample_gcs_simps doc_manager_def rel_Get_def get_as_def doc_Get_def pop_fault_def
        makeReleaseDocID_def discard_writer_def tag_codec_law [unfolded rel_codec_law_def])
  have "rl_Bundle doc = checksummed sample_gcs m [1, 2, 3]"
    using doc_rel.get_held [of length_hash tag_codec "checksummed sample_gcs m [1, 2, 3]" "[]" s' discard_writer]
      held inner by (simp add: gcs_holds_def sample_gcs_simps tool_job_simps [OF job])
  then have "\<exists>w'. gcs_Get sample_gcs ''tool'' ''1'' w (s', ?b) = (Ok (checksummed sample_gcs m [1, 2, 3]), w', s', ?b) \<and>
      (if wr_discard w then w' = w else wr_data w' = wr_data w @ [1, 2, 3])" if "wr_faults w = []" for w
    using inner that by (simp add: gcs_Get_def gcs_resolve_def Latest_def sample_gcs_simps map_bucket_def
        writer_Write_def integrity_def Let_def)
  then show thesis using that up by blast
qed

theorem gcs_download_checked_witness:
  "\<exists>r' s' b' x out' st. gcs_Upload sample_gcs sample_bundle sample_reader (latest_db, Map.empty) = (Ok (), r', s', b') \<and>
     gcs_Get sample_gcs ''tool'' ''1'' empty_writer (s', b') = (Ok x, out', st) \<and>
     wr_data out' = [1, 2, 3] \<and> map_of (bu_Metadata x) ''sha256'' = Some (length_hash [1, 2, 3])"
proof -
  note job = tool_job_simps [OF sample_job]
  let ?b = "[''releases/tool/1'' \<mapsto> [1, 2, 3 :: 8 word]]"
  obtain r' s' where up: "gcs_Upload sample_gcs sample_bundle sample_reader (latest_db, Map.empty) = (Ok (), r', s', ?b)"
    and gets: "\<forall>w. wr_faults w = [] \<longrightarrow> (\<exists>w'. gcs_Get sample_gcs ''tool'' ''1'' w (s', ?b) =
      (Ok (checksummed sample_gcs sample_bundle [1, 2, 3]), w', s', ?b) \<and>
      (if wr_discard w then w' = w else wr_data w' = wr_data w @ [1, 2, 3]))"
    by (rule sample_gcs_roundtrip [OF sample_job])
  obtain out' where get: "gcs_Get sample_gcs (bu_Package sample_bundle) (bu_Version sample_bundle) empty_writer (s', ?b) =
      (Ok (checksummed sample_gcs sample_bundle [1, 2, 3]), out', s', ?b)"
    using gets [THEN spec, of empty_writer] by (auto simp: empty_writer_def job)
  have new: "\<forall>x. length_hash x \<noteq> ''''" "plain (bu_Package sample_bundle)" "plain (bu_Version sample_bundle)"
    "bu_Version sample_bundle \<noteq> Latest"
    "lookup latest_db (makeReleaseDocID (bu_Package sample_bundle) (bu_Version sample_bundle)) = None"
    by (simp_all add: job length_hash_def plain_def Latest_def latest_db_def lookup_def makeReleaseDocID_def)
  from gcs_download_checked [OF sample_gcs_simps(1) tag_codec_law new up get, of map_view]
  have "wr_data out' = [1, 2, 3]" using map_bucket_law by (auto simp: sample_gcs_simps empty_writer_def job)
  then show ?thesis using up get checksummed_simps(3) [of sample_gcs sample_bundle "[1, 2, 3]"]
    by (auto simp: sha256MetadataKey_def sample_gcs_simps job)
qed

end
