(* ===== verification/SignedManager.thy ===== *)
theory SignedManager
  imports GcsManager
begin

text \<open>
  The release manager that signs what it uploads and verifies what it gets, over any other manager
  (\<^verbatim>\<open>release/signedrelease/signing_manager.go\<close>), with the signatures of package crypto
  (\<^verbatim>\<open>crypto/pgp.go\<close>). OpenPGP itself is third-party code, a record of operations; so is
  the file a writer that seeks stands for.
\<close>

section \<open>Signatures\<close>

record identity =
  id_Name :: string
  id_IsPrimary :: "bool option"

text \<open>
  Keys with their identities in the order of the map's iteration; signing draws on a state of random
  numbers and clocks. \<open>op_armor\<close> decodes the armor to the type of its block and its body, \<open>op_packet\<close>
  reads the first packet of the body, a signature or something else.
\<close>

record ('k, 'c, 'q, 'g) openpgp =
  op_identities :: "'k \<Rightarrow> identity list"
  op_KeyIdString :: "'k \<Rightarrow> string"
  op_sign :: "'k \<Rightarrow> bytes \<Rightarrow> 'g \<Rightarrow> (string, string) outcome \<times> 'g"
  op_armor :: "string \<Rightarrow> (string, string \<times> 'c) outcome"
  op_packet :: "'c \<Rightarrow> (string, 'q option) outcome"
  op_verify :: "'k \<Rightarrow> bytes \<Rightarrow> 'q \<Rightarrow> string option"

fun primary_loop :: "identity option \<Rightarrow> identity list \<Rightarrow> identity option" where
  "primary_loop first [] = first"
| "primary_loop first (i # is) =
     (if id_IsPrimary i = Some True then Some i
      else primary_loop (case first of None \<Rightarrow> Some i | Some f \<Rightarrow> Some f) is)"

definition PrimaryIdentity :: "('k, 'c, 'q, 'g) openpgp \<Rightarrow> 'k \<Rightarrow> identity option" where
  "PrimaryIdentity P k = primary_loop None (op_identities P k)"

definition SignatureType :: string where
  "SignatureType = ''PGP SIGNATURE''"

datatype pgp_err = PDecode string | PInvalidFile | PReadSignature string | PInvalidType | PSign string

definition decodeSignature :: "('k, 'c, 'q, 'g) openpgp \<Rightarrow> string \<Rightarrow> (pgp_err, 'q) outcome" where
  "decodeSignature P sig =
     (case op_armor P sig of
        Err e \<Rightarrow> Err (PDecode e)
      | Panic \<Rightarrow> Panic
      | Ok (block_type, body) \<Rightarrow>
          if block_type \<noteq> SignatureType then Err PInvalidFile
          else (case op_packet P body of
                  Err e \<Rightarrow> Err (PReadSignature e)
                | Panic \<Rightarrow> Panic
                | Ok None \<Rightarrow> Err PInvalidType
                | Ok (Some q) \<Rightarrow> Ok q))"

text \<open>\<open>ArmoredSign\<close> of a reader: the bytes up to its end, or its error.\<close>

definition ArmoredSign ::
  "('k, 'c, 'q, 'g) openpgp \<Rightarrow> (bytes \<times> read_end) list \<Rightarrow> 'k \<Rightarrow> 'g \<Rightarrow> (pgp_err, string) outcome \<times> 'g" where
  "ArmoredSign P reads k g =
     (case copy_all reads of
        Ok data \<Rightarrow> (case op_sign P k data g of (r, g) \<Rightarrow> (mapErr PSign r, g))
      | Err e \<Rightarrow> (Err (PSign e), g)
      | Panic \<Rightarrow> (Panic, g))"

text \<open>\<open>Verify\<close> of what has been copied into the hash; the error of the copy is not looked at.\<close>

definition verify_hashed :: "('k, 'c, 'q, 'g) openpgp \<Rightarrow> bytes \<Rightarrow> 'q \<Rightarrow> 'k \<Rightarrow> (pgp_err, unit) outcome" where
  "verify_hashed P hashed q k = (case op_verify P k hashed q of None \<Rightarrow> Ok () | Some e \<Rightarrow> Err (PSign e))"

fun copied :: "(bytes \<times> read_end) list \<Rightarrow> bytes" where
  "copied [] = []"
| "copied ((data, end') # reads) = data @ (if end' = RMore then copied reads else [])"

text \<open>
  The same with the reader of \<open>io.TeeReader\<close>, which writes what it reads and returns what was written
  with the error of a write.
\<close>

fun tee_copied :: "(bytes \<times> read_end) list \<Rightarrow> writer \<Rightarrow> bytes \<times> writer" where
  "tee_copied [] out = ([], out)"
| "tee_copied ((data, end') # reads) out =
     (case writer_Write data out of
        (Some _, out') \<Rightarrow> (drop (length (wr_data out)) (wr_data out'), out')
      | (None, out') \<Rightarrow>
          if end' = RMore then (let (rest, out') = tee_copied reads out' in (data @ rest, out')) else (data, out'))"

section \<open>The manager\<close>

definition pgpSignedMetadata :: string where
  "pgpSignedMetadata = ''pgp-signature''"

definition pgpSignedMetadataKey :: string where
  "pgpSignedMetadataKey = ''pgp-signing-key-id''"

definition pgpSignedMetadataIdentity :: string where
  "pgpSignedMetadataIdentity = ''pgp-signing-primary-identity''"

datatype 'e signed_err = SInner 'e | SEncryptedKey | SSign pgp_err | SSeek string | SUnsigned | SVerify pgp_err

text \<open>
  \<open>sg_chunk\<close> is the size of the buffer that the root manager reads with; \<open>sg_rewind\<close> is what a file of
  the given contents returns from its start, or the error of seeking there; \<open>sg_encrypted\<close> looks for
  the text "signing key is encrypted" in an error.
\<close>

record ('e, 's, 'k, 'c, 'q, 'g) signing =
  sg_root :: "('e, 's) manager"
  sg_pgp :: "('k, 'c, 'q, 'g) openpgp"
  sg_key :: 'k
  sg_chunk :: nat
  sg_rewind :: "bytes \<Rightarrow> (string, (bytes \<times> read_end) list) outcome"
  sg_encrypted :: "pgp_err \<Rightarrow> bool"

definition with_signature :: "('e, 's, 'k, 'c, 'q, 'g) signing \<Rightarrow> identity \<Rightarrow> string \<Rightarrow> release_bundle \<Rightarrow> release_bundle" where
  "with_signature S ident sig m = m\<lparr>bu_Metadata :=
     AList.update pgpSignedMetadataKey (op_KeyIdString (sg_pgp S) (sg_key S))
       (AList.update pgpSignedMetadata sig
         (AList.update pgpSignedMetadataIdentity (id_Name ident) (bu_Metadata m)))\<rparr>"

text \<open>
  The reader that is relayed to the root manager: one that seeks is put back to its start, otherwise
  what has been read for signing is read again from a buffer.
\<close>

definition relayed :: "('e, 's, 'k, 'c, 'q, 'g) signing \<Rightarrow> reader \<Rightarrow> ('e signed_err, (bytes \<times> read_end) list) outcome" where
  "relayed S in' =
     (case rd_seek in' of
        NoSeek \<Rightarrow> (case copy_all (rd_reads in') of Ok data \<Rightarrow> Ok (buffer_reads (sg_chunk S) data) | _ \<Rightarrow> Ok [])
      | SeekTo reads \<Rightarrow> Ok reads
      | SeekFails e \<Rightarrow> Err (SSeek e)
      | SeekPanics \<Rightarrow> Panic)"

definition signed_Upload ::
  "('e, 's, 'k, 'c, 'q, 'g) signing \<Rightarrow> release_bundle \<Rightarrow> reader \<Rightarrow> 's \<times> 'g \<Rightarrow>
   ('e signed_err, unit) outcome \<times> reader \<times> 's \<times> 'g" where
  "signed_Upload S m in' = (\<lambda>(s, g).
     (case ArmoredSign (sg_pgp S) (rd_reads in') (sg_key S) g of
        (Err e, g) \<Rightarrow> (Err (if sg_encrypted S e then SEncryptedKey else SSign e), in', s, g)
      | (Panic, g) \<Rightarrow> (Panic, in', s, g)
      | (Ok sig, g) \<Rightarrow>
          (case PrimaryIdentity (sg_pgp S) (sg_key S) of
             None \<Rightarrow> (Panic, in', s, g)
           | Some ident \<Rightarrow>
               (case relayed S in' of
                  Err e \<Rightarrow> (Err e, in', s, g)
                | Panic \<Rightarrow> (Panic, in', s, g)
                | Ok reads \<Rightarrow>
                    (let (r, rd, s) = mg_Upload (sg_root S) (with_signature S ident sig m) (NewRelayProgressReader reads in') s
                     in (mapErr SInner r, in'\<lparr>rd_progress := rd_progress rd\<rparr>, s, g))))))"

definition check_signature ::
  "('e, 's, 'k, 'c, 'q, 'g) signing \<Rightarrow> string \<Rightarrow> (bytes \<times> writer) \<Rightarrow> writer \<Rightarrow> ('e signed_err, unit) outcome \<times> writer" where
  "check_signature S sig copy out =
     (case decodeSignature (sg_pgp S) sig of
        Err e \<Rightarrow> (Err (SVerify e), out)
      | Panic \<Rightarrow> (Panic, out)
      | Ok q \<Rightarrow> (mapErr SVerify (verify_hashed (sg_pgp S) (fst copy) q (sg_key S)), snd copy))"

definition signed_Get ::
  "('e, 's, 'k, 'c, 'q, 'g) signing \<Rightarrow> string \<Rightarrow> string \<Rightarrow> writer \<Rightarrow> 's \<times> 'g \<Rightarrow>
   ('e signed_err, release_bundle) outcome \<times> writer \<times> 's \<times> 'g" where
  "signed_Get S pkg ver out = (\<lambda>(s, g).
     (let relay = (if wr_seeks out then relay_to_file out else relay_to_buffer out);
          (r, w, s) = mg_Get (sg_root S) pkg ver relay s;
          out = (if wr_seeks out then w\<lparr>wr_discard := wr_discard out, wr_seeks := True\<rparr>
                 else out\<lparr>wr_progress := wr_progress w\<rparr>)
      in case r of
           Err e \<Rightarrow> (Err (SInner e), out, s, g)
         | Panic \<Rightarrow> (Panic, out, s, g)
         | Ok man \<Rightarrow>
             (case map_of (bu_Metadata man) pgpSignedMetadata of
                None \<Rightarrow> (Err SUnsigned, out, s, g)
              | Some sig \<Rightarrow>
                  if wr_seeks out
                  then (case sg_rewind S (wr_data out) of
                          Err e \<Rightarrow> (Err (SSeek e), out, s, g)
                        | Panic \<Rightarrow> (Panic, out, s, g)
                        | Ok reads \<Rightarrow>
                            (let (v, out) = check_signature S sig (copied reads, out) out
                             in (andThen v (\<lambda>_. Ok man), out, s, g)))
                  else (let (v, out) = check_signature S sig (tee_copied (buffer_reads 32768 (wr_data w)) out) out
                        in (andThen v (\<lambda>_. Ok man), out, s, g)))))"

text \<open>The other operations are those of the root manager.\<close>

definition on_root :: "('s \<Rightarrow> ('e, 'a) outcome \<times> 's) \<Rightarrow> 's \<times> 'g \<Rightarrow> ('e signed_err, 'a) outcome \<times> 's \<times> 'g" where
  "on_root f = (\<lambda>(s, g). let (r, s) = f s in (mapErr SInner r, s, g))"

definition signing_manager :: "('e, 's, 'k, 'c, 'q, 'g) signing \<Rightarrow> ('e signed_err, 's \<times> 'g) manager" where
  "signing_manager S = \<lparr>mg_Create = (\<lambda>p. on_root (mg_Create (sg_root S) p)),
     mg_UpdatePackageMetadata = (\<lambda>pkg md. on_root (mg_UpdatePackageMetadata (sg_root S) pkg md)),
     mg_DeletePackage = (\<lambda>pkg. on_root (mg_DeletePackage (sg_root S) pkg)),
     mg_GetPackage = (\<lambda>pkg. on_root (mg_GetPackage (sg_root S) pkg)),
     mg_ListPackages = (\<lambda>fs. on_root (mg_ListPackages (sg_root S) fs)),
     mg_Upload = signed_Upload S, mg_Get = signed_Get S,
     mg_Delete = (\<lambda>pkg ver. on_root (mg_Delete (sg_root S) pkg ver)),
     mg_List = (\<lambda>pkg fs. on_root (mg_List (sg_root S) pkg fs))\<rparr>"

lemma with_signature_simps [simp]:
  "bu_Package (with_signature S ident sig m) = bu_Package m" "bu_Version (with_signature S ident sig m) = bu_Version m"
  "map_of (bu_Metadata (with_signature S ident sig m)) pgpSignedMetadata = Some sig"
  by (simp_all add: with_signature_def update_conv' pgpSignedMetadata_def pgpSignedMetadataKey_def)

lemma tee_copied_writes: "tee_copied reads out = (hashed, out') \<Longrightarrow> wr_data out' = wr_data out @ hashed"
proof (induction reads arbitrary: out hashed out')
  case (Cons x reads)
  obtain data end' where x: "x = (data, end')" by fastforce
  obtain f o1 where wr: "writer_Write data out = (f, o1)" by fastforce
  obtain n where d: "wr_data o1 = wr_data out @ take n data" and n: "f = None \<longrightarrow> take n data = data"
  proof (cases "wr_faults out")
    case Nil
    then show thesis using that [of "length data"] wr by (auto simp: writer_Write_def)
  next
    case (Cons y ys)
    then show thesis using that [of "length data"] that wr by (cases y) (auto simp: writer_Write_def)
  qed
  show ?case
  proof (cases f)
    case None
    obtain rest o2 where "tee_copied reads o1 = (rest, o2)" by fastforce
    with Cons.IH [OF this] show ?thesis using Cons.prems x wr None d n by (auto split: if_splits)
  qed (use Cons.prems x wr d in auto)
qed simp

lemma check_signature_Ok:
  "check_signature S sig copy out = (Ok u, out') \<Longrightarrow>
   \<exists>q. decodeSignature (sg_pgp S) sig = Ok q \<and> op_verify (sg_pgp S) (sg_key S) (fst copy) q = None \<and> out' = snd copy"
  by (auto simp: check_signature_def verify_hashed_def outcome_simps split: outcome.splits option.splits)

lemma signed_Get_Ok:
  assumes "signed_Get S pkg ver out (s, g) = (Ok man, out', s', g')"
  obtains w sig q hashed where "g' = g"
    "mg_Get (sg_root S) pkg ver (if wr_seeks out then relay_to_file out else relay_to_buffer out) s = (Ok man, w, s')"
    "map_of (bu_Metadata man) pgpSignedMetadata = Some sig" "decodeSignature (sg_pgp S) sig = Ok q"
    "op_verify (sg_pgp S) (sg_key S) hashed q = None"
    "if wr_seeks out then wr_data out' = wr_data w \<and> (\<exists>reads. sg_rewind S (wr_data w) = Ok reads \<and> hashed = copied reads)
     else wr_data out' = wr_data out @ hashed"
proof -
  obtain r w s1 where get: "mg_Get (sg_root S) pkg ver
      (if wr_seeks out then relay_to_file out else relay_to_buffer out) s = (r, w, s1)" by (metis surj_pair)
  then obtain m where r: "r = Ok m" using assms by (cases r) (auto simp: signed_Get_def Let_def)
  then obtain sig where sig: "map_of (bu_Metadata m) pgpSignedMetadata = Some sig"
    using assms get by (cases "map_of (bu_Metadata m) pgpSignedMetadata") (auto simp: signed_Get_def Let_def)
  show thesis
  proof (cases "wr_seeks out")
    case True
    let ?out = "w\<lparr>wr_discard := wr_discard out, wr_seeks := True\<rparr>"
    obtain reads where reads: "sg_rewind S (wr_data w) = Ok reads"
      using assms get r sig True by (cases "sg_rewind S (wr_data w)") (auto simp: signed_Get_def Let_def)
    obtain v o1 where c: "check_signature S sig (copied reads, ?out) ?out = (v, o1)" by fastforce
    then have v: "v = Ok ()" "man = m" "out' = o1" "s' = s1" "g' = g"
      using assms get r sig True reads by (cases v; auto simp: signed_Get_def Let_def)+
    from check_signature_Ok [OF c [unfolded v(1)]] show thesis using that get r sig True reads v by auto
  next
    case False
    let ?out = "out\<lparr>wr_progress := wr_progress w\<rparr>" and ?copy = "tee_copied (buffer_reads 32768 (wr_data w)) (out\<lparr>wr_progress := wr_progress w\<rparr>)"
    obtain v o1 where c: "check_signature S sig ?copy ?out = (v, o1)" by fastforce
    then have v: "v = Ok ()" "man = m" "out' = o1" "s' = s1" "g' = g"
      using assms get r sig False by (cases v; auto simp: signed_Get_def Let_def)+
    have "wr_data (snd ?copy) = wr_data out @ fst ?copy"
      using tee_copied_writes [of "buffer_reads 32768 (wr_data w)" ?out "fst ?copy" "snd ?copy"] by simp
    then show thesis using check_signature_Ok [OF c [unfolded v(1)]] that get r sig False v by auto
  qed
qed

lemma signed_Upload_Ok:
  assumes "signed_Upload S m in' (s, g) = (Ok (), r', s', g')"
  obtains data sig ident reads rd where "copy_all (rd_reads in') = Ok data" "op_sign (sg_pgp S) (sg_key S) data g = (Ok sig, g')"
    "relayed S in' = Ok reads" "mg_Upload (sg_root S) (with_signature S ident sig m) (NewRelayProgressReader reads in') s = (Ok (), rd, s')"
proof -
  obtain a g1 where sign: "ArmoredSign (sg_pgp S) (rd_reads in') (sg_key S) g = (a, g1)" by fastforce
  then obtain sig where a: "a = Ok sig" using assms by (cases a) (auto simp: signed_Upload_def)
  then obtain data where d: "copy_all (rd_reads in') = Ok data" "op_sign (sg_pgp S) (sg_key S) data g = (Ok sig, g1)"
    using sign by (auto simp: ArmoredSign_def outcome_simps split: outcome.splits prod.splits)
  obtain ident where i: "PrimaryIdentity (sg_pgp S) (sg_key S) = Some ident"
    using assms sign a by (cases "PrimaryIdentity (sg_pgp S) (sg_key S)") (auto simp: signed_Upload_def)
  obtain reads where reads: "relayed S in' = Ok reads"
    using assms sign a i by (cases "relayed S in'") (auto simp: signed_Upload_def)
  obtain u rd s2 where up: "mg_Upload (sg_root S) (with_signature S ident sig m) (NewRelayProgressReader reads in') s = (u, rd, s2)"
    by (metis surj_pair)
  then have "u = Ok ()" "s' = s2" "g' = g1" using assms sign a i reads by (cases u; auto simp: signed_Upload_def)+
  then show thesis using that d reads up by blast
qed

section \<open>The contract, kept\<close>

text \<open>A signature verifies the bytes it was made for and no others.\<close>

definition pgp_law :: "('k, 'c, 'q, 'g) openpgp \<Rightarrow> 'k \<Rightarrow> bool" where
  "pgp_law P k \<longleftrightarrow> (\<forall>data g sig g' q hashed. op_sign P k data g = (Ok sig, g') \<longrightarrow> decodeSignature P sig = Ok q \<longrightarrow>
     op_verify P k hashed q = None \<longrightarrow> hashed = data)"

definition signed_as :: "('e, 's, 'k, 'c, 'q, 'g) signing \<Rightarrow> bytes \<Rightarrow> string \<Rightarrow> bool" where
  "signed_as S data sig \<longleftrightarrow> (\<exists>g g'. op_sign (sg_pgp S) (sg_key S) data g = (Ok sig, g'))"

definition signed_fresh :: "(string \<Rightarrow> string \<Rightarrow> 's \<Rightarrow> bool) \<Rightarrow> string \<Rightarrow> string \<Rightarrow> 's \<times> 'g \<Rightarrow> bool" where
  "signed_fresh fresh pkg ver = (\<lambda>(s, g). fresh pkg ver s)"

definition signed_holds ::
  "('e, 's, 'k, 'c, 'q, 'g) signing \<Rightarrow> (release_bundle \<Rightarrow> bytes \<Rightarrow> 's \<Rightarrow> bool) \<Rightarrow> release_bundle \<Rightarrow> bytes \<Rightarrow> 's \<times> 'g \<Rightarrow> bool" where
  "signed_holds S holds m data = (\<lambda>(s, g). \<exists>ident sig. signed_as S data sig \<and> holds (with_signature S ident sig m) data s)"

definition signed_stored ::
  "('e, 's, 'k, 'c, 'q, 'g) signing \<Rightarrow> (release_bundle \<Rightarrow> bytes \<Rightarrow> release_bundle \<Rightarrow> bool) \<Rightarrow> release_bundle \<Rightarrow> bytes \<Rightarrow> release_bundle \<Rightarrow> bool" where
  "signed_stored S stored m data x \<longleftrightarrow>
     (\<exists>ident sig. signed_as S data sig \<and> stored (with_signature S ident sig m) data x)"

context release_store
begin

lemma signed_upload_held:
  assumes "sg_root S = M" "0 < sg_chunk S" "signed_fresh fresh (bu_Package m) (bu_Version m) (s, g)"
    and up: "signed_Upload S m in' (s, g) = (Ok (), r', s', g')" and gives: "gives in' data"
  shows "signed_holds S holds m data (s', g')"
proof -
  obtain x sig ident reads rd where u: "copy_all (rd_reads in') = Ok x" "op_sign (sg_pgp S) (sg_key S) x g = (Ok sig, g')"
    "relayed S in' = Ok reads" "mg_Upload M (with_signature S ident sig m) (NewRelayProgressReader reads in') s = (Ok (), rd, s')"
    using signed_Upload_Ok [OF up] assms(1) by metis
  have x: "x = data" using u(1) gives by (simp add: gives_def)
  have "no_empty_reads reads \<and> copy_all reads = Ok data"
    using u(1,3) gives x buffer_reads_ok [OF assms(2), of data]
    by (auto simp: relayed_def gives_def split: seeking.splits)
  then have "gives (NewRelayProgressReader reads in') data" using gives_relay by blast
  then have "holds (with_signature S ident sig m) data s'"
    using upload_holds [OF _ u(4)] assms(3) by (simp add: signed_fresh_def)
  then show ?thesis using u(2) x by (auto simp: signed_holds_def signed_as_def)
qed

lemma signed_get_held:
  assumes "sg_root S = M" "pgp_law (sg_pgp S) (sg_key S)" "signed_holds S holds m data (s, g)"
    and stored: "\<And>m b. stored m data b \<Longrightarrow> map_of (bu_Metadata b) pgpSignedMetadata = map_of (bu_Metadata m) pgpSignedMetadata"
    and get: "signed_Get S (bu_Package m) (bu_Version m) out (s, g) = (Ok man, out', s', g')"
  shows "signed_stored S stored m data man \<and> (wr_discard out \<or> wr_data out' = wr_data out @ data)"
proof -
  let ?relay = "if wr_seeks out then relay_to_file out else relay_to_buffer out"
  obtain ident sig where h: "signed_as S data sig" "holds (with_signature S ident sig m) data s"
    using assms(3) by (auto simp: signed_holds_def)
  from signed_Get_Ok [OF get] obtain w sig' q hashed where g: "mg_Get M (bu_Package m) (bu_Version m) ?relay s = (Ok man, w, s')"
    "map_of (bu_Metadata man) pgpSignedMetadata = Some sig'" "decodeSignature (sg_pgp S) sig' = Ok q"
    "op_verify (sg_pgp S) (sg_key S) hashed q = None"
    "if wr_seeks out then wr_data out' = wr_data w \<and> (\<exists>reads. sg_rewind S (wr_data w) = Ok reads \<and> hashed = copied reads)
     else wr_data out' = wr_data out @ hashed" unfolding assms(1) by metis
  have got: "stored (with_signature S ident sig m) data man" "wr_data w = wr_data ?relay @ data"
    using get_held [OF h(2), of ?relay man w s'] g(1)
    by (auto simp: relay_to_file_def relay_to_buffer_def split: if_splits)
  have "sig' = sig" using stored [OF got(1)] g(2) by simp
  then have "hashed = data" using assms(2) h(1) g(3,4) unfolding pgp_law_def signed_as_def by blast
  then have "wr_data out' = wr_data out @ data" using g(5) got(2) by (auto simp: relay_to_file_def split: if_splits)
  then show ?thesis using h(1) got(1) by (auto simp: signed_stored_def)
qed

lemma signed_release_store:
  assumes "sg_root S = M" "0 < sg_chunk S" "pgp_law (sg_pgp S) (sg_key S)"
    and stored: "\<And>m data b. stored m data b \<Longrightarrow>
      map_of (bu_Metadata b) pgpSignedMetadata = map_of (bu_Metadata m) pgpSignedMetadata"
  shows "release_store (signing_manager S) (signed_fresh fresh) (signed_holds S holds) (signed_stored S stored)"
proof
  fix m :: release_bundle and r r' :: reader and data :: bytes and st st'
  assume "signed_fresh fresh (bu_Package m) (bu_Version m) st" "mg_Upload (signing_manager S) m r st = (Ok (), r', st')" "gives r data"
  then show "signed_holds S holds m data st'"
    using signed_upload_held [OF assms(1,2), of m "fst st" "snd st" r r' "fst st'" "snd st'" data] by (simp add: signing_manager_def)
next
  fix m b :: release_bundle and data :: bytes and w w' :: writer and st st'
  assume "signed_holds S holds m data st" "mg_Get (signing_manager S) (bu_Package m) (bu_Version m) w st = (Ok b, w', st')"
  then show "signed_stored S stored m data b \<and> (wr_discard w \<or> wr_data w' = wr_data w @ data)"
    using signed_get_held [OF assms(1,3), of m data "fst st" "snd st" w b w' "fst st'" "snd st'"] stored
    by (simp add: signing_manager_def)
next
  have get: "\<exists>v q w1. mg_Get M pkg ver v (fst st) = (q, w1, fst st')" if "mg_Get (signing_manager S) pkg ver w st = (res, w', st')"
    for pkg ver and w w' :: writer and st st' res
  proof -
    let ?relay = "if wr_seeks w then relay_to_file w else relay_to_buffer w"
    obtain q w1 s1 where g: "mg_Get M pkg ver ?relay (fst st) = (q, w1, s1)" by (metis surj_pair)
    then have "fst st' = s1" using that assms(1)
      by (cases st) (auto simp: signing_manager_def signed_Get_def Let_def
        split: prod.splits outcome.splits option.splits if_splits)
    then show ?thesis using g by blast
  qed
  show "signed_holds S holds m data st'" if "signed_holds S holds m data st" "mg_Get (signing_manager S) pkg ver w st = (res, w', st')"
    for m data pkg ver and w w' :: writer and st st' res
    using that get [OF that(2)] holds_get unfolding signed_holds_def by (auto split: prod.splits) blast
  show "signed_fresh fresh pkg ver st'" if "signed_fresh fresh pkg ver st" "mg_Get (signing_manager S) pkg' ver' w st = (res, w', st')"
    for pkg ver pkg' ver' and w w' :: writer and st st' res
    using that get [OF that(2)] fresh_get unfolding signed_fresh_def by (auto split: prod.splits)
next
  fix m :: release_bundle and data :: bytes and pkg :: string and st st' res
  assume "signed_holds S holds m data st" "mg_GetPackage (signing_manager S) pkg st = (res, st')"
  then show "signed_holds S holds m data st'"
    using get_package_holds assms(1) by (auto simp: signing_manager_def on_root_def signed_holds_def split: prod.splits) blast
next
  fix pkg ver pkg' :: string and st st' res
  assume "signed_fresh fresh pkg ver st" "mg_GetPackage (signing_manager S) pkg' st = (res, st')"
  then show "signed_fresh fresh pkg ver st'"
    using get_package_fresh assms(1) by (auto simp: signing_manager_def on_root_def signed_fresh_def split: prod.splits)
qed

end

section \<open>A sample\<close>

lemma gcs_manager_ops: "mg_Upload (gcs_manager G) = gcs_Upload G" "mg_Get (gcs_manager G) = gcs_Get G"
  by (simp_all add: gcs_manager_def)

text \<open>Signatures that are the signed bytes, as text.\<close>

definition bytes_text :: "bytes \<Rightarrow> string" where
  "bytes_text data = map (\<lambda>b. char_of (unat b)) data"

lemma bytes_text_inject: "bytes_text x = bytes_text y \<Longrightarrow> x = y"
proof (induction x arbitrary: y)
  case (Cons b x)
  then obtain c y' where y: "y = c # y'" by (cases y) (auto simp: bytes_text_def)
  have "of_char (char_of (unat b) :: char) = (of_char (char_of (unat c)) :: nat)" using Cons.prems y by (simp add: bytes_text_def)
  moreover have "unat x < 256" for x :: "8 word" using unsigned_less [of x] by simp
  ultimately have "unat b = unat c" by simp
  then have "b = c" by (simp add: word_unat_eq_iff)
  then show ?case using Cons y by (simp add: bytes_text_def)
qed (simp add: bytes_text_def)

definition text_pgp :: "(string, string, string, nat) openpgp" where
  "text_pgp = \<lparr>op_identities = (\<lambda>k. [\<lparr>id_Name = k, id_IsPrimary = None\<rparr>]), op_KeyIdString = (\<lambda>k. k),
     op_sign = (\<lambda>k data g. (Ok (bytes_text data), g + 1)), op_armor = (\<lambda>s. Ok (SignatureType, s)), op_packet = (\<lambda>c. Ok (Some c)),
     op_verify = (\<lambda>k hashed q. if bytes_text hashed = q then None else Some ''signature'')\<rparr>"

lemma text_pgp_law: "pgp_law text_pgp k"
  by (auto simp: pgp_law_def text_pgp_def decodeSignature_def dest: bytes_text_inject split: if_splits)

definition text_signing :: "('e, 's) manager \<Rightarrow> ('e, 's, string, string, string, nat) signing" where
  "text_signing M = \<lparr>sg_root = M, sg_pgp = text_pgp, sg_key = ''key'', sg_chunk = 1048423,
     sg_rewind = (\<lambda>data. Ok [(data, REOF)]), sg_encrypted = (\<lambda>_. False)\<rparr>"

interpretation signed_rel: release_store "signing_manager (text_signing (gcs_manager (map_gcs hash C prefix)))"
  "signed_fresh (gcs_fresh (rel_fresh hash C))"
  "signed_holds (text_signing (gcs_manager (map_gcs hash C prefix))) (gcs_holds (map_gcs hash C prefix) map_view (rel_holds hash C))"
  "signed_stored (text_signing (gcs_manager (map_gcs hash C prefix))) (\<lambda>m data b. b = checksummed (map_gcs hash C prefix) m data)"
  for hash C prefix
  by (rule gcs_rel.signed_release_store)
    (simp_all add: text_signing_def text_pgp_law checksummed_def update_conv' sha256MetadataKey_def pgpSignedMetadata_def)

definition sample_file :: reader where
  "sample_file = sample_reader\<lparr>rd_seek := SeekTo (rd_reads sample_reader)\<rparr>"

abbreviation sample_stack :: "(release_err gcs_err, release_db \<times> (string \<rightharpoonup> bytes), string, string, string, nat) signing" where
  "sample_stack \<equiv> text_signing (gcs_manager sample_gcs)"

lemma sample_stack_simps:
  "sg_root sample_stack = gcs_manager sample_gcs" "sg_pgp sample_stack = text_pgp" "sg_chunk sample_stack = 1048423"
  "sg_rewind sample_stack x = Ok [(x, REOF)]"
  by (simp_all add: text_signing_def)

lemma sample_signed:
  "\<exists>r' s' out' st. signed_Upload sample_stack sample_bundle sample_file ((latest_db, Map.empty), 0) = (Ok (), r', s') \<and>
     signed_Get sample_stack ''tool'' ''1'' empty_writer s' =
       (Ok (checksummed sample_gcs (with_signature sample_stack \<lparr>id_Name = ''key'', id_IsPrimary = None\<rparr> (bytes_text [1, 2, 3]) sample_bundle) [1, 2, 3]), out', st)"
proof -
  let ?m = "with_signature sample_stack \<lparr>id_Name = ''key'', id_IsPrimary = None\<rparr> (bytes_text [1, 2, 3]) sample_bundle"
  let ?r = "NewRelayProgressReader (rd_reads sample_reader) sample_file" and ?w = "relay_to_buffer empty_writer"
  have job: "tool_job ?m ?r" using sample_job by (simp add: tool_job_def NewRelayProgressReader_def sample_file_def)
  let ?b = "[''releases/tool/1'' \<mapsto> [1, 2, 3 :: 8 word]]"
  obtain r1 s1 where up: "gcs_Upload sample_gcs ?m ?r (latest_db, Map.empty) = (Ok (), r1, s1, ?b)"
    and gets: "\<forall>w. wr_faults w = [] \<longrightarrow> (\<exists>w'. gcs_Get sample_gcs ''tool'' ''1'' w (s1, ?b) =
      (Ok (checksummed sample_gcs ?m [1, 2, 3]), w', s1, ?b) \<and> (if wr_discard w then w' = w else wr_data w' = wr_data w @ [1, 2, 3]))"
    by (rule sample_gcs_roundtrip [OF job])
  obtain w1 where get: "gcs_Get sample_gcs ''tool'' ''1'' ?w (s1, ?b) = (Ok (checksummed sample_gcs ?m [1, 2, 3]), w1, s1, ?b)"
    and data: "wr_data w1 = [1, 2, 3]"
    using gets [THEN spec, of ?w] by (auto simp: relay_to_buffer_def empty_writer_def)
  have reads: "rd_reads sample_file = rd_reads sample_reader" "rd_seek sample_file = SeekTo (rd_reads sample_reader)"
    "copy_all (rd_reads sample_reader) = Ok [1, 2, 3]" by (simp_all add: sample_file_def sample_reader_def)
  have sign: "ArmoredSign (sg_pgp sample_stack) (rd_reads sample_file) (sg_key sample_stack) 0 = (Ok (bytes_text [1, 2, 3]), 1)"
    "PrimaryIdentity (sg_pgp sample_stack) (sg_key sample_stack) = Some \<lparr>id_Name = ''key'', id_IsPrimary = None\<rparr>"
    using reads by (simp_all add: ArmoredSign_def PrimaryIdentity_def text_signing_def text_pgp_def)
  have uploaded: "signed_Upload sample_stack sample_bundle sample_file ((latest_db, Map.empty), 0) =
      (Ok (), sample_file\<lparr>rd_progress := rd_progress r1\<rparr>, (s1, ?b), 1)"
    using sign up reads unfolding signed_Upload_def
    by (simp add: relayed_def sample_stack_simps(1) gcs_manager_ops)
  have "tee_copied (buffer_reads 32768 (wr_data w1)) (empty_writer\<lparr>wr_progress := wr_progress w1\<rparr>) =
      ([1, 2, 3], empty_writer\<lparr>wr_progress := wr_progress w1, wr_data := [1, 2, 3]\<rparr>)"
    unfolding data by (simp add: buffer_reads.simps writer_Write_def empty_writer_def)
  moreover have "check_signature sample_stack (bytes_text [1, 2, 3]) ([1, 2, 3], w) out = (Ok (), w)" for w out
    by (simp add: check_signature_def text_signing_def text_pgp_def decodeSignature_def verify_hashed_def)
  moreover have "map_of (bu_Metadata (checksummed sample_gcs ?m [1, 2, 3])) pgpSignedMetadata = Some (bytes_text [1, 2, 3])"
    by (simp add: checksummed_def with_signature_def update_conv' sha256MetadataKey_def pgpSignedMetadata_def pgpSignedMetadataKey_def)
  moreover have "\<not> wr_seeks empty_writer" by (simp add: empty_writer_def)
  ultimately have "\<exists>out' st. signed_Get sample_stack ''tool'' ''1'' empty_writer ((s1, ?b), 1) =
      (Ok (checksummed sample_gcs ?m [1, 2, 3]), out', st)"
    using get by (simp add: signed_Get_def sample_stack_simps(1) gcs_manager_ops Let_def)
  then show ?thesis using uploaded by blast
qed

section \<open>Properties\<close>

text \<open>
  C31 (signed_get_verified).
  Whatever the manager underneath does and wherever its data comes from: a download that reports
  success has a signature in its manifest, and OpenPGP has accepted that signature, under the
  manager's key, for the bytes that the caller's writer holds: all of a file, from its start, or what
  has been written to any other writer. It relies on a file reading back as it was written.
\<close>

theorem signed_get_verified:
  assumes "signed_Get S pkg ver out st = (Ok man, out', st')"
    and "\<forall>x reads. sg_rewind S x = Ok reads \<longrightarrow> copied reads = x"
  shows "\<exists>sig q got. map_of (bu_Metadata man) pgpSignedMetadata = Some sig \<and> decodeSignature (sg_pgp S) sig = Ok q \<and>
    op_verify (sg_pgp S) (sg_key S) got q = None \<and> wr_data out' = (if wr_seeks out then got else wr_data out @ got)"
proof -
  obtain s g s' g' where st: "st = (s, g)" "st' = (s', g')" by fastforce
  show ?thesis
  proof (rule signed_Get_Ok [OF assms(1) [unfolded st]])
    fix w sig q hashed
    assume v: "map_of (bu_Metadata man) pgpSignedMetadata = Some sig" "decodeSignature (sg_pgp S) sig = Ok q"
      "op_verify (sg_pgp S) (sg_key S) hashed q = None"
      and data: "if wr_seeks out then wr_data out' = wr_data w \<and> (\<exists>reads. sg_rewind S (wr_data w) = Ok reads \<and> hashed = copied reads)
        else wr_data out' = wr_data out @ hashed"
    have "wr_data out' = (if wr_seeks out then hashed else wr_data out @ hashed)"
      using data assms(2) by (cases "wr_seeks out") auto
    then show ?thesis using v by blast
  qed
qed

theorem signed_get_verified_witness:
  "\<exists>st man out' st' sig got. signed_Get sample_stack ''tool'' ''1'' empty_writer st = (Ok man, out', st') \<and>
     map_of (bu_Metadata man) ''pgp-signature'' = Some sig \<and> bytes_text got = sig \<and> wr_data out' = got"
proof -
  obtain s' man out' st where get: "signed_Get sample_stack ''tool'' ''1'' empty_writer s' = (Ok man, out', st)"
    using sample_signed by blast
  have rewinds: "\<forall>x reads. sg_rewind sample_stack x = Ok reads \<longrightarrow> copied reads = x" by (simp add: sample_stack_simps)
  obtain sig q got where v: "map_of (bu_Metadata man) pgpSignedMetadata = Some sig" "decodeSignature text_pgp sig = Ok q"
    "op_verify text_pgp (sg_key sample_stack) got q = None" "wr_data out' = got"
    using signed_get_verified [OF get rewinds] by (auto simp: sample_stack_simps empty_writer_def)
  then have "bytes_text got = sig" by (auto simp: text_pgp_def decodeSignature_def split: if_splits)
  then show ?thesis using v(1,4) get unfolding pgpSignedMetadata_def by blast
qed

text \<open>
  C32 (release_stack_exact).
  The stack the project publishes with, a signing manager over the bucket manager over the manager of
  documents: after an upload of a new release that reports success, a download that reports success
  writes exactly the bytes of the artifact, and returns its manifest with a signature of those bytes
  and their checksum, whatever failures there were on the way.
\<close>

theorem release_stack_exact:
  assumes stack: "sg_root S = gcs_manager G" "gc_inner G = doc_manager hash C"
    and laws: "rel_codec_law C" "\<forall>x. hash x \<noteq> ''''" "bucket_law (gc_bucket G) V" "pgp_law (sg_pgp S) (sg_key S)" "0 < sg_chunk S"
    and new: "plain (bu_Package m)" "plain (bu_Version m)" "bu_Version m \<noteq> Latest"
      "lookup s (makeReleaseDocID (bu_Package m) (bu_Version m)) = None"
    and artifact: "gives r data" and up: "signed_Upload S m r ((s, b), g) = (Ok (), r', st)"
    and get: "signed_Get S (bu_Package m) (bu_Version m) out st = (Ok man, out', st')" "\<not> wr_discard out"
  shows "wr_data out' = wr_data out @ data \<and>
    (\<exists>ident sig. signed_as S data sig \<and> man = checksummed G (with_signature S ident sig m) data)"
proof -
  have store: "release_store (gcs_manager G) (gcs_fresh (rel_fresh hash C)) (gcs_holds G V (rel_holds hash C))
      (\<lambda>m data b. b = checksummed G m data)"
    by (rule doc_rel.gcs_release_store [OF stack(2) laws(3)])
  have "signed_fresh (gcs_fresh (rel_fresh hash C)) (bu_Package m) (bu_Version m) ((s, b), g)"
    using new laws(1,2) by (simp add: signed_fresh_def gcs_fresh_def rel_fresh_def)
  from release_store.signed_upload_held [OF store stack(1) laws(5) this, of r r' "fst st" "snd st" data] up artifact
  have held: "signed_holds S (gcs_holds G V (rel_holds hash C)) m data (fst st, snd st)" by simp
  have "map_of (bu_Metadata (checksummed G x d)) pgpSignedMetadata = map_of (bu_Metadata x) pgpSignedMetadata" for x d
    by (simp add: checksummed_def update_conv' sha256MetadataKey_def pgpSignedMetadata_def)
  with release_store.signed_get_held [OF store stack(1) laws(4) held, of out man out' "fst st'" "snd st'"] get
  show ?thesis by (simp add: signed_stored_def)
qed

theorem release_stack_exact_witness:
  "\<exists>r' st man out' st'. signed_Upload sample_stack sample_bundle sample_file ((latest_db, Map.empty), 0) = (Ok (), r', st) \<and>
     signed_Get sample_stack ''tool'' ''1'' empty_writer st = (Ok man, out', st') \<and> wr_data out' = [1, 2, 3]"
proof -
  obtain r' st man out' st' where up: "signed_Upload sample_stack sample_bundle sample_file ((latest_db, Map.empty), 0) = (Ok (), r', st)"
    and get: "signed_Get sample_stack ''tool'' ''1'' empty_writer st = (Ok man, out', st')"
    using sample_signed by blast
  note job = tool_job_simps [OF sample_job]
  have new: "\<forall>x. length_hash x \<noteq> ''''" "bucket_law (gc_bucket sample_gcs) map_view"
    "pgp_law (sg_pgp sample_stack) (sg_key sample_stack)" "0 < sg_chunk sample_stack"
    "plain (bu_Package sample_bundle)" "plain (bu_Version sample_bundle)" "bu_Version sample_bundle \<noteq> Latest"
    "lookup latest_db (makeReleaseDocID (bu_Package sample_bundle) (bu_Version sample_bundle)) = None"
    by (simp_all add: sample_gcs_simps map_bucket_law sample_stack_simps text_pgp_law job length_hash_def plain_def
        Latest_def latest_db_def lookup_def makeReleaseDocID_def)
  have artifact: "gives sample_file [1, 2, 3]" by (simp add: gives_def sample_file_def job)
  have "wr_data out' = [1, 2, 3]"
    using release_stack_exact [OF sample_stack_simps(1) sample_gcs_simps(1) tag_codec_law new artifact up, of empty_writer man out' st'] get
    by (simp add: empty_writer_def job)
  then show ?thesis using up get by blast
qed

text \<open>
  A signing manager over another one panics: the reader it relays says that it seeks, and the one below
  asks it to.
\<close>

lemma signing_twice_panics:
  assumes root: "sg_root S = signing_manager S'" and signs: "ArmoredSign (sg_pgp S) (rd_reads in') (sg_key S) g = (Ok sig, g1)"
    and signs': "\<And>reads. ArmoredSign (sg_pgp S') reads (sg_key S') g' = (Ok sig', g1')"
    and ids: "PrimaryIdentity (sg_pgp S) (sg_key S) = Some i" "PrimaryIdentity (sg_pgp S') (sg_key S') = Some i'"
    and reads: "relayed S in' = Ok reads"
  shows "fst (signed_Upload S m in' ((s, g'), g)) = Panic"
  using assms by (simp add: signed_Upload_def signing_manager_def relayed_def NewRelayProgressReader_def)

end
