(* ===== verification/CdnManager.thy ===== *)
theory CdnManager
  imports SignedManager
begin

text \<open>
  The HTTP handler that serves manifests and signed URLs (\<^verbatim>\<open>release/gcsrelease/handler.go\<close>)
  and the read-only manager that is its client (\<^verbatim>\<open>release/cdnrelease/manager.go\<close>). What
  JSON bodies decode to, the transport and the encoding of queries are parameters.
\<close>

section \<open>The handler\<close>

datatype payload =
  PPackages "release_package list" | PPackage release_package | PBundles "release_bundle list" | PBundle release_bundle
| PDownload release_bundle string | PError string | PText string

type_synonym response = "nat \<times> payload"

text \<open>A query with all the values of its keys.\<close>

type_synonym query = "(string \<times> string list) list"

record ('e, 's) release_handler =
  hd_m :: "('e, 's) manager"
  hd_signer :: "string \<Rightarrow> string \<Rightarrow> 's \<Rightarrow> ('e, string) outcome"
  hd_text :: "'e \<Rightarrow> string"

definition isNotFound :: "('e, 's) release_handler \<Rightarrow> 'e \<Rightarrow> bool" where
  "isNotFound H e \<longleftrightarrow> hd_text H e = ''document not found''"

definition statusFromError :: "('e, 's) release_handler \<Rightarrow> 'e \<Rightarrow> nat" where
  "statusFromError H e = (if isNotFound H e then 404 else 500)"

definition writeError :: "('e, 's) release_handler \<Rightarrow> nat \<Rightarrow> 'e \<Rightarrow> response" where
  "writeError H code e = (code, PError (hd_text H e))"

definition queryFilters :: "query \<Rightarrow> (string \<times> string) list" where
  "queryFilters q = map (\<lambda>(k, vs). (k, hd vs)) (filter (\<lambda>(k, vs). vs \<noteq> []) q)"

text \<open>Writing the result of an operation: a panic of the manager ends the request without a response.\<close>

definition respond ::
  "('e, 's) release_handler \<Rightarrow> ('e \<Rightarrow> nat) \<Rightarrow> ('a \<Rightarrow> payload) \<Rightarrow> ('e, 'a) outcome \<Rightarrow> response option" where
  "respond H status body r =
     (case r of Ok x \<Rightarrow> Some (200, body x) | Err e \<Rightarrow> Some (writeError H (status e) e) | Panic \<Rightarrow> None)"

definition listPackages :: "('e, 's) release_handler \<Rightarrow> query \<Rightarrow> 's \<Rightarrow> response option \<times> 's" where
  "listPackages H q s = (case mg_ListPackages (hd_m H) (queryFilters q) s of
     (r, s) \<Rightarrow> (respond H (\<lambda>_. 500) PPackages r, s))"

definition getPackage :: "('e, 's) release_handler \<Rightarrow> string \<Rightarrow> 's \<Rightarrow> response option \<times> 's" where
  "getPackage H name s = (case mg_GetPackage (hd_m H) name s of (r, s) \<Rightarrow> (respond H (statusFromError H) PPackage r, s))"

definition listBundles :: "('e, 's) release_handler \<Rightarrow> string \<Rightarrow> query \<Rightarrow> 's \<Rightarrow> response option \<times> 's" where
  "listBundles H name q s = (case mg_List (hd_m H) name (queryFilters q) s of
     (r, s) \<Rightarrow> (respond H (\<lambda>_. 500) PBundles r, s))"

definition getBundle :: "('e, 's) release_handler \<Rightarrow> string \<Rightarrow> string \<Rightarrow> 's \<Rightarrow> response option \<times> 's" where
  "getBundle H name version s = (case mg_Get (hd_m H) name version discard_writer s of
     (r, _, s) \<Rightarrow> (respond H (statusFromError H) PBundle r, s))"

definition downloadBundle :: "('e, 's) release_handler \<Rightarrow> string \<Rightarrow> string \<Rightarrow> 's \<Rightarrow> response option \<times> 's" where
  "downloadBundle H name version s =
     (case mg_Get (hd_m H) name version discard_writer s of
        (Ok m, _, s) \<Rightarrow> (respond H (\<lambda>_. 500) (PDownload m) (hd_signer H name version s), s)
      | (r, _, s) \<Rightarrow> (respond H (statusFromError H) PBundle r, s))"

text \<open>The routes, on the segments of the path of a GET request.\<close>

fun route :: "('e, 's) release_handler \<Rightarrow> string list \<Rightarrow> query \<Rightarrow> 's \<Rightarrow> response option \<times> 's" where
  "route H [p] q s = (if p = ''packages'' then listPackages H q s else (Some (404, PText ''404 page not found''), s))"
| "route H [p, name] q s =
     (if p = ''packages'' then getPackage H name s else (Some (404, PText ''404 page not found''), s))"
| "route H [p, name, bs] q s =
     (if p = ''packages'' \<and> bs = ''bundles'' then listBundles H name q s else (Some (404, PText ''404 page not found''), s))"
| "route H [p, name, bs, version] q s =
     (if p = ''packages'' \<and> bs = ''bundles'' then getBundle H name version s else (Some (404, PText ''404 page not found''), s))"
| "route H [p, name, bs, version, d] q s =
     (if p = ''packages'' \<and> bs = ''bundles'' \<and> d = ''download'' then downloadBundle H name version s
      else (Some (404, PText ''404 page not found''), s))"
| "route H _ q s = (Some (404, PText ''404 page not found''), s)"

section \<open>The client\<close>

datatype cdn_err =
  CReadOnly | CCreateRequest | CRequest string | CStatus string nat | CDecode | CDownload string | CWriteOut string
| CReadData string | CIntegrity string string

text \<open>
  The two HTTP clients, what a body decodes to (\<open>js_download\<close> gives the manifest and the URL), the
  validity of URLs and the encoding of a query.
\<close>

record 's cdn =
  cd_api :: "string \<Rightarrow> 's \<Rightarrow> (string, response) outcome \<times> 's"
  cd_data :: "string \<Rightarrow> 's \<Rightarrow> (string, nat \<times> int \<times> (bytes \<times> read_end) list) outcome \<times> 's"
  cd_baseURL :: string
  cd_valid :: "string \<Rightarrow> bool"
  cd_encode :: "(string \<times> string) list \<Rightarrow> string"
  js_packages :: "payload \<Rightarrow> release_package list option"
  js_package :: "payload \<Rightarrow> release_package option"
  js_bundles :: "payload \<Rightarrow> release_bundle list option"
  js_download :: "payload \<Rightarrow> (release_bundle \<times> string) option"
  cd_hash :: "bytes \<Rightarrow> string"

definition cdn_url :: "'s cdn \<Rightarrow> string list \<Rightarrow> string" where
  "cdn_url C parts = cd_baseURL C @ concat (map (\<lambda>p. CHR ''/'' # p) parts)"

definition urlWithFilters :: "'s cdn \<Rightarrow> string \<Rightarrow> (string \<times> string) list \<Rightarrow> string" where
  "urlWithFilters C path filters =
     (let u = cd_baseURL C @ ''/'' @ path in if filters = [] then u else u @ ''?'' @ cd_encode C filters)"

definition getJSON :: "'s cdn \<Rightarrow> (payload \<Rightarrow> 'a option) \<Rightarrow> string \<Rightarrow> 's \<Rightarrow> (cdn_err, 'a) outcome \<times> 's" where
  "getJSON C dec url s =
     (if \<not> cd_valid C url then (Err CCreateRequest, s)
      else (case cd_api C url s of
              (Err e, s) \<Rightarrow> (Err (CRequest e), s)
            | (Panic, s) \<Rightarrow> (Panic, s)
            | (Ok (status, body), s) \<Rightarrow>
                (if status \<noteq> 200 then Err (CStatus url status)
                 else (case dec body of None \<Rightarrow> Err CDecode | Some x \<Rightarrow> Ok x), s)))"

definition cdn_Get :: "'s cdn \<Rightarrow> string \<Rightarrow> string \<Rightarrow> writer \<Rightarrow> 's \<Rightarrow> (cdn_err, release_bundle) outcome \<times> writer \<times> 's" where
  "cdn_Get C pkg ver out s =
     (case getJSON C (js_download C) (cdn_url C [''packages'', pkg, ''bundles'', ver, ''download'']) s of
        (Err e, s) \<Rightarrow> (Err e, out, s)
      | (Panic, s) \<Rightarrow> (Panic, out, s)
      | (Ok (m, url), s) \<Rightarrow>
          if wr_discard out then (Ok m, out, s)
          else if \<not> cd_valid C url then (Err CCreateRequest, out, s)
          else (case cd_data C url s of
                  (Err e, s) \<Rightarrow> (Err (CDownload e), out, s)
                | (Panic, s) \<Rightarrow> (Panic, out, s)
                | (Ok (status, totalSize, reads), s) \<Rightarrow>
                    if status \<noteq> 200 then (Err (CStatus '''' status), out, s)
                    else (let (res, out) = download_loop CWriteOut CReadData totalSize reads []
                            (out\<lparr>wr_progress := wr_progress out @ [(0, totalSize, ''bytes'')]\<rparr>)
                          in (andThen res (integrity (cd_hash C) CIntegrity m), out, s))))"

definition cdn_manager :: "'s cdn \<Rightarrow> (cdn_err, 's) manager" where
  "cdn_manager C = \<lparr>mg_Create = (\<lambda>p s. (Err CReadOnly, s)),
     mg_UpdatePackageMetadata = (\<lambda>pkg md s. (Err CReadOnly, s)),
     mg_DeletePackage = (\<lambda>pkg s. (Err CReadOnly, s)),
     mg_GetPackage = (\<lambda>pkg. getJSON C (js_package C) (cdn_url C [''packages'', pkg])),
     mg_ListPackages = (\<lambda>fs. getJSON C (js_packages C) (urlWithFilters C ''packages'' fs)),
     mg_Upload = (\<lambda>m r s. (Err CReadOnly, r, s)), mg_Get = cdn_Get C,
     mg_Delete = (\<lambda>pkg ver s. (Err CReadOnly, s)),
     mg_List = (\<lambda>pkg fs. getJSON C (js_bundles C) (urlWithFilters C (''packages/'' @ pkg @ ''/bundles'') fs))\<rparr>"

section \<open>Client and handler\<close>

text \<open>
  A name that is one segment of a path as it stands. \<open>served_by\<close>: a request for a path of such names
  is answered by the handler, or fails on the way.
\<close>

definition segment_char :: "char \<Rightarrow> bool" where
  "segment_char c \<longleftrightarrow> c \<in> set ''abcdefghijklmnopqrstuvwxyzABCDEFGHIJKLMNOPQRSTUVWXYZ0123456789-._''"

definition segment :: "string \<Rightarrow> bool" where
  "segment p \<longleftrightarrow> p \<noteq> '''' \<and> p \<noteq> ''.'' \<and> p \<noteq> ''..'' \<and> list_all segment_char p"

definition served_by :: "'s cdn \<Rightarrow> ('e, 's) release_handler \<Rightarrow> bool" where
  "served_by C H \<longleftrightarrow> (\<forall>parts s r s'. list_all segment parts \<longrightarrow> cd_api C (cdn_url C parts) s = (Ok r, s') \<longrightarrow>
     route H parts [] s = (Some r, s'))"

definition json_law :: "'s cdn \<Rightarrow> bool" where
  "json_law C \<longleftrightarrow> (\<forall>m url. js_download C (PDownload m url) = Some (m, url))"

lemma cdn_Get_Ok:
  assumes "cdn_Get C pkg ver out s = (Ok x, out', s')" "\<not> wr_discard out"
  obtains s1 body url got where "cd_api C (cdn_url C [''packages'', pkg, ''bundles'', ver, ''download'']) s = (Ok (200, body), s1)"
    "js_download C body = Some (x, url)" "wr_data out' = wr_data out @ got"
    "\<forall>c. map_of (bu_Metadata x) sha256MetadataKey = Some c \<longrightarrow> cd_hash C got = c"
proof -
  let ?u = "cdn_url C [''packages'', pkg, ''bundles'', ver, ''download'']"
  obtain q s1 where json: "getJSON C (js_download C) ?u s = (q, s1)" by fastforce
  then obtain m url where q: "q = Ok (m, url)" using assms by (cases q) (auto simp: cdn_Get_def)
  then obtain body where api: "cd_api C ?u s = (Ok (200, body), s1)" "js_download C body = Some (m, url)"
    using json by (auto simp: getJSON_def split: if_splits prod.splits outcome.splits option.splits)
  have valid: "cd_valid C url" using assms json q by (auto simp: cdn_Get_def split: if_splits)
  obtain d s2 where data: "cd_data C url s1 = (d, s2)" by fastforce
  then obtain status total reads where d: "d = Ok (status, total, reads)"
    using assms json q valid by (cases d) (auto simp: cdn_Get_def)
  then have status: "status = 200" using assms json q valid data by (auto simp: cdn_Get_def split: if_splits)
  obtain l o1 where loop: "download_loop CWriteOut CReadData total reads []
      (out\<lparr>wr_progress := wr_progress out @ [(0, total, ''bytes'')]\<rparr>) = (l, o1)" by fastforce
  then have res: "andThen l (integrity (cd_hash C) CIntegrity m) = Ok x" "out' = o1"
    using assms json q valid data d status by (simp_all add: cdn_Get_def Let_def)
  then obtain h where l: "l = Ok h" "integrity (cd_hash C) CIntegrity m h = Ok x" by (auto simp: outcome_simps)
  then have "x = m" "\<forall>c. map_of (bu_Metadata x) sha256MetadataKey = Some c \<longrightarrow> cd_hash C h = c"
    by (auto simp: integrity_def split: option.splits if_splits)
  then show thesis using that api download_loop_reads [OF loop [unfolded l(1)]] res(2) by auto
qed

text \<open>
  C33 (cdn_download_checked).
  A client downloads through the handler a release that was uploaded to the bucket manager behind it:
  if the download reports success, the manifest is the published one and the bytes written have the
  checksum of the bytes that were uploaded, whatever the signed URL served and whatever failed on the
  way.
\<close>

theorem cdn_download_checked:
  assumes handler: "hd_m H = gcs_manager G" "gc_inner G = doc_manager hash C" "served_by D H" "json_law D" "cd_hash D = gc_hash G"
    and laws: "rel_codec_law C" "\<forall>x. hash x \<noteq> ''''"
    and new: "plain (bu_Package m)" "plain (bu_Version m)" "bu_Version m \<noteq> Latest"
      "lookup s (makeReleaseDocID (bu_Package m) (bu_Version m)) = None"
    and names: "segment (bu_Package m)" "segment (bu_Version m)"
    and up: "gcs_Upload G m r (s, b) = (Ok (), r', st)"
    and get: "cdn_Get D (bu_Package m) (bu_Version m) out st = (Ok x, out', st')" "\<not> wr_discard out"
  shows "\<exists>data got. copy_all (rd_reads r) = Ok data \<and> x = checksummed G m data \<and> wr_data out' = wr_data out @ got \<and>
    gc_hash G got = gc_hash G data"
proof -
  obtain s1 b1 where st: "st = (s1, b1)" by fastforce
  have "gcs_fresh (rel_fresh hash C) (bu_Package m) (bu_Version m) (s, b)"
    using laws new by (simp add: gcs_fresh_def rel_fresh_def)
  from doc_rel.gcs_upload_recorded [OF handler(2) this up [unfolded st]] obtain data where
    data: "copy_all (rd_reads r) = Ok data" "rel_holds hash C (checksummed G m data) [] s1" by blast
  obtain s2 body url got where
    api: "cd_api D (cdn_url D [''packages'', bu_Package m, ''bundles'', bu_Version m, ''download'']) st = (Ok (200, body), s2)"
    and x: "js_download D body = Some (x, url)" and got: "wr_data out' = wr_data out @ got"
    "\<forall>c. map_of (bu_Metadata x) sha256MetadataKey = Some c \<longrightarrow> cd_hash D got = c"
    by (rule cdn_Get_Ok [OF get])
  have "list_all segment [''packages'', bu_Package m, ''bundles'', bu_Version m, ''download'']"
    using names by (simp add: segment_def segment_char_def)
  then have served: "downloadBundle H (bu_Package m) (bu_Version m) st = (Some (200, body), s2)"
    using handler(3) api unfolding served_by_def by fastforce
  obtain q w st2 where g: "gcs_Get G (bu_Package m) (bu_Version m) discard_writer st = (q, w, st2)" by (metis surj_pair)
  have q: "\<exists>y u. q = Ok y \<and> body = PDownload y u"
    using served g handler(1) by (cases q)
      (auto simp: downloadBundle_def gcs_manager_ops respond_def writeError_def statusFromError_def split: outcome.splits if_splits)
  then obtain y u where y: "q = Ok y" "body = PDownload y u" by blast
  then have "x = y" using x handler(4) by (simp add: json_law_def)
  moreover have "y = checksummed G m data"
  proof -
    obtain s3 b3 where st2: "st2 = (s3, b3)" by fastforce
    from gcs_Get_Ok [OF g [unfolded st st2 y(1)] new(3)] obtain wr where
      "mg_Get (gc_inner G) (bu_Package m) (bu_Version m) discard_writer s1 = (Ok y, wr, s3)"
      by cases (auto simp: discard_writer_def)
    then show ?thesis using doc_rel.get_held [OF data(2), of discard_writer y wr s3] handler(2) by simp
  qed
  ultimately show ?thesis using data(1) got handler(5) by auto
qed

definition sample_handler :: "(release_err gcs_err, release_db \<times> (string \<rightharpoonup> bytes)) release_handler" where
  "sample_handler = \<lparr>hd_m = gcs_manager sample_gcs,
     hd_signer = (\<lambda>name version st. SignedDownloadURL sample_gcs 0 name version (snd st)),
     hd_text = (\<lambda>e. if e = GInner (RelStore ErrNotFound) then ''document not found'' else ''error'')\<rparr>"

text \<open>A transport that routes what follows an empty base, and serves the objects of the bucket.\<close>

definition sample_cdn :: "(release_db \<times> (string \<rightharpoonup> bytes)) cdn" where
  "sample_cdn = \<lparr>cd_api = (\<lambda>url s. case route sample_handler (tl (Split CHR ''/'' url)) [] s of
       (Some r, s') \<Rightarrow> (Ok r, s') | (None, s') \<Rightarrow> (Err ''closed'', s')),
     cd_data = (\<lambda>url s. (case snd s (drop 15 url) of
       Some d \<Rightarrow> Ok (200, int (length d), [(d, REOF)]) | None \<Rightarrow> Ok (404, 0, []), s)),
     cd_baseURL = '''', cd_valid = (\<lambda>_. True), cd_encode = (\<lambda>_. ''''),
     js_packages = (\<lambda>_. None), js_package = (\<lambda>_. None), js_bundles = (\<lambda>_. None),
     js_download = (\<lambda>p. case p of PDownload m url \<Rightarrow> Some (m, url) | _ \<Rightarrow> None), cd_hash = length_hash\<rparr>"

lemma split_segments: "list_all segment parts \<Longrightarrow> tl (Split CHR ''/'' (concat (map ((#) CHR ''/'') parts))) = parts"
proof (induction parts rule: rev_induct)
  case (snoc p parts)
  have "\<not> segment_char CHR ''/''" by (simp add: segment_char_def)
  then have "CHR ''/'' \<notin> set p" using snoc.prems by (auto simp: segment_def list_all_iff)
  then show ?case using snoc Split_append [of "CHR ''/''" p "concat (map ((#) CHR ''/'') parts)"] Split_nonempty
    by (simp add: tl_append2)
qed simp

lemma sample_served: "served_by sample_cdn sample_handler"
  unfolding served_by_def
  by (auto simp: sample_cdn_def cdn_url_def split_segments split: option.splits prod.splits)

theorem cdn_download_checked_witness:
  "\<exists>r' st x out' st'. gcs_Upload sample_gcs sample_bundle sample_reader (latest_db, Map.empty) = (Ok (), r', st) \<and>
     cdn_Get sample_cdn ''tool'' ''1'' empty_writer st = (Ok x, out', st') \<and>
     map_of (bu_Metadata x) ''sha256'' = Some (length_hash [1, 2, 3]) \<and> length_hash (wr_data out') = length_hash [1, 2, 3]"
proof -
  note job = tool_job_simps [OF sample_job]
  let ?b = "[''releases/tool/1'' \<mapsto> [1, 2, 3 :: 8 word]]" and ?m = "checksummed sample_gcs sample_bundle [1, 2, 3]"
  obtain r' s' where up: "gcs_Upload sample_gcs sample_bundle sample_reader (latest_db, Map.empty) = (Ok (), r', s', ?b)"
    and gets: "\<forall>w. wr_faults w = [] \<longrightarrow> (\<exists>w'. gcs_Get sample_gcs ''tool'' ''1'' w (s', ?b) = (Ok ?m, w', s', ?b) \<and>
      (if wr_discard w then w' = w else wr_data w' = wr_data w @ [1, 2, 3]))"
    by (rule sample_gcs_roundtrip [OF sample_job])
  have get: "gcs_Get sample_gcs ''tool'' ''1'' discard_writer (s', ?b) = (Ok ?m, discard_writer, s', ?b)"
    using gets [THEN spec, of discard_writer] by (auto simp: discard_writer_def)
  have url: "SignedDownloadURL sample_gcs 0 ''tool'' ''1'' ?b = Ok (''https://bucket/releases/tool/1'')"
    using sample_gcs_simps(4) by (simp add: SignedDownloadURL_def map_gcs_def map_bucket_def Let_def objectName_def)
  have serve: "route sample_handler [''packages'', ''tool'', ''bundles'', ''1'', ''download''] [] (s', ?b) =
      (Some (200, PDownload ?m ''https://bucket/releases/tool/1''), s', ?b)"
    using get url by (simp add: downloadBundle_def sample_handler_def gcs_manager_ops respond_def)
  have names: "segment ''tool''" "segment ''1''" by (simp_all add: segment_def segment_char_def)
  have "cd_api sample_cdn (cdn_url sample_cdn [''packages'', ''tool'', ''bundles'', ''1'', ''download'']) (s', ?b) =
      (Ok (200, PDownload ?m ''https://bucket/releases/tool/1''), s', ?b)"
    using serve split_segments [of "[''packages'', ''tool'', ''bundles'', ''1'', ''download'']"] names
    by (simp add: sample_cdn_def cdn_url_def segment_def segment_char_def)
  moreover have "cd_data sample_cdn ''https://bucket/releases/tool/1'' (s', ?b) = (Ok (200, 3, [([1, 2, 3], REOF)]), s', ?b)"
    "js_download sample_cdn (PDownload ?m ''https://bucket/releases/tool/1'') = Some (?m, ''https://bucket/releases/tool/1'')"
    "cd_valid sample_cdn u" "cd_hash sample_cdn = length_hash" for u by (simp_all add: sample_cdn_def)
  ultimately obtain out' where cdn: "cdn_Get sample_cdn (bu_Package sample_bundle) (bu_Version sample_bundle) empty_writer (s', ?b) =
      (Ok ?m, out', s', ?b)"
    by (simp add: cdn_Get_def getJSON_def job empty_writer_def writer_Write_def integrity_def Let_def sample_gcs_simps)
  have new: "\<forall>x. length_hash x \<noteq> ''''" "plain (bu_Package sample_bundle)" "plain (bu_Version sample_bundle)"
    "bu_Version sample_bundle \<noteq> Latest"
    "lookup latest_db (makeReleaseDocID (bu_Package sample_bundle) (bu_Version sample_bundle)) = None"
    "segment (bu_Package sample_bundle)" "segment (bu_Version sample_bundle)"
    using names by (simp_all add: job length_hash_def plain_def Latest_def latest_db_def lookup_def makeReleaseDocID_def)
  have h: "hd_m sample_handler = gcs_manager sample_gcs" "json_law sample_cdn" "cd_hash sample_cdn = gc_hash sample_gcs"
    by (simp_all add: sample_handler_def sample_cdn_def json_law_def sample_gcs_simps)
  from cdn_download_checked [OF h(1) sample_gcs_simps(1) sample_served h(2,3) tag_codec_law new(1-7) up cdn]
  have "length_hash (wr_data out') = length_hash [1, 2, 3]" by (auto simp: empty_writer_def job sample_gcs_simps)
  then show ?thesis using up cdn checksummed_simps(3) [of sample_gcs sample_bundle "[1, 2, 3]"]
    by (auto simp: sha256MetadataKey_def sample_gcs_simps job)
qed

end
