(* ===== verification/WebForm.thy ===== *)
theory WebForm
  imports GoText
begin

text \<open>
  What the token handler uses of package net/url: forms, how they are written into the body of a
  request and read back, with the proof that reading returns what was written. The limit that
  recent releases of Go set on the number of parameters is left out.
\<close>

section \<open>Escaping\<close>

definition hex_digits :: string where
  "hex_digits = ''0123456789ABCDEF''"

definition unhex :: "char \<Rightarrow> nat option" where
  "unhex c =
     (let n = of_char c in
      if 48 \<le> n \<and> n \<le> 57 then Some (n - 48)
      else if 97 \<le> n \<and> n \<le> 102 then Some (n - 87)
      else if 65 \<le> n \<and> n \<le> 70 then Some (n - 55) else None)"

definition unreserved :: "char \<Rightarrow> bool" where
  "unreserved c \<longleftrightarrow>
     (let n = of_char c :: nat in
      48 \<le> n \<and> n \<le> 57 \<or> 65 \<le> n \<and> n \<le> 90 \<or> 97 \<le> n \<and> n \<le> 122 \<or> c \<in> {CHR ''-'', CHR ''_'', CHR ''.'', CHR ''~''})"

definition escape_char :: "char \<Rightarrow> string" where
  "escape_char c =
     (if c = CHR '' '' then ''+''
      else if unreserved c then [c]
      else [CHR ''%'', hex_digits ! (of_char c div 16), hex_digits ! (of_char c mod 16)])"

definition QueryEscape :: "string \<Rightarrow> string" where
  "QueryEscape s = concat (map escape_char s)"

fun QueryUnescape :: "string \<Rightarrow> string option" where
  "QueryUnescape [] = Some []"
| "QueryUnescape (c # s) =
     (if c = CHR ''%''
      then (case s of
              a # b # t \<Rightarrow>
                (case (unhex a, unhex b) of
                   (Some h, Some l) \<Rightarrow> map_option (Cons (char_of (16 * h + l))) (QueryUnescape t)
                 | _ \<Rightarrow> None)
            | _ \<Rightarrow> None)
      else map_option (Cons (if c = CHR ''+'' then CHR '' '' else c)) (QueryUnescape s))"

section \<open>Forms\<close>

text \<open>\<open>url.Values\<close>: the values of each key, in an order of the keys.\<close>

type_synonym form = "(string \<times> string list) list"

definition values_of :: "form \<Rightarrow> string \<Rightarrow> string list" where
  "values_of v k = (case map_of v k of Some xs \<Rightarrow> xs | None \<Rightarrow> [])"

definition values_Get :: "form \<Rightarrow> string \<Rightarrow> string" where
  "values_Get v k = (case values_of v k of x # _ \<Rightarrow> x | [] \<Rightarrow> '''')"

fun values_Add :: "string \<Rightarrow> string \<Rightarrow> form \<Rightarrow> form" where
  "values_Add k x [] = [(k, [x])]"
| "values_Add k x ((k', xs) # v) = (if k' = k then (k', xs @ [x]) # v else (k', xs) # values_Add k x v)"

text \<open>\<open>Values.Encode\<close>: the pairs in the order of the keys.\<close>

definition encode_pair :: "string \<times> string \<Rightarrow> string" where
  "encode_pair = (\<lambda>(k, x). QueryEscape k @ ''='' @ QueryEscape x)"

definition pairs_in_order :: "form \<Rightarrow> (string \<times> string) list" where
  "pairs_in_order v = concat (map (\<lambda>k. map (Pair k) (values_of v k)) (sort (map fst v)))"

fun join_with :: "char \<Rightarrow> string list \<Rightarrow> string" where
  "join_with c [] = []"
| "join_with c [t] = t"
| "join_with c (t # ts) = t @ c # join_with c ts"

definition values_Encode :: "form \<Rightarrow> string" where
  "values_Encode v = join_with (CHR ''&'') (map encode_pair (pairs_in_order v))"

definition Cut :: "char \<Rightarrow> string \<Rightarrow> string \<times> string" where
  "Cut c s = (takeWhile (\<lambda>x. x \<noteq> c) s, drop 1 (dropWhile (\<lambda>x. x \<noteq> c) s))"

datatype form_error = BadSemicolon | BadEscape

fun parse_pairs :: "string list \<Rightarrow> form \<Rightarrow> form_error option \<Rightarrow> form \<times> form_error option" where
  "parse_pairs [] v err = (v, err)"
| "parse_pairs (p # ps) v err =
     (if CHR '';'' \<in> set p then parse_pairs ps v (Some BadSemicolon)
      else if p = [] then parse_pairs ps v err
      else (case Cut (CHR ''='') p of (k, x) \<Rightarrow>
             (case (QueryUnescape k, QueryUnescape x) of
                (Some k, Some x) \<Rightarrow> parse_pairs ps (values_Add k x v) err
              | _ \<Rightarrow> parse_pairs ps v (if err = None then Some BadEscape else err))))"

definition ParseQuery :: "string \<Rightarrow> form \<times> form_error option" where
  "ParseQuery q = parse_pairs (Split (CHR ''&'') q) [] None"

section \<open>Reading back what was written\<close>

lemma hex_digits_nth: "n < 16 \<Longrightarrow> unhex (hex_digits ! n) = Some n \<and> hex_digits ! n \<in> set hex_digits"
proof -
  assume "n < 16"
  then have "n \<in> {0, 1, 2, 3, 4, 5, 6, 7, 8, 9, 10, 11, 12, 13, 14, 15}" by (simp only: insert_iff empty_iff) presburger
  then show ?thesis by (auto simp: hex_digits_def unhex_def nth_Cons')
qed

lemma of_char_less: "(of_char c :: nat) < 256"
  using of_char_mod_256 [of c, where 'a = nat] by (metis mod_less_divisor zero_less_numeral)

lemma of_char_hex: "of_char c div 16 < (16 :: nat)" "of_char c mod 16 < (16 :: nat)"
  using of_char_less [of c] by (simp_all add: less_mult_imp_div_less)

lemma unescape_char: "QueryUnescape (escape_char c @ s) = map_option (Cons c) (QueryUnescape s)"
proof -
  have "char_of (16 * (of_char c div 16) + of_char c mod 16 :: nat) = c"
    unfolding mult_div_mod_eq [of 16 "of_char c :: nat"] by simp
  moreover have "unreserved c \<Longrightarrow> c \<noteq> CHR ''%'' \<and> c \<noteq> CHR ''+''" by (auto simp: unreserved_def)
  ultimately show ?thesis
    by (auto simp: escape_char_def hex_digits_nth [OF of_char_hex(1)] hex_digits_nth [OF of_char_hex(2)])
qed

lemma QueryUnescape_Escape [simp]: "QueryUnescape (QueryEscape s) = Some s"
  by (induction s) (simp_all add: QueryEscape_def unescape_char)

lemma QueryEscape_chars: "c \<in> set (QueryEscape s) \<Longrightarrow> unreserved c \<or> c = CHR ''%'' \<or> c = CHR ''+''"
proof -
  have "\<forall>c \<in> set hex_digits. unreserved c" by (simp add: hex_digits_def unreserved_def)
  then have "unreserved (hex_digits ! n)" if "n < 16" for n using hex_digits_nth [OF that] by blast
  then show "c \<in> set (QueryEscape s) \<Longrightarrow> unreserved c \<or> c = CHR ''%'' \<or> c = CHR ''+''"
    using of_char_hex by (auto simp: QueryEscape_def escape_char_def split: if_splits)
qed

lemma QueryEscape_clean: "CHR ''&'' \<notin> set (QueryEscape s)" "CHR '';'' \<notin> set (QueryEscape s)" "CHR ''='' \<notin> set (QueryEscape s)"
  using QueryEscape_chars [of "CHR ''&''" s] QueryEscape_chars [of "CHR '';''" s] QueryEscape_chars [of "CHR ''=''" s]
  by (auto simp: unreserved_def)

lemma Cut_exact: "c \<notin> set s \<Longrightarrow> Cut c (s @ c # t) = (s, t)"
  by (induction s) (auto simp: Cut_def)

lemma Split_join: "\<forall>t \<in> set ts. c \<notin> set t \<Longrightarrow> ts \<noteq> [] \<Longrightarrow> Split c (join_with c ts) = ts"
proof (induction c ts rule: join_with.induct)
  case (3 c t t' ts)
  have "Split c (t @ c # s) = t # Split c s" if "c \<notin> set t" for t s
    using that Split_nonempty by (induction t) (auto split: list.splits)
  then show ?case using 3 by simp
qed (simp_all add: Split_none)

lemma parse_pairs_encoded: "parse_pairs (map encode_pair ps) v err = (fold (\<lambda>(k, x). values_Add k x) ps v, err)"
proof (induction ps arbitrary: v)
  case (Cons p ps)
  obtain k x where "p = (k, x)" by fastforce
  then show ?case using Cons QueryEscape_clean [of k] QueryEscape_clean [of x]
    by (simp add: encode_pair_def Cut_exact)
qed simp

lemma ParseQuery_Encode: "ParseQuery (values_Encode v) = (fold (\<lambda>(k, x). values_Add k x) (pairs_in_order v) [], None)"
proof (cases "pairs_in_order v = []")
  case True
  then show ?thesis by (simp add: values_Encode_def ParseQuery_def)
next
  case False
  have "\<forall>t \<in> set (map encode_pair (pairs_in_order v)). CHR ''&'' \<notin> set t"
    using QueryEscape_clean by (auto simp: encode_pair_def)
  with False show ?thesis by (simp add: values_Encode_def ParseQuery_def Split_join parse_pairs_encoded)
qed

lemma values_of_Add: "values_of (values_Add k x v) j = values_of v j @ (if j = k then [x] else [])"
  by (induction k x v rule: values_Add.induct) (auto simp: values_of_def)

lemma values_of_fold:
  "values_of (fold (\<lambda>(k, x). values_Add k x) ps v) j = values_of v j @ map snd (filter (\<lambda>p. fst p = j) ps)"
  by (induction ps arbitrary: v) (auto simp: values_of_Add)

lemma pairs_of_key: "distinct ks \<Longrightarrow>
    map snd (filter (\<lambda>p. fst p = j) (concat (map (\<lambda>k. map (Pair k) (f k)) ks))) = (if j \<in> set ks then f j else [])"
proof (induction ks)
  case (Cons k ks)
  have "filter (\<lambda>p. fst p = j) (map (Pair k) (f k)) = (if k = j then map (Pair j) (f j) else [])"
    by (auto simp: filter_map o_def)
  then show ?case using Cons by (auto simp: o_def)
qed simp

text \<open>A form read back from its encoding has the same values for every key.\<close>

lemma form_round_trip:
  assumes "distinct (map fst v)"
  shows "snd (ParseQuery (values_Encode v)) = None" "values_of (fst (ParseQuery (values_Encode v))) j = values_of v j"
proof -
  have "distinct (sort (map fst v))" using assms by simp
  then have "map snd (filter (\<lambda>p. fst p = j) (pairs_in_order v)) = (if j \<in> fst ` set v then values_of v j else [])"
    unfolding pairs_in_order_def by (simp only: pairs_of_key) simp
  moreover have "j \<notin> fst ` set v \<Longrightarrow> values_of v j = []" by (simp add: values_of_def map_of_eq_None_iff [symmetric])
  ultimately show "values_of (fst (ParseQuery (values_Encode v))) j = values_of v j"
    by (simp add: ParseQuery_Encode values_of_fold) (simp add: values_of_def)
qed (simp add: ParseQuery_Encode)

lemma values_Add_distinct: "distinct (map fst v) \<Longrightarrow> distinct (map fst (values_Add k x v))"
proof (induction k x v rule: values_Add.induct)
  case (2 k x k' xs v)
  have "set (map fst (values_Add k x v)) \<subseteq> insert k (set (map fst v))"
    by (induction k x v rule: values_Add.induct) auto
  then show ?case using 2 by auto
qed simp

lemma parse_pairs_distinct: "distinct (map fst v) \<Longrightarrow> distinct (map fst (fst (parse_pairs ps v err)))"
proof (induction ps arbitrary: v err)
  case (Cons p ps)
  obtain k x where "Cut (CHR ''='') p = (k, x)" by fastforce
  then show ?case using Cons
    by (cases "QueryUnescape k"; cases "QueryUnescape x") (simp_all add: values_Add_distinct)
qed simp

lemma ParseQuery_distinct: "distinct (map fst (fst (ParseQuery q)))"
  by (simp add: ParseQuery_def parse_pairs_distinct)

end
