(* ===== verification/Pkce.thy ===== *)
theory Pkce
  imports WebForm
begin

text \<open>
  The secrets a client proves itself with: base64 as package encoding/base64 writes it, the
  identifiers of secrets (\<open>EncodeSecretID\<close> of \<^verbatim>\<open>auth/secret_store.go\<close>), and the code
  verifiers of \<^verbatim>\<open>auth/pkce.go\<close>. The source of random bytes and SHA-256 are
  parameters; a byte slice that is turned into text is a string.
\<close>

section \<open>Base64\<close>

definition alphabet64 :: string where
  "alphabet64 = ''ABCDEFGHIJKLMNOPQRSTUVWXYZabcdefghijklmnopqrstuvwxyz0123456789+/''"

definition digit64 :: "nat \<Rightarrow> char" where
  "digit64 n = alphabet64 ! n"

fun base64 :: "nat list \<Rightarrow> string" where
  "base64 [] = []"
| "base64 [a] = [digit64 (a div 4), digit64 (a mod 4 * 16)]"
| "base64 [a, b] = [digit64 (a div 4), digit64 (a mod 4 * 16 + b div 16), digit64 (b mod 16 * 4)]"
| "base64 (a # b # c # xs) =
     [digit64 (a div 4), digit64 (a mod 4 * 16 + b div 16), digit64 (b mod 16 * 4 + c div 64), digit64 (c mod 64)] @
     base64 xs"

definition bytes_of :: "string \<Rightarrow> nat list" where
  "bytes_of s = map of_char s"

definition EncodeToString :: "string \<Rightarrow> string" where
  "EncodeToString s = base64 (bytes_of s) @ replicate ((3 - length s mod 3) mod 3) (CHR ''='')"

definition EncodeSecretID :: "string \<Rightarrow> string" where
  "EncodeSecretID i = base64 (bytes_of i)"

section \<open>Code verifiers\<close>

text \<open>\<open>strings.ReplaceAll\<close> of one character.\<close>

definition ReplaceAll :: "string \<Rightarrow> char \<Rightarrow> string \<Rightarrow> string" where
  "ReplaceAll s old new = concat (map (\<lambda>c. if c = old then new else [c]) s)"

definition pkce_encode :: "string \<Rightarrow> string" where
  "pkce_encode msg =
     (let encoded = EncodeToString msg;
          encoded = ReplaceAll encoded (CHR ''+'') ''-'';
          encoded = ReplaceAll encoded (CHR ''/'') ''_'';
          encoded = ReplaceAll encoded (CHR ''='') ''''
      in encoded)"

definition charset :: string where
  "charset = ''ABCDEFGHIJKLMNOPQRSTUVWXYZabcdefghijklmnopqrstuvwxyz0123456789''"

definition csLen :: "8 word" where
  "csLen = of_nat (length charset)"

definition accepted :: "8 word \<Rightarrow> bool" where
  "accepted b \<longleftrightarrow> b < csLen * 4"

definition byte_char :: "8 word \<Rightarrow> char" where
  "byte_char b = charset ! unat (b mod csLen)"

text \<open>The bytes of one buffer; the flag tells that the output is complete.\<close>

fun accept_loop :: "nat \<Rightarrow> 8 word list \<Rightarrow> string \<Rightarrow> string \<times> bool" where
  "accept_loop n [] out = (out, False)"
| "accept_loop n (b # bs) out =
     (if accepted b
      then (let out = out @ [byte_char b] in if length out = n then (out, True) else accept_loop n bs out)
      else accept_loop n bs out)"

type_synonym 's random = "nat \<Rightarrow> 's \<Rightarrow> (string, 8 word list) outcome \<times> 's"

partial_function (option) random_loop ::
  "'s random \<Rightarrow> nat \<Rightarrow> string \<Rightarrow> 's \<Rightarrow> ((string, string) outcome \<times> 's) option" where
  "random_loop rd n out s =
     (case rd n s of
        (Err e, s') \<Rightarrow> Some (Err (''failed to read random bytes: '' @ e), s')
      | (Panic, s') \<Rightarrow> Some (Panic, s')
      | (Ok buf, s') \<Rightarrow>
          (let (out, full) = accept_loop n buf out in if full then Some (Ok out, s') else random_loop rd n out s'))"

definition randomBytes :: "'s random \<Rightarrow> nat \<Rightarrow> 's \<Rightarrow> ((string, string) outcome \<times> 's) option" where
  "randomBytes rd n s = random_loop rd n [] s"

definition createCodeVerifierWithLength :: "'s random \<Rightarrow> int64 \<Rightarrow> 's \<Rightarrow> ((string, string) outcome \<times> 's) option" where
  "createCodeVerifierWithLength rd len s =
     (if sint len < 32 \<or> 96 < sint len then Some (Err (''invalid length: '' @ Itoa len), s)
      else (case randomBytes rd (nat (sint len)) s of
              None \<Rightarrow> None
            | Some (Err e, s') \<Rightarrow> Some (Err (''failed to generate random bytes: '' @ e), s')
            | Some (Panic, s') \<Rightarrow> Some (Panic, s')
            | Some (Ok buf, s') \<Rightarrow> Some (Ok (pkce_encode buf), s')))"

definition codeChallengeS256 :: "(string \<Rightarrow> string) \<Rightarrow> string \<Rightarrow> string" where
  "codeChallengeS256 sha256 i = pkce_encode (sha256 i)"

record pkce_params =
  pk_Challenge :: string
  pk_ChallengeMethod :: string
  pk_Verifier :: string

definition generatePKCEParams ::
  "(string \<Rightarrow> string) \<Rightarrow> 's random \<Rightarrow> int64 \<Rightarrow> 's \<Rightarrow> ((string, pkce_params) outcome \<times> 's) option" where
  "generatePKCEParams sha256 rd len s =
     (case createCodeVerifierWithLength rd len s of
        None \<Rightarrow> None
      | Some (Err e, s') \<Rightarrow> Some (Err (''create code verifier: '' @ e), s')
      | Some (Panic, s') \<Rightarrow> Some (Panic, s')
      | Some (Ok verifier, s') \<Rightarrow>
          Some (Ok \<lparr>pk_Challenge = codeChallengeS256 sha256 verifier, pk_ChallengeMethod = ''S256'', pk_Verifier = verifier\<rparr>, s'))"

section \<open>Base64 loses nothing\<close>

lemma digit64_inject: "a < 64 \<Longrightarrow> b < 64 \<Longrightarrow> digit64 a = digit64 b \<longleftrightarrow> a = b"
proof -
  have "distinct alphabet64" "length alphabet64 = 64" by (simp_all add: alphabet64_def)
  then show "a < 64 \<Longrightarrow> b < 64 \<Longrightarrow> digit64 a = digit64 b \<longleftrightarrow> a = b"
    by (simp add: digit64_def nth_eq_iff_index_eq)
qed

lemma sextet_less:
  "a < 256 \<Longrightarrow> a div 4 < (64 :: nat)" "a mod 4 * 16 < (64 :: nat)" "b < 256 \<Longrightarrow> a mod 4 * 16 + b div 16 < (64 :: nat)"
  "b mod 16 * 4 < (64 :: nat)" "c < 256 \<Longrightarrow> b mod 16 * 4 + c div 64 < (64 :: nat)" "c mod 64 < (64 :: nat)"
proof -
  have "a mod 4 \<le> 3" "b mod 16 \<le> 15" "c mod 64 \<le> 63" by presburger+
  moreover have "a < 256 \<Longrightarrow> a div 4 \<le> 63" "b < 256 \<Longrightarrow> b div 16 \<le> 15" "c < 256 \<Longrightarrow> c div 64 \<le> 3" by linarith+
  ultimately show "a < 256 \<Longrightarrow> a div 4 < (64 :: nat)" "a mod 4 * 16 < (64 :: nat)"
    "b < 256 \<Longrightarrow> a mod 4 * 16 + b div 16 < (64 :: nat)" "b mod 16 * 4 < (64 :: nat)"
    "c < 256 \<Longrightarrow> b mod 16 * 4 + c div 64 < (64 :: nat)" "c mod 64 < (64 :: nat)" by linarith+
qed

lemma sextets_inject:
  assumes "b < 256" "b' < (256 :: nat)" "a div 4 = a' div 4" "a mod 4 * 16 + b div 16 = a' mod 4 * 16 + b' div 16"
  shows "a = a'" "b div 16 = b' div 16"
proof -
  have "b div 16 < 16" "b' div 16 < 16" using assms(1,2) by linarith+
  moreover have "p < 16 \<Longrightarrow> q < 16 \<Longrightarrow> x * 16 + p = y * 16 + q \<Longrightarrow> x = y \<and> p = q" for x y p q :: nat by presburger
  ultimately have "a mod 4 = a' mod 4 \<and> b div 16 = b' div 16" using assms(4) by blast
  then show "a = a'" "b div 16 = b' div 16" using assms(3) by (metis div_mult_mod_eq, simp)
qed

lemma sextets_inject':
  assumes "c < 256" "c' < (256 :: nat)" "b div 16 = b' div 16" "b mod 16 * 4 + c div 64 = b' mod 16 * 4 + c' div 64"
    "c mod 64 = c' mod 64"
  shows "b = b'" "c = c'"
proof -
  have "c div 64 < 4" "c' div 64 < 4" using assms(1,2) by linarith+
  moreover have "p < 4 \<Longrightarrow> q < 4 \<Longrightarrow> x * 4 + p = y * 4 + q \<Longrightarrow> x = y \<and> p = q" for x y p q :: nat by presburger
  ultimately have "b mod 16 = b' mod 16" "c div 64 = c' div 64" using assms(4) by blast+
  then show "b = b'" "c = c'" using assms(3,5) by (metis div_mult_mod_eq)+
qed

lemma base64_length: "length (base64 xs) = (4 * length xs + 2) div 3"
  by (induction xs rule: base64.induct) auto

lemma base64_inject: "\<forall>a \<in> set xs. a < 256 \<Longrightarrow> \<forall>a \<in> set ys. a < 256 \<Longrightarrow> base64 xs = base64 ys \<Longrightarrow> xs = ys"
proof (induction xs arbitrary: ys rule: base64.induct)
  case 1
  then show ?case by (cases ys rule: base64.cases) auto
next
  case (2 a)
  then show ?case
  proof (cases ys rule: base64.cases)
    case (2 b)
    then have "a div 4 = b div 4" "a mod 4 = b mod 4"
      using "2.prems" sextet_less by (auto simp: digit64_inject)
    then show ?thesis using 2 by (metis div_mult_mod_eq)
  qed auto
next
  case (3 a b)
  then show ?case
  proof (cases ys rule: base64.cases)
    case (3 c d)
    then have "a div 4 = c div 4" "a mod 4 * 16 + b div 16 = c mod 4 * 16 + d div 16" "b mod 16 = d mod 16" "b < 256" "d < 256"
      using "3.prems" sextet_less by (auto simp: digit64_inject)
    then show ?thesis using 3 sextets_inject [of b d a c] by (metis div_mult_mod_eq)
  qed auto
next
  case (4 a b c xs)
  then show ?case
  proof (cases ys rule: base64.cases)
    case (4 a' b' c' ys')
    then have "a div 4 = a' div 4" "a mod 4 * 16 + b div 16 = a' mod 4 * 16 + b' div 16"
      "b mod 16 * 4 + c div 64 = b' mod 16 * 4 + c' div 64" "c mod 64 = c' mod 64" "base64 xs = base64 ys'"
      and less: "b < 256" "b' < 256" "c < 256" "c' < 256"
      using "4.prems" sextet_less by (auto simp: digit64_inject)
    then show ?thesis
      using 4 "4.IH" [of ys'] "4.prems" sextets_inject [of b b' a a'] sextets_inject' [of c c' b b'] by simp
  qed auto
qed

lemma bytes_of_less: "a \<in> set (bytes_of s) \<Longrightarrow> a < 256"
  by (auto simp: bytes_of_def of_char_less)

lemma bytes_of_inject [simp]: "bytes_of s = bytes_of t \<longleftrightarrow> s = t"
  unfolding bytes_of_def by (rule inj_eq) (simp add: inj_on_def)

text \<open>Two clients never share a secret.\<close>

lemma EncodeSecretID_inject [simp]: "EncodeSecretID i = EncodeSecretID j \<longleftrightarrow> i = j"
  using base64_inject [of "bytes_of i" "bytes_of j"] bytes_of_less by (auto simp: EncodeSecretID_def)

section \<open>What a verifier looks like\<close>

lemma ReplaceAll_simps:
  "ReplaceAll [] old new = []"
  "ReplaceAll (c # s) old new = (if c = old then new else [c]) @ ReplaceAll s old new"
  "ReplaceAll (s @ t) old new = ReplaceAll s old new @ ReplaceAll t old new"
  by (simp_all add: ReplaceAll_def)

definition url_safe :: "char \<Rightarrow> char" where
  "url_safe c = (if c = CHR ''+'' then CHR ''-'' else if c = CHR ''/'' then CHR ''_'' else c)"

lemma url_safe_inject: "inj_on url_safe (set alphabet64)"
  by (simp add: alphabet64_def url_safe_def)

lemma url_safe_unreserved: "c \<in> set alphabet64 \<Longrightarrow> unreserved (url_safe c)"
proof -
  have "\<forall>c \<in> set alphabet64. unreserved (url_safe c)" by (simp add: alphabet64_def url_safe_def unreserved_def)
  then show "c \<in> set alphabet64 \<Longrightarrow> unreserved (url_safe c)" by blast
qed

lemma base64_alphabet: "\<forall>a \<in> set xs. a < 256 \<Longrightarrow> set (base64 xs) \<subseteq> set alphabet64"
proof -
  have digit: "digit64 n \<in> set alphabet64" if "n < 64" for n
  proof -
    have "length alphabet64 = 64" by (simp add: alphabet64_def)
    with that show ?thesis unfolding digit64_def by simp
  qed
  show "\<forall>a \<in> set xs. a < 256 \<Longrightarrow> set (base64 xs) \<subseteq> set alphabet64"
    by (induction xs rule: base64.induct) (auto intro!: digit sextet_less)
qed

lemma pkce_encode_exact: "pkce_encode s = map url_safe (base64 (bytes_of s))"
proof -
  have "ReplaceAll (ReplaceAll (ReplaceAll t (CHR ''+'') ''-'') (CHR ''/'') ''_'') (CHR ''='') '''' = map url_safe t"
    if "set t \<subseteq> set alphabet64" for t
    using that
  proof (induction t)
    case (Cons c t)
    have "CHR ''='' \<notin> set alphabet64" by (simp add: alphabet64_def)
    with Cons show ?case by (auto simp: ReplaceAll_simps url_safe_def)
  qed (simp add: ReplaceAll_simps)
  moreover have "ReplaceAll (ReplaceAll (ReplaceAll (replicate n (CHR ''='')) (CHR ''+'') ''-'') (CHR ''/'') ''_'') (CHR ''='') '''' = ''''" for n
    by (induction n) (simp_all add: ReplaceAll_simps)
  ultimately show ?thesis using base64_alphabet [of "bytes_of s"] bytes_of_less
    by (simp add: pkce_encode_def EncodeToString_def ReplaceAll_simps(3))
qed

lemma pkce_encode_inject: "pkce_encode s = pkce_encode t \<longleftrightarrow> s = t"
proof
  assume "pkce_encode s = pkce_encode t"
  moreover have bytes: "\<forall>a \<in> set (bytes_of r). a < 256" for r using bytes_of_less by blast
  moreover have "inj_on url_safe (set (base64 (bytes_of s)) \<union> set (base64 (bytes_of t)))"
    using base64_alphabet [OF bytes] by (intro inj_on_subset [OF url_safe_inject]) blast
  ultimately have "base64 (bytes_of s) = base64 (bytes_of t)" by (simp add: pkce_encode_exact inj_on_map_eq_map)
  from base64_inject [OF bytes bytes this] show "s = t" by simp
qed simp

lemma pkce_encode_length: "length (pkce_encode s) = (4 * length s + 2) div 3"
  by (simp add: pkce_encode_exact base64_length bytes_of_def)

lemma pkce_encode_unreserved: "c \<in> set (pkce_encode s) \<Longrightarrow> unreserved c"
  using base64_alphabet [of "bytes_of s"] bytes_of_less url_safe_unreserved by (auto simp: pkce_encode_exact)

section \<open>Random characters\<close>

lemma charset_props: "length charset = 62" "distinct charset" "csLen = 62"
proof -
  show len: "length charset = 62" and "distinct charset" by (simp_all add: charset_def)
  show "csLen = 62" unfolding csLen_def len by simp
qed

lemma byte_char_charset: "byte_char b \<in> set charset"
proof -
  have "unat (b mod csLen) < 62" by (simp add: charset_props unat_mod)
  then show ?thesis unfolding byte_char_def using charset_props(1) by simp
qed

lemma byte_of_nat_inject: "x < 256 \<Longrightarrow> y < 256 \<Longrightarrow> of_nat x = (of_nat y :: 8 word) \<Longrightarrow> x = y"
  by (simp add: word_of_nat_eq_iff take_bit_nat_eq_self)

text \<open>Every character comes from exactly four of the bytes that are accepted.\<close>

lemma accepted_uniform:
  assumes "c \<in> set charset"
  shows "card {b. accepted b \<and> byte_char b = c} = 4"
proof -
  obtain i where i: "i < 62" "charset ! i = c" using assms charset_props(1) by (metis in_set_conv_nth)
  have "byte_char b = c \<longleftrightarrow> unat b mod 62 = i" for b
  proof -
    have "unat (b mod csLen) < 62" "unat (b mod csLen) = unat b mod 62" by (simp_all add: charset_props unat_mod)
    then show ?thesis unfolding byte_char_def i(2) [symmetric] using i(1) charset_props
      by (simp add: nth_eq_iff_index_eq)
  qed
  moreover have "accepted b \<longleftrightarrow> unat b < 248" for b by (simp add: accepted_def charset_props word_less_nat_alt)
  ultimately have "{b. accepted b \<and> byte_char b = c} = of_nat ` {i, i + 62, i + 124, i + 186}"
  proof (intro set_eqI iffI)
    fix b assume "b \<in> {b. accepted b \<and> byte_char b = c}"
    with \<open>\<And>b. byte_char b = c \<longleftrightarrow> unat b mod 62 = i\<close> \<open>\<And>b. accepted b \<longleftrightarrow> unat b < 248\<close>
    have "unat b < 248" "unat b mod 62 = i" by simp_all
    then have "unat b = unat b div 62 * 62 + i" "unat b div 62 < 4" by (metis div_mult_mod_eq, linarith)
    then consider "unat b div 62 = 0" | "unat b div 62 = 1" | "unat b div 62 = 2" | "unat b div 62 = 3" by linarith
    then have "unat b \<in> {i, i + 62, i + 124, i + 186}" using \<open>unat b = unat b div 62 * 62 + i\<close> by cases simp_all
    then have "of_nat (unat b) \<in> (of_nat ` {i, i + 62, i + 124, i + 186} :: 8 word set)" by (rule imageI)
    then show "b \<in> of_nat ` {i, i + 62, i + 124, i + 186}" by simp
  next
    fix b :: "8 word" assume "b \<in> of_nat ` {i, i + 62, i + 124, i + 186}"
    then obtain n where n: "b = of_nat n" "n \<in> {i, i + 62, i + 124, i + 186}" by blast
    then obtain k where "k < 4" "n = i + 62 * k"
      by (elim insertE emptyE) (auto intro: that [of 0] that [of 1] that [of 2] that [of 3])
    then have "n < 248" "n mod 62 = i" using i(1) by simp_all
    with n have "unat b = n" by (simp add: unat_of_nat)
    with \<open>n < 248\<close> \<open>n mod 62 = i\<close> \<open>\<And>b. byte_char b = c \<longleftrightarrow> unat b mod 62 = i\<close> \<open>\<And>b. accepted b \<longleftrightarrow> unat b < 248\<close>
    show "b \<in> {b. accepted b \<and> byte_char b = c}" by simp
  qed
  moreover have "inj_on (of_nat :: nat \<Rightarrow> 8 word) {i, i + 62, i + 124, i + 186}"
  proof (rule inj_onI)
    fix x y assume "x \<in> {i, i + 62, i + 124, i + 186}" "y \<in> {i, i + 62, i + 124, i + 186}" "of_nat x = (of_nat y :: 8 word)"
    moreover have "z < 256" if "z \<in> {i, i + 62, i + 124, i + 186}" for z using that i(1) by auto
    ultimately show "x = y" using byte_of_nat_inject by blast
  qed
  ultimately show ?thesis by (simp add: card_image)
qed

section \<open>The loop\<close>

lemma accept_loop_exact:
  "length out < n \<Longrightarrow>
   accept_loop n bs out =
     (let new = map byte_char (filter accepted bs)
      in if n \<le> length (out @ new) then (take n (out @ new), True) else (out @ new, False))"
  by (induction n bs out rule: accept_loop.induct) (auto simp: Let_def)

lemma random_loop_sound:
  assumes "random_loop rd n out s = Some (r, s')" "length out < n" "set out \<subseteq> set charset"
  shows "r = Ok res \<Longrightarrow> length res = n \<and> set res \<subseteq> set charset"
proof -
  define P where "P n out res \<longleftrightarrow> (length out < n \<longrightarrow> set out \<subseteq> set charset \<longrightarrow>
    (\<forall>x. fst res = Ok x \<longrightarrow> length x = n \<and> set x \<subseteq> set charset))" for n out and res :: "(string, string) outcome \<times> 'a"
  have "P n out (r, s')"
  proof (rule random_loop.raw_induct [where P = "\<lambda>rd n out s res. P n out res", OF _ assms(1)])
    fix loop rd n out s res
    assume ih: "\<And>rd n out s res. loop rd n out s = Some res \<Longrightarrow> P n out res"
      and ret: "(case rd n s of
        (Ok buf, s') \<Rightarrow> (let (out, full) = accept_loop n buf out in if full then Some (Ok out, s') else loop rd n out s')
      | (Err e, s') \<Rightarrow> Some (Err (''failed to read random bytes: '' @ e), s')
      | (Panic, s') \<Rightarrow> Some (Panic, s')) = Some res"
    show "P n out res" unfolding P_def
    proof (intro impI)
      assume out: "length out < n" "set out \<subseteq> set charset"
      have all_chars: "set (out @ map byte_char bs) \<subseteq> set charset" for bs
        using out(2) byte_char_charset by auto
      have some_chars: "set (take n (out @ map byte_char bs)) \<subseteq> set charset" for bs
        using set_take_subset all_chars by (rule subset_trans)
      note chars = some_chars all_chars
      show "\<forall>x. fst res = Ok x \<longrightarrow> length x = n \<and> set x \<subseteq> set charset"
      proof (cases "rd n s")
        case (Pair b s1)
        show ?thesis
        proof (cases b)
          case (Ok buf)
          define new where "new = map byte_char (filter accepted buf)"
          have step: "if n \<le> length (out @ new) then res = (Ok (take n (out @ new)), s1) else loop rd n (out @ new) s1 = Some res"
            using ret Pair Ok accept_loop_exact [OF out(1), of buf] by (auto simp: Let_def new_def split: if_splits)
          show ?thesis
          proof (cases "n \<le> length (out @ new)")
            case True
            then show ?thesis using step chars(1) [of "filter accepted buf"] by (auto simp: new_def)
          next
            case False
            from step False have "loop rd n (out @ new) s1 = Some res" by simp
            note next_round = ih [OF this, unfolded P_def, rule_format]
            have "length (out @ new) < n" "set (out @ new) \<subseteq> set charset"
              using False chars(2) [of "filter accepted buf"] unfolding new_def by linarith+
            then show ?thesis using next_round by blast
          qed
        qed (use ret Pair in auto)
      qed
    qed
  qed
  then show "r = Ok res \<Longrightarrow> length res = n \<and> set res \<subseteq> set charset" using assms(2,3) by (simp add: P_def)
qed

text \<open>How many characters the next reads of the source give.\<close>

fun supply_of :: "'s random \<Rightarrow> nat \<Rightarrow> nat \<Rightarrow> 's \<Rightarrow> nat" where
  "supply_of rd n 0 s = 0"
| "supply_of rd n (Suc k) s =
     (case rd n s of (Ok buf, s') \<Rightarrow> length (filter accepted buf) + supply_of rd n k s' | _ \<Rightarrow> 0)"

lemma random_loop_returns: "length out < n \<Longrightarrow> n \<le> length out + supply_of rd n k s \<Longrightarrow> \<exists>x s'. random_loop rd n out s = Some (Ok x, s')"
proof (induction k arbitrary: out s)
  case (Suc k)
  obtain b s1 where rd: "rd n s = (b, s1)" by fastforce
  show ?case
  proof (cases b)
    case (Ok buf)
    note unroll = random_loop.simps [of rd n out s]
    show ?thesis
    proof (cases "n \<le> length out + length (filter accepted buf)")
      case True
      then show ?thesis using Suc.prems(1) Ok rd by (subst unroll) (simp add: accept_loop_exact Let_def)
    next
      case False
      then show ?thesis using Suc Ok rd Suc.IH [of "out @ map byte_char (filter accepted buf)" s1]
        by (subst unroll) (simp add: accept_loop_exact Let_def)
    qed
  qed (use Suc.prems rd in auto)
qed simp

section \<open>Properties\<close>

text \<open>
  C34 (pkce_params_sound).
  The parameters of a flow have a verifier as RFC 7636 wants it, of 43 to 128 unreserved characters,
  that holds all the random characters, each of which comes from exactly four bytes; the challenge is
  the digest of that verifier; a length outside 32 to 96 is refused; and the loop returns once its
  source has given enough bytes below 248.
\<close>

theorem pkce_params_sound:
  assumes "\<forall>x. length (sha256 x) = 32"
  shows "(\<forall>p s'. generatePKCEParams sha256 rd len s = Some (Ok p, s') \<longrightarrow>
      (\<exists>chars. length chars = nat (sint len) \<and> set chars \<subseteq> set charset \<and>
         (\<forall>other. pkce_encode other = pk_Verifier p \<longleftrightarrow> other = chars)) \<and>
      43 \<le> length (pk_Verifier p) \<and> length (pk_Verifier p) \<le> 128 \<and> list_all unreserved (pk_Verifier p) \<and>
      pk_ChallengeMethod p = ''S256'' \<and> pk_Challenge p = pkce_encode (sha256 (pk_Verifier p)) \<and>
      length (pk_Challenge p) = 43) \<and>
    (\<forall>c \<in> set charset. card {b. accepted b \<and> byte_char b = c} = 4) \<and>
    (sint len < 32 \<or> 96 < sint len \<longrightarrow>
      generatePKCEParams sha256 rd len s = Some (Err (''create code verifier: invalid length: '' @ Itoa len), s)) \<and>
    (32 \<le> sint len \<longrightarrow> sint len \<le> 96 \<longrightarrow> nat (sint len) \<le> supply_of rd (nat (sint len)) k s \<longrightarrow>
      (\<exists>p s'. generatePKCEParams sha256 rd len s = Some (Ok p, s')))"
proof (intro conjI impI allI)
  fix p s' assume "generatePKCEParams sha256 rd len s = Some (Ok p, s')"
  then obtain chars where len: "32 \<le> sint len" "sint len \<le> 96"
    and run: "random_loop rd (nat (sint len)) [] s = Some (Ok chars, s')"
    and p: "p = \<lparr>pk_Challenge = pkce_encode (sha256 (pkce_encode chars)), pk_ChallengeMethod = ''S256'', pk_Verifier = pkce_encode chars\<rparr>"
    by (auto simp: generatePKCEParams_def createCodeVerifierWithLength_def randomBytes_def codeChallengeS256_def
        split: option.splits outcome.splits if_splits prod.splits)
  have chars: "length chars = nat (sint len)" "set chars \<subseteq> set charset"
    using random_loop_sound [OF run] len by auto
  have bounds: "32 \<le> length chars" "length chars \<le> 96" using chars(1) len by auto
  show "\<exists>chars. length chars = nat (sint len) \<and> set chars \<subseteq> set charset \<and>
      (\<forall>other. pkce_encode other = pk_Verifier p \<longleftrightarrow> other = chars)"
    using chars by (intro exI [of _ chars]) (simp add: p pkce_encode_inject)
  show "43 \<le> length (pk_Verifier p)" "length (pk_Verifier p) \<le> 128"
    using bounds by (simp_all add: p pkce_encode_length)
  show "list_all unreserved (pk_Verifier p)" by (simp add: p list_all_iff pkce_encode_unreserved)
  show "pk_ChallengeMethod p = ''S256''" "pk_Challenge p = pkce_encode (sha256 (pk_Verifier p))" by (simp_all add: p)
  then show "length (pk_Challenge p) = 43" using assms by (simp add: pkce_encode_length)
next
  show "\<forall>c \<in> set charset. card {b. accepted b \<and> byte_char b = c} = 4" using accepted_uniform by blast
next
  assume "sint len < 32 \<or> 96 < sint len"
  then show "generatePKCEParams sha256 rd len s = Some (Err (''create code verifier: invalid length: '' @ Itoa len), s)"
    by (simp add: generatePKCEParams_def createCodeVerifierWithLength_def)
next
  assume "32 \<le> sint len" "sint len \<le> 96" "nat (sint len) \<le> supply_of rd (nat (sint len)) k s"
  then obtain x s' where "random_loop rd (nat (sint len)) [] s = Some (Ok x, s')"
    using random_loop_returns [of "[]" "nat (sint len)" rd k s] by auto
  with \<open>32 \<le> sint len\<close> \<open>sint len \<le> 96\<close> show "\<exists>p s'. generatePKCEParams sha256 rd len s = Some (Ok p, s')"
    by (simp add: generatePKCEParams_def createCodeVerifierWithLength_def randomBytes_def)
qed

text \<open>A source whose first buffer is unusable.\<close>

definition flaky_source :: "bool random" where
  "flaky_source = (\<lambda>n warm. (Ok (replicate n (if warm then 0 else 255)), True))"

theorem pkce_params_sound_witness:
  "\<exists>p s'. generatePKCEParams (\<lambda>x. replicate 32 (CHR ''x'')) flaky_source 32 False = Some (Ok p, s') \<and>
     length (pk_Verifier p) = 43 \<and> length (pk_Challenge p) = 43"
proof -
  have "accepted (0 :: 8 word)" by (simp add: accepted_def charset_props)
  then have enough: "32 \<le> supply_of flaky_source 32 2 False"
    by (simp add: flaky_source_def numeral_2_eq_2 filter_replicate)
  have sha: "\<forall>x :: string. length (replicate 32 (CHR ''x'')) = 32" by simp
  note sound = pkce_params_sound [of "\<lambda>x. replicate 32 (CHR ''x'')" flaky_source 32 False 2, OF sha]
  from sound enough obtain p s' where run: "generatePKCEParams (\<lambda>x. replicate 32 (CHR ''x'')) flaky_source 32 False = Some (Ok p, s')"
    by auto
  then obtain chars where "random_loop flaky_source 32 [] False = Some (Ok chars, s')" "pk_Verifier p = pkce_encode chars"
    by (auto simp: generatePKCEParams_def createCodeVerifierWithLength_def randomBytes_def
        split: option.splits outcome.splits if_splits prod.splits)
  then have "length (pk_Verifier p) = 43" using random_loop_sound [of flaky_source 32 "[]" False "Ok chars" s' chars]
    by (simp add: pkce_encode_length)
  then show ?thesis using sound run by auto
qed

end
