(* ===== verification/AuthKeys.thy ===== *)
theory AuthKeys
  imports Pkce
begin

text \<open>
  Keys and tokens (\<^verbatim>\<open>auth/keys.go\<close>, \<^verbatim>\<open>keys_jwks.go\<close>, \<^verbatim>\<open>keys_multi.go\<close>,
  \<^verbatim>\<open>jwt.go\<close>): which algorithm a key signs with, the sets of keys the program combines, and
  how it signs and verifies the tokens of its users. The parsers of key files, the JSON codecs and
  the JWT library are parameters.
\<close>

section \<open>Keys\<close>

text \<open>The Go types a key can have; \<open>'m\<close> is the key material. The curve comes with its bit size.\<close>

datatype 'm jwk = Jwk (jwk_KeyID: string) (jwk_Algorithm: string) (jwk_IsPublic: bool) (jwk_Key: 'm)

datatype 'm key_material =
  RSA_Private 'm | RSA_Public 'm | ECDSA_Private nat 'm | ECDSA_Public nat 'm | DSA_Private 'm | DSA_Public 'm
| Ed25519_Private 'm | Ed25519_Public 'm | Symmetric string | JSONWebKey "'m jwk" | Other_Key 'm

record 'm key =
  k_key :: "'m key_material"
  k_algo :: string

definition validAlgorithms :: "string list" where
  "validAlgorithms = [''RS256'', ''RS384'', ''RS512'', ''ES256'', ''ES384'', ''ES512'', ''PS256'', ''PS384'', ''PS512'', ''EdDSA'', ''HS256'']"

text \<open>\<open>None\<close> is the panic.\<close>

fun getKeyAlgo :: "'m key_material \<Rightarrow> string option" where
  "getKeyAlgo (RSA_Private _) = Some ''RS256''"
| "getKeyAlgo (RSA_Public _) = Some ''RS256''"
| "getKeyAlgo (ECDSA_Private bits _) =
     (if bits = 256 then Some ''ES256'' else if bits = 384 then Some ''ES384'' else if bits = 512 then Some ''ES512'' else None)"
| "getKeyAlgo (ECDSA_Public _ _) = Some ''ES256''"
| "getKeyAlgo (DSA_Private _) = Some ''ES256''"
| "getKeyAlgo (DSA_Public _) = Some ''ES256''"
| "getKeyAlgo (Ed25519_Private _) = Some ''EdDSA''"
| "getKeyAlgo (Ed25519_Public _) = Some ''EdDSA''"
| "getKeyAlgo _ = Some ''HS256''"

datatype x509_algorithm =
  SHA256WithRSA | SHA384WithRSA | SHA512WithRSA | ECDSAWithSHA256 | ECDSAWithSHA384 | ECDSAWithSHA512
| SHA256WithRSAPSS | SHA384WithRSAPSS | SHA512WithRSAPSS | PureEd25519 | OtherX509

fun certAlgo :: "x509_algorithm \<Rightarrow> (string, string) outcome" where
  "certAlgo SHA256WithRSA = Ok ''RS256''"
| "certAlgo SHA384WithRSA = Ok ''RS384''"
| "certAlgo SHA512WithRSA = Ok ''RS512''"
| "certAlgo ECDSAWithSHA256 = Ok ''ES256''"
| "certAlgo ECDSAWithSHA384 = Ok ''ES384''"
| "certAlgo ECDSAWithSHA512 = Ok ''ES512''"
| "certAlgo SHA256WithRSAPSS = Ok ''PS256''"
| "certAlgo SHA384WithRSAPSS = Ok ''PS384''"
| "certAlgo SHA512WithRSAPSS = Ok ''PS512''"
| "certAlgo PureEd25519 = Ok ''EdDSA''"
| "certAlgo OtherX509 = Err ''unsupported certificate algorithm''"

definition SymmetricKey :: "string \<Rightarrow> (string, 'm key) outcome" where
  "SymmetricKey data =
     (if length data < 32 then Err ''key must at least have 32 bytes''
      else Ok \<lparr>k_key = Symmetric data, k_algo = ''HS256''\<rparr>)"

text \<open>The parsers of packages encoding/pem, crypto/x509 and of the JWT library: \<open>None\<close> is an error.\<close>

record 'm key_parsers =
  kp_pem :: "string \<Rightarrow> string option"
  kp_PKIX :: "string \<Rightarrow> 'm key_material option"
  kp_Certificate :: "string \<Rightarrow> (x509_algorithm \<times> 'm key_material) option"
  kp_PKCS1 :: "string \<Rightarrow> 'm key_material option"
  kp_PKCS8 :: "string \<Rightarrow> 'm key_material option"
  kp_EC :: "string \<Rightarrow> 'm key_material option"
  kp_JWK :: "string \<Rightarrow> 'm jwk option"
  kp_Valid :: "'m jwk \<Rightarrow> bool"

definition key_input :: "'m key_parsers \<Rightarrow> string \<Rightarrow> string" where
  "key_input P data = (case kp_pem P data of Some block \<Rightarrow> block | None \<Rightarrow> data)"

definition with_algo :: "'m key_material \<Rightarrow> (string, 'm key) outcome" where
  "with_algo k = (case getKeyAlgo k of Some a \<Rightarrow> Ok \<lparr>k_key = k, k_algo = a\<rparr> | None \<Rightarrow> Panic)"

definition loadJSONWebKey :: "'m key_parsers \<Rightarrow> string \<Rightarrow> bool \<Rightarrow> 'm jwk option" where
  "loadJSONWebKey P json pub =
     (case kp_JWK P json of
        None \<Rightarrow> None
      | Some jwk \<Rightarrow> if \<not> kp_Valid P jwk then None else if jwk_IsPublic jwk \<noteq> pub then None else Some jwk)"

definition jwk_key :: "'m jwk \<Rightarrow> 'm key" where
  "jwk_key jwk = \<lparr>k_key = JSONWebKey jwk, k_algo = jwk_Algorithm jwk\<rparr>"

definition LoadPublicKey :: "'m key_parsers \<Rightarrow> string \<Rightarrow> (string, 'm key) outcome" where
  "LoadPublicKey P data =
     (let input = key_input P data in
      case kp_PKIX P input of
        Some pub \<Rightarrow> with_algo pub
      | None \<Rightarrow>
          (case kp_Certificate P input of
             Some (a, pub) \<Rightarrow> andThen (certAlgo a) (\<lambda>algo. Ok \<lparr>k_key = pub, k_algo = algo\<rparr>)
           | None \<Rightarrow>
               (case loadJSONWebKey P data True of
                  Some jwk \<Rightarrow> Ok (jwk_key jwk)
                | None \<Rightarrow> Err ''parse error, invalid public key'')))"

definition LoadPrivateKey :: "'m key_parsers \<Rightarrow> string \<Rightarrow> (string, 'm key) outcome" where
  "LoadPrivateKey P data =
     (let input = key_input P data in
      case kp_PKCS1 P input of
        Some priv \<Rightarrow> with_algo priv
      | None \<Rightarrow>
          (case kp_PKCS8 P input of
             Some priv \<Rightarrow> with_algo priv
           | None \<Rightarrow>
               (case kp_EC P input of
                  Some priv \<Rightarrow> with_algo priv
                | None \<Rightarrow>
                    (case loadJSONWebKey P input False of
                       Some jwk \<Rightarrow> Ok (jwk_key jwk)
                     | None \<Rightarrow> Err ''parse error, invalid private key''))))"

section \<open>Sets of keys\<close>

record ('m, 's) keys =
  ks_Sign :: "'s \<Rightarrow> (string, 'm key) outcome \<times> 's"
  ks_Verify :: "'s \<Rightarrow> (string, 'm key list) outcome \<times> 's"

definition staticSymmetricKeys :: "'m key \<Rightarrow> ('m, 's) keys" where
  "staticSymmetricKeys k = \<lparr>ks_Sign = (\<lambda>s. (Ok k, s)), ks_Verify = (\<lambda>s. (Ok [k], s))\<rparr>"

definition staticAsymmetricKeys :: "'m key \<Rightarrow> 'm key list \<Rightarrow> ('m, 's) keys" where
  "staticAsymmetricKeys priv pub = \<lparr>ks_Sign = (\<lambda>s. (Ok priv, s)), ks_Verify = (\<lambda>s. (Ok pub, s))\<rparr>"

definition jwksKeys :: "'m jwk list \<Rightarrow> ('m, 's) keys" where
  "jwksKeys jwks =
     \<lparr>ks_Sign = (\<lambda>s. (case find (\<lambda>k. \<not> jwk_IsPublic k) jwks of
                          Some k \<Rightarrow> Ok (jwk_key k) | None \<Rightarrow> Err ''cannot sign with this set of keys'', s)),
      ks_Verify = (\<lambda>s. (Ok (map jwk_key jwks), s))\<rparr>"

text \<open>The status and the decoded body of the response of a GET request.\<close>

definition FetchPublicJWKS ::
  "(string \<Rightarrow> 's \<Rightarrow> (string, nat \<times> 'm jwk list option) outcome \<times> 's) \<Rightarrow> ('m jwk \<Rightarrow> bool) \<Rightarrow> string \<Rightarrow> 's \<Rightarrow>
   (string, ('m, 't) keys) outcome \<times> 's" where
  "FetchPublicJWKS http_get valid endpoint s =
     (case http_get endpoint s of
        (Err e, s) \<Rightarrow> (Err (''http get: '' @ e), s)
      | (Panic, s) \<Rightarrow> (Panic, s)
      | (Ok (status, body), s) \<Rightarrow>
          (if status \<noteq> 200 then Err (''http get: status code '' @ show_nat status)
           else case body of
                  None \<Rightarrow> Err ''json decode jwk key''
                | Some jwks \<Rightarrow> if list_all valid jwks then Ok (jwksKeys jwks) else Err ''invalid JWK key'', s))"

fun multi_Verify :: "('m, 's) keys list \<Rightarrow> 'm key list \<Rightarrow> 's \<Rightarrow> (string, 'm key list) outcome \<times> 's" where
  "multi_Verify [] ret s = (Ok ret, s)"
| "multi_Verify (K # Ks) ret s =
     (case ks_Verify K s of
        (Ok other, s) \<Rightarrow> multi_Verify Ks (ret @ other) s
      | (Err e, s) \<Rightarrow> (Err e, s)
      | (Panic, s) \<Rightarrow> (Panic, s))"

definition CombineKeys :: "('m, 's) keys \<Rightarrow> ('m, 's) keys list \<Rightarrow> ('m, 's) keys" where
  "CombineKeys K extra = \<lparr>ks_Sign = ks_Sign K, ks_Verify = multi_Verify (K # extra) []\<rparr>"

section \<open>Tokens\<close>

text \<open>
  Times are nanoseconds since the epoch, \<open>jwt.NumericDate\<close> whole seconds; a date that is
  missing reads as the epoch.
\<close>

definition NewNumericDate :: "int \<Rightarrow> int option" where
  "NewNumericDate t = (if t = - 62135596800000000000 then None else Some (t div 1000000000))"

definition date_Time :: "int option \<Rightarrow> int" where
  "date_Time d = (case d of None \<Rightarrow> 0 | Some n \<Rightarrow> n * 1000000000)"

record jwt_claims =
  cl_Issuer :: string
  cl_Subject :: string
  cl_Audience :: "string list"
  cl_Expiry :: "int option"
  cl_NotBefore :: "int option"
  cl_IssuedAt :: "int option"
  cl_ID :: string

record 'x user_claims =
  us_Claims :: jwt_claims
  us_Email :: string
  us_UserID :: string
  us_Extra :: 'x

text \<open>
  The JWT library, the JSON codec of claims, the clock, the source of UUIDs (which panics when it
  fails) and the zero value of the extra claims. A parsed token has a payload, and a key verifies it
  or not.
\<close>

record ('m, 'tok, 'x, 's) jwt_env =
  jo_ParseSigned :: "string \<Rightarrow> string list \<Rightarrow> (string, 'tok) outcome"
  jo_KeyIDs :: "'tok \<Rightarrow> string list"
  jo_verify :: "'tok \<Rightarrow> 'm key_material \<Rightarrow> string option"
  jo_payload :: "'tok \<Rightarrow> string"
  jo_NewSigner :: "'m key \<Rightarrow> string option"
  jo_Serialize :: "'m key \<Rightarrow> string \<Rightarrow> (string, string) outcome"
  js_encode :: "'x user_claims \<Rightarrow> (string, string) outcome"
  js_user :: "string \<Rightarrow> (string, 'x user_claims) outcome"
  je_now :: "'s \<Rightarrow> int"
  je_uuid :: "'s \<Rightarrow> string option \<times> 's"
  je_zero :: 'x

definition zero_claims :: "('m, 'tok, 'x, 's) jwt_env \<Rightarrow> 'x user_claims" where
  "zero_claims E =
     \<lparr>us_Claims = \<lparr>cl_Issuer = '''', cl_Subject = '''', cl_Audience = [], cl_Expiry = None, cl_NotBefore = None,
        cl_IssuedAt = None, cl_ID = ''''\<rparr>, us_Email = '''', us_UserID = '''', us_Extra = je_zero E\<rparr>"

definition user_claims_at :: "int \<Rightarrow> int64 \<Rightarrow> string \<Rightarrow> string \<Rightarrow> string \<Rightarrow> 'x \<Rightarrow> 'x user_claims" where
  "user_claims_at now expiry uuid userID email extra =
     \<lparr>us_Claims = \<lparr>cl_Issuer = ''blue-auth'', cl_Subject = userID, cl_Audience = [''blue-user''],
        cl_Expiry = NewNumericDate (now + sint expiry), cl_NotBefore = NewNumericDate now,
        cl_IssuedAt = NewNumericDate now, cl_ID = uuid\<rparr>,
      us_Email = email, us_UserID = userID, us_Extra = extra\<rparr>"

definition SignToken ::
  "('m, 'tok, 'x, 's) jwt_env \<Rightarrow> 'm key \<Rightarrow> string \<Rightarrow> string \<Rightarrow> 'x \<Rightarrow> int64 \<Rightarrow> 's \<Rightarrow> (string, string) outcome \<times> 's" where
  "SignToken E k userID email extra expiry s =
     (case je_uuid E s of
        (None, s') \<Rightarrow> (Panic, s')
      | (Some uuid, s') \<Rightarrow>
          (case jo_NewSigner E k of
             Some e \<Rightarrow> Err (''new jwt signer: '' @ e)
           | None \<Rightarrow>
               mapErr (\<lambda>e. ''sign token: '' @ e)
                 (andThen (js_encode E (user_claims_at (je_now E s) expiry uuid userID email extra)) (jo_Serialize E k)), s'))"

definition VerifyToken ::
  "('m, 'tok, 'x, 's) jwt_env \<Rightarrow> 'm key \<Rightarrow> string \<Rightarrow> 's \<Rightarrow> (string, 'x user_claims) outcome" where
  "VerifyToken E k token s =
     andThen (mapErr (\<lambda>e. ''parse signed: '' @ e) (jo_ParseSigned E token validAlgorithms)) (\<lambda>tok.
     andThen (mapErr (\<lambda>e. ''verify signature: '' @ e)
       (case jo_verify E tok (k_key k) of Some e \<Rightarrow> Err e | None \<Rightarrow> js_user E (jo_payload E tok))) (\<lambda>cl.
     if date_Time (cl_Expiry (us_Claims cl)) < je_now E s then Err ''token expired'' else Ok cl))"

section \<open>What a verified token is\<close>

text \<open>The specification: a key of the set verifies the token, and it has not expired.\<close>

definition token_accepted :: "('m, 'tok, 'x, 's) jwt_env \<Rightarrow> 'm key \<Rightarrow> string \<Rightarrow> int \<Rightarrow> 'x user_claims \<Rightarrow> bool" where
  "token_accepted E k token now c \<longleftrightarrow>
     (\<exists>tok. jo_ParseSigned E token validAlgorithms = Ok tok \<and> jo_verify E tok (k_key k) = None \<and>
        js_user E (jo_payload E tok) = Ok c) \<and> now \<le> date_Time (cl_Expiry (us_Claims c))"

lemma VerifyToken_Ok: "VerifyToken E k token s = Ok c \<longleftrightarrow> token_accepted E k token (je_now E s) c"
  by (auto simp: VerifyToken_def token_accepted_def outcome_simps split: option.splits)

text \<open>What the libraries promise of a key and its counterpart, and a token that was signed.\<close>

definition signs_for :: "('m, 'tok, 'x, 's) jwt_env \<Rightarrow> 'm key \<Rightarrow> 'm key \<Rightarrow> bool" where
  "signs_for E k k' \<longleftrightarrow>
     (\<forall>p t. jo_Serialize E k p = Ok t \<longrightarrow>
       (\<exists>tok. jo_ParseSigned E t validAlgorithms = Ok tok \<and> jo_payload E tok = p \<and> jo_verify E tok (k_key k') = None))"

definition claims_codec :: "('m, 'tok, 'x, 's) jwt_env \<Rightarrow> bool" where
  "claims_codec E \<longleftrightarrow> (\<forall>c p. js_encode E c = Ok p \<longrightarrow> js_user E p = Ok c)"

lemma NewNumericDate_bounds:
  "0 \<le> t \<Longrightarrow> date_Time (NewNumericDate t) \<le> t \<and> t < date_Time (NewNumericDate t) + 1000000000"
  by (auto simp: NewNumericDate_def date_Time_def)

lemma SignToken_Ok:
  assumes "SignToken E k userID email extra expiry s = (Ok t, s')" "signs_for E k k'" "claims_codec E"
  obtains uuid where "je_uuid E s = (Some uuid, s')"
    "\<And>now c. token_accepted E k' t now c \<longleftrightarrow>
       c = user_claims_at (je_now E s) expiry uuid userID email extra \<and> now \<le> date_Time (NewNumericDate (je_now E s + sint expiry))"
proof -
  obtain uuid p where uuid: "je_uuid E s = (Some uuid, s')"
    and p: "js_encode E (user_claims_at (je_now E s) expiry uuid userID email extra) = Ok p" "jo_Serialize E k p = Ok t"
    using assms(1) by (auto simp: SignToken_def outcome_simps split: prod.splits option.splits)
  obtain tok where "jo_ParseSigned E t validAlgorithms = Ok tok" "jo_payload E tok = p" "jo_verify E tok (k_key k') = None"
    using assms(2) p(2) unfolding signs_for_def by blast
  moreover have "js_user E p = Ok (user_claims_at (je_now E s) expiry uuid userID email extra)"
    using assms(3) p(1) unfolding claims_codec_def by blast
  ultimately have "token_accepted E k' t now c \<longleftrightarrow>
       c = user_claims_at (je_now E s) expiry uuid userID email extra \<and> now \<le> date_Time (NewNumericDate (je_now E s + sint expiry))" for now c
    by (auto simp: token_accepted_def user_claims_at_def)
  with uuid show thesis by (rule that)
qed

text \<open>A key on the curve P-521, whose bit size is 521, cannot be loaded: the program panics.\<close>

lemma p521_panics: "kp_PKCS1 P (key_input P data) = None \<Longrightarrow> kp_PKCS8 P (key_input P data) = Some (ECDSA_Private 521 m) \<Longrightarrow>
  LoadPrivateKey P data = Panic"
  by (simp add: LoadPrivateKey_def with_algo_def)

section \<open>The contract of a set of keys\<close>

text \<open>
  As long as \<open>later\<close> holds between the state a token was signed in and another, the keys that
  verify there have a counterpart of the key that signed.
\<close>

locale key_set =
  fixes K :: "('m, 's) keys" and counterpart :: "'m key \<Rightarrow> 'm key \<Rightarrow> bool" and later :: "'s \<Rightarrow> 's \<Rightarrow> bool"
  assumes sign_verify: "ks_Sign K s = (Ok k, s') \<Longrightarrow> later s' t \<Longrightarrow>
    \<exists>ks t'. ks_Verify K t = (Ok ks, t') \<and> (\<exists>k' \<in> set ks. counterpart k k')"

interpretation symmetric_keys: key_set "staticSymmetricKeys k" "\<lambda>k k'. k' = k" "\<lambda>s t. True"
  by unfold_locales (simp add: staticSymmetricKeys_def)

interpretation asymmetric_keys: key_set "staticAsymmetricKeys priv (pub @ k' # others)" "\<lambda>k k''. k = priv \<and> k'' = k'" "\<lambda>s t. True"
  by unfold_locales (auto simp: staticAsymmetricKeys_def)

lemma multi_Verify_jwks: "multi_Verify (map jwksKeys jwks) ret s = (Ok (ret @ concat (map (map jwk_key) jwks)), s)"
  by (induction jwks arbitrary: ret) (simp_all add: jwksKeys_def)

text \<open>A set extended with the public keys of others, as it is during a rotation.\<close>

lemma combined_key_set:
  assumes K: "key_set K counterpart (\<lambda>s t. True)" and static: "\<And>s. \<exists>ks. ks_Verify K s = (Ok ks, s)"
  shows "key_set (CombineKeys K (map jwksKeys jwks)) counterpart (\<lambda>s t. True)"
proof
  fix s s' t k assume "ks_Sign (CombineKeys K (map jwksKeys jwks)) s = (Ok k, s')"
  then have "ks_Sign K s = (Ok k, s')" by (simp add: CombineKeys_def)
  from key_set.sign_verify [OF K this, of t] obtain ks t' where "ks_Verify K t = (Ok ks, t')" and match: "\<exists>k' \<in> set ks. counterpart k k'"
    by blast
  then have ks: "ks_Verify K t = (Ok ks, t)" using static [of t] by auto
  with match multi_Verify_jwks [of jwks ks t] show "\<exists>ks t'. ks_Verify (CombineKeys K (map jwksKeys jwks)) t = (Ok ks, t') \<and> (\<exists>k' \<in> set ks. counterpart k k')"
    by (auto simp: CombineKeys_def)
qed

interpretation combined_keys: key_set "CombineKeys (staticSymmetricKeys k) (map jwksKeys jwks)" "\<lambda>k k'. k' = k" "\<lambda>s t. True"
  by (rule combined_key_set [OF symmetric_keys.key_set_axioms]) (simp add: staticSymmetricKeys_def)

section \<open>A small library\<close>

text \<open>
  A token is the 32 bytes of the key and the payload, and the state is the clock: an instance of
  the parameters, for the examples.
\<close>

definition sample_secret :: string where
  "sample_secret = ''0123456789abcdef0123456789abcdef''"

definition sample_key :: "string key" where
  "sample_key = \<lparr>k_key = Symmetric sample_secret, k_algo = ''HS256''\<rparr>"

definition sample_claims :: "unit user_claims" where
  "sample_claims = user_claims_at 5000000000 3600000000000 ''uuid'' ''ada'' ''ada@mail'' ()"

definition sample_jwt :: "(string, string \<times> string, unit, int) jwt_env" where
  "sample_jwt =
     \<lparr>jo_ParseSigned = (\<lambda>t algs. Ok (take 32 t, drop 32 t)), jo_KeyIDs = (\<lambda>tok. [''id'']),
      jo_verify = (\<lambda>tok k. if k = Symmetric (fst tok) \<or> (case k of JSONWebKey j \<Rightarrow> jwk_Key j = fst tok | _ \<Rightarrow> False)
        then None else Some ''bad signature''), jo_payload = snd,
      jo_NewSigner = (\<lambda>k. None),
      jo_Serialize = (\<lambda>k p. case k_key k of Symmetric d \<Rightarrow> if length d = 32 then Ok (d @ p) else Err ''bad key'' | _ \<Rightarrow> Err ''bad key''),
      js_encode = (\<lambda>c. if c = sample_claims then Ok ''claims'' else Err ''json''),
      js_user = (\<lambda>p. if p = ''claims'' then Ok sample_claims else Err ''json''),
      je_now = (\<lambda>s. s), je_uuid = (\<lambda>s. (Some ''uuid'', s)), je_zero = ()\<rparr>"

lemmas sample_jwt_simps = sample_jwt_def jwt_env.simps

lemma sample_signs: "signs_for sample_jwt sample_key sample_key"
  by (auto simp: signs_for_def sample_jwt_simps sample_key_def sample_secret_def)

lemma sample_codec: "claims_codec sample_jwt"
  by (simp add: claims_codec_def sample_jwt_simps)

lemma sample_token: "SignToken sample_jwt sample_key ''ada'' ''ada@mail'' () 3600000000000 5000000000 =
    (Ok (sample_secret @ ''claims''), 5000000000)"
  by (simp add: SignToken_def sample_jwt_simps sample_claims_def sample_key_def sample_secret_def)

lemma sample_accepted: "token_accepted sample_jwt sample_key (sample_secret @ ''claims'') 7000000000 sample_claims"
  by (simp add: token_accepted_def sample_jwt_simps sample_key_def sample_secret_def sample_claims_def user_claims_at_def
      NewNumericDate_def date_Time_def)

end
