(* ===== verification/AuthGate.thy ===== *)
theory AuthGate
  imports AuthKeys
begin

text \<open>
  The two gates in front of a service: the HTTP middleware (\<^verbatim>\<open>auth/middleware.go\<close>) and the
  gRPC interceptors (\<^verbatim>\<open>auth/grpcauth\<close>). Both read a bearer token, try the keys of the
  server on it, ask the authorizer, and call what they guard with the claims of the token.
\<close>

section \<open>Requests\<close>

text \<open>
  The headers have canonical keys; \<open>rq_media\<close> is what \<open>mime.ParseMediaType\<close> says of the
  content type, \<open>rq_Body\<close> what reading the body gives.
\<close>

record request =
  rq_Method :: string
  rq_RequestURI :: string
  rq_RawQuery :: string
  rq_Header :: form
  rq_media :: "string \<times> string option"
  rq_Body :: "(string, string) outcome"

type_synonym ('x, 's) authorizer = "'x user_claims \<Rightarrow> string \<Rightarrow> 's \<Rightarrow> (string, unit) outcome \<times> 's"

definition AuthorizeAll :: "('x, 's) authorizer" where
  "AuthorizeAll = (\<lambda>user resource s. (Ok (), s))"

datatype refusal =
  NoBearer string | KeysFailed string | NoVerifyKeys | BadToken string | NotAuthorized string | NoMetadata | NoAuthorization

section \<open>The middleware\<close>

text \<open>The loop over the keys, from the claims and the error the caller has before it.\<close>

fun verify_loop ::
  "('m, 'tok, 'x, 's) jwt_env \<Rightarrow> string \<Rightarrow> 's \<Rightarrow> 'm key list \<Rightarrow> (string, 'x user_claims) outcome \<Rightarrow>
   (string, 'x user_claims) outcome" where
  "verify_loop E token s [] r = r"
| "verify_loop E token s (k # ks) r =
     (case VerifyToken E k token s of Ok c \<Rightarrow> Ok c | Panic \<Rightarrow> Panic | Err e \<Rightarrow> verify_loop E token s ks (Err e))"

definition bearer_token :: "string \<Rightarrow> string option" where
  "bearer_token h = (if take 7 h = ''Bearer '' then Some (drop 7 h) else None)"

datatype 'r served = Served 'r | Refused nat refusal | Crashed

record ('m, 'tok, 'x, 's) middleware =
  mw_env :: "('m, 'tok, 'x, 's) jwt_env"
  mw_verifyKeys :: "('m, 's) keys"
  mw_authorizer :: "('x, 's) authorizer"

text \<open>\<open>None\<close> is the panic of a configuration without keys or authorizer.\<close>

definition WithMiddleware ::
  "('m, 'tok, 'x, 's) jwt_env \<Rightarrow> ('m, 's) keys option \<Rightarrow> ('x, 's) authorizer option \<Rightarrow> ('m, 'tok, 'x, 's) middleware option" where
  "WithMiddleware E verifyKeys authorizer =
     (case (verifyKeys, authorizer) of
        (Some K, Some A) \<Rightarrow> Some \<lparr>mw_env = E, mw_verifyKeys = K, mw_authorizer = A\<rparr>
      | _ \<Rightarrow> None)"

definition mw_ServeHTTP ::
  "('m, 'tok, 'x, 's) middleware \<Rightarrow> ('x user_claims \<Rightarrow> request \<Rightarrow> 's \<Rightarrow> 'r \<times> 's) \<Rightarrow> request \<Rightarrow> 's \<Rightarrow> 'r served \<times> 's" where
  "mw_ServeHTTP m next r s =
     (let header = values_Get (rq_Header r) ''Authorization'' in
      case bearer_token header of
        None \<Rightarrow> (Refused 403 (NoBearer header), s)
      | Some token \<Rightarrow>
          (case ks_Verify (mw_verifyKeys m) s of
             (Err e, s) \<Rightarrow> (Refused 500 (KeysFailed e), s)
           | (Panic, s) \<Rightarrow> (Crashed, s)
           | (Ok keys, s) \<Rightarrow>
               if keys = [] then (Refused 500 NoVerifyKeys, s)
               else (case verify_loop (mw_env m) token s keys (Ok (zero_claims (mw_env m))) of
                       Err e \<Rightarrow> (Refused 403 (BadToken e), s)
                     | Panic \<Rightarrow> (Crashed, s)
                     | Ok claims \<Rightarrow>
                         (case mw_authorizer m claims (rq_RequestURI r) s of
                            (Err e, s) \<Rightarrow> (Refused 403 (NotAuthorized e), s)
                          | (Panic, s) \<Rightarrow> (Crashed, s)
                          | (Ok _, s) \<Rightarrow> (case next claims r s of (res, s) \<Rightarrow> (Served res, s))))))"

section \<open>The interceptors\<close>

datatype code = InvalidArgument | PermissionDenied

definition authenticate ::
  "('m, 'tok, 'x, 's) jwt_env \<Rightarrow> ('m, 's) keys \<Rightarrow> ('x, 's) authorizer \<Rightarrow> form option \<Rightarrow> string \<Rightarrow> 's \<Rightarrow>
   (code \<times> refusal, 'x user_claims) outcome \<times> 's" where
  "authenticate E verifyKeys authorizer metadata method s =
     (case metadata of
        None \<Rightarrow> (Err (InvalidArgument, NoMetadata), s)
      | Some md \<Rightarrow>
          (case values_of md ''authorization'' of
             [] \<Rightarrow> (Err (InvalidArgument, NoAuthorization), s)
           | header # _ \<Rightarrow>
               if header = '''' then (Err (InvalidArgument, NoAuthorization), s)
               else (case bearer_token header of
                       None \<Rightarrow> (Err (PermissionDenied, NoBearer header), s)
                     | Some token \<Rightarrow>
                         (case ks_Verify verifyKeys s of
                            (Err e, s) \<Rightarrow> (Err (PermissionDenied, KeysFailed e), s)
                          | (Panic, s) \<Rightarrow> (Panic, s)
                          | (Ok keys, s) \<Rightarrow>
                              (case verify_loop E token s keys (Ok (zero_claims E)) of
                                 Err e \<Rightarrow> (Err (PermissionDenied, BadToken e), s)
                               | Panic \<Rightarrow> (Panic, s)
                               | Ok claims \<Rightarrow>
                                   (case authorizer claims method s of
                                      (Err e, s) \<Rightarrow> (Err (PermissionDenied, NotAuthorized e), s)
                                    | (Panic, s) \<Rightarrow> (Panic, s)
                                    | (Ok _, s) \<Rightarrow> (Ok claims, s)))))))"

definition Oauth2UnaryInterceptor ::
  "('m, 'tok, 'x, 's) jwt_env \<Rightarrow> ('m, 's) keys \<Rightarrow> ('x, 's) authorizer \<Rightarrow> form option \<Rightarrow> string \<Rightarrow>
   ('x user_claims \<Rightarrow> 's \<Rightarrow> 'r \<times> 's) \<Rightarrow> 's \<Rightarrow> (code \<times> refusal, 'r) outcome \<times> 's" where
  "Oauth2UnaryInterceptor E verifyKeys authorizer metadata method handler s =
     (case authenticate E verifyKeys authorizer metadata method s of
        (Ok claims, s) \<Rightarrow> (case handler claims s of (r, s) \<Rightarrow> (Ok r, s))
      | (Err e, s) \<Rightarrow> (Err e, s)
      | (Panic, s) \<Rightarrow> (Panic, s))"

text \<open>The stream whose context is replaced: every other method is that of the stream underneath.\<close>

record ('ctx, 'msg, 's) server_stream =
  st_Context :: 'ctx
  st_SendMsg :: "'msg \<Rightarrow> 's \<Rightarrow> string option \<times> 's"
  st_RecvMsg :: "'s \<Rightarrow> (string, 'msg) outcome \<times> 's"

definition contextServerStream :: "'d \<Rightarrow> ('ctx, 'msg, 's) server_stream \<Rightarrow> ('d, 'msg, 's) server_stream" where
  "contextServerStream ctx ss = \<lparr>st_Context = ctx, st_SendMsg = st_SendMsg ss, st_RecvMsg = st_RecvMsg ss\<rparr>"

definition Oauth2StreamInterceptor ::
  "('m, 'tok, 'x, 's) jwt_env \<Rightarrow> ('m, 's) keys \<Rightarrow> ('x, 's) authorizer \<Rightarrow> string \<Rightarrow> (form option, 'msg, 's) server_stream \<Rightarrow>
   (('x user_claims, 'msg, 's) server_stream \<Rightarrow> 's \<Rightarrow> 'r \<times> 's) \<Rightarrow> 's \<Rightarrow> (code \<times> refusal, 'r) outcome \<times> 's" where
  "Oauth2StreamInterceptor E verifyKeys authorizer method ss handler s =
     (case authenticate E verifyKeys authorizer (st_Context ss) method s of
        (Ok claims, s) \<Rightarrow> (case handler (contextServerStream claims ss) s of (r, s) \<Rightarrow> (Ok r, s))
      | (Err e, s) \<Rightarrow> (Err e, s)
      | (Panic, s) \<Rightarrow> (Panic, s))"

section \<open>The keys tried in turn\<close>

lemma token_accepted_unique: "token_accepted E k token now c \<Longrightarrow> token_accepted E k' token now c' \<Longrightarrow> c = c'"
  by (auto simp: token_accepted_def)

lemma verify_loop_some: "verify_loop E token s ks r = Ok c \<Longrightarrow> (\<exists>k \<in> set ks. token_accepted E k token (je_now E s) c) \<or> ks = [] \<and> r = Ok c"
proof (induction ks arbitrary: r)
  case (Cons k ks)
  show ?case
  proof (cases "VerifyToken E k token s")
    case (Ok c')
    then show ?thesis using Cons.prems VerifyToken_Ok [of E k token s c'] by auto
  next
    case (Err e)
    then show ?thesis using Cons.IH [of "Err e"] Cons.prems by auto
  qed (use Cons.prems in auto)
qed simp

text \<open>No library call that verifies a token panics.\<close>

definition jwt_total :: "('m, 'tok, 'x, 's) jwt_env \<Rightarrow> bool" where
  "jwt_total E \<longleftrightarrow> (\<forall>t algs. jo_ParseSigned E t algs \<noteq> Panic) \<and> (\<forall>p. js_user E p \<noteq> Panic)"

lemma VerifyToken_total: "jwt_total E \<Longrightarrow> VerifyToken E k token s \<noteq> Panic"
  by (auto simp: jwt_total_def VerifyToken_def outcome_simps split: option.splits)

lemma verify_loop_accepted:
  assumes "jwt_total E"
  shows "k \<in> set ks \<Longrightarrow> token_accepted E k token (je_now E s) c \<Longrightarrow> verify_loop E token s ks r = Ok c"
proof (induction ks arbitrary: r)
  case (Cons k' ks)
  show ?case
  proof (cases "VerifyToken E k' token s")
    case (Ok c')
    then have "c' = c" using VerifyToken_Ok token_accepted_unique Cons.prems(2) by metis
    then show ?thesis using Ok by simp
  next
    case (Err e)
    moreover from this have "k \<noteq> k'" using VerifyToken_Ok [of E k token s c] Cons.prems(2) by auto
    ultimately show ?thesis using Cons by simp
  qed (use VerifyToken_total [OF assms] in auto)
qed simp

lemma verify_loop_exact:
  "jwt_total E \<Longrightarrow> verify_loop E token s ks r = Ok c \<longleftrightarrow>
     (\<exists>k \<in> set ks. token_accepted E k token (je_now E s) c) \<or> ks = [] \<and> r = Ok c"
  using verify_loop_some verify_loop_accepted by fastforce

lemma verify_loop_total: "jwt_total E \<Longrightarrow> r \<noteq> Panic \<Longrightarrow> verify_loop E token s ks r \<noteq> Panic"
  by (induction ks arbitrary: r) (auto simp: VerifyToken_total split: outcome.splits)

lemma bearer_token_prefix: "bearer_token (''Bearer '' @ token) = Some token"
  by (simp add: bearer_token_def)

lemma bearer: "bearer_token h = Some token \<longleftrightarrow> h = ''Bearer '' @ token"
proof
  assume "bearer_token h = Some token"
  then have "take 7 h = ''Bearer ''" "drop 7 h = token" unfolding bearer_token_def by (metis option.distinct(1), metis option.distinct(1) option.inject)
  then show "h = ''Bearer '' @ token" by (metis append_take_drop_id)
qed (use bearer_token_prefix in blast)

lemma mw_served:
  assumes "WithMiddleware E (Some K) (Some A) = Some m" "jwt_total E"
  shows "mw_ServeHTTP m next r s = (Served res, s') \<longleftrightarrow>
      (\<exists>token ks s1 k c s2. values_Get (rq_Header r) ''Authorization'' = ''Bearer '' @ token \<and>
         ks_Verify K s = (Ok ks, s1) \<and> k \<in> set ks \<and> token_accepted E k token (je_now E s1) c \<and>
         A c (rq_RequestURI r) s1 = (Ok (), s2) \<and> next c r s2 = (res, s'))"
proof -
  have m: "mw_env m = E" "mw_verifyKeys m = K" "mw_authorizer m = A" using assms(1) by (auto simp: WithMiddleware_def)
  show ?thesis
  proof
    assume "mw_ServeHTTP m next r s = (Served res, s')"
    then obtain token ks s1 c s2 where "bearer_token (values_Get (rq_Header r) ''Authorization'') = Some token"
      "ks_Verify K s = (Ok ks, s1)" "ks \<noteq> []" "verify_loop E token s1 ks (Ok (zero_claims E)) = Ok c"
      "A c (rq_RequestURI r) s1 = (Ok (), s2)" "next c r s2 = (res, s')"
      by (auto simp: mw_ServeHTTP_def m Let_def split: option.splits prod.splits outcome.splits if_splits)
    then show "\<exists>token ks s1 k c s2. values_Get (rq_Header r) ''Authorization'' = ''Bearer '' @ token \<and>
         ks_Verify K s = (Ok ks, s1) \<and> k \<in> set ks \<and> token_accepted E k token (je_now E s1) c \<and>
         A c (rq_RequestURI r) s1 = (Ok (), s2) \<and> next c r s2 = (res, s')"
      unfolding bearer using verify_loop_some [of E token s1 ks "Ok (zero_claims E)" c] by blast
  next
    assume "\<exists>token ks s1 k c s2. values_Get (rq_Header r) ''Authorization'' = ''Bearer '' @ token \<and>
         ks_Verify K s = (Ok ks, s1) \<and> k \<in> set ks \<and> token_accepted E k token (je_now E s1) c \<and>
         A c (rq_RequestURI r) s1 = (Ok (), s2) \<and> next c r s2 = (res, s')"
    then obtain token ks s1 k c s2 where *: "bearer_token (values_Get (rq_Header r) ''Authorization'') = Some token"
      "ks_Verify K s = (Ok ks, s1)" "k \<in> set ks" "token_accepted E k token (je_now E s1) c"
      "A c (rq_RequestURI r) s1 = (Ok (), s2)" "next c r s2 = (res, s')"
      unfolding bearer by blast
    then have "verify_loop E token s1 ks (Ok (zero_claims E)) = Ok c" "ks \<noteq> []"
      using verify_loop_accepted [OF assms(2)] by auto
    with * show "mw_ServeHTTP m next r s = (Served res, s')" by (simp add: mw_ServeHTTP_def m)
  qed
qed

lemma mw_refused_codes: "mw_ServeHTTP m next r s = (Refused code why, s') \<Longrightarrow> code \<in> {403, 500}"
  by (auto simp: mw_ServeHTTP_def Let_def split: option.splits prod.splits outcome.splits if_splits)

section \<open>Properties\<close>

text \<open>
  C35 (middleware_serves_exactly).
  The middleware calls what it guards if and only if the request has a bearer token that one of the
  server's keys verifies and that has not expired, and the authorizer lets the user of that token at
  the resource; then it calls it with the claims of the token, and otherwise answers 403 or 500.
\<close>

theorem middleware_serves_exactly:
  assumes "WithMiddleware E (Some K) (Some A) = Some m" "jwt_total E"
  shows "(mw_ServeHTTP m next r s = (Served res, s') \<longleftrightarrow>
      (\<exists>token ks s1 k c s2. values_Get (rq_Header r) ''Authorization'' = ''Bearer '' @ token \<and>
         ks_Verify K s = (Ok ks, s1) \<and> k \<in> set ks \<and> token_accepted E k token (je_now E s1) c \<and>
         A c (rq_RequestURI r) s1 = (Ok (), s2) \<and> next c r s2 = (res, s'))) \<and>
    (\<forall>code why. mw_ServeHTTP m next r s = (Refused code why, s') \<longrightarrow> code \<in> {403, 500})"
  using mw_served [OF assms, of "next" r s res s'] mw_refused_codes [of m "next" r s] by blast

lemma authenticate_Ok: "authenticate E K A md method s = (Ok c, s2) \<longleftrightarrow>
    (\<exists>hs token rest ks s1. md = Some hs \<and> (\<exists>h. values_of hs ''authorization'' = h # rest \<and> bearer_token h = Some token) \<and>
       ks_Verify K s = (Ok ks, s1) \<and> verify_loop E token s1 ks (Ok (zero_claims E)) = Ok c \<and> A c method s1 = (Ok (), s2))"
proof -
  have "bearer_token [] = None" by (simp add: bearer_token_def)
  then show ?thesis
    by (auto simp: authenticate_def split: option.splits prod.splits outcome.splits if_splits list.splits)
qed

text \<open>
  C36 (grpc_serves_exactly).
  The interceptors call their handler under the same conditions, and in one more case: when the
  server has no keys to verify with, any text after the word Bearer passes as a token of the empty
  claims, and only the authorizer is left to refuse it. The middleware refuses that request.
\<close>

theorem grpc_serves_exactly:
  assumes "jwt_total E"
  shows "((\<exists>s'. Oauth2UnaryInterceptor E K A md method handler s = (Ok res, s')) \<longleftrightarrow>
      (\<exists>hs token rest ks s1 c s2. md = Some hs \<and> values_of hs ''authorization'' = (''Bearer '' @ token) # rest \<and>
         ks_Verify K s = (Ok ks, s1) \<and>
         ((\<exists>k \<in> set ks. token_accepted E k token (je_now E s1) c) \<or> ks = [] \<and> c = zero_claims E) \<and>
         A c method s1 = (Ok (), s2) \<and> fst (handler c s2) = res)) \<and>
    ((\<exists>s'. Oauth2StreamInterceptor E K A method ss stream_handler s = (Ok res, s')) \<longleftrightarrow>
      (\<exists>c s2. authenticate E K A (st_Context ss) method s = (Ok c, s2) \<and>
         fst (stream_handler (contextServerStream c ss) s2) = res))"
proof (rule conjI)
  have auth: "authenticate E K A md method s = (Ok c, s2) \<longleftrightarrow>
      (\<exists>hs token rest ks s1. md = Some hs \<and> (\<exists>h. values_of hs ''authorization'' = h # rest \<and> h = ''Bearer '' @ token) \<and>
         ks_Verify K s = (Ok ks, s1) \<and> verify_loop E token s1 ks (Ok (zero_claims E)) = Ok c \<and>
         A c method s1 = (Ok (), s2))" for md c s2
    unfolding bearer [symmetric] by (rule authenticate_Ok)
  show "(\<exists>s'. Oauth2UnaryInterceptor E K A md method handler s = (Ok res, s')) \<longleftrightarrow>
      (\<exists>hs token rest ks s1 c s2. md = Some hs \<and> values_of hs ''authorization'' = (''Bearer '' @ token) # rest \<and>
         ks_Verify K s = (Ok ks, s1) \<and>
         ((\<exists>k \<in> set ks. token_accepted E k token (je_now E s1) c) \<or> ks = [] \<and> c = zero_claims E) \<and>
         A c method s1 = (Ok (), s2) \<and> fst (handler c s2) = res)" (is "?served \<longleftrightarrow> ?spec")
  proof -
    have "?served \<longleftrightarrow> (\<exists>c s2. authenticate E K A md method s = (Ok c, s2) \<and> fst (handler c s2) = res)"
      unfolding Oauth2UnaryInterceptor_def by (cases "authenticate E K A md method s") (auto split: outcome.splits prod.splits)
    also have "\<dots> \<longleftrightarrow> ?spec" unfolding auth verify_loop_exact [OF assms] by blast
    finally show ?thesis .
  qed
  show "(\<exists>s'. Oauth2StreamInterceptor E K A method ss stream_handler s = (Ok res, s')) \<longleftrightarrow>
      (\<exists>c s2. authenticate E K A (st_Context ss) method s = (Ok c, s2) \<and>
         fst (stream_handler (contextServerStream c ss) s2) = res)"
    unfolding Oauth2StreamInterceptor_def
    by (cases "authenticate E K A (st_Context ss) method s") (auto split: outcome.splits prod.splits)
qed

lemma sample_total: "jwt_total sample_jwt"
  by (simp add: jwt_total_def sample_jwt_simps)

definition sample_request :: request where
  "sample_request = \<lparr>rq_Method = ''GET'', rq_RequestURI = ''/x'', rq_RawQuery = '''',
     rq_Header = [(''Authorization'', [''Bearer '' @ sample_secret @ ''claims''])], rq_media = ('''', None), rq_Body = Ok ''''\<rparr>"

definition sample_middleware :: "(string, string \<times> string, unit, int) middleware" where
  "sample_middleware = \<lparr>mw_env = sample_jwt, mw_verifyKeys = staticSymmetricKeys sample_key, mw_authorizer = AuthorizeAll\<rparr>"

theorem middleware_serves_exactly_witness:
  "mw_ServeHTTP sample_middleware (\<lambda>c r s. (us_UserID c, s)) sample_request 7000000000 = (Served ''ada'', 7000000000)"
proof -
  have m: "WithMiddleware sample_jwt (Some (staticSymmetricKeys sample_key)) (Some AuthorizeAll) = Some sample_middleware"
    by (simp add: WithMiddleware_def sample_middleware_def)
  have now: "je_now sample_jwt s = s" for s by (simp add: sample_jwt_simps)
  show ?thesis
    unfolding middleware_serves_exactly [OF m sample_total, of "\<lambda>c r s. (us_UserID c, s)" sample_request 7000000000
        "''ada''" 7000000000, THEN conjunct1]
    by (rule exI [of _ "sample_secret @ ''claims''"], rule exI [of _ "[sample_key]"], rule exI [of _ 7000000000],
        rule exI [of _ sample_key], rule exI [of _ sample_claims], rule exI [of _ 7000000000])
      (use sample_accepted in \<open>simp add: now staticSymmetricKeys_def AuthorizeAll_def sample_request_def values_Get_def
        values_of_def sample_claims_def user_claims_at_def\<close>)
qed

text \<open>A server whose keys have all been disabled.\<close>

theorem grpc_serves_exactly_witness:
  "\<exists>s'. Oauth2UnaryInterceptor sample_jwt (staticAsymmetricKeys sample_key []) AuthorizeAll
     (Some [(''authorization'', [''Bearer anything''])]) ''/svc/Get'' (\<lambda>c s. (us_UserID c, s)) 0 = (Ok '''', s')"
  unfolding grpc_serves_exactly [OF sample_total, THEN conjunct1]
  by (simp add: values_of_def staticAsymmetricKeys_def AuthorizeAll_def zero_claims_def)

section \<open>A token of the program at its own gate\<close>

context key_set
begin

text \<open>What was signed with a set of keys is admitted by the middleware over it, as long as it lasts.\<close>

lemma issued_token_admitted:
  assumes sign: "ks_Sign K s = (Ok k, s1)" "SignToken E k userID email extra expiry s2 = (Ok t, s3)"
    and lib: "\<And>k'. counterpart k k' \<Longrightarrow> signs_for E k k'" "claims_codec E" "jwt_total E"
    and m: "WithMiddleware E (Some K) (Some A) = Some m" and later: "later s1 s4"
    and header: "values_Get (rq_Header r) ''Authorization'' = ''Bearer '' @ t"
    and time: "je_now E (snd (ks_Verify K s4)) \<le> date_Time (NewNumericDate (je_now E s2 + sint expiry))"
    and auth: "\<And>c. us_UserID c = userID \<Longrightarrow> us_Email c = email \<Longrightarrow> us_Extra c = extra \<Longrightarrow>
      \<exists>s6. A c (rq_RequestURI r) (snd (ks_Verify K s4)) = (Ok (), s6)"
  shows "\<exists>c s6. us_UserID c = userID \<and> us_Email c = email \<and> us_Extra c = extra \<and>
    mw_ServeHTTP m next r s4 = (case next c r s6 of (res, s') \<Rightarrow> (Served res, s'))"
proof -
  obtain ks s5 k' where ks: "ks_Verify K s4 = (Ok ks, s5)" "k' \<in> set ks" "counterpart k k'"
    using sign_verify [OF sign(1) later] by blast
  obtain uuid where "\<And>now c. token_accepted E k' t now c \<longleftrightarrow>
      c = user_claims_at (je_now E s2) expiry uuid userID email extra \<and> now \<le> date_Time (NewNumericDate (je_now E s2 + sint expiry))"
    using SignToken_Ok [OF sign(2) lib(1) [OF ks(3)] lib(2)] by blast
  then have acc: "token_accepted E k' t (je_now E s5) (user_claims_at (je_now E s2) expiry uuid userID email extra)"
    using time ks(1) by simp
  define c where "c = user_claims_at (je_now E s2) expiry uuid userID email extra"
  have c: "us_UserID c = userID" "us_Email c = email" "us_Extra c = extra" by (simp_all add: c_def user_claims_at_def)
  from auth [OF this] ks(1) obtain s6 where "A c (rq_RequestURI r) s5 = (Ok (), s6)" by auto
  then have "mw_ServeHTTP m next r s4 = (case next c r s6 of (res, s') \<Rightarrow> (Served res, s'))"
    using m ks(1,2) verify_loop_accepted [OF lib(3) ks(2) acc]
    by (auto simp: WithMiddleware_def mw_ServeHTTP_def header bearer_token_prefix [simplified] c_def split: prod.splits)
  with c show ?thesis by blast
qed

end

end
