(* ===== verification/TokenHandler.thy ===== *)
theory TokenHandler
  imports AuthGate Retry
begin

text \<open>
  The handler that redeems OAuth2 tokens (\<^verbatim>\<open>auth/token_handler.go\<close>) and the validation
  of the ID tokens of providers (\<^verbatim>\<open>auth/provider_util.go\<close>). The transport, the JSON codecs,
  the secret store and the granter are parameters. What a function writes of the response is a list
  of events, and \<open>Err ()\<close> says that it has answered the request.
\<close>

section \<open>Responses\<close>

text \<open>The texts of the messages, without their formatting.\<close>

datatype form_problem = FormMedia string | FormTooLarge | FormBad form_error | QueryBad form_error

datatype message =
  MReadBody string | MParseForm form_problem | MMissingPKCE | MMissingRefresh | MMissingDevice | MUnsupportedGrant string
| MSecretMetadata string | MNoCertsURL | MNoRedeemURL | MAccessSecret string | MNoTokenURL string
| MOutbound string | MUpstream string | MUnmarshal string | MNoIDToken | MCerts string | MInvalidToken | MInvalidSubject
| MGrant string | MSignKey string | MSignToken string

record provider_error =
  pe_Error :: string
  pe_ErrorDescription :: string

record 'x redeem_response =
  rr_IDToken :: string
  rr_AccessToken :: string
  rr_ExpiresIn :: int
  rr_RefreshToken :: string
  rr_Scope :: string
  rr_TokenType :: string
  rr_Extra :: 'x

datatype 'x event = WriteHeader nat | WriteMessage message | WriteProviderError provider_error | WriteTokens "'x redeem_response"

text \<open>The status a client sees: the first header, or 200 if the body comes first.\<close>

fun status_of :: "'x event list \<Rightarrow> nat" where
  "status_of (WriteHeader n # ws) = n"
| "status_of ws = 200"

type_synonym ('x, 'a, 's) serving = "(unit, 'a) outcome \<times> 'x event list \<times> 's"

definition writeResponse :: "nat \<Rightarrow> message \<Rightarrow> 'x event list" where
  "writeResponse status m = [WriteHeader status, WriteMessage m]"

text \<open>Answering an error with a status and a message, and going on after a step that has not answered.\<close>

fun respond_err :: "(string \<Rightarrow> nat \<times> message) \<Rightarrow> (string, 'a) outcome \<times> 's \<Rightarrow> ('x, 'a, 's) serving" where
  "respond_err f (Ok a, s) = (Ok a, [], s)"
| "respond_err f (Err e, s) = (Err (), writeResponse (fst (f e)) (snd (f e)), s)"
| "respond_err f (Panic, s) = (Panic, [], s)"

fun and_serve :: "('x, 'a, 's) serving \<Rightarrow> ('a \<Rightarrow> 's \<Rightarrow> ('x, 'b, 's) serving) \<Rightarrow> ('x, 'b, 's) serving" where
  "and_serve (Ok a, ws, s) f = (case f a s of (r, ws', s') \<Rightarrow> (r, ws @ ws', s'))"
| "and_serve (Err u, ws, s) f = (Err u, ws, s)"
| "and_serve (Panic, ws, s) f = (Panic, ws, s)"

definition refuse :: "nat \<Rightarrow> message \<Rightarrow> 's \<Rightarrow> ('x, 'a, 's) serving" where
  "refuse status m s = (Err (), writeResponse status m, s)"

section \<open>The world of the handler\<close>

text \<open>
  An outbound request has what is left of its body to send; \<open>te_Do\<close> also says what is left of
  it afterwards, as a request that is sent again goes on reading the same body.
\<close>

record out_request =
  or_Method :: string
  or_URL :: string
  or_Header :: form
  or_Body :: string

record provider_claims =
  pc_Claims :: jwt_claims
  pc_Email :: string

record 's secret_store =
  ss_GetSecretMetadata :: "string \<Rightarrow> 's \<Rightarrow> (string, (string \<times> string) list) outcome \<times> 's"
  ss_AccessSecret :: "string \<Rightarrow> 's \<Rightarrow> (string, string) outcome \<times> 's"

text \<open>The errors of a granter: whether they wrap \<open>document.ErrNotFound\<close>, and their text.\<close>

type_synonym ('x, 's) granter = "string \<Rightarrow> provider_claims \<Rightarrow> 's \<Rightarrow> (bool \<times> string, 'x) outcome \<times> 's"

record ('m, 'tok, 'x, 's) token_env =
  te_jwt :: "('m, 'tok, 'x, 's) jwt_env"
  te_NewRequest :: "string \<Rightarrow> string \<Rightarrow> string option"
  te_Do :: "out_request \<Rightarrow> 's \<Rightarrow> (string, nat \<times> (string, string) outcome) outcome \<times> string \<times> 's"
  te_Get :: "string \<Rightarrow> 's \<Rightarrow> (string, nat \<times> (string, string) outcome) outcome \<times> 's"
  te_retry :: "(string, 's) retry_env"
  te_append :: "string option \<Rightarrow> string \<Rightarrow> string"
  te_redeem :: "string \<Rightarrow> (string, 'x redeem_response) outcome"
  te_perror :: "string \<Rightarrow> provider_error option"
  te_jwks :: "string \<Rightarrow> (string, 'm jwk list) outcome"
  te_provider :: "string \<Rightarrow> (string, provider_claims) outcome"
  te_Validate :: "string list \<Rightarrow> jwt_claims \<Rightarrow> int \<Rightarrow> string option"
  te_marshals :: "'x redeem_response \<Rightarrow> bool"

record ('m, 'x, 's) token_handler =
  th_secretStore :: "'s secret_store"
  th_signKey :: "('m, 's) keys"
  th_granter :: "('x, 's) granter"
  th_expiry :: int64

section \<open>Calling a provider\<close>

definition httpOutboundRetryStrategy :: strategy where
  "httpOutboundRetryStrategy = CombinedStrategy (LimitStrategy 10) [ExponentialStrategy 100000000 1000000000]"

text \<open>The attempts share variables, which are a second part of the state.\<close>

definition with_vars :: "(string, 's) retry_env \<Rightarrow> (string, 's \<times> 'v) retry_env" where
  "with_vars R = \<lparr>ctx_Err = (\<lambda>(s, v). ctx_Err R s), wait_for = (\<lambda>d (s, v). let (b, s') = wait_for R d s in (b, s', v))\<rparr>"

text \<open>\<open>Retry\<close> with this strategy returns, as \<open>http_retry_returns\<close> shows.\<close>

definition http_retry ::
  "('m, 'tok, 'x, 's) token_env \<Rightarrow> ('s \<times> 'v \<Rightarrow> (bool \<times> (string, unit) outcome) \<times> 's \<times> 'v) \<Rightarrow> 's \<times> 'v \<Rightarrow>
   (string, unit) outcome \<times> 's \<times> 'v" where
  "http_retry E fn w =
     (case Retry (te_append E) (with_vars (te_retry E)) httpOutboundRetryStrategy fn w of Some res \<Rightarrow> res | None \<Rightarrow> (Panic, w))"

text \<open>The variables: what is left of the outbound body, the body and the status of the response.\<close>

definition redeem_attempt ::
  "('m, 'tok, 'x, 's) token_env \<Rightarrow> out_request \<Rightarrow> 's \<times> string \<times> string \<times> nat \<Rightarrow>
   (bool \<times> (string, unit) outcome) \<times> 's \<times> string \<times> string \<times> nat" where
  "redeem_attempt E out = (\<lambda>(s, left, respBody, resStatus).
     (case te_Do E (out\<lparr>or_Body := left\<rparr>) s of
        (Err e, left, s) \<Rightarrow> ((True, Err e), s, left, respBody, resStatus)
      | (Panic, left, s) \<Rightarrow> ((False, Panic), s, left, respBody, resStatus)
      | (Ok (status, body), left, s) \<Rightarrow>
          if 500 \<le> status then ((True, Err (''response code '' @ show_nat status)), s, left, respBody, resStatus)
          else (case body of
                  Err e \<Rightarrow> ((True, Err (''read response body: '' @ e)), s, left, respBody, resStatus)
                | Panic \<Rightarrow> ((False, Panic), s, left, respBody, resStatus)
                | Ok data \<Rightarrow> ((False, Ok ()), s, left, data, status))))"

definition parseProviderError :: "('m, 'tok, 'x, 's) token_env \<Rightarrow> string \<Rightarrow> provider_error option" where
  "parseProviderError E body =
     (case te_perror E body of
        Some perr \<Rightarrow> if pe_Error perr = '''' then None else Some perr
      | None \<Rightarrow> None)"

definition writeProviderError :: "nat \<Rightarrow> provider_error \<Rightarrow> 'x event list" where
  "writeProviderError status perr = [WriteHeader status, WriteProviderError perr]"

text \<open>What the handler makes of the response of the provider.\<close>

definition read_redeem ::
  "('m, 'tok, 'x, 's) token_env \<Rightarrow> bool \<Rightarrow> string \<Rightarrow> nat \<Rightarrow> 's \<Rightarrow> ('x, 'x redeem_response, 's) serving" where
  "read_redeem E relay respBody resStatus s =
     and_serve (respond_err (\<lambda>e. (502, MUnmarshal e)) (te_redeem E respBody, s)) (\<lambda>ret s.
       if rr_IDToken ret \<noteq> '''' then (Ok ret, [], s)
       else (case (if relay \<and> 400 \<le> resStatus then parseProviderError E respBody else None) of
               Some perr \<Rightarrow> (Err (), writeProviderError resStatus perr, s)
             | None \<Rightarrow> refuse (if resStatus < 300 then 400 else resStatus) MNoIDToken s))"

definition fetchProviderToken ::
  "('m, 'tok, 'x, 's) token_env \<Rightarrow> request \<Rightarrow> string \<Rightarrow> string \<Rightarrow> bool \<Rightarrow> 's \<Rightarrow> ('x, 'x redeem_response, 's) serving" where
  "fetchProviderToken E inn redeemURL body relay s =
     (case te_NewRequest E (rq_Method inn) redeemURL of
        Some e \<Rightarrow> refuse 500 (MOutbound e) s
      | None \<Rightarrow>
          (let out = \<lparr>or_Method = rq_Method inn, or_URL = redeemURL,
                      or_Header = filter (\<lambda>(h, v). h \<noteq> ''Accept-Encoding'') (rq_Header inn), or_Body = body\<rparr>;
               (r, s, left, respBody, resStatus) = http_retry E (redeem_attempt E out) (s, body, '''', 0)
           in and_serve (respond_err (\<lambda>e. (502, MUpstream e)) (r, s)) (\<lambda>_ s. read_redeem E relay respBody resStatus s)))"

section \<open>Validating the ID token\<close>

definition certs_attempt ::
  "('m, 'tok, 'x, 's) token_env \<Rightarrow> string \<Rightarrow> 's \<times> string \<Rightarrow> (bool \<times> (string, unit) outcome) \<times> 's \<times> string" where
  "certs_attempt E certsURL = (\<lambda>(s, data).
     (case te_Get E certsURL s of
        (Err e, s) \<Rightarrow> ((True, Err (''get certs url: '' @ e)), s, data)
      | (Panic, s) \<Rightarrow> ((False, Panic), s, data)
      | (Ok (status, body), s) \<Rightarrow>
          if 500 \<le> status then ((True, Err (''status code: '' @ show_nat status)), s, data)
          else (case body of
                  Err e \<Rightarrow> ((True, Err (''read certs url body: '' @ e)), s, data)
                | Panic \<Rightarrow> ((False, Panic), s, data)
                | Ok data \<Rightarrow> ((False, Ok ()), s, data))))"

text \<open>The key of the last header that has one, and of those the first.\<close>

definition signing_key :: "'m jwk list \<Rightarrow> string list \<Rightarrow> 'm jwk option" where
  "signing_key jwks ids =
     foldl (\<lambda>found i. case filter (\<lambda>k. jwk_KeyID k = i) jwks of [] \<Rightarrow> found | k # _ \<Rightarrow> Some k) None ids"

definition ValidateProviderIDWithJWKS ::
  "('m, 'tok, 'x, 's) token_env \<Rightarrow> 'm jwk list \<Rightarrow> string \<Rightarrow> string \<Rightarrow> 's \<Rightarrow> provider_claims option" where
  "ValidateProviderIDWithJWKS E jwks clientID idToken s =
     (case jo_ParseSigned (te_jwt E) idToken validAlgorithms of
        Ok token \<Rightarrow>
          (case signing_key jwks (jo_KeyIDs (te_jwt E) token) of
             None \<Rightarrow> None
           | Some key \<Rightarrow>
               if jo_verify (te_jwt E) token (JSONWebKey key) \<noteq> None then None
               else (case te_provider E (jo_payload (te_jwt E) token) of
                       Ok claims \<Rightarrow>
                         if te_Validate E [clientID] (pc_Claims claims) (je_now (te_jwt E) s) \<noteq> None then None
                         else if date_Time (cl_Expiry (pc_Claims claims)) < je_now (te_jwt E) s then None
                         else Some claims
                     | _ \<Rightarrow> None))
      | _ \<Rightarrow> None)"

definition ValidateProviderIDWithCertsURL ::
  "('m, 'tok, 'x, 's) token_env \<Rightarrow> string \<Rightarrow> string \<Rightarrow> string \<Rightarrow> 's \<Rightarrow> (string, provider_claims option) outcome \<times> 's" where
  "ValidateProviderIDWithCertsURL E certsURL clientID idToken s =
     (let (r, s, data) = http_retry E (certs_attempt E certsURL) (s, '''') in
      (andThen r (\<lambda>_.
       andThen (mapErr (\<lambda>e. ''unmarshal certs url body: '' @ e) (te_jwks E data)) (\<lambda>keys.
       if keys = [] then Err ''certs endpoint returned no keys''
       else Ok (ValidateProviderIDWithJWKS E keys clientID idToken s))), s))"

definition validateProviderResponse ::
  "('m, 'tok, 'x, 's) token_env \<Rightarrow> string \<Rightarrow> string \<Rightarrow> 'x redeem_response \<Rightarrow> 's \<Rightarrow> ('x, provider_claims, 's) serving" where
  "validateProviderResponse E certsURL clientID providerResponse s =
     and_serve (respond_err (\<lambda>e. (502, MCerts e))
       (ValidateProviderIDWithCertsURL E certsURL clientID (rr_IDToken providerResponse) s)) (\<lambda>claims s.
     case claims of
       None \<Rightarrow> refuse 424 MInvalidToken s
     | Some claims \<Rightarrow> if cl_Subject (pc_Claims claims) = '''' then refuse 502 MInvalidSubject s else (Ok claims, [], s))"

section \<open>The request\<close>

text \<open>\<open>ParseForm\<close> of package net/http on a body that has been read.\<close>

definition parsePostForm :: "request \<Rightarrow> string \<Rightarrow> form \<times> form_problem option" where
  "parsePostForm inn body =
     (if rq_Method inn \<notin> {''POST'', ''PUT'', ''PATCH''} then ([], None)
      else (let (ct, bad) = rq_media inn in
            if ct \<noteq> ''application/x-www-form-urlencoded'' then ([], map_option FormMedia bad)
            else if 10485760 < length body then ([], Some FormTooLarge)
            else (let (v, err) = ParseQuery body
                  in (v, case bad of Some e \<Rightarrow> Some (FormMedia e) | None \<Rightarrow> map_option FormBad err))))"

definition ParseForm :: "request \<Rightarrow> string \<Rightarrow> form \<times> form_problem option" where
  "ParseForm inn body =
     (let (v, err) = parsePostForm inn body
      in (v, case err of Some e \<Rightarrow> Some e | None \<Rightarrow> map_option QueryBad (snd (ParseQuery (rq_RawQuery inn)))))"

definition grantTypeDeviceCode :: string where
  "grantTypeDeviceCode = ''urn:ietf:params:oauth:grant-type:device_code''"

definition check_grant :: "form \<Rightarrow> string \<Rightarrow> string \<Rightarrow> message option" where
  "check_grant v grantType clientID =
     (if grantType = ''authorization_code''
      then (if clientID = '''' \<or> values_Get v ''code_challenge'' = '''' \<or> values_Get v ''code_verifier'' = '''' then Some MMissingPKCE else None)
      else if grantType = ''refresh_token''
      then (if values_Get v ''refresh_token'' = '''' \<or> clientID = '''' then Some MMissingRefresh else None)
      else if grantType = grantTypeDeviceCode
      then (if values_Get v ''device_code'' = '''' \<or> clientID = '''' then Some MMissingDevice else None)
      else Some (MUnsupportedGrant grantType))"

text \<open>The form of the request, the grant and the client.\<close>

definition validateTokenRequest :: "request \<Rightarrow> (message, form \<times> string \<times> string) outcome" where
  "validateTokenRequest inn =
     andThen (mapErr MReadBody (rq_Body inn)) (\<lambda>body.
     case ParseForm inn body of
       (v, Some e) \<Rightarrow> Err (MParseForm e)
     | (v, None) \<Rightarrow>
         (let grantType = values_Get v ''grant_type''; clientID = values_Get v ''client_id''
          in case check_grant v grantType clientID of
               Some m \<Rightarrow> Err m
             | None \<Rightarrow> Ok (v, grantType, clientID)))"

section \<open>The client's secret\<close>

text \<open>The URLs and the secret. When the secret cannot be accessed the error is written, and the handler goes on.\<close>

record client_secret =
  cs_redeemURL :: string
  cs_tokenURL :: string
  cs_certsURL :: string
  cs_secret :: string

definition fetchSecret :: "'s secret_store \<Rightarrow> string \<Rightarrow> 's \<Rightarrow> ('x, client_secret, 's) serving" where
  "fetchSecret S clientID s =
     (let clientID = EncodeSecretID clientID in
      and_serve (respond_err (\<lambda>e. (400, MSecretMetadata e)) (ss_GetSecretMetadata S clientID s)) (\<lambda>metadata s.
      case map_of metadata ''certs_url'' of
        None \<Rightarrow> refuse 500 MNoCertsURL s
      | Some certsURL \<Rightarrow>
          (case map_of metadata ''redeem_url'' of
             None \<Rightarrow> refuse 500 MNoRedeemURL s
           | Some redeemURL \<Rightarrow>
               (let tokenURL = (case map_of metadata ''token_url'' of Some u \<Rightarrow> u | None \<Rightarrow> '''');
                    cs = (\<lambda>secret. \<lparr>cs_redeemURL = redeemURL, cs_tokenURL = tokenURL, cs_certsURL = certsURL, cs_secret = secret\<rparr>)
                in case ss_AccessSecret S clientID s of
                     (Ok secret, s) \<Rightarrow> (Ok (cs secret), [], s)
                   | (Err e, s) \<Rightarrow> (Ok (cs ''''), writeResponse 500 (MAccessSecret e), s)
                   | (Panic, s) \<Rightarrow> (Panic, [], s)))))"

definition validateClientSecret :: "'s secret_store \<Rightarrow> form \<Rightarrow> string \<Rightarrow> 's \<Rightarrow> ('x, string \<times> client_secret, 's) serving" where
  "validateClientSecret S v clientID s =
     and_serve (fetchSecret S clientID s) (\<lambda>cs s.
       (Ok (values_Encode (values_Add ''client_secret'' (cs_secret cs) v), cs), [], s))"

section \<open>The handler\<close>

text \<open>
  The seconds of the expiry are truncated; the code takes them through a 64-bit float, which gives the
  same number for expiries up to 97 days.
\<close>

definition granted :: "('x, 's) granter \<Rightarrow> string \<Rightarrow> provider_claims \<Rightarrow> 's \<Rightarrow> ('x, 'x, 's) serving" where
  "granted G clientID claims s =
     (case G clientID claims s of
        (Ok extra, s) \<Rightarrow> (Ok extra, [], s)
      | (Err (notFound, e), s) \<Rightarrow> refuse (if notFound then 417 else 500) (MGrant e) s
      | (Panic, s) \<Rightarrow> (Panic, [], s))"

definition writeRedeemTokenResponse ::
  "('m, 'tok, 'x, 's) token_env \<Rightarrow> ('m, 's) keys \<Rightarrow> string \<Rightarrow> int64 \<Rightarrow> 'x redeem_response \<Rightarrow> provider_claims \<Rightarrow> 'x \<Rightarrow> 's \<Rightarrow>
   ('x, unit, 's) serving" where
  "writeRedeemTokenResponse E signKey tokenURL expiry ret claims extra s =
     and_serve (respond_err (\<lambda>e. (500, MSignKey e)) (ks_Sign signKey s)) (\<lambda>key s.
     and_serve (respond_err (\<lambda>e. (500, MSignToken e))
       (SignToken (te_jwt E) key (cl_Subject (pc_Claims claims)) (pc_Email claims) extra expiry s)) (\<lambda>token s.
     (let ret = ret\<lparr>rr_ExpiresIn := quo (sint expiry) 1000000000, rr_AccessToken := token, rr_IDToken := '''', rr_Extra := extra,
                    rr_RefreshToken := (if tokenURL = '''' then '''' else rr_RefreshToken ret)\<rparr>
      in (Ok (), if te_marshals E ret then [WriteTokens ret] else [], s))))"

definition redeem_at :: "string \<Rightarrow> client_secret \<Rightarrow> (message, string) outcome" where
  "redeem_at grantType cs =
     (if grantType = ''refresh_token'' \<or> grantType = grantTypeDeviceCode
      then (if cs_tokenURL cs = '''' then Err (MNoTokenURL grantType) else Ok (cs_tokenURL cs))
      else Ok (cs_redeemURL cs))"

definition token_ServeHTTP ::
  "('m, 'tok, 'x, 's) token_env \<Rightarrow> ('m, 'x, 's) token_handler \<Rightarrow> request \<Rightarrow> 's \<Rightarrow> ('x, unit, 's) serving" where
  "token_ServeHTTP E H inn s =
     (case validateTokenRequest inn of
        Err m \<Rightarrow> refuse 400 m s
      | Panic \<Rightarrow> (Panic, [], s)
      | Ok (v, grantType, clientID) \<Rightarrow>
          and_serve (validateClientSecret (th_secretStore H) v clientID s) (\<lambda>(body, cs) s.
          case redeem_at grantType cs of
            Err m \<Rightarrow> refuse 500 m s
          | Panic \<Rightarrow> (Panic, [], s)
          | Ok redeemURL \<Rightarrow>
              and_serve (fetchProviderToken E inn redeemURL body
                  (grantType = grantTypeDeviceCode \<or> grantType = ''refresh_token'') s) (\<lambda>response s.
              and_serve (validateProviderResponse E (cs_certsURL cs) clientID response s) (\<lambda>claims s.
              and_serve (granted (th_granter H) clientID claims s) (\<lambda>extra s.
              writeRedeemTokenResponse E (th_signKey H) (cs_tokenURL cs) (th_expiry H) response claims extra s)))))"

text \<open>The store of a map of secrets that share their metadata.\<close>

fun metadata_pairs :: "string list \<Rightarrow> (string \<times> string) list" where
  "metadata_pairs [] = []"
| "metadata_pairs [k] = [(k, '''')]"
| "metadata_pairs (k # v # kvs) = metadata_pairs kvs @ [(k, v)]"

definition MapSecretStore :: "(string \<rightharpoonup> string) \<Rightarrow> string list \<Rightarrow> 's secret_store" where
  "MapSecretStore data metadata =
     \<lparr>ss_GetSecretMetadata = (\<lambda>i s. (Ok (metadata_pairs metadata), s)),
      ss_AccessSecret = (\<lambda>i s. (case data i of Some d \<Rightarrow> Ok d | None \<Rightarrow> Err ''secret not found'', s))\<rparr>"

section \<open>Retrying\<close>

lemma retry_loop_returns:
  assumes stops: "\<forall>c. limit \<le> c \<longrightarrow> snd (strat c)" and "n < limit"
  shows "retry_loop app R strat fn n result w \<noteq> None"
  using assms(2)
proof (induction "unat limit - unat n" arbitrary: n result w rule: less_induct)
  case less
  obtain b r w1 where fn: "fn w = ((b, r), w1)" by (metis surj_pair)
  show ?case
  proof (cases "\<exists>e. r = Err e \<and> ctx_Err R w1 = None \<and> b \<and> \<not> snd (strat (n + 1)) \<and> fst (wait_for R (fst (strat (n + 1))) w1)")
    case True
    then obtain e where e: "r = Err e" "ctx_Err R w1 = None" "b" "\<not> snd (strat (n + 1))" "fst (wait_for R (fst (strat (n + 1))) w1)"
      by blast
    have next_n: "n + 1 < limit" using stops e(4) by (metis linorder_not_le)
    have "unat (n + 1) = unat n + 1" using less(2)
      by (metis Suc_eq_plus1 add.commute add_eq_0_iff linorder_not_less next_n unatSuc word_n1_ge add.right_neutral word_not_simps(1))
    then have "unat limit - unat (n + 1) < unat limit - unat n" using less(2) by (simp add: word_less_nat_alt)
    from less(1) [OF this next_n, of "Some (app result e)" "snd (wait_for R (fst (strat (n + 1))) w1)"]
    show ?thesis using e fn by (subst retry_loop.simps) (simp add: Let_def split_beta)
  next
    case False
    then show ?thesis using fn
      by (subst retry_loop.simps) (auto simp: Let_def split_beta split: outcome.splits option.splits)
  qed
qed

lemma httpOutboundRetryStrategy_stops: "10 \<le> retries \<Longrightarrow> snd (httpOutboundRetryStrategy retries)"
  by (simp add: httpOutboundRetryStrategy_def CombinedStrategy_def LimitStrategy_def)

lemma http_retry_returns: "\<exists>res. Retry app R httpOutboundRetryStrategy fn w = Some res"
proof -
  have "\<forall>c. 10 \<le> c \<longrightarrow> snd (httpOutboundRetryStrategy c)" using httpOutboundRetryStrategy_stops by blast
  then have "retry_loop app R httpOutboundRetryStrategy fn 0 None w \<noteq> None" by (rule retry_loop_returns) simp
  then show ?thesis unfolding Retry_def by blast
qed

text \<open>What holds after a retried call that succeeded: \<open>I\<close> before each attempt, \<open>J\<close> after one that failed.\<close>

lemma http_retry_rule:
  assumes "http_retry E fn w = (Ok u, w')" "I w"
    and attempt: "\<And>w b r w1. I w \<Longrightarrow> fn w = ((b, r), w1) \<Longrightarrow> (r = Ok () \<longrightarrow> Q w1) \<and> (b \<longrightarrow> J w1)"
    and pause: "\<And>s v d s'. J (s, v) \<Longrightarrow> wait_for (te_retry E) d s = (True, s') \<Longrightarrow> I (s', v)"
  shows "Q w'"
proof -
  have "Retry (te_append E) (with_vars (te_retry E)) httpOutboundRetryStrategy fn w = Some (Ok u, w')"
    using assms(1) by (auto simp: http_retry_def split: option.splits)
  then have run: "retry_loop (te_append E) (with_vars (te_retry E)) httpOutboundRetryStrategy fn 0 None w = Some (Ok u, w')"
    by (simp add: Retry_def)
  have "is_ok (Ok u :: (string, unit) outcome) \<longrightarrow> Q w'"
  proof (rule retry_loop_rule [OF run, where I = I and J = J and Q = "\<lambda>ok w. ok \<longrightarrow> Q w"])
    show "I w" by (rule assms(2))
    show "(is_ok r \<longrightarrow> Q w1) \<and> (b \<longrightarrow> J w1)" if "I w" "fn w = ((b, r), w1)" for w b r w1
      using attempt [OF that] by (auto simp: is_ok_iff)
    show "if b then I w1 else False \<longrightarrow> Q w1" if "J w" "wait_for (with_vars (te_retry E)) d w = (b, w1)" for w d b w1
      using that pause by (cases w) (auto simp: with_vars_def Let_def split: prod.splits)
  qed
  then show ?thesis by simp
qed

section \<open>What is written\<close>

text \<open>The tokens a step writes.\<close>

definition tokens :: "'x event list \<Rightarrow> 'x redeem_response set" where
  "tokens ws = {t. WriteTokens t \<in> set ws}"

lemma tokens_simps [simp]:
  "tokens [] = {}" "tokens (writeResponse n m) = {}" "tokens (writeProviderError n p) = {}" "tokens [WriteTokens t] = {t}"
  "tokens (ws @ ws') = tokens ws \<union> tokens ws'"
  by (auto simp: tokens_def writeResponse_def writeProviderError_def)

lemma serving_cases:
  obtains (ok) a ws s where "m = (Ok a, ws, s)" | (err) ws s where "m = (Err (), ws, s)" | (crash) ws s where "m = (Panic, ws, s)"
proof -
  obtain r ws s where "m = (r, ws, s)" by (metis surj_pair)
  then show thesis using that by (cases r) auto
qed

lemma tokens_and_serve:
  assumes "t \<in> tokens (fst (snd (and_serve m f)))" "tokens (fst (snd m)) = {}"
  obtains a ws s where "m = (Ok a, ws, s)" "t \<in> tokens (fst (snd (f a s)))" "and_serve m f = (fst (f a s), ws @ fst (snd (f a s)), snd (snd (f a s)))"
  using assms by (cases m rule: serving_cases) (auto split: prod.splits)

lemma tokens_respond_err [simp]: "tokens (fst (snd (respond_err f m))) = {}"
proof -
  obtain r s where "m = (r, s)" by fastforce
  then show ?thesis by (cases r) auto
qed

lemma tokens_refuse [simp]: "tokens (fst (snd (refuse n m s))) = {}"
  by (simp add: refuse_def)

lemma and_serve_Ok:
  assumes "and_serve m f = (Ok b, ws, s')"
  obtains a ws1 s1 ws2 where "m = (Ok a, ws1, s1)" "f a s1 = (Ok b, ws2, s')" "ws = ws1 @ ws2"
  using assms by (cases m rule: serving_cases) (auto split: prod.splits)

lemma respond_err_Ok: "respond_err f m = (Ok a, ws, s) \<longleftrightarrow> m = (Ok a, s) \<and> ws = []"
proof -
  obtain r s where "m = (r, s)" by fastforce
  then show ?thesis by (cases r) (auto simp: writeResponse_def)
qed

lemma no_tokens_and_serve:
  "tokens (fst (snd m)) = {} \<Longrightarrow> (\<And>a s. tokens (fst (snd (f a s))) = {}) \<Longrightarrow> tokens (fst (snd (and_serve m f))) = {}"
proof -
  assume "tokens (fst (snd m)) = {}" and f: "\<And>a s. tokens (fst (snd (f a s))) = {}"
  then show "tokens (fst (snd (and_serve m f))) = {}"
  proof (cases m rule: serving_cases)
    case (ok a ws s)
    moreover obtain r2 ws2 s2 where "f a s = (r2, ws2, s2)" by (metis surj_pair)
    ultimately show ?thesis using \<open>tokens (fst (snd m)) = {}\<close> f [of a s] by simp
  qed auto
qed

lemma tokens_read_redeem [simp]: "tokens (fst (snd (read_redeem E relay b n s))) = {}"
  unfolding read_redeem_def by (rule no_tokens_and_serve) (auto split: option.splits)

lemma tokens_fetchProviderToken [simp]: "tokens (fst (snd (fetchProviderToken E inn u b relay s))) = {}"
  by (auto simp: fetchProviderToken_def Let_def no_tokens_and_serve split: option.splits prod.splits)

lemma tokens_validateProviderResponse [simp]: "tokens (fst (snd (validateProviderResponse E u c p s))) = {}"
  unfolding validateProviderResponse_def by (rule no_tokens_and_serve) (auto split: option.splits)

lemma tokens_fetchSecret [simp]: "tokens (fst (snd (fetchSecret S c s))) = {}"
  unfolding fetchSecret_def Let_def
  by (rule no_tokens_and_serve) (auto split: option.splits outcome.splits prod.splits)

lemma tokens_validateClientSecret [simp]: "tokens (fst (snd (validateClientSecret S v c s))) = {}"
  unfolding validateClientSecret_def by (rule no_tokens_and_serve) simp_all

lemma tokens_granted [simp]: "tokens (fst (snd (granted G c p s))) = {}"
proof -
  obtain r s1 where "G c p s = (r, s1)" by fastforce
  then show ?thesis by (cases r) (auto simp: granted_def refuse_def split: prod.splits)
qed

section \<open>What each step has established\<close>

text \<open>The specification of an ID token: a key the provider publishes under the name in its header verifies it, for this client, in time.\<close>

definition id_token_valid ::
  "('m, 'tok, 'x, 's) token_env \<Rightarrow> 'm jwk list \<Rightarrow> string \<Rightarrow> string \<Rightarrow> int \<Rightarrow> provider_claims \<Rightarrow> bool" where
  "id_token_valid E jwks clientID idToken now claims \<longleftrightarrow>
     (\<exists>tok. jo_ParseSigned (te_jwt E) idToken validAlgorithms = Ok tok \<and>
        (\<exists>key \<in> set jwks. jwk_KeyID key \<in> set (jo_KeyIDs (te_jwt E) tok) \<and> jo_verify (te_jwt E) tok (JSONWebKey key) = None) \<and>
        te_provider E (jo_payload (te_jwt E) tok) = Ok claims) \<and>
     te_Validate E [clientID] (pc_Claims claims) now = None \<and> now \<le> date_Time (cl_Expiry (pc_Claims claims))"

lemma signing_key_Some: "signing_key jwks ids = Some k \<Longrightarrow> k \<in> set jwks \<and> jwk_KeyID k \<in> set ids"
proof -
  have "foldl (\<lambda>found i. case filter (\<lambda>k. jwk_KeyID k = i) jwks of [] \<Rightarrow> found | k # _ \<Rightarrow> Some k) acc ids = Some k \<Longrightarrow>
      acc = Some k \<or> k \<in> set jwks \<and> jwk_KeyID k \<in> set ids" for acc
  proof (induction ids arbitrary: acc)
    case (Cons i ids)
    have first: "filter (\<lambda>k. jwk_KeyID k = i) jwks = x # xs \<Longrightarrow> x \<in> set jwks \<and> jwk_KeyID x = i" for x xs
      by (auto dest!: filter_eq_ConsD)
    show ?case
    proof (cases "filter (\<lambda>k. jwk_KeyID k = i) jwks")
      case Nil
      then show ?thesis using Cons.IH [of acc] Cons.prems by auto
    next
      case (Cons x xs)
      then show ?thesis using Cons.IH [of "Some x"] Cons.prems first [OF Cons] by auto
    qed
  qed simp
  then show "signing_key jwks ids = Some k \<Longrightarrow> k \<in> set jwks \<and> jwk_KeyID k \<in> set ids" by (auto simp: signing_key_def)
qed

lemma ValidateProviderIDWithJWKS_Some:
  assumes "ValidateProviderIDWithJWKS E jwks clientID idToken s = Some claims"
  shows "id_token_valid E jwks clientID idToken (je_now (te_jwt E) s) claims"
proof -
  obtain tok key where facts: "jo_ParseSigned (te_jwt E) idToken validAlgorithms = Ok tok"
    "signing_key jwks (jo_KeyIDs (te_jwt E) tok) = Some key" "jo_verify (te_jwt E) tok (JSONWebKey key) = None"
    "te_provider E (jo_payload (te_jwt E) tok) = Ok claims"
    "te_Validate E [clientID] (pc_Claims claims) (je_now (te_jwt E) s) = None"
    "je_now (te_jwt E) s \<le> date_Time (cl_Expiry (pc_Claims claims))"
    using assms by (auto simp: ValidateProviderIDWithJWKS_def split: outcome.splits option.splits if_splits)
  then show ?thesis using signing_key_Some [OF facts(2)] unfolding id_token_valid_def by blast
qed

text \<open>
  The calls of a run to a provider: \<open>gets\<close> and \<open>sends\<close> relate the state at the first call with the
  state before a later one, all calls in between having failed or answered 500 or more, with a pause
  after each; a request that is sent again has what is left of its body.
\<close>

fun usable :: "(string, nat \<times> (string, string) outcome) outcome \<Rightarrow> bool" where
  "usable (Ok (status, Ok data)) \<longleftrightarrow> status < 500"
| "usable r \<longleftrightarrow> False"

inductive gets :: "('m, 'tok, 'x, 's) token_env \<Rightarrow> string \<Rightarrow> 's \<Rightarrow> 's \<Rightarrow> bool" for E url s0 where
  get_first: "gets E url s0 s0"
| get_again: "gets E url s0 s \<Longrightarrow> te_Get E url s = (r, s') \<Longrightarrow> \<not> usable r \<Longrightarrow> wait_for (te_retry E) d s' = (True, s'') \<Longrightarrow>
    gets E url s0 s''"

inductive sends :: "('m, 'tok, 'x, 's) token_env \<Rightarrow> out_request \<Rightarrow> 's \<Rightarrow> 's \<Rightarrow> string \<Rightarrow> bool" for E out s0 where
  send_first: "sends E out s0 s0 (or_Body out)"
| send_again: "sends E out s0 s b \<Longrightarrow> te_Do E (out\<lparr>or_Body := b\<rparr>) s = (r, b', s') \<Longrightarrow> \<not> usable r \<Longrightarrow>
    wait_for (te_retry E) d s' = (True, s'') \<Longrightarrow> sends E out s0 s'' b'"

text \<open>The keys came from the URL, between the two states, with a status below 500.\<close>

definition served_keys :: "('m, 'tok, 'x, 's) token_env \<Rightarrow> string \<Rightarrow> 's \<Rightarrow> 's \<Rightarrow> 'm jwk list \<Rightarrow> bool" where
  "served_keys E url s s' jwks \<longleftrightarrow>
     (\<exists>s1 status data. gets E url s s1 \<and> te_Get E url s1 = (Ok (status, Ok data), s') \<and> status < 500 \<and>
        te_jwks E data = Ok jwks \<and> jwks \<noteq> [])"

lemma certs_retry_Ok:
  assumes "http_retry E (certs_attempt E url) (s, d0) = (Ok u, s', data)"
  shows "\<exists>s1 status. gets E url s s1 \<and> te_Get E url s1 = (Ok (status, Ok data), s') \<and> status < 500"
proof -
  define got where "got s' data \<longleftrightarrow> (\<exists>s1 status. gets E url s s1 \<and> te_Get E url s1 = (Ok (status, Ok data), s') \<and> status < 500)"
    for s' data
  define failed where "failed s2 \<longleftrightarrow> (\<exists>s1 r. gets E url s s1 \<and> te_Get E url s1 = (r, s2) \<and> \<not> usable r)" for s2
  have "case (s', data) of (s', data) \<Rightarrow> got s' data"
  proof (rule http_retry_rule [OF assms, where I = "\<lambda>(s1, d). gets E url s s1" and J = "\<lambda>(s2, d). failed s2"])
    fix w b r w1 assume "case w of (s1, d) \<Rightarrow> gets E url s s1" and run: "certs_attempt E url w = ((b, r), w1)"
    then obtain s1 d where w: "w = (s1, d)" "gets E url s s1" by (cases w) auto
    obtain q s2 where q: "te_Get E url s1 = (q, s2)" by fastforce
    have "\<not> usable q \<Longrightarrow> failed s2" "q = Ok (status, Ok data) \<Longrightarrow> status < 500 \<Longrightarrow> got s2 data" for status data
      unfolding failed_def got_def using w q by blast+
    then show "(r = Ok () \<longrightarrow> (case w1 of (s', data) \<Rightarrow> got s' data)) \<and> (b \<longrightarrow> (case w1 of (s2, d) \<Rightarrow> failed s2))"
      using run w q by (cases q rule: usable.cases) (auto simp: certs_attempt_def split: if_splits)
  qed (auto simp: failed_def intro: gets.intros)
  then show ?thesis by (simp add: got_def)
qed

lemma validateProviderResponse_Ok:
  assumes "validateProviderResponse E certsURL clientID p s = (Ok claims, ws, s')"
  obtains jwks where "served_keys E certsURL s s' jwks" "id_token_valid E jwks clientID (rr_IDToken p) (je_now (te_jwt E) s') claims"
    "cl_Subject (pc_Claims claims) \<noteq> ''''" "ws = []"
proof -
  from assms obtain oc s1 ws1 ws2 where val: "ValidateProviderIDWithCertsURL E certsURL clientID (rr_IDToken p) s = (Ok oc, s1)"
    and rest: "(case oc of None \<Rightarrow> refuse 424 MInvalidToken s1
      | Some c \<Rightarrow> if cl_Subject (pc_Claims c) = '''' then refuse 502 MInvalidSubject s1 else (Ok c, [], s1)) = (Ok claims, ws2, s')"
    and ws: "ws = ws1 @ ws2" "ws1 = []"
    unfolding validateProviderResponse_def by (elim and_serve_Ok) (auto simp: respond_err_Ok)
  have c: "oc = Some claims" "cl_Subject (pc_Claims claims) \<noteq> ''''" "s1 = s'" "ws2 = []"
    using rest by (auto simp: refuse_def split: option.splits if_splits)
  obtain r data where http: "http_retry E (certs_attempt E certsURL) (s, '''') = (r, s', data)" and "r = Ok ()"
    and jwks: "andThen (mapErr (\<lambda>e. ''unmarshal certs url body: '' @ e) (te_jwks E data)) (\<lambda>keys.
       if keys = [] then Err ''certs endpoint returned no keys''
       else Ok (ValidateProviderIDWithJWKS E keys clientID (rr_IDToken p) s')) = Ok (Some claims)"
    using val c by (auto simp: ValidateProviderIDWithCertsURL_def Let_def outcome_simps split: prod.splits)
  from jwks obtain keys where keys: "te_jwks E data = Ok keys" "keys \<noteq> []"
    "ValidateProviderIDWithJWKS E keys clientID (rr_IDToken p) s' = Some claims"
    by (auto simp: outcome_simps split: if_splits)
  have "served_keys E certsURL s s' keys"
    using certs_retry_Ok [OF http [unfolded \<open>r = Ok ()\<close>]] keys(1,2) unfolding served_keys_def by blast
  with that ValidateProviderIDWithJWKS_Some [OF keys(3)] c ws show thesis by auto
qed

text \<open>The response came to this request, between the two states, with a status below 500.\<close>

definition redeemed_at :: "('m, 'tok, 'x, 's) token_env \<Rightarrow> out_request \<Rightarrow> 's \<Rightarrow> 's \<Rightarrow> 'x redeem_response \<Rightarrow> bool" where
  "redeemed_at E out s s' p \<longleftrightarrow>
     (\<exists>s1 b left status data. sends E out s s1 b \<and> te_Do E (out\<lparr>or_Body := b\<rparr>) s1 = (Ok (status, Ok data), left, s') \<and>
        status < 500 \<and> te_redeem E data = Ok p) \<and> rr_IDToken p \<noteq> ''''"

text \<open>The request to the provider: the caller's headers but one, and the form with the secret added.\<close>

definition forwarded :: "request \<Rightarrow> string \<Rightarrow> string \<Rightarrow> out_request" where
  "forwarded inn url body = \<lparr>or_Method = rq_Method inn, or_URL = url,
     or_Header = filter (\<lambda>(h, v). h \<noteq> ''Accept-Encoding'') (rq_Header inn), or_Body = body\<rparr>"

lemma redeem_retry_Ok:
  assumes "http_retry E (redeem_attempt E out) (s, or_Body out, d0, n0) = (Ok u, s', left, data, status)"
  shows "\<exists>s1 b. sends E out s s1 b \<and> te_Do E (out\<lparr>or_Body := b\<rparr>) s1 = (Ok (status, Ok data), left, s') \<and> status < 500"
proof -
  define got where "got s' left data status \<longleftrightarrow>
      (\<exists>s1 b. sends E out s s1 b \<and> te_Do E (out\<lparr>or_Body := b\<rparr>) s1 = (Ok (status, Ok data), left, s') \<and> status < 500)"
    for s' left data status
  define failed where "failed s2 b' \<longleftrightarrow>
      (\<exists>s1 b r. sends E out s s1 b \<and> te_Do E (out\<lparr>or_Body := b\<rparr>) s1 = (r, b', s2) \<and> \<not> usable r)" for s2 b'
  have "case (s', left, data, status) of (s', left, data, status) \<Rightarrow> got s' left data status"
  proof (rule http_retry_rule [OF assms, where I = "\<lambda>(s1, b, d, n). sends E out s s1 b" and
        J = "\<lambda>(s2, b', d, n). failed s2 b'"])
    fix w c r w1 assume "case w of (s1, b, d, n) \<Rightarrow> sends E out s s1 b" and run: "redeem_attempt E out w = ((c, r), w1)"
    then obtain s1 b d n where w: "w = (s1, b, d, n)" "sends E out s s1 b" by (cases w) auto
    obtain q b' s2 where q: "te_Do E (out\<lparr>or_Body := b\<rparr>) s1 = (q, b', s2)" by (metis surj_pair)
    have "\<not> usable q \<Longrightarrow> failed s2 b'" "q = Ok (status, Ok data) \<Longrightarrow> status < 500 \<Longrightarrow> got s2 b' data status" for status data
      unfolding failed_def got_def using w q by blast+
    then show "(r = Ok () \<longrightarrow> (case w1 of (s', left, data, status) \<Rightarrow> got s' left data status)) \<and>
        (c \<longrightarrow> (case w1 of (s2, b', d, n) \<Rightarrow> failed s2 b'))"
      using run w q by (cases q rule: usable.cases) (auto simp: redeem_attempt_def split: if_splits)
  qed (auto simp: failed_def intro: sends.intros)
  then show ?thesis by (simp add: got_def)
qed

lemma fetchProviderToken_Ok:
  assumes "fetchProviderToken E inn url body relay s = (Ok p, ws, s')"
  shows "redeemed_at E (forwarded inn url body) s s' p" "ws = []"
proof -
  define out where "out = forwarded inn url body"
  obtain r s1 left respBody resStatus where res: "http_retry E (redeem_attempt E out) (s, body, '''', 0) = (r, s1, left, respBody, resStatus)"
    by (metis surj_pair)
  have serve: "and_serve (respond_err (\<lambda>e. (502, MUpstream e)) (r, s1)) (\<lambda>_ s. read_redeem E relay respBody resStatus s) = (Ok p, ws, s')"
    using assms by (auto simp: fetchProviderToken_def Let_def forwarded_def [symmetric] out_def [symmetric] res refuse_def split: option.splits)
  then obtain ws2 where r: "r = Ok ()" and read: "read_redeem E relay respBody resStatus s1 = (Ok p, ws2, s')" "ws = ws2"
    by (elim and_serve_Ok) (auto simp: respond_err_Ok)
  have p: "te_redeem E respBody = Ok p" "rr_IDToken p \<noteq> ''''" "ws2 = []" "s' = s1"
    using read(1) unfolding read_redeem_def
    by (elim and_serve_Ok; auto simp: respond_err_Ok refuse_def split: if_splits option.splits)+
  have "or_Body out = body" by (simp add: out_def forwarded_def)
  with res r have "http_retry E (redeem_attempt E out) (s, or_Body out, '''', 0) = (Ok (), s1, left, respBody, resStatus)" by simp
  from redeem_retry_Ok [OF this] show "redeemed_at E (forwarded inn url body) s s' p"
    using p(1,2,4) unfolding redeemed_at_def out_def by blast
  show "ws = []" using p(3) read(2) by simp
qed

lemma fetchSecret_Ok:
  assumes "fetchSecret S clientID s = (Ok cs, ws, s')"
  obtains metadata s1 where "ss_GetSecretMetadata S (EncodeSecretID clientID) s = (Ok metadata, s1)"
    "map_of metadata ''certs_url'' = Some (cs_certsURL cs)" "map_of metadata ''redeem_url'' = Some (cs_redeemURL cs)"
    "cs_tokenURL cs = (case map_of metadata ''token_url'' of Some u \<Rightarrow> u | None \<Rightarrow> '''')"
    "ss_AccessSecret S (EncodeSecretID clientID) s1 = (Ok (cs_secret cs), s') \<and> ws = [] \<or>
     (\<exists>e. ss_AccessSecret S (EncodeSecretID clientID) s1 = (Err e, s') \<and> cs_secret cs = '''' \<and> ws = writeResponse 500 (MAccessSecret e))"
proof -
  from assms obtain metadata s1 ws1 ws2 where md: "ss_GetSecretMetadata S (EncodeSecretID clientID) s = (Ok metadata, s1)"
    and rest: "(case map_of metadata ''certs_url'' of
        None \<Rightarrow> refuse 500 MNoCertsURL s1
      | Some certsURL \<Rightarrow>
          (case map_of metadata ''redeem_url'' of
             None \<Rightarrow> refuse 500 MNoRedeemURL s1
           | Some redeemURL \<Rightarrow>
               (let tokenURL = (case map_of metadata ''token_url'' of Some u \<Rightarrow> u | None \<Rightarrow> '''');
                    cs = (\<lambda>secret. \<lparr>cs_redeemURL = redeemURL, cs_tokenURL = tokenURL, cs_certsURL = certsURL, cs_secret = secret\<rparr>)
                in case ss_AccessSecret S (EncodeSecretID clientID) s1 of
                     (Ok secret, s) \<Rightarrow> (Ok (cs secret), [], s)
                   | (Err e, s) \<Rightarrow> (Ok (cs ''''), writeResponse 500 (MAccessSecret e), s)
                   | (Panic, s) \<Rightarrow> (Panic, [], s)))) = (Ok cs, ws2, s')"
    and ws: "ws = ws1 @ ws2" "ws1 = []"
    unfolding fetchSecret_def Let_def by (elim and_serve_Ok) (auto simp: respond_err_Ok)
  show thesis
    by (rule that [OF md])
      (use rest ws in \<open>auto simp: refuse_def Let_def split: option.splits outcome.splits prod.splits\<close>)
qed

text \<open>The form that is forwarded is the client's with the secret added.\<close>

lemma validateClientSecret_Ok:
  assumes "validateClientSecret S v clientID s = (Ok (body, cs), ws, s')"
  obtains ws1 where "fetchSecret S clientID s = (Ok cs, ws, s')" "body = values_Encode (values_Add ''client_secret'' (cs_secret cs) v)"
proof -
  from assms show thesis unfolding validateClientSecret_def by (elim and_serve_Ok) (use that in auto)
qed

lemma ParseForm_distinct: "distinct (map fst (fst (ParseForm inn body)))"
proof -
  obtain w err where "ParseQuery body = (w, err)" by fastforce
  then show ?thesis using ParseQuery_distinct [of body] by (simp add: ParseForm_def parsePostForm_def Let_def split: prod.splits)
qed

lemma validateTokenRequest_Ok:
  assumes "validateTokenRequest inn = Ok (v, grantType, clientID)"
  shows "distinct (map fst v)" "clientID \<noteq> ''''" "clientID = values_Get v ''client_id''" "grantType = values_Get v ''grant_type''"
    "check_grant v grantType clientID = None"
proof -
  obtain body where "rq_Body inn = Ok body" using assms by (cases "rq_Body inn") (auto simp: validateTokenRequest_def)
  moreover obtain w err where "ParseForm inn body = (w, err)" by fastforce
  ultimately have "ParseForm inn body = (v, None)" "check_grant v grantType clientID = None"
    "clientID = values_Get v ''client_id''" "grantType = values_Get v ''grant_type''"
    using assms by (auto simp: validateTokenRequest_def Let_def split: option.splits)
  then show "distinct (map fst v)" "clientID = values_Get v ''client_id''" "grantType = values_Get v ''grant_type''"
    "check_grant v grantType clientID = None"
    using ParseForm_distinct [of inn body] by auto
  then show "clientID \<noteq> ''''" by (auto simp: check_grant_def split: if_splits)
qed

lemma writeRedeem_tokens:
  assumes "t \<in> tokens (fst (snd (writeRedeemTokenResponse E K tokenURL expiry p claims extra s)))"
  obtains key s1 token s2 where "ks_Sign K s = (Ok key, s1)"
    "SignToken (te_jwt E) key (cl_Subject (pc_Claims claims)) (pc_Email claims) extra expiry s1 = (Ok token, s2)"
    "t = p\<lparr>rr_ExpiresIn := quo (sint expiry) 1000000000, rr_AccessToken := token, rr_IDToken := '''', rr_Extra := extra,
      rr_RefreshToken := (if tokenURL = '''' then '''' else rr_RefreshToken p)\<rparr>"
    "snd (snd (writeRedeemTokenResponse E K tokenURL expiry p claims extra s)) = s2"
    "fst (snd (writeRedeemTokenResponse E K tokenURL expiry p claims extra s)) = [WriteTokens t]"
proof -
  obtain r s1 where sign: "ks_Sign K s = (r, s1)" by fastforce
  then obtain key where key: "r = Ok key" using assms by (cases r) (auto simp: writeRedeemTokenResponse_def)
  obtain r' s2 where token: "SignToken (te_jwt E) key (cl_Subject (pc_Claims claims)) (pc_Email claims) extra expiry s1 = (r', s2)" by fastforce
  then obtain tk where "r' = Ok tk" using assms sign key by (cases r') (auto simp: writeRedeemTokenResponse_def)
  with sign key token assms that [of key s1 tk s2] show thesis
    by (auto simp: writeRedeemTokenResponse_def Let_def split: if_splits)
qed

section \<open>The run of the handler\<close>

text \<open>
  What has been established when tokens are written, along the states of the run: the secret accessed
  at \<open>s1\<close>, the grant sent to the provider from \<open>s5\<close> to \<open>s6\<close>, its keys fetched until
  \<open>s2\<close>, at whose time the ID token is validated and at which the granter is asked.
\<close>

definition issued ::
  "('m, 'tok, 'x, 's) token_env \<Rightarrow> ('m, 'x, 's) token_handler \<Rightarrow> request \<Rightarrow> 's \<Rightarrow> 's \<Rightarrow> 'x redeem_response \<Rightarrow>
   provider_claims \<Rightarrow> 'm key \<Rightarrow> 's \<Rightarrow> 'x event list \<Rightarrow> bool" where
  "issued E H inn s s' t claims key st ws \<longleftrightarrow>
     (\<exists>v grantType clientID (cs :: client_secret) metadata s1 s5 s6 p jwks s2 s3.
        validateTokenRequest inn = Ok (v, grantType, clientID) \<and>
        ss_GetSecretMetadata (th_secretStore H) (EncodeSecretID clientID) s = (Ok metadata, s1) \<and>
        map_of metadata ''certs_url'' = Some (cs_certsURL cs) \<and> map_of metadata ''redeem_url'' = Some (cs_redeemURL cs) \<and>
        cs_tokenURL cs = (case map_of metadata ''token_url'' of Some u \<Rightarrow> u | None \<Rightarrow> '''') \<and>
        (ss_AccessSecret (th_secretStore H) (EncodeSecretID clientID) s1 = (Ok (cs_secret cs), s5) \<and> ws = [WriteTokens t] \<or>
         (\<exists>e. ss_AccessSecret (th_secretStore H) (EncodeSecretID clientID) s1 = (Err e, s5) \<and> cs_secret cs = '''' \<and>
            ws = [WriteHeader 500, WriteMessage (MAccessSecret e), WriteTokens t])) \<and>
        redeemed_at E (forwarded inn (if grantType = ''authorization_code'' then cs_redeemURL cs else cs_tokenURL cs)
          (values_Encode (values_Add ''client_secret'' (cs_secret cs) v))) s5 s6 p \<and>
        served_keys E (cs_certsURL cs) s6 s2 jwks \<and>
        id_token_valid E jwks clientID (rr_IDToken p) (je_now (te_jwt E) s2) claims \<and> cl_Subject (pc_Claims claims) \<noteq> '''' \<and>
        th_granter H clientID claims s2 = (Ok (rr_Extra t), s3) \<and> ks_Sign (th_signKey H) s3 = (Ok key, st) \<and>
        SignToken (te_jwt E) key (cl_Subject (pc_Claims claims)) (pc_Email claims) (rr_Extra t) (th_expiry H) st = (Ok (rr_AccessToken t), s') \<and>
        t = p\<lparr>rr_ExpiresIn := quo (sint (th_expiry H)) 1000000000, rr_AccessToken := rr_AccessToken t, rr_IDToken := '''',
              rr_Extra := rr_Extra t, rr_RefreshToken := (if cs_tokenURL cs = '''' then '''' else rr_RefreshToken p)\<rparr>)"

lemma token_run:
  assumes run: "token_ServeHTTP E H inn s = (r, ws, s')" and t: "t \<in> tokens ws"
  shows "\<exists>claims key st. issued E H inn s s' t claims key st ws"
proof -
  have written: "t \<in> tokens (fst (snd (token_ServeHTTP E H inn s)))" using run t by simp
  obtain v grantType clientID where req: "validateTokenRequest inn = Ok (v, grantType, clientID)"
    using written by (cases "validateTokenRequest inn") (auto simp: token_ServeHTTP_def)
  define serve where "serve = (\<lambda>(body, cs) s. case redeem_at grantType cs of
      Err m \<Rightarrow> refuse 500 m s
    | Panic \<Rightarrow> (Panic, [], s)
    | Ok redeemURL \<Rightarrow>
        and_serve (fetchProviderToken E inn redeemURL body (grantType = grantTypeDeviceCode \<or> grantType = ''refresh_token'') s) (\<lambda>response s.
        and_serve (validateProviderResponse E (cs_certsURL cs) clientID response s) (\<lambda>claims s.
        and_serve (granted (th_granter H) clientID claims s) (\<lambda>extra s.
        writeRedeemTokenResponse E (th_signKey H) (cs_tokenURL cs) (th_expiry H) response claims extra s))))"
  have whole: "token_ServeHTTP E H inn s = and_serve (validateClientSecret (th_secretStore H) v clientID s) serve"
    by (simp add: token_ServeHTTP_def req serve_def)
  from written obtain bc ws1 s5 where sec: "validateClientSecret (th_secretStore H) v clientID s = (Ok bc, ws1, s5)"
    and t1: "t \<in> tokens (fst (snd (serve bc s5)))" and out1: "ws = ws1 @ fst (snd (serve bc s5))" "s' = snd (snd (serve bc s5))"
    unfolding whole by (rule tokens_and_serve) (use run whole in auto)
  obtain body cs where bc: "bc = (body, cs)" by fastforce
  obtain url where url: "redeem_at grantType cs = Ok url"
    using t1 by (cases "redeem_at grantType cs") (auto simp: serve_def bc)
  have rest: "serve bc s5 = and_serve (fetchProviderToken E inn url body (grantType = grantTypeDeviceCode \<or> grantType = ''refresh_token'') s5) (\<lambda>response s.
      and_serve (validateProviderResponse E (cs_certsURL cs) clientID response s) (\<lambda>claims s.
      and_serve (granted (th_granter H) clientID claims s) (\<lambda>extra s.
      writeRedeemTokenResponse E (th_signKey H) (cs_tokenURL cs) (th_expiry H) response claims extra s)))"
    by (simp add: serve_def bc url)
  from t1 [unfolded rest] obtain p ws2 s6 where fetch: "fetchProviderToken E inn url body (grantType = grantTypeDeviceCode \<or> grantType = ''refresh_token'') s5 = (Ok p, ws2, s6)"
    and t2: "t \<in> tokens (fst (snd (and_serve (validateProviderResponse E (cs_certsURL cs) clientID p s6) (\<lambda>claims s.
        and_serve (granted (th_granter H) clientID claims s) (\<lambda>extra s.
        writeRedeemTokenResponse E (th_signKey H) (cs_tokenURL cs) (th_expiry H) p claims extra s)))))"
    by (rule tokens_and_serve) auto
  from t2 obtain claims ws3 s7 where val: "validateProviderResponse E (cs_certsURL cs) clientID p s6 = (Ok claims, ws3, s7)"
    and t3: "t \<in> tokens (fst (snd (and_serve (granted (th_granter H) clientID claims s7) (\<lambda>extra s.
        writeRedeemTokenResponse E (th_signKey H) (cs_tokenURL cs) (th_expiry H) p claims extra s))))"
    by (rule tokens_and_serve) auto
  from t3 obtain extra ws4 s8 where grant: "granted (th_granter H) clientID claims s7 = (Ok extra, ws4, s8)"
    and t4: "t \<in> tokens (fst (snd (writeRedeemTokenResponse E (th_signKey H) (cs_tokenURL cs) (th_expiry H) p claims extra s8)))"
    by (rule tokens_and_serve) auto
  obtain key s9 token s10 where sign: "ks_Sign (th_signKey H) s8 = (Ok key, s9)"
    "SignToken (te_jwt E) key (cl_Subject (pc_Claims claims)) (pc_Email claims) extra (th_expiry H) s9 = (Ok token, s10)"
    "t = p\<lparr>rr_ExpiresIn := quo (sint (th_expiry H)) 1000000000, rr_AccessToken := token, rr_IDToken := '''', rr_Extra := extra,
      rr_RefreshToken := (if cs_tokenURL cs = '''' then '''' else rr_RefreshToken p)\<rparr>"
    "snd (snd (writeRedeemTokenResponse E (th_signKey H) (cs_tokenURL cs) (th_expiry H) p claims extra s8)) = s10"
    "fst (snd (writeRedeemTokenResponse E (th_signKey H) (cs_tokenURL cs) (th_expiry H) p claims extra s8)) = [WriteTokens t]"
    using t4 by (rule writeRedeem_tokens)
  have g: "th_granter H clientID claims s7 = (Ok extra, s8)" "ws4 = []"
    using grant by (auto simp: granted_def refuse_def split: outcome.splits prod.splits)
  obtain jwks where keys: "served_keys E (cs_certsURL cs) s6 s7 jwks" "id_token_valid E jwks clientID (rr_IDToken p) (je_now (te_jwt E) s7) claims"
    "cl_Subject (pc_Claims claims) \<noteq> ''''" "ws3 = []"
    using val by (rule validateProviderResponse_Ok)
  note prov = fetchProviderToken_Ok [OF fetch]
  obtain rw where "writeRedeemTokenResponse E (th_signKey H) (cs_tokenURL cs) (th_expiry H) p claims extra s8 = (rw, [WriteTokens t], s10)"
    using sign(4,5) by (metis prod.collapse)
  then have "serve bc s5 = (rw, [WriteTokens t], s10)" using fetch val grant g(2) keys(4) prov(2) by (simp add: rest)
  then have out: "ws = ws1 @ [WriteTokens t]" "s' = s10" using out1 by auto
  obtain f: "fetchSecret (th_secretStore H) clientID s = (Ok cs, ws1, s5)"
    and body: "body = values_Encode (values_Add ''client_secret'' (cs_secret cs) v)"
    using sec bc by (auto elim: validateClientSecret_Ok)
  show ?thesis
  proof (rule fetchSecret_Ok [OF f])
    fix metadata s1
    assume md: "ss_GetSecretMetadata (th_secretStore H) (EncodeSecretID clientID) s = (Ok metadata, s1)"
      "map_of metadata ''certs_url'' = Some (cs_certsURL cs)" "map_of metadata ''redeem_url'' = Some (cs_redeemURL cs)"
      "cs_tokenURL cs = (case map_of metadata ''token_url'' of Some u \<Rightarrow> u | None \<Rightarrow> '''')"
      and access: "ss_AccessSecret (th_secretStore H) (EncodeSecretID clientID) s1 = (Ok (cs_secret cs), s5) \<and> ws1 = [] \<or>
        (\<exists>e. ss_AccessSecret (th_secretStore H) (EncodeSecretID clientID) s1 = (Err e, s5) \<and> cs_secret cs = '''' \<and>
          ws1 = writeResponse 500 (MAccessSecret e))"
    have "check_grant v grantType clientID = None" using validateTokenRequest_Ok [OF req] by blast
    then have "url = (if grantType = ''authorization_code'' then cs_redeemURL cs else cs_tokenURL cs)"
      using url by (auto simp: redeem_at_def check_grant_def grantTypeDeviceCode_def split: if_splits)
    then have "redeemed_at E (forwarded inn (if grantType = ''authorization_code'' then cs_redeemURL cs else cs_tokenURL cs)
        (values_Encode (values_Add ''client_secret'' (cs_secret cs) v))) s5 s6 p"
      using prov(1) unfolding body by simp
    moreover have fields: "rr_Extra t = extra" "rr_AccessToken t = token" by (simp_all add: sign(3))
    moreover have "th_granter H clientID claims s7 = (Ok (rr_Extra t), s8)" unfolding fields by (rule g(1))
    moreover have "SignToken (te_jwt E) key (cl_Subject (pc_Claims claims)) (pc_Email claims) (rr_Extra t) (th_expiry H) s9 = (Ok (rr_AccessToken t), s')"
      unfolding fields out(2) by (rule sign(2))
    moreover have "t = p\<lparr>rr_ExpiresIn := quo (sint (th_expiry H)) 1000000000, rr_AccessToken := rr_AccessToken t, rr_IDToken := '''',
        rr_Extra := rr_Extra t, rr_RefreshToken := (if cs_tokenURL cs = '''' then '''' else rr_RefreshToken p)\<rparr>"
      unfolding fields by (rule sign(3))
    moreover have "ss_AccessSecret (th_secretStore H) (EncodeSecretID clientID) s1 = (Ok (cs_secret cs), s5) \<and> ws = [WriteTokens t] \<or>
         (\<exists>e. ss_AccessSecret (th_secretStore H) (EncodeSecretID clientID) s1 = (Err e, s5) \<and> cs_secret cs = '''' \<and>
            ws = [WriteHeader 500, WriteMessage (MAccessSecret e), WriteTokens t])"
      using access out(1) by (auto simp: writeResponse_def)
    note established = calculation this
    have "issued E H inn s s' t claims key s9 ws"
      unfolding issued_def
      by (rule exI [of _ v], rule exI [of _ grantType], rule exI [of _ clientID], rule exI [of _ cs], rule exI [of _ metadata], rule exI [of _ s1], rule exI [of _ s5], rule exI [of _ s6], rule exI [of _ p], rule exI [of _ jwks], rule exI [of _ s7], rule exI [of _ s8],
        intro conjI; (fact established | fact req | fact md | fact keys | fact sign(1) | simp))
    then show ?thesis by blast
  qed
qed

section \<open>Properties\<close>

text \<open>
  C37 (tokens_only_for_verified_users).
  Tokens are written only for a user that the provider of the client has vouched for in this run: the
  request was a valid grant of that client, the client has a secret with the provider's URLs, the
  provider answered the form of this request with the client's secret added, sent to its URL, with an ID
  token, a key it then served verifies that token for this client, in time by the clock at that moment,
  the subject is not empty, and the granter has granted the extra claims to it.
  The response has an access token signed by the program for that subject, never the ID token, and
  no refresh token unless the client has a token URL. It is the only answer, unless the secret could
  not be accessed: then the same tokens follow a 500.
\<close>

theorem tokens_only_for_verified_users:
  assumes "token_ServeHTTP E H inn s = (r, ws, s')" "WriteTokens t \<in> set ws"
  shows "\<exists>claims key st. issued E H inn s s' t claims key st ws"
  using token_run [OF assms(1)] assms(2) by (simp add: tokens_def)

text \<open>
  Where the middleware verifies with the key that the handler signs with, possibly among the public
  keys of others, the access token of a response admits its user: until the expiry, in whole seconds,
  what is guarded is called with the subject and the mail of the provider and the claims of the
  granter; after it the request is refused.
\<close>

theorem issued_token_admits_user:
  fixes E :: "('m, 'tok, 'x, 's) token_env"
  assumes run: "token_ServeHTTP E H inn s = (r, ws, s')" "WriteTokens t \<in> set ws"
    and keys: "th_signKey H = staticSymmetricKeys k" "signs_for (te_jwt E) k k" "claims_codec (te_jwt E)" "jwt_total (te_jwt E)"
    and m: "WithMiddleware (te_jwt E) (Some (CombineKeys (staticSymmetricKeys k) (map jwksKeys jwks))) (Some A) = Some m"
    and header: "values_Get (rq_Header q) ''Authorization'' = ''Bearer '' @ rr_AccessToken t"
    and auth: "\<forall>c s. us_Extra c = rr_Extra t \<longrightarrow> (\<exists>s6. A c (rq_RequestURI q) s = (Ok (), s6))"
  shows "\<exists>claims st. issued E H inn s s' t claims k st ws \<and>
    (\<forall>s4. je_now (te_jwt E) s4 \<le> date_Time (NewNumericDate (je_now (te_jwt E) st + sint (th_expiry H))) \<longrightarrow>
      (\<exists>c s6. us_UserID c = cl_Subject (pc_Claims claims) \<and> us_Email c = pc_Email claims \<and> us_Extra c = rr_Extra t \<and>
         mw_ServeHTTP m next q s4 = (case next c q s6 of (res, s') \<Rightarrow> (Served res, s')))) \<and>
    (\<forall>s4. date_Time (NewNumericDate (je_now (te_jwt E) st + sint (th_expiry H))) < je_now (te_jwt E) s4 \<longrightarrow>
      (\<exists>why. mw_ServeHTTP m next q s4 = (Refused 403 why, s4)))"
proof -
  have "t \<in> tokens ws" using run(2) by (simp add: tokens_def)
  from token_run [OF run(1) this] obtain claims key st where iss: "issued E H inn s s' t claims key st ws" by blast
  then obtain s3 where "ks_Sign (th_signKey H) s3 = (Ok key, st)" and
    sign2: "SignToken (te_jwt E) key (cl_Subject (pc_Claims claims)) (pc_Email claims) (rr_Extra t) (th_expiry H) st = (Ok (rr_AccessToken t), s')"
    unfolding issued_def by (elim exE conjE) (rule that)
  then have sign: "ks_Sign (staticSymmetricKeys k) s3 = (Ok key, st)"
    "SignToken (te_jwt E) key (cl_Subject (pc_Claims claims)) (pc_Email claims) (rr_Extra t) (th_expiry H) st = (Ok (rr_AccessToken t), s')"
    using keys(1) by simp_all
  have key: "key = k" using sign(1) by (simp add: staticSymmetricKeys_def)
  have sign': "ks_Sign (CombineKeys (staticSymmetricKeys k) (map jwksKeys jwks)) s3 = (Ok k, st)"
    using sign(1) key by (simp add: CombineKeys_def)
  define more where "more = concat (map (map jwk_key) jwks)"
  have ver: "ks_Verify (CombineKeys (staticSymmetricKeys k) (map jwksKeys jwks)) s = (Ok (k # more), s)" for s :: 's
    by (simp add: CombineKeys_def staticSymmetricKeys_def multi_Verify_jwks more_def)
  obtain uuid where acc: "\<And>now c. token_accepted (te_jwt E) k (rr_AccessToken t) now c \<longleftrightarrow>
       c = user_claims_at (je_now (te_jwt E) st) (th_expiry H) uuid (cl_Subject (pc_Claims claims)) (pc_Email claims) (rr_Extra t) \<and>
       now \<le> date_Time (NewNumericDate (je_now (te_jwt E) st + sint (th_expiry H)))"
    by (rule SignToken_Ok [OF sign(2) [unfolded key] keys(2,3)]) (rule that)

  have admitted: "\<exists>c s6. us_UserID c = cl_Subject (pc_Claims claims) \<and> us_Email c = pc_Email claims \<and> us_Extra c = rr_Extra t \<and>
         mw_ServeHTTP m next q s4 = (case next c q s6 of (res, s') \<Rightarrow> (Served res, s'))"
    if "je_now (te_jwt E) s4 \<le> date_Time (NewNumericDate (je_now (te_jwt E) st + sint (th_expiry H)))" for s4
    by (rule combined_keys.issued_token_admitted [OF sign' sign(2) [unfolded key] _ keys(3,4) m _ header])
      (use that ver keys(2) auth in auto)
  have refused: "\<exists>why. mw_ServeHTTP m next q s4 = (Refused 403 why, s4)"
    if late: "date_Time (NewNumericDate (je_now (te_jwt E) st + sint (th_expiry H))) < je_now (te_jwt E) s4" for s4
  proof -
    let ?c = "user_claims_at (je_now (te_jwt E) st) (th_expiry H) uuid (cl_Subject (pc_Claims claims)) (pc_Email claims) (rr_Extra t)"
    have "token_accepted (te_jwt E) k (rr_AccessToken t) (date_Time (NewNumericDate (je_now (te_jwt E) st + sint (th_expiry H)))) ?c"
      unfolding acc by simp
    then have "token_accepted (te_jwt E) k' (rr_AccessToken t) now c \<Longrightarrow> c = ?c \<and> now \<le> date_Time (cl_Expiry (us_Claims ?c))" for k' now c
      by (auto simp: token_accepted_def)
    moreover have "cl_Expiry (us_Claims ?c) = NewNumericDate (je_now (te_jwt E) st + sint (th_expiry H))" by (simp add: user_claims_at_def)
    ultimately have "\<not> token_accepted (te_jwt E) k' (rr_AccessToken t) (je_now (te_jwt E) s4) c" for k' c
      using late by (metis linorder_not_le)
    then have "verify_loop (te_jwt E) (rr_AccessToken t) s4 (k # more) (Ok (zero_claims (te_jwt E))) \<noteq> Ok c" for c
      using verify_loop_some [of "te_jwt E" "rr_AccessToken t" s4 "k # more" "Ok (zero_claims (te_jwt E))" c] by blast
    moreover have "verify_loop (te_jwt E) (rr_AccessToken t) s4 (k # more) (Ok (zero_claims (te_jwt E))) \<noteq> Panic"
      by (rule verify_loop_total [OF keys(4)]) simp
    ultimately obtain e where "verify_loop (te_jwt E) (rr_AccessToken t) s4 (k # more) (Ok (zero_claims (te_jwt E))) = Err e"
      by (metis outcome.exhaust)
    then show ?thesis using m ver header
      by (auto simp: WithMiddleware_def mw_ServeHTTP_def bearer_token_prefix [simplified])
  qed
  show ?thesis using iss key admitted refused by blast
qed

section \<open>A run\<close>

lemma http_retry_first: "fn w = ((b, Ok ()), w') \<Longrightarrow> http_retry E fn w = (Ok (), w')"
  by (simp add: http_retry_def Retry_def retry_loop.simps)

definition sample_response :: "unit redeem_response" where
  "sample_response = \<lparr>rr_IDToken = sample_secret @ ''google'', rr_AccessToken = ''theirs'', rr_ExpiresIn = 10, rr_RefreshToken = ''r'',
     rr_Scope = ''email'', rr_TokenType = ''Bearer'', rr_Extra = ()\<rparr>"

definition sample_user :: provider_claims where
  "sample_user = \<lparr>pc_Claims = \<lparr>cl_Issuer = ''google'', cl_Subject = ''ada'', cl_Audience = [''app''], cl_Expiry = Some 100,
     cl_NotBefore = None, cl_IssuedAt = None, cl_ID = ''1''\<rparr>, pc_Email = ''ada@mail''\<rparr>"

definition sample_te :: "(string, string \<times> string, unit, int) token_env" where
  "sample_te =
     \<lparr>te_jwt = sample_jwt, te_NewRequest = (\<lambda>m u. None), te_Do = (\<lambda>out s. (Ok (200, Ok ''redeemed''), '''', s)),
      te_Get = (\<lambda>u s. (Ok (200, Ok ''certs''), s)),
      te_retry = \<lparr>ctx_Err = (\<lambda>s. None), wait_for = (\<lambda>d s. (True, s))\<rparr>, te_append = (\<lambda>r e. e),
      te_redeem = (\<lambda>b. Ok sample_response), te_perror = (\<lambda>b. None),
      te_jwks = (\<lambda>b. Ok [Jwk ''id'' ''RS256'' True sample_secret]),
      te_provider = (\<lambda>p. if p = ''google'' then Ok sample_user else Err ''json''),
      te_Validate = (\<lambda>auds c now. if set auds \<inter> set (cl_Audience c) = {} then Some ''audience'' else None), te_marshals = (\<lambda>r. True)\<rparr>"

definition sample_metadata :: "string list" where
  "sample_metadata = [''certs_url'', ''https://certs'', ''redeem_url'', ''https://redeem'']"

text \<open>A handler over a map of secrets; without the client's secret in it, accessing the secret fails.\<close>

definition sample_handler :: "(string \<rightharpoonup> string) \<Rightarrow> (string, unit, int) token_handler" where
  "sample_handler secrets =
     \<lparr>th_secretStore = MapSecretStore secrets sample_metadata, th_signKey = staticSymmetricKeys sample_key,
      th_granter = (\<lambda>client user s. (Ok (), s)), th_expiry = 3600000000000\<rparr>"

definition sample_redeem :: request where
  "sample_redeem = \<lparr>rq_Method = ''POST'', rq_RequestURI = ''/token'', rq_RawQuery = '''', rq_Header = [],
     rq_media = (''application/x-www-form-urlencoded'', None),
     rq_Body = Ok ''grant_type=authorization_code&client_id=app&code_challenge=c&code_verifier=v''\<rparr>"

definition sample_form :: form where
  "sample_form = [(''grant_type'', [''authorization_code'']), (''client_id'', [''app'']), (''code_challenge'', [''c'']), (''code_verifier'', [''v''])]"

lemma sample_validated: "validateTokenRequest sample_redeem = Ok (sample_form, ''authorization_code'', ''app'')"
proof -
  have "ParseQuery ''grant_type=authorization_code&client_id=app&code_challenge=c&code_verifier=v'' = (sample_form, None)"
    by (simp add: ParseQuery_def Cut_def sample_form_def)
  moreover have "ParseQuery '''' = ([], None)" by (simp add: ParseQuery_def)
  ultimately have "ParseForm sample_redeem ''grant_type=authorization_code&client_id=app&code_challenge=c&code_verifier=v'' = (sample_form, None)"
    by (simp add: ParseForm_def parsePostForm_def sample_redeem_def)
  then show ?thesis
    by (simp add: validateTokenRequest_def sample_redeem_def check_grant_def values_Get_def values_of_def sample_form_def Let_def)
qed

definition sample_tokens :: "unit redeem_response" where
  "sample_tokens = sample_response\<lparr>rr_ExpiresIn := 3600, rr_AccessToken := sample_secret @ ''claims'', rr_IDToken := '''', rr_RefreshToken := ''''\<rparr>"

text \<open>The steps after the client's secret, accessed or not.\<close>

lemma sample_fetched: "fetchProviderToken sample_te sample_redeem u body relay s = (Ok sample_response, [], s)"
proof -
  have "http_retry sample_te (redeem_attempt sample_te out) (s, left, b, n) = (Ok (), s, '''', ''redeemed'', 200)"
    for out and s :: int and left b n
    by (rule http_retry_first [where b = False]) (simp add: redeem_attempt_def sample_te_def)
  moreover have "te_NewRequest sample_te m u = None" "te_redeem sample_te b = Ok sample_response" "rr_IDToken sample_response \<noteq> ''''" for m u b
    by (simp_all add: sample_te_def sample_response_def sample_secret_def)
  ultimately show ?thesis by (simp add: fetchProviderToken_def Let_def read_redeem_def)
qed

lemma sample_provider_valid: "validateProviderResponse sample_te u ''app'' sample_response 5000000000 = (Ok sample_user, [], 5000000000)"
proof -
  have "certs_attempt sample_te u (s, d) = ((False, Ok ()), s, ''certs'')" for s :: int and d
    by (simp add: certs_attempt_def sample_te_def)
  then have "http_retry sample_te (certs_attempt sample_te u) (5000000000, '''') = (Ok (), 5000000000, ''certs'')"
    by (rule http_retry_first)
  moreover have "ValidateProviderIDWithJWKS sample_te [Jwk ''id'' ''RS256'' True sample_secret] ''app'' (rr_IDToken sample_response) 5000000000 = Some sample_user"
    by (simp add: ValidateProviderIDWithJWKS_def sample_te_def sample_jwt_simps sample_response_def sample_secret_def
        signing_key_def sample_user_def date_Time_def)
  moreover have jwks: "te_jwks sample_te d = Ok [Jwk ''id'' ''RS256'' True sample_secret]" for d by (simp add: sample_te_def)
  ultimately show ?thesis
    by (simp add: validateProviderResponse_def ValidateProviderIDWithCertsURL_def jwks) (simp add: sample_user_def)
qed

lemma sample_written:
  "writeRedeemTokenResponse sample_te (staticSymmetricKeys sample_key) '''' 3600000000000 sample_response sample_user () 5000000000 =
     (Ok (), [WriteTokens sample_tokens], 5000000000)"
proof -
  have "te_jwt sample_te = sample_jwt" "te_marshals sample_te t" for t by (simp_all add: sample_te_def)
  then show ?thesis
    by (simp add: writeRedeemTokenResponse_def staticSymmetricKeys_def sample_token sample_user_def)
      (simp add: sample_response_def sample_tokens_def)
qed

lemma sample_secret_step:
  "fetchSecret (MapSecretStore secrets sample_metadata) ''app'' s =
     (Ok \<lparr>cs_redeemURL = ''https://redeem'', cs_tokenURL = '''', cs_certsURL = ''https://certs'',
          cs_secret = (case secrets (EncodeSecretID ''app'') of Some x \<Rightarrow> x | None \<Rightarrow> '''')\<rparr>,
      case secrets (EncodeSecretID ''app'') of Some x \<Rightarrow> [] | None \<Rightarrow> writeResponse 500 (MAccessSecret ''secret not found''), s)"
  by (cases "secrets (EncodeSecretID ''app'')") (simp_all add: fetchSecret_def MapSecretStore_def sample_metadata_def Let_def)

lemma sample_run:
  "token_ServeHTTP sample_te (sample_handler secrets) sample_redeem 5000000000 =
     (Ok (), (case secrets (EncodeSecretID ''app'') of Some x \<Rightarrow> [] | None \<Rightarrow> writeResponse 500 (MAccessSecret ''secret not found'')) @
        [WriteTokens sample_tokens], 5000000000)"
  by (simp add: token_ServeHTTP_def sample_validated sample_handler_def validateClientSecret_def sample_secret_step redeem_at_def
      grantTypeDeviceCode_def sample_fetched sample_provider_valid granted_def sample_written)

theorem tokens_only_for_verified_users_witness:
  "\<exists>claims key st. issued sample_te (sample_handler [EncodeSecretID ''app'' \<mapsto> ''s3cret'']) sample_redeem 5000000000 5000000000
     sample_tokens claims key st [WriteTokens sample_tokens]"
  by (rule tokens_only_for_verified_users [of _ _ _ _ "Ok ()"]) (simp_all add: sample_run)

lemma sample_issued:
  assumes "issued sample_te (sample_handler secrets) sample_redeem s 5000000000 t claims key st ws"
  shows "claims = sample_user" "st = 5000000000"
proof -
  obtain jwks c idt s2 where "id_token_valid sample_te jwks c idt (je_now (te_jwt sample_te) s2) claims"
    and sign: "SignToken (te_jwt sample_te) key (cl_Subject (pc_Claims claims)) (pc_Email claims) (rr_Extra t)
      (th_expiry (sample_handler secrets)) st = (Ok (rr_AccessToken t), 5000000000)"
    using assms unfolding issued_def by blast
  then show "claims = sample_user" by (auto simp: id_token_valid_def sample_te_def split: if_splits)
  show "st = 5000000000" using sign by (simp add: SignToken_def sample_te_def sample_jwt_simps)
qed

theorem issued_token_admits_user_witness:
  "\<exists>s6. mw_ServeHTTP sample_middleware (\<lambda>c r s. (us_UserID c, s)) sample_request 7000000000 = (Served ''ada'', s6)"
proof -
  define H where "H = sample_handler [EncodeSecretID ''app'' \<mapsto> ''s3cret'']"
  have jwt: "te_jwt sample_te = sample_jwt" and key: "th_signKey H = staticSymmetricKeys sample_key"
    by (simp_all add: sample_te_def H_def sample_handler_def)
  have m: "WithMiddleware (te_jwt sample_te) (Some (CombineKeys (staticSymmetricKeys sample_key) (map jwksKeys []))) (Some AuthorizeAll) =
      Some sample_middleware"
    by (simp add: WithMiddleware_def sample_middleware_def jwt CombineKeys_def staticSymmetricKeys_def fun_eq_iff)
  have run: "token_ServeHTTP sample_te H sample_redeem 5000000000 = (Ok (), [WriteTokens sample_tokens], 5000000000)"
    by (simp add: H_def sample_run)
  have header: "values_Get (rq_Header sample_request) ''Authorization'' = ''Bearer '' @ rr_AccessToken sample_tokens"
    by (simp add: sample_request_def sample_tokens_def values_Get_def values_of_def)
  have auth: "\<forall>c s. us_Extra c = rr_Extra sample_tokens \<longrightarrow> (\<exists>s6. AuthorizeAll c (rq_RequestURI sample_request) s = (Ok (), s6))"
    by (simp add: AuthorizeAll_def)
  have written: "WriteTokens sample_tokens \<in> set [WriteTokens sample_tokens]" by simp
  from issued_token_admits_user [OF run written key sample_signs [folded jwt] sample_codec [folded jwt] sample_total [folded jwt] m header auth,
      of "\<lambda>c r s. (us_UserID c, s)"]
  obtain claims st where iss: "issued sample_te H sample_redeem 5000000000 5000000000 sample_tokens claims sample_key st [WriteTokens sample_tokens]"
    and adm: "\<forall>s4. je_now (te_jwt sample_te) s4 \<le> date_Time (NewNumericDate (je_now (te_jwt sample_te) st + sint (th_expiry H))) \<longrightarrow>
      (\<exists>(c :: unit user_claims) s6. us_UserID c = cl_Subject (pc_Claims claims) \<and> us_Email c = pc_Email claims \<and> us_Extra c = rr_Extra sample_tokens \<and>
        mw_ServeHTTP sample_middleware (\<lambda>c r s. (us_UserID c, s)) sample_request s4 = (case (us_UserID c, s6) of (res, s') \<Rightarrow> (Served res, s')))"
    by (elim exE conjE) (rule that)
  have "claims = sample_user" "st = 5000000000" using sample_issued iss unfolding H_def by metis+
  then have "je_now (te_jwt sample_te) 7000000000 \<le> date_Time (NewNumericDate (je_now (te_jwt sample_te) st + sint (th_expiry H)))"
    by (simp add: jwt sample_jwt_simps H_def sample_handler_def NewNumericDate_def date_Time_def)
  from adm [rule_format, OF this] \<open>claims = sample_user\<close> show ?thesis by (auto simp: sample_user_def)
qed

text \<open>
  When the secret of a client cannot be accessed the handler answers 500 and goes on: it redeems the
  grant at the provider with an empty secret, and if the provider accepts that, the tokens of the
  user follow in the body of the 500.
\<close>

lemma secret_error_still_redeems:
  "validateClientSecret (MapSecretStore Map.empty sample_metadata) sample_form ''app'' s =
     (Ok (values_Encode (values_Add ''client_secret'' '''' sample_form),
          \<lparr>cs_redeemURL = ''https://redeem'', cs_tokenURL = '''', cs_certsURL = ''https://certs'', cs_secret = ''''\<rparr>),
      [WriteHeader 500, WriteMessage (MAccessSecret ''secret not found'')], s) \<and>
   token_ServeHTTP sample_te (sample_handler Map.empty) sample_redeem 5000000000 =
     (Ok (), [WriteHeader 500, WriteMessage (MAccessSecret ''secret not found''), WriteTokens sample_tokens], 5000000000) \<and>
   rr_AccessToken sample_tokens = sample_secret @ ''claims''"
  by (simp add: sample_run validateClientSecret_def sample_secret_step writeResponse_def) (simp add: sample_tokens_def)

end
