(* ===== verification/SecretManager.thy ===== *)
theory SecretManager
  imports TokenHandler
begin

text \<open>
  Secrets in a cloud (\<^verbatim>\<open>auth/secretmanager/service.go\<close>, \<^verbatim>\<open>keys.go\<close>, \<^verbatim>\<open>secret.go\<close>,
  \<^verbatim>\<open>store.go\<close>): the versions of a secret, their rotation, and the sets of keys and the secret
  store kept in them. The client of the cloud is a record of its calls, each of which may fail; what
  the cloud documents of them is the predicate \<open>cloud_law\<close>, and \<open>settled_law\<close> is what holds besides
  once listings, the latest alias and disabled versions have caught up with the writes.
\<close>

section \<open>The client of the cloud\<close>

datatype pb_state = STATE_UNSPECIFIED | ENABLED | DISABLED | DESTROYED

text \<open>A timestamp is its seconds and nanoseconds; a missing message reads as zeros.\<close>

type_synonym pb_time = "(int \<times> int) option"

record pb_version =
  pv_Name :: string
  pv_State :: pb_state
  pv_CreateTime :: pb_time

record pb_secret =
  ps_Name :: string
  ps_Annotations :: "(string \<times> string) list"
  ps_CreateTime :: pb_time

text \<open>
  The calls: the parent, the identifier and the annotations of a new secret; the name of a secret;
  the parent and a filter of a listing, with the versions its iterator gives and the error that
  ended it, if any; the name of a version, whose access gives its name and its payload, a pointer;
  the parent and the payload of a new version; the name of a version to disable. Listing secrets is
  by \<open>Next\<close> on an iterator \<open>'i\<close>, where \<open>None\<close> is \<open>iterator.Done\<close>.
\<close>

record ('i, 's) cloud =
  cd_CreateSecret :: "string \<Rightarrow> string \<Rightarrow> (string \<times> string) list \<Rightarrow> 's \<Rightarrow> (string + unit) \<times> 's"
  cd_GetSecret :: "string \<Rightarrow> 's \<Rightarrow> (string + pb_secret) \<times> 's"
  cd_ListSecretVersions :: "string \<Rightarrow> string \<Rightarrow> 's \<Rightarrow> (pb_version list \<times> string option) \<times> 's"
  cd_AccessSecretVersion :: "string \<Rightarrow> 's \<Rightarrow> (string + string \<times> string option) \<times> 's"
  cd_GetSecretVersion :: "string \<Rightarrow> 's \<Rightarrow> (string + pb_version) \<times> 's"
  cd_AddSecretVersion :: "string \<Rightarrow> string \<Rightarrow> 's \<Rightarrow> (string + unit) \<times> 's"
  cd_DisableSecretVersion :: "string \<Rightarrow> 's \<Rightarrow> (string + unit) \<times> 's"
  cd_ListSecrets :: "string \<Rightarrow> string \<Rightarrow> 'i"
  cd_Next :: "'i \<Rightarrow> 's \<Rightarrow> (string + pb_secret option) \<times> 'i \<times> 's"

section \<open>Service\<close>

datatype sm_state = StateEnabled | StateDisabled | StateDestroyed | StateUnknown

record secret_version =
  sv_ID :: string
  sv_Version :: string
  sv_State :: sm_state
  sv_CreatedAt :: int
  sv_Payload :: string

record sm_secret =
  sm_ID :: string
  sm_CreatedAt :: int
  sm_Annotations :: "(string \<times> string) list"

record sm_service =
  sm_projectID :: string
  sm_parent :: string

definition NewService ::
  "(string \<Rightarrow> 's \<Rightarrow> string option \<times> 's) \<Rightarrow> ('s \<Rightarrow> string option \<times> 's) \<Rightarrow> string \<Rightarrow> string \<Rightarrow> 's \<Rightarrow>
   (string, sm_service) outcome \<times> 's" where
  "NewService setenv newClient projectID credsFile s =
     (case if credsFile \<noteq> '''' then setenv credsFile s else (None, s) of
        (Some e, s) \<Rightarrow> (Err (''set GOOGLE_APPLICATION_CREDENTIALS: '' @ e), s)
      | (None, s) \<Rightarrow>
          (case newClient s of
             (Some e, s) \<Rightarrow> (Err (''secretmanager new: '' @ e), s)
           | (None, s) \<Rightarrow> (Ok \<lparr>sm_projectID = projectID, sm_parent = ''projects/'' @ projectID\<rparr>, s)))"

definition protoTimeToStd :: "pb_time \<Rightarrow> int" where
  "protoTimeToStd ts = (case ts of None \<Rightarrow> 0 | Some (seconds, nanos) \<Rightarrow> seconds * 1000000000 + nanos)"

definition parseLastPathSegment :: "string \<Rightarrow> string" where
  "parseLastPathSegment version =
     (let split = Split (CHR ''/'') version in if length split \<le> 1 then version else last split)"

fun protoStateToLib :: "pb_state \<Rightarrow> sm_state" where
  "protoStateToLib ENABLED = StateEnabled"
| "protoStateToLib DISABLED = StateDisabled"
| "protoStateToLib DESTROYED = StateDestroyed"
| "protoStateToLib STATE_UNSPECIFIED = StateUnknown"

definition secret_name :: "sm_service \<Rightarrow> string \<Rightarrow> string" where
  "secret_name S i = ''projects/'' @ sm_projectID S @ ''/secrets/'' @ i"

definition CreateSecret :: "('i, 's) cloud \<Rightarrow> sm_service \<Rightarrow> string \<Rightarrow> (string \<times> string) list \<Rightarrow> 's \<Rightarrow> string option \<times> 's" where
  "CreateSecret C S i metadata s =
     (case cd_CreateSecret C (sm_parent S) i metadata s of
        (Inl e, s) \<Rightarrow> (Some (''client create secret: '' @ e), s)
      | (Inr _, s) \<Rightarrow> (None, s))"

definition pb_to_secret :: "pb_secret \<Rightarrow> sm_secret" where
  "pb_to_secret p =
     \<lparr>sm_ID = parseLastPathSegment (ps_Name p), sm_CreatedAt = protoTimeToStd (ps_CreateTime p), sm_Annotations = ps_Annotations p\<rparr>"

definition GetSecret :: "('i, 's) cloud \<Rightarrow> sm_service \<Rightarrow> string \<Rightarrow> 's \<Rightarrow> (string, sm_secret) outcome \<times> 's" where
  "GetSecret C S i s =
     (case cd_GetSecret C (secret_name S i) s of
        (Inl e, s) \<Rightarrow> (Err (''client get secret: '' @ e), s)
      | (Inr p, s) \<Rightarrow> (Ok (pb_to_secret p), s))"

text \<open>The count and the errors of a rotation; no errors is \<open>nil\<close>.\<close>

fun disable_versions :: "('i, 's) cloud \<Rightarrow> string list \<Rightarrow> string list \<Rightarrow> 's \<Rightarrow> string list \<times> 's" where
  "disable_versions C [] ret s = (ret, s)"
| "disable_versions C (version # rest) ret s =
     (case cd_DisableSecretVersion C version s of
        (Inl e, s) \<Rightarrow> disable_versions C rest (ret @ [''failed to disable previous secret version: '' @ e]) s
      | (Inr _, s) \<Rightarrow> disable_versions C rest ret s)"

definition RotateSecret ::
  "('i, 's) cloud \<Rightarrow> sm_service \<Rightarrow> string \<Rightarrow> string \<Rightarrow> bool \<Rightarrow> 's \<Rightarrow> (nat \<times> string list) \<times> 's" where
  "RotateSecret C S i payload disablePreviousVersions s =
     (case if disablePreviousVersions then cd_ListSecretVersions C (secret_name S i) ''state:ENABLED'' s else (([], None), s) of
        ((_, Some e), s) \<Rightarrow> ((0, [''iterate secret versions: '' @ e]), s)
      | ((enabled, None), s) \<Rightarrow>
          (let versionsToDisable = map pv_Name enabled in
           case cd_AddSecretVersion C (secret_name S i) payload s of
             (Inl e, s) \<Rightarrow> ((0, [''client add secret version: '' @ e]), s)
           | (Inr _, s) \<Rightarrow>
               (case disable_versions C versionsToDisable [] s of (ret, s) \<Rightarrow> ((length versionsToDisable, ret), s))))"

definition DisableSecretVersion :: "('i, 's) cloud \<Rightarrow> sm_service \<Rightarrow> string \<Rightarrow> string \<Rightarrow> 's \<Rightarrow> (string + unit) \<times> 's" where
  "DisableSecretVersion C S i version s = cd_DisableSecretVersion C (secret_name S i @ ''/versions/'' @ version) s"

definition AccessSecretLatest :: "('i, 's) cloud \<Rightarrow> sm_service \<Rightarrow> string \<Rightarrow> 's \<Rightarrow> (string, secret_version) outcome \<times> 's" where
  "AccessSecretLatest C S i s =
     (let name = secret_name S i @ ''/versions/latest'' in
      case cd_AccessSecretVersion C name s of
        (Inl e, s) \<Rightarrow> (Err (''client access secret: '' @ e), s)
      | (Inr (accessName, payload), s) \<Rightarrow>
          (case cd_GetSecretVersion C name s of
             (Inl e, s) \<Rightarrow> (Err (''client get secret: '' @ e), s)
           | (Inr getRes, s) \<Rightarrow>
               (andThen (orPanic payload) (\<lambda>d.
                  Ok \<lparr>sv_ID = i, sv_Version = parseLastPathSegment accessName, sv_State = protoStateToLib (pv_State getRes),
                      sv_CreatedAt = protoTimeToStd (pv_CreateTime getRes), sv_Payload = d\<rparr>), s)))"

text \<open>
  The versions are accessed by a goroutine each: \<open>fan\<close> is the order in which the calls take
  effect, \<open>fin\<close> the order in which the goroutines append their results. When the iterator fails
  the goroutines it has started go on after the return; here their calls take effect before it.
\<close>

definition access_version :: "('i, 's) cloud \<Rightarrow> string \<Rightarrow> pb_version \<Rightarrow> 's \<Rightarrow> (string, secret_version) outcome \<times> 's" where
  "access_version C i v s =
     (case cd_AccessSecretVersion C (pv_Name v) s of
        (Inl e, s) \<Rightarrow> (Err e, s)
      | (Inr (_, payload), s) \<Rightarrow>
          (andThen (orPanic payload) (\<lambda>d.
             Ok \<lparr>sv_ID = i, sv_Version = parseLastPathSegment (pv_Name v), sv_State = protoStateToLib (pv_State v),
                 sv_CreatedAt = protoTimeToStd (pv_CreateTime v), sv_Payload = d\<rparr>), s))"

fun access_all :: "('i, 's) cloud \<Rightarrow> string \<Rightarrow> pb_version list \<Rightarrow> 's \<Rightarrow> (string, secret_version) outcome list \<times> 's" where
  "access_all C i [] s = ([], s)"
| "access_all C i (v # vs) s =
     (case access_version C i v s of (r, s) \<Rightarrow> (case access_all C i vs s of (rs, s) \<Rightarrow> (r # rs, s)))"

definition oks :: "('e, 'a) outcome list \<Rightarrow> 'a list" where
  "oks rs = concat (map (\<lambda>r. case r of Ok x \<Rightarrow> [x] | _ \<Rightarrow> []) rs)"

definition errs :: "('e, 'a) outcome list \<Rightarrow> 'e list" where
  "errs rs = concat (map (\<lambda>r. case r of Err e \<Rightarrow> [e] | _ \<Rightarrow> []) rs)"

record schedule =
  fan :: "pb_version list \<Rightarrow> pb_version list"
  fin :: "(string, secret_version) outcome list \<Rightarrow> (string, secret_version) outcome list"

definition AccessSecretVersions ::
  "schedule \<Rightarrow> ('i, 's) cloud \<Rightarrow> sm_service \<Rightarrow> string \<Rightarrow> 's \<Rightarrow> (unit, secret_version list \<times> string list) outcome \<times> 's" where
  "AccessSecretVersions sched C S i s =
     (case cd_ListSecretVersions C (secret_name S i) ''state:ENABLED'' s of
        ((vs, Some e), s) \<Rightarrow>
          (case access_all C i (fan sched vs) s of
             (rs, s) \<Rightarrow> (if Panic \<in> set rs then Panic else Ok ([], [''iterator error: '' @ e]), s))
      | ((vs, None), s) \<Rightarrow>
          (case access_all C i (fan sched vs) s of
             (rs, s) \<Rightarrow> (if Panic \<in> set rs then Panic else Ok (oks (fin sched rs), errs (fin sched rs)), s)))"

definition ListSecrets :: "('i, 's) cloud \<Rightarrow> sm_service \<Rightarrow> string \<Rightarrow> 'i \<times> string option" where
  "ListSecrets C S fltr = (cd_ListSecrets C (''projects/'' @ sm_projectID S) fltr, None)"

definition versionsIterator_Next ::
  "('i, 's) cloud \<Rightarrow> 'i \<times> string option \<Rightarrow> 's \<Rightarrow> (sm_secret option) \<times> ('i \<times> string option) \<times> 's" where
  "versionsIterator_Next C it s =
     (case it of
        (i, Some e) \<Rightarrow> (None, (i, Some e), s)
      | (i, None) \<Rightarrow>
          (case cd_Next C i s of
             (Inr None, i, s) \<Rightarrow> (None, (i, None), s)
           | (Inl e, i, s) \<Rightarrow> (None, (i, Some e), s)
           | (Inr (Some p), i, s) \<Rightarrow> (Some (pb_to_secret p), (i, None), s)))"

section \<open>Keys and secrets\<close>

definition secretManagerKeys_Sign :: "('i, 's) cloud \<Rightarrow> sm_service \<Rightarrow> string \<Rightarrow> 's \<Rightarrow> (string, 'm key) outcome \<times> 's" where
  "secretManagerKeys_Sign C S secretID s =
     (case AccessSecretLatest C S secretID s of (r, s) \<Rightarrow> (andThen r (\<lambda>sv. SymmetricKey (sv_Payload sv)), s))"

fun symmetric_all :: "secret_version list \<Rightarrow> 'm key list \<Rightarrow> (string, 'm key list) outcome" where
  "symmetric_all [] ret = Ok ret"
| "symmetric_all (sv # svs) ret = andThen (SymmetricKey (sv_Payload sv)) (\<lambda>k. symmetric_all svs (ret @ [k]))"

definition secretManagerKeys_Verify ::
  "schedule \<Rightarrow> ('i, 's) cloud \<Rightarrow> sm_service \<Rightarrow> string \<Rightarrow> 's \<Rightarrow> (string, 'm key list) outcome \<times> 's" where
  "secretManagerKeys_Verify sched C S secretID s =
     (case AccessSecretVersions sched C S secretID s of
        (Ok (svs, []), s) \<Rightarrow> (symmetric_all svs [], s)
      | (Ok (svs, e # es), s) \<Rightarrow> (Err (concat (e # es)), s)
      | (Err _, s) \<Rightarrow> (Panic, s)
      | (Panic, s) \<Rightarrow> (Panic, s))"

definition secretManagerKeys :: "schedule \<Rightarrow> ('i, 's) cloud \<Rightarrow> sm_service \<Rightarrow> string \<Rightarrow> ('m, 's) keys" where
  "secretManagerKeys sched C S secretID =
     \<lparr>ks_Sign = secretManagerKeys_Sign C S secretID, ks_Verify = secretManagerKeys_Verify sched C S secretID\<rparr>"

definition secretManagerStore :: "('i, 's) cloud \<Rightarrow> sm_service \<Rightarrow> 's secret_store" where
  "secretManagerStore C S =
     \<lparr>ss_GetSecretMetadata = (\<lambda>i s. case GetSecret C S i s of (r, s) \<Rightarrow> (andThen r (\<lambda>sec. Ok (sm_Annotations sec)), s)),
      ss_AccessSecret = (\<lambda>i s. case AccessSecretLatest C S i s of (r, s) \<Rightarrow> (andThen r (\<lambda>ver. Ok (sv_Payload ver)), s))\<rparr>"

section \<open>What the cloud promises\<close>

text \<open>
  The versions of every secret, oldest first, as a state of the cloud holds them. A version is
  designated by its name, and the last one of a secret also by the alias \<open>latest\<close>.
\<close>

record cloud_version =
  cv_pb :: pb_version
  cv_payload :: string

abbreviation cv_name :: "cloud_version \<Rightarrow> string" where
  "cv_name v \<equiv> pv_Name (cv_pb v)"

definition cv_enabled :: "cloud_version \<Rightarrow> bool" where
  "cv_enabled v \<longleftrightarrow> pv_State (cv_pb v) = ENABLED"

definition disable_if :: "string set \<Rightarrow> cloud_version \<Rightarrow> cloud_version" where
  "disable_if D v = (if cv_name v \<in> D \<and> cv_enabled v then v\<lparr>cv_pb := (cv_pb v)\<lparr>pv_State := DISABLED\<rparr>\<rparr> else v)"

definition designates :: "(string \<Rightarrow> cloud_version list) \<Rightarrow> string \<Rightarrow> cloud_version \<Rightarrow> bool" where
  "designates W name v \<longleftrightarrow> (\<exists>p. v \<in> set (W p) \<and> (name = cv_name v \<or> name = p @ ''/versions/latest'' \<and> v = last (W p)))"

definition names_apart :: "(string \<Rightarrow> cloud_version list) \<Rightarrow> bool" where
  "names_apart W \<longleftrightarrow>
     (\<forall>p. distinct (map cv_name (W p))) \<and>
     (\<forall>p q v w. v \<in> set (W p) \<longrightarrow> w \<in> set (W q) \<longrightarrow> cv_name v = cv_name w \<longrightarrow> p = q) \<and>
     (\<forall>p q v. v \<in> set (W p) \<longrightarrow> cv_name v \<noteq> q @ ''/versions/latest'')"

text \<open>
  What is relied on at any time. A write that fails may have taken effect. Reads change nothing, and
  what they give may lag behind the writes: of a listing it is only relied on that it names versions of
  the secret. Adding a version puts it last.
\<close>

definition reads_law :: "('i, 's) cloud \<Rightarrow> ('s \<Rightarrow> string \<Rightarrow> cloud_version list) \<Rightarrow> bool" where
  "reads_law C V \<longleftrightarrow>
     (\<forall>n s r s'. cd_AccessSecretVersion C n s = (r, s') \<longrightarrow> V s' = V s) \<and>
     (\<forall>n s r s'. cd_GetSecretVersion C n s = (r, s') \<longrightarrow> V s' = V s) \<and>
     (\<forall>p s l e s'. cd_ListSecretVersions C p ''state:ENABLED'' s = ((l, e), s') \<longrightarrow>
        V s' = V s \<and> (e = None \<longrightarrow> pv_Name ` set l \<subseteq> cv_name ` set (V s p)))"

definition add_law :: "('i, 's) cloud \<Rightarrow> ('s \<Rightarrow> string \<Rightarrow> cloud_version list) \<Rightarrow> bool" where
  "add_law C V \<longleftrightarrow>
     (\<forall>p d s r s'. cd_AddSecretVersion C p d s = (r, s') \<longrightarrow>
        isl r \<and> V s' = V s \<or> (\<exists>v. cv_enabled v \<and> cv_payload v = d \<and> V s' = (V s)(p := V s p @ [v])))"

definition disable_law :: "('i, 's) cloud \<Rightarrow> ('s \<Rightarrow> string \<Rightarrow> cloud_version list) \<Rightarrow> bool" where
  "disable_law C V \<longleftrightarrow>
     (\<forall>n s r s'. cd_DisableSecretVersion C n s = (r, s') \<longrightarrow>
        isl r \<and> V s' = V s \<or> V s' = (\<lambda>p. map (disable_if {n}) (V s p)))"

definition cloud_law :: "('i, 's) cloud \<Rightarrow> ('s \<Rightarrow> string \<Rightarrow> cloud_version list) \<Rightarrow> bool" where
  "cloud_law C V \<longleftrightarrow> (\<forall>s. names_apart (V s)) \<and> reads_law C V \<and> add_law C V \<and> disable_law C V"

text \<open>
  What is relied on once the cloud has caught up, in the states \<open>G\<close>, which reads do not leave:
  a listing gives the enabled versions, an access the payload of what the name designates if that is
  enabled and an error otherwise, and the reads that can succeed do. The cloud documents strong
  consistency only of adding a version and accessing it by its number; the rest comes true after a while.
\<close>

definition exact_list :: "('i, 's) cloud \<Rightarrow> ('s \<Rightarrow> string \<Rightarrow> cloud_version list) \<Rightarrow> string \<Rightarrow> 's \<Rightarrow> bool" where
  "exact_list C V p s \<longleftrightarrow>
     mset (fst (fst (cd_ListSecretVersions C p ''state:ENABLED'' s))) = mset (map cv_pb (filter cv_enabled (V s p)))"

definition settled_law :: "('i, 's) cloud \<Rightarrow> ('s \<Rightarrow> string \<Rightarrow> cloud_version list) \<Rightarrow> ('s \<Rightarrow> bool) \<Rightarrow> bool" where
  "settled_law C V G \<longleftrightarrow> (\<forall>s. G s \<longrightarrow>
     (\<forall>p l e s'. cd_ListSecretVersions C p ''state:ENABLED'' s = ((l, e), s') \<longrightarrow> G s' \<and> e = None \<and> exact_list C V p s) \<and>
     (\<forall>n r s'. cd_AccessSecretVersion C n s = (r, s') \<longrightarrow> G s' \<and>
        (isl r \<longrightarrow> (\<forall>v. designates (V s) n v \<longrightarrow> \<not> cv_enabled v)) \<and>
        (\<forall>n' d. r = Inr (n', d) \<longrightarrow> (\<exists>v. designates (V s) n v \<and> cv_enabled v \<and> n' = cv_name v \<and> d = Some (cv_payload v)))) \<and>
     (\<forall>n r s'. cd_GetSecretVersion C n s = (r, s') \<longrightarrow> G s' \<and>
        (isl r \<longrightarrow> (\<forall>v. \<not> designates (V s) n v)) \<and> (\<forall>b. r = Inr b \<longrightarrow> (\<exists>v. designates (V s) n v \<and> b = cv_pb v))))"

lemma cloud_apart: "cloud_law C V \<Longrightarrow> names_apart (V s)"
  by (simp add: cloud_law_def)

lemma cloud_reads:
  assumes "cloud_law C V"
  shows "cd_AccessSecretVersion C n s = (r, s') \<Longrightarrow> V s' = V s"
    and "cd_GetSecretVersion C n s = (q, s') \<Longrightarrow> V s' = V s"
    and "cd_ListSecretVersions C p ''state:ENABLED'' s = ((l, e), s') \<Longrightarrow>
      V s' = V s \<and> (e = None \<longrightarrow> pv_Name ` set l \<subseteq> cv_name ` set (V s p))"
  using assms unfolding cloud_law_def reads_law_def by blast+

lemma cloud_addD:
  assumes "cloud_law C V" "cd_AddSecretVersion C p d s = (r, s')"
  shows "isl r \<and> V s' = V s \<or> (\<exists>v. cv_enabled v \<and> cv_payload v = d \<and> V s' = (V s)(p := V s p @ [v]))"
  using assms unfolding cloud_law_def add_law_def by metis

lemma cloud_disableD:
  assumes "cloud_law C V" "cd_DisableSecretVersion C n s = (r, s')"
  shows "isl r \<and> V s' = V s \<or> V s' = (\<lambda>p. map (disable_if {n}) (V s p))"
  using assms unfolding cloud_law_def disable_law_def by metis

lemma settled_listD:
  assumes "settled_law C V G" "G s" "cd_ListSecretVersions C p ''state:ENABLED'' s = ((l, e), s')"
  shows "G s' \<and> e = None \<and> mset l = mset (map cv_pb (filter cv_enabled (V s p)))"
  using assms unfolding settled_law_def exact_list_def by (metis fst_conv)

lemma settled_accessD:
  assumes "settled_law C V G" "G s" "cd_AccessSecretVersion C n s = (r, s')"
  shows "G s' \<and> (isl r \<longrightarrow> (\<forall>v. designates (V s) n v \<longrightarrow> \<not> cv_enabled v)) \<and>
    (\<forall>n' d. r = Inr (n', d) \<longrightarrow> (\<exists>v. designates (V s) n v \<and> cv_enabled v \<and> n' = cv_name v \<and> d = Some (cv_payload v)))"
  using assms unfolding settled_law_def by blast

lemma settled_getD:
  assumes "settled_law C V G" "G s" "cd_GetSecretVersion C n s = (r, s')"
  shows "G s' \<and> (isl r \<longrightarrow> (\<forall>v. \<not> designates (V s) n v)) \<and> (\<forall>b. r = Inr b \<longrightarrow> (\<exists>v. designates (V s) n v \<and> b = cv_pb v))"
  using assms unfolding settled_law_def by blast

lemma disable_if_simps [simp]:
  "cv_name (disable_if D v) = cv_name v" "cv_payload (disable_if D v) = cv_payload v"
  "cv_enabled (disable_if D v) \<longleftrightarrow> cv_enabled v \<and> cv_name v \<notin> D" "disable_if {} v = v"
  by (auto simp: disable_if_def cv_enabled_def)

lemma disable_none [simp]: "map (disable_if {}) vs = vs"
  by (simp add: map_idI)

lemma disable_if_if: "disable_if D (disable_if E v) = disable_if (E \<union> D) v"
  by (auto simp: disable_if_def cv_enabled_def)

lemma last_designated:
  assumes "names_apart W" "designates W (p @ ''/versions/latest'') v"
  shows "W p \<noteq> [] \<and> v = last (W p)"
proof -
  obtain q where q: "v \<in> set (W q)" "p @ ''/versions/latest'' = cv_name v \<or> p = q \<and> v = last (W q)"
    using assms(2) unfolding designates_def by auto
  moreover have "p @ ''/versions/latest'' \<noteq> cv_name v"
    using assms(1) q(1) unfolding names_apart_def by metis
  ultimately show ?thesis by auto
qed

lemma name_designated:
  assumes "names_apart W" "v \<in> set (W p)" "designates W (cv_name v) w"
  shows "w = v"
proof -
  obtain q where q: "w \<in> set (W q)" "cv_name v = cv_name w"
    using assms unfolding designates_def names_apart_def by blast
  then have "q = p" using assms(1,2) unfolding names_apart_def by metis
  moreover have "distinct (map cv_name (W p))" using assms(1) by (simp add: names_apart_def)
  ultimately show ?thesis using q assms(2) by (auto simp: distinct_map inj_on_def)
qed

section \<open>Rotation\<close>

lemma disable_versions_effect:
  assumes law: "cloud_law C V"
  shows "disable_versions C names ret s = (ret', s') \<Longrightarrow>
    \<exists>D es. D \<subseteq> set names \<and> V s' = (\<lambda>p. map (disable_if D) (V s p)) \<and> ret' = ret @ es \<and> (es = [] \<longrightarrow> D = set names)"
proof (induction names arbitrary: ret s)
  case Nil
  then show ?case by (auto simp: fun_eq_iff)
next
  case (Cons n names)
  obtain r s1 where r: "cd_DisableSecretVersion C n s = (r, s1)" by (cases "cd_DisableSecretVersion C n s")
  obtain ret1 where ret1: "disable_versions C names ret1 s1 = (ret', s')"
    "ret1 = ret \<and> \<not> isl r \<or> (\<exists>e. ret1 = ret @ [e])"
    using Cons.prems r by (cases r) auto
  obtain E where E: "E \<subseteq> {n}" "V s1 = (\<lambda>p. map (disable_if E) (V s p))" "E = {n} \<or> isl r"
  proof (cases "isl r \<and> V s1 = V s")
    case True
    then show ?thesis by (intro that [of "{}"]) (auto simp: fun_eq_iff)
  next
    case False
    then show ?thesis using cloud_disableD [OF law r] by (intro that [of "{n}"]) auto
  qed
  from Cons.IH [OF ret1(1)] obtain D es where D: "D \<subseteq> set names" "V s' = (\<lambda>p. map (disable_if D) (V s1 p))" "ret' = ret1 @ es"
    "es = [] \<longrightarrow> D = set names" by blast
  have "V s' = (\<lambda>p. map (disable_if (E \<union> D)) (V s p))"
    unfolding D(2) E(2) by (simp add: comp_def disable_if_if)
  with D E(1,3) ret1(2) show ?case
    by (intro exI [of _ "E \<union> D"] exI [of _ "drop (length ret) ret'"]) auto
qed

text \<open>
  What a rotation is for the versions of its secret, with the names \<open>L\<close> that a listing before it
  gives: nothing, with an error; or a new version, enabled and last, with some of the versions that were
  listed disabled. Without an error those are all or none of the listed ones, as it was asked, and they
  are counted.
\<close>

definition rotated ::
  "string \<Rightarrow> string \<Rightarrow> bool \<Rightarrow> string list \<Rightarrow> (string \<Rightarrow> cloud_version list) \<Rightarrow> nat \<times> string list \<Rightarrow> (string \<Rightarrow> cloud_version list) \<Rightarrow> bool" where
  "rotated p payload disablePrevious L W r W' \<longleftrightarrow>
     snd r \<noteq> [] \<and> W' = W \<or>
     (\<exists>v D. cv_enabled v \<and> cv_payload v = payload \<and> W' = W(p := map (disable_if D) (W p) @ [v]) \<and>
        D \<subseteq> (if disablePrevious then set L else {}) \<and>
        (snd r = [] \<longrightarrow> fst r = (if disablePrevious then length L else 0) \<and> D = (if disablePrevious then set L else {})))"

definition listed :: "('i, 's) cloud \<Rightarrow> string \<Rightarrow> 's \<Rightarrow> string list" where
  "listed C p s = map pv_Name (fst (fst (cd_ListSecretVersions C p ''state:ENABLED'' s)))"

lemma disable_elsewhere:
  assumes "names_apart (W(p := W p @ [v]))" "D \<subseteq> cv_name ` set (W p)"
  shows "(\<lambda>q. map (disable_if D) ((W(p := W p @ [v])) q)) = W(p := map (disable_if D) (W p) @ [v])"
proof -
  let ?X = "W(p := W p @ [v])"
  have "distinct (map cv_name (?X p))" using assms(1) unfolding names_apart_def by blast
  then have v: "cv_name v \<notin> D" using assms(2) by auto
  have apart: "cv_name u \<noteq> cv_name w" if "u \<in> set (?X q)" "w \<in> set (?X p)" "q \<noteq> p" for u w q
    using assms(1) that unfolding names_apart_def by blast
  have "cv_name u \<notin> D" if "u \<in> set (W q)" "q \<noteq> p" for u q
    using apart [of u q] that assms(2) by auto
  then have others: "map (disable_if D) (W q) = W q" if "q \<noteq> p" for q
    using that by (intro map_idI) (simp add: disable_if_def)
  moreover have "disable_if D v = v" using v by (simp add: disable_if_def)
  ultimately show ?thesis by (auto simp: fun_eq_iff)
qed

lemma RotateSecret_rotates:
  assumes law: "cloud_law C V" and run: "RotateSecret C S i payload dis s = (r, s')"
  shows "rotated (secret_name S i) payload dis (listed C (secret_name S i) s) (V s) r (V s')"
proof -
  let ?p = "secret_name S i" and ?L = "listed C (secret_name S i) s"
  obtain l e s1 where list: "(if dis then cd_ListSecretVersions C ?p ''state:ENABLED'' s else (([], None), s)) = ((l, e), s1)"
    by (metis prod.exhaust)
  have V1: "V s1 = V s" and l: "e = None \<longrightarrow> pv_Name ` set l \<subseteq> cv_name ` set (V s ?p)"
    and L: "map pv_Name l = (if dis then ?L else [])"
    using list cloud_reads(3) [OF law, of ?p s l e s1] by (auto simp: listed_def split: if_splits)
  show ?thesis
  proof (cases e)
    case (Some x)
    then show ?thesis using run list V1 by (auto simp: RotateSecret_def rotated_def)
  next
    case None
    obtain r2 s2 where add: "cd_AddSecretVersion C ?p payload s1 = (r2, s2)" by (cases "cd_AddSecretVersion C ?p payload s1")
    have added: "isl r2 \<and> V s2 = V s \<or> (\<exists>v. cv_enabled v \<and> cv_payload v = payload \<and> V s2 = (V s)(?p := V s ?p @ [v]))"
      using cloud_addD [OF law add] V1 by simp
    show ?thesis
    proof (cases r2)
      case (Inl x)
      then have "snd r \<noteq> []" "s' = s2" using run list add None by (auto simp: RotateSecret_def)
      with added Inl show ?thesis by (auto simp: rotated_def intro!: exI [of _ "{}"])
    next
      case (Inr u)
      then obtain v where v: "cv_enabled v" "cv_payload v = payload" "V s2 = (V s)(?p := V s ?p @ [v])" using added by auto
      obtain ret where ret: "disable_versions C (map pv_Name l) [] s2 = (ret, s')" and r: "r = (length l, ret)"
        using run list add None Inr by (auto simp: RotateSecret_def split: prod.splits)
      from disable_versions_effect [OF law ret] obtain D where D: "D \<subseteq> set (map pv_Name l)"
        "V s' = (\<lambda>p. map (disable_if D) (V s2 p))" "ret = [] \<longrightarrow> D = set (map pv_Name l)" by auto
      have "D \<subseteq> cv_name ` set (V s ?p)" using D(1) l None by auto
      then have "V s' = (V s)(?p := map (disable_if D) (V s ?p) @ [v])"
        using disable_elsewhere [of "V s" ?p v D] cloud_apart [OF law, of s2] v(3) D(2) by simp
      moreover have "set (map pv_Name l) = (if dis then set ?L else {})" "length l = (if dis then length ?L else 0)"
        using arg_cong [OF L, of set] arg_cong [OF L, of length] by (simp_all split: if_splits)
      ultimately show ?thesis using v(1,2) D(1,3) r unfolding rotated_def
        by (intro disjI2 exI [of _ v] exI [of _ D]) simp
    qed
  qed
qed

text \<open>A rotation whose listing was exact and which disables leaves only the new version enabled.\<close>

lemma rotated_exact:
  assumes "rotated p payload True (listed C p s) (V s) (n, []) W'" "exact_list C V p s"
  shows "n = length (filter cv_enabled (V s p)) \<and> filter cv_enabled (W' p) = [last (W' p)]"
proof -
  let ?l = "fst (fst (cd_ListSecretVersions C p ''state:ENABLED'' s))"
  have l: "mset ?l = mset (map cv_pb (filter cv_enabled (V s p)))" using assms(2) by (simp add: exact_list_def)
  obtain v where v: "cv_enabled v" "W' = (V s)(p := map (disable_if (set (listed C p s))) (V s p) @ [v])" "n = length (listed C p s)"
    using assms(1) by (auto simp: rotated_def)
  have "n = length (filter cv_enabled (V s p))" using v(3) mset_eq_length [OF l] by (simp add: listed_def)
  moreover have "set (listed C p s) = cv_name ` {w \<in> set (V s p). cv_enabled w}"
    using arg_cong [OF l, of set_mset] by (auto simp: listed_def image_image)
  then have "filter cv_enabled (map (disable_if (set (listed C p s))) (V s p)) = []" by (auto simp: filter_empty_conv)
  ultimately show ?thesis using v(1,2) by simp
qed

text \<open>A secret whose latest version is enabled keeps that: a rotation never leaves its users without a key.\<close>

lemma rotation_keeps_latest:
  assumes "rotated p payload dis L W r W'" "W q \<noteq> [] \<and> cv_enabled (last (W q))"
  shows "W' q \<noteq> [] \<and> cv_enabled (last (W' q))"
  using assms unfolding rotated_def by (auto split: if_splits)

section \<open>Keys in the cloud\<close>

text \<open>Schedules that run every goroutine once.\<close>

definition fair_schedule :: "schedule \<Rightarrow> bool" where
  "fair_schedule sched \<longleftrightarrow> (\<forall>vs. mset (fan sched vs) = mset vs) \<and> (\<forall>rs. mset (fin sched rs) = mset rs)"

definition hmac_key :: "string \<Rightarrow> 'm key" where
  "hmac_key d = \<lparr>k_key = Symmetric d, k_algo = ''HS256''\<rparr>"

definition latest_version :: "(string \<Rightarrow> cloud_version list) \<Rightarrow> string \<Rightarrow> cloud_version option" where
  "latest_version W p = (if W p \<noteq> [] \<and> cv_enabled (last (W p)) then Some (last (W p)) else None)"

text \<open>Once the cloud has caught up, the payload and the state that are returned are the latest version's.\<close>

lemma AccessSecretLatest_Ok:
  assumes law: "cloud_law C V" "settled_law C V G" "G s" and ok: "AccessSecretLatest C S i s = (Ok sv, s')"
  shows "\<exists>v. latest_version (V s) (secret_name S i) = Some v \<and> sv_Payload sv = cv_payload v \<and> sv_State sv = StateEnabled \<and>
    V s' = V s \<and> G s'"
proof -
  let ?n = "secret_name S i @ ''/versions/latest''"
  obtain n d s1 b where a: "cd_AccessSecretVersion C ?n s = (Inr (n, Some d), s1)" and g: "cd_GetSecretVersion C ?n s1 = (Inr b, s')"
    and sv: "sv_Payload sv = d" "sv_State sv = protoStateToLib (pv_State b)"
    using ok by (auto simp: AccessSecretLatest_def Let_def outcome_simps split: prod.splits sum.splits)
  have V1: "V s1 = V s" and V': "V s' = V s1" using cloud_reads(1,2) [OF law(1)] a g by blast+
  obtain v where v: "designates (V s) ?n v" "cv_enabled v" "d = cv_payload v" and G1: "G s1"
    using settled_accessD [OF law(2,3) a] by auto
  obtain w where w: "designates (V s1) ?n w" "b = cv_pb w" and G': "G s'"
    using settled_getD [OF law(2) G1 g] by auto
  have "V s (secret_name S i) \<noteq> []" "v = last (V s (secret_name S i))" "w = v"
    using last_designated [OF cloud_apart [OF law(1)] v(1)] last_designated [OF cloud_apart [OF law(1)] w(1)] V1 by auto
  then show ?thesis using v w sv V1 V' G' by (simp add: latest_version_def cv_enabled_def)
qed

lemma AccessSecretLatest_returns:
  assumes law: "cloud_law C V" "settled_law C V G" "G s" and v: "latest_version (V s) (secret_name S i) = Some v"
  shows "\<exists>sv s'. AccessSecretLatest C S i s = (Ok sv, s') \<and> sv_Payload sv = cv_payload v \<and> V s' = V s \<and> G s'"
proof -
  let ?n = "secret_name S i @ ''/versions/latest''"
  have des: "designates (V s) ?n v" and en: "cv_enabled v"
    using v by (auto simp: latest_version_def designates_def split: if_splits intro!: exI [of _ "secret_name S i"])
  obtain r s1 where a: "cd_AccessSecretVersion C ?n s = (r, s1)" by (cases "cd_AccessSecretVersion C ?n s")
  have V1: "V s1 = V s" using cloud_reads(1) [OF law(1) a] .
  from settled_accessD [OF law(2,3) a] des en obtain n d where r: "r = Inr (n, Some d)" and G1: "G s1" by (cases r) auto
  obtain b s2 where g: "cd_GetSecretVersion C ?n s1 = (b, s2)" by (cases "cd_GetSecretVersion C ?n s1")
  have "\<not> isl b" using settled_getD [OF law(2) G1 g] des V1 by auto
  then obtain sv where sv: "AccessSecretLatest C S i s = (Ok sv, s2)"
    using a g r by (cases b) (auto simp: AccessSecretLatest_def Let_def)
  from AccessSecretLatest_Ok [OF law sv] v sv show ?thesis by auto
qed

lemma access_all_returns:
  assumes law: "cloud_law C V" "settled_law C V G"
  shows "G s \<Longrightarrow> \<forall>b \<in> set bs. \<exists>v \<in> set (V s p). cv_enabled v \<and> b = cv_pb v \<Longrightarrow>
    \<exists>rs s'. access_all C i bs s = (rs, s') \<and> V s' = V s \<and> G s' \<and>
      list_all2 (\<lambda>b r. \<exists>v sv. v \<in> set (V s p) \<and> b = cv_pb v \<and> r = Ok sv \<and> sv_Payload sv = cv_payload v) bs rs"
proof (induction bs arbitrary: s)
  case Nil
  then show ?case by simp
next
  case (Cons b bs)
  then obtain v where v: "v \<in> set (V s p)" "cv_enabled v" "b = cv_pb v" by auto
  obtain r s1 where a: "cd_AccessSecretVersion C (pv_Name b) s = (r, s1)" by (cases "cd_AccessSecretVersion C (pv_Name b) s")
  have des: "designates (V s) (pv_Name b) v" using v by (auto simp: designates_def)
  have V1: "V s1 = V s" using cloud_reads(1) [OF law(1) a] .
  from settled_accessD [OF law(2) Cons.prems(1) a] des v(2)
  obtain n w where r: "r = Inr (n, Some (cv_payload w))" and w: "designates (V s) (pv_Name b) w" and G1: "G s1"
    by (cases r) auto
  have "w = v" using name_designated [OF cloud_apart [OF law(1)] v(1)] w v(3) by simp
  then obtain sv where sv: "access_version C i b s = (Ok sv, s1)" "sv_Payload sv = cv_payload v"
    using a r by (simp add: access_version_def)
  from Cons.IH [OF G1] Cons.prems(2) V1 obtain rs s' where "access_all C i bs s1 = (rs, s')" "V s' = V s" "G s'"
    "list_all2 (\<lambda>b r. \<exists>v sv. v \<in> set (V s p) \<and> b = cv_pb v \<and> r = Ok sv \<and> sv_Payload sv = cv_payload v) bs rs" by auto
  with sv v show ?case by auto
qed

lemma list_all2_members:
  assumes "list_all2 P xs ys"
  shows "x \<in> set xs \<Longrightarrow> \<exists>y \<in> set ys. P x y" "y \<in> set ys \<Longrightarrow> \<exists>x \<in> set xs. P x y"
  using assms by (induction, auto)

lemma symmetric_all_Ok:
  "\<forall>sv \<in> set svs. 32 \<le> length (sv_Payload sv) \<Longrightarrow> symmetric_all svs ret = Ok (ret @ map (\<lambda>sv. hmac_key (sv_Payload sv)) svs)"
  by (induction svs arbitrary: ret) (auto simp: SymmetricKey_def hmac_key_def)

lemma oks_map_Ok: "\<forall>r \<in> set rs. \<exists>x. r = Ok x \<Longrightarrow> map Ok (oks rs) = rs \<and> errs rs = [] \<and> Panic \<notin> set rs"
  by (induction rs) (auto simp: oks_def errs_def)

definition enabled_payloads :: "cloud_version list \<Rightarrow> string set" where
  "enabled_payloads vs = cv_payload ` {v \<in> set vs. cv_enabled v}"

lemma AccessSecretVersions_returns:
  assumes law: "cloud_law C V" "settled_law C V G" "G s" and fair: "fair_schedule sched"
  shows "\<exists>svs s'. AccessSecretVersions sched C S i s = (Ok (svs, []), s') \<and> V s' = V s \<and> G s' \<and>
    sv_Payload ` set svs = enabled_payloads (V s (secret_name S i))"
proof -
  let ?p = "secret_name S i" and ?R = "\<lambda>b r. \<exists>v sv. v \<in> set (V s (secret_name S i)) \<and> b = cv_pb v \<and> r = Ok sv \<and> sv_Payload sv = cv_payload v"
  obtain l e s1 where list: "cd_ListSecretVersions C ?p ''state:ENABLED'' s = ((l, e), s1)" by (metis prod.collapse)
  note now = settled_listD [OF law(2,3) list]
  have V1: "V s1 = V s" and l: "mset l = mset (map cv_pb (filter cv_enabled (V s ?p)))" and G1: "G s1" and e: "e = None"
    using cloud_reads(3) [OF law(1) list] now by auto
  have set_fan: "set (fan sched l) = set l" using fair by (metis fair_schedule_def mset_eq_setD)
  have bs: "set (fan sched l) = cv_pb ` {v \<in> set (V s ?p). cv_enabled v}"
    unfolding set_fan using mset_eq_setD [OF l] by auto
  have enabled: "\<forall>b \<in> set (fan sched l). \<exists>v \<in> set (V s1 ?p). cv_enabled v \<and> b = cv_pb v"
    using bs V1 by auto
  have "\<exists>rs s'. access_all C i (fan sched l) s1 = (rs, s') \<and> V s' = V s \<and> G s' \<and> list_all2 ?R (fan sched l) rs"
    by (rule access_all_returns [OF law(1,2) G1 enabled, unfolded V1])
  then obtain rs s' where rs: "access_all C i (fan sched l) s1 = (rs, s')" "V s' = V s" "G s'" and R: "list_all2 ?R (fan sched l) rs"
    by (elim exE conjE)
  have set_fin: "set (fin sched rs) = set rs" using fair by (metis fair_schedule_def mset_eq_setD)
  have right: "\<exists>b \<in> set (fan sched l). ?R b r" if "r \<in> set rs" for r
    by (rule list_all2_members(2) [OF R that])
  have left: "\<exists>r \<in> set rs. ?R b r" if "b \<in> set (fan sched l)" for b
    by (rule list_all2_members(1) [OF R that])
  have oks: "map Ok (oks (fin sched rs)) = fin sched rs \<and> errs (fin sched rs) = [] \<and> Panic \<notin> set (fin sched rs)"
    using right set_fin by (intro oks_map_Ok) blast
  then have set_oks: "Ok ` set (oks (fin sched rs)) = set rs" using set_fin by (metis list.set_map)
  have ok_iff: "sv \<in> set (oks (fin sched rs)) \<longleftrightarrow> Ok sv \<in> set rs" for sv using set_oks by (auto simp flip: set_oks)
  have "x \<in> enabled_payloads (V s ?p)" if "x \<in> sv_Payload ` set (oks (fin sched rs))" for x
  proof -
    from that obtain sv where "Ok sv \<in> set rs" "x = sv_Payload sv" using ok_iff by auto
    with right [of "Ok sv"] obtain b v where "b \<in> set (fan sched l)" "v \<in> set (V s ?p)" "b = cv_pb v" "x = cv_payload v" by auto
    moreover then have "cv_enabled v" using bs by (auto simp: cv_enabled_def)
    ultimately show ?thesis by (auto simp: enabled_payloads_def)
  qed
  moreover have "x \<in> sv_Payload ` set (oks (fin sched rs))" if "x \<in> enabled_payloads (V s ?p)" for x
  proof -
    from that obtain v where v: "v \<in> set (V s ?p)" "cv_enabled v" "x = cv_payload v" by (auto simp: enabled_payloads_def)
    then have "cv_pb v \<in> set (fan sched l)" using bs by auto
    with left obtain w sv where w: "w \<in> set (V s ?p)" "cv_pb v = cv_pb w" "Ok sv \<in> set rs" "sv_Payload sv = cv_payload w" by blast
    have "designates (V s) (cv_name v) w" using w(1,2) unfolding designates_def by auto
    then have "w = v" by (rule name_designated [OF cloud_apart [OF law(1)] v(1)])
    then show ?thesis using w(3,4) v(3) ok_iff by (auto intro!: image_eqI [of _ _ sv])
  qed
  ultimately show ?thesis using list e rs oks set_fin by (auto simp: AccessSecretVersions_def)
qed

lemma secret_keys_Sign:
  assumes law: "cloud_law C V" "settled_law C V G" "G s" and "secretManagerKeys_Sign C S i s = (Ok k, s')"
  shows "\<exists>v. latest_version (V s) (secret_name S i) = Some v \<and> k = hmac_key (cv_payload v) \<and> 32 \<le> length (cv_payload v) \<and> V s' = V s"
proof -
  from assms(4) obtain sv where sv: "AccessSecretLatest C S i s = (Ok sv, s')" "SymmetricKey (sv_Payload sv) = Ok k"
    by (auto simp: secretManagerKeys_Sign_def outcome_simps split: prod.splits)
  with AccessSecretLatest_Ok [OF law sv(1)] show ?thesis by (auto simp: SymmetricKey_def hmac_key_def outcome_simps split: if_splits)
qed

definition long_payloads :: "cloud_version list \<Rightarrow> bool" where
  "long_payloads vs \<longleftrightarrow> (\<forall>d \<in> enabled_payloads vs. 32 \<le> length d)"

lemma secret_keys_Verify:
  assumes "cloud_law C V" "settled_law C V G" "G s" "fair_schedule sched" "long_payloads (V s (secret_name S i))"
  shows "\<exists>ks s'. secretManagerKeys_Verify sched C S i s = (Ok ks, s') \<and> V s' = V s \<and> G s' \<and>
    set ks = hmac_key ` enabled_payloads (V s (secret_name S i))"
proof -
  obtain svs s' where svs: "AccessSecretVersions sched C S i s = (Ok (svs, []), s')" "V s' = V s" "G s'"
    and p: "sv_Payload ` set svs = enabled_payloads (V s (secret_name S i))"
    using AccessSecretVersions_returns [OF assms(1-4)] by blast
  have "\<forall>sv \<in> set svs. 32 \<le> length (sv_Payload sv)" using p assms(5) by (auto simp: long_payloads_def)
  then have "secretManagerKeys_Verify sched C S i s = (Ok (map (\<lambda>sv. hmac_key (sv_Payload sv)) svs), s')"
    using svs by (simp add: secretManagerKeys_Verify_def symmetric_all_Ok)
  moreover have "set (map (\<lambda>sv. hmac_key (sv_Payload sv)) svs) = hmac_key ` enabled_payloads (V s (secret_name S i))"
    by (simp add: image_image flip: p)
  ultimately show ?thesis using svs(2,3) by blast
qed

text \<open>
  The contract of a set of keys: a token that was signed with the key \<open>k0\<close> is verified in every
  caught-up state in which a version with that key is enabled and every enabled version is long enough.
\<close>

definition still_enabled ::
  "('s \<Rightarrow> string \<Rightarrow> cloud_version list) \<Rightarrow> ('s \<Rightarrow> bool) \<Rightarrow> string \<Rightarrow> 'm key \<Rightarrow> 's \<Rightarrow> 's \<Rightarrow> bool" where
  "still_enabled V G p k0 s t \<longleftrightarrow> G t \<and> long_payloads (V t p) \<and> k0 \<in> hmac_key ` enabled_payloads (V t p)"

lemma secret_key_set:
  fixes k0 :: "'m key"
  assumes "cloud_law C V" "settled_law C V G" "fair_schedule sched"
  shows "key_set (secretManagerKeys sched C S i) (\<lambda>k k'. k = k0 \<longrightarrow> k' = k) (still_enabled V G (secret_name S i) k0)"
proof
  fix k :: "'m key" and s s' t assume "ks_Sign (secretManagerKeys sched C S i) s = (Ok k, s')" and later: "still_enabled V G (secret_name S i) k0 s' t"
  then have later: "G t" "long_payloads (V t (secret_name S i))" "k0 \<in> hmac_key ` enabled_payloads (V t (secret_name S i))"
    by (simp_all add: still_enabled_def)
  obtain ks :: "'m key list" and t' where "secretManagerKeys_Verify sched C S i t = (Ok ks, t')" "set ks = hmac_key ` enabled_payloads (V t (secret_name S i))"
    using secret_keys_Verify [OF assms(1,2) later(1) assms(3) later(2)] by blast
  then show "\<exists>ks t'. ks_Verify (secretManagerKeys sched C S i) t = (Ok ks, t') \<and> (\<exists>k' \<in> set ks. k = k0 \<longrightarrow> k' = k)"
    using later(3) by (auto simp: secretManagerKeys_def)
qed

text \<open>A rotation without an error keeps the previous payloads; one that disables on an exact listing leaves only the new one.\<close>

lemma rotated_payloads:
  assumes "rotated p payload dis (listed C p s) (V s) (n, []) W'"
  shows "\<not> dis \<Longrightarrow> enabled_payloads (W' p) = insert payload (enabled_payloads (V s p))"
    "dis \<Longrightarrow> exact_list C V p s \<Longrightarrow> enabled_payloads (W' p) = {payload}"
proof -
  show "\<not> dis \<Longrightarrow> enabled_payloads (W' p) = insert payload (enabled_payloads (V s p))"
    using assms by (auto simp: rotated_def enabled_payloads_def)
  assume dis: "dis" "exact_list C V p s"
  have "filter cv_enabled (W' p) = [last (W' p)]" using rotated_exact [of p payload C s V n W'] assms dis by simp
  then have "set (filter cv_enabled (W' p)) = {last (W' p)}" by simp
  then have "{v \<in> set (W' p). cv_enabled v} = {last (W' p)}" by simp
  moreover have "cv_payload (last (W' p)) = payload" using assms by (auto simp: rotated_def)
  ultimately show "enabled_payloads (W' p) = {payload}" by (simp add: enabled_payloads_def)
qed

section \<open>A cloud in memory\<close>

text \<open>One secret, with the state and the payload of its versions: an instance of the parameters.\<close>

definition mem_secret :: string where
  "mem_secret = ''projects/p/secrets/jwt''"

definition mem_version :: "(bool \<times> string) list \<Rightarrow> nat \<Rightarrow> cloud_version" where
  "mem_version s i = \<lparr>cv_pb = \<lparr>pv_Name = mem_secret @ ''/versions/'' @ show_nat (Suc i),
     pv_State = if fst (s ! i) then ENABLED else DISABLED, pv_CreateTime = None\<rparr>, cv_payload = snd (s ! i)\<rparr>"

definition mem_versions :: "(bool \<times> string) list \<Rightarrow> string \<Rightarrow> cloud_version list" where
  "mem_versions s p = (if p = mem_secret then map (mem_version s) [0..<length s] else [])"

definition mem_find :: "(bool \<times> string) list \<Rightarrow> string \<Rightarrow> cloud_version option" where
  "mem_find s n =
     (if n = mem_secret @ ''/versions/latest'' then if s = [] then None else Some (last (mem_versions s mem_secret))
      else find (\<lambda>v. cv_name v = n) (mem_versions s mem_secret))"

definition mem_cloud :: "(unit, (bool \<times> string) list) cloud" where
  "mem_cloud =
     \<lparr>cd_CreateSecret = (\<lambda>p i md s. (Inl ''exists'', s)),
      cd_GetSecret = (\<lambda>n s. (Inr \<lparr>ps_Name = mem_secret, ps_Annotations = [], ps_CreateTime = None\<rparr>, s)),
      cd_ListSecretVersions = (\<lambda>p f s. ((map cv_pb (filter cv_enabled (mem_versions s p)), None), s)),
      cd_AccessSecretVersion = (\<lambda>n s. (case mem_find s n of
         Some v \<Rightarrow> if cv_enabled v then Inr (cv_name v, Some (cv_payload v)) else Inl ''disabled'' | None \<Rightarrow> Inl ''not found'', s)),
      cd_GetSecretVersion = (\<lambda>n s. (case mem_find s n of Some v \<Rightarrow> Inr (cv_pb v) | None \<Rightarrow> Inl ''not found'', s)),
      cd_AddSecretVersion = (\<lambda>p d s. if p = mem_secret then (Inr (), s @ [(True, d)]) else (Inl ''not found'', s)),
      cd_DisableSecretVersion = (\<lambda>n s. (Inr (), map (\<lambda>i. (fst (s ! i) \<and> cv_name (mem_version s i) \<noteq> n, snd (s ! i))) [0..<length s])),
      cd_ListSecrets = (\<lambda>p f. ()),
      cd_Next = (\<lambda>i s. (Inr None, i, s))\<rparr>"

lemma mem_names: "cv_name (mem_version s i) = mem_secret @ ''/versions/'' @ show_nat (Suc i)"
  by (simp add: mem_version_def)

lemma show_nat_inject: "show_nat m = show_nat n \<longleftrightarrow> m = n"
  by (metis digits_value_show_nat)

lemma mem_names_apart: "names_apart (mem_versions s)"
proof -
  have "mem_secret @ ''/versions/'' @ show_nat (Suc i) \<noteq> q @ ''/versions/latest''" for i q
  proof
    assume "mem_secret @ ''/versions/'' @ show_nat (Suc i) = q @ ''/versions/latest''"
    then have "last (mem_secret @ ''/versions/'' @ show_nat (Suc i)) = last (q @ ''/versions/latest'')" by (rule arg_cong)
    then have "last (show_nat (Suc i)) = CHR ''t''" using show_nat_digits [of "Suc i"] by simp
    moreover have "is_digit (last (show_nat (Suc i)))" using show_nat_digits [of "Suc i"] by (simp add: list_all_iff)
    ultimately show False by (simp add: is_digit_def)
  qed
  moreover have "i = j" if "mem_version s i = mem_version s j" for i j
    using arg_cong [OF that, of cv_name] by (simp add: mem_names show_nat_inject)
  ultimately show ?thesis
    unfolding names_apart_def
    by (auto simp: mem_versions_def distinct_map inj_on_def mem_names show_nat_inject)
qed

lemma mem_find_iff: "mem_find s n = Some v \<longleftrightarrow> designates (mem_versions s) n v"
proof
  assume find: "mem_find s n = Some v"
  have "v \<in> set (mem_versions s mem_secret)"
  proof (cases "s = []")
    case False
    then have "mem_versions s mem_secret \<noteq> []" by (simp add: mem_versions_def)
    with find show ?thesis by (auto simp: mem_find_def find_Some_iff split: if_splits)
  qed (use find in \<open>simp add: mem_find_def mem_versions_def split: if_splits\<close>)
  with find show "designates (mem_versions s) n v"
    by (auto simp: mem_find_def find_Some_iff designates_def split: if_splits)
next
  assume des: "designates (mem_versions s) n v"
  then obtain p where p: "v \<in> set (mem_versions s p)" "n = cv_name v \<or> n = p @ ''/versions/latest'' \<and> v = last (mem_versions s p)"
    unfolding designates_def by blast
  then have "p = mem_secret" "s \<noteq> []" by (auto simp: mem_versions_def split: if_splits)
  moreover have "cv_name v \<noteq> mem_secret @ ''/versions/latest''" using mem_names_apart p(1) unfolding names_apart_def by blast
  moreover have "find (\<lambda>w. cv_name w = cv_name v) (mem_versions s mem_secret) = Some v"
  proof (cases "find (\<lambda>w. cv_name w = cv_name v) (mem_versions s mem_secret)")
    case None
    then show ?thesis using p(1) \<open>p = mem_secret\<close> by (auto simp: find_None_iff)
  next
    case (Some w)
    then have "designates (mem_versions s) (cv_name v) w" unfolding find_Some_iff designates_def by (metis nth_mem)
    then show ?thesis using name_designated [OF mem_names_apart p(1)] Some by blast
  qed
  ultimately show "mem_find s n = Some v" using p(2) by (auto simp: mem_find_def)
qed

lemma mem_cloud_law: "cloud_law mem_cloud mem_versions"
  unfolding cloud_law_def
proof (intro conjI allI)
  show "names_apart (mem_versions s)" for s by (rule mem_names_apart)
  show "reads_law mem_cloud mem_versions" by (auto simp: reads_law_def mem_cloud_def)
  have added: "mem_versions (s @ [(True, d)]) = (mem_versions s)(mem_secret := mem_versions s mem_secret @ [mem_version (s @ [(True, d)]) (length s)])" for s d
    by (auto simp: mem_versions_def mem_version_def fun_eq_iff nth_append)
  show "add_law mem_cloud mem_versions"
    unfolding add_law_def
  proof (intro allI impI)
    fix p d s r s' assume "cd_AddSecretVersion mem_cloud p d s = (r, s')"
    then show "isl r \<and> mem_versions s' = mem_versions s \<or>
        (\<exists>v. cv_enabled v \<and> cv_payload v = d \<and> mem_versions s' = (mem_versions s)(p := mem_versions s p @ [v]))"
      using added [of s d]
      by (auto simp: mem_cloud_def mem_version_def cv_enabled_def split: if_splits intro!: exI [of _ "mem_version (s @ [(True, d)]) (length s)"])
  qed
  show "disable_law mem_cloud mem_versions"
    by (auto simp: disable_law_def mem_cloud_def mem_versions_def fun_eq_iff mem_version_def disable_if_def cv_enabled_def)
qed

text \<open>It has always caught up.\<close>

lemma mem_cloud_settled: "settled_law mem_cloud mem_versions (\<lambda>s. True)"
  unfolding settled_law_def
  by (auto simp: mem_cloud_def exact_list_def mem_find_iff simp flip: mem_find_iff split: option.splits if_splits)

definition mem_service :: sm_service where
  "mem_service = \<lparr>sm_projectID = ''p'', sm_parent = ''projects/p''\<rparr>"

definition plain_schedule :: schedule where
  "plain_schedule = \<lparr>fan = (\<lambda>vs. vs), fin = rev\<rparr>"

lemma plain_fair: "fair_schedule plain_schedule"
  by (simp add: fair_schedule_def plain_schedule_def)

interpretation cloud_keys: key_set "secretManagerKeys plain_schedule mem_cloud mem_service i" "\<lambda>k k'. k = k0 \<longrightarrow> k' = k"
    "still_enabled mem_versions (\<lambda>s. True) (secret_name mem_service i) k0"
  by (rule secret_key_set [OF mem_cloud_law mem_cloud_settled plain_fair])

section \<open>Rotations and the tokens of users\<close>

text \<open>
  An enabled version that is too short for a key, which a rotation does not prevent, stops the
  verification of every token.
\<close>

lemma symmetric_all_short:
  "\<exists>sv \<in> set svs. length (sv_Payload sv) < 32 \<Longrightarrow> \<exists>e. symmetric_all svs ret = Err e"
  by (induction svs arbitrary: ret) (auto simp: SymmetricKey_def)

lemma short_version_blocks:
  assumes "cloud_law C V" "settled_law C V G" "G s" "fair_schedule sched" "\<not> long_payloads (V s (secret_name S i))"
  shows "\<exists>e s'. secretManagerKeys_Verify sched C S i s = (Err e, s')"
proof -
  obtain svs s' where svs: "AccessSecretVersions sched C S i s = (Ok (svs, []), s')"
    and p: "sv_Payload ` set svs = enabled_payloads (V s (secret_name S i))"
    using AccessSecretVersions_returns [OF assms(1-4)] by blast
  have "\<exists>sv \<in> set svs. length (sv_Payload sv) < 32"
    using assms(5) unfolding long_payloads_def p [symmetric] by (auto simp: not_le)
  then show ?thesis using svs symmetric_all_short [of svs "[]"] by (auto simp: secretManagerKeys_Verify_def)
qed

text \<open>
  C39 (rotation_replaces_versions). Whatever calls of the cloud fail, and however stale its listing is,
  a rotation either changes nothing and returns an error, or it adds one enabled version with the new
  payload, which is then the last, and disables nothing but versions that were listed before, only when
  it was asked to and never the new one; without an error it has disabled all that were listed, and
  returns their number. So it never takes the enabled last version from a secret, and other secrets stay
  as they are. If the listing was up to date, a rotation that disables and returns no error leaves only
  the new version enabled and returns how many were.
\<close>

theorem rotation_replaces_versions:
  assumes "cloud_law C V" "RotateSecret C S i payload dis s = (r, s')"
  shows "rotated (secret_name S i) payload dis (listed C (secret_name S i) s) (V s) r (V s') \<and>
    (\<forall>p. V s p \<noteq> [] \<and> cv_enabled (last (V s p)) \<longrightarrow> V s' p \<noteq> [] \<and> cv_enabled (last (V s' p))) \<and>
    (\<forall>p. p \<noteq> secret_name S i \<longrightarrow> V s' p = V s p) \<and>
    (dis \<and> snd r = [] \<and> exact_list C V (secret_name S i) s \<longrightarrow>
       fst r = length (filter cv_enabled (V s (secret_name S i))) \<and>
       filter cv_enabled (V s' (secret_name S i)) = [last (V s' (secret_name S i))])"
proof -
  note rot = RotateSecret_rotates [OF assms]
  have "fst r = length (filter cv_enabled (V s (secret_name S i))) \<and>
      filter cv_enabled (V s' (secret_name S i)) = [last (V s' (secret_name S i))]"
    if "dis" "snd r = []" "exact_list C V (secret_name S i) s"
    using rotated_exact [OF _ that(3), of payload "fst r" "V s'"] rot that by (cases r) simp
  then show ?thesis using rot rotation_keeps_latest [OF rot] by (auto simp: rotated_def)
qed

definition old_secrets :: "(bool \<times> string) list" where
  "old_secrets = [(True, ''fedcba9876543210fedcba9876543210''), (True, sample_secret)]"

definition new_secret :: string where
  "new_secret = ''abcdef0123456789abcdef0123456789''"

lemma mem_rotation:
  "RotateSecret mem_cloud mem_service ''jwt'' new_secret False old_secrets = ((0, []), old_secrets @ [(True, new_secret)])"
  by (simp add: RotateSecret_def secret_name_def mem_service_def mem_cloud_def mem_secret_def)

theorem rotation_replaces_versions_witness:
  "rotated mem_secret new_secret False (listed mem_cloud mem_secret old_secrets) (mem_versions old_secrets) (0, [])
     (mem_versions (old_secrets @ [(True, new_secret)]))"
  using rotation_replaces_versions [OF mem_cloud_law mem_rotation] by (simp add: secret_name_def mem_service_def mem_secret_def)

text \<open>
  C40 (tokens_and_rotation). A token signed with the keys of a secret, once the cloud has caught up with
  a rotation that keeps the previous versions, is admitted for as long as it would have been without it.
  Once it has caught up with a rotation that disables them, whose listing was up to date, the token is
  not admitted, unless the new payload happens to verify it. The cloud had caught up when the token was
  signed as well. Until it has, the first may be refused and the second admitted: the states \<open>G\<close> in
  which it has are a parameter.
\<close>

theorem tokens_and_rotation:
  fixes K :: "('m, 's) keys"
  assumes cloud: "cloud_law C V" "settled_law C V G" "fair_schedule sched" "K = secretManagerKeys sched C S i"
    and sign: "G s" "ks_Sign K s = (Ok k, s1)" "SignToken E k userID email extra expiry s2 = (Ok t, s3)"
    and lib: "signs_for E k k" "claims_codec E" "jwt_total E"
    and rotate: "V s4 = V s" "RotateSecret C S i payload dis s4 = ((n, []), s5)" "long_payloads (V s (secret_name S i))" "32 \<le> length payload"
    and caught_up: "V s6 = V s5" "G s6"
    and m: "WithMiddleware E (Some K) (Some A) = Some m" and header: "values_Get (rq_Header r) ''Authorization'' = ''Bearer '' @ t"
    and time: "je_now E (snd (ks_Verify K s6)) \<le> date_Time (NewNumericDate (je_now E s2 + sint expiry))"
    and auth: "\<And>c. us_UserID c = userID \<Longrightarrow> us_Email c = email \<Longrightarrow> us_Extra c = extra \<Longrightarrow>
      \<exists>s7. A c (rq_RequestURI r) (snd (ks_Verify K s6)) = (Ok (), s7)"
  shows "(\<not> dis \<longrightarrow> (\<exists>c s7. us_UserID c = userID \<and> us_Email c = email \<and> us_Extra c = extra \<and>
      mw_ServeHTTP m serve r s6 = (case serve c r s7 of (res, s') \<Rightarrow> (Served res, s')))) \<and>
    (dis \<and> exact_list C V (secret_name S i) s4 \<longrightarrow> (\<forall>now c. \<not> token_accepted E (hmac_key payload) t now c) \<longrightarrow>
      (\<forall>res s'. mw_ServeHTTP m serve r s6 \<noteq> (Served res, s')))"
proof -
  let ?p = "secret_name S i"
  have rot: "rotated ?p payload dis (listed C ?p s4) (V s4) (n, []) (V s5)"
    using RotateSecret_rotates [OF cloud(1) rotate(2)] .
  obtain v where v: "latest_version (V s) ?p = Some v" "k = hmac_key (cv_payload v)"
    using secret_keys_Sign [OF cloud(1,2) sign(1), of S i k s1] sign(2) unfolding cloud(4) by (auto simp: secretManagerKeys_def)
  then have "cv_payload v \<in> enabled_payloads (V s ?p)"
    by (auto simp: latest_version_def enabled_payloads_def split: if_splits)
  then have later: "still_enabled V G ?p k s1 s6" if "\<not> dis"
    using v(2) rotate(3,4) caught_up rotated_payloads(1) [where C = C and s = s4 and V = V, OF rot that]
    by (auto simp: still_enabled_def long_payloads_def rotate(1))
  have set: "key_set K (\<lambda>k' k''. k' = k \<longrightarrow> k'' = k') (still_enabled V G ?p k)"
    unfolding cloud(4) by (rule secret_key_set [OF cloud(1-3)])
  have "\<exists>c s7. us_UserID c = userID \<and> us_Email c = email \<and> us_Extra c = extra \<and>
      mw_ServeHTTP m serve r s6 = (case serve c r s7 of (res, s') \<Rightarrow> (Served res, s'))" if "\<not> dis"
  proof (rule key_set.issued_token_admitted [OF set sign(2,3) _ lib(2,3) m later [OF that] header time auth])
  qed (use lib(1) in simp_all)
  moreover have "mw_ServeHTTP m serve r s6 \<noteq> (Served res, s')"
    if dis: "dis" "exact_list C V ?p s4" and new: "\<forall>now c. \<not> token_accepted E (hmac_key payload) t now c" for res s'
  proof
    assume "mw_ServeHTTP m serve r s6 = (Served res, s')"
    then obtain token ks s7 k' c where t: "values_Get (rq_Header r) ''Authorization'' = ''Bearer '' @ token"
      "ks_Verify K s6 = (Ok ks, s7)" "k' \<in> set ks" "token_accepted E k' token (je_now E s7) c"
      using mw_served [OF m lib(3), of serve r s6 res s'] by blast
    have payloads: "enabled_payloads (V s6 ?p) = {payload}" unfolding caught_up(1) by (rule rotated_payloads(2) [where C = C and s = s4, OF rot dis])
    have "long_payloads (V s6 ?p)" using rotate(4) by (simp add: long_payloads_def payloads)
    from secret_keys_Verify [OF cloud(1,2) caught_up(2) cloud(3) this] obtain ks' :: "'m key list" and s8
      where "secretManagerKeys_Verify sched C S i s6 = (Ok ks', s8)" "set ks' = {hmac_key payload}" using payloads by auto
    then have "k' = hmac_key payload" "token = t" using t(1-3) header unfolding cloud(4) by (auto simp: secretManagerKeys_def)
    then show False using t(4) new by blast
  qed
  ultimately show ?thesis by blast
qed

text \<open>The library of the examples, with a clock that stands.\<close>

definition still_jwt :: "(string, string \<times> string, unit, 's) jwt_env" where
  "still_jwt =
     \<lparr>jo_ParseSigned = jo_ParseSigned sample_jwt, jo_KeyIDs = jo_KeyIDs sample_jwt, jo_verify = jo_verify sample_jwt,
      jo_payload = jo_payload sample_jwt, jo_NewSigner = jo_NewSigner sample_jwt, jo_Serialize = jo_Serialize sample_jwt,
      js_encode = js_encode sample_jwt, js_user = js_user sample_jwt,
      je_now = (\<lambda>s. 5000000000), je_uuid = (\<lambda>s. (Some ''uuid'', s)), je_zero = ()\<rparr>"

lemma still_lib: "signs_for still_jwt sample_key sample_key" "claims_codec still_jwt" "jwt_total still_jwt"
  by (auto simp: signs_for_def claims_codec_def jwt_total_def still_jwt_def sample_jwt_simps sample_key_def sample_secret_def)

lemma still_token: "SignToken still_jwt sample_key ''ada'' ''ada@mail'' () 3600000000000 s = (Ok (sample_secret @ ''claims''), s)"
  by (simp add: SignToken_def still_jwt_def sample_jwt_simps sample_claims_def sample_key_def sample_secret_def)

lemma hmac_sample: "hmac_key sample_secret = sample_key"
  by (simp add: hmac_key_def sample_key_def)

lemma enabled_payloads_filter: "enabled_payloads vs = set (map cv_payload (filter cv_enabled vs))"
  by (auto simp: enabled_payloads_def)

lemma old_payloads: "enabled_payloads (mem_versions old_secrets mem_secret) = {''fedcba9876543210fedcba9876543210'', sample_secret}"
proof -
  have "cv_enabled (mem_version old_secrets n)" "cv_payload (mem_version old_secrets n) = snd (old_secrets ! n)" if "n < 2" for n
    using that by (auto simp: mem_version_def cv_enabled_def old_secrets_def less_2_cases_iff)
  moreover have "mem_versions old_secrets mem_secret = [mem_version old_secrets 0, mem_version old_secrets 1]"
    by (simp add: mem_versions_def) (simp add: old_secrets_def)
  ultimately show ?thesis unfolding enabled_payloads_filter by (simp add: old_secrets_def)
qed

lemma old_sign:
  "ks_Sign (secretManagerKeys plain_schedule mem_cloud mem_service ''jwt'') old_secrets = (Ok sample_key, old_secrets)"
  by (simp add: secretManagerKeys_def secretManagerKeys_Sign_def AccessSecretLatest_def secret_name_def mem_service_def mem_cloud_def
      mem_find_def mem_secret_def mem_versions_def mem_version_def cv_enabled_def old_secrets_def SymmetricKey_def sample_secret_def sample_key_def)

lemma mem_rotation_disabling:
  "\<exists>n s'. RotateSecret mem_cloud mem_service ''jwt'' new_secret True old_secrets = ((n, []), s')"
proof -
  have "\<exists>s'. disable_versions mem_cloud names ret s = (ret, s')" for names ret s
    by (induction names arbitrary: s) (simp_all add: mem_cloud_def)
  from this [of "map pv_Name (map cv_pb (filter cv_enabled (mem_versions old_secrets mem_secret)))" "[]" "old_secrets @ [(True, new_secret)]"]
  show ?thesis by (auto simp: RotateSecret_def secret_name_def mem_service_def mem_cloud_def mem_secret_def)
qed

definition cloud_middleware :: "(string, string \<times> string, unit, (bool \<times> string) list) middleware" where
  "cloud_middleware = \<lparr>mw_env = still_jwt, mw_verifyKeys = secretManagerKeys plain_schedule mem_cloud mem_service ''jwt'',
     mw_authorizer = AuthorizeAll\<rparr>"

theorem tokens_and_rotation_witness:
  "(\<exists>s'. mw_ServeHTTP cloud_middleware (\<lambda>c r s. (us_UserID c, s)) sample_request (old_secrets @ [(True, new_secret)]) = (Served ''ada'', s')) \<and>
   (\<exists>n s'. RotateSecret mem_cloud mem_service ''jwt'' new_secret True old_secrets = ((n, []), s') \<and>
      (\<forall>res s''. mw_ServeHTTP cloud_middleware (\<lambda>c r s. (us_UserID c, s)) sample_request s' \<noteq> (Served res, s'')))"
proof -
  let ?K = "secretManagerKeys plain_schedule mem_cloud mem_service ''jwt''"
  have m: "WithMiddleware still_jwt (Some ?K) (Some AuthorizeAll) = Some cloud_middleware"
    by (simp add: WithMiddleware_def cloud_middleware_def)
  have name: "secret_name mem_service ''jwt'' = mem_secret" by (simp add: secret_name_def mem_service_def mem_secret_def)
  have header: "values_Get (rq_Header sample_request) ''Authorization'' = ''Bearer '' @ sample_secret @ ''claims''"
    by (simp add: sample_request_def values_Get_def values_of_def)
  have long: "long_payloads (mem_versions old_secrets (secret_name mem_service ''jwt''))" "32 \<le> length new_secret"
    by (simp_all add: name long_payloads_def old_payloads sample_secret_def new_secret_def)
  have time: "je_now still_jwt s \<le> date_Time (NewNumericDate (je_now still_jwt s2 + sint (3600000000000 :: int64)))" for s s2 :: "(bool \<times> string) list"
    by (simp add: still_jwt_def NewNumericDate_def date_Time_def)
  have auth: "\<exists>s6. AuthorizeAll c u s = (Ok (), s6)" for c :: "unit user_claims" and u and s :: "(bool \<times> string) list"
    by (simp add: AuthorizeAll_def)
  have foreign: "\<forall>now c. \<not> token_accepted still_jwt (hmac_key new_secret) (sample_secret @ ''claims'') now c"
    by (simp add: token_accepted_def still_jwt_def sample_jwt_simps hmac_key_def sample_secret_def new_secret_def)
  obtain n s5 where rot: "RotateSecret mem_cloud mem_service ''jwt'' new_secret True old_secrets = ((n, []), s5)"
    using mem_rotation_disabling by blast
  have exact: "exact_list mem_cloud mem_versions (secret_name mem_service ''jwt'') old_secrets"
    by (simp add: exact_list_def mem_cloud_def)
  note both = tokens_and_rotation [OF mem_cloud_law mem_cloud_settled plain_fair refl TrueI old_sign still_token still_lib refl _ long refl TrueI
      m header time auth, where serve = "\<lambda>c r s. (us_UserID c, s)"]
  from both [OF mem_rotation, THEN conjunct1] both [OF rot, THEN conjunct2] exact foreign rot show ?thesis by auto
qed

end
