(* ===== verification/DocRpc.thy ===== *)
theory DocRpc
  imports DocSync "HOL-Library.Sublist"
begin

text \<open>
  Documents over gRPC (\<^verbatim>\<open>document/docrpc/client.go\<close>, \<^verbatim>\<open>convert.go\<close>,
  \<^verbatim>\<open>server.go\<close>): the messages, the server that relays calls to a service behind it, the
  client that offers the same interface, and the errors and streams between them. The transport may
  lose a call or its answer and cut a stream.
\<close>

section \<open>Messages\<close>

record 'b pb_field =
  pbf_FieldPath :: "string list"
  pbf_Data :: 'b

record 'b pb_filter =
  pbl_FieldPath :: "string list"
  pbl_Data :: 'b
  pbl_Operation :: string

record 'b list_response =
  lr_Error :: string
  lr_Data :: "'b option"

datatype update_response = Updated | UpdNotFound | UpdPreconditionFailed

section \<open>Converting updates and filters\<close>

definition protoFieldKey :: string where
  "protoFieldKey = ''X''"

fun op_text :: "op \<Rightarrow> string" where
  "op_text OpEqual = ''==''"
| "op_text OpGreaterThan = ''>''"
| "op_text OpGreaterThanEqual = ''>=''"
| "op_text OpLessThan = ''<''"
| "op_text OpLessThanEqual = ''<=''"
| "op_text (OpOther s) = s"

definition op_of_text :: "string \<Rightarrow> op" where
  "op_of_text s =
     (if s = ''=='' then OpEqual else if s = ''>'' then OpGreaterThan else if s = ''>='' then OpGreaterThanEqual
      else if s = ''<'' then OpLessThan else if s = ''<='' then OpLessThanEqual else OpOther s)"

text \<open>The map that carries a value is shared between the fields of a call; encoding stamps a copy of it.\<close>

definition makeProtoFilter ::
  "('v, 'b) marshaler \<Rightarrow> gotime \<Rightarrow> 'v fields \<Rightarrow> 'v doc_filter \<Rightarrow> 'b pb_filter dresult \<times> 'v fields" where
  "makeProtoFilter M now slab f =
     (let slab = AList.update protoFieldKey (fl_Value f) slab in
      (andThen (Encode M now now (GMap True slab) False) (\<lambda>b.
         Ok \<lparr>pbl_FieldPath = fl_FieldPath f, pbl_Data = b, pbl_Operation = op_text (fl_Op f)\<rparr>), slab))"

fun proto_fields :: "('v, 'b) marshaler \<Rightarrow> gotime \<Rightarrow> 'v fields \<Rightarrow> 'v doc_update list \<Rightarrow> 'b pb_field list dresult" where
  "proto_fields M now slab [] = Ok []"
| "proto_fields M now slab (u # us) =
     (case makeProtoFilter M now slab \<lparr>fl_FieldPath = up_FieldPath u, fl_Value = up_Value u, fl_Op = OpOther ''''\<rparr> of
        (r, slab) \<Rightarrow> andThen r (\<lambda>pf. andThen (proto_fields M now slab us) (\<lambda>ret.
          Ok (\<lparr>pbf_FieldPath = pbl_FieldPath pf, pbf_Data = pbl_Data pf\<rparr> # ret))))"

definition makeProtoUpdates :: "('v, 'b) marshaler \<Rightarrow> gotime \<Rightarrow> 'v doc_update list \<Rightarrow> 'b pb_field list dresult" where
  "makeProtoUpdates M now us = proto_fields M now [] us"

definition makeProtoPreconditions :: "('v, 'b) marshaler \<Rightarrow> gotime \<Rightarrow> 'v doc_update list \<Rightarrow> 'b pb_field list dresult" where
  "makeProtoPreconditions M now ps = proto_fields M now [] ps"

fun proto_filters :: "('v, 'b) marshaler \<Rightarrow> gotime \<Rightarrow> 'v fields \<Rightarrow> 'v doc_filter list \<Rightarrow> 'b pb_filter list dresult" where
  "proto_filters M now slab [] = Ok []"
| "proto_filters M now slab (f # fs) =
     (if fl_FieldPath f = [] then Panic
      else case makeProtoFilter M now slab f of
        (r, slab) \<Rightarrow> andThen r (\<lambda>pf. andThen (proto_filters M now slab fs) (\<lambda>ret. Ok (pf # ret))))"

definition makeProtoFilters :: "('v, 'b) marshaler \<Rightarrow> gotime \<Rightarrow> 'v doc_filter list \<Rightarrow> 'b pb_filter list dresult" where
  "makeProtoFilters M now fs = proto_filters M now [] fs"

definition makeModelFilter :: "('v, 'b) marshaler \<Rightarrow> 'b pb_filter \<Rightarrow> 'v doc_filter dresult" where
  "makeModelFilter M pf =
     andThen (SafeDecode M map_ptr (pbl_Data pf)) (\<lambda>slab.
       Ok \<lparr>fl_FieldPath = case_path (DefaultLowerCase M) (pbl_FieldPath pf), fl_Value = field_value slab protoFieldKey,
           fl_Op = op_of_text (pbl_Operation pf)\<rparr>)"

fun makeModelFilters :: "('v, 'b) marshaler \<Rightarrow> 'b pb_filter list \<Rightarrow> 'v doc_filter list dresult" where
  "makeModelFilters M [] = Ok []"
| "makeModelFilters M (pf # pfs) =
     andThen (makeModelFilter M pf) (\<lambda>f. andThen (makeModelFilters M pfs) (\<lambda>ret. Ok (f # ret)))"

fun makeModelFields :: "('v, 'b) marshaler \<Rightarrow> 'b pb_field list \<Rightarrow> 'v doc_update list dresult" where
  "makeModelFields M [] = Ok []"
| "makeModelFields M (u # us) =
     andThen (makeModelFilter M \<lparr>pbl_FieldPath = pbf_FieldPath u, pbl_Data = pbf_Data u, pbl_Operation = ''''\<rparr>) (\<lambda>f.
     andThen (makeModelFields M us) (\<lambda>ret. Ok (\<lparr>up_FieldPath = fl_FieldPath f, up_Value = fl_Value f\<rparr> # ret)))"

definition makeModelUpdates :: "('v, 'b) marshaler \<Rightarrow> 'b pb_field list \<Rightarrow> 'v doc_update list dresult" where
  "makeModelUpdates M us = makeModelFields M us"

definition makeModelPreconds :: "('v, 'b) marshaler \<Rightarrow> 'b pb_field list \<Rightarrow> 'v doc_update list dresult" where
  "makeModelPreconds M ps = makeModelFields M ps"

section \<open>The server\<close>

text \<open>The codes of package codes that the program names; an error of a handler is a status or any other.\<close>

datatype code = CUnknown | CFailedPrecondition | CNotFound | CAlreadyExists | CUnauthenticated | CPermissionDenied | COther string

datatype rpc_error = Status code string | GoError docerr

fun docerr_text :: "docerr \<Rightarrow> string" where
  "docerr_text DNotFound = ''document not found''"
| "docerr_text DAlreadyExists = ''document already exists''"
| "docerr_text DPreconditionFailed = ''document pre-condition was not met''"
| "docerr_text DPermissionDenied = ''access to document denied''"
| "docerr_text (DError s) = s"

text \<open>
  The service behind the server. Its \<open>List\<close> gives an iterator, whose successive results are
  \<open>sv_docs\<close>.
\<close>

record ('s, 'v, 'b) rpc_server =
  sv_marshaler :: "('v, 'b) marshaler"
  sv_other :: "('s, 'v) service"
  sv_docs :: "'v doc_filter list \<Rightarrow> 's \<Rightarrow> 'v fields dresult list dresult \<times> 's"

definition srv_Create ::
  "('s, 'v, 'b) rpc_server \<Rightarrow> gotime \<Rightarrow> string \<Rightarrow> 'b \<Rightarrow> 's \<Rightarrow> (rpc_error, bool) outcome \<times> 's" where
  "srv_Create S now i data s =
     (case SafeDecode (sv_marshaler S) map_ptr data of
        Err e \<Rightarrow> (Err (GoError e), s)
      | Panic \<Rightarrow> (Panic, s)
      | Ok pr \<Rightarrow>
          (case svc_Create (sv_other S) now i (GMap True pr) s of
             (Err e, s) \<Rightarrow>
               (if e = DAlreadyExists then Ok True
                else if e = DPermissionDenied then Err (Status CPermissionDenied '''') else Err (GoError e), s)
           | (Panic, s) \<Rightarrow> (Panic, s)
           | (Ok _, s) \<Rightarrow> (Ok False, s)))"

text \<open>\<open>Set\<close> and \<open>Delete\<close> return the error of the service along with their response.\<close>

definition permission_status :: "docerr \<Rightarrow> rpc_error" where
  "permission_status e = (if e = DPermissionDenied then Status CPermissionDenied '''' else GoError e)"

definition srv_Set ::
  "('s, 'v, 'b) rpc_server \<Rightarrow> gotime \<Rightarrow> string \<Rightarrow> 'b \<Rightarrow> 's \<Rightarrow> (rpc_error, unit) outcome \<times> 's" where
  "srv_Set S now i data s =
     (case SafeDecode (sv_marshaler S) map_ptr data of
        Err e \<Rightarrow> (Err (GoError e), s)
      | Panic \<Rightarrow> (Panic, s)
      | Ok pr \<Rightarrow>
          (case svc_Set (sv_other S) now i (GPtr (Some (GMap True pr))) s of (r, s) \<Rightarrow> (mapErr permission_status r, s)))"

definition srv_Update ::
  "('s, 'v, 'b) rpc_server \<Rightarrow> gotime \<Rightarrow> string \<Rightarrow> 'b pb_field list \<Rightarrow> 'b pb_field list \<Rightarrow> 's \<Rightarrow>
   (rpc_error, update_response) outcome \<times> 's" where
  "srv_Update S now i updates preconditions s =
     (case makeModelUpdates (sv_marshaler S) updates of
        Err e \<Rightarrow> (Err (GoError e), s)
      | Panic \<Rightarrow> (Panic, s)
      | Ok us \<Rightarrow>
          (case makeModelPreconds (sv_marshaler S) preconditions of
             Err e \<Rightarrow> (Err (GoError e), s)
           | Panic \<Rightarrow> (Panic, s)
           | Ok ps \<Rightarrow>
               if us = [] then (Err (GoError (DError ''invalid request: no paths to update'')), s)
               else
                 (case svc_Update (sv_other S) now i us ps s of
                    (Err e, s) \<Rightarrow>
                      (case e of
                         DNotFound \<Rightarrow> Ok UpdNotFound
                       | DPreconditionFailed \<Rightarrow> Ok UpdPreconditionFailed
                       | DPermissionDenied \<Rightarrow> Err (Status CPermissionDenied '''')
                       | _ \<Rightarrow> Err (GoError e), s)
                  | (Panic, s) \<Rightarrow> (Panic, s)
                  | (Ok _, s) \<Rightarrow> (Ok Updated, s))))"

text \<open>The answer of \<open>Get\<close>: \<open>None\<close> is the flag \<open>NotFound\<close>. Encoding stamps the document.\<close>

definition srv_Get :: "('s, 'v, 'b) rpc_server \<Rightarrow> gotime \<Rightarrow> string \<Rightarrow> 's \<Rightarrow> (rpc_error, 'b option) outcome \<times> 's" where
  "srv_Get S now i s =
     (case svc_Get (sv_other S) i map_ptr s of
        (Err e, s) \<Rightarrow>
          (if e = DNotFound then Ok None
           else if e = DPermissionDenied then Err (Status CPermissionDenied '''') else Err (GoError e), s)
      | (Panic, s) \<Rightarrow> (Panic, s)
      | (Ok pr, s) \<Rightarrow> (mapErr GoError (andThen (Encode (sv_marshaler S) now now (GMap True pr) False) (\<lambda>b. Ok (Some b))), s))"

definition srv_Delete :: "('s, 'v, 'b) rpc_server \<Rightarrow> string \<Rightarrow> 's \<Rightarrow> (rpc_error, unit) outcome \<times> 's" where
  "srv_Delete S i s = (case svc_Delete (sv_other S) i s of (r, s) \<Rightarrow> (mapErr permission_status r, s))"

text \<open>The messages of a stream. It stops at the first error with a text.\<close>

fun streamList :: "('v, 'b) marshaler \<Rightarrow> gotime \<Rightarrow> 'v fields dresult list \<Rightarrow> 'b list_response list dresult" where
  "streamList M now [] = Ok []"
| "streamList M now (Ok pr # docs) =
     andThen (Encode M now now (GMap True pr) False) (\<lambda>b. andThen (streamList M now docs) (\<lambda>ms.
       Ok (\<lparr>lr_Error = '''', lr_Data = Some b\<rparr> # ms)))"
| "streamList M now (Err e # docs) =
     (if docerr_text e \<noteq> '''' then Ok [\<lparr>lr_Error = docerr_text e, lr_Data = None\<rparr>]
      else andThen (streamList M now docs) (\<lambda>ms. Ok (\<lparr>lr_Error = docerr_text e, lr_Data = None\<rparr> # ms)))"
| "streamList M now (Panic # docs) = Panic"

definition srv_List ::
  "('s, 'v, 'b) rpc_server \<Rightarrow> gotime \<Rightarrow> 'b pb_filter list \<Rightarrow> 's \<Rightarrow> (rpc_error, 'b list_response list) outcome \<times> 's" where
  "srv_List S now filters s =
     (case makeModelFilters (sv_marshaler S) filters of
        Err e \<Rightarrow> (Err (GoError e), s)
      | Panic \<Rightarrow> (Panic, s)
      | Ok fs \<Rightarrow>
          (case sv_docs S fs s of (r, s) \<Rightarrow>
            (andThen (mapErr permission_status r) (\<lambda>docs. mapErr GoError (streamList (sv_marshaler S) now docs)), s)))"

section \<open>The transport\<close>

text \<open>
  A call is delivered and answered; or its request, or its answer, is lost and the client gets a
  status of the transport; or the stream it opens is cut after some messages. An error of a handler
  that is not a status reaches the client as status Unknown with its text.
\<close>

datatype rpc_fault = NoFault | NotSent code string | NoAnswer code string | Cut nat code string

fun to_status :: "rpc_error \<Rightarrow> rpc_error" where
  "to_status (Status c m) = Status c m"
| "to_status (GoError e) = Status CUnknown (docerr_text e)"

fun invoke :: "rpc_fault \<Rightarrow> ('s \<Rightarrow> (rpc_error, 'r) outcome \<times> 's) \<Rightarrow> 's \<Rightarrow> (rpc_error, 'r) outcome \<times> 's" where
  "invoke (NotSent c m) h s = (Err (Status c m), s)"
| "invoke (NoAnswer c m) h s = (case h s of (Panic, s) \<Rightarrow> (Panic, s) | (_, s) \<Rightarrow> (Err (Status c m), s))"
| "invoke _ h s = (case h s of (r, s) \<Rightarrow> (mapErr to_status r, s))"

section \<open>The iterator of the client\<close>

text \<open>The messages still to come, what ends the stream (\<open>None\<close> is \<open>io.EOF\<close>), and the two fields.\<close>

datatype stream_end = EOF | Broken rpc_error

record 'b rpc_iterator =
  ri_msgs :: "'b list_response list"
  ri_end :: stream_end
  ri_next :: "'b list_response option"
  ri_nextErr :: "stream_end option"

definition RecvMsg :: "'b rpc_iterator \<Rightarrow> 'b list_response \<times> stream_end option \<times> 'b rpc_iterator" where
  "RecvMsg it =
     (case ri_msgs it of
        [] \<Rightarrow> (\<lparr>lr_Error = '''', lr_Data = None\<rparr>, Some (ri_end it), it)
      | m # ms \<Rightarrow> (m, None, it\<lparr>ri_msgs := ms\<rparr>))"

definition rpc_HasNext :: "'b rpc_iterator \<Rightarrow> bool \<times> 'b rpc_iterator" where
  "rpc_HasNext it =
     (if ri_next it \<noteq> None then (True, it)
      else case RecvMsg it of
        (m, e, it) \<Rightarrow>
          (let it = it\<lparr>ri_nextErr := e\<rparr> in if e = Some EOF then (False, it) else (True, it\<lparr>ri_next := Some m\<rparr>)))"

fun code_text :: "code \<Rightarrow> string" where
  "code_text CUnknown = ''Unknown''"
| "code_text CFailedPrecondition = ''FailedPrecondition''"
| "code_text CNotFound = ''NotFound''"
| "code_text CAlreadyExists = ''AlreadyExists''"
| "code_text CUnauthenticated = ''Unauthenticated''"
| "code_text CPermissionDenied = ''PermissionDenied''"
| "code_text (COther s) = s"

fun convertRpcError :: "rpc_error \<Rightarrow> docerr" where
  "convertRpcError (GoError e) = e"
| "convertRpcError (Status c m) =
     (case c of
        CFailedPrecondition \<Rightarrow> DPreconditionFailed
      | CNotFound \<Rightarrow> DNotFound
      | CAlreadyExists \<Rightarrow> DAlreadyExists
      | CUnauthenticated \<Rightarrow> DPermissionDenied
      | CPermissionDenied \<Rightarrow> DPermissionDenied
      | _ \<Rightarrow> DError (''rpc error: code = '' @ code_text c @ '' desc = '' @ m))"

fun convert_end :: "stream_end \<Rightarrow> docerr" where
  "convert_end EOF = DError ''EOF''"
| "convert_end (Broken e) = convertRpcError e"

definition stream_error :: "string \<Rightarrow> docerr" where
  "stream_error errStr =
     (if sublist (docerr_text DNotFound) errStr then DNotFound
      else if sublist (docerr_text DAlreadyExists) errStr then DAlreadyExists
      else if sublist (docerr_text DPreconditionFailed) errStr then DPreconditionFailed
      else if sublist (docerr_text DPermissionDenied) errStr then DPermissionDenied
      else DError errStr)"

text \<open>\<open>nodata\<close> is what the codec makes of no bytes.\<close>

definition rpc_NextTo ::
  "('v, 'b) marshaler \<Rightarrow> 'v fields dresult \<Rightarrow> 'v gval \<Rightarrow> 'b rpc_iterator \<Rightarrow> 'v fields dresult \<times> 'b rpc_iterator" where
  "rpc_NextTo M nodata rcv it =
     (case if ri_next it = None \<and> ri_nextErr it = None then rpc_HasNext it else (True, it) of
        (False, it) \<Rightarrow> (Err (DError ''EOF''), it)
      | (True, it) \<Rightarrow>
          (let rest = it\<lparr>ri_next := None, ri_nextErr := None\<rparr> in
           case (ri_nextErr it, ri_next it) of
             (Some e, _) \<Rightarrow> (Err (convert_end e), rest)
           | (None, None) \<Rightarrow> (Panic, rest)
           | (None, Some m) \<Rightarrow>
               if lr_Error m \<noteq> '''' then (Err (stream_error (lr_Error m)), rest)
               else (case lr_Data m of
                       Some b \<Rightarrow> (SafeDecode M rcv b, rest)
                     | None \<Rightarrow> (if IsEncodeable rcv then nodata else Err (DError ''receiver is not a pointer and not a map or is nil''), rest))))"

text \<open>The loop of a caller that drains an iterator into maps.\<close>

function rpc_drain :: "('v, 'b) marshaler \<Rightarrow> 'v fields dresult \<Rightarrow> 'b rpc_iterator \<Rightarrow> 'v fields list dresult" where
  "rpc_drain M nodata it =
     (case rpc_HasNext it of
        (False, it) \<Rightarrow> Ok []
      | (True, it) \<Rightarrow>
          (case rpc_NextTo M nodata map_ptr it of
             (Ok f, it) \<Rightarrow> andThen (rpc_drain M nodata it) (\<lambda>fs. Ok (f # fs))
           | (Err e, it) \<Rightarrow> Err e
           | (Panic, it) \<Rightarrow> Panic))"
  by pat_completeness auto

termination
  by (relation "measure (\<lambda>(M, nodata, it). length (ri_msgs it) + (if ri_next it = None then 0 else 1))")
    (auto simp: rpc_HasNext_def RecvMsg_def rpc_NextTo_def Let_def split: if_splits list.splits option.splits)

declare rpc_drain.simps [simp del]

section \<open>The client\<close>

definition encodeCreateData :: "('v, 'b) marshaler \<Rightarrow> gotime \<Rightarrow> 'v gval \<Rightarrow> 'b dresult" where
  "encodeCreateData M now data =
     (if data = GNil then Panic
      else andThen (DerefCreateValue data) (\<lambda>d. Encode M now now d True))"

text \<open>
  Each call takes the clock of the client and that of the server, and what the transport does to it.
\<close>

record ('s, 'v, 'b) rpc_link =
  lk_marshaler :: "('v, 'b) marshaler"
  lk_nodata :: "'v fields dresult"
  lk_server :: "('s, 'v, 'b) rpc_server"

definition cl_Create ::
  "('s, 'v, 'b) rpc_link \<Rightarrow> gotime \<Rightarrow> gotime \<Rightarrow> rpc_fault \<Rightarrow> string \<Rightarrow> 'v gval \<Rightarrow> 's \<Rightarrow> unit dresult \<times> 's" where
  "cl_Create L now now' flt i data s =
     (case encodeCreateData (lk_marshaler L) now data of
        Err e \<Rightarrow> (Err e, s)
      | Panic \<Rightarrow> (Panic, s)
      | Ok b \<Rightarrow>
          (case invoke flt (srv_Create (lk_server L) now' i b) s of
             (r, s) \<Rightarrow> (andThen (mapErr convertRpcError r) (\<lambda>exists. if exists then Err DAlreadyExists else Ok ()), s)))"

definition cl_Set ::
  "('s, 'v, 'b) rpc_link \<Rightarrow> gotime \<Rightarrow> gotime \<Rightarrow> rpc_fault \<Rightarrow> string \<Rightarrow> 'v gval \<Rightarrow> 's \<Rightarrow> unit dresult \<times> 's" where
  "cl_Set L now now' flt i data s =
     (case encodeCreateData (lk_marshaler L) now data of
        Err e \<Rightarrow> (Err e, s)
      | Panic \<Rightarrow> (Panic, s)
      | Ok b \<Rightarrow> (case invoke flt (srv_Set (lk_server L) now' i b) s of (r, s) \<Rightarrow> (mapErr convertRpcError r, s)))"

definition cl_Update ::
  "('s, 'v, 'b) rpc_link \<Rightarrow> gotime \<Rightarrow> gotime \<Rightarrow> rpc_fault \<Rightarrow> string \<Rightarrow> 'v doc_update list \<Rightarrow> 'v doc_update list \<Rightarrow> 's \<Rightarrow>
   unit dresult \<times> 's" where
  "cl_Update L now now' flt i updates preconds s =
     (if updates = [] then (Panic, s)
      else case andThen (makeProtoUpdates (lk_marshaler L) now updates) (\<lambda>us.
             andThen (makeProtoPreconditions (lk_marshaler L) now preconds) (\<lambda>ps. Ok (us, ps))) of
        Err e \<Rightarrow> (Err e, s)
      | Panic \<Rightarrow> (Panic, s)
      | Ok (us, ps) \<Rightarrow>
          (case invoke flt (srv_Update (lk_server L) now' i us ps) s of
             (r, s) \<Rightarrow> (andThen (mapErr convertRpcError r) (\<lambda>res. case res of
                UpdNotFound \<Rightarrow> Err DNotFound | UpdPreconditionFailed \<Rightarrow> Err DPreconditionFailed | Updated \<Rightarrow> Ok ()), s)))"

definition cl_Get ::
  "('s, 'v, 'b) rpc_link \<Rightarrow> gotime \<Rightarrow> rpc_fault \<Rightarrow> string \<Rightarrow> 'v gval \<Rightarrow> 's \<Rightarrow> 'v fields dresult \<times> 's" where
  "cl_Get L now' flt i doc s =
     (case invoke flt (srv_Get (lk_server L) now' i) s of
        (r, s) \<Rightarrow> (andThen (mapErr convertRpcError r) (\<lambda>res. case res of
           None \<Rightarrow> Err DNotFound | Some b \<Rightarrow> SafeDecode (lk_marshaler L) doc b), s))"

definition cl_Delete :: "('s, 'v, 'b) rpc_link \<Rightarrow> rpc_fault \<Rightarrow> string \<Rightarrow> 's \<Rightarrow> unit dresult \<times> 's" where
  "cl_Delete L flt i s = (case invoke flt (srv_Delete (lk_server L) i) s of (r, s) \<Rightarrow> (mapErr convertRpcError r, s))"

text \<open>
  Opening the stream fails when the request is not sent; an error of the handler and a broken
  transport end the stream.
\<close>

definition stream_of :: "'b list_response list \<Rightarrow> stream_end \<Rightarrow> 'b rpc_iterator" where
  "stream_of ms e = \<lparr>ri_msgs = ms, ri_end = e, ri_next = None, ri_nextErr = None\<rparr>"

fun open_stream ::
  "rpc_fault \<Rightarrow> ('s \<Rightarrow> (rpc_error, 'b list_response list) outcome \<times> 's) \<Rightarrow> 's \<Rightarrow> (rpc_error, 'b rpc_iterator) outcome \<times> 's" where
  "open_stream (NotSent c m) h s = (Err (Status c m), s)"
| "open_stream (NoAnswer c m) h s = (case h s of (Panic, s) \<Rightarrow> (Panic, s) | (_, s) \<Rightarrow> (Ok (stream_of [] (Broken (Status c m))), s))"
| "open_stream (Cut n c m) h s =
     (case h s of
        (Panic, s) \<Rightarrow> (Panic, s)
      | (Ok ms, s) \<Rightarrow> (Ok (stream_of (take n ms) (if n \<le> length ms then Broken (Status c m) else EOF)), s)
      | (Err e, s) \<Rightarrow> (Ok (stream_of [] (Broken (Status c m))), s))"
| "open_stream NoFault h s =
     (case h s of
        (Panic, s) \<Rightarrow> (Panic, s)
      | (Ok ms, s) \<Rightarrow> (Ok (stream_of ms EOF), s)
      | (Err e, s) \<Rightarrow> (Ok (stream_of [] (Broken (to_status e))), s))"

definition cl_List ::
  "('s, 'v, 'b) rpc_link \<Rightarrow> gotime \<Rightarrow> gotime \<Rightarrow> rpc_fault \<Rightarrow> 'v doc_filter list \<Rightarrow> 's \<Rightarrow> 'b rpc_iterator dresult \<times> 's" where
  "cl_List L now now' flt filters s =
     (case makeProtoFilters (lk_marshaler L) now filters of
        Err e \<Rightarrow> (Err e, s)
      | Panic \<Rightarrow> (Panic, s)
      | Ok fs \<Rightarrow> (case open_stream flt (srv_List (lk_server L) now' fs) s of (r, s) \<Rightarrow> (mapErr convertRpcError r, s)))"

text \<open>The connection is closed only by the client that opened it.\<close>

definition cl_Close :: "bool \<Rightarrow> ('s \<Rightarrow> unit dresult \<times> 's) \<Rightarrow> 's \<Rightarrow> unit dresult \<times> 's" where
  "cl_Close ownsConnection closer s = (if ownsConnection then closer s else (Ok (), s))"

section \<open>The client as a service\<close>

text \<open>
  The state of the server with what the network and the clocks will do: the faults of the calls to
  come and the time at the server at each.
\<close>

record 's net =
  nt_server :: 's
  nt_fault :: "nat \<Rightarrow> rpc_fault"
  nt_clock :: "nat \<Rightarrow> gotime"
  nt_calls :: nat

definition on_net :: "(gotime \<Rightarrow> rpc_fault \<Rightarrow> 's \<Rightarrow> 'r \<times> 's) \<Rightarrow> 's net \<Rightarrow> 'r \<times> 's net" where
  "on_net f n =
     (case f (nt_clock n (nt_calls n)) (nt_fault n (nt_calls n)) (nt_server n) of
        (r, s) \<Rightarrow> (r, n\<lparr>nt_server := s, nt_calls := nt_calls n + 1\<rparr>))"

text \<open>The clock of the client in \<open>List\<close> stamps only the maps that carry the values of filters.\<close>

definition remote_service :: "('s, 'v, 'b) rpc_link \<Rightarrow> gotime \<Rightarrow> ('s net, 'v) service" where
  "remote_service L lnow =
     \<lparr>svc_Create = (\<lambda>now i d. on_net (\<lambda>now' flt. cl_Create L now now' flt i d)),
      svc_Set = (\<lambda>now i d. on_net (\<lambda>now' flt. cl_Set L now now' flt i d)),
      svc_Update = (\<lambda>now i us ps. on_net (\<lambda>now' flt. cl_Update L now now' flt i us ps)),
      svc_Get = (\<lambda>i rcv. on_net (\<lambda>now' flt. cl_Get L now' flt i rcv)),
      svc_Delete = (\<lambda>i. on_net (\<lambda>now' flt. cl_Delete L flt i)),
      svc_List = (\<lambda>fs. on_net (\<lambda>now' flt s. case cl_List L lnow now' flt fs s of
         (r, s) \<Rightarrow> (andThen r (rpc_drain (lk_marshaler L) (lk_nodata L)), s))),
      svc_Close = (\<lambda>n. (Ok (), n))\<rparr>"

lemma remote_service_simps [simp]:
  "svc_Create (remote_service L lnow) now i d = on_net (\<lambda>now' flt. cl_Create L now now' flt i d)"
  "svc_Set (remote_service L lnow) now i d = on_net (\<lambda>now' flt. cl_Set L now now' flt i d)"
  "svc_Update (remote_service L lnow) now i us ps = on_net (\<lambda>now' flt. cl_Update L now now' flt i us ps)"
  "svc_Get (remote_service L lnow) i rcv = on_net (\<lambda>now' flt. cl_Get L now' flt i rcv)"
  "svc_Delete (remote_service L lnow) i = on_net (\<lambda>now' flt. cl_Delete L flt i)"
  "svc_List (remote_service L lnow) fs = on_net (\<lambda>now' flt s. case cl_List L lnow now' flt fs s of
         (r, s) \<Rightarrow> (andThen r (rpc_drain (lk_marshaler L) (lk_nodata L)), s))"
  "svc_Close (remote_service L lnow) n = (Ok (), n)"
  by (simp_all add: remote_service_def)

text \<open>A server in front of the service in memory.\<close>

definition memory_link :: "('v, 'b) memory_config \<Rightarrow> 'v fields dresult \<Rightarrow> ('b storage, 'v, 'b) rpc_link" where
  "memory_link C nodata =
     \<lparr>lk_marshaler = mem_marshaler C, lk_nodata = nodata,
      lk_server = \<lparr>sv_marshaler = mem_marshaler C, sv_other = memory_service C,
        sv_docs = (\<lambda>fs s. case mem_List C fs s of
          (r, s) \<Rightarrow> (andThen r (\<lambda>it. Ok (map (SafeDecode (mem_marshaler C) map_ptr) (li_docs it))), s))\<rparr>\<rparr>"

lemma memory_link_simps [simp]:
  "lk_marshaler (memory_link C nodata) = mem_marshaler C" "lk_nodata (memory_link C nodata) = nodata"
  "sv_marshaler (lk_server (memory_link C nodata)) = mem_marshaler C"
  "sv_other (lk_server (memory_link C nodata)) = memory_service C"
  "sv_docs (lk_server (memory_link C nodata)) fs s =
     (case mem_List C fs s of (r, s) \<Rightarrow> (andThen r (\<lambda>it. Ok (map (SafeDecode (mem_marshaler C) map_ptr) (li_docs it))), s))"
  by (simp_all add: memory_link_def)

section \<open>What crosses the wire\<close>

definition stamp_key :: "('v, 'b) marshaler \<Rightarrow> string" where
  "stamp_key M = (if DefaultLowerCase M then LowerUpdatedAtField else DefaultUpdatedAtField)"

text \<open>
  The codec decodes what it encodes, and a document that was decoded can be encoded again without
  loss, and with another stamp.
\<close>

definition wire_codec :: "('v, 'b) marshaler \<Rightarrow> bool" where
  "wire_codec M \<longleftrightarrow>
     (\<forall>d b. Marshal M d = Some b \<longrightarrow> Unmarshal M b \<noteq> None) \<and>
     (\<forall>b f. Unmarshal M b = Some f \<longrightarrow> (\<exists>b'. Marshal M (GMap True f) = Some b' \<and> Unmarshal M b' = Some f)) \<and>
     (\<forall>b f t. Unmarshal M b = Some f \<longrightarrow> Marshal M (GMap True (setMapField f (stamp_key M) (VTime t))) \<noteq> None)"

text \<open>A value survives inside the map that carries it.\<close>

definition wire_value :: "('v, 'b) marshaler \<Rightarrow> gotime \<Rightarrow> 'v gvalue \<Rightarrow> bool" where
  "wire_value M now v \<longleftrightarrow>
     (\<exists>b g. Encode M now now (GMap True [(protoFieldKey, v)]) False = Ok b \<and> Unmarshal M b = Some g \<and> field_value g protoFieldKey = v)"

text \<open>
  Calls that mean the same on the other side: documents that encode, values that survive, updates
  that do not name the time of update in another case, operators by the name of their constant.
\<close>

fun wireable :: "('v, 'b) marshaler \<Rightarrow> gotime \<Rightarrow> 'v call \<Rightarrow> bool" where
  "wireable M lnow (CCreate now i d) \<longleftrightarrow> (\<forall>d'. DerefCreateValue d = Ok d' \<longrightarrow> (\<exists>b. Encode M now now d' True = Ok b))"
| "wireable M lnow (CSet now i d) \<longleftrightarrow> (\<forall>d'. DerefCreateValue d = Ok d' \<longrightarrow> (\<exists>b. Encode M now now d' True = Ok b))"
| "wireable M lnow (CUpdate now i us ps) \<longleftrightarrow>
     (\<forall>u \<in> set us \<union> set ps. wire_value M now (up_Value u)) \<and>
     (\<forall>u \<in> set us. up_FieldPath u \<noteq> [] \<longrightarrow> DefaultLowerCase M \<longrightarrow>
        ToLower (hd (up_FieldPath u)) = stamp_key M \<longrightarrow> hd (up_FieldPath u) = stamp_key M)"
| "wireable M lnow (CList fs) \<longleftrightarrow>
     (\<forall>f \<in> set fs. wire_value M lnow (fl_Value f) \<and> fl_FieldPath f \<noteq> [] \<and> op_of_text (op_text (fl_Op f)) = fl_Op f)"
| "wireable M lnow _ \<longleftrightarrow> True"

lemma Encode_map_stamped:
  "Encode M now now' (GMap True f) False = orPanic (Marshal M (GMap True (setMapField f (stamp_key M) (VTime now))))"
  by (simp add: Encode_def UpdateUpdatedAtField_def UpdateDefaultUpdatedAtField_def stamp_key_def Let_def)

lemma Encode_map_created: "Encode M now now' (GMap True f) True = orPanic (Marshal M (GMap True f))"
  by (simp add: Encode_def UpdateCreatedAtField_def UpdateDefaultCreatedAtField_def Let_def)

lemma IsEncodeable_map_ptr [simp]: "IsEncodeable map_ptr"
  by (simp add: map_ptr_def)

lemma SafeDecode_map_ptr [simp]: "SafeDecode M map_ptr = decode M"
  by (simp add: SafeDecode_def fun_eq_iff)

definition lowered :: "('v, 'b) marshaler \<Rightarrow> 'v doc_update \<Rightarrow> 'v doc_update" where
  "lowered M u = \<lparr>up_FieldPath = case_path (DefaultLowerCase M) (up_FieldPath u), up_Value = up_Value u\<rparr>"

lemma lowered_simps [simp]:
  "up_FieldPath (lowered M u) = case_path (DefaultLowerCase M) (up_FieldPath u)" "up_Value (lowered M u) = up_Value u"
  by (simp_all add: lowered_def)

lemma carried: "slab = [] \<or> (\<exists>w. slab = [(protoFieldKey, w)]) \<Longrightarrow> AList.update protoFieldKey v slab = [(protoFieldKey, v)]"
  by auto

lemma fields_cross:
  assumes "\<forall>u \<in> set us. wire_value M now (up_Value u)" "slab = [] \<or> (\<exists>w. slab = [(protoFieldKey, w)])"
  shows "\<exists>pfs. proto_fields M now slab us = Ok pfs \<and> makeModelFields M pfs = Ok (map (lowered M) us)"
  using assms
proof (induction us arbitrary: slab)
  case Nil
  then show ?case by simp
next
  case (Cons u us)
  obtain b g where b: "Encode M now now (GMap True [(protoFieldKey, up_Value u)]) False = Ok b" "Unmarshal M b = Some g"
    "field_value g protoFieldKey = up_Value u" using Cons.prems(1) by (auto simp: wire_value_def)
  obtain pfs where "proto_fields M now [(protoFieldKey, up_Value u)] us = Ok pfs" "makeModelFields M pfs = Ok (map (lowered M) us)"
    using Cons.IH [of "[(protoFieldKey, up_Value u)]"] Cons.prems(1) by auto
  then show ?case using b carried [OF Cons.prems(2), of "up_Value u"]
    by (simp add: makeProtoFilter_def Let_def makeModelFilter_def decode_def lowered_def)
qed

lemma filters_cross:
  assumes "\<forall>f \<in> set fs. wire_value M now (fl_Value f) \<and> fl_FieldPath f \<noteq> [] \<and> op_of_text (op_text (fl_Op f)) = fl_Op f"
    "slab = [] \<or> (\<exists>w. slab = [(protoFieldKey, w)])"
  shows "\<exists>pfs. proto_filters M now slab fs = Ok pfs \<and>
    makeModelFilters M pfs = Ok (map (\<lambda>f. f\<lparr>fl_FieldPath := case_path (DefaultLowerCase M) (fl_FieldPath f)\<rparr>) fs)"
  using assms
proof (induction fs arbitrary: slab)
  case Nil
  then show ?case by simp
next
  case (Cons f fs)
  obtain b g where b: "Encode M now now (GMap True [(protoFieldKey, fl_Value f)]) False = Ok b" "Unmarshal M b = Some g"
    "field_value g protoFieldKey = fl_Value f" using Cons.prems(1) by (auto simp: wire_value_def)
  obtain pfs where "proto_filters M now [(protoFieldKey, fl_Value f)] fs = Ok pfs"
    "makeModelFilters M pfs = Ok (map (\<lambda>f. f\<lparr>fl_FieldPath := case_path (DefaultLowerCase M) (fl_FieldPath f)\<rparr>) fs)"
    using Cons.IH [of "[(protoFieldKey, fl_Value f)]"] Cons.prems(1) by auto
  then show ?case using b carried [OF Cons.prems(2), of "fl_Value f"] Cons.prems(1)
    by (simp add: makeProtoFilter_def Let_def makeModelFilter_def decode_def)
qed

text \<open>Lowering the names of fields twice is lowering them once, so the service behind sees the same updates and filters.\<close>

lemma lower_char_idem: "lower_char (lower_char c) = lower_char c"
  by (simp add: lower_char_def of_char_of take_bit_nat_def)

lemma ToLower_idem: "ToLower (ToLower s) = ToLower s"
  by (simp add: ToLower_def lower_char_idem)

lemma case_path_idem [simp]: "case_path l (case_path l p) = case_path l p"
  by (simp add: case_path_def ToLower_idem)

lemma case_path_Nil_iff [simp]: "case_path l p = [] \<longleftrightarrow> p = []"
  by (simp add: case_path_def)

lemma check_preconds_lowered:
  "check_preconds (DefaultLowerCase M) f (map (lowered M) ps) = check_preconds (DefaultLowerCase M) f ps"
  by (induction ps) (auto intro!: arg_cong [where f = "andThen _"])

lemma apply_updates_lowered:
  "\<forall>u \<in> set us. up_FieldPath u \<noteq> [] \<longrightarrow> DefaultLowerCase M \<longrightarrow> ToLower (hd (up_FieldPath u)) = k \<longrightarrow> hd (up_FieldPath u) = k \<Longrightarrow>
   (DefaultLowerCase M \<longrightarrow> ToLower k = k) \<Longrightarrow>
   apply_updates (DefaultLowerCase M) k (map (lowered M) us) f = apply_updates (DefaultLowerCase M) k us f"
proof (induction us arbitrary: f)
  case Nil
  then show ?case by simp
next
  case (Cons u us)
  have hd: "up_FieldPath u \<noteq> [] \<Longrightarrow> hd (case_path (DefaultLowerCase M) (up_FieldPath u)) = k \<longleftrightarrow> hd (up_FieldPath u) = k"
    using Cons.prems by (auto simp: case_path_def hd_map)
  have "apply_updates (DefaultLowerCase M) k (map (lowered M) us) = apply_updates (DefaultLowerCase M) k us"
    using Cons.IH Cons.prems by (simp add: fun_eq_iff)
  then show ?case using hd by simp
qed

lemma UpdateProto_lowered:
  assumes "\<forall>u \<in> set us. up_FieldPath u \<noteq> [] \<longrightarrow> DefaultLowerCase M \<longrightarrow>
      ToLower (hd (up_FieldPath u)) = stamp_key M \<longrightarrow> hd (up_FieldPath u) = stamp_key M"
  shows "UpdateProto M now (map (lowered M) us) f (map (lowered M) ps) = UpdateProto M now us f ps"
proof -
  have "DefaultLowerCase M \<longrightarrow> ToLower (stamp_key M) = stamp_key M"
    by (simp add: stamp_key_def LowerUpdatedAtField_def ToLower_def lower_char_def)
  then show ?thesis unfolding UpdateProto_def Let_def stamp_key_def [symmetric]
    by (simp only: apply_updates_lowered [OF assms] check_preconds_lowered)
qed

lemma MatchesAllFilters_lowered:
  "MatchesAllFilters A l f (map (\<lambda>f. f\<lparr>fl_FieldPath := case_path l (fl_FieldPath f)\<rparr>) fs) = MatchesAllFilters A l f fs"
  by (induction fs) (auto intro!: arg_cong [where f = "andThen _"])

section \<open>Stores on both sides\<close>

text \<open>The stores hold documents of the same IDs that decode to the same.\<close>

definition match_docs :: "('v, 'b) marshaler \<Rightarrow> 'b storage \<Rightarrow> 'b storage \<Rightarrow> bool" where
  "match_docs M = list_all2 (\<lambda>(k, b) (k', b'). k = k' \<and> Unmarshal M b = Unmarshal M b')"

lemma match_docs_refl: "match_docs M s s"
  by (simp add: match_docs_def list.rel_refl split_beta)

lemma match_docs_update:
  "match_docs M s t \<Longrightarrow> Unmarshal M b = Unmarshal M b' \<Longrightarrow> match_docs M (AList.update i b s) (AList.update i b' t)"
  unfolding match_docs_def by (induction s t rule: list_all2_induct) auto

lemma match_docs_delete: "match_docs M s t \<Longrightarrow> match_docs M (AList.delete i s) (AList.delete i t)"
  unfolding match_docs_def by (induction s t rule: list_all2_induct) auto

lemma match_docs_lookup:
  "match_docs M s t \<Longrightarrow> rel_option (\<lambda>b b'. Unmarshal M b = Unmarshal M b') (map_of s i) (map_of t i)"
  unfolding match_docs_def by (induction s t rule: list_all2_induct) auto

lemma match_docs_None: "match_docs M s t \<Longrightarrow> map_of s i = None \<longleftrightarrow> map_of t i = None"
  using match_docs_lookup [of M s t i] by (auto simp: option.rel_sel)

lemma match_docs_getValue:
  "match_docs (mem_marshaler C) s t \<Longrightarrow> mem_getValue C i rcv s = mem_getValue C i rcv t"
  using match_docs_lookup [of "mem_marshaler C" s t i]
  by (cases "map_of s i"; cases "map_of t i") (auto simp: mem_getValue_def SafeDecode_def decode_def)

text \<open>The same errors, up to the texts of those that callers do not test for.\<close>

definition err_agrees :: "docerr \<Rightarrow> docerr \<Rightarrow> bool" where
  "err_agrees e e' \<longleftrightarrow> e = e' \<or> (\<exists>m m'. e = DError m \<and> e' = DError m')"

fun outcome_agrees :: "('a \<Rightarrow> 'b \<Rightarrow> bool) \<Rightarrow> 'a dresult \<Rightarrow> 'b dresult \<Rightarrow> bool" where
  "outcome_agrees R (Ok x) (Ok y) \<longleftrightarrow> R x y"
| "outcome_agrees R (Err e) (Err e') \<longleftrightarrow> err_agrees e e'"
| "outcome_agrees R Panic Panic \<longleftrightarrow> True"
| "outcome_agrees R _ _ \<longleftrightarrow> False"

text \<open>A document that was read: the one stored with its time of update replaced by the clock of the server.\<close>

definition restamped :: "('v, 'b) marshaler \<Rightarrow> gotime \<Rightarrow> 'v fields \<Rightarrow> 'v fields \<Rightarrow> bool" where
  "restamped M t f g \<longleftrightarrow> (\<exists>b. Marshal M (GMap True (setMapField f (stamp_key M) (VTime t))) = Some b \<and> Unmarshal M b = Some g)"

fun agrees :: "('v, 'b) marshaler \<Rightarrow> gotime \<Rightarrow> 'v reply \<Rightarrow> 'v reply \<Rightarrow> bool" where
  "agrees M t (RUnit r) (RUnit r') \<longleftrightarrow> outcome_agrees (=) r r'"
| "agrees M t (RDoc r) (RDoc r') \<longleftrightarrow> outcome_agrees (restamped M t) r r'"
| "agrees M t (RDocs r) (RDocs r') \<longleftrightarrow> outcome_agrees (list_all2 (restamped M t)) r r'"
| "agrees M t _ _ \<longleftrightarrow> False"

lemma outcome_agrees_refl [simp]: "outcome_agrees (=) r r"
  by (cases r) (simp_all add: err_agrees_def)

fun at_server :: "gotime \<Rightarrow> 'v call \<Rightarrow> 'v call" where
  "at_server t (CUpdate now i us ps) = CUpdate t i us ps"
| "at_server t c = c"

section \<open>Writes\<close>

lemma mem_set_remote:
  assumes wire: "wire_codec (mem_marshaler C)" and same: "match_docs (mem_marshaler C) s t"
    and enc: "DerefCreateValue d = Ok d'" "d \<noteq> GNil" "Encode (mem_marshaler C) now now d' True = Ok b"
  shows "\<exists>f. decode (mem_marshaler C) b = Ok f \<and>
    (\<forall>d''. DerefCreateValue d'' = Ok (GMap True f) \<longrightarrow> d'' \<noteq> GNil \<longrightarrow>
      fst (mem_set C now i d x s) \<in> {Ok ()} \<union> (if x then {Err DAlreadyExists} else {}) \<and>
      fst (mem_set C now i d x s) = fst (mem_set C now' i d'' x t) \<and>
      match_docs (mem_marshaler C) (snd (mem_set C now i d x s)) (snd (mem_set C now' i d'' x t)))"
proof -
  obtain d0 where "Marshal (mem_marshaler C) d0 = Some b" using enc(3) by (auto simp: Encode_def outcome_simps)
  then obtain f where f: "Unmarshal (mem_marshaler C) b = Some f" using wire unfolding wire_codec_def by blast
  then obtain b' where b': "Marshal (mem_marshaler C) (GMap True f) = Some b'" "Unmarshal (mem_marshaler C) b' = Some f"
    using wire unfolding wire_codec_def by blast
  have "match_docs (mem_marshaler C) (AList.update i b s) (AList.update i b' t)"
    using match_docs_update [OF same] f b'(2) by simp
  then show ?thesis using f b' enc match_docs_None [OF same, of i] same
    by (auto simp: decode_def mem_set_def Encode_map_created)
qed

section \<open>Calls over the transport\<close>

fun fault_status :: "rpc_fault \<Rightarrow> (code \<times> string) option" where
  "fault_status NoFault = None"
| "fault_status (NotSent c m) = Some (c, m)"
| "fault_status (NoAnswer c m) = Some (c, m)"
| "fault_status (Cut n c m) = Some (c, m)"

fun reply_error :: "'v reply \<Rightarrow> docerr option" where
  "reply_error (RUnit (Err e)) = Some e"
| "reply_error (RDoc (Err e)) = Some e"
| "reply_error (RDocs (Err e)) = Some e"
| "reply_error _ = None"

text \<open>
  What becomes of a call: \<open>r\<close> and \<open>s'\<close> are the reply and the store of the service in memory,
  \<open>r'\<close> the reply of the client, \<open>u\<close> and \<open>u'\<close> the store of the server before and after.
\<close>

definition carried_out ::
  "('v, 'b) marshaler \<Rightarrow> gotime \<Rightarrow> rpc_fault \<Rightarrow> 'v reply \<Rightarrow> 'b storage \<Rightarrow> 'v reply \<Rightarrow> 'b storage \<Rightarrow> 'b storage \<Rightarrow> bool" where
  "carried_out M t flt r s' r' u u' \<longleftrightarrow>
     (agrees M t r r' \<or> (\<exists>c m. fault_status flt = Some (c, m) \<and> reply_error r' = Some (convertRpcError (Status c m)))) \<and>
     (flt = NoFault \<longrightarrow> agrees M t r r') \<and>
     (match_docs M s' u' \<or> (\<exists>c m. flt = NotSent c m) \<and> u' = u)"

lemma not_sent_agrees: "agrees M t r r' \<Longrightarrow> match_docs M s' u \<Longrightarrow> carried_out M t flt r s' r' u u"
  by (simp add: carried_out_def)

lemma invoke_carried:
  assumes h: "h u = (q, u1)" and same: "match_docs M s' u1"
    and agree: "agrees M t r (F (andThen (mapErr convertRpcError (mapErr to_status q)) k))"
    and F: "\<And>e. reply_error (F (Err e)) = Some e"
    and run: "invoke flt h u = (q', u')"
  shows "carried_out M t flt r s' (F (andThen (mapErr convertRpcError q') k)) u u'"
proof (cases flt)
  case (NotSent c m)
  then show ?thesis using run F by (auto simp: carried_out_def)
next
  case (NoAnswer c m)
  then show ?thesis using run F h same agree by (cases q) (auto simp: carried_out_def)
qed (use run h same agree in \<open>auto simp: carried_out_def\<close>)

lemma andThen_Ok: "andThen m Ok = m"
  by (cases m) simp_all

lemma encode_create:
  "d = GNil \<Longrightarrow> encodeCreateData M now d = Panic"
  "DerefCreateValue d = Err e \<Longrightarrow> d \<noteq> GNil \<Longrightarrow> encodeCreateData M now d = Err e"
  "DerefCreateValue d = Panic \<Longrightarrow> encodeCreateData M now d = Panic"
  "DerefCreateValue d = Ok d' \<Longrightarrow> d \<noteq> GNil \<Longrightarrow> encodeCreateData M now d = Encode M now now d' True"
  by (simp_all add: encodeCreateData_def)

lemma create_carried:
  assumes wire: "wire_codec (mem_marshaler C)" and same: "match_docs (mem_marshaler C) s u"
    and ok: "wireable (mem_marshaler C) lnow (CCreate now i d)"
    and mem: "mem_Create C now i d s = (r, s')" and run: "cl_Create (memory_link C nodata) now now' flt i d u = (r', u')"
  shows "carried_out (mem_marshaler C) now' flt (RUnit r) s' (RUnit r') u u'"
proof (cases "d \<noteq> GNil \<and> (\<exists>d'. DerefCreateValue d = Ok d')")
  case False
  then show ?thesis using mem run same
    by (cases "d = GNil"; cases "DerefCreateValue d")
      (auto simp: mem_Create_def mem_set_def cl_Create_def encode_create err_agrees_def intro!: not_sent_agrees)
next
  case True
  then obtain d' b where d': "DerefCreateValue d = Ok d'" "d \<noteq> GNil" and b: "Encode (mem_marshaler C) now now d' True = Ok b"
    using ok by auto
  obtain f where f: "decode (mem_marshaler C) b = Ok f"
    and all: "DerefCreateValue d'' = Ok (GMap True f) \<longrightarrow> d'' \<noteq> GNil \<longrightarrow>
      fst (mem_set C now i d True s) \<in> {Ok ()} \<union> (if True then {Err DAlreadyExists} else {}) \<and>
      fst (mem_set C now i d True s) = fst (mem_set C now' i d'' True u) \<and>
      match_docs (mem_marshaler C) (snd (mem_set C now i d True s)) (snd (mem_set C now' i d'' True u))" for d''
    using mem_set_remote [OF wire same d' b, of i True now'] by blast
  have set: "fst (mem_set C now i d True s) \<in> {Ok (), Err DAlreadyExists}"
      "fst (mem_set C now i d True s) = fst (mem_set C now' i (GMap True f) True u)"
      "match_docs (mem_marshaler C) (snd (mem_set C now i d True s)) (snd (mem_set C now' i (GMap True f) True u))"
    using all [of "GMap True f"] by auto
  have mem': "r = fst (mem_set C now i d True s)" "s' = snd (mem_set C now i d True s)" using mem by (simp_all add: mem_Create_def)
  obtain q u1 where q: "srv_Create (lk_server (memory_link C nodata)) now' i b u = (q, u1)"
    by (cases "srv_Create (lk_server (memory_link C nodata)) now' i b u")
  have "u1 = snd (mem_set C now' i (GMap True f) True u) \<and>
      q = (if r = Ok () then Ok False else Ok True)"
    using q f set(1,2) unfolding mem'(1) by (auto simp: srv_Create_def mem_Create_def split: prod.splits outcome.splits)
  then have u1: "u1 = snd (mem_set C now' i (GMap True f) True u)" and q': "q = (if r = Ok () then Ok False else Ok True)" by auto
  obtain q' where inv: "invoke flt (srv_Create (lk_server (memory_link C nodata)) now' i b) u = (q', u')"
    and r': "r' = andThen (mapErr convertRpcError q') (\<lambda>exists. if exists then Err DAlreadyExists else Ok ())"
    using run d' b by (auto simp: cl_Create_def encode_create split: prod.splits)
  have same': "match_docs (mem_marshaler C) s' u1" unfolding mem'(2) u1 by (rule set(3))
  have "r = Ok () \<or> r = Err DAlreadyExists" using set(1) mem'(1) by auto
  then have agree: "agrees (mem_marshaler C) now' (RUnit r)
      (RUnit (andThen (mapErr convertRpcError (mapErr to_status q)) (\<lambda>exists. if exists then Err DAlreadyExists else Ok ())))"
    unfolding q' by (auto simp: err_agrees_def)
  show ?thesis unfolding r' by (rule invoke_carried [where F = RUnit, OF q same' agree _ inv]) simp
qed

lemma set_carried:
  assumes wire: "wire_codec (mem_marshaler C)" and same: "match_docs (mem_marshaler C) s u"
    and ok: "wireable (mem_marshaler C) lnow (CSet now i d)"
    and mem: "mem_Set C now i d s = (r, s')" and run: "cl_Set (memory_link C nodata) now now' flt i d u = (r', u')"
  shows "carried_out (mem_marshaler C) now' flt (RUnit r) s' (RUnit r') u u'"
proof (cases "d \<noteq> GNil \<and> (\<exists>d'. DerefCreateValue d = Ok d')")
  case False
  then show ?thesis using mem run same
    by (cases "d = GNil"; cases "DerefCreateValue d")
      (auto simp: mem_Set_def mem_set_def cl_Set_def encode_create err_agrees_def intro!: not_sent_agrees)
next
  case True
  then obtain d' b where d': "DerefCreateValue d = Ok d'" "d \<noteq> GNil" and b: "Encode (mem_marshaler C) now now d' True = Ok b"
    using ok by auto
  obtain f where f: "decode (mem_marshaler C) b = Ok f"
    and all: "DerefCreateValue d'' = Ok (GMap True f) \<longrightarrow> d'' \<noteq> GNil \<longrightarrow>
      fst (mem_set C now i d False s) \<in> {Ok ()} \<union> (if False then {Err DAlreadyExists} else {}) \<and>
      fst (mem_set C now i d False s) = fst (mem_set C now' i d'' False u) \<and>
      match_docs (mem_marshaler C) (snd (mem_set C now i d False s)) (snd (mem_set C now' i d'' False u))" for d''
    using mem_set_remote [OF wire same d' b, of i False now'] by blast
  have set: "fst (mem_set C now i d False s) = Ok ()"
      "fst (mem_set C now' i (GPtr (Some (GMap True f))) False u) = Ok ()"
      "match_docs (mem_marshaler C) (snd (mem_set C now i d False s)) (snd (mem_set C now' i (GPtr (Some (GMap True f))) False u))"
    using all [of "GPtr (Some (GMap True f))"] by auto
  have mem': "r = Ok ()" "s' = snd (mem_set C now i d False s)" using mem set(1) by (auto simp: mem_Set_def)
  obtain q u1 where q: "srv_Set (lk_server (memory_link C nodata)) now' i b u = (q, u1)"
    by (cases "srv_Set (lk_server (memory_link C nodata)) now' i b u")
  have "u1 = snd (mem_set C now' i (GPtr (Some (GMap True f))) False u) \<and> q = Ok ()"
    using q f set(2) by (auto simp: srv_Set_def mem_Set_def split: prod.splits)
  then have u1: "u1 = snd (mem_set C now' i (GPtr (Some (GMap True f))) False u)" and q': "q = Ok ()" by auto
  obtain q' where inv: "invoke flt (srv_Set (lk_server (memory_link C nodata)) now' i b) u = (q', u')"
    and r': "r' = andThen (mapErr convertRpcError q') Ok"
    using run d' b by (auto simp: cl_Set_def encode_create andThen_Ok split: prod.splits)
  have same': "match_docs (mem_marshaler C) s' u1" unfolding mem'(2) u1 by (rule set(3))
  have agree: "agrees (mem_marshaler C) now' (RUnit r) (RUnit (andThen (mapErr convertRpcError (mapErr to_status q)) Ok))"
    unfolding q' mem'(1) by simp
  show ?thesis unfolding r' by (rule invoke_carried [where F = RUnit, OF q same' agree _ inv]) simp
qed

lemma update_carried:
  assumes same: "match_docs (mem_marshaler C) s u" and ok: "wireable (mem_marshaler C) lnow (CUpdate now i us ps)"
    and mem: "mem_Update C now' i us ps s = (r, s')" and run: "cl_Update (memory_link C nodata) now now' flt i us ps u = (r', u')"
  shows "carried_out (mem_marshaler C) now' flt (RUnit r) s' (RUnit r') u u'"
proof (cases "us = []")
  case True
  then show ?thesis using mem run same by (auto simp: mem_Update_def cl_Update_def intro!: not_sent_agrees)
next
  case False
  let ?M = "mem_marshaler C"
  let ?k = "\<lambda>res. case res of UpdNotFound \<Rightarrow> Err DNotFound | UpdPreconditionFailed \<Rightarrow> Err DPreconditionFailed | Updated \<Rightarrow> Ok ()"
  obtain pus where pus: "makeProtoUpdates ?M now us = Ok pus" "makeModelUpdates ?M pus = Ok (map (lowered ?M) us)"
    using fields_cross [of us ?M now "[]"] ok by (auto simp: makeProtoUpdates_def makeModelUpdates_def)
  obtain pps where pps: "makeProtoPreconditions ?M now ps = Ok pps" "makeModelPreconds ?M pps = Ok (map (lowered ?M) ps)"
    using fields_cross [of ps ?M now "[]"] ok by (auto simp: makeProtoPreconditions_def makeModelPreconds_def)
  let ?h = "srv_Update (lk_server (memory_link C nodata)) now' i pus pps"
  obtain q u1 where q: "?h u = (q, u1)" by (cases "?h u")
  have upd: "mem_Update C now' i (map (lowered ?M) us) (map (lowered ?M) ps) u =
      (r, if is_ok r then AList.update i (the (map_of s' i)) u else u)"
    and s': "s' = (if is_ok r then AList.update i (the (map_of s' i)) s else s)"
    using mem False match_docs_getValue [OF same, of i map_ptr] UpdateProto_lowered [of us ?M now' _ ps] ok
    by (auto simp: mem_Update_def update_conv' split: outcome.splits)
  have u1: "u1 = (if is_ok r then AList.update i (the (map_of s' i)) u else u)"
    and q': "q = (case r of Ok _ \<Rightarrow> Ok Updated | Panic \<Rightarrow> Panic | Err e \<Rightarrow>
      (case e of DNotFound \<Rightarrow> Ok UpdNotFound | DPreconditionFailed \<Rightarrow> Ok UpdPreconditionFailed
        | DPermissionDenied \<Rightarrow> Err (Status CPermissionDenied '''') | _ \<Rightarrow> Err (GoError e)))"
    using q False pus(2) pps(2) upd by (auto simp: srv_Update_def split: outcome.splits docerr.splits)
  have same': "match_docs ?M s' u1"
    using match_docs_update [OF same, of "the (map_of s' i)" "the (map_of s' i)" i] same u1 s' by (cases "is_ok r") simp_all
  have "r \<noteq> Err DAlreadyExists"
    using mem_Update_errors [of C now' i us ps s DAlreadyExists] mem by auto
  then have agree: "agrees ?M now' (RUnit r) (RUnit (andThen (mapErr convertRpcError (mapErr to_status q)) ?k))"
    unfolding q' by (cases r) (auto simp: err_agrees_def split: docerr.splits)
  obtain q'' where inv: "invoke flt ?h u = (q'', u')" and r': "r' = andThen (mapErr convertRpcError q'') ?k"
    using run False pus(1) pps(1) by (auto simp: cl_Update_def split: prod.splits)
  show ?thesis unfolding r' by (rule invoke_carried [where F = RUnit, OF q same' agree _ inv]) simp
qed

lemma restamp:
  assumes "wire_codec M" "decode M b = Ok f"
  shows "\<exists>b' g. Encode M t t (GMap True f) False = Ok b' \<and> decode M b' = Ok g \<and> Unmarshal M b' = Some g \<and> restamped M t f g"
proof -
  have "Unmarshal M b = Some f" using assms(2) by (simp add: decode_def split: option.splits)
  then obtain b' where "Marshal M (GMap True (setMapField f (stamp_key M) (VTime t))) = Some b'"
    using assms(1) unfolding wire_codec_def by blast
  moreover then obtain g where "Unmarshal M b' = Some g" using assms(1) unfolding wire_codec_def by blast
  ultimately show ?thesis by (auto simp: Encode_map_stamped decode_def restamped_def)
qed

lemma get_carried:
  assumes wire: "wire_codec (mem_marshaler C)" and same: "match_docs (mem_marshaler C) s u"
    and mem: "mem_Get C i rcv s = (r, s')" and run: "cl_Get (memory_link C nodata) now' flt i rcv u = (r', u')"
  shows "carried_out (mem_marshaler C) now' flt (RDoc r) s' (RDoc r') u u'"
proof -
  let ?M = "mem_marshaler C"
  let ?k = "\<lambda>res. case res of None \<Rightarrow> Err DNotFound | Some b \<Rightarrow> SafeDecode (mem_marshaler C) rcv b"
  let ?h = "srv_Get (lk_server (memory_link C nodata)) now' i"
  have r: "r = mem_getValue C i rcv u" "s' = s" using mem match_docs_getValue [OF same, of i rcv] by (auto simp: mem_Get_def)
  obtain q where q: "?h u = (q, u)" and agree: "agrees ?M now' (RDoc r) (RDoc (andThen (mapErr convertRpcError (mapErr to_status q)) ?k))"
  proof (cases "map_of u i")
    case None
    then show thesis using that [of "Ok None"] r by (simp add: srv_Get_def mem_Get_def mem_getValue_def err_agrees_def)
  next
    case (Some raw)
    show thesis
    proof (cases "decode ?M raw")
      case (Ok f)
      from restamp [OF wire this, of now'] obtain b' g where "Encode ?M now' now' (GMap True f) False = Ok b'"
        "decode ?M b' = Ok g" "restamped ?M now' f g" by blast
      with Ok Some r show thesis
        by (intro that [of "Ok (Some b')"]) (auto simp: srv_Get_def mem_Get_def mem_getValue_def SafeDecode_def err_agrees_def)
    next
      case (Err e)
      then have "\<exists>m. e = DError m" by (auto simp: decode_def split: option.splits)
      with Err Some r show thesis
        by (intro that [of "Err (GoError e)"]) (auto simp: srv_Get_def mem_Get_def mem_getValue_def SafeDecode_def err_agrees_def)
    next
      case Panic
      then show thesis by (simp add: decode_def split: option.splits)
    qed
  qed
  obtain q'' where inv: "invoke flt ?h u = (q'', u')" and r': "r' = andThen (mapErr convertRpcError q'') ?k"
    using run by (auto simp: cl_Get_def split: prod.splits)
  have same': "match_docs ?M s' u" using same r(2) by simp
  show ?thesis unfolding r' by (rule invoke_carried [where F = RDoc, OF q same' agree _ inv]) simp
qed

lemma delete_carried:
  assumes same: "match_docs (mem_marshaler C) s u"
    and mem: "mem_Delete i s = (r, s')" and run: "cl_Delete (memory_link C nodata) flt i u = (r', u')"
  shows "carried_out (mem_marshaler C) now' flt (RUnit r) s' (RUnit r') u u'"
proof -
  let ?h = "srv_Delete (lk_server (memory_link C nodata)) i"
  have q: "?h u = (Ok (), AList.delete i u)" by (simp add: srv_Delete_def mem_Delete_def)
  obtain q'' where inv: "invoke flt ?h u = (q'', u')" and r': "r' = andThen (mapErr convertRpcError q'') Ok"
    using run by (auto simp: cl_Delete_def andThen_Ok split: prod.splits)
  have mem': "r = Ok ()" "s' = AList.delete i s" using mem by (auto simp: mem_Delete_def)
  have agree: "agrees (mem_marshaler C) now' (RUnit r) (RUnit (andThen (mapErr convertRpcError (mapErr to_status (Ok ()))) Ok))"
    by (simp add: mem')
  have same': "match_docs (mem_marshaler C) s' (AList.delete i u)" unfolding mem' by (rule match_docs_delete [OF same])
  show ?thesis unfolding r' by (rule invoke_carried [where F = RUnit, OF q same' agree _ inv]) simp
qed

section \<open>Streams\<close>

lemma rpc_drain_end:
  "rpc_drain M nodata (stream_of [] EOF) = Ok []"
  "rpc_drain M nodata (stream_of [] (Broken e)) = Err (convertRpcError e)"
  by (subst rpc_drain.simps, simp add: rpc_HasNext_def RecvMsg_def stream_of_def rpc_NextTo_def Let_def)+

lemma rpc_drain_message:
  "rpc_drain M nodata (stream_of (\<lparr>lr_Error = '''', lr_Data = Some b\<rparr> # ms) e) =
     andThen (decode M b) (\<lambda>f. andThen (rpc_drain M nodata (stream_of ms e)) (\<lambda>fs. Ok (f # fs)))"
  by (subst rpc_drain.simps, cases "decode M b") (simp_all add: rpc_HasNext_def RecvMsg_def stream_of_def rpc_NextTo_def Let_def)

text \<open>An error in the stream comes out as itself, or by its text.\<close>

lemma rpc_drain_error:
  "docerr_text e \<noteq> '''' \<Longrightarrow>
   rpc_drain M nodata (stream_of (\<lparr>lr_Error = docerr_text e, lr_Data = None\<rparr> # ms) x) = Err (stream_error (docerr_text e))"
  by (subst rpc_drain.simps) (simp add: rpc_HasNext_def RecvMsg_def stream_of_def rpc_NextTo_def Let_def)

lemma stream_error_text:
  "stream_error (docerr_text DNotFound) = DNotFound" "stream_error (docerr_text DAlreadyExists) = DAlreadyExists"
  "stream_error (docerr_text DPreconditionFailed) = DPreconditionFailed" "stream_error (docerr_text DPermissionDenied) = DPermissionDenied"
  by code_simp+

text \<open>The documents that were sent come out in order; a stream that is cut fails, whatever came before.\<close>

lemma stream_drained:
  assumes wire: "wire_codec M"
  shows "\<forall>b \<in> set bs. Unmarshal M b \<noteq> None \<Longrightarrow>
    \<exists>ms gs. streamList M t (map (decode M) bs) = Ok ms \<and> length ms = length bs \<and>
      list_all2 (restamped M t) (map (\<lambda>b. the (Unmarshal M b)) bs) gs \<and>
      rpc_drain M nodata (stream_of ms EOF) = Ok gs \<and>
      (\<forall>n e. rpc_drain M nodata (stream_of (take n ms) (Broken e)) = Err (convertRpcError e)) \<and>
      (\<forall>n. length ms \<le> n \<longrightarrow> take n ms = ms)"
proof (induction bs)
  case Nil
  then show ?case by (simp add: rpc_drain_end)
next
  case (Cons b bs)
  then obtain ms gs where ms: "streamList M t (map (decode M) bs) = Ok ms" "length ms = length bs"
    "list_all2 (restamped M t) (map (\<lambda>b. the (Unmarshal M b)) bs) gs" "rpc_drain M nodata (stream_of ms EOF) = Ok gs"
    "\<And>n e. rpc_drain M nodata (stream_of (take n ms) (Broken e)) = Err (convertRpcError e)" by auto
  obtain f where f: "Unmarshal M b = Some f" using Cons.prems by auto
  then have "decode M b = Ok f" by (simp add: decode_def)
  with restamp [OF wire this, of t] obtain b' g where g: "Encode M t t (GMap True f) False = Ok b'" "decode M b' = Ok g" "restamped M t f g"
    by blast
  have cut: "rpc_drain M nodata (stream_of (take n (\<lparr>lr_Error = '''', lr_Data = Some b'\<rparr> # ms)) (Broken e)) = Err (convertRpcError e)" for n e
    using ms(5) g(2) by (cases n) (simp_all add: rpc_drain_end rpc_drain_message)
  show ?case using ms g f \<open>decode M b = Ok f\<close> cut
    by (intro exI [of _ "\<lparr>lr_Error = '''', lr_Data = Some b'\<rparr> # ms"] exI [of _ "g # gs"]) (simp add: rpc_drain_message)
qed

lemma drain_docs_decodable:
  "\<forall>b \<in> set bs. Unmarshal M b \<noteq> None \<Longrightarrow> drain_docs M bs = Ok (map (\<lambda>b. the (Unmarshal M b)) bs)"
  by (induction bs) (auto simp: decode_def)

definition same_list :: "('v, 'b) marshaler \<Rightarrow> 'b list \<Rightarrow> 'b list \<Rightarrow> bool" where
  "same_list M bs bs' \<longleftrightarrow> map (Unmarshal M) bs = map (Unmarshal M) bs' \<and> (\<forall>b \<in> set bs'. Unmarshal M b \<noteq> None)"

lemma extend_all_same:
  assumes "list_all2 (\<lambda>b b'. Unmarshal M b = Unmarshal M b') vs ws"
  shows "same_list M (li_docs it) (li_docs it') \<Longrightarrow>
    (\<exists>j j'. extend_all M A fs vs it = Ok j \<and>
       extend_all M A (map (\<lambda>f. f\<lparr>fl_FieldPath := case_path (DefaultLowerCase M) (fl_FieldPath f)\<rparr>) fs) ws it' = Ok j' \<and>
       same_list M (li_docs j) (li_docs j')) \<or>
    (extend_all M A fs vs it = Panic \<and>
       extend_all M A (map (\<lambda>f. f\<lparr>fl_FieldPath := case_path (DefaultLowerCase M) (fl_FieldPath f)\<rparr>) fs) ws it' = Panic)"
  using assms
proof (induction vs ws arbitrary: it it' rule: list_all2_induct)
  case Nil
  then show ?case by simp
next
  case (Cons v vs w ws)
  show ?case
  proof (cases "Unmarshal M v")
    case None
    with Cons.hyps(1) have "Extend M A fs v it = Ok it"
      "Extend M A (map (\<lambda>f. f\<lparr>fl_FieldPath := case_path (DefaultLowerCase M) (fl_FieldPath f)\<rparr>) fs) w it' = Ok it'"
      by (simp_all add: Extend_def decode_def)
    with Cons.IH [OF Cons.prems] show ?thesis by simp
  next
    case (Some f)
    with Cons.hyps(1) have w: "Unmarshal M w = Some f" by simp
    show ?thesis
    proof (cases "MatchesAllFilters A (DefaultLowerCase M) f fs")
      case (Ok b)
      have "same_list M (li_docs (it\<lparr>li_docs := li_docs it @ [v]\<rparr>)) (li_docs (it'\<lparr>li_docs := li_docs it' @ [w]\<rparr>))"
        using Cons.prems Some w by (auto simp: same_list_def)
      with Cons.IH [OF this] Cons.IH [OF Cons.prems] Ok Some w show ?thesis
        by (cases b) (simp_all add: Extend_def decode_def MatchesAllFilters_lowered)
    next
      case Panic
      then show ?thesis using Some w by (simp add: Extend_def decode_def MatchesAllFilters_lowered)
    qed simp
  qed
qed

text \<open>What the service in memory lists, and what the server streams of a store that is the same.\<close>

lemma list_both:
  assumes wire: "wire_codec (mem_marshaler C)" and same: "match_docs (mem_marshaler C) s u"
    and fs: "makeModelFilters (mem_marshaler C) pfs = Ok (map (\<lambda>f. f\<lparr>fl_FieldPath := case_path (DefaultLowerCase (mem_marshaler C)) (fl_FieldPath f)\<rparr>) fs)"
  obtains (ok) docs ms gs where "fst (svc_List (memory_service C) fs s) = Ok docs"
    "srv_List (lk_server (memory_link C nodata)) t pfs u = (Ok ms, u)" "list_all2 (restamped (mem_marshaler C) t) docs gs"
    "rpc_drain (mem_marshaler C) nodata (stream_of ms EOF) = Ok gs"
    "\<And>n e. rpc_drain (mem_marshaler C) nodata (stream_of (take n ms) (Broken e)) = Err (convertRpcError e)"
  | (panic) "fst (svc_List (memory_service C) fs s) = Panic" "srv_List (lk_server (memory_link C nodata)) t pfs u = (Panic, u)"
proof -
  let ?M = "mem_marshaler C"
  let ?fs = "map (\<lambda>f. f\<lparr>fl_FieldPath := case_path (DefaultLowerCase (mem_marshaler C)) (fl_FieldPath f)\<rparr>) fs"
  have "list_all2 (\<lambda>b b'. Unmarshal ?M b = Unmarshal ?M b') (map snd s) (map snd u)"
    using same unfolding match_docs_def list_all2_map1 list_all2_map2 by (rule list_all2_mono) auto
  from extend_all_same [OF this, of "\<lparr>li_docs = []\<rparr>" "\<lparr>li_docs = []\<rparr>" "mem_asserts C" fs]
  consider (Ok) j j' where "extend_all ?M (mem_asserts C) fs (map snd s) \<lparr>li_docs = []\<rparr> = Ok j"
      "extend_all ?M (mem_asserts C) ?fs (map snd u) \<lparr>li_docs = []\<rparr> = Ok j'" "same_list ?M (li_docs j) (li_docs j')"
    | (Panic) "extend_all ?M (mem_asserts C) fs (map snd s) \<lparr>li_docs = []\<rparr> = Panic"
      "extend_all ?M (mem_asserts C) ?fs (map snd u) \<lparr>li_docs = []\<rparr> = Panic"
    by (auto simp: same_list_def)
  then show thesis
  proof cases
    case Ok
    have dec: "\<forall>b \<in> set (li_docs j'). Unmarshal ?M b \<noteq> None" and eq: "map (Unmarshal ?M) (li_docs j) = map (Unmarshal ?M) (li_docs j')"
      using Ok(3) by (auto simp: same_list_def)
    then have dec': "\<forall>b \<in> set (li_docs j). Unmarshal ?M b \<noteq> None"
      by (metis (no_types, lifting) image_iff list.set_map)
    have vals: "map (\<lambda>b. the (Unmarshal ?M b)) (li_docs j) = map (\<lambda>b. the (Unmarshal ?M b)) (li_docs j')"
      using arg_cong [OF eq, of "map the"] by (simp add: comp_def)
    obtain ms gs where ms: "streamList ?M t (map (decode ?M) (li_docs j')) = Ok ms"
      "list_all2 (restamped ?M t) (map (\<lambda>b. the (Unmarshal ?M b)) (li_docs j')) gs"
      "rpc_drain ?M nodata (stream_of ms EOF) = Ok gs"
      "\<And>n e. rpc_drain ?M nodata (stream_of (take n ms) (Broken e)) = Err (convertRpcError e)"
      using stream_drained [OF wire dec, of t nodata] by auto
    have "fst (svc_List (memory_service C) fs s) = Ok (map (\<lambda>b. the (Unmarshal ?M b)) (li_docs j'))"
      using Ok(1) drain_docs_decodable [OF dec'] vals by (simp add: mem_List_def)
    moreover have "srv_List (lk_server (memory_link C nodata)) t pfs u = (Ok ms, u)"
      using fs Ok(2) ms(1) by (simp add: srv_List_def mem_List_def comp_def)
    ultimately show thesis using ms by (intro ok) simp_all
  next
    case Panic
    then show thesis using fs by (intro panic) (simp_all add: srv_List_def mem_List_def)
  qed
qed

lemma list_carried:
  assumes wire: "wire_codec (mem_marshaler C)" and same: "match_docs (mem_marshaler C) s u"
    and ok: "wireable (mem_marshaler C) lnow (CList fs)"
    and mem: "fst (svc_List (memory_service C) fs s) = r"
    and run: "cl_List (memory_link C nodata) lnow now' flt fs u = (p, u')" "r' = andThen p (rpc_drain (mem_marshaler C) nodata)"
  shows "carried_out (mem_marshaler C) now' flt (RDocs r) s (RDocs r') u u'"
proof -
  let ?M = "mem_marshaler C" and ?h = "srv_List (lk_server (memory_link C nodata)) now'"
  obtain pfs where pfs: "makeProtoFilters ?M lnow fs = Ok pfs"
    "makeModelFilters ?M pfs = Ok (map (\<lambda>f. f\<lparr>fl_FieldPath := case_path (DefaultLowerCase ?M) (fl_FieldPath f)\<rparr>) fs)"
    using filters_cross [of fs ?M lnow "[]"] ok by (auto simp: makeProtoFilters_def)
  obtain q where op: "open_stream flt (?h pfs) u = (q, u')" and p: "p = mapErr convertRpcError q"
    using run(1) pfs(1) by (auto simp: cl_List_def split: prod.splits)
  show ?thesis
  proof (rule list_both [OF wire same pfs(2), where t = now' and nodata = nodata])
    fix docs ms gs
    assume ok: "fst (svc_List (memory_service C) fs s) = Ok docs" "?h pfs u = (Ok ms, u)" "list_all2 (restamped ?M now') docs gs"
      "rpc_drain ?M nodata (stream_of ms EOF) = Ok gs"
      "\<And>n e. rpc_drain ?M nodata (stream_of (take n ms) (Broken e)) = Err (convertRpcError e)"
    then have r: "r = Ok docs" using mem by simp
    show ?thesis
    proof (cases flt)
      case (Cut n c m)
      then show ?thesis using op ok r p run(2) same
        by (auto simp: carried_out_def split: if_splits)
    qed (use op ok(2-) r p run(2) same in \<open>auto simp: carried_out_def rpc_drain_end\<close>)
  next
    assume "fst (svc_List (memory_service C) fs s) = Panic" "?h pfs u = (Panic, u)"
    then show ?thesis using mem op p run(2) same by (cases flt) (auto simp: carried_out_def)
  qed
qed

lemma rpc_step:
  assumes "wire_codec (mem_marshaler C)" "wireable (mem_marshaler C) lnow c" "match_docs (mem_marshaler C) s (nt_server n)"
    and "perform (memory_service C) (at_server (nt_clock n (nt_calls n)) c) s = (r, s')"
    and "perform (remote_service (memory_link C nodata) lnow) c n = (r', n')"
  shows "c = CClose \<or> carried_out (mem_marshaler C) (nt_clock n (nt_calls n)) (nt_fault n (nt_calls n)) r s' r' (nt_server n) (nt_server n')"
proof (cases c)
  case (CCreate now i d)
  obtain q where mem: "mem_Create C now i d s = (q, s')" "r = RUnit q"
    using assms(4) CCreate by (cases "mem_Create C now i d s") simp
  obtain q' where rem: "cl_Create (memory_link C nodata) now (nt_clock n (nt_calls n)) (nt_fault n (nt_calls n)) i d (nt_server n) = (q', nt_server n')" "r' = RUnit q'"
    using assms(5) CCreate by (auto simp: on_net_def split: prod.splits)
  show ?thesis using create_carried [OF assms(1,3) assms(2) [unfolded CCreate] mem(1) rem(1)] mem(2) rem(2) by blast
next
  case (CSet now i d)
  obtain q where mem: "mem_Set C now i d s = (q, s')" "r = RUnit q"
    using assms(4) CSet by (cases "mem_Set C now i d s") simp
  obtain q' where rem: "cl_Set (memory_link C nodata) now (nt_clock n (nt_calls n)) (nt_fault n (nt_calls n)) i d (nt_server n) = (q', nt_server n')" "r' = RUnit q'"
    using assms(5) CSet by (auto simp: on_net_def split: prod.splits)
  show ?thesis using set_carried [OF assms(1,3) assms(2) [unfolded CSet] mem(1) rem(1)] mem(2) rem(2) by blast
next
  case (CUpdate now i us ps)
  obtain q where mem: "mem_Update C (nt_clock n (nt_calls n)) i us ps s = (q, s')" "r = RUnit q"
    using assms(4) CUpdate by (cases "mem_Update C (nt_clock n (nt_calls n)) i us ps s") simp
  obtain q' where rem: "cl_Update (memory_link C nodata) now (nt_clock n (nt_calls n)) (nt_fault n (nt_calls n)) i us ps (nt_server n) = (q', nt_server n')" "r' = RUnit q'"
    using assms(5) CUpdate by (auto simp: on_net_def split: prod.splits)
  show ?thesis using update_carried [OF assms(3) assms(2) [unfolded CUpdate] mem(1) rem(1)] mem(2) rem(2) by blast
next
  case (CGet i rcv)
  obtain q where mem: "mem_Get C i rcv s = (q, s')" "r = RDoc q"
    using assms(4) CGet by (cases "mem_Get C i rcv s") simp
  obtain q' where rem: "cl_Get (memory_link C nodata) (nt_clock n (nt_calls n)) (nt_fault n (nt_calls n)) i rcv (nt_server n) = (q', nt_server n')" "r' = RDoc q'"
    using assms(5) CGet by (auto simp: on_net_def split: prod.splits)
  show ?thesis using get_carried [OF assms(1,3) mem(1) rem(1)] mem(2) rem(2) by blast
next
  case (CDelete i)
  obtain q where mem: "mem_Delete i s = (q, s')" "r = RUnit q"
    using assms(4) CDelete by (cases "mem_Delete i s") simp
  obtain q' where rem: "cl_Delete (memory_link C nodata) (nt_fault n (nt_calls n)) i (nt_server n) = (q', nt_server n')" "r' = RUnit q'"
    using assms(5) CDelete by (auto simp: on_net_def split: prod.splits)
  show ?thesis using delete_carried [OF assms(3) mem(1) rem(1)] mem(2) rem(2) by blast
next
  case (CList fs)
  have s': "s' = s" and r: "r = RDocs (fst (svc_List (memory_service C) fs s))" using assms(4) CList by auto
  obtain p where rem: "cl_List (memory_link C nodata) lnow (nt_clock n (nt_calls n)) (nt_fault n (nt_calls n)) fs (nt_server n) = (p, nt_server n')"
    "r' = RDocs (andThen p (rpc_drain (mem_marshaler C) nodata))"
    using assms(5) CList by (auto simp: on_net_def split: prod.splits)
  show ?thesis unfolding s' r rem(2) using list_carried [OF assms(1,3) assms(2) [unfolded CList] refl rem(1) refl] by blast
qed simp

section \<open>Properties\<close>

text \<open>
  C38 (rpc_refines_memory). A call of the client of a server in front of the service in memory does
  what the service itself would do: the stores decode to the same documents, and the replies agree,
  except that documents that are read have the time of the server as their time of update. When the
  transport fails the caller gets its error, and the call was carried out or, if it was not sent,
  the store is as before.
\<close>

theorem rpc_refines_memory:
  assumes "wire_codec (mem_marshaler C)" "wireable (mem_marshaler C) lnow c" "match_docs (mem_marshaler C) s (nt_server n)"
    and "perform (memory_service C) (at_server (nt_clock n (nt_calls n)) c) s = (r, s')"
    and "perform (remote_service (memory_link C nodata) lnow) c n = (r', n')"
  shows "c = CClose \<or> carried_out (mem_marshaler C) (nt_clock n (nt_calls n)) (nt_fault n (nt_calls n)) r s' r' (nt_server n) (nt_server n')"
  by (rule rpc_step [OF assms])

text \<open>A store of one document, a server whose clock is a year later, and a network that loses every second request.\<close>

definition sample_net :: "string fields storage net" where
  "sample_net = \<lparr>nt_server = [(''a'', [(''Name'', VLeaf ''x''), (''UpdatedAt'', VTime (GoTime 2025 1 1 0))])],
     nt_fault = (\<lambda>k. if even k then NoFault else NotSent (COther ''Unavailable'') ''down''), nt_clock = (\<lambda>k. GoTime 2026 1 1 0), nt_calls = 0\<rparr>"

lemma plain_wire: "wire_codec plain_codec"
  by (auto simp: wire_codec_def plain_codec_def)

theorem rpc_refines_memory_witness:
  "\<exists>f. perform (remote_service (memory_link plain_config Panic) zeroTime) (CGet ''a'' map_ptr) sample_net =
      (RDoc (Ok f), sample_net\<lparr>nt_calls := 1\<rparr>) \<and>
    restamped plain_codec (GoTime 2026 1 1 0) [(''Name'', VLeaf ''x''), (''UpdatedAt'', VTime (GoTime 2025 1 1 0))] f \<and>
    map_of f ''UpdatedAt'' = Some (VTime (GoTime 2026 1 1 0))"
proof -
  have wire: "wire_codec (mem_marshaler plain_config)" by (simp add: plain_wire)
  have mem: "perform (memory_service plain_config) (at_server (nt_clock sample_net (nt_calls sample_net)) (CGet ''a'' map_ptr)) (nt_server sample_net) =
      (RDoc (Ok [(''Name'', VLeaf ''x''), (''UpdatedAt'', VTime (GoTime 2025 1 1 0))]), nt_server sample_net)"
    by (simp add: sample_net_def mem_Get_def mem_getValue_def decode_def)
  have rem: "perform (remote_service (memory_link plain_config Panic) zeroTime) (CGet ''a'' map_ptr) sample_net =
      (RDoc (Ok [(''Name'', VLeaf ''x''), (''UpdatedAt'', VTime (GoTime 2026 1 1 0))]), sample_net\<lparr>nt_calls := 1\<rparr>)"
    by (simp add: on_net_def sample_net_def cl_Get_def srv_Get_def mem_Get_def mem_getValue_def decode_def Encode_map_stamped
        setMapField_def stamp_key_def DefaultUpdatedAtField_def)
  from rpc_refines_memory [OF wire _ match_docs_refl mem rem] rem show ?thesis
    by (auto simp: carried_out_def sample_net_def)
qed

section \<open>Histories\<close>

text \<open>Without faults a whole history of calls has the replies it would have at the service itself.\<close>

fun runs_agree ::
  "('v, 'b) memory_config \<Rightarrow> 'v fields dresult \<Rightarrow> gotime \<Rightarrow> 'v call list \<Rightarrow> 'b storage \<Rightarrow> 'b storage net \<Rightarrow> bool" where
  "runs_agree C nodata lnow [] s n \<longleftrightarrow> match_docs (mem_marshaler C) s (nt_server n)"
| "runs_agree C nodata lnow (c # cs) s n \<longleftrightarrow>
     (let (r, s') = perform (memory_service C) (at_server (nt_clock n (nt_calls n)) c) s;
          (r', n') = perform (remote_service (memory_link C nodata) lnow) c n
      in agrees (mem_marshaler C) (nt_clock n (nt_calls n)) r r' \<and> runs_agree C nodata lnow cs s' n')"

lemma perform_keeps_net:
  "perform (remote_service L lnow) c n = (r, n') \<Longrightarrow> nt_fault n' = nt_fault n"
  by (cases c) (auto simp: on_net_def split: prod.splits)

lemma rpc_history:
  assumes "wire_codec (mem_marshaler C)"
  shows "\<forall>c \<in> set cs. wireable (mem_marshaler C) lnow c \<and> c \<noteq> CClose \<Longrightarrow> match_docs (mem_marshaler C) s (nt_server n) \<Longrightarrow>
    \<forall>k. nt_fault n k = NoFault \<Longrightarrow> runs_agree C nodata lnow cs s n"
proof (induction cs arbitrary: s n)
  case Nil
  then show ?case by simp
next
  case (Cons c cs)
  obtain r s' where mem: "perform (memory_service C) (at_server (nt_clock n (nt_calls n)) c) s = (r, s')" by fastforce
  obtain r' n' where rem: "perform (remote_service (memory_link C nodata) lnow) c n = (r', n')" by fastforce
  have "carried_out (mem_marshaler C) (nt_clock n (nt_calls n)) NoFault r s' r' (nt_server n) (nt_server n')"
    using rpc_step [OF assms _ Cons.prems(2) mem rem] Cons.prems(1,3) by auto
  then show ?case using Cons.IH [of s' n'] Cons.prems(1,3) mem rem perform_keeps_net [OF rem]
    by (simp add: carried_out_def)
qed

section \<open>Collections\<close>

text \<open>
  A service for each collection (\<^verbatim>\<open>server_desc.go\<close>): its name, the methods its client calls,
  and the name of the method that interceptors see, which the generated handlers leave at the
  original service.
\<close>

definition collection_service :: "string \<Rightarrow> string" where
  "collection_service collection = ''proto.DocumentStore.'' @ collection"

definition collection_method :: "string \<Rightarrow> string \<Rightarrow> string" where
  "collection_method collection m = ''/proto.DocumentStore.'' @ collection @ ''/'' @ m"

text \<open>\<open>strings.ReplaceAll\<close> of a text that is not empty.\<close>

function ReplaceAll :: "string \<Rightarrow> string \<Rightarrow> string \<Rightarrow> string" where
  "ReplaceAll s old new =
     (if s = [] \<or> old = [] then s
      else if prefix old s then new @ ReplaceAll (drop (length old) s) old new
      else hd s # ReplaceAll (tl s) old new)"
  by pat_completeness auto

termination
  by (relation "measure (\<lambda>(s, old, new). length s)") (auto simp: length_greater_0_conv)

declare ReplaceAll.simps [simp del]

definition updateMethodInfoUnaryInterceptor ::
  "string \<Rightarrow> (string \<Rightarrow> 'req \<Rightarrow> 's \<Rightarrow> 'r \<times> 's) \<Rightarrow> string \<Rightarrow> 'req \<Rightarrow> 's \<Rightarrow> 'r \<times> 's" where
  "updateMethodInfoUnaryInterceptor newServiceName prev fullMethod = prev (ReplaceAll fullMethod ''proto.DocumentStore'' newServiceName)"

text \<open>
  The description of a service as gRPC registers it: a handler runs with the interceptor of the
  server, if there is one, and calls it with the name of its method.
\<close>

type_synonym ('req, 's, 'r) interceptor = "string \<Rightarrow> 'req \<Rightarrow> 's \<Rightarrow> 'r \<times> 's"

record ('req, 's, 'r) service_desc =
  sd_ServiceName :: string
  sd_Methods :: "(string \<times> (('req, 's, 'r) interceptor option \<Rightarrow> 'req \<Rightarrow> 's \<Rightarrow> 'r \<times> 's)) list"

definition updateMethodInfoUnaryHandler ::
  "string \<Rightarrow> (('req, 's, 'r) interceptor option \<Rightarrow> 'req \<Rightarrow> 's \<Rightarrow> 'r \<times> 's) \<Rightarrow> ('req, 's, 'r) interceptor option \<Rightarrow> 'req \<Rightarrow> 's \<Rightarrow> 'r \<times> 's" where
  "updateMethodInfoUnaryHandler newServiceName prev = (\<lambda>ic. prev (map_option (updateMethodInfoUnaryInterceptor newServiceName) ic))"

definition RegisterCollectionDocumentService :: "('req, 's, 'r) service_desc \<Rightarrow> string \<Rightarrow> ('req, 's, 'r) service_desc" where
  "RegisterCollectionDocumentService desc collection =
     desc\<lparr>sd_ServiceName := collection_service collection,
       sd_Methods := map (\<lambda>(m, h). (m, updateMethodInfoUnaryHandler (collection_service collection) h)) (sd_Methods desc)\<rparr>"

text \<open>The client of a collection: a unary call, and the stream of \<open>List\<close>.\<close>

definition collection_invoke ::
  "(string \<Rightarrow> 'req \<Rightarrow> 's \<Rightarrow> (rpc_error, 'res) outcome \<times> 's) \<Rightarrow> string \<Rightarrow> string \<Rightarrow> 'req \<Rightarrow> 's \<Rightarrow> (rpc_error, 'res) outcome \<times> 's" where
  "collection_invoke ccInvoke collection m req s = ccInvoke (collection_method collection m) req s"

definition collection_List ::
  "(string \<Rightarrow> 's \<Rightarrow> (rpc_error, 'st) outcome \<times> 's) \<Rightarrow> ('st \<Rightarrow> 'req \<Rightarrow> 's \<Rightarrow> rpc_error option \<times> 's) \<Rightarrow>
   ('st \<Rightarrow> 's \<Rightarrow> rpc_error option \<times> 's) \<Rightarrow> string \<Rightarrow> 'req \<Rightarrow> 's \<Rightarrow> (rpc_error, 'st) outcome \<times> 's" where
  "collection_List newStream sendMsg closeSend collection req s =
     (case newStream (collection_method collection ''List'') s of
        (Err e, s) \<Rightarrow> (Err e, s)
      | (Panic, s) \<Rightarrow> (Panic, s)
      | (Ok x, s) \<Rightarrow>
          (case sendMsg x req s of
             (Some e, s) \<Rightarrow> (Err e, s)
           | (None, s) \<Rightarrow> (case closeSend x s of (Some e, s) \<Rightarrow> (Err e, s) | (None, s) \<Rightarrow> (Ok x, s))))"

lemma ReplaceAll_absent:
  "\<not> sublist old s \<Longrightarrow> ReplaceAll s old new = s"
proof (induction s)
  case Nil
  then show ?case by (simp add: ReplaceAll.simps)
next
  case (Cons c s)
  then have "\<not> prefix old (c # s)" "\<not> sublist old s" by (auto simp: sublist_Cons_right)
  with Cons.IH show ?case by (subst ReplaceAll.simps) simp
qed

text \<open>An interceptor sees the method that the client of the collection called.\<close>

lemma interceptor_sees_collection:
  assumes "\<not> sublist ''proto.DocumentStore'' (''/'' @ m)"
  shows "updateMethodInfoUnaryInterceptor (collection_service collection) prev (''/proto.DocumentStore/'' @ m) =
    prev (collection_method collection m)"
proof -
  have "ReplaceAll (''/proto.DocumentStore/'' @ m) ''proto.DocumentStore'' new = ''/'' @ new @ ''/'' @ m" for new
    using ReplaceAll_absent [OF assms, of new] by (subst ReplaceAll.simps, simp, subst ReplaceAll.simps, simp)
  then show ?thesis by (simp add: updateMethodInfoUnaryInterceptor_def collection_service_def collection_method_def)
qed

lemma document_methods_seen:
  "m \<in> {''Create'', ''Set'', ''Update'', ''Get'', ''Delete''} \<Longrightarrow> \<not> sublist ''proto.DocumentStore'' (''/'' @ m)"
  by (auto simp: sublist_Cons_right)

text \<open>
  So an authorizer that decides by the method sees, for a generated handler, the one that the client
  of its collection called.
\<close>

lemma registered_method_seen:
  assumes "(m, h) \<in> set (sd_Methods desc)" "\<And>ic req s. h (Some ic) req s = ic (''/proto.DocumentStore/'' @ m) req s"
    and "\<not> sublist ''proto.DocumentStore'' (''/'' @ m)"
  shows "\<exists>h'. (m, h') \<in> set (sd_Methods (RegisterCollectionDocumentService desc collection)) \<and>
    (\<forall>ic req s. h' (Some ic) req s = collection_invoke ic collection m req s)"
proof (intro exI conjI allI)
  show "(m, updateMethodInfoUnaryHandler (collection_service collection) h) \<in> set (sd_Methods (RegisterCollectionDocumentService desc collection))"
    using assms(1) by (auto simp: RegisterCollectionDocumentService_def intro!: image_eqI [of _ _ "(m, h)"])
  fix ic req s
  show "updateMethodInfoUnaryHandler (collection_service collection) h (Some ic) req s = collection_invoke ic collection m req s"
    using interceptor_sees_collection [OF assms(3), of collection ic] by (simp add: updateMethodInfoUnaryHandler_def assms(2) collection_invoke_def)
qed

end
