(* ===== verification/Spec2Isabelle.thy ===== *)
theory Spec2Isabelle
  imports EngineProps LedgerAdmin DocClaims DocBolt BoltHandles IPStore Iterators IssueTracker UpspinFile CdnManager TokenHandler SecretManager DocRpc
begin

text \<open>
  A model of the libraries of \<^verbatim>\<open>blue\<close>, a Go monorepo. Its packages build on a common
  idea: a small interface (a document service, a release manager, a set of keys), several
  implementations of it, and wrappers that add a concern to any implementation. The theories follow
  that: the interfaces are locales or records of operations, the implementations are functions on an
  explicit state, and the properties say what a wrapper or a stack of them keeps of the contract.

  \<^bold>\<open>The parts and how they interact.\<close>

  \<^item> Contributor programs (\<^verbatim>\<open>contributor/\<close>) share the net receipts of a month among the
    accounts that earned credits. The engine computes a round from receipts, awards and the
    carryforward; the ledger reads these from six document-backed stores, commits the round and one
    obligation per account, and a verifier checks a published round without the engine.
  \<^item> Documents (\<^verbatim>\<open>document/\<close>): a service of documents with updates, preconditions and filters,
    kept in memory or in a bolt database, wrapped for partitions, locking and
    read-modify-write, and served over gRPC.
    Contributor stores, issue tracker, releases and block lists keep their state in such a service.
  \<^item> Releases (\<^verbatim>\<open>release/\<close>): packages of versioned bundles, in documents and chunks or in a
    cloud bucket, with a signing manager on top and an HTTP handler with its read-only client.
  \<^item> Authentication (\<^verbatim>\<open>auth/\<close>): clients prove themselves with PKCE, the token handler redeems
    a grant at an OAuth2 provider and signs a token of its own, the HTTP middleware and the gRPC
    interceptors admit the bearers of such tokens.
  \<^item> Block lists of IP prefixes (\<^verbatim>\<open>ipblock/\<close>), reports of crashes (\<^verbatim>\<open>issue/\<close>), the files
    of an upspin client (\<^verbatim>\<open>upspin/\<close>), retrying (\<^verbatim>\<open>retry/\<close>) and iterators
    (\<^verbatim>\<open>iterator/\<close>), which the others use.

  \<^bold>\<open>Conventions.\<close> A Go function that returns an error is a function to
  \<^typ>\<open>('e, 'a) outcome\<close>: \<^term>\<open>Ok\<close>, \<^term>\<open>Err\<close>, or \<^term>\<open>Panic\<close>. State is passed and returned.
  A Go map is an association list in the order of an iteration, so that results which must not
  depend on the order are theorems. An \<open>int64\<close> is a 64-bit word read with \<^term>\<open>sint\<close>; \<open>fits64\<close> says
  when the arithmetic is exact, and what happens beyond is a lemma where it matters. Times are
  calendar values (theory GoTime) or, in auth, nanoseconds. Texts are lists of characters. What is
  not under \<^verbatim>\<open>src/\<close> (the database, the bucket, OpenPGP, the JWT library, HTTP transports, JSON codecs)
  is a record of functions that the definitions take; what the code relies on is a named predicate
  over that record (such as \<open>bucket_law\<close>, \<open>signs_for\<close>), and each property that assumes one has a witness
  with a concrete instance.

  \<^bold>\<open>Theories and code.\<close>

  \<^item> Prelude, GoTime, GoText: outcomes, 64-bit arithmetic, maps; packages time, strconv, strings.
  \<^item> Month, ContribTypes, LargestRemainder, Engine, Verify (\<^verbatim>\<open>month.go\<close>, the record files, \<^verbatim>\<open>engine.go\<close>,
    \<^verbatim>\<open>verify.go\<close>). EngineProps: the allocation hands out exactly the pool, every amount is the floor or
    the ceiling of its exact share, more credits never earn less, the order of maps does not matter,
    and computed rounds verify.
  \<^item> DocStore, ContribStores, Ledger (\<^verbatim>\<open>document_store.go\<close>, \<^verbatim>\<open>ledger.go\<close>, \<^verbatim>\<open>admin.go\<close>): every operation over
    stores that may fail at any call. LedgerProps, LedgerHistory, LedgerClaims, LedgerAdmin,
    ObligationMachine: invariants of all histories of operations and failures, what a close commits,
    that it can be retried, that closed rounds are final, and where a retry is stale. A decision on
    an award is a read and an unconditional write: it is final unless another decider still holds
    a copy read before it, whose write then replaces it.
  \<^item> DocValues, DocInMemory, DocPartition (\<^verbatim>\<open>service.go\<close>, \<^verbatim>\<open>filters.go\<close>, \<^verbatim>\<open>inmemory.go\<close>, \<^verbatim>\<open>partition.go\<close>), with
    DocClaims: what each operation reads and writes, lists against a meaning of filters and
    preconditions stated without the code's comparisons, partitions that
    neither read nor change each other (lists while no document carries the other's mark), and a
    document that does and is listed there; DocSync (\<^verbatim>\<open>sync.go\<close>): calls under
    locks are linearizable; DocConsistent
    (\<^verbatim>\<open>consistent.go\<close>): one write, amid those of others, and of the document that was read when a
    precondition on its version identifies it; DocBolt, BoltHandles (\<^verbatim>\<open>bolt/\<close>, \<^verbatim>\<open>batch.go\<close>): the
    store refines the one in memory, batches are sequences, shared handles are safe; DocRpc
    (\<^verbatim>\<open>docrpc/\<close>): calls over gRPC do what the service behind the server does.
  \<^item> Retry, Iterators (\<^verbatim>\<open>retry/\<close>, \<^verbatim>\<open>iterator/\<close>); IPBlock, IPStore (\<^verbatim>\<open>ipblock/\<close>): lookups find the
    narrowest block in force, in memory, in documents and through the cache; IssueTracker
    (\<^verbatim>\<open>issue/\<close>); UpspinFile (\<^verbatim>\<open>upspin/file.go\<close>): the buffer refines plain bytes with two offsets.
  \<^item> ReleaseManager (\<^verbatim>\<open>docrelease/\<close>), ReleaseApi (the interface as locale \<open>release_store\<close> and the
    progress adapters), GcsManager (\<^verbatim>\<open>gcsrelease/\<close>, also as interleaved steps of concurrent
    uploads), SignedManager (\<^verbatim>\<open>signedrelease/\<close>, \<^verbatim>\<open>crypto/pgp.go\<close>), CdnManager (the handler and
    \<^verbatim>\<open>cdnrelease/\<close>): an upload leaves a complete bundle its package points at, or none unless
    clearing up fails too; published objects are never replaced, downloads carry
    the checksum or the signature of what was published, alone and stacked.
  \<^item> WebForm (package net/url), Pkce, AuthKeys, AuthGate, TokenHandler (\<^verbatim>\<open>auth/\<close>): code verifiers are
    well-formed and uniform, secret identifiers do not collide, the gates admit exactly verified
    tokens (and the interceptors anyone when there are no keys), tokens are only issued for users
    verified in the same request, and an issued token admits its user until it expires.
  \<^item> SecretManager (\<^verbatim>\<open>auth/secretmanager/\<close>): a rotation of a secret in the cloud changes nothing
    or adds one enabled version at the end and disables only older ones it was shown, whatever call
    fails; which tokens are still admitted is stated for a cloud whose listings and accesses have
    caught up with its writes (\<open>settled_law\<close>).

  \<^bold>\<open>Bounds and fuel.\<close> Loops of the code that may not end are \<open>partial_function (option)\<close>, and the
  properties prove that they return: \<open>retry_bounded\<close> for strategies that stop, \<open>pkce_params_sound\<close>
  for a source that gives enough bytes, \<open>create_report_first_free\<close> for the search of a number.
  Counters that the code bounds by a value are recursion on that value (\<open>exp_loop\<close> by the number of
  the retry). The buffer of a file is bounded by a tebibyte in
  \<open>file_is_its_bytes\<close>, which keeps its 64-bit growth exact; beyond it \<open>grow\<close> wraps around and the
  model does too. Concurrency is interleaving, at the grain each theory names: a call
  under a lock, a call of a bucket, an opening or closing of a database, a load of the cache are one
  step. Writes of others come between the calls of a read-modify-write. An operation of the ledger
  is one step with a failure possible at each of its store calls, and the decisions are also
  run as their read and their write apart (\<open>decision_step\<close>). The properties quantify over
  all interleavings and failures of these steps; concurrent rotations of one secret are not
  modelled.

  \<^bold>\<open>Not modelled\<close>, with the reasons in the manifest: log lines and traces, which no result depends
  on; the texts of errors, except where the code reads them; generated code and mocks; adapters that
  only rename calls of third-party clients (Firestore, codecs, gRPC streams, email); command-line
  programs, whose work is parsing flags and printing around the packages above; memory, cancellation
  of contexts inside a call, and the limits of net/url on the number of parameters.
\<close>

end
